(* ===== verification/Lib_Interfaces.thy ===== *)
theory Lib_Interfaces
  imports Bird_Prelude
begin

text \<open>
  The directory \<open>lib/\<close> of the program is not part of this repository. What the sources
  use of it is a parameter of the model: a record of operations, passed to the definitions
  that use it, with a locale that states the documented behaviour the code relies on.
  Each locale is interpreted on a concrete implementation.
\<close>

section \<open>Unaligned access (\<open>lib/unaligned.h\<close>)\<close>

text \<open>
  \<open>get_u16\<close>, \<open>get_u32\<close>, \<open>put_u16\<close> and \<open>put_u32\<close> read and write an integer at a byte
  pointer. A read gets the bytes it covers, a write returns the bytes it stores.
\<close>

record unaligned =
  get_u16 :: "u8 list \<Rightarrow> u16"
  put_u16 :: "u16 \<Rightarrow> u8 list"
  get_u32 :: "u8 list \<Rightarrow> u32"
  put_u32 :: "u32 \<Rightarrow> u8 list"

locale unaligned_access =
  fixes U :: unaligned
  assumes length_put_u16: "length (put_u16 U v) = 2"
    and length_put_u32: "length (put_u32 U w) = 4"
    and get_put_u16: "get_u16 U (put_u16 U v) = v"
    and get_put_u32: "get_u32 U (put_u32 U w) = w"
    and put_get_u16: "length b = 2 \<Longrightarrow> put_u16 U (get_u16 U b) = b"
    and put_get_u32: "length b = 4 \<Longrightarrow> put_u32 U (get_u32 U b) = b"

text \<open>A read through a pointer whose remaining bytes are \<open>p\<close>.\<close>

definition rd_u32 :: "unaligned \<Rightarrow> u8 list \<Rightarrow> u32 res" where
  "rd_u32 U p = (if length p < 4 then Inl Out_of_bounds else Inr (get_u32 U (take 4 p)))"

definition rd_u16 :: "unaligned \<Rightarrow> u8 list \<Rightarrow> u16 res" where
  "rd_u16 U p = (if length p < 2 then Inl Out_of_bounds else Inr (get_u16 U (take 2 p)))"

context unaligned_access begin

lemmas put_lengths [simp] = length_put_u16 length_put_u32

lemma rd_u32_put: "rd_u32 U (put_u32 U v @ r) = Inr v"
  by (simp add: rd_u32_def length_put_u32 get_put_u32)

lemma rd_u16_put: "rd_u16 U (put_u16 U v @ r) = Inr v"
  by (simp add: rd_u16_def length_put_u16 get_put_u16)

lemma drop_put_u32: "drop 4 (put_u32 U v @ r) = r"
  by (simp add: length_put_u32)

lemma drop_put_u16: "drop 2 (put_u16 U v @ r) = r"
  by (simp add: length_put_u16)

lemma put_u32_inject: "put_u32 U v = put_u32 U w \<longleftrightarrow> v = w"
  by (metis get_put_u32)

end

text \<open>Network byte order, the implementation the interface is instantiated with.\<close>

definition be_bytes :: "nat \<Rightarrow> nat \<Rightarrow> u8 list" where
  "be_bytes k v = map (\<lambda>i. of_nat (v div 256 ^ i mod 256)) (rev [0..<k])"

definition be_value :: "u8 list \<Rightarrow> nat" where
  "be_value b = foldl (\<lambda>v x. v * 256 + unat x) 0 b"

definition network_order :: unaligned where
  "network_order = \<lparr>
     get_u16 = (\<lambda>b. of_nat (be_value b)), put_u16 = (\<lambda>v. be_bytes 2 (unat v)),
     get_u32 = (\<lambda>b. of_nat (be_value b)), put_u32 = (\<lambda>v. be_bytes 4 (unat v))\<rparr>"

lemma be_value_append: "be_value (b @ [x]) = be_value b * 256 + unat x"
  by (simp add: be_value_def)

lemma length_be_bytes [simp]: "length (be_bytes k v) = k"
  by (simp add: be_bytes_def)

lemma be_bytes_Suc: "be_bytes (Suc k) v = be_bytes k (v div 256) @ [of_nat (v mod 256)]"
proof -
  have "rev [0..<Suc k] = map Suc (rev [0..<k]) @ [0]"
    by (simp add: rev_map map_Suc_upt upt_conv_Cons flip: rev_map)
  then show ?thesis
    by (simp add: be_bytes_def div_mult2_eq comp_def)
qed

lemma be_value_bytes: "v < 256 ^ k \<Longrightarrow> be_value (be_bytes k v) = v"
proof (induction k arbitrary: v)
  case 0
  then show ?case by (simp add: be_bytes_def be_value_def)
next
  case (Suc k)
  then have "v div 256 < 256 ^ k" by (simp add: less_mult_imp_div_less mult.commute)
  then have "be_value (be_bytes k (v div 256)) = v div 256" by (rule Suc.IH)
  then show ?case by (simp add: be_bytes_Suc be_value_append)
qed

lemma be_bytes_value: "be_bytes (length b) (be_value b) = b"
proof (induction b rule: rev_induct)
  case Nil
  then show ?case by (simp add: be_bytes_def)
next
  case (snoc x b)
  have "(be_value b * 256 + unat x) div 256 = be_value b"
    by (simp add: div_mult_self3)
  with snoc show ?case by (simp add: be_bytes_Suc be_value_append)
qed

lemma be_value_less: "be_value b < 256 ^ length b"
proof (induction b rule: rev_induct)
  case Nil
  then show ?case by (simp add: be_value_def)
next
  case (snoc x b)
  have "unat x < 256" by simp
  then have "be_value b * 256 + unat x < (be_value b + 1) * 256" by simp
  also have "\<dots> \<le> 256 ^ length b * 256"
    using snoc by (intro mult_right_mono) auto
  finally show ?case by (simp add: be_value_append mult.commute)
qed

interpretation net: unaligned_access network_order
proof
  fix v :: u16 and w :: u32 and b :: "u8 list"
  show "length (put_u16 network_order v) = 2" "length (put_u32 network_order w) = 4"
    by (simp_all add: network_order_def)
  show "get_u16 network_order (put_u16 network_order v) = v"
    using unsigned_less [of v, where 'a = nat] by (simp add: network_order_def be_value_bytes)
  show "get_u32 network_order (put_u32 network_order w) = w"
    using unsigned_less [of w, where 'a = nat] by (simp add: network_order_def be_value_bytes)
  show "put_u16 network_order (get_u16 network_order b) = b" if "length b = 2"
    using that be_value_less [of b] be_bytes_value [of b]
    by (simp add: network_order_def unat_of_nat)
  show "put_u32 network_order (get_u32 network_order b) = b" if "length b = 4"
    using that be_value_less [of b] be_bytes_value [of b]
    by (simp add: network_order_def unat_of_nat)
qed

section \<open>IP addresses (\<open>lib/ip.h\<close>)\<close>

text \<open>
  An address has \<open>ip_bits\<close> bits (\<open>BITS_PER_IP_ADDRESS\<close>: 32 or 128, chosen when the daemon
  is built), numbered from the most significant one. \<open>ipa_pxlen\<close> is the length of the
  longest common prefix of two addresses, \<open>ipa_mkmask\<close> the mask of a prefix length, and
  \<open>ipa_compare\<close> a three way comparison.
\<close>

record 'a ip_ops =
  ip_bits :: nat
  ip_none :: 'a
  ipa_and :: "'a \<Rightarrow> 'a \<Rightarrow> 'a"
  ipa_or :: "'a \<Rightarrow> 'a \<Rightarrow> 'a"
  ipa_xor :: "'a \<Rightarrow> 'a \<Rightarrow> 'a"
  ipa_not :: "'a \<Rightarrow> 'a"
  ipa_mkmask :: "nat \<Rightarrow> 'a"
  ipa_getbit :: "'a \<Rightarrow> nat \<Rightarrow> bool"
  ipa_pxlen :: "'a \<Rightarrow> 'a \<Rightarrow> nat"
  ipa_compare :: "'a \<Rightarrow> 'a \<Rightarrow> int"
  ipa_hash :: "'a \<Rightarrow> u32"

definition ipa_equal :: "'a \<Rightarrow> 'a \<Rightarrow> bool" where "ipa_equal a b \<longleftrightarrow> a = b"

locale ip_address =
  fixes I :: "'a ip_ops"
  assumes bits_pos: "0 < ip_bits I"
    and getbit_none: "\<not> ipa_getbit I (ip_none I) i"
    and getbit_and: "ipa_getbit I (ipa_and I a b) i \<longleftrightarrow> ipa_getbit I a i \<and> ipa_getbit I b i"
    and getbit_or: "ipa_getbit I (ipa_or I a b) i \<longleftrightarrow> ipa_getbit I a i \<or> ipa_getbit I b i"
    and getbit_xor: "ipa_getbit I (ipa_xor I a b) i \<longleftrightarrow> ipa_getbit I a i \<noteq> ipa_getbit I b i"
    and getbit_not: "i < ip_bits I \<Longrightarrow> ipa_getbit I (ipa_not I a) i \<longleftrightarrow> \<not> ipa_getbit I a i"
    and getbit_mkmask:
      "n \<le> ip_bits I \<Longrightarrow> i < ip_bits I \<Longrightarrow> ipa_getbit I (ipa_mkmask I n) i \<longleftrightarrow> i < n"
    and address_eqI:
      "(\<And>i. i < ip_bits I \<Longrightarrow> ipa_getbit I a i = ipa_getbit I b i) \<Longrightarrow> a = b"
    and pxlen_le: "ipa_pxlen I a b \<le> ip_bits I"
    and pxlen_same: "i < ipa_pxlen I a b \<Longrightarrow> ipa_getbit I a i = ipa_getbit I b i"
    and pxlen_differ: "ipa_pxlen I a b < ip_bits I \<Longrightarrow>
      ipa_getbit I a (ipa_pxlen I a b) \<noteq> ipa_getbit I b (ipa_pxlen I a b)"
    and compare_eq: "ipa_compare I a b = 0 \<longleftrightarrow> a = b"
    and compare_swap: "ipa_compare I a b < 0 \<longleftrightarrow> 0 < ipa_compare I b a"
    and compare_trans: "ipa_compare I a b < 0 \<Longrightarrow> ipa_compare I b c < 0 \<Longrightarrow> ipa_compare I a c < 0"
begin

lemmas getbit_simps [simp] = getbit_none getbit_and getbit_or getbit_xor getbit_not getbit_mkmask

text \<open>The bits of an address that a prefix of length \<open>n\<close> fixes.\<close>

definition same_prefix :: "nat \<Rightarrow> 'a \<Rightarrow> 'a \<Rightarrow> bool" where
  "same_prefix n a b \<longleftrightarrow> (\<forall>i<n. ipa_getbit I a i = ipa_getbit I b i)"

lemma same_prefix_refl [simp]: "same_prefix n a a"
  by (simp add: same_prefix_def)

lemma same_prefix_sym: "same_prefix n a b \<Longrightarrow> same_prefix n b a"
  by (simp add: same_prefix_def)

lemma same_prefix_trans: "same_prefix n a b \<Longrightarrow> same_prefix n b c \<Longrightarrow> same_prefix n a c"
  by (simp add: same_prefix_def)

lemma same_prefix_mono: "same_prefix n a b \<Longrightarrow> m \<le> n \<Longrightarrow> same_prefix m a b"
  by (simp add: same_prefix_def)

lemma same_prefix_bits: "same_prefix (ip_bits I) a b \<longleftrightarrow> a = b"
  by (auto simp: same_prefix_def intro: address_eqI)

lemma same_prefix_Suc:
  "same_prefix (Suc n) a b \<longleftrightarrow> same_prefix n a b \<and> ipa_getbit I a n = ipa_getbit I b n"
  by (auto simp: same_prefix_def less_Suc_eq)

lemma masked_eq_iff:
  assumes "n \<le> ip_bits I"
  shows "ipa_and I a (ipa_mkmask I n) = ipa_and I b (ipa_mkmask I n) \<longleftrightarrow> same_prefix n a b"
proof
  assume *: "ipa_and I a (ipa_mkmask I n) = ipa_and I b (ipa_mkmask I n)"
  show "same_prefix n a b" unfolding same_prefix_def
  proof (intro allI impI)
    fix i assume "i < n"
    then show "ipa_getbit I a i = ipa_getbit I b i"
      using assms arg_cong [OF *, of "\<lambda>x. ipa_getbit I x i"] by simp
  qed
next
  assume "same_prefix n a b"
  with assms show "ipa_and I a (ipa_mkmask I n) = ipa_and I b (ipa_mkmask I n)"
    by (intro address_eqI) (auto simp: same_prefix_def)
qed

lemma pxlen_iff:
  assumes "n \<le> ip_bits I"
  shows "n \<le> ipa_pxlen I a b \<longleftrightarrow> same_prefix n a b"
proof
  show "n \<le> ipa_pxlen I a b \<Longrightarrow> same_prefix n a b"
    unfolding same_prefix_def using pxlen_same by (meson less_le_trans)
  show "n \<le> ipa_pxlen I a b" if "same_prefix n a b"
  proof (rule ccontr)
    assume "\<not> n \<le> ipa_pxlen I a b"
    then have "ipa_pxlen I a b < n" by simp
    with that assms pxlen_differ [of a b] show False by (simp add: same_prefix_def)
  qed
qed

lemma compare_antisym: "0 < ipa_compare I a b \<longleftrightarrow> ipa_compare I b a < 0"
  by (simp add: compare_swap)

lemma compare_refl [simp]: "ipa_compare I a a = 0"
  by (simp add: compare_eq)

end

text \<open>Addresses of 32 bits, as in a daemon built for IPv4.\<close>

definition common_bits :: "u32 \<Rightarrow> u32 \<Rightarrow> nat" where
  "common_bits a b = length (takeWhile (\<lambda>i. bit a (31 - i) = bit b (31 - i)) [0..<32])"

definition ip4_ops :: "u32 ip_ops" where
  "ip4_ops = \<lparr> ip_bits = 32, ip_none = 0, ipa_and = (AND), ipa_or = (OR), ipa_xor = (XOR),
     ipa_not = NOT, ipa_mkmask = (\<lambda>n. NOT (mask (32 - n))),
     ipa_getbit = (\<lambda>a i. i < 32 \<and> bit a (31 - i)), ipa_pxlen = common_bits,
     ipa_compare = (\<lambda>a b. if a < b then -1 else if a = b then 0 else 1),
     ipa_hash = (\<lambda>a. (a XOR drop_bit 16 a XOR drop_bit 10 a) AND 0xffff) \<rparr>"

lemma ip4_ops_simps [simp]:
  "ip_bits ip4_ops = 32" "ip_none ip4_ops = 0"
  "ipa_and ip4_ops a b = (a AND b)" "ipa_or ip4_ops a b = (a OR b)"
  "ipa_xor ip4_ops a b = (a XOR b)" "ipa_not ip4_ops a = NOT a"
  "ipa_mkmask ip4_ops n = NOT (mask (32 - n))"
  "ipa_getbit ip4_ops a i \<longleftrightarrow> i < 32 \<and> bit a (31 - i)"
  "ipa_pxlen ip4_ops a b = common_bits a b"
  "ipa_compare ip4_ops a b = (if a < b then -1 else if a = b then 0 else 1)"
  by (simp_all add: ip4_ops_def)

lemma takeWhile_upt_bound:
  "i < length (takeWhile P [0..<n]) \<Longrightarrow> P i"
  "length (takeWhile P [0..<n]) < n \<Longrightarrow> \<not> P (length (takeWhile P [0..<n]))"
proof -
  show "P i" if "i < length (takeWhile P [0..<n])"
  proof -
    have "takeWhile P [0..<n] ! i = [0..<n] ! i" using that by (rule takeWhile_nth)
    moreover have "i < n" using that length_takeWhile_le [of P "[0..<n]"] by simp
    ultimately show ?thesis using set_takeWhileD [OF nth_mem [OF that]] by simp
  qed
  show "\<not> P (length (takeWhile P [0..<n]))" if "length (takeWhile P [0..<n]) < n"
    using that nth_length_takeWhile [of P "[0..<n]"] by simp
qed

interpretation ip4: ip_address ip4_ops
proof
  fix a b c :: u32 and i n :: nat
  show "(\<And>i. i < ip_bits ip4_ops \<Longrightarrow> ipa_getbit ip4_ops a i = ipa_getbit ip4_ops b i) \<Longrightarrow> a = b"
  proof (rule bit_word_eqI)
    fix k assume *: "\<And>i. i < ip_bits ip4_ops \<Longrightarrow> ipa_getbit ip4_ops a i = ipa_getbit ip4_ops b i"
      and "k < LENGTH(32)"
    then show "bit a k = bit b k" using * [of "31 - k"] by simp
  qed
  show "ipa_getbit ip4_ops (ipa_mkmask ip4_ops n) i \<longleftrightarrow> i < n"
    if "n \<le> ip_bits ip4_ops" "i < ip_bits ip4_ops"
    using that by (auto simp: bit_simps)
  show "ipa_getbit ip4_ops (ipa_not ip4_ops a) i \<longleftrightarrow> \<not> ipa_getbit ip4_ops a i"
    if "i < ip_bits ip4_ops"
    using that by (auto simp: bit_simps)
  have "length (takeWhile P [0..<32]) \<le> 32" for P
    using length_takeWhile_le [of P "[0..<32]"] by simp
  then show "ipa_pxlen ip4_ops a b \<le> ip_bits ip4_ops" by (simp add: common_bits_def)
  show "ipa_getbit ip4_ops a i = ipa_getbit ip4_ops b i" if "i < ipa_pxlen ip4_ops a b"
    using that takeWhile_upt_bound(1) [of i _ 32] by (auto simp: common_bits_def)
  show "ipa_getbit ip4_ops a (ipa_pxlen ip4_ops a b) \<noteq> ipa_getbit ip4_ops b (ipa_pxlen ip4_ops a b)"
    if "ipa_pxlen ip4_ops a b < ip_bits ip4_ops"
    using that takeWhile_upt_bound(2) [of _ 32] by (auto simp: common_bits_def)
qed (auto simp: bit_simps split: if_splits)

end
