(* ===== verification/AsPath.thy ===== *)
theory AsPath
  imports Lib_Interfaces
begin

text \<open>
  AS paths, \<open>nest/a-path.c\<close>. A path is the data of a \<open>struct adata\<close>: a sequence of
  segments, each a type byte, a count byte and that many AS numbers of \<open>BS\<close> = 4 bytes.
  A pointer into the path is modelled by the bytes that remain after it.
\<close>

section \<open>The operations\<close>

definition AS_PATH_SET :: u8 where "AS_PATH_SET = 1"
definition AS_PATH_SEQUENCE :: u8 where "AS_PATH_SEQUENCE = 2"
definition AS_PATH_CONFED_SEQUENCE :: u8 where "AS_PATH_CONFED_SEQUENCE = 3"
definition AS_PATH_CONFED_SET :: u8 where "AS_PATH_CONFED_SET = 4"

definition AS_PATH_MAXLEN :: nat where "AS_PATH_MAXLEN = 10000"
definition AS_TRANS :: u16 where "AS_TRANS = 23456"

definition BS :: nat where "BS = 4"

lemmas as_path_consts =
  AS_PATH_SET_def AS_PATH_SEQUENCE_def AS_PATH_CONFED_SEQUENCE_def AS_PATH_CONFED_SET_def

fun as_path_prepend :: "unaligned \<Rightarrow> u8 list \<Rightarrow> u32 \<Rightarrow> u8 list res" where
  "as_path_prepend U [] as = Inr ([AS_PATH_SEQUENCE, 1] @ put_u32 U as)"
| "as_path_prepend U [t] as =
     (if t = AS_PATH_SEQUENCE then Inl Out_of_bounds
      else Inr ([AS_PATH_SEQUENCE, 1] @ put_u32 U as @ [t]))"
| "as_path_prepend U (t # n # r) as =
     (if t = AS_PATH_SEQUENCE \<and> n < 255
      then Inr ([AS_PATH_SEQUENCE, n + 1] @ put_u32 U as @ r)
      else Inr ([AS_PATH_SEQUENCE, 1] @ put_u32 U as @ t # n # r))"

text \<open>
  Conversion to 2-byte AS numbers: the inner loop over the \<open>n\<close> AS numbers of a segment
  returns the bytes stored, whether \<open>AS_TRANS\<close> was used, and where \<open>src\<close> ends up.
\<close>

fun convert_to_old_asns :: "unaligned \<Rightarrow> nat \<Rightarrow> u8 list \<Rightarrow> (u8 list \<times> bool \<times> u8 list) res" where
  "convert_to_old_asns U 0 src = Inr ([], False, src)"
| "convert_to_old_asns U (Suc n) src =
     rbind (rd_u32 U src) (\<lambda>as.
     rbind (convert_to_old_asns U n (drop 4 src)) (\<lambda>(dst, new_used, src').
       Inr (put_u16 U (if as > 0xFFFF then AS_TRANS else ucast as) @ dst,
            as > 0xFFFF \<or> new_used, src')))"

lemma convert_to_old_asns_length:
  "convert_to_old_asns U n src = Inr (dst, nu, src') \<Longrightarrow> length src' \<le> length src"
  by (induction n arbitrary: src dst nu) (fastforce simp: rbind_Inr_iff)+

function as_path_convert_to_old :: "unaligned \<Rightarrow> u8 list \<Rightarrow> (u8 list \<times> bool) res" where
  "as_path_convert_to_old U [] = Inr ([], False)"
| "as_path_convert_to_old U [t] = Inl Out_of_bounds"
| "as_path_convert_to_old U (t # n # src) =
     rbind (convert_to_old_asns U (unat n) src) (\<lambda>x. case x of (dst, nu, src') \<Rightarrow>
     rbind (as_path_convert_to_old U src') (\<lambda>(dst', nu'). Inr (t # n # dst @ dst', nu \<or> nu')))"
  by pat_completeness auto
termination
  by (relation "measure (\<lambda>(U, p). length p)")
     (auto dest!: convert_to_old_asns_length)

fun convert_to_new_asns :: "unaligned \<Rightarrow> nat \<Rightarrow> u8 list \<Rightarrow> (u8 list \<times> u8 list) res" where
  "convert_to_new_asns U 0 src = Inr ([], src)"
| "convert_to_new_asns U (Suc n) src =
     rbind (rd_u16 U src) (\<lambda>as.
     rbind (convert_to_new_asns U n (drop 2 src)) (\<lambda>(dst, src').
       Inr (put_u32 U (ucast as) @ dst, src')))"

lemma convert_to_new_asns_length:
  "convert_to_new_asns U n src = Inr (dst, src') \<Longrightarrow> length src' \<le> length src"
  by (induction n arbitrary: src dst) (fastforce simp: rbind_Inr_iff)+

text \<open>Only the first \<open>req_as\<close> positions of the path are converted.\<close>

function as_path_convert_to_new :: "unaligned \<Rightarrow> u8 list \<Rightarrow> int \<Rightarrow> u8 list res" where
  "as_path_convert_to_new U [] req_as = Inr []"
| "as_path_convert_to_new U [t] req_as = (if req_as > 0 then Inl Out_of_bounds else Inr [])"
| "as_path_convert_to_new U (t # n # src) req_as =
     (if req_as > 0 then
        let k = (if t = AS_PATH_SEQUENCE then nat (min (int (unat n)) req_as) else unat n);
            req' = (if t = AS_PATH_SEQUENCE then req_as - int k else req_as - 1)
        in rbind (convert_to_new_asns U k src) (\<lambda>x. case x of (dst, src') \<Rightarrow>
           rbind (as_path_convert_to_new U src' req') (\<lambda>dst'.
             Inr (t # of_nat k # dst @ dst')))
      else Inr [])"
  by pat_completeness auto
termination
  by (relation "measure (\<lambda>(U, p, r). length p)")
     (auto dest!: convert_to_new_asns_length)

fun as_path_getlen_int :: "u8 list \<Rightarrow> nat \<Rightarrow> nat res" where
  "as_path_getlen_int [] bs = Inr 0"
| "as_path_getlen_int [t] bs =
     (if t = AS_PATH_SET \<or> t = AS_PATH_SEQUENCE then Inl Out_of_bounds else Inl Bug)"
| "as_path_getlen_int (t # len # p) bs =
     (if t = AS_PATH_SET then rmap (\<lambda>res. res + 1) (as_path_getlen_int (drop (bs * unat len) p) bs)
      else if t = AS_PATH_SEQUENCE then
        rmap (\<lambda>res. res + unat len) (as_path_getlen_int (drop (bs * unat len) p) bs)
      else Inl Bug)"

definition as_path_getlen :: "u8 list \<Rightarrow> nat res" where
  "as_path_getlen path = as_path_getlen_int path BS"

text \<open>
  \<open>as_path_get_last\<close>: the AS number found so far is \<open>Some res\<close> where \<open>found\<close> is set.
\<close>

fun get_last_loop :: "unaligned \<Rightarrow> u8 list \<Rightarrow> u32 option \<Rightarrow> u32 option res" where
  "get_last_loop U [] res = Inr res"
| "get_last_loop U [t] res =
     (if t = AS_PATH_SET \<or> t = AS_PATH_SEQUENCE then Inl Out_of_bounds else Inl Bug)"
| "get_last_loop U (t # len # p) res =
     (if t = AS_PATH_SET then
        get_last_loop U (drop (BS * unat len) p) (if len = 0 then res else None)
      else if t = AS_PATH_SEQUENCE then
        (if len = 0 then get_last_loop U p res
         else rbind (rd_u32 U (drop (BS * (unat len - 1)) p)) (\<lambda>as.
                get_last_loop U (drop (BS * unat len) p) (Some as)))
      else Inl Bug)"

definition as_path_get_last :: "unaligned \<Rightarrow> u8 list \<Rightarrow> u32 option res" where
  "as_path_get_last U path = get_last_loop U path None"

fun get_last_nonaggr_loop :: "unaligned \<Rightarrow> u8 list \<Rightarrow> u32 \<Rightarrow> u32 res" where
  "get_last_nonaggr_loop U [] res = Inr res"
| "get_last_nonaggr_loop U (t # r) res =
     (if t = AS_PATH_SET then Inr res
      else if t = AS_PATH_SEQUENCE then
        (case r of [] \<Rightarrow> Inl Out_of_bounds
         | len # p \<Rightarrow>
             (if len = 0 then get_last_nonaggr_loop U p res
              else rbind (rd_u32 U (drop (BS * (unat len - 1)) p)) (\<lambda>as.
                     get_last_nonaggr_loop U (drop (BS * unat len) p) as)))
      else Inl Bug)"

definition as_path_get_last_nonaggregated :: "unaligned \<Rightarrow> u8 list \<Rightarrow> u32 res" where
  "as_path_get_last_nonaggregated U path = get_last_nonaggr_loop U path 0"

fun as_path_get_first :: "unaligned \<Rightarrow> u8 list \<Rightarrow> u32 option res" where
  "as_path_get_first U [] = Inr None"
| "as_path_get_first U (t # r) =
     (if t \<noteq> AS_PATH_SEQUENCE then Inr None
      else case r of [] \<Rightarrow> Inl Out_of_bounds
           | n # p \<Rightarrow> (if n = 0 then Inr None else rmap Some (rd_u32 U p)))"

text \<open>
  The loops over the AS numbers of one segment, as in \<open>as_path_contains\<close> and
  \<open>as_path_match_set\<close>: \<open>Inr (Inl _)\<close> is the early \<open>return 1\<close>.
\<close>

fun contains_asns ::
  "unaligned \<Rightarrow> u32 \<Rightarrow> int \<Rightarrow> nat \<Rightarrow> u8 list \<Rightarrow> int \<Rightarrow> (unit + int \<times> u8 list) res"
where
  "contains_asns U as mn 0 p num = Inr (Inr (num, p))"
| "contains_asns U as mn (Suc n) p num =
     rbind (rd_u32 U p) (\<lambda>a.
       if a = as then
         (if num + 1 = mn then Inr (Inl ()) else contains_asns U as mn n (drop BS p) (num + 1))
       else contains_asns U as mn n (drop BS p) num)"

lemma contains_asns_length:
  "contains_asns U as mn n p num = Inr (Inr (num', p')) \<Longrightarrow> length p' \<le> length p"
  by (induction n arbitrary: p num) (fastforce simp: rbind_Inr_iff split: if_splits)+

function contains_loop :: "unaligned \<Rightarrow> u32 \<Rightarrow> int \<Rightarrow> u8 list \<Rightarrow> int \<Rightarrow> bool res" where
  "contains_loop U as mn [] num = Inr False"
| "contains_loop U as mn [t] num = Inl Out_of_bounds"
| "contains_loop U as mn (t # n # p) num =
     rbind (contains_asns U as mn (unat n) p num) (\<lambda>r.
       case r of Inl _ \<Rightarrow> Inr True | Inr x \<Rightarrow> (case x of (num', p') \<Rightarrow> contains_loop U as mn p' num'))"
  by pat_completeness auto
termination
  by (relation "measure (\<lambda>(U, a, m, p, k). length p)")
     (auto dest!: contains_asns_length)

definition as_path_contains :: "unaligned \<Rightarrow> u8 list \<Rightarrow> u32 \<Rightarrow> int \<Rightarrow> bool res" where
  "as_path_contains U path as mn = contains_loop U as mn path 0"

text \<open>
  \<open>as_path_match_set\<close>: \<open>fnd\<close> stands for the call \<open>find_tree(set, {T_INT, as})\<close>, which
  the theory of filter values supplies.
\<close>

fun match_set_asns :: "unaligned \<Rightarrow> (u32 \<Rightarrow> bool) \<Rightarrow> nat \<Rightarrow> u8 list \<Rightarrow> (unit + u8 list) res" where
  "match_set_asns U fnd 0 p = Inr (Inr p)"
| "match_set_asns U fnd (Suc n) p =
     rbind (rd_u32 U p) (\<lambda>a.
       if fnd a then Inr (Inl ()) else match_set_asns U fnd n (drop BS p))"

lemma match_set_asns_length:
  "match_set_asns U fnd n p = Inr (Inr p') \<Longrightarrow> length p' \<le> length p"
  by (induction n arbitrary: p) (fastforce simp: rbind_Inr_iff split: if_splits)+

function as_path_match_set :: "unaligned \<Rightarrow> u8 list \<Rightarrow> (u32 \<Rightarrow> bool) \<Rightarrow> bool res" where
  "as_path_match_set U [] fnd = Inr False"
| "as_path_match_set U [t] fnd = Inl Out_of_bounds"
| "as_path_match_set U (t # n # p) fnd =
     rbind (match_set_asns U fnd (unat n) p) (\<lambda>r.
       case r of Inl _ \<Rightarrow> Inr True | Inr p' \<Rightarrow> as_path_match_set U p' fnd)"
  by pat_completeness auto
termination
  by (relation "measure (\<lambda>(U, p, f). length p)") (auto dest!: match_set_asns_length)

text \<open>
  \<open>as_path_filter\<close>: \<open>mtch\<close> is membership in \<open>set\<close>, or equality with \<open>key\<close> when there is
  no set. The loop over a block returns the bytes kept, their number \<open>dn\<close> and \<open>p\<close>; the
  outer loop returns the contents of \<open>buf\<close>.
\<close>

fun filter_asns ::
  "unaligned \<Rightarrow> (u32 \<Rightarrow> bool) \<Rightarrow> bool \<Rightarrow> nat \<Rightarrow> u8 list \<Rightarrow> (u8 list \<times> nat \<times> u8 list) res"
where
  "filter_asns U mtch pos 0 p = Inr ([], 0, p)"
| "filter_asns U mtch pos (Suc sn) p =
     rbind (rd_u32 U p) (\<lambda>as.
     rbind (filter_asns U mtch pos sn (drop BS p)) (\<lambda>(d, dn, p').
       Inr (if mtch as = pos then (put_u32 U as @ d, Suc dn, p') else (d, dn, p'))))"

lemma filter_asns_length:
  "filter_asns U mtch pos n p = Inr (d, dn, p') \<Longrightarrow> length p' \<le> length p"
  by (induction n arbitrary: p d dn) (fastforce simp: rbind_Inr_iff split: if_splits)+

function filter_loop :: "unaligned \<Rightarrow> (u32 \<Rightarrow> bool) \<Rightarrow> bool \<Rightarrow> u8 list \<Rightarrow> u8 list res" where
  "filter_loop U mtch pos [] = Inr []"
| "filter_loop U mtch pos [bt] = Inl Out_of_bounds"
| "filter_loop U mtch pos (bt # sn # p) =
     rbind (filter_asns U mtch pos (unat sn) p) (\<lambda>x. case x of (d, dn, p') \<Rightarrow>
     rbind (filter_loop U mtch pos p') (\<lambda>buf.
       Inr (if dn > 0 then bt # of_nat dn # d @ buf else buf)))"
  by pat_completeness auto
termination
  by (relation "measure (\<lambda>(U, f, pos, p). length p)") (auto dest!: filter_asns_length)

definition as_path_filter ::
  "unaligned \<Rightarrow> u8 list option \<Rightarrow> (u32 \<Rightarrow> bool) \<Rightarrow> bool \<Rightarrow> u8 list option res"
where
  "as_path_filter U path mtch pos =
     (case path of None \<Rightarrow> Inr None
      | Some data \<Rightarrow>
          rbind (filter_loop U mtch pos data) (\<lambda>buf.
            Inr (Some (if length buf = length data then data else buf))))"

section \<open>Segments: what a path says\<close>

text \<open>
  The abstract value of a path is the list of its segments. \<open>path_bytes\<close> is the encoding;
  a path that holds SET and SEQUENCE segments only is what the daemon stores
  (\<open>validate_path\<close> drops every other segment).
\<close>

datatype seg = Seg (seg_type: u8) (seg_asns: "u32 list")

definition seg_ok :: "seg \<Rightarrow> bool" where
  "seg_ok s \<longleftrightarrow> seg_type s \<in> {AS_PATH_SET, AS_PATH_SEQUENCE} \<and> length (seg_asns s) < 256"

definition asns_bytes :: "unaligned \<Rightarrow> u32 list \<Rightarrow> u8 list" where
  "asns_bytes U as = concat (map (put_u32 U) as)"

definition seg_bytes :: "unaligned \<Rightarrow> seg \<Rightarrow> u8 list" where
  "seg_bytes U s = seg_type s # of_nat (length (seg_asns s)) # asns_bytes U (seg_asns s)"

definition path_bytes :: "unaligned \<Rightarrow> seg list \<Rightarrow> u8 list" where
  "path_bytes U segs = concat (map (seg_bytes U) segs)"

definition path_asns :: "seg list \<Rightarrow> u32 list" where
  "path_asns segs = concat (map seg_asns segs)"

lemma asns_bytes_simps [simp]:
  "asns_bytes U [] = []"
  "asns_bytes U (a # as) = put_u32 U a @ asns_bytes U as"
  by (simp_all add: asns_bytes_def)

lemma asns_bytes_append: "asns_bytes U (as @ bs) = asns_bytes U as @ asns_bytes U bs"
  by (simp add: asns_bytes_def)

lemma path_bytes_simps [simp]:
  "path_bytes U [] = []"
  "path_bytes U (Seg t as # segs) = t # of_nat (length as) # asns_bytes U as @ path_bytes U segs"
  by (simp_all add: path_bytes_def seg_bytes_def)

lemma path_asns_simps [simp]:
  "path_asns [] = []"
  "path_asns (Seg t as # segs) = as @ path_asns segs"
  by (simp_all add: path_asns_def)

lemma seg_ok_simps [simp]:
  "seg_ok (Seg t as) \<longleftrightarrow> (t = AS_PATH_SET \<or> t = AS_PATH_SEQUENCE) \<and> length as < 256"
  by (auto simp: seg_ok_def)

lemma seg_types_distinct [simp]: "AS_PATH_SET \<noteq> AS_PATH_SEQUENCE" "AS_PATH_SEQUENCE \<noteq> AS_PATH_SET"
  by (simp_all add: as_path_consts)

lemma seg_count_zero_iff [simp]:
  "length as < 256 \<Longrightarrow> (of_nat (length as) :: u8) = 0 \<longleftrightarrow> as = []"
  by (auto dest: arg_cong [where f = unat])

lemma seg_count_Suc [simp]: "n < 255 \<Longrightarrow> 1 + (of_nat n :: u8) \<noteq> 0"
  using unat_of_nat_u8 [of "Suc n"] by (auto dest: arg_cong [where f = unat])

text \<open>The same operations on segments.\<close>

fun segs_len :: "seg list \<Rightarrow> nat" where
  "segs_len [] = 0"
| "segs_len (Seg t as # segs) = (if t = AS_PATH_SET then 1 else length as) + segs_len segs"

fun segs_prepend :: "seg list \<Rightarrow> u32 \<Rightarrow> seg list" where
  "segs_prepend [] a = [Seg AS_PATH_SEQUENCE [a]]"
| "segs_prepend (Seg t as # segs) a =
     (if t = AS_PATH_SEQUENCE \<and> length as < 255 then Seg t (a # as) # segs
      else Seg AS_PATH_SEQUENCE [a] # Seg t as # segs)"

fun segs_first :: "seg list \<Rightarrow> u32 option" where
  "segs_first (Seg t (a # as) # segs) = (if t = AS_PATH_SEQUENCE then Some a else None)"
| "segs_first segs = None"

definition segs_filter :: "(u32 \<Rightarrow> bool) \<Rightarrow> seg list \<Rightarrow> seg list" where
  "segs_filter keep segs =
     filter (\<lambda>s. seg_asns s \<noteq> []) (map (\<lambda>s. Seg (seg_type s) (filter keep (seg_asns s))) segs)"

text \<open>
  The origin of a path: the last AS number of its last non-empty segment, if that is a
  sequence; and the last AS number before the first set.
\<close>

definition segs_last :: "seg list \<Rightarrow> u32 option" where
  "segs_last segs =
     (case rev (filter (\<lambda>s. seg_asns s \<noteq> []) segs) of [] \<Rightarrow> None
      | s # _ \<Rightarrow> if seg_type s = AS_PATH_SEQUENCE then Some (last (seg_asns s)) else None)"

definition segs_last_nonaggregated :: "seg list \<Rightarrow> u32" where
  "segs_last_nonaggregated segs =
     (let as = path_asns (takeWhile (\<lambda>s. seg_type s \<noteq> AS_PATH_SET) segs)
      in if as = [] then 0 else last as)"


text \<open>Two-byte encodings: every AS number above \<open>0xFFFF\<close> is replaced by \<open>AS_TRANS\<close>.\<close>

definition old_asn :: "u32 \<Rightarrow> u16" where
  "old_asn a = (if a > 0xFFFF then AS_TRANS else ucast a)"

definition old_asns_bytes :: "unaligned \<Rightarrow> u32 list \<Rightarrow> u8 list" where
  "old_asns_bytes U as = concat (map (\<lambda>a. put_u16 U (old_asn a)) as)"

definition old_path_bytes :: "unaligned \<Rightarrow> seg list \<Rightarrow> u8 list" where
  "old_path_bytes U segs =
     concat (map (\<lambda>s. seg_type s # of_nat (length (seg_asns s)) #
                       old_asns_bytes U (seg_asns s)) segs)"

lemma old_path_bytes_simps [simp]:
  "old_asns_bytes U [] = []"
  "old_asns_bytes U (a # as) = put_u16 U (old_asn a) @ old_asns_bytes U as"
  "old_path_bytes U [] = []"
  "old_path_bytes U (Seg t as # segs) =
     t # of_nat (length as) # old_asns_bytes U as @ old_path_bytes U segs"
  by (simp_all add: old_path_bytes_def old_asns_bytes_def)

text \<open>What is left of an AS number after a trip through a two-byte path.\<close>

definition through_old :: "u32 \<Rightarrow> u32" where
  "through_old a = ucast (old_asn a)"

lemma through_old_small: "a \<le> 0xFFFF \<Longrightarrow> through_old a = a"
  by (simp add: through_old_def old_asn_def word_less_nat_alt word_le_nat_alt
      unsigned_ucast_eq unsigned_take_bit_eq take_bit_nat_eq_self word_unat_eq_iff)

text \<open>The first \<open>k\<close> positions of a path, a set being one position.\<close>

fun segs_take :: "int \<Rightarrow> seg list \<Rightarrow> seg list" where
  "segs_take k [] = []"
| "segs_take k (Seg t as # segs) =
     (if k \<le> 0 then []
      else if t = AS_PATH_SEQUENCE
        then Seg t (take (nat k) as) # segs_take (k - int (length as)) segs
        else Seg t as # segs_take (k - 1) segs)"

lemma segs_take_stop [simp]: "k \<le> 0 \<Longrightarrow> segs_take k segs = []"
  by (cases "(k, segs)" rule: segs_take.cases) auto

definition segs_map :: "(u32 \<Rightarrow> u32) \<Rightarrow> seg list \<Rightarrow> seg list" where
  "segs_map f segs = map (\<lambda>s. Seg (seg_type s) (map f (seg_asns s))) segs"

section \<open>The operations on encoded paths\<close>

context unaligned_access begin

lemma length_asns_bytes [simp]: "length (asns_bytes U as) = 4 * length as"
  unfolding asns_bytes_def by (rule length_concat_const) (simp add: length_put_u32)

lemma drop_asns_bytes [simp]: "n = 4 * length as \<Longrightarrow> drop n (asns_bytes U as @ r) = r"
  by simp

lemma rd_u32_asns [simp]: "rd_u32 U (put_u32 U a @ r) = Inr a"
  by (rule rd_u32_put)

lemma drop_asn [simp]: "drop 4 (put_u32 U a @ r) = r"
  by (rule drop_put_u32)

lemma rd_u32_last_asn:
  "as \<noteq> [] \<Longrightarrow>
   rd_u32 U (drop (4 * (length as - Suc 0)) (asns_bytes U as) @ r) = Inr (last as)"
proof (induction as rule: rev_induct)
  case (snoc a as)
  then show ?case by (simp add: asns_bytes_append)
qed simp

lemma getlen_bytes [wire_simps]:
  "list_all seg_ok segs \<Longrightarrow> as_path_getlen_int (path_bytes U segs) BS = Inr (segs_len segs)"
  by (induction segs rule: segs_len.induct) (auto simp: BS_def)

lemma prepend_bytes [wire_simps]:
  "list_all seg_ok segs \<Longrightarrow>
   as_path_prepend U (path_bytes U segs) a = Inr (path_bytes U (segs_prepend segs a))"
proof (induction segs a rule: segs_prepend.induct)
  case (2 t as segs a)
  then have "length as < 256" by simp
  then have "(of_nat (length as) :: u8) < 255 \<longleftrightarrow> length as < 255"
    by (simp add: word_less_nat_alt)
  with 2 show ?case by (simp add: add.commute)
qed simp

lemma first_bytes [wire_simps]:
  "list_all seg_ok segs \<Longrightarrow> as_path_get_first U (path_bytes U segs) = Inr (segs_first segs)"
  by (induction segs rule: segs_first.induct) auto

lemma get_last_loop_bytes:
  "list_all seg_ok segs \<Longrightarrow> get_last_loop U (path_bytes U segs) res =
     Inr (if \<forall>s \<in> set segs. seg_asns s = [] then res else segs_last segs)"
proof (induction segs arbitrary: res)
  case (Cons s segs)
  obtain t as where s: "s = Seg t as" by (cases s)
  with Cons.prems have ok: "length as < 256" "t = AS_PATH_SET \<or> t = AS_PATH_SEQUENCE"
    by simp_all
  show ?case
  proof (cases "as = []")
    case True
    with s ok Cons show ?thesis by (auto simp: segs_last_def)
  next
    case False
    then have "segs_last (s # segs) =
        (if \<forall>s \<in> set segs. seg_asns s = []
         then if t = AS_PATH_SEQUENCE then Some (last as) else None else segs_last segs)"
      by (auto simp: s segs_last_def filter_empty_conv split: list.splits)
    with False s ok Cons show ?thesis by (auto simp: BS_def rd_u32_last_asn)
  qed
qed simp

lemma last_bytes [wire_simps]:
  "list_all seg_ok segs \<Longrightarrow> as_path_get_last U (path_bytes U segs) = Inr (segs_last segs)"
  by (auto simp: as_path_get_last_def get_last_loop_bytes segs_last_def filter_empty_conv)

lemma last_nonaggr_loop_bytes:
  "list_all seg_ok segs \<Longrightarrow> get_last_nonaggr_loop U (path_bytes U segs) res =
     Inr (let as = path_asns (takeWhile (\<lambda>s. seg_type s \<noteq> AS_PATH_SET) segs)
          in if as = [] then res else last as)"
proof (induction segs arbitrary: res)
  case (Cons s segs)
  obtain t as where s: "s = Seg t as" by (cases s)
  with Cons.prems have ok: "length as < 256" "t = AS_PATH_SET \<or> t = AS_PATH_SEQUENCE"
    by simp_all
  then show ?case using Cons s by (auto simp: BS_def rd_u32_last_asn Let_def)
qed simp

lemma last_nonaggregated_bytes [wire_simps]:
  "list_all seg_ok segs \<Longrightarrow>
   as_path_get_last_nonaggregated U (path_bytes U segs) = Inr (segs_last_nonaggregated segs)"
  by (simp add: as_path_get_last_nonaggregated_def last_nonaggr_loop_bytes
      segs_last_nonaggregated_def)

lemma contains_asns_bytes:
  "num < mn \<Longrightarrow> contains_asns U a mn (length as) (asns_bytes U as @ r) num =
     (if mn \<le> num + int (count_list as a) then Inr (Inl ())
      else Inr (Inr (num + int (count_list as a), r)))"
  by (induction as arbitrary: num) (auto simp: BS_def)

lemma contains_loop_bytes:
  "list_all seg_ok segs \<Longrightarrow> num < mn \<Longrightarrow>
   contains_loop U a mn (path_bytes U segs) num =
     Inr (mn \<le> num + int (count_list (path_asns segs) a))"
proof (induction segs arbitrary: num)
  case (Cons s segs)
  then show ?case by (cases s) (auto simp: contains_asns_bytes)
qed simp

lemma contains_bytes [wire_simps]:
  "list_all seg_ok segs \<Longrightarrow> 0 < mn \<Longrightarrow>
   as_path_contains U (path_bytes U segs) a mn = Inr (mn \<le> int (count_list (path_asns segs) a))"
  by (simp add: as_path_contains_def contains_loop_bytes)

lemma match_set_asns_bytes:
  "match_set_asns U f (length as) (asns_bytes U as @ r) =
     Inr (if \<exists>a \<in> set as. f a then Inl () else Inr r)"
  by (induction as) (auto simp: BS_def)

lemma match_set_bytes [wire_simps]:
  "list_all seg_ok segs \<Longrightarrow>
   as_path_match_set U (path_bytes U segs) f = Inr (\<exists>a \<in> set (path_asns segs). f a)"
proof (induction segs)
  case (Cons s segs)
  then show ?case by (cases s) (auto simp: match_set_asns_bytes)
qed simp

lemma filter_asns_bytes:
  "filter_asns U f pos (length as) (asns_bytes U as @ r) =
     Inr (asns_bytes U (filter (\<lambda>a. f a = pos) as), length (filter (\<lambda>a. f a = pos) as), r)"
  by (induction as) (auto simp: BS_def)

lemma filter_loop_bytes:
  "list_all seg_ok segs \<Longrightarrow>
   filter_loop U f pos (path_bytes U segs) = Inr (path_bytes U (segs_filter (\<lambda>a. f a = pos) segs))"
proof (induction segs)
  case (Cons s segs)
  then show ?case
    by (cases s) (auto simp: filter_asns_bytes segs_filter_def)
qed (simp add: segs_filter_def)

lemma convert_to_old_asns_bytes:
  "convert_to_old_asns U (length as) (asns_bytes U as @ r) =
     Inr (old_asns_bytes U as, \<exists>a \<in> set as. a > 0xFFFF, r)"
  by (induction as) (auto simp: old_asn_def)

lemma convert_to_old_bytes [wire_simps]:
  "list_all seg_ok segs \<Longrightarrow> as_path_convert_to_old U (path_bytes U segs) =
     Inr (old_path_bytes U segs, \<exists>a \<in> set (path_asns segs). a > 0xFFFF)"
proof (induction segs)
  case (Cons s segs)
  then show ?case by (cases s) (auto simp: convert_to_old_asns_bytes)
qed simp

lemma convert_to_new_asns_bytes:
  "k \<le> length as \<Longrightarrow> \<exists>r'. convert_to_new_asns U k (old_asns_bytes U as @ r) =
     Inr (asns_bytes U (map through_old (take k as)), r') \<and> (k = length as \<longrightarrow> r' = r)"
proof (induction as arbitrary: k)
  case (Cons a as)
  show ?case
  proof (cases k)
    case (Suc n)
    with Cons obtain r' where
      "convert_to_new_asns U n (old_asns_bytes U as @ r) =
         Inr (asns_bytes U (map through_old (take n as)), r') \<and> (n = length as \<longrightarrow> r' = r)"
      by auto
    with Suc show ?thesis by (simp add: rd_u16_put drop_put_u16 flip: through_old_def)
  qed simp
qed simp

lemma convert_to_new_stop: "k \<le> 0 \<Longrightarrow> as_path_convert_to_new U p k = Inr []"
  by (cases "(U, p, k)" rule: as_path_convert_to_new.cases) auto

lemma convert_to_new_bytes [wire_simps]:
  "list_all seg_ok segs \<Longrightarrow> as_path_convert_to_new U (old_path_bytes U segs) k =
     Inr (path_bytes U (segs_map through_old (segs_take k segs)))"
proof (induction segs arbitrary: k)
  case Nil
  then show ?case by (simp add: segs_map_def)
next
  case (Cons s segs)
  obtain t as where s: "s = Seg t as" by (cases s)
  with Cons.prems have len: "length as < 256" by simp
  consider "k \<le> 0" | "0 < k" "t = AS_PATH_SEQUENCE" "k \<le> int (length as)"
    | "0 < k" "t = AS_PATH_SEQUENCE \<longrightarrow> int (length as) < k" by linarith
  then show ?case
  proof cases
    case 1
    then show ?thesis by (cases segs) (simp_all add: s segs_map_def convert_to_new_stop)
  next
    case 2
    with len convert_to_new_asns_bytes [of "nat k" as "old_path_bytes U segs"] show ?thesis
      by (auto simp: s segs_map_def Let_def convert_to_new_stop min_def nat_le_iff)
  next
    case 3
    with len Cons convert_to_new_asns_bytes [of "length as" as "old_path_bytes U segs"] show ?thesis
      by (auto simp: s segs_map_def Let_def min_def)
  qed
qed

end

section \<open>Properties\<close>

text \<open>\<open>as_path_prepend\<close> on the encoding of any path of sets and sequences gives the encoding of a
  path that is well-formed again (no count byte overflows: a full first sequence gets a new
  segment in front), whose AS numbers are the new one and then the old ones, and that is longer by
  one.\<close>

theorem as_path_prepend_path:
  assumes "unaligned_access U" "list_all seg_ok segs"
  shows "as_path_prepend U (path_bytes U segs) a = Inr (path_bytes U (segs_prepend segs a)) \<and>
    list_all seg_ok (segs_prepend segs a) \<and> path_asns (segs_prepend segs a) = a # path_asns segs \<and>
    segs_first (segs_prepend segs a) = Some a \<and>
    as_path_getlen (path_bytes U (segs_prepend segs a)) = rmap Suc (as_path_getlen (path_bytes U segs))"
proof -
  have ok: "list_all seg_ok (segs_prepend segs a)"
    using assms(2) by (induction segs a rule: segs_prepend.induct) auto
  have "path_asns (segs_prepend segs a) = a # path_asns segs"
    "segs_first (segs_prepend segs a) = Some a" "segs_len (segs_prepend segs a) = Suc (segs_len segs)"
    by (induction segs a rule: segs_prepend.induct) auto
  with ok unaligned_access.prepend_bytes [OF assms]
    unaligned_access.getlen_bytes [OF assms(1) ok] unaligned_access.getlen_bytes [OF assms]
  show ?thesis by (simp add: as_path_getlen_def)
qed

theorem as_path_prepend_path_witness:
  "as_path_prepend network_order (path_bytes network_order [Seg AS_PATH_SEQUENCE (replicate 255 7)]) 9 =
     Inr (path_bytes network_order [Seg AS_PATH_SEQUENCE [9], Seg AS_PATH_SEQUENCE (replicate 255 7)])"
  using as_path_prepend_path [OF net.unaligned_access_axioms, of "[Seg AS_PATH_SEQUENCE (replicate 255 7)]" 9]
  by simp

text \<open>The origin: \<open>as_path_get_last\<close> returns the last AS number of the last non-empty segment when
  that is a sequence and reports no origin otherwise, and
  \<open>as_path_get_last_nonaggregated\<close> the last AS number before the first set, or 0.\<close>

theorem as_path_origin:
  assumes "unaligned_access U" "list_all seg_ok segs"
  shows "as_path_get_last U (path_bytes U segs) = Inr (segs_last segs) \<and>
    as_path_get_last_nonaggregated U (path_bytes U segs) = Inr (segs_last_nonaggregated segs)"
  using unaligned_access.last_bytes [OF assms] unaligned_access.last_nonaggregated_bytes [OF assms]
  by simp

theorem as_path_origin_witness:
  "as_path_get_last network_order (path_bytes network_order
     [Seg AS_PATH_SEQUENCE [1, 2], Seg AS_PATH_SET [3, 4]]) = Inr None \<and>
   as_path_get_last_nonaggregated network_order (path_bytes network_order
     [Seg AS_PATH_SEQUENCE [1, 2], Seg AS_PATH_SET [3, 4]]) = Inr 2"
  using as_path_origin [OF net.unaligned_access_axioms,
    of "[Seg AS_PATH_SEQUENCE [1, 2], Seg AS_PATH_SET [3, 4]]"]
  by (simp add: segs_last_def segs_last_nonaggregated_def)

text \<open>\<open>as_path_filter\<close> keeps the AS numbers for which the test has the value \<open>pos\<close>, in order,
  and drops the segments that become empty; the result is a path on which \<open>as_path_contains\<close>
  does not find any number that was filtered out.\<close>

theorem as_path_filter_path:
  assumes "unaligned_access U" "list_all seg_ok segs"
  shows "as_path_filter U (Some (path_bytes U segs)) f pos =
      Inr (Some (path_bytes U (segs_filter (\<lambda>a. f a = pos) segs))) \<and>
    path_asns (segs_filter (\<lambda>a. f a = pos) segs) = filter (\<lambda>a. f a = pos) (path_asns segs) \<and>
    (f a \<noteq> pos \<longrightarrow>
      as_path_contains U (path_bytes U (segs_filter (\<lambda>a. f a = pos) segs)) a 1 = Inr False)"
proof -
  let ?keep = "\<lambda>a. f a = pos"
  let ?out = "segs_filter ?keep segs"
  have asns: "path_asns ?out = filter ?keep (path_asns segs)"
    by (induction segs) (auto simp: path_asns_def segs_filter_def)
  have "length xs < 256 \<Longrightarrow> length (filter ?keep xs) < 256" for xs
    by (rule le_less_trans [OF length_filter_le])
  then have ok: "list_all seg_ok ?out"
    using assms(2) by (auto simp: list_all_iff segs_filter_def seg_ok_def)
  have len: "length (path_bytes U segs) = (\<Sum>s\<leftarrow>segs. 2 + 4 * length (seg_asns s))" for segs
    by (induction segs)
      (auto simp: path_bytes_def seg_bytes_def unaligned_access.length_asns_bytes [OF assms(1)])
  have "length (path_bytes U (segs_filter ?keep segs)) \<le> length (path_bytes U segs) \<and>
      (length (path_bytes U (segs_filter ?keep segs)) = length (path_bytes U segs) \<longrightarrow>
       segs_filter ?keep segs = segs)"
  proof (induction segs)
    case (Cons s segs)
    obtain t as where s: "s = Seg t as" by (cases s)
    consider "filter ?keep as = as" | "length (filter ?keep as) < length as"
      by (metis filter_True length_filter_less)
    then show ?case
      by cases (use Cons s in \<open>auto simp: len segs_filter_def unaligned_access.length_asns_bytes [OF assms(1)]\<close>)
  qed (simp add: segs_filter_def)
  then have "as_path_filter U (Some (path_bytes U segs)) f pos = Inr (Some (path_bytes U ?out))"
    by (auto simp: as_path_filter_def unaligned_access.filter_loop_bytes [OF assms])
  moreover have "as_path_contains U (path_bytes U ?out) a 1 = Inr False" if "f a \<noteq> pos"
    using unaligned_access.contains_bytes [OF assms(1) ok, of 1 a] that
    by (auto simp: asns not_le count_list_0_iff)
  ultimately show ?thesis using asns by blast
qed

theorem as_path_filter_path_witness:
  "as_path_filter network_order (Some (path_bytes network_order
     [Seg AS_PATH_SEQUENCE [1, 2, 3], Seg AS_PATH_SET [2]])) (\<lambda>a. a = 2) False =
   Inr (Some (path_bytes network_order [Seg AS_PATH_SEQUENCE [1, 3]])) \<and>
   as_path_contains network_order (path_bytes network_order [Seg AS_PATH_SEQUENCE [1, 3]]) 2 1 = Inr False"
  using as_path_filter_path [OF net.unaligned_access_axioms,
    of "[Seg AS_PATH_SEQUENCE [1, 2, 3], Seg AS_PATH_SET [2]]" "\<lambda>a. a = 2" False 2]
  by (simp add: segs_filter_def)

end
