(* ===== verification/CommSet.thy ===== *)
theory CommSet
  imports Bird_Prelude
begin

text \<open>
  Community lists, \<open>nest/a-set.c\<close>: sets of 32-bit communities (or cluster ids), of 64-bit
  extended communities stored as two words, and of large communities stored as three.
  A list is the array of 32-bit words of a \<open>struct adata\<close>, or \<open>None\<close> for a null pointer.
  The three families obey one contract, the locale \<open>community_list\<close>.
\<close>

section \<open>Extended and large communities\<close>

definition ec_hi :: "u64 \<Rightarrow> u32" where "ec_hi ec = ucast (drop_bit 32 ec)"
definition ec_lo :: "u64 \<Rightarrow> u32" where "ec_lo ec = ucast ec"

definition ec_get :: "u32 \<Rightarrow> u32 \<Rightarrow> u64" where
  "ec_get l0 l1 = push_bit 32 (ucast l0) OR ucast l1"

definition ec_as2 :: "u64 \<Rightarrow> u64 \<Rightarrow> u64 \<Rightarrow> u64" where
  "ec_as2 kind key val = push_bit 48 (kind OR 0x0000) OR push_bit 32 key OR val"

definition ec_as4 :: "u64 \<Rightarrow> u64 \<Rightarrow> u64 \<Rightarrow> u64" where
  "ec_as4 kind key val = push_bit 48 (kind OR 0x0200) OR push_bit 16 key OR val"

definition ec_ip4 :: "u64 \<Rightarrow> u64 \<Rightarrow> u64 \<Rightarrow> u64" where
  "ec_ip4 kind key val = push_bit 48 (kind OR 0x0100) OR push_bit 16 key OR val"

definition ec_generic :: "u64 \<Rightarrow> u64 \<Rightarrow> u64" where
  "ec_generic key val = push_bit 32 key OR val"

record lcomm =
  lc_asn :: u32
  ldp1 :: u32
  ldp2 :: u32

section \<open>Lists of 32-bit communities\<close>

definition int_set_get_size :: "u32 list \<Rightarrow> nat" where "int_set_get_size l = length l"
definition ec_set_get_size :: "u32 list \<Rightarrow> nat" where "ec_set_get_size l = length l * 4 div 8"
definition lc_set_get_size :: "u32 list \<Rightarrow> nat" where "lc_set_get_size l = length l * 4 div 12"

fun int_contains_loop :: "u32 list \<Rightarrow> u32 \<Rightarrow> bool" where
  "int_contains_loop [] val = False"
| "int_contains_loop (x # l) val = (if x = val then True else int_contains_loop l val)"

definition int_set_contains :: "u32 list option \<Rightarrow> u32 \<Rightarrow> bool" where
  "int_set_contains list val = (case list of None \<Rightarrow> False | Some l \<Rightarrow> int_contains_loop l val)"

definition data_of :: "u32 list option \<Rightarrow> u32 list" where
  "data_of list = (case list of None \<Rightarrow> [] | Some l \<Rightarrow> l)"

definition int_set_prepend :: "u32 list option \<Rightarrow> u32 \<Rightarrow> u32 list option" where
  "int_set_prepend list val =
     (if int_set_contains list val then list else Some (val # data_of list))"

definition int_set_add :: "u32 list option \<Rightarrow> u32 \<Rightarrow> u32 list option" where
  "int_set_add list val =
     (if int_set_contains list val then list else Some (data_of list @ [val]))"

text \<open>
  The deletions allocate room for one element less and copy every element that differs from
  \<open>val\<close>. Where \<open>val\<close> occurs twice, words at the end of the result are never written.
\<close>

definition filled :: "nat \<Rightarrow> u32 list \<Rightarrow> u32 list option res" where
  "filled len k = (if length k = len then Inr (Some k) else Inl Uninitialised)"

definition int_set_del :: "u32 list option \<Rightarrow> u32 \<Rightarrow> u32 list option res" where
  "int_set_del list val =
     (if \<not> int_set_contains list val then Inr list
      else filled (length (data_of list) - 1) (filter (\<lambda>x. x \<noteq> val) (data_of list)))"

definition int_set_union :: "u32 list option \<Rightarrow> u32 list option \<Rightarrow> u32 list option" where
  "int_set_union l1 l2 =
     (case (l1, l2) of (None, _) \<Rightarrow> l2 | (_, None) \<Rightarrow> l1
      | (Some d1, Some d2) \<Rightarrow>
          let tmp = filter (\<lambda>x. \<not> int_set_contains l1 x) d2
          in if tmp = [] then l1 else Some (d1 @ tmp))"

section \<open>Lists of extended communities\<close>

fun ec_contains_loop :: "u32 list \<Rightarrow> u32 \<Rightarrow> u32 \<Rightarrow> bool res" where
  "ec_contains_loop [] eh el = Inr False"
| "ec_contains_loop [a] eh el = (if a = eh then Inl Out_of_bounds else Inr False)"
| "ec_contains_loop (a # b # l) eh el =
     (if a = eh \<and> b = el then Inr True else ec_contains_loop l eh el)"

definition ec_set_contains :: "u32 list option \<Rightarrow> u64 \<Rightarrow> bool res" where
  "ec_set_contains list val =
     (case list of None \<Rightarrow> Inr False | Some l \<Rightarrow> ec_contains_loop l (ec_hi val) (ec_lo val))"

definition ec_set_add :: "u32 list option \<Rightarrow> u64 \<Rightarrow> u32 list option res" where
  "ec_set_add list val =
     rbind (ec_set_contains list val) (\<lambda>c.
       Inr (if c then list else Some (data_of list @ [ec_hi val, ec_lo val])))"

fun ec_del_loop :: "u32 list \<Rightarrow> u32 \<Rightarrow> u32 \<Rightarrow> u32 list res" where
  "ec_del_loop [] eh el = Inr []"
| "ec_del_loop [a] eh el = Inl Out_of_bounds"
| "ec_del_loop (a # b # l) eh el =
     rmap (\<lambda>k. if a = eh \<and> b = el then k else a # b # k) (ec_del_loop l eh el)"

definition ec_set_del :: "u32 list option \<Rightarrow> u64 \<Rightarrow> u32 list option res" where
  "ec_set_del list val =
     rbind (ec_set_contains list val) (\<lambda>c.
       if \<not> c then Inr list
       else rbind (ec_del_loop (data_of list) (ec_hi val) (ec_lo val))
              (filled (length (data_of list) - 2)))"

fun ec_union_loop :: "u32 list option \<Rightarrow> u32 list \<Rightarrow> u32 list res" where
  "ec_union_loop l1 [] = Inr []"
| "ec_union_loop l1 [a] = Inl Out_of_bounds"
| "ec_union_loop l1 (a # b # l) =
     rbind (ec_set_contains l1 (ec_get a b)) (\<lambda>c.
       rmap (\<lambda>k. if c then k else a # b # k) (ec_union_loop l1 l))"

definition ec_set_union :: "u32 list option \<Rightarrow> u32 list option \<Rightarrow> u32 list option res" where
  "ec_set_union l1 l2 =
     (case (l1, l2) of (None, _) \<Rightarrow> Inr l2 | (_, None) \<Rightarrow> Inr l1
      | (Some d1, Some d2) \<Rightarrow>
          rmap (\<lambda>tmp. if tmp = [] then l1 else Some (d1 @ tmp)) (ec_union_loop l1 d2))"

section \<open>Lists of large communities\<close>

definition lc_get :: "u32 \<Rightarrow> u32 \<Rightarrow> u32 \<Rightarrow> lcomm" where
  "lc_get a b c = \<lparr>lc_asn = a, ldp1 = b, ldp2 = c\<rparr>"

definition lc_put :: "lcomm \<Rightarrow> u32 list" where
  "lc_put v = [lc_asn v, ldp1 v, ldp2 v]"

text \<open>\<open>lc_match\<close> reads the second and the third word only where the ones before agree.\<close>

fun lc_match :: "u32 list \<Rightarrow> lcomm \<Rightarrow> bool res" where
  "lc_match (a # b # c # _) v = Inr (a = lc_asn v \<and> b = ldp1 v \<and> c = ldp2 v)"
| "lc_match [a, b] v = (if a = lc_asn v \<and> b = ldp1 v then Inl Out_of_bounds else Inr False)"
| "lc_match [a] v = (if a = lc_asn v then Inl Out_of_bounds else Inr False)"
| "lc_match [] v = Inl Out_of_bounds"

fun lc_contains_loop :: "u32 list \<Rightarrow> lcomm \<Rightarrow> bool res" where
  "lc_contains_loop [] v = Inr False"
| "lc_contains_loop (a # l) v =
     rbind (lc_match (a # l) v) (\<lambda>m. if m then Inr True else lc_contains_loop (drop 2 l) v)"

definition lc_set_contains :: "u32 list option \<Rightarrow> lcomm \<Rightarrow> bool res" where
  "lc_set_contains list val = (case list of None \<Rightarrow> Inr False | Some l \<Rightarrow> lc_contains_loop l val)"

definition lc_set_add :: "u32 list option \<Rightarrow> lcomm \<Rightarrow> u32 list option res" where
  "lc_set_add list val =
     rbind (lc_set_contains list val) (\<lambda>c.
       Inr (if c then list else Some (data_of list @ lc_put val)))"

text \<open>\<open>lc_copy\<close> reads three words.\<close>

definition lc_copy :: "u32 list \<Rightarrow> u32 list res" where
  "lc_copy src = (if length src < 3 then Inl Out_of_bounds else Inr (take 3 src))"

fun lc_del_loop :: "u32 list \<Rightarrow> lcomm \<Rightarrow> u32 list res" where
  "lc_del_loop [] v = Inr []"
| "lc_del_loop (a # l) v =
     rbind (lc_match (a # l) v) (\<lambda>m.
     rbind (if m then Inr [] else lc_copy (a # l)) (\<lambda>k.
       rmap (\<lambda>r. k @ r) (lc_del_loop (drop 2 l) v)))"

definition lc_set_del :: "u32 list option \<Rightarrow> lcomm \<Rightarrow> u32 list option res" where
  "lc_set_del list val =
     rbind (lc_set_contains list val) (\<lambda>c.
       if \<not> c then Inr list
       else rbind (lc_del_loop (data_of list) val) (filled (length (data_of list) - 3)))"

fun lc_union_loop :: "u32 list option \<Rightarrow> u32 list \<Rightarrow> u32 list res" where
  "lc_union_loop l1 (a # b # c # l) =
     rbind (lc_set_contains l1 (lc_get a b c)) (\<lambda>m.
       rmap (\<lambda>k. if m then k else a # b # c # k) (lc_union_loop l1 l))"
| "lc_union_loop l1 [] = Inr []"
| "lc_union_loop l1 _ = Inl Out_of_bounds"

definition lc_set_union :: "u32 list option \<Rightarrow> u32 list option \<Rightarrow> u32 list option res" where
  "lc_set_union l1 l2 =
     (case (l1, l2) of (None, _) \<Rightarrow> Inr l2 | (_, None) \<Rightarrow> Inr l1
      | (Some d1, Some d2) \<Rightarrow>
          rmap (\<lambda>tmp. if tmp = [] then l1 else Some (d1 @ tmp)) (lc_union_loop l1 d2))"

section \<open>The contract of a community list\<close>

locale community_list =
  fixes ok :: "u32 list option \<Rightarrow> bool"
    and elems :: "u32 list option \<Rightarrow> 'e list"
    and contains :: "u32 list option \<Rightarrow> 'e \<Rightarrow> bool res"
    and add :: "u32 list option \<Rightarrow> 'e \<Rightarrow> u32 list option res"
    and del :: "u32 list option \<Rightarrow> 'e \<Rightarrow> u32 list option res"
    and union :: "u32 list option \<Rightarrow> u32 list option \<Rightarrow> u32 list option res"
  assumes ok_null: "ok None" and elems_null: "elems None = []"
    and contains_spec: "ok l \<Longrightarrow> contains l v = Inr (v \<in> set (elems l))"
    and add_spec: "ok l \<Longrightarrow> \<exists>l'. add l v = Inr l' \<and> ok l' \<and>
      elems l' = (if v \<in> set (elems l) then elems l else elems l @ [v])"
    and del_spec: "ok l \<Longrightarrow> count_list (elems l) v \<le> 1 \<Longrightarrow>
      \<exists>l'. del l v = Inr l' \<and> ok l' \<and> elems l' = filter (\<lambda>x. x \<noteq> v) (elems l)"
    and del_twice: "ok l \<Longrightarrow> 1 < count_list (elems l) v \<Longrightarrow> del l v = Inl Uninitialised"
    and union_spec: "ok l1 \<Longrightarrow> ok l2 \<Longrightarrow> \<exists>l'. union l1 l2 = Inr l' \<and> ok l' \<and>
      elems l' = elems l1 @ filter (\<lambda>x. x \<notin> set (elems l1)) (elems l2)"
begin

lemma distinct_count: "distinct xs \<Longrightarrow> count_list xs v \<le> 1"
  by (induction xs) (auto simp: count_list_0_iff)

text \<open>Each operation on a list without duplicates gives a list without duplicates.\<close>

lemma add_distinct:
  "ok l \<Longrightarrow> distinct (elems l) \<Longrightarrow> \<exists>l'. add l v = Inr l' \<and> ok l' \<and> distinct (elems l') \<and>
     set (elems l') = insert v (set (elems l))"
  using add_spec [of l v] by auto

lemma del_distinct:
  "ok l \<Longrightarrow> distinct (elems l) \<Longrightarrow> \<exists>l'. del l v = Inr l' \<and> ok l' \<and> distinct (elems l') \<and>
     set (elems l') = set (elems l) - {v}"
  using del_spec [of l v] distinct_count [of "elems l" v] by auto

lemma union_distinct:
  "ok l1 \<Longrightarrow> ok l2 \<Longrightarrow> distinct (elems l1) \<Longrightarrow> distinct (elems l2) \<Longrightarrow>
   \<exists>l'. union l1 l2 = Inr l' \<and> ok l' \<and> distinct (elems l') \<and>
     set (elems l') = set (elems l1) \<union> set (elems l2)"
  using union_spec [of l1 l2] by auto

lemma del_add_new:
  "ok l \<Longrightarrow> v \<notin> set (elems l) \<Longrightarrow>
   \<exists>l' l''. add l v = Inr l' \<and> del l' v = Inr l'' \<and> elems l'' = elems l"
  using add_spec [of l v] del_spec [of _ v]
  by (fastforce simp: count_list_0_iff filter_id_conv)

lemma contains_after_add:
  "ok l \<Longrightarrow> rbind (add l v) (\<lambda>l'. contains l' w) = Inr (w = v \<or> w \<in> set (elems l))"
  using add_spec [of l v] by (auto simp: contains_spec)

lemma del_defined_iff: "ok l \<Longrightarrow> (\<exists>l'. del l v = Inr l') \<longleftrightarrow> count_list (elems l) v \<le> 1"
  using del_spec [of l v] del_twice [of l v] by (cases "count_list (elems l) v \<le> 1") auto

end

section \<open>The three families satisfy the contract\<close>

lemma count_le_1: "count_list xs v \<le> 1 \<longleftrightarrow> count_list xs v = 0 \<or> count_list xs v = 1"
  by arith

lemma length_filter_neq: "length (filter (\<lambda>x. x \<noteq> v) xs) = length xs - count_list xs v"
proof -
  have "length (filter (\<lambda>x. x \<noteq> v) xs) + count_list xs v = length xs"
    by (induction xs) auto
  then show ?thesis by simp
qed

lemma filter_length_del:
  "v \<in> set xs \<Longrightarrow>
   length (filter (\<lambda>x. x \<noteq> v) xs) = length xs - 1 \<longleftrightarrow> count_list xs v \<le> 1"
  using count_le_length [of xs v] count_list_0_iff [of xs v]
  by (auto simp: length_filter_neq)

subsection \<open>Communities of one word\<close>

lemma int_contains_loop_iff [simp]: "int_contains_loop l v \<longleftrightarrow> v \<in> set l"
  by (induction l) auto

lemma data_of_simps [simp]: "data_of None = []" "data_of (Some l) = l"
  by (simp_all add: data_of_def)

lemma int_set_contains_iff [simp]: "int_set_contains l v \<longleftrightarrow> v \<in> set (data_of l)"
  by (cases l) (simp_all add: int_set_contains_def)

lemma filled_data: "filled n k = (if length k = n then Inr (Some k) else Inl Uninitialised)"
  by (rule filled_def)

lemma filter_absent: "v \<notin> set xs \<Longrightarrow> filter (\<lambda>x. x \<noteq> v) xs = xs"
  by (auto simp: filter_id_conv)

interpretation ints: community_list
  "\<lambda>l. True" data_of "\<lambda>l v. Inr (int_set_contains l v)" "\<lambda>l v. Inr (int_set_add l v)"
  int_set_del "\<lambda>l1 l2. Inr (int_set_union l1 l2)"
proof
  fix l l1 l2 :: "u32 list option" and v :: u32
  show "\<exists>l'. Inr (int_set_add l v) = Inr l' \<and> True \<and>
      data_of l' = (if v \<in> set (data_of l) then data_of l else data_of l @ [v])"
    by (simp add: int_set_add_def)
  show "\<exists>l'. int_set_del l v = Inr l' \<and> True \<and> data_of l' = filter (\<lambda>x. x \<noteq> v) (data_of l)"
    if "count_list (data_of l) v \<le> 1"
    using that filter_length_del [of v "data_of l"]
    by (auto simp: int_set_del_def filled_def filter_absent)
  show "int_set_del l v = Inl Uninitialised" if "1 < count_list (data_of l) v"
    using that filter_length_del [of v "data_of l"] count_list_0_iff [of "data_of l" v]
    by (auto simp: int_set_del_def filled_def)
  show "\<exists>l'. Inr (int_set_union l1 l2) = Inr l' \<and> True \<and>
      data_of l' = data_of l1 @ filter (\<lambda>x. x \<notin> set (data_of l1)) (data_of l2)"
    by (auto simp: int_set_union_def Let_def filter_empty_conv split: option.splits)
qed simp_all

subsection \<open>Communities of two words\<close>

lemma no_bit_beyond_u32: "\<not> bit (b :: u32) (32 + n)"
  by (simp add: bit_word.rep_eq take_bit_eq_mod impossible_bit)

lemma ec_hi_get [simp]: "ec_hi (ec_get a b) = a"
  by (rule bit_word_eqI)
     (auto simp: ec_hi_def ec_get_def bit_simps no_bit_beyond_u32)

lemma ec_lo_get [simp]: "ec_lo (ec_get a b) = b"
  by (rule bit_word_eqI) (auto simp: ec_lo_def ec_get_def bit_simps)

lemma ec_get_hi_lo [simp]: "ec_get (ec_hi v) (ec_lo v) = v"
  by (rule bit_word_eqI)
     (auto simp: ec_hi_def ec_lo_def ec_get_def bit_simps)

lemma ec_get_eq_iff: "ec_get a b = v \<longleftrightarrow> a = ec_hi v \<and> b = ec_lo v"
  by (metis ec_hi_get ec_lo_get ec_get_hi_lo)

fun ec_pairs :: "u32 list \<Rightarrow> u64 list" where
  "ec_pairs (a # b # l) = ec_get a b # ec_pairs l"
| "ec_pairs l = []"

definition ec_elems :: "u32 list option \<Rightarrow> u64 list" where "ec_elems l = ec_pairs (data_of l)"
definition ec_ok :: "u32 list option \<Rightarrow> bool" where "ec_ok l \<longleftrightarrow> even (length (data_of l))"

lemma ec_pairs_append [simp]: "even (length l) \<Longrightarrow> ec_pairs (l @ m) = ec_pairs l @ ec_pairs m"
  by (induction l rule: ec_pairs.induct) auto

lemma length_ec_pairs: "even (length l) \<Longrightarrow> length l = 2 * length (ec_pairs l)"
  by (induction l rule: ec_pairs.induct) auto

lemma ec_contains_loop_spec:
  "even (length l) \<Longrightarrow> ec_contains_loop l (ec_hi v) (ec_lo v) = Inr (v \<in> set (ec_pairs l))"
  by (induction l rule: ec_pairs.induct) (auto simp: ec_get_eq_iff [symmetric])

lemma ec_set_contains_spec: "ec_ok l \<Longrightarrow> ec_set_contains l v = Inr (v \<in> set (ec_elems l))"
  by (cases l) (simp_all add: ec_set_contains_def ec_ok_def ec_elems_def ec_contains_loop_spec)

lemma ec_del_loop_spec:
  "even (length l) \<Longrightarrow> \<exists>k. ec_del_loop l (ec_hi v) (ec_lo v) = Inr k \<and> even (length k) \<and>
     ec_pairs k = filter (\<lambda>x. x \<noteq> v) (ec_pairs l)"
  by (induction l rule: ec_pairs.induct) (auto simp: ec_get_eq_iff)

lemma ec_union_loop_spec:
  "ec_ok l1 \<Longrightarrow> even (length l) \<Longrightarrow> \<exists>k. ec_union_loop l1 l = Inr k \<and> even (length k) \<and>
     ec_pairs k = filter (\<lambda>x. x \<notin> set (ec_elems l1)) (ec_pairs l)"
  by (induction l rule: ec_pairs.induct) (auto simp: ec_set_contains_spec)

lemma ec_set_del_spec:
  assumes "ec_ok l" "v \<in> set (ec_elems l)"
  shows "\<exists>k. ec_pairs k = filter (\<lambda>x. x \<noteq> v) (ec_elems l) \<and> even (length k) \<and>
    ec_set_del l v = (if count_list (ec_elems l) v \<le> 1 then Inr (Some k) else Inl Uninitialised)"
proof -
  let ?d = "data_of l"
  have even: "even (length ?d)" using assms by (simp add: ec_ok_def)
  obtain k where k: "ec_del_loop ?d (ec_hi v) (ec_lo v) = Inr k" "even (length k)"
      "ec_pairs k = filter (\<lambda>x. x \<noteq> v) (ec_pairs ?d)"
    using ec_del_loop_spec [OF even] by blast
  have "length k = length ?d - 2 \<longleftrightarrow> length (ec_pairs k) = length (ec_pairs ?d) - 1"
    using length_ec_pairs [OF even] length_ec_pairs [OF k(2)] assms(2)
    by (cases "ec_pairs ?d") (auto simp: ec_elems_def)
  then show ?thesis
    using assms k filter_length_del [of v "ec_pairs ?d"]
    by (intro exI [of _ k]) (auto simp: ec_set_del_def ec_set_contains_spec filled_def ec_elems_def)
qed

interpretation ecs: community_list ec_ok ec_elems ec_set_contains ec_set_add ec_set_del ec_set_union
proof
  fix l l1 l2 :: "u32 list option" and v :: u64
  show "ec_ok None" "ec_elems None = []" by (simp_all add: ec_ok_def ec_elems_def)
  show "ec_set_contains l v = Inr (v \<in> set (ec_elems l))" if "ec_ok l"
    using that by (rule ec_set_contains_spec)
  show "\<exists>l'. ec_set_add l v = Inr l' \<and> ec_ok l' \<and>
      ec_elems l' = (if v \<in> set (ec_elems l) then ec_elems l else ec_elems l @ [v])" if "ec_ok l"
    using that by (auto simp: ec_set_add_def ec_set_contains_spec ec_ok_def ec_elems_def)
  show "\<exists>l'. ec_set_del l v = Inr l' \<and> ec_ok l' \<and> ec_elems l' = filter (\<lambda>x. x \<noteq> v) (ec_elems l)"
    if "ec_ok l" "count_list (ec_elems l) v \<le> 1"
    using that ec_set_del_spec [of l v]
    by (cases "v \<in> set (ec_elems l)")
       (auto simp: ec_set_del_def ec_set_contains_spec filter_absent ec_ok_def ec_elems_def)
  show "ec_set_del l v = Inl Uninitialised" if "ec_ok l" "1 < count_list (ec_elems l) v"
    using that ec_set_del_spec [of l v] count_list_0_iff [of "ec_elems l" v] by fastforce
  show "\<exists>l'. ec_set_union l1 l2 = Inr l' \<and> ec_ok l' \<and>
      ec_elems l' = ec_elems l1 @ filter (\<lambda>x. x \<notin> set (ec_elems l1)) (ec_elems l2)"
    if "ec_ok l1" "ec_ok l2"
  proof (cases "l1 = None \<or> l2 = None")
    case True
    then show ?thesis using that
      by (auto simp: ec_set_union_def ec_ok_def ec_elems_def split: option.splits)
  next
    case False
    then obtain d1 d2 where "l1 = Some d1" "l2 = Some d2" by auto
    with that ec_union_loop_spec [of l1 d2] show ?thesis
      by (auto simp: ec_set_union_def ec_ok_def ec_elems_def)
  qed
qed

subsection \<open>Communities of three words\<close>

lemma lc_get_eq_iff: "lc_get a b c = v \<longleftrightarrow> a = lc_asn v \<and> b = ldp1 v \<and> c = ldp2 v"
  by (auto simp: lc_get_def)

lemma lc_get_sel [simp]:
  "lc_asn (lc_get a b c) = a" "ldp1 (lc_get a b c) = b" "ldp2 (lc_get a b c) = c"
  "lc_get (lc_asn v) (ldp1 v) (ldp2 v) = v"
  by (simp_all add: lc_get_def)

fun lc_triples :: "u32 list \<Rightarrow> lcomm list" where
  "lc_triples (a # b # c # l) = lc_get a b c # lc_triples l"
| "lc_triples l = []"

definition lc_elems :: "u32 list option \<Rightarrow> lcomm list" where "lc_elems l = lc_triples (data_of l)"
definition lc_ok :: "u32 list option \<Rightarrow> bool" where "lc_ok l \<longleftrightarrow> 3 dvd length (data_of l)"

lemma three_dvd_Suc [simp]:
  "3 dvd Suc (Suc (Suc n)) \<longleftrightarrow> 3 dvd n" "\<not> 3 dvd Suc (Suc 0)" "\<not> 3 dvd Suc 0"
  by presburger+

lemma lc_triples_append [simp]:
  "3 dvd length l \<Longrightarrow> lc_triples (l @ m) = lc_triples l @ lc_triples m"
  by (induction l rule: lc_triples.induct) auto

lemma length_lc_triples: "3 dvd length l \<Longrightarrow> length l = 3 * length (lc_triples l)"
  by (induction l rule: lc_triples.induct) auto

lemma lc_put_triple [simp]: "lc_triples (lc_put v) = [v]" "length (lc_put v) = 3"
  by (simp_all add: lc_put_def lc_get_def)

lemma lc_contains_loop_spec:
  "3 dvd length l \<Longrightarrow> lc_contains_loop l v = Inr (v \<in> set (lc_triples l))"
  by (induction l rule: lc_triples.induct) (auto simp: lc_get_eq_iff)

lemma lc_set_contains_spec: "lc_ok l \<Longrightarrow> lc_set_contains l v = Inr (v \<in> set (lc_elems l))"
  by (cases l) (simp_all add: lc_set_contains_def lc_ok_def lc_elems_def lc_contains_loop_spec)

lemma lc_del_loop_spec:
  "3 dvd length l \<Longrightarrow> \<exists>k. lc_del_loop l v = Inr k \<and> 3 dvd length k \<and>
     lc_triples k = filter (\<lambda>x. x \<noteq> v) (lc_triples l)"
  by (induction l rule: lc_triples.induct) (auto simp: lc_get_eq_iff lc_copy_def)

lemma lc_union_loop_spec:
  "lc_ok l1 \<Longrightarrow> 3 dvd length l \<Longrightarrow> \<exists>k. lc_union_loop l1 l = Inr k \<and> 3 dvd length k \<and>
     lc_triples k = filter (\<lambda>x. x \<notin> set (lc_elems l1)) (lc_triples l)"
  by (induction l rule: lc_triples.induct) (auto simp: lc_set_contains_spec)

lemma lc_set_del_spec:
  assumes "lc_ok l" "v \<in> set (lc_elems l)"
  shows "\<exists>k. lc_triples k = filter (\<lambda>x. x \<noteq> v) (lc_elems l) \<and> 3 dvd length k \<and>
    lc_set_del l v = (if count_list (lc_elems l) v \<le> 1 then Inr (Some k) else Inl Uninitialised)"
proof -
  let ?d = "data_of l"
  have len: "3 dvd length ?d" using assms by (simp add: lc_ok_def)
  obtain k where k: "lc_del_loop ?d v = Inr k" "3 dvd length k"
      "lc_triples k = filter (\<lambda>x. x \<noteq> v) (lc_triples ?d)"
    using lc_del_loop_spec [OF len] by blast
  have "length k = length ?d - 3 \<longleftrightarrow> length (lc_triples k) = length (lc_triples ?d) - 1"
    using length_lc_triples [OF len] length_lc_triples [OF k(2)] assms(2)
    by (cases "lc_triples ?d") (auto simp: lc_elems_def)
  then show ?thesis
    using assms k filter_length_del [of v "lc_triples ?d"]
    by (intro exI [of _ k]) (auto simp: lc_set_del_def lc_set_contains_spec filled_def lc_elems_def)
qed

interpretation lcs: community_list lc_ok lc_elems lc_set_contains lc_set_add lc_set_del lc_set_union
proof
  fix l l1 l2 :: "u32 list option" and v :: lcomm
  show "lc_ok None" "lc_elems None = []" by (simp_all add: lc_ok_def lc_elems_def)
  show "lc_set_contains l v = Inr (v \<in> set (lc_elems l))" if "lc_ok l"
    using that by (rule lc_set_contains_spec)
  show "\<exists>l'. lc_set_add l v = Inr l' \<and> lc_ok l' \<and>
      lc_elems l' = (if v \<in> set (lc_elems l) then lc_elems l else lc_elems l @ [v])" if "lc_ok l"
    using that by (auto simp: lc_set_add_def lc_set_contains_spec lc_ok_def lc_elems_def)
  show "\<exists>l'. lc_set_del l v = Inr l' \<and> lc_ok l' \<and> lc_elems l' = filter (\<lambda>x. x \<noteq> v) (lc_elems l)"
    if "lc_ok l" "count_list (lc_elems l) v \<le> 1"
    using that lc_set_del_spec [of l v]
    by (cases "v \<in> set (lc_elems l)")
       (auto simp: lc_set_del_def lc_set_contains_spec filter_absent lc_ok_def lc_elems_def)
  show "lc_set_del l v = Inl Uninitialised" if "lc_ok l" "1 < count_list (lc_elems l) v"
    using that lc_set_del_spec [of l v] count_list_0_iff [of "lc_elems l" v] by fastforce
  show "\<exists>l'. lc_set_union l1 l2 = Inr l' \<and> lc_ok l' \<and>
      lc_elems l' = lc_elems l1 @ filter (\<lambda>x. x \<notin> set (lc_elems l1)) (lc_elems l2)"
    if "lc_ok l1" "lc_ok l2"
  proof (cases "l1 = None \<or> l2 = None")
    case True
    then show ?thesis using that
      by (auto simp: lc_set_union_def lc_ok_def lc_elems_def split: option.splits)
  next
    case False
    then obtain d1 d2 where "l1 = Some d1" "l2 = Some d2" by auto
    with that lc_union_loop_spec [of l1 d2] show ?thesis
      by (auto simp: lc_set_union_def lc_ok_def lc_elems_def)
  qed
qed

section \<open>Properties\<close>

text \<open>Lists of extended communities are sets: on lists of whole pairs without duplicates, add, delete
  and union return a list of whole pairs without duplicates that holds the set with the value
  inserted, the set without it, and the union of the sets.\<close>

theorem ec_set_operations:
  assumes "ec_ok l" "distinct (ec_elems l)" "ec_ok m" "distinct (ec_elems m)"
  shows "(\<exists>r. ec_set_add l v = Inr r \<and> ec_ok r \<and> distinct (ec_elems r) \<and>
       set (ec_elems r) = insert v (set (ec_elems l))) \<and>
    (\<exists>r. ec_set_del l v = Inr r \<and> ec_ok r \<and> distinct (ec_elems r) \<and>
       set (ec_elems r) = set (ec_elems l) - {v}) \<and>
    (\<exists>r. ec_set_union l m = Inr r \<and> ec_ok r \<and> distinct (ec_elems r) \<and>
       set (ec_elems r) = set (ec_elems l) \<union> set (ec_elems m))"
  using assms by (intro conjI ecs.add_distinct ecs.del_distinct ecs.union_distinct)

theorem ec_set_operations_witness:
  "\<exists>r. ec_set_del (Some [1, 2, 3, 4]) (ec_get 1 2) = Inr r \<and> set (ec_elems r) = {ec_get 3 4}"
proof -
  have "ec_get 3 4 \<noteq> ec_get 1 2" by (simp add: ec_get_eq_iff)
  then show ?thesis
    using ec_set_operations [of "Some [1, 2, 3, 4]" None "ec_get 1 2"]
    by (auto simp: ec_ok_def ec_elems_def)
qed

text \<open>Lists of large communities are sets in the same way.\<close>

theorem lc_set_operations:
  assumes "lc_ok l" "distinct (lc_elems l)" "lc_ok m" "distinct (lc_elems m)"
  shows "(\<exists>r. lc_set_add l v = Inr r \<and> lc_ok r \<and> distinct (lc_elems r) \<and>
       set (lc_elems r) = insert v (set (lc_elems l))) \<and>
    (\<exists>r. lc_set_del l v = Inr r \<and> lc_ok r \<and> distinct (lc_elems r) \<and>
       set (lc_elems r) = set (lc_elems l) - {v}) \<and>
    (\<exists>r. lc_set_union l m = Inr r \<and> lc_ok r \<and> distinct (lc_elems r) \<and>
       set (lc_elems r) = set (lc_elems l) \<union> set (lc_elems m))"
  using assms by (intro conjI lcs.add_distinct lcs.del_distinct lcs.union_distinct)

theorem lc_set_operations_witness:
  "\<exists>r. lc_set_union (Some [1, 2, 3]) (Some [1, 2, 3, 4, 5, 6]) = Inr r \<and>
     set (lc_elems r) = {lc_get 1 2 3, lc_get 4 5 6}"
  using lc_set_operations [of "Some [1, 2, 3]" "Some [1, 2, 3, 4, 5, 6]" "lc_get 0 0 0"]
  by (auto simp: lc_ok_def lc_elems_def lc_get_def insert_commute)

text \<open>C40. Delete is defined exactly for a value that occurs at most once. The new list is allocated for one
  element less than the old one, so that a value that a peer sent twice leaves words of the new
  list unwritten: for 32-bit, extended and large communities alike.\<close>

theorem set_del_defined_iff:
  "((\<exists>r. int_set_del l v = Inr r) \<longleftrightarrow> count_list (data_of l) v \<le> 1) \<and>
   (ec_ok l \<longrightarrow> ((\<exists>r. ec_set_del l e = Inr r) \<longleftrightarrow> count_list (ec_elems l) e \<le> 1)) \<and>
   (lc_ok l \<longrightarrow> ((\<exists>r. lc_set_del l c = Inr r) \<longleftrightarrow> count_list (lc_elems l) c \<le> 1))"
  using ints.del_defined_iff [of l v] ecs.del_defined_iff [of l e] lcs.del_defined_iff [of l c] by blast

theorem set_del_defined_iff_witness:
  "(\<nexists>r. int_set_del (Some [7, 7]) 7 = Inr r) \<and> (\<exists>r. ec_set_del (Some [1, 2, 3, 4]) (ec_get 1 2) = Inr r) \<and>
   (\<nexists>r. lc_set_del (Some [1, 2, 3, 1, 2, 3]) (lc_get 1 2 3) = Inr r)"
proof -
  have "ec_get 3 4 \<noteq> ec_get 1 2" by (simp add: ec_get_eq_iff)
  then show ?thesis
    using set_del_defined_iff [of "Some [7, 7]" 7]
      set_del_defined_iff [of "Some [1, 2, 3, 4]" 0 "ec_get 1 2"]
      set_del_defined_iff [of "Some [1, 2, 3, 1, 2, 3]" 0 0 "lc_get 1 2 3"]
    by (simp add: ec_ok_def ec_elems_def lc_ok_def lc_elems_def)
qed

end
