(* ===== verification/EaList.thy ===== *)
theory EaList
  imports Bird_Prelude "HOL-Library.Multiset"
begin

text \<open>
  Extended attribute lists, \<open>nest/rt-attr.c\<close> and \<open>nest/route.h\<close>. A list is a chain of
  segments (\<open>struct ea_list\<close>), each with its flags and its array of attributes; the chain is
  a HOL list of segments, and \<open>count\<close> is the length of the array. The first occurrence of
  an attribute in the chain is the one that counts.
\<close>

section \<open>Attributes and segments\<close>

text \<open>The union \<open>u\<close> of an attribute holds an integer or a pointer to a block of bytes.\<close>

datatype eavalue = Data u32 | Ptr "u8 list"

record eattr =
  ea_id :: u16
  ea_flags :: u8
  ea_type :: u8
  ea_u :: eavalue

record ea_seg =
  eal_flags :: u8
  eal_attrs :: "eattr list"

definition EALF_SORTED :: u8 where "EALF_SORTED = 1"
definition EALF_BISECT :: u8 where "EALF_BISECT = 2"

definition EA_CODE_MASK :: u32 where "EA_CODE_MASK = 0xffff"
definition EA_ALLOW_UNDEF :: u32 where "EA_ALLOW_UNDEF = 0x10000"

definition EAF_TYPE_MASK :: u8 where "EAF_TYPE_MASK = 0x1f"
definition EAF_TYPE_UNDEF :: u8 where "EAF_TYPE_UNDEF = 0x1f"
definition EAF_EMBEDDED :: u8 where "EAF_EMBEDDED = 0x01"
definition EAF_ORIGINATED :: u8 where "EAF_ORIGINATED = 0x40"

definition is_undef :: "eattr \<Rightarrow> bool" where
  "is_undef a \<longleftrightarrow> ea_type a AND EAF_TYPE_MASK = EAF_TYPE_UNDEF"

definition bisect :: "ea_seg \<Rightarrow> bool" where
  "bisect e \<longleftrightarrow> eal_flags e AND EALF_BISECT \<noteq> 0"

section \<open>The operations\<close>

text \<open>\<open>ea__find\<close>: binary search in the segments marked for it, linear search in the others.\<close>

function ea_bisect :: "eattr list \<Rightarrow> u16 \<Rightarrow> int \<Rightarrow> int \<Rightarrow> eattr option" where
  "ea_bisect attrs aid l r =
     (if l \<le> r then
        let m = (l + r) div 2; a = attrs ! nat m in
        if ea_id a = aid then Some a
        else if ea_id a < aid then ea_bisect attrs aid (m + 1) r
        else ea_bisect attrs aid l (m - 1)
      else None)"
  by pat_completeness auto
termination
  by (relation "measure (\<lambda>(attrs, id, l, r). nat (r + 1 - l))") auto

declare ea_bisect.simps [simp del]

fun ea_linear :: "eattr list \<Rightarrow> u16 \<Rightarrow> eattr option" where
  "ea_linear [] aid = None"
| "ea_linear (a # attrs) aid = (if ea_id a = aid then Some a else ea_linear attrs aid)"

fun ea__find :: "ea_seg list \<Rightarrow> u16 \<Rightarrow> eattr option" where
  "ea__find [] aid = None"
| "ea__find (e # chain) aid =
     (case (if bisect e then ea_bisect (eal_attrs e) aid 0 (int (length (eal_attrs e)) - 1)
            else ea_linear (eal_attrs e) aid) of
        Some a \<Rightarrow> Some a
      | None \<Rightarrow> ea__find chain aid)"

definition ea_find :: "ea_seg list \<Rightarrow> u32 \<Rightarrow> eattr option" where
  "ea_find e aid =
     (case ea__find e (ucast (aid AND EA_CODE_MASK)) of
        None \<Rightarrow> None
      | Some a \<Rightarrow> if is_undef a \<and> aid AND EA_ALLOW_UNDEF = 0 then None else Some a)"

definition ea_get_int :: "ea_seg list \<Rightarrow> u32 \<Rightarrow> u32 \<Rightarrow> u32 res" where
  "ea_get_int e aid dflt =
     (case ea_find e aid of None \<Rightarrow> Inr dflt
      | Some a \<Rightarrow> (case ea_u a of Data d \<Rightarrow> Inr d | Ptr _ \<Rightarrow> Inl Uninitialised))"

text \<open>
  \<open>ea_walk\<close>: the walk state holds the rest of the chain, the part of the first segment that
  \<open>s->ea\<close> points to when the walk is under way, and the set of visited numbers.
\<close>

record ea_walk_state =
  ws_eattrs :: "ea_seg list"
  ws_ea :: "eattr list option"
  ws_visited :: "nat set"

text \<open>The search for the first attribute of a sorted segment with an ID of at least \<open>aid\<close>.\<close>

function walk_bisect :: "eattr list \<Rightarrow> u32 \<Rightarrow> int \<Rightarrow> int \<Rightarrow> int" where
  "walk_bisect attrs aid l r =
     (if l < r then
        let m = (l + r) div 2 in
        if ucast (ea_id (attrs ! nat m)) < aid then walk_bisect attrs aid (m + 1) r
        else walk_bisect attrs aid l m
      else l)"
  by pat_completeness auto
termination
  by (relation "measure (\<lambda>(attrs, id, l, r). nat (r - l))") auto

declare walk_bisect.simps [simp del]

text \<open>The loop over one segment: the attribute found, with the rest that starts at it.\<close>

fun walk_step ::
  "bool \<Rightarrow> u32 \<Rightarrow> u32 \<Rightarrow> eattr list \<Rightarrow> nat set \<Rightarrow> (eattr \<times> eattr list) option \<times> nat set"
where
  "walk_step bis aid mx [] vis = (None, vis)"
| "walk_step bis aid mx (a # rest) vis =
     (if aid \<le> ucast (ea_id a) \<and> ucast (ea_id a) < mx then
        let n = unat (ucast (ea_id a) - aid) in
        if n \<in> vis then walk_step bis aid mx rest vis
        else if is_undef a then walk_step bis aid mx rest (insert n vis)
        else (Some (a, a # rest), insert n vis)
      else if bis then (None, vis)
      else walk_step bis aid mx rest vis)"

fun walk_chain ::
  "u32 \<Rightarrow> u32 \<Rightarrow> ea_seg list \<Rightarrow> nat set \<Rightarrow> (eattr \<times> ea_seg list \<times> eattr list) option \<times> nat set"
where
  "walk_chain aid mx [] vis = (None, vis)"
| "walk_chain aid mx (e # chain) vis =
     (let attrs = eal_attrs e;
          start = (if bisect e
                   then drop (nat (walk_bisect attrs aid 0 (int (length attrs) - 1))) attrs
                   else attrs)
      in case walk_step (bisect e) aid mx start vis of
           (Some (a, rest), vis') \<Rightarrow> (Some (a, e # chain, rest), vis')
         | (None, vis') \<Rightarrow> walk_chain aid mx chain vis')"

definition ea_walk ::
  "ea_walk_state \<Rightarrow> u32 \<Rightarrow> u32 \<Rightarrow> eattr option \<times> ea_walk_state"
where
  "ea_walk s aid mx =
     (let result =
        (case (ws_ea s, ws_eattrs s) of
           (Some rest, e # chain) \<Rightarrow>
             (case walk_step (bisect e) aid (aid + mx) rest (ws_visited s) of
                (Some (a, rest'), vis') \<Rightarrow> (Some (a, e # chain, rest'), vis')
              | (None, vis') \<Rightarrow> walk_chain aid (aid + mx) chain vis')
         | _ \<Rightarrow> walk_chain aid (aid + mx) (ws_eattrs s) (ws_visited s))
      in case result of
           (Some (a, chain, rest), vis') \<Rightarrow>
             (Some a, \<lparr>ws_eattrs = chain, ws_ea = Some rest, ws_visited = vis'\<rparr>)
         | (None, vis') \<Rightarrow> (None, s\<lparr>ws_visited := vis'\<rparr>))"

text \<open>
  \<open>ea_do_sort\<close>: a natural merge sort. \<open>take_run\<close> takes the longest non-descending run at
  the head of the array, \<open>merge_runs\<close> merges two runs, \<open>sort_pass\<close> merges the runs
  pairwise and returns the final \<open>ss\<close>, the index where the last pair starts.
\<close>

fun take_run :: "eattr list \<Rightarrow> eattr list \<times> eattr list" where
  "take_run [] = ([], [])"
| "take_run [a] = ([a], [])"
| "take_run (a # b # l) =
     (if ea_id a \<le> ea_id b then (case take_run (b # l) of (r, l') \<Rightarrow> (a # r, l'))
      else ([a], b # l))"

fun merge_runs :: "eattr list \<Rightarrow> eattr list \<Rightarrow> eattr list" where
  "merge_runs (a # lo) (b # hi) =
     (if ea_id a \<le> ea_id b then a # merge_runs lo (b # hi) else b # merge_runs (a # lo) hi)"
| "merge_runs lo [] = lo"
| "merge_runs [] hi = hi"

lemma take_run_append: "fst (take_run l) @ snd (take_run l) = l"
  by (induction l rule: take_run.induct) (auto split: prod.splits)

lemma take_run_Nil_iff: "fst (take_run l) = [] \<longleftrightarrow> l = []"
  by (cases l rule: take_run.cases) (auto split: prod.splits)

lemma take_run_length: "l \<noteq> [] \<Longrightarrow> length (snd (take_run l)) < length l"
  using take_run_append [of l] take_run_Nil_iff [of l]
  by (metis length_append length_greater_0_conv less_add_same_cancel2)

lemma take_run_length_le: "length (snd (take_run l)) \<le> length l"
  using take_run_append [of l] by (metis length_append le_add2)

function sort_pass :: "nat \<Rightarrow> nat \<Rightarrow> eattr list \<Rightarrow> eattr list \<times> nat" where
  "sort_pass s ss a =
     (if a = [] then ([], ss)
      else case take_run a of (lo, a') \<Rightarrow>
        if a' = [] then (lo, s)
        else case take_run a' of (hi, a'') \<Rightarrow>
          (case sort_pass (s + length lo + length hi) s a'' of (r, ss') \<Rightarrow>
             (merge_runs lo hi @ r, ss')))"
  by pat_completeness auto
termination
proof (relation "measure (\<lambda>(s, ss, a). length a)", goal_cases)
  case (2 s ss a lo a' hi a'')
  then have "length a' < length a" "length a'' \<le> length a'"
    using take_run_length [of a] take_run_length_le [of a']
    by (metis snd_conv)+
  then show ?case by simp
qed simp

declare sort_pass.simps [simp del]

text \<open>The number of runs, which each pass halves.\<close>

fun nruns :: "eattr list \<Rightarrow> nat" where
  "nruns [] = 0"
| "nruns [a] = 1"
| "nruns (a # b # l) = (if ea_id a \<le> ea_id b then 0 else 1) + nruns (b # l)"

abbreviation sorted_ids :: "eattr list \<Rightarrow> bool" where
  "sorted_ids l \<equiv> sorted (map ea_id l)"

lemma take_run_sorted: "sorted_ids (fst (take_run l))"
proof (induction l rule: take_run.induct)
  case (3 a b l)
  have "fst (take_run (b # l)) \<noteq> []" "hd (fst (take_run (b # l))) = b"
    by (cases l; simp split: prod.splits)+
  then obtain r where "fst (take_run (b # l)) = b # r"
    by (metis list.collapse)
  with 3 show ?case by (auto split: prod.splits) (meson order_trans)
qed simp_all

lemma nruns_take_run: "l \<noteq> [] \<Longrightarrow> nruns l = Suc (nruns (snd (take_run l)))"
  by (induction l rule: take_run.induct) (auto split: prod.splits)

lemma nruns_append: "nruns (xs @ ys) \<le> nruns xs + nruns ys"
  by (induction xs rule: nruns.induct) (cases ys; auto)+

lemma nruns_sorted: "sorted_ids l \<Longrightarrow> nruns l \<le> 1"
  by (induction l rule: nruns.induct) auto

lemma set_merge_runs: "set (merge_runs lo hi) = set lo \<union> set hi"
  by (induction lo hi rule: merge_runs.induct) auto

lemma mset_merge_runs: "mset (merge_runs lo hi) = mset lo + mset hi"
  by (induction lo hi rule: merge_runs.induct) auto

lemma sorted_merge_runs:
  "sorted_ids lo \<Longrightarrow> sorted_ids hi \<Longrightarrow> sorted_ids (merge_runs lo hi)"
  by (induction lo hi rule: merge_runs.induct) (auto simp: set_merge_runs)

lemma nruns_sort_pass: "nruns (fst (sort_pass s ss a)) \<le> (nruns a + 1) div 2"
proof (induction s ss a rule: sort_pass.induct)
  case (1 s ss a)
  obtain lo a' where lo: "take_run a = (lo, a')" by (cases "take_run a")
  obtain hi a'' where hi: "take_run a' = (hi, a'')" by (cases "take_run a'")
  have "sorted_ids lo" "sorted_ids hi"
    using take_run_sorted [of a] take_run_sorted [of a'] lo hi by simp_all
  then have *: "nruns lo \<le> 1" "nruns (merge_runs lo hi) \<le> 1"
    using nruns_sorted [of lo] nruns_sorted [of "merge_runs lo hi"] sorted_merge_runs [of lo hi]
    by simp_all
  show ?case
  proof (cases "a = [] \<or> a' = []")
    case True
    with lo * nruns_take_run [of a] show ?thesis by (auto simp: sort_pass.simps)
  next
    case False
    with lo hi * 1 [OF _ lo [symmetric] _ hi [symmetric]]
      nruns_append [of "merge_runs lo hi" "fst (sort_pass (s + length lo + length hi) s a'')"]
      nruns_take_run [of a] nruns_take_run [of a']
    show ?thesis by (subst sort_pass.simps) (auto split: prod.splits)
  qed
qed

lemma sort_pass_Nil [simp]: "sort_pass s ss [] = ([], ss)"
  by (simp add: sort_pass.simps)

lemma sort_pass_last:
  assumes "nruns a \<le> 2" "a \<noteq> []"
  shows "snd (sort_pass s ss a) = s"
proof -
  obtain lo a' where lo: "take_run a = (lo, a')" by (cases "take_run a")
  obtain hi a'' where hi: "take_run a' = (hi, a'')" by (cases "take_run a'")
  have "a'' = []" if "a' \<noteq> []"
    using assms that lo hi nruns_take_run [of a] nruns_take_run [of a'] nruns_take_run [of a'']
    by (cases "a'' = []") simp_all
  then show ?thesis
    using assms(2) lo hi by (subst sort_pass.simps) auto
qed

lemma sort_pass_less: "snd (sort_pass 0 0 a) \<noteq> 0 \<Longrightarrow> nruns (fst (sort_pass 0 0 a)) < nruns a"
proof -
  assume *: "snd (sort_pass 0 0 a) \<noteq> 0"
  then have "a \<noteq> []" by (auto simp: sort_pass.simps)
  with * sort_pass_last [of a 0 0] have "3 \<le> nruns a" by force
  with nruns_sort_pass [of 0 0 a] show ?thesis by linarith
qed

function ea_do_sort :: "eattr list \<Rightarrow> eattr list" where
  "ea_do_sort a =
     (case sort_pass 0 0 a of (a', ss) \<Rightarrow> if ss = 0 then a' else ea_do_sort a')"
  by pat_completeness auto
termination
proof (relation "measure nruns", goal_cases)
  case (2 a a' ss)
  then show ?case using sort_pass_less [of a] by (metis fst_conv in_measure snd_conv)
qed simp

declare ea_do_sort.simps [simp del]

text \<open>
  \<open>ea_do_prune\<close>: of a group of equal IDs the first attribute is kept, unless it is
  undefined, with the \<open>EAF_ORIGINATED\<close> flag of the last one.
\<close>

function ea_do_prune :: "eattr list \<Rightarrow> eattr list" where
  "ea_do_prune [] = []"
| "ea_do_prune (s0 # l) =
     (let grp = takeWhile (\<lambda>a. ea_id a = ea_id s0) l;
          rest = dropWhile (\<lambda>a. ea_id a = ea_id s0) l;
          oldest = last (s0 # grp)
      in if is_undef s0 then ea_do_prune rest
         else s0\<lparr>ea_type := (ea_type s0 AND NOT EAF_ORIGINATED) OR
                             (ea_type oldest AND EAF_ORIGINATED)\<rparr>
              # ea_do_prune rest)"
  by pat_completeness auto
termination
  by (relation "measure length") (auto simp: le_imp_less_Suc length_dropWhile_le)

declare ea_do_prune.simps(2) [simp del]

fun ea_sort :: "ea_seg list \<Rightarrow> ea_seg list" where
  "ea_sort [] = []"
| "ea_sort (e # chain) =
     (let e1 = (if eal_flags e AND EALF_SORTED = 0
                then \<lparr>eal_flags = eal_flags e OR EALF_SORTED,
                      eal_attrs = ea_do_prune (ea_do_sort (eal_attrs e))\<rparr>
                else e);
          e2 = (if length (eal_attrs e1) > 5
                then e1\<lparr>eal_flags := eal_flags e1 OR EALF_BISECT\<rparr> else e1)
      in e2 # ea_sort chain)"

text \<open>\<open>ea_scan\<close>, with the sizes of the two structures as parameters.\<close>

definition ea_scan :: "nat \<Rightarrow> nat \<Rightarrow> ea_seg list \<Rightarrow> nat" where
  "ea_scan size_ea_list size_eattr e =
     size_ea_list + size_eattr * foldl (\<lambda>cnt x. cnt + length (eal_attrs x)) 0 e"

definition ea_merge :: "ea_seg list \<Rightarrow> ea_seg list" where
  "ea_merge e = [\<lparr>eal_flags = 0, eal_attrs = foldl (\<lambda>d x. d @ eal_attrs x) [] e\<rparr>]"

text \<open>\<open>ea_same\<close>: a pointer is compared as data or as a block as the type of \<open>a\<close> says.\<close>

definition eattr_same_value :: "eattr \<Rightarrow> eattr \<Rightarrow> bool res" where
  "eattr_same_value a b =
     (if ea_type a AND EAF_EMBEDDED \<noteq> 0 then
        (case (ea_u a, ea_u b) of (Data x, Data y) \<Rightarrow> Inr (x = y) | _ \<Rightarrow> Inl Uninitialised)
      else
        (case (ea_u a, ea_u b) of (Ptr x, Ptr y) \<Rightarrow> Inr (x = y) | _ \<Rightarrow> Inl Out_of_bounds))"

fun ea_same_attrs :: "eattr list \<Rightarrow> eattr list \<Rightarrow> bool res" where
  "ea_same_attrs (a # x) (b # y) =
     (if ea_id a \<noteq> ea_id b \<or> ea_flags a \<noteq> ea_flags b \<or> ea_type a \<noteq> ea_type b then Inr False
      else rbind (eattr_same_value a b) (\<lambda>s. if s then ea_same_attrs x y else Inr False))"
| "ea_same_attrs _ _ = Inr True"

definition ea_same :: "ea_seg list \<Rightarrow> ea_seg list \<Rightarrow> bool res" where
  "ea_same x y =
     (case (x, y) of
        ([], []) \<Rightarrow> Inr True | ([], _) \<Rightarrow> Inr False | (_, []) \<Rightarrow> Inr False
      | (e # cx, f # cy) \<Rightarrow>
          if cx \<noteq> [] \<or> cy \<noteq> [] then Inl Assert_failed
          else if length (eal_attrs e) \<noteq> length (eal_attrs f) then Inr False
          else ea_same_attrs (eal_attrs e) (eal_attrs f))"

section \<open>Lookup\<close>

lemma ea_linear_SomeD: "ea_linear l i = Some a \<Longrightarrow> a \<in> set l \<and> ea_id a = i"
  by (induction l) (auto split: if_splits)

lemma ea_linear_None_iff: "ea_linear l i = None \<longleftrightarrow> i \<notin> ea_id ` set l"
  by (induction l) auto

lemma ea_linear_append:
  "ea_linear (xs @ ys) i = (case ea_linear xs i of None \<Rightarrow> ea_linear ys i | Some a \<Rightarrow> Some a)"
  by (induction xs) auto

lemma ea_linear_distinct:
  "distinct (map ea_id l) \<Longrightarrow> a \<in> set l \<Longrightarrow> ea_linear l (ea_id a) = Some a"
  by (induction l) auto

lemma sorted_wrt_nth_ids:
  "sorted_wrt (<) (map ea_id l) \<Longrightarrow> j < k \<Longrightarrow> k < length l \<Longrightarrow> ea_id (l ! j) < ea_id (l ! k)"
  by (simp add: sorted_wrt_map sorted_wrt_iff_nth_less)

lemma strict_ids:
  "sorted_wrt (<) (map ea_id l) \<Longrightarrow> sorted_ids l \<and> distinct (map ea_id l)"
  by (simp add: strict_sorted_iff)

lemma ea_bisect_step:
  "lo \<le> hi \<Longrightarrow> ea_bisect l i lo hi =
     (if ea_id (l ! nat ((lo + hi) div 2)) = i then Some (l ! nat ((lo + hi) div 2))
      else if ea_id (l ! nat ((lo + hi) div 2)) < i then ea_bisect l i ((lo + hi) div 2 + 1) hi
      else ea_bisect l i lo ((lo + hi) div 2 - 1))"
  by (subst ea_bisect.simps) (simp add: Let_def)

lemma ea_bisect_empty: "\<not> lo \<le> hi \<Longrightarrow> ea_bisect l i lo hi = None"
  by (subst ea_bisect.simps) simp

lemma ea_bisect_Some:
  "ea_bisect l i lo hi = Some a \<Longrightarrow> 0 \<le> lo \<Longrightarrow> hi < int (length l) \<Longrightarrow>
   a \<in> set l \<and> ea_id a = i"
proof (induction l i lo hi rule: ea_bisect.induct)
  case (1 l i lo hi)
  let ?m = "(lo + hi) div 2" let ?a = "l ! nat ?m"
  have le: "lo \<le> hi" using "1.prems"(1) ea_bisect_empty by fastforce
  then have m: "lo \<le> ?m" "?m \<le> hi" by linarith+
  note eq = ea_bisect_step [OF le, of l i]
  consider "ea_id ?a = i" | "ea_id ?a \<noteq> i" "ea_id ?a < i" | "ea_id ?a \<noteq> i" "\<not> ea_id ?a < i"
    by blast
  then show ?case
  proof cases
    case 1
    have "nat ?m < length l" using "1.prems" m by linarith
    with 1 eq "1.prems"(1) show ?thesis by simp
  next
    case 2
    with eq "1.prems" have "ea_bisect l i (?m + 1) hi = Some a" by simp
    from "1.IH"(1) [OF le refl refl 2 this] "1.prems" m show ?thesis by simp
  next
    case 3
    with eq "1.prems" have "ea_bisect l i lo (?m - 1) = Some a" by simp
    from "1.IH"(2) [OF le refl refl 3 this] "1.prems" m show ?thesis by simp
  qed
qed

lemma ea_bisect_None:
  "ea_bisect l i lo hi = None \<Longrightarrow> sorted_wrt (<) (map ea_id l) \<Longrightarrow> 0 \<le> lo \<Longrightarrow>
   hi < int (length l) \<Longrightarrow> lo \<le> int k \<Longrightarrow> int k \<le> hi \<Longrightarrow> ea_id (l ! k) \<noteq> i"
proof (induction l i lo hi rule: ea_bisect.induct)
  case (1 l i lo hi)
  let ?m = "(lo + hi) div 2" let ?a = "l ! nat ?m"
  have le: "lo \<le> hi" "lo \<le> ?m" "?m \<le> hi" using "1.prems" by linarith+
  note eq = ea_bisect_step [OF le(1), of l i]
  have ne: "ea_id ?a \<noteq> i" using eq "1.prems"(1) by auto
  consider "k = nat ?m" | "int k < ?m" | "?m < int k" by linarith
  then show ?case
  proof cases
    case 1
    with ne show ?thesis by simp
  next
    case 2
    then have "ea_id (l ! k) < ea_id ?a"
      using sorted_wrt_nth_ids [OF "1.prems"(2), of k "nat ?m"] "1.prems" le by simp
    show ?thesis
    proof (cases "ea_id ?a < i")
      case False
      with ne eq "1.prems"(1) have "ea_bisect l i lo (?m - 1) = None" by simp
      from "1.IH"(2) [OF le(1) refl refl ne False this "1.prems"(2,3)] 2 "1.prems" le
      show ?thesis by simp
    qed (use \<open>ea_id (l ! k) < ea_id ?a\<close> in auto)
  next
    case 3
    then have "ea_id ?a < ea_id (l ! k)"
      using sorted_wrt_nth_ids [OF "1.prems"(2), of "nat ?m" k] "1.prems" le by simp
    show ?thesis
    proof (cases "ea_id ?a < i")
      case True
      with ne eq "1.prems"(1) have "ea_bisect l i (?m + 1) hi = None" by simp
      from "1.IH"(1) [OF le(1) refl refl ne True this "1.prems"(2)] 3 "1.prems" le
      show ?thesis by simp
    qed (use \<open>ea_id ?a < ea_id (l ! k)\<close> in auto)
  qed
qed

lemma ea_bisect_linear:
  assumes "sorted_wrt (<) (map ea_id l)"
  shows "ea_bisect l i 0 (int (length l) - 1) = ea_linear l i"
proof (cases "ea_bisect l i 0 (int (length l) - 1)")
  case None
  have "ea_id a \<noteq> i" if "a \<in> set l" for a
    using ea_bisect_None [OF None assms] that by (auto simp: in_set_conv_nth)
  with None show ?thesis using ea_linear_None_iff [of l i] by auto
next
  case (Some a)
  then have "a \<in> set l" "ea_id a = i" using ea_bisect_Some [OF Some] by auto
  with Some assms ea_linear_distinct [of l a] show ?thesis by (auto simp: strict_sorted_iff)
qed

definition seg_wf :: "ea_seg \<Rightarrow> bool" where
  "seg_wf e \<longleftrightarrow> (bisect e \<longrightarrow> sorted_wrt (<) (map ea_id (eal_attrs e)))"

definition chain_attrs :: "ea_seg list \<Rightarrow> eattr list" where
  "chain_attrs e = concat (map eal_attrs e)"

lemma chain_attrs_simps [simp]:
  "chain_attrs [] = []" "chain_attrs (e # chain) = eal_attrs e @ chain_attrs chain"
  by (simp_all add: chain_attrs_def)

lemma ea__find_linear: "list_all seg_wf e \<Longrightarrow> ea__find e i = ea_linear (chain_attrs e) i"
  by (induction e i rule: ea__find.induct)
     (auto simp: seg_wf_def ea_bisect_linear ea_linear_append split: option.splits)

section \<open>Sorting\<close>

lemma filter_id_above: "(\<And>a. a \<in> set l \<Longrightarrow> k < ea_id a) \<Longrightarrow> filter (\<lambda>a. k = ea_id a) l = []"
  by (fastforce simp: filter_empty_conv)

lemma filter_merge_runs:
  "sorted_ids lo \<Longrightarrow>
   filter (\<lambda>a. k = ea_id a) (merge_runs lo hi) =
     filter (\<lambda>a. k = ea_id a) lo @ filter (\<lambda>a. k = ea_id a) hi"
proof (induction lo hi rule: merge_runs.induct)
  case (1 a lo b hi)
  show ?case
  proof (cases "ea_id a \<le> ea_id b")
    case True
    with 1(1) [OF True] "1.prems" show ?thesis by (cases "k = ea_id a") simp_all
  next
    case False
    have "filter (\<lambda>a. k = ea_id a) (a # lo) = []" if k: "k = ea_id b"
    proof (rule filter_id_above)
      fix x assume "x \<in> set (a # lo)"
      with "1.prems" have "ea_id a \<le> ea_id x" by auto
      with False k show "k < ea_id x" by simp
    qed
    with 1(2) [OF False "1.prems"] False show ?thesis by (cases "k = ea_id b") simp_all
  qed
qed simp_all

text \<open>One iteration of a pass, and induction over the iterations.\<close>

lemma sort_pass_one: "a \<noteq> [] \<Longrightarrow> snd (take_run a) = [] \<Longrightarrow> sort_pass s ss a = (a, s)"
proof -
  assume "a \<noteq> []" and 1: "snd (take_run a) = []"
  moreover have "fst (take_run a) = a" using take_run_append [of a] unfolding 1 by simp
  then have "take_run a = (a, [])" by (metis 1 prod.collapse)
  ultimately show ?thesis by (subst sort_pass.simps) simp
qed

lemma sort_pass_two:
  fixes a :: "eattr list"
  defines "lo \<equiv> fst (take_run a)" and "hi \<equiv> fst (take_run (snd (take_run a)))"
    and "rest \<equiv> snd (take_run (snd (take_run a)))"
  assumes "snd (take_run a) \<noteq> []"
  shows "sort_pass s ss a =
    (merge_runs lo hi @ fst (sort_pass (s + length lo + length hi) s rest),
     snd (sort_pass (s + length lo + length hi) s rest))"
  using assms by (subst sort_pass.simps) (auto split: prod.splits)

lemma pass_induct [case_names Nil One Two]:
  assumes "\<And>s ss. P s ss []"
    and "\<And>s ss a. a \<noteq> [] \<Longrightarrow> sorted_ids a \<Longrightarrow> sort_pass s ss a = (a, s) \<Longrightarrow> P s ss a"
    and "\<And>s ss lo hi rest. lo \<noteq> [] \<Longrightarrow> sorted_ids lo \<Longrightarrow> sorted_ids hi \<Longrightarrow>
      P (s + length lo + length hi) s rest \<Longrightarrow>
      sort_pass s ss (lo @ hi @ rest) =
        (merge_runs lo hi @ fst (sort_pass (s + length lo + length hi) s rest),
         snd (sort_pass (s + length lo + length hi) s rest)) \<Longrightarrow> P s ss (lo @ hi @ rest)"
  shows "P s ss a"
proof (induction "length a" arbitrary: s ss a rule: less_induct)
  case less
  let ?lo = "fst (take_run a)" and ?a' = "snd (take_run a)"
  let ?hi = "fst (take_run ?a')" and ?rest = "snd (take_run ?a')"
  have a: "?lo @ ?a' = a" "?hi @ ?rest = ?a'" by (rule take_run_append)+
  consider "a = []" | "a \<noteq> []" "?a' = []" | "a \<noteq> []" "?a' \<noteq> []" by blast
  then show ?case
  proof cases
    case 2
    then show ?thesis
      using assms(2) [OF 2(1)] sort_pass_one [OF 2] take_run_sorted [of a] a(1) by simp
  next
    case 3
    have "length ?rest < length a"
      using take_run_length [of a] take_run_length_le [of ?a'] 3 by simp
    then have "P (s + length ?lo + length ?hi) s ?rest" by (rule less)
    with assms(3) [of ?lo ?hi s ?rest ss] sort_pass_two [OF 3(2), of s ss] a 3(1)
    show ?thesis by (simp add: take_run_sorted take_run_Nil_iff)
  qed (simp add: assms(1))
qed

lemma mset_sort_pass: "mset (fst (sort_pass s ss a)) = mset a"
  by (induction s ss a rule: pass_induct) (simp_all add: mset_merge_runs)

lemma filter_sort_pass:
  "filter (\<lambda>a. k = ea_id a) (fst (sort_pass s ss a)) = filter (\<lambda>a. k = ea_id a) a"
  by (induction s ss a rule: pass_induct) (simp_all add: filter_merge_runs)

lemma sort_pass_start: "a \<noteq> [] \<Longrightarrow> s \<le> snd (sort_pass s ss a)"
proof (induction s ss a rule: pass_induct)
  case (Two s ss lo hi rest)
  then show ?case by (cases "rest = []") simp_all
qed simp_all

lemma sorted_sort_pass: "snd (sort_pass s ss a) = 0 \<Longrightarrow> sorted_ids (fst (sort_pass s ss a))"
proof (induction s ss a rule: pass_induct)
  case (Two s ss lo hi rest)
  then have "rest = []"
    using sort_pass_start [of rest "s + length lo + length hi" s] by (cases "rest = []") simp_all
  with Two show ?case by (simp add: sorted_merge_runs)
qed simp_all

theorem ea_do_sort_stable: "ea_do_sort a = sort_key ea_id a"
proof -
  have "mset (ea_do_sort a) = mset a \<and>
      (\<forall>k. filter (\<lambda>a. k = ea_id a) (ea_do_sort a) = filter (\<lambda>a. k = ea_id a) a) \<and>
      sorted_ids (ea_do_sort a)"
  proof (induction a rule: ea_do_sort.induct)
    case (1 a)
    obtain a' ss where *: "sort_pass 0 0 a = (a', ss)" by (cases "sort_pass 0 0 a")
    with 1 mset_sort_pass [of 0 0 a] filter_sort_pass [of _ 0 0 a] sorted_sort_pass [of 0 0 a]
    show ?case by (subst (1 2 3) ea_do_sort.simps) auto
  qed
  then show ?thesis
    by (intro sym [OF properties_for_sort_key]) auto
qed

section \<open>Pruning\<close>

definition with_origin :: "eattr \<Rightarrow> eattr \<Rightarrow> eattr" where
  "with_origin a oldest =
     a\<lparr>ea_type := (ea_type a AND NOT EAF_ORIGINATED) OR (ea_type oldest AND EAF_ORIGINATED)\<rparr>"

text \<open>The last attribute of a list with an ID, and what the pruned list says of it.\<close>

definition ea_oldest :: "eattr list \<Rightarrow> u16 \<Rightarrow> eattr" where
  "ea_oldest l i = last (filter (\<lambda>a. ea_id a = i) l)"

definition pruned :: "eattr list \<Rightarrow> u16 \<Rightarrow> eattr option" where
  "pruned l i =
     (case ea_linear l i of None \<Rightarrow> None
      | Some a \<Rightarrow> if is_undef a then None else Some (with_origin a (ea_oldest l i)))"

lemma with_origin_simps [simp]:
  "ea_id (with_origin a b) = ea_id a" "ea_u (with_origin a b) = ea_u a"
  "ea_flags (with_origin a b) = ea_flags a"
  by (simp_all add: with_origin_def)

lemma with_origin_type:
  "ea_type (with_origin a b) AND EAF_TYPE_MASK = ea_type a AND EAF_TYPE_MASK"
proof -
  have "(x AND NOT 0x40 OR y AND 0x40) AND 0x1f = x AND 0x1f" for x y :: u8
    by (simp add: bit.conj_disj_distrib2 and.assoc)
  then show ?thesis
    by (simp add: with_origin_def EAF_ORIGINATED_def EAF_TYPE_MASK_def)
qed

lemma is_undef_with_origin [simp]: "is_undef (with_origin a b) = is_undef a"
  by (simp add: is_undef_def with_origin_type)

lemma sorted_above:
  "sorted_ids (a # l) \<Longrightarrow> x \<in> set l \<Longrightarrow> ea_id x \<noteq> ea_id a \<Longrightarrow> ea_id a < ea_id x"
  by (simp add: order.strict_iff_order)

lemma sorted_group:
  assumes "sorted_ids (a # l)"
  shows "takeWhile (\<lambda>x. ea_id x = ea_id a) l = filter (\<lambda>x. ea_id x = ea_id a) l \<and>
    dropWhile (\<lambda>x. ea_id x = ea_id a) l = filter (\<lambda>x. ea_id x \<noteq> ea_id a) l"
  using assms
proof (induction l)
  case (Cons b l)
  show ?case
  proof (cases "ea_id b = ea_id a")
    case False
    with Cons.prems have "ea_id a < ea_id b" by (auto simp: order.strict_iff_order)
    moreover have "\<forall>x\<in>set l. ea_id b \<le> ea_id x" using Cons.prems by simp
    ultimately have "\<forall>x\<in>set l. ea_id x \<noteq> ea_id a" by fastforce
    then have "filter (\<lambda>x. ea_id x = ea_id a) l = []" "filter (\<lambda>x. ea_id x \<noteq> ea_id a) l = l"
      by (auto simp: filter_empty_conv filter_id_conv)
    with False show ?thesis by simp
  next
    case True
    with Cons show ?thesis by simp
  qed
qed simp

lemma prune_Cons:
  assumes "sorted_ids (a # l)"
  shows "ea_do_prune (a # l) =
    (if is_undef a then ea_do_prune (filter (\<lambda>x. ea_id x \<noteq> ea_id a) l)
     else with_origin a (ea_oldest (a # l) (ea_id a))
            # ea_do_prune (filter (\<lambda>x. ea_id x \<noteq> ea_id a) l))"
  using sorted_group [OF assms]
  by (simp add: with_origin_def ea_oldest_def Let_def ea_do_prune.simps(2))

lemma sorted_ids_filter: "sorted_ids l \<Longrightarrow> sorted_ids (filter P l)"
  by (induction l) auto

lemma set_prune_ids: "ea_id ` set (ea_do_prune l) \<subseteq> ea_id ` set l"
proof (induction l rule: ea_do_prune.induct)
  case (2 a l)
  let ?rest = "dropWhile (\<lambda>x. ea_id x = ea_id a) l"
  have "ea_id ` set (ea_do_prune ?rest) \<subseteq> ea_id ` set ?rest"
    using "2.IH"(1) [OF refl refl refl] "2.IH"(2) [OF refl refl refl] by (cases "is_undef a") simp_all
  also have "\<dots> \<subseteq> ea_id ` set l" by (auto dest: set_dropWhileD)
  finally have *: "ea_id ` set (ea_do_prune ?rest) \<subseteq> ea_id ` set l" .
  have "ea_id ` set (ea_do_prune (a # l)) \<subseteq> insert (ea_id a) (ea_id ` set (ea_do_prune ?rest))"
    by (auto simp: ea_do_prune.simps(2) Let_def)
  with * show ?case by (simp add: subset_iff image_iff) blast
qed simp

lemma prune_strict: "sorted_ids l \<Longrightarrow> sorted_wrt (<) (map ea_id (ea_do_prune l))"
proof (induction "length l" arbitrary: l rule: less_induct)
  case less
  show ?case
  proof (cases l)
    case (Cons a l')
    let ?rest = "filter (\<lambda>x. ea_id x \<noteq> ea_id a) l'"
    have "sorted_ids ?rest" using less.prems Cons by (auto intro: sorted_ids_filter)
    moreover have "length ?rest < length l" using Cons by (simp add: le_imp_less_Suc)
    ultimately have "sorted_wrt (<) (map ea_id (ea_do_prune ?rest))" by (rule less.hyps [rotated])
    moreover have "ea_id a < k" if "k \<in> ea_id ` set (ea_do_prune ?rest)" for k
      using that set_prune_ids [of ?rest] sorted_above [of a l'] less.prems Cons by auto
    ultimately show ?thesis
      using prune_Cons [of a l'] less.prems Cons by (auto simp del: sorted_wrt.simps simp: sorted_wrt.simps(2) [of _ "ea_id a"])
  qed simp
qed

lemma prune_no_undef: "a \<in> set (ea_do_prune l) \<Longrightarrow> \<not> is_undef a"
  by (induction l rule: ea_do_prune.induct)
     (auto simp: Let_def ea_do_prune.simps(2) with_origin_def [symmetric] split: if_splits)

lemma ea_linear_filter_other:
  "i \<noteq> k \<Longrightarrow> ea_linear (filter (\<lambda>x. ea_id x \<noteq> k) l) i = ea_linear l i"
  by (induction l) auto

lemma ea_oldest_filter_other:
  "i \<noteq> k \<Longrightarrow> ea_oldest (filter (\<lambda>x. ea_id x \<noteq> k) l) i = ea_oldest l i"
  unfolding ea_oldest_def by (induction l) (auto simp: filter_empty_conv)

lemma ea_oldest_Cons_other: "ea_id a \<noteq> i \<Longrightarrow> ea_oldest (a # l) i = ea_oldest l i"
  by (simp add: ea_oldest_def)

lemma prune_lookup: "sorted_ids l \<Longrightarrow> ea_linear (ea_do_prune l) i = pruned l i"
proof (induction "length l" arbitrary: l rule: less_induct)
  case less
  show ?case
  proof (cases l)
    case Nil
    then show ?thesis by (simp add: pruned_def)
  next
    case (Cons a l')
    let ?rest = "filter (\<lambda>x. ea_id x \<noteq> ea_id a) l'"
    have "sorted_ids ?rest" using less.prems Cons by (auto intro: sorted_ids_filter)
    moreover have "length ?rest < length l" using Cons by (simp add: le_imp_less_Suc)
    ultimately have IH: "ea_linear (ea_do_prune ?rest) i = pruned ?rest i" by (rule less.hyps [rotated])
    show ?thesis
    proof (cases "i = ea_id a")
      case True
      have "pruned ?rest i = None"
        using True ea_linear_None_iff [of ?rest i] by (auto simp: pruned_def)
      with IH True Cons prune_Cons [of a l'] less.prems show ?thesis by (simp add: pruned_def)
    next
      case False
      then have "pruned ?rest i = pruned l i"
        using Cons by (simp add: pruned_def ea_linear_filter_other ea_oldest_filter_other
            ea_oldest_Cons_other split: option.splits)
      with IH False Cons prune_Cons [of a l'] less.prems show ?thesis by simp
    qed
  qed
qed

section \<open>Normalization: merge, then sort\<close>

lemma stable_filter_head:
  "filter (\<lambda>a. i = ea_id a) xs = filter (\<lambda>a. i = ea_id a) ys \<Longrightarrow> ea_linear xs i = ea_linear ys i"
proof -
  have "ea_linear l i = (case filter (\<lambda>a. i = ea_id a) l of [] \<Rightarrow> None | a # _ \<Rightarrow> Some a)" for l
    by (induction l) auto
  then show "filter (\<lambda>a. i = ea_id a) xs = filter (\<lambda>a. i = ea_id a) ys \<Longrightarrow> ?thesis" by simp
qed

lemma sort_key_pruned: "pruned (sort_key ea_id l) i = pruned l i"
proof -
  have *: "filter (\<lambda>a. i = ea_id a) (sort_key ea_id l) = filter (\<lambda>a. i = ea_id a) l"
    using sort_key_stable [of ea_id i l] by (simp add: eq_commute [of i])
  then have "ea_oldest (sort_key ea_id l) i = ea_oldest l i"
    by (simp add: ea_oldest_def eq_commute [of _ i])
  with stable_filter_head [OF *] show ?thesis unfolding pruned_def by (simp only:)
qed

lemma foldl_attrs: "foldl (\<lambda>d x. d @ eal_attrs x) d e = d @ chain_attrs e"
  by (induction e arbitrary: d) auto

lemma ea_merge_attrs: "ea_merge e = [\<lparr>eal_flags = 0, eal_attrs = chain_attrs e\<rparr>]"
  by (simp add: ea_merge_def foldl_attrs)

definition ea_normalize :: "ea_seg list \<Rightarrow> ea_seg list" where
  "ea_normalize e = ea_sort (ea_merge e)"

lemma ea_normalize_attrs:
  "map eal_attrs (ea_normalize e) = [ea_do_prune (sort_key ea_id (chain_attrs e))]"
  by (simp add: ea_normalize_def ea_merge_attrs ea_do_sort_stable Let_def)

lemma ea_normalize_strict:
  "list_all (\<lambda>s. sorted_wrt (<) (map ea_id (eal_attrs s))) (ea_normalize e)"
  using ea_normalize_attrs [of e] prune_strict [of "sort_key ea_id (chain_attrs e)"]
  by (auto simp: sorted_sort_key)

lemma ea_normalize_wf: "list_all seg_wf (ea_normalize e)"
  using ea_normalize_strict [of e] by (auto simp: list_all_iff seg_wf_def)

lemma ea_normalize_find: "ea__find (ea_normalize e) i = pruned (chain_attrs e) i"
proof -
  have "chain_attrs (ea_normalize e) = ea_do_prune (sort_key ea_id (chain_attrs e))"
    using ea_normalize_attrs [of e] by (simp add: chain_attrs_def)
  then show ?thesis
    using prune_lookup [of "sort_key ea_id (chain_attrs e)" i] sorted_sort_key [of ea_id]
    by (simp add: ea__find_linear [OF ea_normalize_wf] sort_key_pruned)
qed

section \<open>Walking through a chain\<close>

definition in_interval :: "u32 \<Rightarrow> u32 \<Rightarrow> eattr \<Rightarrow> bool" where
  "in_interval i mx a \<longleftrightarrow> i \<le> ucast (ea_id a) \<and> ucast (ea_id a) < mx"

definition visit_no :: "u32 \<Rightarrow> eattr \<Rightarrow> nat" where
  "visit_no i a = unat (ucast (ea_id a) - i)"

text \<open>The attributes that a walk has to return, from the attributes ahead of it.\<close>

fun unvisited :: "u32 \<Rightarrow> u32 \<Rightarrow> nat set \<Rightarrow> eattr list \<Rightarrow> eattr list" where
  "unvisited i mx vis [] = []"
| "unvisited i mx vis (a # l) =
     (if in_interval i mx a \<and> visit_no i a \<notin> vis then
        (if is_undef a then unvisited i mx (insert (visit_no i a) vis) l
         else a # unvisited i mx (insert (visit_no i a) vis) l)
      else unvisited i mx vis l)"

lemma unvisited_outside:
  "(\<And>a. a \<in> set l \<Longrightarrow> \<not> in_interval i mx a) \<Longrightarrow>
   unvisited i mx vis (l @ m) = unvisited i mx vis m"
  by (induction l) auto

lemma walk_step_Cons:
  "walk_step bis i mx (a # rest) vis =
     (if in_interval i mx a then
        if visit_no i a \<in> vis then walk_step bis i mx rest vis
        else if is_undef a then walk_step bis i mx rest (insert (visit_no i a) vis)
        else (Some (a, a # rest), insert (visit_no i a) vis)
      else if bis then (None, vis) else walk_step bis i mx rest vis)"
  by (simp add: in_interval_def visit_no_def Let_def)

declare walk_step.simps(2) [simp del]

text \<open>Where a step may start in a sorted segment: at IDs from \<open>i\<close> on, or at the end.\<close>

definition walk_start :: "bool \<Rightarrow> u32 \<Rightarrow> eattr list \<Rightarrow> bool" where
  "walk_start bis i l \<longleftrightarrow>
     (bis \<longrightarrow> sorted_ids l \<and> ((\<forall>a\<in>set l. i \<le> ucast (ea_id a)) \<or> length l \<le> 1))"

lemma unat_ucast_id [simp]: "unat (ucast (a :: u16) :: u32) = unat a"
  using unsigned_less [of a, where 'a = nat] by (simp add: unsigned_ucast_eq take_bit_nat_eq_self)

lemma ucast_id_mono: "(a :: u16) \<le> b \<Longrightarrow> (ucast a :: u32) \<le> ucast b"
  by (simp add: word_le_nat_alt)

lemma walk_start_tl: "walk_start bis i (a # l) \<Longrightarrow> walk_start bis i l"
  by (auto simp: walk_start_def)

lemma walk_start_break:
  assumes "walk_start True i (a # l)" "\<not> in_interval i mx a" "b \<in> set (a # l)"
  shows "\<not> in_interval i mx b"
proof (cases "l = []")
  case False
  then have "i \<le> ucast (ea_id a)" "\<forall>b\<in>set l. ea_id a \<le> ea_id b"
    using assms(1) by (auto simp: walk_start_def)
  then have "mx \<le> ucast (ea_id a)" "ea_id a \<le> ea_id b"
    using assms(2,3) by (auto simp: in_interval_def)
  then have "mx \<le> ucast (ea_id b)" using ucast_id_mono by (meson order_trans)
  then show ?thesis by (simp add: in_interval_def not_less)
qed (use assms in auto)

lemma walk_step_spec:
  "walk_start bis i l \<Longrightarrow>
   (case walk_step bis i mx l vis of
      (None, vis') \<Rightarrow> unvisited i mx vis (l @ m) = unvisited i mx vis' m
    | (Some (a, rest), vis') \<Rightarrow> walk_start bis i rest \<and>
        unvisited i mx vis (l @ m) = a # unvisited i mx vis' (rest @ m))"
proof (induction l arbitrary: vis)
  case (Cons a l)
  consider "in_interval i mx a" | "\<not> in_interval i mx a" "bis" | "\<not> in_interval i mx a" "\<not> bis"
    by blast
  then show ?case
  proof cases
    case 1
    note IH = Cons.IH [OF walk_start_tl [OF Cons.prems]]
    consider "visit_no i a \<in> vis" | "visit_no i a \<notin> vis" "is_undef a"
      | "visit_no i a \<notin> vis" "\<not> is_undef a" by blast
    then show ?thesis
    proof cases
      case 1
      with IH [of vis] \<open>in_interval i mx a\<close> show ?thesis
        by (simp add: walk_step_Cons split: prod.splits option.splits)
    next
      case 2
      with IH [of "insert (visit_no i a) vis"] \<open>in_interval i mx a\<close> show ?thesis
        by (simp add: walk_step_Cons split: prod.splits option.splits)
    next
      case 3
      with Cons.prems \<open>in_interval i mx a\<close> show ?thesis by (simp add: walk_step_Cons)
    qed
  next
    case 2
    then have "unvisited i mx vis ((a # l) @ m) = unvisited i mx vis m"
      using Cons.prems walk_start_break [of i a l mx] by (intro unvisited_outside) simp
    with 2 show ?thesis by (simp add: walk_step_Cons)
  next
    case 3
    with Cons.IH [OF walk_start_tl [OF Cons.prems], of vis] show ?thesis
      by (simp add: walk_step_Cons split: prod.splits option.splits)
  qed
qed simp

lemma walk_bisect_spec:
  "sorted_ids l \<Longrightarrow> 0 \<le> lo \<Longrightarrow> lo \<le> hi \<Longrightarrow> hi < int (length l) \<Longrightarrow>
   \<forall>k<nat lo. ucast (ea_id (l ! k)) < i \<Longrightarrow>
   hi = int (length l) - 1 \<or> i \<le> ucast (ea_id (l ! nat hi)) \<Longrightarrow>
   0 \<le> walk_bisect l i lo hi \<and> walk_bisect l i lo hi < int (length l) \<and>
   (\<forall>k<nat (walk_bisect l i lo hi). ucast (ea_id (l ! k)) < i) \<and>
   (walk_bisect l i lo hi = int (length l) - 1 \<or>
    i \<le> ucast (ea_id (l ! nat (walk_bisect l i lo hi))))"
proof (induction l i lo hi rule: walk_bisect.induct)
  case (1 l i lo hi)
  let ?m = "(lo + hi) div 2"
  show ?case
  proof (cases "lo < hi")
    case False
    then have "walk_bisect l i lo hi = lo" by (subst walk_bisect.simps) simp
    with False "1.prems" show ?thesis by simp
  next
    case True
    then have m: "lo \<le> ?m" "?m < hi" by linarith+
    show ?thesis
    proof (cases "ucast (ea_id (l ! nat ?m)) < i")
      case True
      have "ucast (ea_id (l ! k)) < i" if "k < nat (?m + 1)" for k
      proof -
        have "ea_id (l ! k) \<le> ea_id (l ! nat ?m)"
          using sorted_nth_mono [OF "1.prems"(1), of k "nat ?m"] that m "1.prems" by simp
        then show ?thesis using True ucast_id_mono le_less_trans by blast
      qed
      then have le: "\<forall>k<nat (?m + 1). ucast (ea_id (l ! k)) < i" by blast
      have eq: "walk_bisect l i lo hi = walk_bisect l i (?m + 1) hi"
        using \<open>lo < hi\<close> True by (subst walk_bisect.simps) (simp add: Let_def)
      show ?thesis unfolding eq
        by (rule "1.IH"(1) [OF \<open>lo < hi\<close> refl True "1.prems"(1)]) (use m "1.prems" le in auto)
    next
      case False
      have eq: "walk_bisect l i lo hi = walk_bisect l i lo ?m"
        using \<open>lo < hi\<close> False by (subst walk_bisect.simps) (simp add: Let_def)
      show ?thesis unfolding eq
        by (rule "1.IH"(2) [OF \<open>lo < hi\<close> refl False "1.prems"(1)])
           (use m "1.prems" False in \<open>auto simp: not_less\<close>)
    qed
  qed
qed

definition seg_start :: "u32 \<Rightarrow> ea_seg \<Rightarrow> eattr list" where
  "seg_start i e =
     (if bisect e
      then drop (nat (walk_bisect (eal_attrs e) i 0 (int (length (eal_attrs e)) - 1))) (eal_attrs e)
      else eal_attrs e)"

lemma seg_start_spec:
  assumes "seg_wf e"
  shows "walk_start (bisect e) i (seg_start i e) \<and>
    unvisited i mx vis (eal_attrs e @ m) = unvisited i mx vis (seg_start i e @ m)"
proof (cases "bisect e \<and> eal_attrs e \<noteq> []")
  case True
  let ?l = "eal_attrs e" let ?w = "walk_bisect ?l i 0 (int (length ?l) - 1)" let ?p = "nat ?w"
  have srt: "sorted_ids ?l" using assms True by (simp add: seg_wf_def strict_sorted_iff)
  have w: "0 \<le> ?w \<and> ?w < int (length ?l) \<and> (\<forall>k<?p. ucast (ea_id (?l ! k)) < i) \<and>
      (?w = int (length ?l) - 1 \<or> i \<le> ucast (ea_id (?l ! ?p)))"
    by (rule walk_bisect_spec [OF srt]) (use True in \<open>auto simp: Suc_le_eq\<close>)
  then have p: "?p < length ?l" "\<forall>k<?p. ucast (ea_id (?l ! k)) < i"
      "length ?l \<le> Suc ?p \<or> i \<le> ucast (ea_id (?l ! ?p))"
    by (blast intro: iffD2 [OF nat_less_iff], blast, linarith)
  have "unvisited i mx vis (take ?p ?l @ drop ?p ?l @ m) = unvisited i mx vis (drop ?p ?l @ m)"
  proof (rule unvisited_outside)
    fix a assume "a \<in> set (take ?p ?l)"
    with p show "\<not> in_interval i mx a"
      by (auto simp: in_interval_def in_set_conv_nth not_le)
  qed
  moreover have "sorted_ids (drop ?p ?l)" using srt by (metis drop_map sorted_wrt_drop)
  moreover have "i \<le> ucast (ea_id a)"
    if le: "i \<le> ucast (ea_id (?l ! ?p))" and mem: "a \<in> set (drop ?p ?l)" for a
  proof -
    obtain k where "k < length ?l - ?p" "a = ?l ! (?p + k)"
      using mem by (auto simp: in_set_conv_nth)
    then have "ea_id (?l ! ?p) \<le> ea_id a"
      using sorted_nth_mono [OF srt, of ?p "?p + k"] by simp
    then show ?thesis using le ucast_id_mono order_trans by blast
  qed
  ultimately show ?thesis using p True
    by (auto simp: seg_start_def walk_start_def simp flip: append_assoc)
next
  case False
  then show ?thesis by (auto simp: seg_start_def walk_start_def)
qed

lemma walk_chain_Cons:
  "walk_chain i mx (e # chain) vis =
     (case walk_step (bisect e) i mx (seg_start i e) vis of
        (Some (a, rest), vis') \<Rightarrow> (Some (a, e # chain, rest), vis')
      | (None, vis') \<Rightarrow> walk_chain i mx chain vis')"
  by (simp add: seg_start_def Let_def)

declare walk_chain.simps(2) [simp del]

lemma walk_chain_spec:
  "list_all seg_wf chain \<Longrightarrow>
   (case walk_chain i mx chain vis of
      (None, vis') \<Rightarrow> unvisited i mx vis (chain_attrs chain) = []
    | (Some (a, c, rest), vis') \<Rightarrow>
        \<exists>e chain'. c = e # chain' \<and> walk_start (bisect e) i rest \<and> list_all seg_wf chain' \<and>
        unvisited i mx vis (chain_attrs chain) = a # unvisited i mx vis' (rest @ chain_attrs chain'))"
proof (induction chain arbitrary: vis)
  case (Cons e chain)
  then have "seg_wf e" by simp
  from seg_start_spec [OF this, of i mx vis "chain_attrs chain"]
    walk_step_spec [of "bisect e" i "seg_start i e" mx vis "chain_attrs chain"] Cons
  show ?case by (fastforce simp: walk_chain_Cons split: prod.splits option.splits)
qed simp

text \<open>The attributes ahead of a walk, and the invariant of its state.\<close>

definition walk_ahead :: "ea_walk_state \<Rightarrow> eattr list" where
  "walk_ahead s =
     (case (ws_ea s, ws_eattrs s) of
        (Some rest, e # chain) \<Rightarrow> rest @ chain_attrs chain
      | (_, chain) \<Rightarrow> chain_attrs chain)"

definition walk_inv :: "u32 \<Rightarrow> ea_walk_state \<Rightarrow> bool" where
  "walk_inv i s \<longleftrightarrow>
     (case (ws_ea s, ws_eattrs s) of
        (Some rest, e # chain) \<Rightarrow> walk_start (bisect e) i rest \<and> list_all seg_wf chain
      | (_, chain) \<Rightarrow> list_all seg_wf chain)"

lemma ea_walk_spec:
  assumes "walk_inv i s"
  shows "(case ea_walk s i mx of
      (None, s') \<Rightarrow> unvisited i (i + mx) (ws_visited s) (walk_ahead s) = []
    | (Some a, s') \<Rightarrow> walk_inv i s' \<and>
        unvisited i (i + mx) (ws_visited s) (walk_ahead s) =
        a # unvisited i (i + mx) (ws_visited s') (walk_ahead s'))"
proof -
  consider rest e chain where "ws_ea s = Some rest" "ws_eattrs s = e # chain"
    | "ws_ea s = None \<or> ws_eattrs s = []" by (cases "ws_ea s"; cases "ws_eattrs s") auto
  then show ?thesis
  proof cases
    case 1
    with assms walk_step_spec [of "bisect e" i rest "i + mx" "ws_visited s" "chain_attrs chain"]
      walk_chain_spec [of chain i "i + mx"]
    show ?thesis
      by (fastforce simp: ea_walk_def walk_ahead_def walk_inv_def split: prod.splits option.splits)
  next
    case 2
    with assms walk_chain_spec [of "ws_eattrs s" i "i + mx" "ws_visited s"] show ?thesis
      by (fastforce simp: ea_walk_def walk_ahead_def walk_inv_def
          split: prod.splits option.splits list.splits)
  qed
qed

text \<open>The results of a sequence of calls.\<close>

fun walk_calls :: "nat \<Rightarrow> ea_walk_state \<Rightarrow> u32 \<Rightarrow> u32 \<Rightarrow> eattr option list" where
  "walk_calls 0 s i mx = []"
| "walk_calls (Suc n) s i mx = (case ea_walk s i mx of (r, s') \<Rightarrow> r # walk_calls n s' i mx)"

lemma walk_calls_spec:
  "walk_inv i s \<Longrightarrow> xs = unvisited i (i + mx) (ws_visited s) (walk_ahead s) \<Longrightarrow>
   walk_calls (Suc (length xs)) s i mx = map Some xs @ [None]"
proof (induction xs arbitrary: s)
  case Nil
  with ea_walk_spec [OF Nil(1), of mx] show ?case by (auto split: prod.splits option.splits)
next
  case (Cons a xs)
  with ea_walk_spec [OF Cons(2), of mx]
  obtain s' where "ea_walk s i mx = (Some a, s')" "walk_inv i s'"
      "xs = unvisited i (i + mx) (ws_visited s') (walk_ahead s')"
    by (auto split: prod.splits option.splits)
  with Cons.IH [of s'] show ?case by simp
qed

lemma visit_no_eq: "visit_no i a = visit_no i b \<longleftrightarrow> ea_id a = ea_id b"
proof -
  have "(ucast (ea_id a) - i = ucast (ea_id b) - i) \<longleftrightarrow> (ucast (ea_id a) :: u32) = ucast (ea_id b)"
    by simp
  then show ?thesis by (simp add: visit_no_def word_unat_eq_iff)
qed

lemma unvisited_set:
  "a \<in> set (unvisited i mx vis l) \<longleftrightarrow>
     ea_linear l (ea_id a) = Some a \<and> in_interval i mx a \<and> \<not> is_undef a \<and> visit_no i a \<notin> vis"
proof (induction i mx vis l rule: unvisited.induct)
  case (2 i mx vis b l)
  have "in_interval i mx a = in_interval i mx b" "visit_no i a = visit_no i b"
    if "ea_id b = ea_id a" using that by (simp_all add: in_interval_def visit_no_eq)
  with 2 show ?case
    by (cases "ea_id b = ea_id a") (auto simp: visit_no_eq)
qed simp

lemma unvisited_distinct: "distinct (map ea_id (unvisited i mx vis l))"
  by (induction i mx vis l rule: unvisited.induct) (auto simp: unvisited_set visit_no_eq)

section \<open>Equality of normalized lists\<close>

definition eattr_typed :: "eattr \<Rightarrow> bool" where
  "eattr_typed a \<longleftrightarrow> (ea_type a AND EAF_EMBEDDED \<noteq> 0 \<longleftrightarrow> (\<exists>d. ea_u a = Data d))"

lemma eattr_same_value_typed:
  "eattr_typed a \<Longrightarrow> eattr_typed b \<Longrightarrow> ea_type a = ea_type b \<Longrightarrow>
   eattr_same_value a b = Inr (ea_u a = ea_u b)"
  by (cases "ea_u a"; cases "ea_u b") (auto simp: eattr_typed_def eattr_same_value_def)

lemma ea_same_attrs_iff:
  "length x = length y \<Longrightarrow> list_all eattr_typed x \<Longrightarrow> list_all eattr_typed y \<Longrightarrow>
   ea_same_attrs x y = Inr (x = y)"
  by (induction x y rule: list_induct2) (auto simp: eattr_same_value_typed)

lemma ea_same_single:
  "list_all eattr_typed (eal_attrs e) \<Longrightarrow> list_all eattr_typed (eal_attrs f) \<Longrightarrow>
   ea_same [e] [f] = Inr (eal_attrs e = eal_attrs f)"
  by (auto simp: ea_same_def ea_same_attrs_iff)

section \<open>Properties\<close>

text \<open>C39. The natural merge sort of an attribute list terminates on every array and is the
  stable sort by attribute ID.\<close>

theorem ea_do_sort_is_sort_key: "ea_do_sort a = sort_key ea_id a"
  by (rule ea_do_sort_stable)

text \<open>Normalization (\<open>ea_merge\<close>, then \<open>ea_sort\<close>) of a chain gives one segment of strictly
  ascending IDs without undefined entries, and a lookup in it, for which a segment of more than
  five attributes is searched by bisection, gives what the lookup in the chain gave: the
  same attribute, with the \<open>EAF_ORIGINATED\<close> flag of the last attribute with that ID.\<close>

theorem ea_normalize_lookup:
  assumes "list_all seg_wf e" "i AND EA_ALLOW_UNDEF = 0"
  shows "ea_find (ea_normalize e) i =
      map_option (\<lambda>a. with_origin a (ea_oldest (chain_attrs e) (ea_id a))) (ea_find e i)
    \<and> (\<exists>fl attrs. ea_normalize e = [\<lparr>eal_flags = fl, eal_attrs = attrs\<rparr>] \<and>
         sorted_wrt (<) (map ea_id attrs) \<and> (\<forall>a\<in>set attrs. \<not> is_undef a))"
proof
  let ?i = "ucast (i AND EA_CODE_MASK) :: u16"
  have "ea_linear (chain_attrs e) ?i = Some a \<Longrightarrow> ea_id a = ?i" for a
    by (simp add: ea_linear_SomeD)
  then show "ea_find (ea_normalize e) i =
      map_option (\<lambda>a. with_origin a (ea_oldest (chain_attrs e) (ea_id a))) (ea_find e i)"
    using assms by (auto simp: ea_find_def ea__find_linear ea_normalize_find pruned_def
        split: option.splits)
  obtain s where s: "ea_normalize e = [s]" "eal_attrs s = ea_do_prune (sort_key ea_id (chain_attrs e))"
    using ea_normalize_attrs [of e] by (cases "ea_normalize e") auto
  show "\<exists>fl attrs. ea_normalize e = [\<lparr>eal_flags = fl, eal_attrs = attrs\<rparr>] \<and>
         sorted_wrt (<) (map ea_id attrs) \<and> (\<forall>a\<in>set attrs. \<not> is_undef a)"
    using s ea_normalize_strict [of e] prune_no_undef
    by (intro exI [of _ "eal_flags s"] exI [of _ "eal_attrs s"]) auto
qed

abbreviation "ea_int i t v \<equiv> \<lparr>ea_id = i, ea_flags = 0, ea_type = t, ea_u = Data v\<rparr>"

theorem ea_normalize_lookup_witness:
  "let e = [\<lparr>eal_flags = 0, eal_attrs = [ea_int 7 1 10, ea_int 3 1 20, ea_int 5 0x1f 0]\<rparr>,
            \<lparr>eal_flags = 0, eal_attrs = [ea_int 5 1 30, ea_int 3 0x41 40]\<rparr>]
   in ea_find (ea_normalize e) 3 = Some (ea_int 3 0x41 20) \<and> ea_find (ea_normalize e) 5 = None"
  unfolding Let_def
  by (subst (1 2) ea_normalize_lookup [THEN conjunct1])
     (simp_all add: seg_wf_def bisect_def EALF_BISECT_def EA_ALLOW_UNDEF_def ea_find_def
       EA_CODE_MASK_def is_undef_def EAF_TYPE_MASK_def EAF_TYPE_UNDEF_def with_origin_def
       ea_oldest_def EAF_ORIGINATED_def)

text \<open>Repeated calls of \<open>ea_walk\<close> on a chain return, one by one and each once, exactly
  the attributes in the interval of IDs that a lookup finds and that are not undefined,
  and then \<open>NULL\<close>.\<close>

theorem ea_walk_enumerates:
  assumes "list_all seg_wf e"
  shows "\<exists>xs. walk_calls (Suc (length xs)) \<lparr>ws_eattrs = e, ws_ea = None, ws_visited = {}\<rparr> i mx
      = map Some xs @ [None] \<and> distinct (map ea_id xs) \<and>
      set xs = {a. ea__find e (ea_id a) = Some a \<and> in_interval i (i + mx) a \<and> \<not> is_undef a}"
proof (intro exI conjI)
  let ?s = "\<lparr>ws_eattrs = e, ws_ea = None, ws_visited = {}\<rparr>"
  let ?xs = "unvisited i (i + mx) {} (chain_attrs e)"
  have "walk_inv i ?s" using assms by (simp add: walk_inv_def)
  then show "walk_calls (Suc (length ?xs)) ?s i mx = map Some ?xs @ [None]"
    by (rule walk_calls_spec) (simp add: walk_ahead_def)
  show "distinct (map ea_id ?xs)" by (rule unvisited_distinct)
  show "set ?xs = {a. ea__find e (ea_id a) = Some a \<and> in_interval i (i + mx) a \<and> \<not> is_undef a}"
    using assms by (auto simp: unvisited_set ea__find_linear)
qed

theorem ea_walk_enumerates_witness:
  "let e = [\<lparr>eal_flags = EALF_BISECT, eal_attrs = [ea_int 2 1 10, ea_int 4 0x1f 0, ea_int 9 1 1]\<rparr>,
            \<lparr>eal_flags = 0, eal_attrs = [ea_int 4 1 30, ea_int 3 1 40]\<rparr>]
   in \<exists>xs. walk_calls (Suc (length xs)) \<lparr>ws_eattrs = e, ws_ea = None, ws_visited = {}\<rparr> 2 4
        = map Some xs @ [None] \<and> distinct (map ea_id xs) \<and>
        set xs = {a. ea__find e (ea_id a) = Some a \<and> in_interval 2 (2 + 4) a \<and> \<not> is_undef a}"
  unfolding Let_def
  by (rule ea_walk_enumerates) (simp add: seg_wf_def bisect_def EALF_BISECT_def)

text \<open>\<open>ea_same\<close> on two normalized lists whose attributes hold what their types say decides
  whether the lists have the same attributes.\<close>

theorem ea_same_decides:
  assumes "list_all eattr_typed (eal_attrs e)" "list_all eattr_typed (eal_attrs f)"
  shows "ea_same [e] [f] = Inr (eal_attrs e = eal_attrs f)"
  using assms by (rule ea_same_single)

theorem ea_same_decides_witness:
  "ea_same [\<lparr>eal_flags = 1, eal_attrs = [ea_int 2 1 10]\<rparr>] [\<lparr>eal_flags = 3, eal_attrs = [ea_int 2 1 11]\<rparr>]
   = Inr False"
  by (subst ea_same_decides) (simp_all add: eattr_typed_def EAF_EMBEDDED_def)

end
