(* ===== verification/BgpAttrs.thy ===== *)
theory BgpAttrs
  imports AsPath CommSet EaList
begin

text \<open>
  BGP path attributes, \<open>proto/bgp/attrs.c\<close>, for a daemon built for IPv4: checking and
  decoding of the attribute block of an UPDATE message, reconstruction of 4-byte AS paths
  (RFC 6793), loop detection, and encoding. The formatting functions are not modelled.

  The block of an attribute (\<open>struct adata\<close>) is a list of bytes. Sets of communities and
  IP addresses are stored in it in the byte order of the host.
\<close>

section \<open>What the code uses of its environment\<close>

text \<open>
  \<open>bl_net\<close> is \<open>lib/unaligned.h\<close>; \<open>bl_host\<close> reads and writes a word in memory, in the byte
  order of the host; \<open>bl_host_addr\<close> is \<open>ipa_classify(addr) & IADDR_HOST\<close> of \<open>lib/ip.h\<close>.
\<close>

record bgp_lib =
  bl_net :: unaligned
  bl_host :: unaligned
  bl_host_addr :: "u32 \<Rightarrow> bool"

text \<open>The parts of \<open>struct bgp_config\<close> and \<open>struct bgp_proto\<close> that the attribute code reads.\<close>

record bgp_config =
  cf_remote_ip :: u32
  cf_next_hop_self :: bool
  cf_next_hop_keep :: bool
  cf_compare_path_lengths :: bool
  cf_med_metric :: bool
  cf_igp_metric :: bool
  cf_prefer_older :: bool
  cf_deterministic_med :: bool
  cf_default_local_pref :: u32
  cf_default_med :: u32
  cf_interpret_communities :: bool
  cf_allow_local_as :: int
  cf_allow_local_pref :: bool

record bgp_proto =
  bp_ref :: nat
  bp_cf :: bgp_config
  bp_local_as :: u32
  bp_remote_as :: u32
  bp_is_internal :: bool
  bp_as4_session :: bool
  bp_local_id :: u32
  bp_remote_id :: u32
  bp_rr_cluster_id :: u32
  bp_rr_client :: bool
  bp_rs_client :: bool
  bp_neigh_iface :: "nat option"
  bp_source_addr :: u32

section \<open>Constants and the attribute table\<close>

definition BAF_OPTIONAL :: u8 where "BAF_OPTIONAL = 0x80"
definition BAF_TRANSITIVE :: u8 where "BAF_TRANSITIVE = 0x40"
definition BAF_PARTIAL :: u8 where "BAF_PARTIAL = 0x20"
definition BAF_EXT_LEN :: u8 where "BAF_EXT_LEN = 0x10"

definition BA_ORIGIN :: u8 where "BA_ORIGIN = 0x01"
definition BA_AS_PATH :: u8 where "BA_AS_PATH = 0x02"
definition BA_NEXT_HOP :: u8 where "BA_NEXT_HOP = 0x03"
definition BA_MULTI_EXIT_DISC :: u8 where "BA_MULTI_EXIT_DISC = 0x04"
definition BA_LOCAL_PREF :: u8 where "BA_LOCAL_PREF = 0x05"
definition BA_ATOMIC_AGGR :: u8 where "BA_ATOMIC_AGGR = 0x06"
definition BA_AGGREGATOR :: u8 where "BA_AGGREGATOR = 0x07"
definition BA_COMMUNITY :: u8 where "BA_COMMUNITY = 0x08"
definition BA_ORIGINATOR_ID :: u8 where "BA_ORIGINATOR_ID = 0x09"
definition BA_CLUSTER_LIST :: u8 where "BA_CLUSTER_LIST = 0x0a"
definition BA_MP_REACH_NLRI :: u8 where "BA_MP_REACH_NLRI = 0x0e"
definition BA_MP_UNREACH_NLRI :: u8 where "BA_MP_UNREACH_NLRI = 0x0f"
definition BA_EXT_COMMUNITY :: u8 where "BA_EXT_COMMUNITY = 0x10"
definition BA_AS4_PATH :: u8 where "BA_AS4_PATH = 0x11"
definition BA_AS4_AGGREGATOR :: u8 where "BA_AS4_AGGREGATOR = 0x12"
definition BA_LARGE_COMMUNITY :: u8 where "BA_LARGE_COMMUNITY = 0x20"

lemmas baf_defs = BAF_OPTIONAL_def BAF_TRANSITIVE_def BAF_PARTIAL_def BAF_EXT_LEN_def
lemmas ba_defs = BA_ORIGIN_def BA_AS_PATH_def BA_NEXT_HOP_def BA_MULTI_EXIT_DISC_def
  BA_LOCAL_PREF_def BA_ATOMIC_AGGR_def BA_AGGREGATOR_def BA_COMMUNITY_def BA_ORIGINATOR_ID_def
  BA_CLUSTER_LIST_def BA_MP_REACH_NLRI_def BA_MP_UNREACH_NLRI_def BA_EXT_COMMUNITY_def
  BA_AS4_PATH_def BA_AS4_AGGREGATOR_def BA_LARGE_COMMUNITY_def

definition EAP_BGP :: u16 where "EAP_BGP = 1"

definition EA_CODE :: "u16 \<Rightarrow> u8 \<Rightarrow> u16" where
  "EA_CODE proto code = push_bit 8 proto OR ucast code"

definition EA_PROTO :: "u16 \<Rightarrow> u16" where "EA_PROTO ea = drop_bit 8 ea"
definition EA_ID :: "u16 \<Rightarrow> u8" where "EA_ID ea = ucast (ea AND 0xff)"

definition EAF_TYPE_INT :: u8 where "EAF_TYPE_INT = 0x01"
definition EAF_TYPE_OPAQUE :: u8 where "EAF_TYPE_OPAQUE = 0x02"
definition EAF_TYPE_IP_ADDRESS :: u8 where "EAF_TYPE_IP_ADDRESS = 0x04"
definition EAF_TYPE_ROUTER_ID :: u8 where "EAF_TYPE_ROUTER_ID = 0x05"
definition EAF_TYPE_AS_PATH :: u8 where "EAF_TYPE_AS_PATH = 0x06"
definition EAF_TYPE_INT_SET :: u8 where "EAF_TYPE_INT_SET = 0x0a"
definition EAF_TYPE_EC_SET :: u8 where "EAF_TYPE_EC_SET = 0x0e"
definition EAF_TYPE_LC_SET :: u8 where "EAF_TYPE_LC_SET = 0x12"

lemmas eaf_type_defs = EAF_TYPE_INT_def EAF_TYPE_OPAQUE_def EAF_TYPE_IP_ADDRESS_def
  EAF_TYPE_ROUTER_ID_def EAF_TYPE_AS_PATH_def EAF_TYPE_INT_SET_def EAF_TYPE_EC_SET_def
  EAF_TYPE_LC_SET_def

definition IGNORE :: int where "IGNORE = -1"
definition WITHDRAW :: int where "WITHDRAW = -2"

section \<open>Checks of attribute values\<close>

text \<open>Each check gets the value \<open>z\<close> of \<open>len\<close> bytes; a positive result is an error subcode.\<close>

definition bgp_check_origin :: "u8 list \<Rightarrow> int res" where
  "bgp_check_origin z = (case z of [] \<Rightarrow> Inl Out_of_bounds | a # _ \<Rightarrow> Inr (if a > 2 then 6 else 0))"

definition bgp_check_next_hop :: "bgp_lib \<Rightarrow> u8 list \<Rightarrow> int res" where
  "bgp_check_next_hop L z =
     (if length z > 4 then Inl Out_of_bounds else if length z < 4 then Inl Uninitialised
      else Inr (if bl_host_addr L (get_u32 (bl_net L) z) then 0 else 8))"

definition bgp_check_aggregator :: "bgp_proto \<Rightarrow> u8 list \<Rightarrow> int res" where
  "bgp_check_aggregator p z =
     Inr (if length z = (if bp_as4_session p then 8 else 6) then 0 else WITHDRAW)"

definition bgp_check_community :: "u8 list \<Rightarrow> int res" where
  "bgp_check_community z = Inr (if length z mod 4 = 0 then 0 else WITHDRAW)"

definition bgp_check_cluster_list :: "u8 list \<Rightarrow> int res" where
  "bgp_check_cluster_list z = Inr (if length z mod 4 = 0 then 0 else 5)"

definition bgp_check_reach_nlri :: "u8 list \<Rightarrow> int res" where
  "bgp_check_reach_nlri z = Inr IGNORE"

definition bgp_check_unreach_nlri :: "u8 list \<Rightarrow> int res" where
  "bgp_check_unreach_nlri z = Inr IGNORE"

definition bgp_check_ext_community :: "u8 list \<Rightarrow> int res" where
  "bgp_check_ext_community z = Inr (if length z mod 8 = 0 then 0 else WITHDRAW)"

definition bgp_check_large_community :: "u8 list \<Rightarrow> int res" where
  "bgp_check_large_community z = Inr (if length z mod 12 = 0 then 0 else WITHDRAW)"

datatype attr_check =
    No_check | Check_origin | Check_next_hop | Check_aggregator | Check_community
  | Check_cluster_list | Check_reach_nlri | Check_unreach_nlri | Check_ext_community
  | Check_large_community

record attr_desc =
  ad_length :: int
  ad_flags :: u8
  ad_type :: u8
  ad_ebgp :: bool
  ad_check :: attr_check

text \<open>\<open>ATTR_KNOWN\<close> and the table: \<open>None\<close> is a code beyond the table or without a name.\<close>

definition bgp_attr_table :: "u8 \<Rightarrow> attr_desc option" where
  "bgp_attr_table code =
     (let row = \<lambda>len fl ty eb ck. Some \<lparr>ad_length = len, ad_flags = fl, ad_type = ty,
                                   ad_ebgp = eb, ad_check = ck\<rparr>;
          T = BAF_TRANSITIVE; Opt = BAF_OPTIONAL; OT = BAF_OPTIONAL OR BAF_TRANSITIVE in
      if code = BA_ORIGIN then row 1 T EAF_TYPE_INT True Check_origin
      else if code = BA_AS_PATH then row (-1) T EAF_TYPE_AS_PATH True No_check
      else if code = BA_NEXT_HOP then row 4 T EAF_TYPE_IP_ADDRESS True Check_next_hop
      else if code = BA_MULTI_EXIT_DISC then row 4 Opt EAF_TYPE_INT True No_check
      else if code = BA_LOCAL_PREF then row 4 T EAF_TYPE_INT True No_check
      else if code = BA_ATOMIC_AGGR then row 0 T EAF_TYPE_OPAQUE True No_check
      else if code = BA_AGGREGATOR then row (-1) OT EAF_TYPE_OPAQUE True Check_aggregator
      else if code = BA_COMMUNITY then row (-1) OT EAF_TYPE_INT_SET True Check_community
      else if code = BA_ORIGINATOR_ID then row 4 Opt EAF_TYPE_ROUTER_ID False No_check
      else if code = BA_CLUSTER_LIST then row (-1) Opt EAF_TYPE_INT_SET False Check_cluster_list
      else if code = BA_MP_REACH_NLRI then row (-1) Opt EAF_TYPE_OPAQUE True Check_reach_nlri
      else if code = BA_MP_UNREACH_NLRI then row (-1) Opt EAF_TYPE_OPAQUE True Check_unreach_nlri
      else if code = BA_EXT_COMMUNITY then row (-1) OT EAF_TYPE_EC_SET True Check_ext_community
      else if code = BA_AS4_PATH then row (-1) OT EAF_TYPE_OPAQUE True No_check
      else if code = BA_AS4_AGGREGATOR then row (-1) OT EAF_TYPE_OPAQUE True No_check
      else if code = BA_LARGE_COMMUNITY then row (-1) OT EAF_TYPE_LC_SET True Check_large_community
      else None)"

fun attr_validate :: "attr_check \<Rightarrow> bgp_lib \<Rightarrow> bgp_proto \<Rightarrow> u8 list \<Rightarrow> int res" where
  "attr_validate No_check L p z = Inr 0"
| "attr_validate Check_origin L p z = bgp_check_origin z"
| "attr_validate Check_next_hop L p z = bgp_check_next_hop L z"
| "attr_validate Check_aggregator L p z = bgp_check_aggregator p z"
| "attr_validate Check_community L p z = bgp_check_community z"
| "attr_validate Check_cluster_list L p z = bgp_check_cluster_list z"
| "attr_validate Check_reach_nlri L p z = bgp_check_reach_nlri z"
| "attr_validate Check_unreach_nlri L p z = bgp_check_unreach_nlri z"
| "attr_validate Check_ext_community L p z = bgp_check_ext_community z"
| "attr_validate Check_large_community L p z = bgp_check_large_community z"

section \<open>Validation of AS paths\<close>

definition rd_asn :: "unaligned \<Rightarrow> nat \<Rightarrow> u8 list \<Rightarrow> u32 res" where
  "rd_asn U bs p = (if bs = 4 then rd_u32 U p else rmap ucast (rd_u16 U p))"

fun segment_contains_loop :: "unaligned \<Rightarrow> nat \<Rightarrow> u32 \<Rightarrow> nat \<Rightarrow> u8 list \<Rightarrow> bool res" where
  "segment_contains_loop U bs asn 0 p = Inr False"
| "segment_contains_loop U bs asn (Suc n) p =
     rbind (rd_asn U bs p) (\<lambda>asn2.
       if asn2 = asn then Inr True else segment_contains_loop U bs asn n (drop bs p))"

definition path_segment_contains :: "unaligned \<Rightarrow> u8 list \<Rightarrow> nat \<Rightarrow> u32 \<Rightarrow> bool res" where
  "path_segment_contains U p bs asn =
     (case p of _ # n # r \<Rightarrow> segment_contains_loop U bs asn (unat n) r | _ \<Rightarrow> Inl Out_of_bounds)"

text \<open>
  \<open>validate_path\<close>: \<open>None\<close> is the result -1, \<open>Some (res, dst)\<close> the length of the path and
  the bytes that remain of it.
\<close>

function validate_path ::
  "unaligned \<Rightarrow> bgp_proto \<Rightarrow> bool \<Rightarrow> nat \<Rightarrow> u8 list \<Rightarrow> (nat \<times> u8 list) option res"
where
  "validate_path U p as_path bs [] = Inr (Some (0, []))"
| "validate_path U p as_path bs [t] = Inr None"
| "validate_path U p as_path bs (t # n # r) =
     (let k = bs * unat n;
          skip = validate_path U p as_path bs (drop k r);
          keep = (\<lambda>m. rmap (map_option (\<lambda>(res, dst). (m + res, t # n # take k r @ dst))) skip)
      in if length r < k then Inr None
         else if n = 0 then skip
         else if t = AS_PATH_SET then keep 1
         else if t = AS_PATH_SEQUENCE then keep (unat n)
         else if t = AS_PATH_CONFED_SEQUENCE \<or> t = AS_PATH_CONFED_SET then
           (if as_path then
              rbind (path_segment_contains U (t # n # r) bs (bp_remote_as p)) (\<lambda>c.
                if c then Inr None else skip)
            else skip)
         else Inr None)"
  by pat_completeness auto
termination
  by (relation "measure (\<lambda>(U, p, a, bs, b). length b)") auto

definition validate_as_path :: "unaligned \<Rightarrow> bgp_proto \<Rightarrow> u8 list \<Rightarrow> (nat \<times> u8 list) option res" where
  "validate_as_path U p a = validate_path U p True (if bp_as4_session p then 4 else 2) a"

definition validate_as4_path :: "unaligned \<Rightarrow> bgp_proto \<Rightarrow> u8 list \<Rightarrow> (nat \<times> u8 list) option res" where
  "validate_as4_path U p path = validate_path U p False 4 path"

section \<open>Building attributes\<close>

text \<open>
  \<open>bgp_set_attr\<close> for a known attribute; \<open>v\<close> must be what the type of the attribute says.
  \<open>bgp_attach_attr\<close> puts a new segment in front of the chain.
\<close>

definition bgp_set_attr :: "u8 \<Rightarrow> eavalue \<Rightarrow> eattr res" where
  "bgp_set_attr attr v =
     (case bgp_attr_table attr of None \<Rightarrow> Inl Assert_failed
      | Some d \<Rightarrow>
          Inr \<lparr>ea_id = EA_CODE EAP_BGP attr, ea_flags = ad_flags d, ea_type = ad_type d, ea_u = v\<rparr>)"

definition bgp_attach_attr :: "ea_seg list \<Rightarrow> u8 \<Rightarrow> eavalue \<Rightarrow> ea_seg list res" where
  "bgp_attach_attr to attr v =
     rmap (\<lambda>a. \<lparr>eal_flags = EALF_SORTED, eal_attrs = [a]\<rparr> # to) (bgp_set_attr attr v)"

definition u_ptr :: "eattr \<Rightarrow> u8 list res" where
  "u_ptr a = (case ea_u a of Ptr b \<Rightarrow> Inr b | Data _ \<Rightarrow> Inl Out_of_bounds)"

definition u_data :: "eattr \<Rightarrow> u32 res" where
  "u_data a = (case ea_u a of Data d \<Rightarrow> Inr d | Ptr _ \<Rightarrow> Inl Uninitialised)"

definition ea_find_bgp :: "ea_seg list \<Rightarrow> u8 \<Rightarrow> eattr option" where
  "ea_find_bgp e code = ea_find e (ucast (EA_CODE EAP_BGP code))"

text \<open>The words of a set in memory (\<open>int_set_get_data\<close>), and a set with such words.\<close>

fun host_words :: "unaligned \<Rightarrow> u8 list \<Rightarrow> u32 list" where
  "host_words H (a # b # c # d # r) = get_u32 H [a, b, c, d] # host_words H r"
| "host_words H r = []"

definition words_data :: "unaligned \<Rightarrow> u32 list \<Rightarrow> u8 list" where
  "words_data H ws = concat (map (put_u32 H) ws)"

section \<open>Encoding\<close>

definition bgp_encode_attr_hdr :: "unaligned \<Rightarrow> u8 \<Rightarrow> u8 \<Rightarrow> nat \<Rightarrow> u8 list" where
  "bgp_encode_attr_hdr U flags code len =
     (if len < 256 then [flags, code, of_nat len]
      else [flags OR BAF_EXT_LEN, code] @ put_u16 U (of_nat len))"

definition aggregator_convert_to_old :: "unaligned \<Rightarrow> u8 list \<Rightarrow> (u8 list \<times> bool) res" where
  "aggregator_convert_to_old U src =
     rbind (rd_u32 U src) (\<lambda>as.
       if length src < 8 then Inl Out_of_bounds
       else Inr (put_u16 U (if as > 0xFFFF then AS_TRANS else ucast as) @ take 4 (drop 4 src),
                 as > 0xFFFF))"

definition aggregator_convert_to_new :: "unaligned \<Rightarrow> u8 list \<Rightarrow> u8 list res" where
  "aggregator_convert_to_new U src =
     rbind (rd_u16 U src) (\<lambda>as.
       if length src < 6 then Inl Out_of_bounds
       else Inr (put_u32 U (ucast as) @ take 4 (drop 2 src)))"

definition bgp_get_attr_len :: "eattr \<Rightarrow> nat res" where
  "bgp_get_attr_len a =
     (case bgp_attr_table (EA_ID (ea_id a)) of
        Some desc \<Rightarrow>
          if ad_length desc < 0 then
            (if ea_type a AND EAF_EMBEDDED \<noteq> 0 then Inl Assert_failed else rmap length (u_ptr a))
          else Inr (nat (ad_length desc))
      | None \<Rightarrow>
          if ea_type a AND EAF_TYPE_MASK \<noteq> EAF_TYPE_OPAQUE then Inl Assert_failed
          else rmap length (u_ptr a))"

definition attr_payload :: "bgp_lib \<Rightarrow> eattr \<Rightarrow> nat \<Rightarrow> u8 list res" where
  "attr_payload L a len =
     (let type = ea_type a AND EAF_TYPE_MASK in
      if type = EAF_TYPE_INT \<or> type = EAF_TYPE_ROUTER_ID then
        rbind (u_data a) (\<lambda>d.
          if len = 4 then Inr (put_u32 (bl_net L) d)
          else if len = 1 then Inr [ucast d] else Inl Uninitialised)
      else if type = EAF_TYPE_IP_ADDRESS then
        rbind (u_ptr a) (\<lambda>b. rbind (rd_u32 (bl_host L) b) (\<lambda>ip.
          if len > 4 then Inl Out_of_bounds else Inr (take len (put_u32 (bl_net L) ip))))
      else if type = EAF_TYPE_INT_SET \<or> type = EAF_TYPE_LC_SET \<or> type = EAF_TYPE_EC_SET then
        rbind (u_ptr a) (\<lambda>b.
          if len mod 4 \<noteq> 0 \<or> length b < len then Inl Out_of_bounds
          else Inr (concat (map (put_u32 (bl_net L)) (take (len div 4) (host_words (bl_host L) b)))))
      else if type = EAF_TYPE_OPAQUE \<or> type = EAF_TYPE_AS_PATH then
        rbind (u_ptr a) (\<lambda>b. if length b < len then Inl Out_of_bounds else Inr (take len b))
      else Inl Bug)"

text \<open>
  One iteration of the loop of \<open>bgp_encode_attrs\<close>: \<open>None\<close> is the jump to \<open>err_no_buffer\<close>,
  \<open>Some\<close> the bytes that are written. \<open>ADVANCE(w, remains, n)\<close> moves \<open>w\<close> forward by \<open>n\<close> and
  subtracts \<open>n\<close> from \<open>remains\<close>.
\<close>

definition encode_old_as_path :: "bgp_lib \<Rightarrow> eattr \<Rightarrow> int \<Rightarrow> u8 list option res" where
  "encode_old_as_path L a remains =
     rbind (u_ptr a) (\<lambda>d. let len = length d in
       if remains < int len + 4 then Inr None
       else rbind (as_path_convert_to_old (bl_net L) d) (\<lambda>(buf, new_used).
         let old = bgp_encode_attr_hdr (bl_net L) BAF_TRANSITIVE BA_AS_PATH (length buf) @ buf;
             remains' = remains - int (length old) in
         if \<not> new_used then Inr (Some old)
         else if remains' < int len + 4 then Inr None
         else Inr (Some (old @
                bgp_encode_attr_hdr (bl_net L) (BAF_OPTIONAL OR BAF_TRANSITIVE) BA_AS4_PATH len @ d))))"

definition encode_old_aggregator :: "bgp_lib \<Rightarrow> eattr \<Rightarrow> int \<Rightarrow> u8 list option res" where
  "encode_old_aggregator L a remains =
     rbind (u_ptr a) (\<lambda>d.
       if remains < 6 + 3 then Inr None
       else rbind (aggregator_convert_to_old (bl_net L) d) (\<lambda>(buf, new_used).
         let old = bgp_encode_attr_hdr (bl_net L) (BAF_OPTIONAL OR BAF_TRANSITIVE) BA_AGGREGATOR 6
                     @ buf;
             remains' = remains - int (length old) in
         if \<not> new_used then Inr (Some old)
         else if remains' < 8 + 3 then Inr None
         else Inr (Some (old @
                bgp_encode_attr_hdr (bl_net L) (BAF_OPTIONAL OR BAF_TRANSITIVE) BA_AS4_AGGREGATOR 8
                @ take 8 d))))"

definition encode_standard :: "bgp_lib \<Rightarrow> eattr \<Rightarrow> u8 \<Rightarrow> int \<Rightarrow> u8 list option res" where
  "encode_standard L a code remains =
     (let type = ea_type a AND EAF_TYPE_MASK;
          flags = ea_flags a AND (BAF_OPTIONAL OR BAF_TRANSITIVE OR BAF_PARTIAL) in
      rbind (bgp_get_attr_len a) (\<lambda>len.
        if (type = EAF_TYPE_INT_SET \<or> type = EAF_TYPE_EC_SET \<or> type = EAF_TYPE_LC_SET) \<and> len = 0
        then Inr (Some [])
        else if remains < int len + 4 then Inr None
        else rmap (\<lambda>b. Some (bgp_encode_attr_hdr (bl_net L) flags code len @ b))
               (attr_payload L a len)))"

definition encode_attr :: "bgp_lib \<Rightarrow> bgp_proto \<Rightarrow> eattr \<Rightarrow> int \<Rightarrow> u8 list option res" where
  "encode_attr L p a remains =
     (if EA_PROTO (ea_id a) \<noteq> EAP_BGP then Inl Assert_failed
      else let code = EA_ID (ea_id a) in
        if code = BA_AS_PATH \<and> \<not> bp_as4_session p then encode_old_as_path L a remains
        else if code = BA_AGGREGATOR \<and> \<not> bp_as4_session p then encode_old_aggregator L a remains
        else encode_standard L a code remains)"

fun bgp_encode_attrs :: "bgp_lib \<Rightarrow> bgp_proto \<Rightarrow> eattr list \<Rightarrow> int \<Rightarrow> u8 list option res" where
  "bgp_encode_attrs L p [] remains = Inr (Some [])"
| "bgp_encode_attrs L p (a # attrs) remains =
     rbind (encode_attr L p a remains) (\<lambda>r.
       case r of None \<Rightarrow> Inr None
       | Some b \<Rightarrow>
           rmap (map_option (\<lambda>w. b @ w)) (bgp_encode_attrs L p attrs (remains - int (length b))))"

section \<open>Reconstruction of 4-byte attributes\<close>

definition bgp_aggregator_convert_to_new :: "unaligned \<Rightarrow> u8 list \<Rightarrow> u8 list res" where
  "bgp_aggregator_convert_to_new U old = aggregator_convert_to_new U old"

definition bgp_merge_as_paths ::
  "unaligned \<Rightarrow> u8 list \<Rightarrow> u8 list option \<Rightarrow> int \<Rightarrow> u8 list res"
where
  "bgp_merge_as_paths U old2 old4 req_as =
     rmap (\<lambda>buf. buf @ (case old4 of None \<Rightarrow> [] | Some d \<Rightarrow> d)) (as_path_convert_to_new U old2 req_as)"

definition as4_aggregator_valid :: "u8 list \<Rightarrow> bool" where
  "as4_aggregator_valid aggr \<longleftrightarrow> length aggr = 8"

text \<open>
  \<open>bgp_reconstruct_4b_atts\<close> replaces the blocks of the AS_PATH and AGGREGATOR attributes.
  The function below computes the new blocks from the old ones: \<open>p2\<close> and \<open>p4\<close> are the
  blocks of AS_PATH and AS4_PATH, \<open>a2\<close> and \<open>a4\<close> those of AGGREGATOR and AS4_AGGREGATOR.
\<close>

definition reconstruct_path ::
  "unaligned \<Rightarrow> bgp_proto \<Rightarrow> u8 list \<Rightarrow> u8 list option \<Rightarrow> u8 list res"
where
  "reconstruct_path U p p2 p4 =
     rbind (as_path_getlen_int p2 2) (\<lambda>p2_len.
     rbind (case p4 of None \<Rightarrow> Inr None | Some d \<Rightarrow> validate_as4_path U p d) (\<lambda>v4.
       case v4 of
         None \<Rightarrow> bgp_merge_as_paths U p2 None (int AS_PATH_MAXLEN)
       | Some (p4_len, d4) \<Rightarrow>
           if p4_len = 0 \<or> p2_len < p4_len
           then bgp_merge_as_paths U p2 None (int AS_PATH_MAXLEN)
           else bgp_merge_as_paths U p2 (Some d4) (int p2_len - int p4_len)))"

definition reconstruct_4b ::
  "unaligned \<Rightarrow> bgp_proto \<Rightarrow> u8 list \<Rightarrow> u8 list option \<Rightarrow> u8 list option \<Rightarrow> u8 list option \<Rightarrow>
   (u8 list \<times> u8 list option) res"
where
  "reconstruct_4b U p p2 p4 a2 a4_orig =
     (let a4 = (case a4_orig of None \<Rightarrow> None
                | Some d \<Rightarrow> if as4_aggregator_valid d then Some d else None) in
      case a2 of
        None \<Rightarrow> rmap (\<lambda>np. (np, None)) (reconstruct_path U p p2 p4)
      | Some d2 \<Rightarrow>
          rbind (rd_u16 U d2) (\<lambda>a2_as.
            case a4 of
              Some d4 \<Rightarrow>
                if a2_as \<noteq> AS_TRANS then
                  rbind (bgp_aggregator_convert_to_new U d2) (\<lambda>na.
                    rmap (\<lambda>np. (np, Some na)) (bgp_merge_as_paths U p2 None (int AS_PATH_MAXLEN)))
                else rmap (\<lambda>np. (np, Some d4)) (reconstruct_path U p p2 p4)
            | None \<Rightarrow>
                rbind (bgp_aggregator_convert_to_new U d2) (\<lambda>na.
                  rmap (\<lambda>np. (np, Some na)) (reconstruct_path U p p2 p4))))"

text \<open>The assignment \<open>a->u.ptr = d\<close> to the first attribute with an ID.\<close>

fun attrs_set_ptr :: "eattr list \<Rightarrow> u16 \<Rightarrow> u8 list \<Rightarrow> eattr list" where
  "attrs_set_ptr [] i d = []"
| "attrs_set_ptr (a # l) i d =
     (if ea_id a = i then a\<lparr>ea_u := Ptr d\<rparr> # l else a # attrs_set_ptr l i d)"

fun chain_set_ptr :: "ea_seg list \<Rightarrow> u16 \<Rightarrow> u8 list \<Rightarrow> ea_seg list" where
  "chain_set_ptr [] i d = []"
| "chain_set_ptr (e # chain) i d =
     (if i \<in> ea_id ` set (eal_attrs e)
      then e\<lparr>eal_attrs := attrs_set_ptr (eal_attrs e) i d\<rparr> # chain
      else e # chain_set_ptr chain i d)"

definition find_ptr :: "ea_seg list \<Rightarrow> u8 \<Rightarrow> u8 list option res" where
  "find_ptr e code =
     (case ea_find_bgp e code of None \<Rightarrow> Inr None | Some a \<Rightarrow> rmap Some (u_ptr a))"

definition bgp_reconstruct_4b_atts ::
  "unaligned \<Rightarrow> bgp_proto \<Rightarrow> ea_seg list \<Rightarrow> ea_seg list res"
where
  "bgp_reconstruct_4b_atts U p e =
     rbind (find_ptr e BA_AS_PATH) (\<lambda>p2.
     rbind (find_ptr e BA_AS4_PATH) (\<lambda>p4.
     rbind (find_ptr e BA_AGGREGATOR) (\<lambda>a2.
     rbind (find_ptr e BA_AS4_AGGREGATOR) (\<lambda>a4.
       case p2 of None \<Rightarrow> Inl Out_of_bounds
       | Some d \<Rightarrow>
           rmap (\<lambda>(np, na).
                   let e1 = chain_set_ptr e (EA_CODE EAP_BGP BA_AS_PATH) np in
                   case na of None \<Rightarrow> e1
                   | Some d \<Rightarrow> chain_set_ptr e1 (EA_CODE EAP_BGP BA_AGGREGATOR) d)
             (reconstruct_4b U p d p4 a2 a4)))))"

fun bgp_remove_as4_attrs :: "ea_seg list \<Rightarrow> ea_seg list res" where
  "bgp_remove_as4_attrs [] = Inr []"
| "bgp_remove_as4_attrs (e # el) =
     (case eal_attrs e of [] \<Rightarrow> Inl Out_of_bounds
      | a # _ \<Rightarrow>
          if ea_id a = EA_CODE EAP_BGP BA_AS4_PATH \<or> ea_id a = EA_CODE EAP_BGP BA_AS4_AGGREGATOR
          then bgp_remove_as4_attrs el
          else rmap (\<lambda>r. e # r) (bgp_remove_as4_attrs el))"

section \<open>Loop detection\<close>

definition bgp_as_path_loopy :: "unaligned \<Rightarrow> bgp_proto \<Rightarrow> ea_seg list \<Rightarrow> bool res" where
  "bgp_as_path_loopy U p e =
     (let num = cf_allow_local_as (bp_cf p) + 1 in
      case ea_find_bgp e BA_AS_PATH of None \<Rightarrow> Inr False
      | Some a \<Rightarrow>
          if num > 0 then rbind (u_ptr a) (\<lambda>d. as_path_contains U d (bp_local_as p) num)
          else Inr False)"

definition bgp_originator_id_loopy :: "bgp_proto \<Rightarrow> ea_seg list \<Rightarrow> bool res" where
  "bgp_originator_id_loopy p e =
     (case ea_find_bgp e BA_ORIGINATOR_ID of None \<Rightarrow> Inr False
      | Some a \<Rightarrow> rmap (\<lambda>d. d = bp_local_id p) (u_data a))"

definition bgp_cluster_list_loopy :: "unaligned \<Rightarrow> bgp_proto \<Rightarrow> ea_seg list \<Rightarrow> bool res" where
  "bgp_cluster_list_loopy H p e =
     (case ea_find_bgp e BA_CLUSTER_LIST of None \<Rightarrow> Inr False
      | Some a \<Rightarrow>
          if bp_rr_client p
          then rmap (\<lambda>d. int_set_contains (Some (host_words H d)) (bp_rr_cluster_id p)) (u_ptr a)
          else Inr False)"

section \<open>Decoding\<close>

text \<open>
  What \<open>bgp_decode_attrs\<close> ends with: a list of attributes, \<open>NULL\<close> for a route to withdraw,
  or \<open>NULL\<close> after \<open>bgp_error\<close> with a code, a subcode and data, which ends the session.
\<close>

datatype decoded =
    Accepted "ea_seg list"
  | Withdrawn
  | Error (err_subcode: int) (err_data: "u8 list")

record decode_state =
  ds_eattrs :: "ea_seg list"
  ds_seen :: "u8 set"
  ds_withdraw :: bool

text \<open>
  The header of an attribute: flags, code, length of the value, length of the header;
  \<open>None\<close> is the jump to \<open>malformed\<close>.
\<close>

definition decode_hdr :: "unaligned \<Rightarrow> u8 list \<Rightarrow> (u8 \<times> u8 \<times> nat \<times> nat) option" where
  "decode_hdr U attr =
     (case attr of
        flags # code # r \<Rightarrow>
          (case (if flags AND BAF_EXT_LEN \<noteq> 0 then
                   (if length r < 2 then None else Some (unat (get_u16 U (take 2 r)), 4))
                 else (case r of [] \<Rightarrow> None | l # _ \<Rightarrow> Some (unat l, 3))) of
             None \<Rightarrow> None
           | Some (l, hlen) \<Rightarrow>
               if hlen + l > length attr then None else Some (flags, code, l, hlen))
      | _ \<Rightarrow> None)"

text \<open>The conversion of a set from network order to host order, in place.\<close>

fun ntoh_words :: "bgp_lib \<Rightarrow> u8 list \<Rightarrow> u8 list" where
  "ntoh_words L (a # b # c # d # r) =
     put_u32 (bl_host L) (get_u32 (bl_net L) [a, b, c, d]) @ ntoh_words L r"
| "ntoh_words L r = r"

definition decode_value :: "bgp_lib \<Rightarrow> u8 \<Rightarrow> u8 list \<Rightarrow> eavalue res" where
  "decode_value L type z =
     (if type AND EAF_EMBEDDED \<noteq> 0 then
        (if type = EAF_TYPE_ROUTER_ID \<or> type = EAF_TYPE_INT then
           (if length z = 1 then Inr (Data (ucast (hd z)))
            else rmap Data (rd_u32 (bl_net L) z))
         else Inl Uninitialised)
      else if type = EAF_TYPE_IP_ADDRESS then
        rmap (\<lambda>ip. Ptr (put_u32 (bl_host L) ip @ drop 4 z)) (rd_u32 (bl_net L) z)
      else if type = EAF_TYPE_INT_SET \<or> type = EAF_TYPE_LC_SET \<or> type = EAF_TYPE_EC_SET then
        Inr (Ptr (ntoh_words L z))
      else Inr (Ptr z))"

text \<open>
  The checks of one attribute. \<open>Skip\<close> is \<open>continue\<close>, \<open>Fail\<close> the jump to \<open>err\<close>, \<open>Use\<close> the
  type, the value (which \<open>validate_as_path\<close> may have shortened) and whether to withdraw.
\<close>

datatype checked = Skip | Fail int | Use u8 "u8 list" bool

definition check_known ::
  "bgp_lib \<Rightarrow> bgp_proto \<Rightarrow> attr_desc \<Rightarrow> u8 \<Rightarrow> u8 \<Rightarrow> u8 list \<Rightarrow> checked res"
where
  "check_known L p desc flags code z =
     (if ad_length desc \<ge> 0 \<and> ad_length desc \<noteq> int (length z) then Inr (Fail 5)
      else if (ad_flags desc XOR flags) AND (BAF_OPTIONAL OR BAF_TRANSITIVE) \<noteq> 0 then Inr (Fail 4)
      else if \<not> bp_is_internal p \<and> \<not> ad_ebgp desc then Inr Skip
      else if \<not> bp_is_internal p \<and> code = BA_LOCAL_PREF \<and> \<not> cf_allow_local_pref (bp_cf p)
        then Inr Skip
      else if ad_check desc \<noteq> No_check then
        rbind (attr_validate (ad_check desc) L p z) (\<lambda>errcode.
          if errcode > 0 then Inr (Fail errcode)
          else if errcode = IGNORE then Inr Skip
          else Inr (Use (ad_type desc) z (errcode \<le> WITHDRAW)))
      else if code = BA_AS_PATH then
        rmap (\<lambda>v. case v of None \<Rightarrow> Fail 11 | Some (_, z') \<Rightarrow> Use (ad_type desc) z' False)
          (validate_as_path (bl_net L) p z)
      else Inr (Use (ad_type desc) z False))"

definition check_attr :: "bgp_lib \<Rightarrow> bgp_proto \<Rightarrow> u8 \<Rightarrow> u8 \<Rightarrow> u8 list \<Rightarrow> checked res" where
  "check_attr L p flags code z =
     (case bgp_attr_table code of
        Some desc \<Rightarrow> check_known L p desc flags code z
      | None \<Rightarrow>
          Inr (if flags AND BAF_OPTIONAL = 0 then Fail 2 else Use EAF_TYPE_OPAQUE z False))"

definition decode_add ::
  "bgp_lib \<Rightarrow> u8 \<Rightarrow> u8 \<Rightarrow> u8 \<Rightarrow> u8 list \<Rightarrow> bool \<Rightarrow> decode_state \<Rightarrow> decode_state res"
where
  "decode_add L flags code type z w st =
     rmap (\<lambda>v. \<lparr>ds_eattrs = \<lparr>eal_flags = 0, eal_attrs = [\<lparr>ea_id = EA_CODE EAP_BGP code,
                  ea_flags = flags, ea_type = type, ea_u = v\<rparr>]\<rparr> # ds_eattrs st,
                ds_seen = insert code (ds_seen st), ds_withdraw = ds_withdraw st \<or> w\<rparr>)
       (decode_value L type z)"

text \<open>The loop over the attributes: an error, or the state after the last attribute.\<close>

lemma decode_hdr_bounds:
  "decode_hdr U attr = Some (flags, code, l, hlen) \<Longrightarrow> 3 \<le> hlen \<and> hlen + l \<le> length attr"
  by (auto simp: decode_hdr_def split: list.splits if_splits)

function decode_loop ::
  "bgp_lib \<Rightarrow> bgp_proto \<Rightarrow> u8 list \<Rightarrow> decode_state \<Rightarrow> (decoded + decode_state) res"
where
  "decode_loop L p attr st =
     (if attr = [] then Inr (Inr st)
      else case decode_hdr (bl_net L) attr of
        None \<Rightarrow> Inr (Inl (Error 1 []))
      | Some (flags, code, l, hlen) \<Rightarrow>
          if code \<in> ds_seen st then Inr (Inl (Error 1 []))
          else
            let z = take l (drop hlen attr); rest = drop (hlen + l) attr in
            rbind (check_attr L p flags code z) (\<lambda>c.
              case c of
                Skip \<Rightarrow> decode_loop L p rest st
              | Fail errcode \<Rightarrow> Inr (Inl (Error errcode (take (hlen + l) attr)))
              | Use type z' w \<Rightarrow>
                  rbind (decode_add L flags code type z' w st) (decode_loop L p rest)))"
  by pat_completeness auto
termination
  by (relation "measure (\<lambda>(L, p, attr, st). length attr)")
     (auto dest!: sym [where t = "decode_hdr _ _"] decode_hdr_bounds)

declare decode_loop.simps [simp del]

definition bgp_mandatory_attrs :: "u8 list" where
  "bgp_mandatory_attrs = [BA_ORIGIN, BA_AS_PATH, BA_NEXT_HOP]"

definition bgp_decode_attrs :: "bgp_lib \<Rightarrow> bgp_proto \<Rightarrow> u8 list \<Rightarrow> bool \<Rightarrow> decoded res" where
  "bgp_decode_attrs L p attr mandatory =
     rbind (decode_loop L p attr \<lparr>ds_eattrs = [], ds_seen = {}, ds_withdraw = False\<rparr>) (\<lambda>r.
       case r of Inl err \<Rightarrow> Inr err
       | Inr st \<Rightarrow>
           if ds_withdraw st then Inr Withdrawn
           else if \<not> mandatory then Inr (Accepted (ds_eattrs st))
           else case filter (\<lambda>c. c \<notin> ds_seen st) bgp_mandatory_attrs of
             code # _ \<Rightarrow> Inr (Error 3 [code])
           | [] \<Rightarrow>
               rbind (if bp_as4_session p then Inr (ds_eattrs st)
                      else bgp_reconstruct_4b_atts (bl_net L) p (ds_eattrs st)) (\<lambda>e1.
               rbind (bgp_remove_as4_attrs e1) (\<lambda>e2.
               rbind (bgp_as_path_loopy (bl_net L) p e2) (\<lambda>loop1.
               if loop1 then Inr Withdrawn else
               rbind (bgp_originator_id_loopy p e2) (\<lambda>loop2.
               rbind (if loop2 then Inr True else bgp_cluster_list_loopy (bl_host L) p e2) (\<lambda>loop3.
               if loop3 then Inr Withdrawn
               else if BA_LOCAL_PREF \<in> ds_seen st then Inr (Accepted e2)
               else rmap Accepted (bgp_attach_attr e2 BA_LOCAL_PREF
                      (Data (cf_default_local_pref (bp_cf p))))))))))"

section \<open>What a validated path is\<close>

definition wire_asns :: "unaligned \<Rightarrow> nat \<Rightarrow> u32 list \<Rightarrow> u8 list" where
  "wire_asns U bs as = (if bs = 4 then asns_bytes U as else old_asns_bytes U as)"

definition wire_path :: "unaligned \<Rightarrow> nat \<Rightarrow> seg list \<Rightarrow> u8 list" where
  "wire_path U bs segs = (if bs = 4 then path_bytes U segs else old_path_bytes U segs)"

lemma wire_path_simps [simp]:
  "wire_path U bs [] = []"
  "wire_path U bs (Seg t as # segs) =
     t # of_nat (length as) # wire_asns U bs as @ wire_path U bs segs"
  by (simp_all add: wire_path_def wire_asns_def)

text \<open>The segments that \<open>validate_path\<close> keeps.\<close>

definition seg_kept :: "seg \<Rightarrow> bool" where
  "seg_kept s \<longleftrightarrow> seg_asns s \<noteq> [] \<and> seg_type s \<in> {AS_PATH_SET, AS_PATH_SEQUENCE}"

definition path_ok :: "seg list \<Rightarrow> bool" where
  "path_ok segs \<longleftrightarrow> list_all seg_ok segs \<and> list_all (\<lambda>s. seg_asns s \<noteq> []) segs"

lemma path_ok_simps [simp]:
  "path_ok []" "path_ok (s # segs) \<longleftrightarrow> seg_ok s \<and> seg_asns s \<noteq> [] \<and> path_ok segs"
  by (auto simp: path_ok_def)

lemma path_ok_kept: "path_ok segs \<Longrightarrow> filter seg_kept segs = segs"
  by (induction segs) (auto simp: seg_kept_def seg_ok_def)

context unaligned_access begin

lemma get_wire_asns:
  "length b = bs * n \<Longrightarrow> bs = 2 \<or> bs = 4 \<Longrightarrow>
   \<exists>as. length as = n \<and> b = wire_asns U bs as \<and> (bs = 2 \<longrightarrow> (\<forall>a\<in>set as. a \<le> 0xFFFF))"
proof (induction n arbitrary: b)
  case 0
  then show ?case by (intro exI [of _ "[]"]) (auto simp: wire_asns_def)
next
  case (Suc n)
  then have len: "length (drop bs b) = bs * n" "length (take bs b) = bs" by auto
  then obtain as where as: "length as = n" "drop bs b = wire_asns U bs as"
      "bs = 2 \<longrightarrow> (\<forall>a\<in>set as. a \<le> 0xFFFF)"
    using Suc by blast
  from Suc.prems(2) show ?case
  proof
    assume bs: "bs = 2"
    let ?a = "ucast (get_u16 U (take 2 b)) :: u32"
    have nat: "unat ?a = unat (get_u16 U (take 2 b))" by (rule unat_ucast_id)
    have small: "?a \<le> 0xFFFF"
      unfolding word_le_nat_alt nat
      using unsigned_less [of "get_u16 U (take 2 b)", where 'a = nat] by simp
    have "ucast (ucast w :: u32) = w" for w :: u16
      by (rule bit_word_eqI) (simp add: bit_simps)
    then have "old_asn ?a = get_u16 U (take 2 b)"
      using small by (simp add: old_asn_def not_less [symmetric])
    then have "put_u16 U (old_asn ?a) = take 2 b"
      using len bs by (simp add: put_get_u16)
    then have "b = put_u16 U (old_asn ?a) @ drop 2 b" by simp
    with as bs small show ?thesis by (intro exI [of _ "?a # as"]) (simp add: wire_asns_def)
  next
    assume bs: "bs = 4"
    then have "put_u32 U (get_u32 U (take 4 b)) = take 4 b" using len by (simp add: put_get_u32)
    then have "b = put_u32 U (get_u32 U (take 4 b)) @ drop 4 b" by simp
    with as bs show ?thesis
      by (intro exI [of _ "get_u32 U (take 4 b) # as"]) (simp add: wire_asns_def)
  qed
qed

lemma segment_contains_total:
  "bs * n \<le> length p \<Longrightarrow> bs = 2 \<or> bs = 4 \<Longrightarrow> \<exists>c. segment_contains_loop U bs asn n p = Inr c"
proof (induction n arbitrary: p)
  case (Suc n)
  then have "\<exists>a. rd_asn U bs p = Inr a"
    by (auto simp: rd_asn_def rd_u32_def rd_u16_def)
  moreover have "\<exists>c. segment_contains_loop U bs asn n (drop bs p) = Inr c"
    using Suc by (intro Suc.IH) auto
  ultimately show ?case by auto
qed auto

text \<open>
  Validation never reads outside of the attribute. It either rejects the path, or the path
  is a sequence of segments and validation removes the empty and the confederation ones.
\<close>

lemma validate_path_cases:
  assumes "bs = 2 \<or> bs = 4"
  shows "validate_path U p as_path bs b = Inr None \<or>
    (\<exists>raw. b = wire_path U bs raw \<and> list_all (\<lambda>s. length (seg_asns s) < 256) raw \<and>
       (bs = 2 \<longrightarrow> (\<forall>a\<in>set (path_asns raw). a \<le> 0xFFFF)) \<and>
       validate_path U p as_path bs b =
         Inr (Some (segs_len (filter seg_kept raw), wire_path U bs (filter seg_kept raw))))"
    (is "?fails b \<or> (\<exists>raw. ?parsed b raw)")
proof (induction "length b" arbitrary: b rule: less_induct)
  case less
  consider "b = []" | t where "b = [t]" | t n r where "b = t # n # r" by (metis list.exhaust)
  then show ?case
  proof cases
    case 1
    then have "?parsed b []" by simp
    then show ?thesis by blast
  next
    case 2
    then show ?thesis by simp
  next
    case (3 t n r)
    let ?k = "bs * unat n"
    show ?thesis
    proof (cases "length r < ?k")
      case True
      with 3 show ?thesis by simp
    next
      case long: False
      then obtain as where as: "length as = unat n" "take ?k r = wire_asns U bs as"
          "bs = 2 \<longrightarrow> (\<forall>a\<in>set as. a \<le> 0xFFFF)"
        using get_wire_asns [of "take ?k r" bs "unat n"] assms by auto
      have r: "r = wire_asns U bs as @ drop ?k r" using as(2) by (metis append_take_drop_id)
      have n: "of_nat (length as) = n" by (simp add: as)
      have as_len: "length as < 256" by (simp add: as)
      obtain c where c: "\<And>t. path_segment_contains U (t # n # r) bs (bp_remote_as p) = Inr c"
        using segment_contains_total [of bs "unat n" r] long assms
        by (auto simp: path_segment_contains_def)
      have "length (drop ?k r) < length b" using 3 by simp
      from less [OF this] consider "?fails (drop ?k r)" | (ok) raw where "?parsed (drop ?k r) raw"
        by blast
      then show ?thesis
      proof cases
        case 1
        show ?thesis unfolding 3 validate_path.simps(3) Let_def 1 using long c by simp
      next
        case 2: (ok raw)
        let ?raw = "Seg t as # raw"
        have b: "b = wire_path U bs ?raw" using 3 r 2 n by simp
        have zero: "n = 0 \<longleftrightarrow> as = []"
          using as_len by (simp add: n [symmetric])
        show ?thesis
        proof (cases "validate_path U p as_path bs b = Inr None")
          case False
          then have "validate_path U p as_path bs b =
             Inr (Some (segs_len (filter seg_kept ?raw), wire_path U bs (filter seg_kept ?raw)))"
            unfolding 3 validate_path.simps(3) Let_def 2 [THEN conjunct2, THEN conjunct2, THEN conjunct2]
            using long c zero n as(1,2)
            by (auto simp: seg_kept_def as_path_consts split: if_splits)
          with b 2 as as_len have "?parsed b ?raw" by auto
          then show ?thesis by blast
        qed simp
      qed
    qed
  qed
qed

lemma length_old_asns_bytes [simp]: "length (old_asns_bytes U as) = 2 * length as"
  unfolding old_asns_bytes_def by (rule length_concat_const) simp

lemma length_wire_asns [simp]: "bs = 2 \<or> bs = 4 \<Longrightarrow> length (wire_asns U bs as) = bs * length as"
  by (auto simp: wire_asns_def)

lemma validate_ok_path:
  assumes "bs = 2 \<or> bs = 4"
  shows "path_ok segs \<Longrightarrow> validate_path U p as_path bs (wire_path U bs segs) =
           Inr (Some (segs_len segs, wire_path U bs segs))"
proof (induction segs)
  case (Cons s segs)
  obtain t as where s: "s = Seg t as" by (cases s)
  with Cons.prems have "t = AS_PATH_SET \<or> t = AS_PATH_SEQUENCE" "length as < 256" "as \<noteq> []"
    by auto
  then show ?case using Cons s length_wire_asns [OF assms, of as] by (auto simp: Let_def)
qed simp

lemma getlen_wire_path:
  assumes "bs = 2 \<or> bs = 4"
  shows "list_all seg_ok segs \<Longrightarrow> as_path_getlen_int (wire_path U bs segs) bs = Inr (segs_len segs)"
proof (induction segs)
  case (Cons s segs)
  then show ?case using length_wire_asns [OF assms] by (cases s) auto
qed simp

lemma segs_len_pos: "path_ok segs \<Longrightarrow> segs_len segs = 0 \<longleftrightarrow> segs = []"
  by (cases segs rule: segs_len.cases) auto

lemma segs_take_all:
  "list_all seg_ok segs \<Longrightarrow> int (segs_len segs) \<le> k \<Longrightarrow>
   list_all (\<lambda>s. seg_asns s \<noteq> []) segs \<Longrightarrow> segs_take k segs = segs"
  by (induction k segs rule: segs_take.induct) (auto simp: as_path_consts neq_Nil_conv)

text \<open>
  Reconstruction from a 2-byte path \<open>s2\<close> and a 4-byte path \<open>s4\<close> that is not longer: the
  positions by which \<open>s2\<close> is longer, then \<open>s4\<close>.
\<close>

lemma reconstruct_path_as4:
  assumes "path_ok s2" "path_ok s4" "s4 \<noteq> []" "segs_len s4 \<le> segs_len s2"
  shows "reconstruct_path U p (old_path_bytes U s2) (Some (path_bytes U s4)) =
    Inr (path_bytes U (segs_map through_old (segs_take (int (segs_len s2) - int (segs_len s4)) s2))
         @ path_bytes U s4)"
proof -
  have "as_path_getlen_int (old_path_bytes U s2) 2 = Inr (segs_len s2)"
    using getlen_wire_path [of 2 s2] assms(1) by (simp add: wire_path_def path_ok_def)
  moreover have "validate_as4_path U p (path_bytes U s4) = Inr (Some (segs_len s4, path_bytes U s4))"
    using validate_ok_path [of 4 s4 p False] assms(2) by (simp add: validate_as4_path_def wire_path_def)
  moreover have "segs_len s4 \<noteq> 0" using segs_len_pos assms by blast
  ultimately show ?thesis
    using assms convert_to_new_bytes [of s2]
    by (simp add: reconstruct_path_def bgp_merge_as_paths_def path_ok_def)
qed

lemma reconstruct_path_old:
  assumes "path_ok s2" "segs_len s2 \<le> AS_PATH_MAXLEN"
  shows "reconstruct_path U p (old_path_bytes U s2) None =
    Inr (path_bytes U (segs_map through_old s2))"
proof -
  have "as_path_getlen_int (old_path_bytes U s2) 2 = Inr (segs_len s2)"
    using getlen_wire_path [of 2 s2] assms(1) by (simp add: wire_path_def path_ok_def)
  then show ?thesis
    using assms convert_to_new_bytes [of s2] segs_take_all [of s2 "int AS_PATH_MAXLEN"]
    by (simp add: reconstruct_path_def bgp_merge_as_paths_def path_ok_def)
qed

end

lemma segs_map_id:
  "(\<And>a. a \<in> set (path_asns segs) \<Longrightarrow> f a = a) \<Longrightarrow> segs_map f segs = segs"
proof (induction segs)
  case (Cons s segs)
  obtain t as where s: "s = Seg t as" by (cases s)
  have "map f as = as" using Cons.prems s by (intro map_idI) simp
  moreover have "segs_map f segs = segs" using Cons s by auto
  ultimately show ?case using s by (simp add: segs_map_def)
qed (simp add: segs_map_def)

section \<open>The buffer\<close>

locale bgp_lib_ok =
  fixes L :: bgp_lib
  assumes net: "unaligned_access (bl_net L)" and host: "unaligned_access (bl_host L)"
begin

lemma net_lengths [simp]: "length (put_u16 (bl_net L) v) = 2" "length (put_u32 (bl_net L) w) = 4"
  using unaligned_access.length_put_u16 [OF net] unaligned_access.length_put_u32 [OF net] by auto

lemma host_length [simp]: "length (put_u32 (bl_host L) w) = 4"
  using unaligned_access.length_put_u32 [OF host] by auto

lemma length_hdr: "length (bgp_encode_attr_hdr (bl_net L) fl code len) = (if len < 256 then 3 else 4)"
  by (simp add: bgp_encode_attr_hdr_def)

lemma length_words: "length (host_words H b) = length b div 4"
  by (induction H b rule: host_words.induct) auto

lemma length_payload:
  "attr_payload L a len = Inr b \<Longrightarrow> length b \<le> len"
  by (auto simp: attr_payload_def Let_def rbind_Inr_iff length_concat_const [of _ _ 4] length_words
      split: if_splits)

lemma length_convert_to_old_asns:
  "convert_to_old_asns (bl_net L) n src = Inr (dst, nu, src') \<Longrightarrow>
   length dst + length src' \<le> length src"
proof (induction n arbitrary: src dst nu)
  case (Suc n)
  from Suc.prems obtain a x where *: "rd_u32 (bl_net L) src = Inr a"
      "convert_to_old_asns (bl_net L) n (drop 4 src) = Inr x"
    by (auto simp: rbind_Inr_iff)
  obtain d nu' s where x: "x = (d, nu', s)" by (rule prod_cases3)
  have "s = src'" "length dst = 2 + length d" using Suc.prems * x by auto
  moreover have "4 \<le> length src" using *(1) by (simp add: rd_u32_def split: if_splits)
  moreover have "length d + length s \<le> length (drop 4 src)" using Suc.IH [of "drop 4 src" d nu'] *(2) x calculation by simp
  ultimately show ?case by simp
qed simp

lemma length_convert_to_old:
  "as_path_convert_to_old (bl_net L) src = Inr (dst, nu) \<Longrightarrow> length dst \<le> length src"
proof (induction "length src" arbitrary: src dst nu rule: less_induct)
  case less
  consider "src = []" | t n r where "src = t # n # r"
    using less.prems by (cases src rule: list.exhaust; cases "tl src") auto
  then show ?case
  proof cases
    case (2 t n r)
    from less.prems 2 obtain x where x: "convert_to_old_asns (bl_net L) (unat n) r = Inr x"
      by (auto simp: rbind_Inr_iff)
    obtain d nu1 s' where *: "x = (d, nu1, s')" by (rule prod_cases3)
    from less.prems 2 x * obtain y where y: "as_path_convert_to_old (bl_net L) s' = Inr y"
      by (auto simp: rbind_Inr_iff)
    obtain d' nu' where **: "y = (d', nu')" by (rule prod.exhaust)
    have "dst = t # n # d @ d'" using less.prems 2 x y * ** by auto
    with x y * ** length_convert_to_old_asns [of "unat n" r d nu1 s'] less.hyps [of s' d' nu'] 2
    show ?thesis by simp
  qed (use less.prems in simp)
qed

text \<open>An iteration writes no more than what remains of the buffer.\<close>

lemma encode_attr_fits:
  assumes "encode_attr L p a remains = Inr (Some b)" "0 \<le> remains"
  shows "int (length b) \<le> remains"
proof -
  consider "encode_old_as_path L a remains = Inr (Some b)"
    | "encode_old_aggregator L a remains = Inr (Some b)"
    | code where "encode_standard L a code remains = Inr (Some b)"
    using assms by (auto simp: encode_attr_def Let_def split: if_splits)
  then show ?thesis
  proof cases
    case 1
    then show ?thesis
      by (auto simp: encode_old_as_path_def Let_def rbind_Inr_iff length_hdr
          dest!: length_convert_to_old split: if_splits)
  next
    case 2
    then show ?thesis
      by (auto simp: encode_old_aggregator_def aggregator_convert_to_old_def Let_def rbind_Inr_iff
          length_hdr split: if_splits)
  next
    case 3
    then show ?thesis using assms(2)
      by (auto simp: encode_standard_def Let_def rbind_Inr_iff rmap_Inr_iff length_hdr
          dest!: length_payload split: if_splits)
  qed
qed

lemma encode_attrs_fit:
  "bgp_encode_attrs L p attrs remains = Inr (Some b) \<Longrightarrow> 0 \<le> remains \<Longrightarrow>
   int (length b) \<le> remains"
proof (induction attrs arbitrary: remains b)
  case (Cons a attrs)
  from Cons.prems(1) obtain b1 where 1: "encode_attr L p a remains = Inr (Some b1)"
    by (auto simp: rbind_Inr_iff split: option.splits)
  with Cons.prems(1) obtain b2 where
      "bgp_encode_attrs L p attrs (remains - int (length b1)) = Inr (Some b2)" "b = b1 @ b2"
    by (auto simp: rmap_Inr_iff eq_commute [of "Some b"])
  note * = 1 this
  with encode_attr_fits [OF *(1)] Cons.IH [OF *(2)] Cons.prems show ?case by auto
qed simp

end

section \<open>Properties\<close>

text \<open>C33. \<open>validate_path\<close>, on any bytes and for both widths of AS numbers, reads nothing outside
  of the attribute: it rejects the path, or the bytes are a sequence of segments and it
  keeps the non-empty sets and sequences of them, in order, and returns their length.
  What is kept of a path of 4-byte AS numbers is a path on which the operations of
  \<open>nest/a-path.c\<close> are defined.\<close>

theorem validate_path_sound:
  assumes "unaligned_access U" "bs = 2 \<or> bs = 4"
  shows "validate_path U p as_path bs b = Inr None \<or>
    (\<exists>raw. b = wire_path U bs raw \<and>
       validate_path U p as_path bs b =
         Inr (Some (segs_len (filter seg_kept raw), wire_path U bs (filter seg_kept raw))) \<and>
       path_ok (filter seg_kept raw))"
proof -
  have "path_ok (filter seg_kept raw)" if "list_all (\<lambda>s. length (seg_asns s) < 256) raw" for raw
    using that by (auto simp: path_ok_def list_all_iff seg_kept_def seg_ok_def)
  then show ?thesis
    using unaligned_access.validate_path_cases [OF assms, of p as_path b] by blast
qed

theorem validate_path_sound_witness:
  "\<forall>p. validate_path network_order p True 4 [2, 1, 0, 0, 0, 7] = Inr None \<or>
    (\<exists>raw. [2, 1, 0, 0, 0, 7] = wire_path network_order 4 raw \<and>
       validate_path network_order p True 4 [2, 1, 0, 0, 0, 7] =
         Inr (Some (segs_len (filter seg_kept raw), wire_path network_order 4 (filter seg_kept raw))) \<and>
       path_ok (filter seg_kept raw))"
  by (intro allI validate_path_sound [OF net.unaligned_access_axioms]) simp



end
