(* ===== verification/BgpCodec.thy ===== *)
theory BgpCodec
  imports BgpAttrs
begin

text \<open>
  The wire format of BGP attributes: \<open>bgp_decode_attrs\<close> reads back what
  \<open>bgp_encode_attrs\<close> writes (both in \<open>proto/bgp/attrs.c\<close>, modelled in \<open>BgpAttrs\<close>).
\<close>

section \<open>Decoding what was encoded\<close>

text \<open>The value of an attribute as the attribute block holds it.\<close>

definition wire_value :: "bgp_lib \<Rightarrow> u8 \<Rightarrow> eavalue \<Rightarrow> u8 list" where
  "wire_value L code v =
     (case v of
        Data d \<Rightarrow> if code = BA_ORIGIN then [ucast d] else put_u32 (bl_net L) d
      | Ptr b \<Rightarrow>
          if code = BA_NEXT_HOP then put_u32 (bl_net L) (get_u32 (bl_host L) b)
          else if code \<in> {BA_COMMUNITY, BA_CLUSTER_LIST, BA_EXT_COMMUNITY, BA_LARGE_COMMUNITY}
            then concat (map (put_u32 (bl_net L)) (host_words (bl_host L) b))
          else b)"

text \<open>
  The values a route may carry: what each type promises, sets being non-empty (an empty set
  is not sent) and a next hop being the address of a host.
\<close>

definition data_ok :: "u8 \<Rightarrow> u32 \<Rightarrow> bool" where
  "data_ok code d \<longleftrightarrow>
     code \<in> {BA_MULTI_EXIT_DISC, BA_LOCAL_PREF, BA_ORIGINATOR_ID} \<or> code = BA_ORIGIN \<and> d \<le> 2"

definition block_ok :: "bgp_lib \<Rightarrow> u8 \<Rightarrow> u8 list \<Rightarrow> bool" where
  "block_ok L code b \<longleftrightarrow> length b < 65536 \<and>
     (code = BA_AS_PATH \<and> (\<exists>segs. path_ok segs \<and> b = path_bytes (bl_net L) segs) \<or>
      code = BA_NEXT_HOP \<and> length b = 4 \<and> bl_host_addr L (get_u32 (bl_host L) b) \<or>
      code = BA_ATOMIC_AGGR \<and> b = [] \<or>
      code = BA_AGGREGATOR \<and> length b = 8 \<or>
      code \<in> {BA_COMMUNITY, BA_CLUSTER_LIST} \<and> b \<noteq> [] \<and> length b mod 4 = 0 \<or>
      code = BA_EXT_COMMUNITY \<and> b \<noteq> [] \<and> length b mod 8 = 0 \<or>
      code = BA_LARGE_COMMUNITY \<and> b \<noteq> [] \<and> length b mod 12 = 0 \<or>
      bgp_attr_table code = None)"

definition attr_ok :: "bgp_lib \<Rightarrow> u8 \<Rightarrow> eattr \<Rightarrow> bool" where
  "attr_ok L code a \<longleftrightarrow>
     ea_id a = EA_CODE EAP_BGP code \<and>
     (case ea_u a of Data d \<Rightarrow> data_ok code d | Ptr b \<Rightarrow> block_ok L code b) \<and>
     ea_flags a AND (BAF_OPTIONAL OR BAF_TRANSITIVE OR BAF_PARTIAL) = ea_flags a \<and>
     (case bgp_attr_table code of
        Some d \<Rightarrow> ea_type a = ad_type d \<and>
          (ad_flags d XOR ea_flags a) AND (BAF_OPTIONAL OR BAF_TRANSITIVE) = 0
      | None \<Rightarrow> ea_type a = EAF_TYPE_OPAQUE \<and> ea_flags a AND BAF_OPTIONAL \<noteq> 0)"

text \<open>The attributes that a receiver does not ignore.\<close>

definition attr_accepted :: "bgp_proto \<Rightarrow> u8 \<Rightarrow> bool" where
  "attr_accepted q code \<longleftrightarrow>
     bp_is_internal q \<or>
     (case bgp_attr_table code of None \<Rightarrow> True
      | Some d \<Rightarrow> ad_ebgp d \<and> (code = BA_LOCAL_PREF \<longrightarrow> cf_allow_local_pref (bp_cf q)))"

lemma EA_CODE_id: "EA_ID (EA_CODE EAP_BGP code) = code"
proof -
  have "x AND 0xff = take_bit 8 x" for x :: u16 by (simp add: take_bit_eq_mask mask_eq_exp_minus_1)
  then show ?thesis
    unfolding EA_ID_def EA_CODE_def by (intro bit_word_eqI) (auto simp: bit_simps)
qed

lemma EA_CODE_proto: "EA_PROTO (EA_CODE EAP_BGP code) = EAP_BGP"
  unfolding EA_PROTO_def EA_CODE_def EAP_BGP_def
  by (rule bit_word_eqI) (auto simp: bit_simps bit_1_iff dest: bit_imp_le_length)

lemma table_simps [simp]:
  "bgp_attr_table BA_ORIGIN = Some \<lparr>ad_length = 1, ad_flags = BAF_TRANSITIVE,
     ad_type = EAF_TYPE_INT, ad_ebgp = True, ad_check = Check_origin\<rparr>"
  "bgp_attr_table BA_AS_PATH = Some \<lparr>ad_length = -1, ad_flags = BAF_TRANSITIVE,
     ad_type = EAF_TYPE_AS_PATH, ad_ebgp = True, ad_check = No_check\<rparr>"
  "bgp_attr_table BA_NEXT_HOP = Some \<lparr>ad_length = 4, ad_flags = BAF_TRANSITIVE,
     ad_type = EAF_TYPE_IP_ADDRESS, ad_ebgp = True, ad_check = Check_next_hop\<rparr>"
  "bgp_attr_table BA_MULTI_EXIT_DISC = Some \<lparr>ad_length = 4, ad_flags = BAF_OPTIONAL,
     ad_type = EAF_TYPE_INT, ad_ebgp = True, ad_check = No_check\<rparr>"
  "bgp_attr_table BA_LOCAL_PREF = Some \<lparr>ad_length = 4, ad_flags = BAF_TRANSITIVE,
     ad_type = EAF_TYPE_INT, ad_ebgp = True, ad_check = No_check\<rparr>"
  "bgp_attr_table BA_ATOMIC_AGGR = Some \<lparr>ad_length = 0, ad_flags = BAF_TRANSITIVE,
     ad_type = EAF_TYPE_OPAQUE, ad_ebgp = True, ad_check = No_check\<rparr>"
  "bgp_attr_table BA_AGGREGATOR = Some \<lparr>ad_length = -1, ad_flags = BAF_OPTIONAL OR BAF_TRANSITIVE,
     ad_type = EAF_TYPE_OPAQUE, ad_ebgp = True, ad_check = Check_aggregator\<rparr>"
  "bgp_attr_table BA_COMMUNITY = Some \<lparr>ad_length = -1, ad_flags = BAF_OPTIONAL OR BAF_TRANSITIVE,
     ad_type = EAF_TYPE_INT_SET, ad_ebgp = True, ad_check = Check_community\<rparr>"
  "bgp_attr_table BA_ORIGINATOR_ID = Some \<lparr>ad_length = 4, ad_flags = BAF_OPTIONAL,
     ad_type = EAF_TYPE_ROUTER_ID, ad_ebgp = False, ad_check = No_check\<rparr>"
  "bgp_attr_table BA_CLUSTER_LIST = Some \<lparr>ad_length = -1, ad_flags = BAF_OPTIONAL,
     ad_type = EAF_TYPE_INT_SET, ad_ebgp = False, ad_check = Check_cluster_list\<rparr>"
  "bgp_attr_table BA_EXT_COMMUNITY = Some \<lparr>ad_length = -1,
     ad_flags = BAF_OPTIONAL OR BAF_TRANSITIVE,
     ad_type = EAF_TYPE_EC_SET, ad_ebgp = True, ad_check = Check_ext_community\<rparr>"
  "bgp_attr_table BA_LARGE_COMMUNITY = Some \<lparr>ad_length = -1,
     ad_flags = BAF_OPTIONAL OR BAF_TRANSITIVE,
     ad_type = EAF_TYPE_LC_SET, ad_ebgp = True, ad_check = Check_large_community\<rparr>"
  by (simp_all add: bgp_attr_table_def ba_defs Let_def)

lemma table_unknown:
  "bgp_attr_table code = None \<Longrightarrow>
   code \<notin> {BA_ORIGIN, BA_AS_PATH, BA_NEXT_HOP, BA_AGGREGATOR, BA_COMMUNITY, BA_CLUSTER_LIST,
            BA_EXT_COMMUNITY, BA_LARGE_COMMUNITY, BA_LOCAL_PREF}"
  by auto

context bgp_lib_ok begin

lemma host_words_exact:
  "length b div 4 \<le> n \<Longrightarrow> take n (host_words (bl_host L) b) = host_words (bl_host L) b"
  by (simp add: length_words)

lemma length_wire_words:
  "length b mod 4 = 0 \<Longrightarrow>
   length (concat (map (put_u32 (bl_net L)) (host_words (bl_host L) b))) = length b"
  by (subst length_concat_const [of _ _ 4]) (auto simp: length_words)

lemma ntoh_wire_words:
  "length b mod 4 = 0 \<Longrightarrow>
   ntoh_words L (concat (map (put_u32 (bl_net L)) (host_words (bl_host L) b))) = b"
proof (induction "bl_host L" b rule: host_words.induct)
  case (1 a b c d r)
  have step: "ntoh_words L (x @ y) = put_u32 (bl_host L) (get_u32 (bl_net L) x) @ ntoh_words L y"
    if len: "length x = 4" for x y
  proof -
    obtain x1 x2 x3 x4 where "x = [x1, x2, x3, x4]"
      using len by (auto simp: length_Suc_conv eval_nat_numeral)
    then show ?thesis by simp
  qed
  have "length r mod 4 = 0" using 1(2) by simp
  with 1(1) show ?case
    by (simp add: step unaligned_access.get_put_u32 [OF net] unaligned_access.put_get_u32 [OF host])
qed auto

end

lemma ba_distinct:
  "distinct [BA_ORIGIN, BA_AS_PATH, BA_NEXT_HOP, BA_MULTI_EXIT_DISC, BA_LOCAL_PREF, BA_ATOMIC_AGGR,
     BA_AGGREGATOR, BA_COMMUNITY, BA_ORIGINATOR_ID, BA_CLUSTER_LIST, BA_EXT_COMMUNITY, BA_LARGE_COMMUNITY]"
  "distinct [BA_LARGE_COMMUNITY, BA_EXT_COMMUNITY, BA_CLUSTER_LIST, BA_ORIGINATOR_ID, BA_COMMUNITY, BA_AGGREGATOR,
     BA_ATOMIC_AGGR, BA_LOCAL_PREF, BA_MULTI_EXIT_DISC, BA_NEXT_HOP, BA_AS_PATH, BA_ORIGIN]"
  by (simp_all add: ba_defs)

lemmas ba_neq = ba_distinct [simplified]

lemma hdr_flags:
  "(f OR BAF_EXT_LEN) AND (BAF_OPTIONAL OR BAF_TRANSITIVE) = f AND (BAF_OPTIONAL OR BAF_TRANSITIVE)"
  "(f OR BAF_EXT_LEN) AND BAF_OPTIONAL = f AND BAF_OPTIONAL"
  by (simp_all add: baf_defs bit.conj_disj_distrib2)

lemma xor_and_flags: "(x XOR f) AND m = (x AND m) XOR (f AND (m :: u8))"
  by (rule bit_word_eqI) (auto simp: bit_simps)

lemma flags_ext:
  "f AND (BAF_OPTIONAL OR BAF_TRANSITIVE OR BAF_PARTIAL) = f \<Longrightarrow> f AND BAF_EXT_LEN = 0"
  "(f OR BAF_EXT_LEN) AND BAF_EXT_LEN \<noteq> 0"
proof -
  assume "f AND (BAF_OPTIONAL OR BAF_TRANSITIVE OR BAF_PARTIAL) = f"
  moreover have "(f AND (BAF_OPTIONAL OR BAF_TRANSITIVE OR BAF_PARTIAL)) AND BAF_EXT_LEN = 0"
    by (simp add: baf_defs and.assoc)
  ultimately show "f AND BAF_EXT_LEN = 0" by simp
next
  show "(f OR BAF_EXT_LEN) AND BAF_EXT_LEN \<noteq> 0" by (simp add: baf_defs bit.conj_disj_distrib2)
qed

lemma type_masks [simp]:
  "EAF_TYPE_INT AND EAF_TYPE_MASK = EAF_TYPE_INT"
  "EAF_TYPE_OPAQUE AND EAF_TYPE_MASK = EAF_TYPE_OPAQUE"
  "EAF_TYPE_IP_ADDRESS AND EAF_TYPE_MASK = EAF_TYPE_IP_ADDRESS"
  "EAF_TYPE_ROUTER_ID AND EAF_TYPE_MASK = EAF_TYPE_ROUTER_ID"
  "EAF_TYPE_AS_PATH AND EAF_TYPE_MASK = EAF_TYPE_AS_PATH"
  "EAF_TYPE_INT_SET AND EAF_TYPE_MASK = EAF_TYPE_INT_SET"
  "EAF_TYPE_EC_SET AND EAF_TYPE_MASK = EAF_TYPE_EC_SET"
  "EAF_TYPE_LC_SET AND EAF_TYPE_MASK = EAF_TYPE_LC_SET"
  by (simp_all add: eaf_type_defs EAF_TYPE_MASK_def)

lemma type_embedded [simp]:
  "EAF_TYPE_INT AND EAF_EMBEDDED \<noteq> 0" "EAF_TYPE_ROUTER_ID AND EAF_EMBEDDED \<noteq> 0"
  "EAF_TYPE_OPAQUE AND EAF_EMBEDDED = 0" "EAF_TYPE_IP_ADDRESS AND EAF_EMBEDDED = 0"
  "EAF_TYPE_AS_PATH AND EAF_EMBEDDED = 0" "EAF_TYPE_INT_SET AND EAF_EMBEDDED = 0"
  "EAF_TYPE_EC_SET AND EAF_EMBEDDED = 0" "EAF_TYPE_LC_SET AND EAF_EMBEDDED = 0"
  by (simp_all add: eaf_type_defs EAF_EMBEDDED_def)

lemma type_distinct:
  "distinct [EAF_TYPE_INT, EAF_TYPE_OPAQUE, EAF_TYPE_IP_ADDRESS, EAF_TYPE_ROUTER_ID,
     EAF_TYPE_AS_PATH, EAF_TYPE_INT_SET, EAF_TYPE_EC_SET, EAF_TYPE_LC_SET]"
  "distinct [EAF_TYPE_LC_SET, EAF_TYPE_EC_SET, EAF_TYPE_INT_SET, EAF_TYPE_AS_PATH,
     EAF_TYPE_ROUTER_ID, EAF_TYPE_IP_ADDRESS, EAF_TYPE_OPAQUE, EAF_TYPE_INT]"
  by (simp_all add: eaf_type_defs)

lemmas type_neq = type_distinct [simplified]

text \<open>The attributes by the shape of their values.\<close>

lemma attr_ok_cases [consumes 1, case_names Int Origin Id Path Hop Opaque Set]:
  assumes "attr_ok L code a"
  obtains d where "ea_u a = Data d" "code = BA_MULTI_EXIT_DISC \<or> code = BA_LOCAL_PREF"
      "ea_type a = EAF_TYPE_INT"
    | d where "ea_u a = Data d" "code = BA_ORIGIN" "d \<le> 2" "ea_type a = EAF_TYPE_INT"
    | d where "ea_u a = Data d" "code = BA_ORIGINATOR_ID" "ea_type a = EAF_TYPE_ROUTER_ID"
    | segs where "ea_u a = Ptr (path_bytes (bl_net L) segs)" "path_ok segs" "code = BA_AS_PATH"
      "length (path_bytes (bl_net L) segs) < 65536" "ea_type a = EAF_TYPE_AS_PATH"
    | b where "ea_u a = Ptr b" "code = BA_NEXT_HOP" "length b = 4"
      "bl_host_addr L (get_u32 (bl_host L) b)" "ea_type a = EAF_TYPE_IP_ADDRESS"
    | b where "ea_u a = Ptr b" "length b < 65536" "ea_type a = EAF_TYPE_OPAQUE"
      "code = BA_ATOMIC_AGGR \<and> b = [] \<or> code = BA_AGGREGATOR \<and> length b = 8 \<or>
       bgp_attr_table code = None"
    | b where "ea_u a = Ptr b" "b \<noteq> []" "length b < 65536" "length b mod 4 = 0"
      "code \<in> {BA_COMMUNITY, BA_CLUSTER_LIST} \<and> ea_type a = EAF_TYPE_INT_SET \<or>
       code = BA_EXT_COMMUNITY \<and> ea_type a = EAF_TYPE_EC_SET \<and> length b mod 8 = 0 \<or>
       code = BA_LARGE_COMMUNITY \<and> ea_type a = EAF_TYPE_LC_SET \<and> length b mod 12 = 0"
proof (cases "ea_u a")
  case (Data d)
  then consider "code = BA_MULTI_EXIT_DISC" | "code = BA_LOCAL_PREF" | "code = BA_ORIGINATOR_ID"
    | "code = BA_ORIGIN" "d \<le> 2" using assms by (auto simp: attr_ok_def data_ok_def)
  then show ?thesis using Data assms that(1-3) by cases (auto simp: attr_ok_def)
next
  case (Ptr b)
  then consider segs where "code = BA_AS_PATH" "path_ok segs" "b = path_bytes (bl_net L) segs"
    | "code = BA_NEXT_HOP" "length b = 4" "bl_host_addr L (get_u32 (bl_host L) b)"
    | "code = BA_ATOMIC_AGGR" "b = []" | "code = BA_AGGREGATOR" "length b = 8"
    | "code \<in> {BA_COMMUNITY, BA_CLUSTER_LIST}" "b \<noteq> []" "length b mod 4 = 0"
    | "code = BA_EXT_COMMUNITY" "b \<noteq> []" "length b mod 8 = 0"
    | "code = BA_LARGE_COMMUNITY" "b \<noteq> []" "length b mod 12 = 0"
    | "bgp_attr_table code = None"
    using assms by (auto simp: attr_ok_def block_ok_def)
  moreover have "length b < 65536" using assms Ptr by (simp add: attr_ok_def block_ok_def)
  moreover have "length b mod 4 = 0" if "length b mod 8 = 0 \<or> length b mod 12 = 0"
    using that by presburger
  ultimately show ?thesis using Ptr assms that(4-7) by cases (auto simp: attr_ok_def)
qed

text \<open>
  What the encoder writes for an attribute, and the attribute that the decoder makes of it:
  the flags are those of the header, which has a long length field for long values.
\<close>

definition encoded_attr :: "bgp_lib \<Rightarrow> u8 \<Rightarrow> eattr \<Rightarrow> u8 list" where
  "encoded_attr L code a =
     bgp_encode_attr_hdr (bl_net L) (ea_flags a) code (length (wire_value L code (ea_u a)))
     @ wire_value L code (ea_u a)"

definition received_attr :: "eattr \<Rightarrow> u8 \<Rightarrow> nat \<Rightarrow> eattr" where
  "received_attr a code len =
     a\<lparr>ea_flags := if len < 256 then ea_flags a else ea_flags a OR BAF_EXT_LEN\<rparr>"

text \<open>The same for a list of attributes, each with its code. Decoding puts the last one first.\<close>

definition attr_block :: "bgp_lib \<Rightarrow> (u8 \<times> eattr) list \<Rightarrow> u8 list" where
  "attr_block L cas = concat (map (\<lambda>(code, a). encoded_attr L code a) cas)"

definition received :: "bgp_lib \<Rightarrow> (u8 \<times> eattr) list \<Rightarrow> ea_seg list" where
  "received L cas = map (\<lambda>(code, a). \<lparr>eal_flags = 0,
     eal_attrs = [received_attr a code (length (wire_value L code (ea_u a)))]\<rparr>) (rev cas)"

context bgp_lib_ok begin

lemma attr_len_ok:
  assumes "attr_ok L code a"
  shows "bgp_get_attr_len a = Inr (length (wire_value L code (ea_u a)))"
proof -
  have i: "EA_ID (ea_id a) = code" using assms by (simp add: attr_ok_def EA_CODE_id)
  from assms show ?thesis
    by (cases rule: attr_ok_cases)
       (auto simp: bgp_get_attr_len_def i wire_value_def u_ptr_def ba_neq length_wire_words
         dest: table_unknown)
qed

lemma payload_ok:
  assumes "attr_ok L code a"
  shows "attr_payload L a (length (wire_value L code (ea_u a))) = Inr (wire_value L code (ea_u a))"
  using assms
  by (cases rule: attr_ok_cases)
     (auto simp: attr_payload_def Let_def wire_value_def u_ptr_def u_data_def ba_neq type_neq
       length_wire_words host_words_exact rd_u32_def dest: table_unknown)

lemma encode_attr_ok:
  assumes "attr_ok L code a" "bp_as4_session p"
    and "int (length (wire_value L code (ea_u a))) + 4 \<le> remains"
  shows "encode_attr L p a remains = Inr (Some
    (bgp_encode_attr_hdr (bl_net L) (ea_flags a) code (length (wire_value L code (ea_u a)))
     @ wire_value L code (ea_u a)))"
proof -
  have i: "EA_ID (ea_id a) = code" "EA_PROTO (ea_id a) = EAP_BGP"
      "ea_flags a AND (BAF_OPTIONAL OR BAF_TRANSITIVE OR BAF_PARTIAL) = ea_flags a"
    using assms by (simp_all add: attr_ok_def EA_CODE_id EA_CODE_proto)
  have "wire_value L code (ea_u a) \<noteq> []" if "ea_type a AND EAF_TYPE_MASK = EAF_TYPE_INT_SET \<or>
      ea_type a AND EAF_TYPE_MASK = EAF_TYPE_EC_SET \<or> ea_type a AND EAF_TYPE_MASK = EAF_TYPE_LC_SET"
    using assms(1)
  proof (cases rule: attr_ok_cases)
    case (Set b)
    then have "length (wire_value L code (ea_u a)) = length b"
      by (auto simp: wire_value_def length_wire_words ba_neq)
    with \<open>b \<noteq> []\<close> show ?thesis by auto
  qed (use that in \<open>auto simp: type_neq\<close>)
  with assms attr_len_ok [OF assms(1)] payload_ok [OF assms(1)] i show ?thesis
    by (auto simp: encode_attr_def encode_standard_def Let_def)
qed

lemma decode_value_ok:
  assumes "attr_ok L code a"
  shows "decode_value L (ea_type a) (wire_value L code (ea_u a)) = Inr (ea_u a)"
proof -
  have rd: "rd_u32 (bl_net L) (put_u32 (bl_net L) w) = Inr w" for w
    using unaligned_access.rd_u32_put [OF net, of w "[]"] by simp
  have small: "ucast (ucast d :: u8) = d" if "d \<le> 2" for d :: u32
  proof -
    have "unat d < 256" using that by (simp add: word_le_nat_alt)
    then show ?thesis
      by (simp add: word_unat_eq_iff unsigned_ucast_eq unsigned_take_bit_eq take_bit_nat_eq_self)
  qed
  from assms show ?thesis
    by (cases rule: attr_ok_cases)
       (auto simp: decode_value_def wire_value_def ba_neq type_neq rd small ntoh_wire_words
         unaligned_access.put_get_u32 [OF host] dest: table_unknown)
qed

lemma check_attr_ok:
  assumes "attr_ok L code a" "attr_accepted q code" "bp_as4_session q"
    and "fl AND (BAF_OPTIONAL OR BAF_TRANSITIVE) = ea_flags a AND (BAF_OPTIONAL OR BAF_TRANSITIVE)"
    and "fl AND BAF_OPTIONAL = ea_flags a AND BAF_OPTIONAL"
  shows "check_attr L q fl code (wire_value L code (ea_u a)) =
    Inr (Use (ea_type a) (wire_value L code (ea_u a)) False)"
proof (cases "bgp_attr_table code")
  case None
  with assms show ?thesis by (simp add: check_attr_def attr_ok_def)
next
  case (Some d)
  have flags: "(ad_flags d XOR fl) AND (BAF_OPTIONAL OR BAF_TRANSITIVE) = 0"
    using assms(1,4) Some by (simp add: attr_ok_def xor_and_flags)
  have acc: "\<not> (\<not> bp_is_internal q \<and> \<not> ad_ebgp d)"
      "\<not> (\<not> bp_is_internal q \<and> code = BA_LOCAL_PREF \<and> \<not> cf_allow_local_pref (bp_cf q))"
    using assms(2) Some by (auto simp: attr_accepted_def)
  have type: "ad_type d = ea_type a" using assms(1) Some by (simp add: attr_ok_def)
  have origin: "bgp_check_origin [ucast e] = Inr 0" if "e \<le> 2" for e :: u32
  proof -
    have "unat (ucast e :: u8) \<le> unat e" by (simp add: unsigned_ucast_eq unsigned_take_bit_eq)
    then have "unat (ucast e :: u8) \<le> 2" using that by (simp add: word_le_nat_alt)
    then show ?thesis by (simp add: bgp_check_origin_def word_less_nat_alt)
  qed
  have known: "check_attr L q fl code z =
      (if ad_length d \<ge> 0 \<and> ad_length d \<noteq> int (length z) then Inr (Fail 5)
       else if ad_check d \<noteq> No_check then
        rbind (attr_validate (ad_check d) L q z) (\<lambda>errcode.
          if errcode > 0 then Inr (Fail errcode)
          else if errcode = IGNORE then Inr Skip
          else Inr (Use (ea_type a) z (errcode \<le> WITHDRAW)))
       else if code = BA_AS_PATH then
        rmap (\<lambda>v. case v of None \<Rightarrow> Fail 11 | Some (_, z') \<Rightarrow> Use (ea_type a) z' False)
          (validate_as_path (bl_net L) q z)
       else Inr (Use (ea_type a) z False))" for z
    by (simp only: check_attr_def check_known_def Some option.case flags acc type if_False
        not_True_eq_False simp_thms)
  have path: "validate_as_path (bl_net L) q (path_bytes (bl_net L) segs) =
      Inr (Some (segs_len segs, path_bytes (bl_net L) segs))" if "path_ok segs" for segs
    using unaligned_access.validate_ok_path [OF net, of 4 segs q True] that assms(3)
    by (simp add: validate_as_path_def wire_path_def)
  have hop: "get_u32 (bl_net L) (put_u32 (bl_net L) w) = w" for w
    by (rule unaligned_access.get_put_u32 [OF net])
  from assms(1) show ?thesis unfolding known
    by (cases rule: attr_ok_cases)
       (use Some in \<open>auto simp: wire_value_def ba_neq origin path hop length_wire_words assms(3)
         bgp_check_next_hop_def bgp_check_aggregator_def bgp_check_community_def
         bgp_check_cluster_list_def bgp_check_ext_community_def bgp_check_large_community_def
         IGNORE_def WITHDRAW_def dest: table_unknown\<close>)
qed

lemma wire_value_length: "attr_ok L code a \<Longrightarrow> length (wire_value L code (ea_u a)) < 65536"
  by (cases rule: attr_ok_cases [of L code a])
     (auto simp: wire_value_def ba_neq length_wire_words dest: table_unknown)

lemma decode_hdr_encoded:
  assumes "attr_ok L code a"
  defines "len \<equiv> length (wire_value L code (ea_u a))"
  shows "decode_hdr (bl_net L) (encoded_attr L code a @ rest) =
    Some (ea_flags (received_attr a code len), code, len, if len < 256 then 3 else 4)"
proof -
  have "ea_flags a AND (BAF_OPTIONAL OR BAF_TRANSITIVE OR BAF_PARTIAL) = ea_flags a"
    using assms(1) by (simp add: attr_ok_def)
  then have "ea_flags a AND BAF_EXT_LEN = 0" by (rule flags_ext(1))
  moreover have "get_u16 (bl_net L) (put_u16 (bl_net L) v) = v" for v
    by (rule unaligned_access.get_put_u16 [OF net])
  moreover have "unat (of_nat len :: u16) = len"
    using wire_value_length [OF assms(1)] by (simp add: len_def unat_of_nat)
  ultimately show ?thesis
    using flags_ext(2) [of "ea_flags a"]
    by (simp add: decode_hdr_def encoded_attr_def bgp_encode_attr_hdr_def received_attr_def
        len_def [symmetric])
qed

lemma decode_loop_encoded:
  assumes "attr_ok L code a" "attr_accepted q code" "bp_as4_session q" "code \<notin> ds_seen st"
  defines "len \<equiv> length (wire_value L code (ea_u a))"
  shows "decode_loop L q (encoded_attr L code a @ rest) st =
    decode_loop L q rest
      \<lparr>ds_eattrs = \<lparr>eal_flags = 0, eal_attrs = [received_attr a code len]\<rparr> # ds_eattrs st,
       ds_seen = insert code (ds_seen st), ds_withdraw = ds_withdraw st\<rparr>"
proof -
  let ?f = "ea_flags (received_attr a code len)" and ?h = "if len < 256 then 3 else 4 :: nat"
  have hlen: "length (encoded_attr L code a) = ?h + len"
    by (simp add: encoded_attr_def length_hdr len_def)
  have z: "take len (drop ?h (encoded_attr L code a @ rest)) = wire_value L code (ea_u a)"
    by (simp add: encoded_attr_def length_hdr len_def)
  have id: "ea_id a = EA_CODE EAP_BGP code" using assms(1) by (simp add: attr_ok_def)
  have chk: "check_attr L q ?f code (wire_value L code (ea_u a)) =
      Inr (Use (ea_type a) (wire_value L code (ea_u a)) False)"
    using assms(1-3) by (intro check_attr_ok) (simp_all add: received_attr_def hdr_flags)
  have "received_attr a code len =
      \<lparr>ea_id = EA_CODE EAP_BGP code, ea_flags = ?f, ea_type = ea_type a, ea_u = ea_u a\<rparr>"
    by (simp add: received_attr_def id [symmetric])
  then have add: "decode_add L ?f code (ea_type a) (wire_value L code (ea_u a)) False st =
      Inr \<lparr>ds_eattrs = \<lparr>eal_flags = 0, eal_attrs = [received_attr a code len]\<rparr> # ds_eattrs st,
           ds_seen = insert code (ds_seen st), ds_withdraw = ds_withdraw st\<rparr>"
    by (simp add: decode_add_def decode_value_ok [OF assms(1)])
  have ne: "(encoded_attr L code a @ rest = []) = False" using hlen by (cases "encoded_attr L code a") auto
  have tail: "drop (?h + len) (encoded_attr L code a @ rest) = rest" using hlen by simp
  show ?thesis
    using assms(4)
    by (subst decode_loop.simps)
       (simp only: ne if_False decode_hdr_encoded [OF assms(1), of rest, folded len_def]
         option.case prod.case Let_def z tail chk add rbind_simps checked.case)
qed

text \<open>The list of attributes, each with its code.\<close>

lemma encode_attrs_ok:
  "list_all (\<lambda>(code, a). attr_ok L code a) cas \<Longrightarrow> bp_as4_session p \<Longrightarrow>
   int (length (attr_block L cas)) + int (length cas) \<le> remains \<Longrightarrow>
   bgp_encode_attrs L p (map snd cas) remains =
     Inr (Some (attr_block L cas))"
proof (induction cas arbitrary: remains)
  case (Cons ca cas)
  obtain code a where ca: "ca = (code, a)" by (cases ca)
  have "int (length (wire_value L code (ea_u a))) + 4 \<le> remains"
    using Cons.prems(3) ca
    by (simp add: attr_block_def encoded_attr_def length_hdr split: if_splits)
  then have "encode_attr L p a remains = Inr (Some (encoded_attr L code a))"
    using encode_attr_ok [of code a p remains] Cons.prems ca by (simp add: encoded_attr_def)
  with Cons ca show ?case by (simp add: attr_block_def)
qed (simp add: attr_block_def)

lemma decode_loop_all:
  "list_all (\<lambda>(code, a). attr_ok L code a \<and> attr_accepted q code) cas \<Longrightarrow> bp_as4_session q \<Longrightarrow>
   distinct (map fst cas) \<Longrightarrow> ds_seen st \<inter> set (map fst cas) = {} \<Longrightarrow>
   decode_loop L q (attr_block L cas) st =
     Inr (Inr \<lparr>ds_eattrs = received L cas @ ds_eattrs st,
               ds_seen = set (map fst cas) \<union> ds_seen st, ds_withdraw = ds_withdraw st\<rparr>)"
proof (induction cas arbitrary: st)
  case Nil
  then show ?case by (simp add: decode_loop.simps received_def attr_block_def)
next
  case (Cons ca cas)
  obtain code a where ca: "ca = (code, a)" by (cases ca)
  have "code \<notin> ds_seen st" using Cons.prems ca by auto
  with Cons ca show ?case
    by (simp add: decode_loop_encoded received_def attr_block_def Un_commute Un_left_commute insert_commute
        disjoint_iff)
qed

end

section \<open>Properties\<close>

definition network_lib :: bgp_lib where
  "network_lib = \<lparr>bl_net = network_order, bl_host = network_order, bl_host_addr = (\<lambda>a. a \<noteq> 0)\<rparr>"

interpretation netlib: bgp_lib_ok network_lib
  by unfold_locales
     (simp_all add: network_lib_def net.length_put_u16 net.length_put_u32 net.get_put_u16
       net.get_put_u32 net.put_get_u16 net.put_get_u32)

text \<open>A session and two attributes for the examples below.\<close>

definition sample_cf :: bgp_config where
  "sample_cf = \<lparr>cf_remote_ip = 0x0a000001, cf_next_hop_self = False, cf_next_hop_keep = False,
     cf_compare_path_lengths = True, cf_med_metric = False, cf_igp_metric = True,
     cf_prefer_older = False, cf_deterministic_med = False, cf_default_local_pref = 100,
     cf_default_med = 0, cf_interpret_communities = True, cf_allow_local_as = 0,
     cf_allow_local_pref = False\<rparr>"

definition sample_proto :: bgp_proto where
  "sample_proto = \<lparr>bp_ref = 1, bp_cf = sample_cf, bp_local_as = 65001, bp_remote_as = 65002,
     bp_is_internal = False, bp_as4_session = True, bp_local_id = 1, bp_remote_id = 2,
     bp_rr_cluster_id = 1, bp_rr_client = False, bp_rs_client = False,
     bp_neigh_iface = Some 1, bp_source_addr = 0x0a000002\<rparr>"

definition sample_attrs :: "(u8 \<times> eattr) list" where
  "sample_attrs =
     [(BA_ORIGIN, \<lparr>ea_id = EA_CODE EAP_BGP BA_ORIGIN, ea_flags = BAF_TRANSITIVE,
         ea_type = EAF_TYPE_INT, ea_u = Data 0\<rparr>),
      (BA_AS_PATH, \<lparr>ea_id = EA_CODE EAP_BGP BA_AS_PATH, ea_flags = BAF_TRANSITIVE,
         ea_type = EAF_TYPE_AS_PATH, ea_u = Ptr (path_bytes network_order
           [Seg AS_PATH_SEQUENCE [65002, 200000]])\<rparr>),
      (BA_NEXT_HOP, \<lparr>ea_id = EA_CODE EAP_BGP BA_NEXT_HOP, ea_flags = BAF_TRANSITIVE,
         ea_type = EAF_TYPE_IP_ADDRESS, ea_u = Ptr (put_u32 network_order 0x0a000001)\<rparr>)]"

lemma sample_attrs_ok:
  "list_all (\<lambda>(code, a). attr_ok network_lib code a \<and> attr_accepted sample_proto code) sample_attrs"
proof -
  have "\<exists>segs. path_ok segs \<and> AS_PATH_SEQUENCE # 2 # put_u32 network_order 65002 @
      put_u32 network_order 200000 = path_bytes (bl_net network_lib) segs"
    by (rule exI [of _ "[Seg AS_PATH_SEQUENCE [65002, 200000]]"]) (simp add: network_lib_def)
  then show ?thesis
    by (simp add: sample_attrs_def attr_ok_def data_ok_def block_ok_def attr_accepted_def baf_defs
        ba_neq) (simp add: network_lib_def net.get_put_u32)
qed

text \<open>C30. \<open>bgp_encode_attrs\<close> never writes more than the \<open>remains\<close> bytes that the caller offers.\<close>

theorem bgp_encode_attrs_fit:
  assumes "bgp_lib_ok L" "bgp_encode_attrs L p attrs remains = Inr (Some b)" "0 \<le> remains"
  shows "int (length b) \<le> remains"
  using bgp_lib_ok.encode_attrs_fit [OF assms(1,2,3)] .

theorem bgp_encode_attrs_fit_witness:
  "\<exists>b. bgp_encode_attrs network_lib sample_proto (map snd sample_attrs) 100 = Inr (Some b) \<and>
     int (length b) \<le> 100"
proof -
  have "list_all (\<lambda>(code, a). attr_ok network_lib code a) sample_attrs"
    using sample_attrs_ok by (auto simp: list_all_iff)
  moreover have "length (attr_block network_lib sample_attrs) \<le> 90"
    by (simp add: attr_block_def sample_attrs_def encoded_attr_def netlib.length_hdr
        wire_value_def ba_neq)
  ultimately have *: "bgp_encode_attrs network_lib sample_proto (map snd sample_attrs) 100 =
      Inr (Some (attr_block network_lib sample_attrs))"
    by (intro netlib.encode_attrs_ok) (simp_all add: sample_proto_def sample_attrs_def)
  from bgp_encode_attrs_fit [OF netlib.bgp_lib_ok_axioms *] show ?thesis using * by simp
qed

text \<open>C2. On a session with 4-byte AS numbers, a receiver that accepts the attributes decodes from
  the block of \<open>bgp_encode_attrs\<close> the attributes that were encoded: same IDs, types and
  values, and the flags of the header. The values may be of any kind the table knows, or of
  an unknown optional attribute.\<close>

theorem bgp_attrs_round_trip:
  assumes "bgp_lib_ok L" "bp_as4_session p" "bp_as4_session q"
    and "list_all (\<lambda>(code, a). attr_ok L code a \<and> attr_accepted q code) cas"
    and "distinct (map fst cas)"
    and "int (length (attr_block L cas)) + int (length cas) \<le> remains"
  shows "bgp_encode_attrs L p (map snd cas) remains = Inr (Some (attr_block L cas)) \<and>
    bgp_decode_attrs L q (attr_block L cas) False = Inr (Accepted (received L cas))"
proof
  show "bgp_encode_attrs L p (map snd cas) remains = Inr (Some (attr_block L cas))"
    using assms by (intro bgp_lib_ok.encode_attrs_ok) (auto simp: list_all_iff)
  show "bgp_decode_attrs L q (attr_block L cas) False = Inr (Accepted (received L cas))"
    using bgp_lib_ok.decode_loop_all [OF assms(1), of q cas] assms
    by (simp add: bgp_decode_attrs_def)
qed

theorem bgp_attrs_round_trip_witness:
  "bgp_decode_attrs network_lib sample_proto (attr_block network_lib sample_attrs) False =
     Inr (Accepted (received network_lib sample_attrs)) \<and> length (received network_lib sample_attrs) = 3"
proof
  show "bgp_decode_attrs network_lib sample_proto (attr_block network_lib sample_attrs) False =
      Inr (Accepted (received network_lib sample_attrs))"
    by (rule bgp_attrs_round_trip [THEN conjunct2, OF netlib.bgp_lib_ok_axioms _ _ sample_attrs_ok
          _ order_refl, of sample_proto])
       (simp_all add: sample_proto_def sample_attrs_def ba_neq)
qed (simp add: received_def sample_attrs_def)

end
