(* ===== verification/BgpDecode.thy ===== *)
theory BgpDecode
  imports BgpCodec
begin

text \<open>
  Decoding is safe: whatever bytes a neighbor sends as the attribute block of an UPDATE
  message, \<open>bgp_decode_attrs\<close> reads nothing outside of it and aborts nowhere, and a route that
  it accepts has a valid AS path without a loop.
\<close>

section \<open>What the loop over the attributes keeps\<close>

text \<open>
  The attributes that later code reads hold what it expects of them. \<open>w\<close> says that the
  route will be withdrawn anyway.
\<close>

definition asn_width :: "bgp_proto \<Rightarrow> nat" where
  "asn_width p = (if bp_as4_session p then 4 else 2)"

definition entry_ok :: "bgp_lib \<Rightarrow> bgp_proto \<Rightarrow> bool \<Rightarrow> u8 \<Rightarrow> eavalue \<Rightarrow> bool" where
  "entry_ok L p w code v \<longleftrightarrow>
     (code = BA_AS_PATH \<longrightarrow> (\<exists>segs. path_ok segs \<and> v = Ptr (wire_path (bl_net L) (asn_width p) segs) \<and>
        (\<not> bp_as4_session p \<longrightarrow> (\<forall>a\<in>set (path_asns segs). a \<le> 0xFFFF)))) \<and>
     (code = BA_AGGREGATOR \<longrightarrow> (\<exists>b. v = Ptr b \<and> (w \<or> length b = (if bp_as4_session p then 8 else 6)))) \<and>
     (code \<in> {BA_AS4_PATH, BA_AS4_AGGREGATOR, BA_CLUSTER_LIST} \<longrightarrow> (\<exists>b. v = Ptr b)) \<and>
     (code = BA_ORIGINATOR_ID \<longrightarrow> (\<exists>d. v = Data d)) \<and>
     (code = BA_NEXT_HOP \<longrightarrow> (\<exists>b. v = Ptr b \<and> 4 \<le> length b))"

definition entries_inv :: "bgp_lib \<Rightarrow> bgp_proto \<Rightarrow> bool \<Rightarrow> u8 set \<Rightarrow> ea_seg list \<Rightarrow> bool" where
  "entries_inv L p w seen e \<longleftrightarrow>
     (\<forall>s\<in>set e. \<exists>code a. s = \<lparr>eal_flags = 0, eal_attrs = [a]\<rparr> \<and> ea_id a = EA_CODE EAP_BGP code \<and>
        code \<in> seen \<and> \<not> is_undef a \<and> entry_ok L p w code (ea_u a)) \<and>
     (\<forall>code\<in>seen. \<exists>a. \<lparr>eal_flags = 0, eal_attrs = [a]\<rparr> \<in> set e \<and> ea_id a = EA_CODE EAP_BGP code)"

lemma EA_CODE_inject [simp]: "EA_CODE EAP_BGP c = EA_CODE EAP_BGP d \<longleftrightarrow> c = d"
  by (metis EA_CODE_id)

lemma entry_ok_mono: "entry_ok L p w code v \<Longrightarrow> (w \<Longrightarrow> w') \<Longrightarrow> entry_ok L p w' code v"
  by (auto simp: entry_ok_def)

lemma table_types: "bgp_attr_table code = Some d \<Longrightarrow>
  ad_type d \<in> {EAF_TYPE_INT, EAF_TYPE_OPAQUE, EAF_TYPE_IP_ADDRESS, EAF_TYPE_ROUTER_ID,
     EAF_TYPE_AS_PATH, EAF_TYPE_INT_SET, EAF_TYPE_EC_SET, EAF_TYPE_LC_SET} \<and>
  (ad_type d \<in> {EAF_TYPE_INT, EAF_TYPE_ROUTER_ID} \<longrightarrow> ad_length d \<in> {1, 4}) \<and>
  (ad_type d = EAF_TYPE_IP_ADDRESS \<longrightarrow> ad_length d = 4)"
  by (auto simp: bgp_attr_table_def Let_def type_neq split: if_splits)

lemma types_not_undef:
  "t \<in> {EAF_TYPE_INT, EAF_TYPE_OPAQUE, EAF_TYPE_IP_ADDRESS, EAF_TYPE_ROUTER_ID,
     EAF_TYPE_AS_PATH, EAF_TYPE_INT_SET, EAF_TYPE_EC_SET, EAF_TYPE_LC_SET} \<Longrightarrow>
   t AND EAF_TYPE_MASK \<noteq> EAF_TYPE_UNDEF"
  by (auto simp: eaf_type_defs EAF_TYPE_UNDEF_def EAF_TYPE_MASK_def)

context bgp_lib_ok begin

text \<open>The checks of one attribute return, and what they pass on can be stored.\<close>

lemma attr_validate_total:
  assumes "ad_length d < 0 \<or> ad_length d = int (length z)" "bgp_attr_table code = Some d"
  shows "\<exists>e. attr_validate (ad_check d) L p z = Inr e"
proof -
  have "ad_check d = Check_origin \<Longrightarrow> ad_length d = 1"
      "ad_check d = Check_next_hop \<Longrightarrow> ad_length d = 4"
    using assms(2) by (auto simp: bgp_attr_table_def Let_def split: if_splits)
  with assms(1) show ?thesis
    by (cases "ad_check d"; cases z)
       (auto simp: bgp_check_origin_def bgp_check_next_hop_def bgp_check_aggregator_def
         bgp_check_community_def bgp_check_cluster_list_def bgp_check_reach_nlri_def
         bgp_check_unreach_nlri_def bgp_check_ext_community_def bgp_check_large_community_def)
qed

lemma validate_as_path_cases:
  "validate_as_path (bl_net L) p z = Inr None \<or>
   (\<exists>n segs. validate_as_path (bl_net L) p z =
      Inr (Some (n, wire_path (bl_net L) (asn_width p) segs)) \<and> path_ok segs \<and>
      (\<not> bp_as4_session p \<longrightarrow> (\<forall>a\<in>set (path_asns segs). a \<le> 0xFFFF)))"
proof -
  have bs: "asn_width p = 2 \<or> asn_width p = 4" by (simp add: asn_width_def)
  have v: "validate_as_path (bl_net L) p z = validate_path (bl_net L) p True (asn_width p) z"
    by (simp add: validate_as_path_def asn_width_def)
  from unaligned_access.validate_path_cases [OF net bs, of p True z]
  consider "validate_path (bl_net L) p True (asn_width p) z = Inr None"
    | raw where "list_all (\<lambda>s. length (seg_asns s) < 256) raw"
      "asn_width p = 2 \<longrightarrow> (\<forall>a\<in>set (path_asns raw). a \<le> 0xFFFF)"
      "validate_path (bl_net L) p True (asn_width p) z = Inr (Some (segs_len (filter seg_kept raw),
         wire_path (bl_net L) (asn_width p) (filter seg_kept raw)))" by blast
  then show ?thesis
  proof cases
    case (2 raw)
    then have "path_ok (filter seg_kept raw)"
      by (auto simp: path_ok_def list_all_iff seg_kept_def seg_ok_def)
    moreover have "\<forall>a\<in>set (path_asns (filter seg_kept raw)). a \<le> 0xFFFF" if "\<not> bp_as4_session p"
      using 2(2) that by (auto simp: asn_width_def path_asns_def)
    ultimately show ?thesis using 2(3) by (auto simp: v)
  qed (simp add: v)
qed

lemma decode_value_total:
  assumes "t \<in> {EAF_TYPE_INT, EAF_TYPE_OPAQUE, EAF_TYPE_IP_ADDRESS, EAF_TYPE_ROUTER_ID,
     EAF_TYPE_AS_PATH, EAF_TYPE_INT_SET, EAF_TYPE_EC_SET, EAF_TYPE_LC_SET}"
    and "t \<in> {EAF_TYPE_INT, EAF_TYPE_ROUTER_ID} \<Longrightarrow> length z \<in> {1, 4}"
    and "t = EAF_TYPE_IP_ADDRESS \<Longrightarrow> length z = 4"
  shows "\<exists>v. decode_value L t z = Inr v \<and>
    (t \<in> {EAF_TYPE_INT, EAF_TYPE_ROUTER_ID} \<longrightarrow> (\<exists>d. v = Data d)) \<and>
    (t \<notin> {EAF_TYPE_INT, EAF_TYPE_ROUTER_ID} \<longrightarrow> (\<exists>b. v = Ptr b)) \<and>
    (t \<in> {EAF_TYPE_OPAQUE, EAF_TYPE_AS_PATH} \<longrightarrow> v = Ptr z) \<and>
    (t = EAF_TYPE_IP_ADDRESS \<longrightarrow> (\<exists>b. v = Ptr b \<and> 4 \<le> length b))"
  using assms unaligned_access.length_put_u32 [OF host] by (auto simp: decode_value_def type_neq rd_u32_def)

lemma table_codes:
  assumes "bgp_attr_table code = Some d"
  shows "code = BA_AS_PATH \<Longrightarrow> ad_type d = EAF_TYPE_AS_PATH \<and> ad_check d = No_check"
    "code = BA_AGGREGATOR \<Longrightarrow> ad_type d = EAF_TYPE_OPAQUE \<and> ad_check d = Check_aggregator"
    "code = BA_ORIGINATOR_ID \<Longrightarrow> ad_type d = EAF_TYPE_ROUTER_ID"
    "code \<in> {BA_AS4_PATH, BA_AS4_AGGREGATOR, BA_CLUSTER_LIST} \<Longrightarrow>
       ad_type d \<notin> {EAF_TYPE_INT, EAF_TYPE_ROUTER_ID}"
    "ad_type d = EAF_TYPE_AS_PATH \<Longrightarrow> code = BA_AS_PATH"
    "code = BA_NEXT_HOP \<Longrightarrow> ad_type d = EAF_TYPE_IP_ADDRESS"
  using assms by (auto simp: bgp_attr_table_def Let_def type_neq ba_defs split: if_splits)

lemma table_special:
  "bgp_attr_table code = None \<Longrightarrow>
   code \<notin> {BA_AS_PATH, BA_AGGREGATOR, BA_AS4_PATH, BA_AS4_AGGREGATOR, BA_CLUSTER_LIST, BA_ORIGINATOR_ID, BA_NEXT_HOP}"
  by (auto simp: bgp_attr_table_def Let_def split: if_splits)

definition storable :: "bgp_proto \<Rightarrow> u8 \<Rightarrow> u8 \<Rightarrow> u8 list \<Rightarrow> bool \<Rightarrow> bool" where
  "storable p code t z w \<longleftrightarrow>
     (\<exists>v. decode_value L t z = Inr v \<and> t AND EAF_TYPE_MASK \<noteq> EAF_TYPE_UNDEF \<and> entry_ok L p w code v)"

lemma check_known_storable:
  assumes d: "bgp_attr_table code = Some d"
  shows "\<exists>c. check_known L p d fl code z = Inr c \<and>
    (\<forall>t z' w. c = Use t z' w \<longrightarrow> storable p code t z' w)"
proof (cases "ad_length d \<ge> 0 \<and> ad_length d \<noteq> int (length z)")
  case True
  then show ?thesis by (simp add: check_known_def)
next
  case len: False
  then have "ad_length d < 0 \<or> ad_length d = int (length z)" by linarith
  from attr_validate_total [OF this d, of p]
  obtain e where e: "attr_validate (ad_check d) L p z = Inr e" by blast
  note tt = table_types [OF d] and tc = table_codes [OF d]
  have store: "storable p code (ad_type d) z w"
    if "code \<noteq> BA_AS_PATH" and agg: "code = BA_AGGREGATOR \<Longrightarrow> w \<or> length z = (if bp_as4_session p then 8 else 6)"
    for w
  proof -
    have "ad_type d \<in> {EAF_TYPE_INT, EAF_TYPE_ROUTER_ID} \<Longrightarrow> length z \<in> {1, 4}"
      using tt len by auto
    moreover have "ad_type d = EAF_TYPE_IP_ADDRESS \<Longrightarrow> length z = 4" using tt len by auto
    ultimately obtain v where v: "decode_value L (ad_type d) z = Inr v"
        "ad_type d \<in> {EAF_TYPE_INT, EAF_TYPE_ROUTER_ID} \<longrightarrow> (\<exists>d. v = Data d)"
        "ad_type d \<notin> {EAF_TYPE_INT, EAF_TYPE_ROUTER_ID} \<longrightarrow> (\<exists>b. v = Ptr b)"
        "ad_type d \<in> {EAF_TYPE_OPAQUE, EAF_TYPE_AS_PATH} \<longrightarrow> v = Ptr z"
        "ad_type d = EAF_TYPE_IP_ADDRESS \<longrightarrow> (\<exists>b. v = Ptr b \<and> 4 \<le> length b)"
      using decode_value_total [of "ad_type d" z] tt by blast
    moreover have "entry_ok L p w code v"
      unfolding entry_ok_def
    proof (intro conjI impI)
      assume "code = BA_AGGREGATOR"
      with tc(2) agg v(4) show "\<exists>b. v = Ptr b \<and> (w \<or> length b = (if bp_as4_session p then 8 else 6))"
        by blast
    next
      assume "code \<in> {BA_AS4_PATH, BA_AS4_AGGREGATOR, BA_CLUSTER_LIST}"
      with tc(4) v(3) show "\<exists>b. v = Ptr b" by blast
    next
      assume "code = BA_ORIGINATOR_ID"
      with tc(3) v(2) show "\<exists>d. v = Data d" by blast
    next
      assume "code = BA_NEXT_HOP"
      with tc(6) v(5) show "\<exists>b. v = Ptr b \<and> 4 \<le> length b" by blast
    qed (use that(1) in blast)
    ultimately show ?thesis using types_not_undef tt by (auto simp: storable_def)
  qed
  have path: "storable p code (ad_type d) (wire_path (bl_net L) (asn_width p) segs) False"
    if "code = BA_AS_PATH" "path_ok segs"
      "\<not> bp_as4_session p \<longrightarrow> (\<forall>a\<in>set (path_asns segs). a \<le> 0xFFFF)" for segs
  proof -
    have t: "ad_type d = EAF_TYPE_AS_PATH" using tc(1) that(1) by blast
    then have "decode_value L (ad_type d) z' = Inr (Ptr z')" for z'
      by (simp add: decode_value_def type_neq)
    with that t show ?thesis using types_not_undef [of "ad_type d"]
      by (auto simp: storable_def entry_ok_def ba_defs)
  qed
  show ?thesis
  proof (cases "code = BA_AS_PATH")
    case True
    then have "ad_check d = No_check" using tc(1) by blast
    then have chk: "check_known L p d fl code z = Inr Skip \<or> (\<exists>n. check_known L p d fl code z = Inr (Fail n))
        \<or> check_known L p d fl code z =
          rmap (\<lambda>v. case v of None \<Rightarrow> Fail 11 | Some (_, z') \<Rightarrow> Use (ad_type d) z' False)
            (validate_as_path (bl_net L) p z)"
      using True by (simp add: check_known_def)
    from validate_as_path_cases [of p z] show ?thesis
    proof
      assume "validate_as_path (bl_net L) p z = Inr None"
      with chk show ?thesis by auto
    next
      assume "\<exists>n segs. validate_as_path (bl_net L) p z =
          Inr (Some (n, wire_path (bl_net L) (asn_width p) segs)) \<and> path_ok segs \<and>
          (\<not> bp_as4_session p \<longrightarrow> (\<forall>a\<in>set (path_asns segs). a \<le> 0xFFFF))"
      then obtain n segs where "validate_as_path (bl_net L) p z =
          Inr (Some (n, wire_path (bl_net L) (asn_width p) segs))"
          "storable p code (ad_type d) (wire_path (bl_net L) (asn_width p) segs) False"
        using path [OF True] by blast
      with chk show ?thesis by auto
    qed
  next
    case False
    have "code = BA_AGGREGATOR \<Longrightarrow> length z = (if bp_as4_session p then 8 else 6) \<or> e = WITHDRAW"
      using e tc(2) by (auto simp: bgp_check_aggregator_def split: if_splits)
    moreover have "code = BA_AGGREGATOR \<Longrightarrow> ad_check d \<noteq> No_check" using tc(2) by simp
    ultimately show ?thesis using False len e store
      by (auto simp: check_known_def)
  qed
qed

lemma check_attr_storable:
  "\<exists>c. check_attr L p fl code z = Inr c \<and> (\<forall>t z' w. c = Use t z' w \<longrightarrow> storable p code t z' w)"
proof (cases "bgp_attr_table code")
  case None
  have "storable p code EAF_TYPE_OPAQUE z False"
    using table_special [OF None] types_not_undef [of EAF_TYPE_OPAQUE]
    by (auto simp: storable_def decode_value_def type_neq entry_ok_def)
  with None show ?thesis by (simp add: check_attr_def)
next
  case (Some d)
  with check_known_storable [OF Some, of p fl z] show ?thesis by (simp add: check_attr_def)
qed

text \<open>The loop returns, and keeps the invariant.\<close>

definition loop_result :: "bgp_proto \<Rightarrow> decoded + decode_state \<Rightarrow> bool" where
  "loop_result p r \<longleftrightarrow>
     (case r of Inl d \<Rightarrow> (\<exists>n b. d = Error n b)
      | Inr st \<Rightarrow> entries_inv L p (ds_withdraw st) (ds_seen st) (ds_eattrs st))"

lemma loop_result_simps [simp]:
  "loop_result p (Inl d) \<longleftrightarrow> (\<exists>n b. d = Error n b)"
  "loop_result p (Inr st) \<longleftrightarrow> entries_inv L p (ds_withdraw st) (ds_seen st) (ds_eattrs st)"
  by (simp_all add: loop_result_def)

lemma decode_loop_inv:
  "entries_inv L p (ds_withdraw st) (ds_seen st) (ds_eattrs st) \<Longrightarrow>
   \<exists>r. decode_loop L p attr st = Inr r \<and> loop_result p r"
proof (induction "length attr" arbitrary: attr st rule: less_induct)
  case less
  show ?case
  proof (cases "attr = []")
    case True
    with less.prems show ?thesis by (simp add: decode_loop.simps)
  next
    case ne: False
    show ?thesis
    proof (cases "decode_hdr (bl_net L) attr")
      case None
      with ne show ?thesis by (simp add: decode_loop.simps)
    next
      case (Some h)
      obtain flags code l hlen where h: "h = (flags, code, l, hlen)" by (rule prod_cases4)
      let ?z = "take l (drop hlen attr)" and ?rest = "drop (hlen + l) attr"
      have shorter: "length ?rest < length attr"
        using decode_hdr_bounds [of "bl_net L" attr flags code l hlen] Some h by auto
      obtain c where c: "check_attr L p flags code ?z = Inr c"
          "\<forall>t z' w. c = Use t z' w \<longrightarrow> storable p code t z' w"
        using check_attr_storable by blast
      show ?thesis
      proof (cases "code \<in> ds_seen st")
        case True
        with ne Some h show ?thesis by (subst decode_loop.simps) simp
      next
        case new: False
        have step: "decode_loop L p attr st = (case c of
            Skip \<Rightarrow> decode_loop L p ?rest st
          | Fail errcode \<Rightarrow> Inr (Inl (Error errcode (take (hlen + l) attr)))
          | Use type z' w \<Rightarrow>
              rbind (decode_add L flags code type z' w st) (decode_loop L p ?rest))"
          using ne Some h new c(1) by (subst decode_loop.simps) (simp add: Let_def)
        show ?thesis
        proof (cases c)
          case Skip
          with step less.hyps [OF shorter less.prems] show ?thesis by simp
        next
          case (Fail e)
          with step show ?thesis by simp
        next
          case (Use t z' w)
          then obtain v where v: "decode_value L t z' = Inr v"
              "t AND EAF_TYPE_MASK \<noteq> EAF_TYPE_UNDEF" "entry_ok L p w code v"
            using c(2) by (auto simp: storable_def)
          let ?a = "\<lparr>ea_id = EA_CODE EAP_BGP code, ea_flags = flags, ea_type = t, ea_u = v\<rparr>"
          let ?st = "\<lparr>ds_eattrs = \<lparr>eal_flags = 0, eal_attrs = [?a]\<rparr> # ds_eattrs st,
                     ds_seen = insert code (ds_seen st), ds_withdraw = ds_withdraw st \<or> w\<rparr>"
          have "decode_add L flags code t z' w st = Inr ?st"
            using v(1) by (simp add: decode_add_def)
          moreover have "entries_inv L p (ds_withdraw ?st) (ds_seen ?st) (ds_eattrs ?st)"
            using less.prems v entry_ok_mono
            unfolding entries_inv_def by (fastforce simp: is_undef_def)
          from less.hyps [OF shorter this] have "\<exists>r. decode_loop L p ?rest ?st = Inr r \<and> loop_result p r" .
          ultimately show ?thesis using step Use by simp
        qed
      qed
    qed
  qed
qed

end

section \<open>What follows the loop\<close>

lemma entries_wf: "entries_inv L p w seen e \<Longrightarrow> list_all seg_wf e"
  by (force simp: entries_inv_def list_all_iff seg_wf_def bisect_def)

lemma ucast_EA_CODE:
  "ucast ((ucast (EA_CODE EAP_BGP code) :: u32) AND EA_CODE_MASK) = EA_CODE EAP_BGP code"
  "(ucast (EA_CODE EAP_BGP code) :: u32) AND EA_ALLOW_UNDEF = 0"
proof -
  have "(x :: u32) AND 0xffff = take_bit 16 x" for x by (simp add: take_bit_eq_mask mask_eq_exp_minus_1)
  then show "ucast ((ucast (EA_CODE EAP_BGP code) :: u32) AND EA_CODE_MASK) = EA_CODE EAP_BGP code"
    unfolding EA_CODE_MASK_def by (intro bit_word_eqI) (auto simp: bit_simps)
  have "(x :: u32) AND 2 ^ 16 = 0 \<longleftrightarrow> \<not> bit x 16" for x
    by (rule and_exp_eq_0_iff_not_bit)
  moreover have "\<not> bit (ucast (EA_CODE EAP_BGP code) :: u32) 16"
    by (simp add: bit_simps) (use bit_imp_le_length [of "EA_CODE EAP_BGP code" 16] in auto)
  ultimately show "(ucast (EA_CODE EAP_BGP code) :: u32) AND EA_ALLOW_UNDEF = 0"
    by (simp add: EA_ALLOW_UNDEF_def)
qed

text \<open>A lookup finds an attribute of the code, if it was seen.\<close>

lemma find_entry:
  assumes "entries_inv L p w seen e"
  shows "code \<in> seen \<Longrightarrow> \<exists>a. ea_find_bgp e code = Some a \<and> entry_ok L p w code (ea_u a)"
    and "code \<notin> seen \<Longrightarrow> ea_find_bgp e code = None"
proof -
  have attrs: "\<exists>c. ea_id a = EA_CODE EAP_BGP c \<and> c \<in> seen \<and> \<not> is_undef a \<and> entry_ok L p w c (ea_u a)"
    if "a \<in> set (chain_attrs e)" for a
    using that assms by (fastforce simp: entries_inv_def chain_attrs_def)
  have find: "ea_find_bgp e code = (case ea_linear (chain_attrs e) (EA_CODE EAP_BGP code) of
      None \<Rightarrow> None | Some a \<Rightarrow> if is_undef a then None else Some a)"
    by (cases "ea_linear (chain_attrs e) (EA_CODE EAP_BGP code)")
       (simp_all add: ea_find_bgp_def ea_find_def ucast_EA_CODE
         ea__find_linear [OF entries_wf [OF assms]])
  show "\<exists>a. ea_find_bgp e code = Some a \<and> entry_ok L p w code (ea_u a)" if seen: "code \<in> seen"
  proof -
    from assms seen obtain b where
      b: "\<lparr>eal_flags = 0, eal_attrs = [b]\<rparr> \<in> set e" "ea_id b = EA_CODE EAP_BGP code"
      unfolding entries_inv_def by blast
    then have "b \<in> set (chain_attrs e)" by (force simp: chain_attrs_def)
    with b(2) obtain a where a: "ea_linear (chain_attrs e) (EA_CODE EAP_BGP code) = Some a"
      using ea_linear_None_iff [of "chain_attrs e"] by (metis image_eqI not_None_eq)
    with ea_linear_SomeD [OF a] attrs [of a] show ?thesis by (auto simp: find)
  qed
  show "ea_find_bgp e code = None" if "code \<notin> seen"
  proof -
    have "EA_CODE EAP_BGP code \<notin> ea_id ` set (chain_attrs e)" using attrs that by (metis EA_CODE_inject imageE)
    then have "ea_linear (chain_attrs e) (EA_CODE EAP_BGP code) = None"
      using ea_linear_None_iff by blast
    then show ?thesis by (simp add: find)
  qed
qed

lemma find_ptr_cases:
  assumes "entries_inv L p w seen e" "code \<in> {BA_AGGREGATOR, BA_AS4_PATH, BA_AS4_AGGREGATOR, BA_CLUSTER_LIST}"
  shows "find_ptr e code = Inr None \<or> (\<exists>b. find_ptr e code = Inr (Some b) \<and> entry_ok L p w code (Ptr b))"
proof (cases "code \<in> seen")
  case True
  then obtain a where a: "ea_find_bgp e code = Some a" "entry_ok L p w code (ea_u a)"
    using find_entry(1) [OF assms(1)] by blast
  with assms(2) obtain b where "ea_u a = Ptr b" unfolding entry_ok_def by blast
  with a show ?thesis by (simp add: find_ptr_def u_ptr_def)
next
  case False
  with find_entry(2) [OF assms(1)] show ?thesis by (simp add: find_ptr_def)
qed

context bgp_lib_ok begin

lemma path_ok_map_take: "path_ok segs \<Longrightarrow> path_ok (segs_map f (segs_take k segs))"
proof (induction k segs rule: segs_take.induct)
  case (2 k t as segs)
  then show ?case by (auto simp: segs_map_def as_path_consts)
qed (simp add: segs_map_def)

lemma path_ok_append: "path_ok (xs @ ys) \<longleftrightarrow> path_ok xs \<and> path_ok ys"
  by (auto simp: path_ok_def)

lemma path_bytes_append: "path_bytes U xs @ path_bytes U ys = path_bytes U (xs @ ys)"
  by (simp add: path_bytes_def)

text \<open>Reconstruction returns a valid path of 4-byte AS numbers.\<close>

lemma merge_as_paths_ok:
  assumes "path_ok segs"
  shows "bgp_merge_as_paths (bl_net L) (old_path_bytes (bl_net L) segs) None k =
      Inr (path_bytes (bl_net L) (segs_map through_old (segs_take k segs)))"
    and "bgp_merge_as_paths (bl_net L) (old_path_bytes (bl_net L) segs)
        (Some (path_bytes (bl_net L) segs4)) k =
      Inr (path_bytes (bl_net L) (segs_map through_old (segs_take k segs) @ segs4))"
  using unaligned_access.convert_to_new_bytes [OF net, of segs k] assms
  by (simp_all add: bgp_merge_as_paths_def path_ok_def path_bytes_append)

lemma reconstruct_path_total:
  assumes "path_ok segs"
  shows "\<exists>segs'. path_ok segs' \<and>
    reconstruct_path (bl_net L) p (old_path_bytes (bl_net L) segs) p4 = Inr (path_bytes (bl_net L) segs')"
proof -
  have len: "as_path_getlen_int (old_path_bytes (bl_net L) segs) 2 = Inr (segs_len segs)"
    using unaligned_access.getlen_wire_path [OF net, of 2 segs] assms
    by (simp add: wire_path_def path_ok_def)
  have v4: "validate_as4_path (bl_net L) p d = Inr None \<or>
      (\<exists>n s4. path_ok s4 \<and> validate_as4_path (bl_net L) p d = Inr (Some (n, path_bytes (bl_net L) s4)))" for d
  proof -
    from unaligned_access.validate_path_cases [OF net, of 4 p False d]
    consider "validate_path (bl_net L) p False 4 d = Inr None"
      | raw where "list_all (\<lambda>s. length (seg_asns s) < 256) raw"
        "validate_path (bl_net L) p False 4 d = Inr (Some (segs_len (filter seg_kept raw),
           path_bytes (bl_net L) (filter seg_kept raw)))" by (auto simp: wire_path_def)
    then show ?thesis
    proof cases
      case (2 raw)
      then have "path_ok (filter seg_kept raw)"
        by (auto simp: path_ok_def list_all_iff seg_kept_def seg_ok_def)
      with 2(2) show ?thesis by (auto simp: validate_as4_path_def)
    qed (simp add: validate_as4_path_def)
  qed
  consider "p4 = None" | d where "p4 = Some d" "validate_as4_path (bl_net L) p d = Inr None"
    | d n s4 where "p4 = Some d" "path_ok s4"
        "validate_as4_path (bl_net L) p d = Inr (Some (n, path_bytes (bl_net L) s4))"
    using v4 by (cases p4) (simp, metis)
  then show ?thesis
  proof cases
    case 3
    let ?old = "segs_map through_old (segs_take (int (segs_len segs) - int n) segs)"
    have "path_ok (?old @ s4)" using assms 3 by (simp add: path_ok_append path_ok_map_take)
    then show ?thesis
      using 3(1,3) len path_ok_map_take [OF assms, of through_old "int AS_PATH_MAXLEN"]
        merge_as_paths_ok [OF assms]
      by (cases "n = 0 \<or> segs_len segs < n") (auto simp: reconstruct_path_def)
  qed (use len assms path_ok_map_take [OF assms, of through_old "int AS_PATH_MAXLEN"] in
      \<open>auto simp: reconstruct_path_def merge_as_paths_ok\<close>)
qed

lemma reconstruct_4b_total:
  assumes "path_ok segs" "\<And>d. a2 = Some d \<Longrightarrow> length d = 6"
  shows "\<exists>segs' na. path_ok segs' \<and>
    reconstruct_4b (bl_net L) p (old_path_bytes (bl_net L) segs) p4 a2 a4 =
      Inr (path_bytes (bl_net L) segs', na)"
proof -
  obtain segs' where s: "path_ok segs'" "reconstruct_path (bl_net L) p
      (old_path_bytes (bl_net L) segs) p4 = Inr (path_bytes (bl_net L) segs')"
    using reconstruct_path_total [OF assms(1)] by blast
  have m: "path_ok (segs_map through_old (segs_take (int AS_PATH_MAXLEN) segs))"
    using assms(1) by (rule path_ok_map_take)
  have agg: "\<exists>na. bgp_aggregator_convert_to_new (bl_net L) d = Inr na" if "a2 = Some d" for d
    using assms(2) [OF that]
    by (simp add: bgp_aggregator_convert_to_new_def aggregator_convert_to_new_def rd_u16_def)
  show ?thesis
  proof (cases a2)
    case None
    with s show ?thesis by (auto simp: reconstruct_4b_def Let_def)
  next
    case (Some d)
    then have "rd_u16 (bl_net L) d = Inr (get_u16 (bl_net L) (take 2 d))"
      using assms(2) by (simp add: rd_u16_def)
    with Some s m agg [OF Some] merge_as_paths_ok(1) [OF assms(1), of "int AS_PATH_MAXLEN"] show ?thesis
      by (auto simp: reconstruct_4b_def Let_def split: option.splits if_splits)
  qed
qed

end

text \<open>Chains of segments with one attribute each, as the decoder builds them.\<close>

definition single_attrs :: "ea_seg list \<Rightarrow> bool" where
  "single_attrs e \<longleftrightarrow>
     (\<forall>s\<in>set e. \<exists>a. eal_attrs s = [a] \<and> \<not> bisect s \<and> \<not> is_undef a)"

lemma single_attrs_find:
  assumes "single_attrs e"
  shows "ea_find_bgp e code = ea_linear (chain_attrs e) (EA_CODE EAP_BGP code)"
proof -
  have "list_all seg_wf e" using assms by (auto simp: single_attrs_def list_all_iff seg_wf_def)
  moreover have "\<not> is_undef a" if "ea_linear (chain_attrs e) i = Some a" for a i
    using ea_linear_SomeD [OF that] assms by (fastforce simp: single_attrs_def chain_attrs_def)
  ultimately show ?thesis
    by (cases "ea_linear (chain_attrs e) (EA_CODE EAP_BGP code)")
       (simp_all add: ea_find_bgp_def ea_find_def ucast_EA_CODE ea__find_linear)
qed

lemma entries_single: "entries_inv L p w seen e \<Longrightarrow> single_attrs e"
  by (force simp: entries_inv_def single_attrs_def bisect_def)

lemma is_undef_set_u [simp]: "is_undef (a\<lparr>ea_u := u\<rparr>) = is_undef a"
  by (simp add: is_undef_def)

lemma single_set_ptr: "single_attrs e \<Longrightarrow> single_attrs (chain_set_ptr e i d)"
proof (induction e i d rule: chain_set_ptr.induct)
  case (2 s chain i d)
  obtain a where "eal_attrs s = [a]" using 2(2) by (auto simp: single_attrs_def)
  with 2 show ?case by (auto simp: single_attrs_def bisect_def)
qed simp

lemma attrs_set_ptr_append:
  "attrs_set_ptr (xs @ ys) i d =
     (if i \<in> ea_id ` set xs then attrs_set_ptr xs i d @ ys else xs @ attrs_set_ptr ys i d)"
  by (induction xs) auto

lemma chain_set_ptr_attrs: "chain_attrs (chain_set_ptr e i d) = attrs_set_ptr (chain_attrs e) i d"
  by (induction e i d rule: chain_set_ptr.induct) (auto simp: attrs_set_ptr_append)

lemma linear_set_ptr:
  "ea_linear (attrs_set_ptr l i d) j =
     (if i = j then map_option (\<lambda>a. a\<lparr>ea_u := Ptr d\<rparr>) (ea_linear l i) else ea_linear l j)"
  by (induction l) auto

lemma find_set_ptr:
  "single_attrs e \<Longrightarrow> ea_find_bgp (chain_set_ptr e (EA_CODE EAP_BGP c) d) code =
     (if c = code then map_option (\<lambda>a. a\<lparr>ea_u := Ptr d\<rparr>) (ea_find_bgp e c) else ea_find_bgp e code)"
  by (simp add: single_attrs_find single_set_ptr chain_set_ptr_attrs linear_set_ptr)

lemma remove_as4:
  assumes "single_attrs e"
  shows "\<exists>e'. bgp_remove_as4_attrs e = Inr e' \<and> single_attrs e' \<and>
    (\<forall>code. code \<noteq> BA_AS4_PATH \<longrightarrow> code \<noteq> BA_AS4_AGGREGATOR \<longrightarrow>
       ea_find_bgp e' code = ea_find_bgp e code)"
proof -
  have "\<exists>e'. bgp_remove_as4_attrs e = Inr e' \<and> single_attrs e' \<and>
    (\<forall>code. code \<noteq> BA_AS4_PATH \<longrightarrow> code \<noteq> BA_AS4_AGGREGATOR \<longrightarrow>
       ea_linear (chain_attrs e') (EA_CODE EAP_BGP code) =
       ea_linear (chain_attrs e) (EA_CODE EAP_BGP code))"
    using assms
  proof (induction e)
    case (Cons s e)
    from Cons.prems obtain a where a: "eal_attrs s = [a]" "\<not> bisect s" "\<not> is_undef a"
      by (auto simp: single_attrs_def)
    have e: "single_attrs e" using Cons.prems by (simp add: single_attrs_def)
    from Cons.IH [OF e] obtain e' where e': "bgp_remove_as4_attrs e = Inr e'" "single_attrs e'"
        "\<forall>code. code \<noteq> BA_AS4_PATH \<longrightarrow> code \<noteq> BA_AS4_AGGREGATOR \<longrightarrow>
           ea_linear (chain_attrs e') (EA_CODE EAP_BGP code) =
           ea_linear (chain_attrs e) (EA_CODE EAP_BGP code)" by blast
    show ?case
    proof (cases "ea_id a = EA_CODE EAP_BGP BA_AS4_PATH \<or> ea_id a = EA_CODE EAP_BGP BA_AS4_AGGREGATOR")
      case True
      with a e' show ?thesis by auto
    next
      case False
      have "single_attrs (s # e')" using e'(2) a by (auto simp: single_attrs_def)
      with False a e' show ?thesis by auto
    qed
  qed simp
  then show ?thesis using assms by (auto simp: single_attrs_find)
qed

section \<open>The decoder\<close>

context bgp_lib_ok begin

text \<open>The next hop is there, with all bytes of an address.\<close>

definition has_next_hop :: "ea_seg list \<Rightarrow> bool" where
  "has_next_hop e \<longleftrightarrow> (\<exists>a b. ea_find_bgp e BA_NEXT_HOP = Some a \<and> ea_u a = Ptr b \<and> 4 \<le> length b)"

text \<open>The attributes after reconstruction: a valid path of 4-byte AS numbers.\<close>

definition rebuilt :: "bgp_proto \<Rightarrow> u8 set \<Rightarrow> ea_seg list \<Rightarrow> bool" where
  "rebuilt p seen e \<longleftrightarrow> single_attrs e \<and>
     (\<exists>a segs. ea_find_bgp e BA_AS_PATH = Some a \<and> path_ok segs \<and>
        ea_u a = Ptr (path_bytes (bl_net L) segs)) \<and>
     (\<forall>code\<in>{BA_ORIGINATOR_ID, BA_CLUSTER_LIST}. \<forall>a. ea_find_bgp e code = Some a \<longrightarrow>
        entry_ok L p False code (ea_u a)) \<and>
     (BA_NEXT_HOP \<in> seen \<longrightarrow> has_next_hop e)"

lemma reconstruct_total:
  assumes "entries_inv L p False seen e" "BA_AS_PATH \<in> seen"
  shows "\<exists>e'. (if bp_as4_session p then Inr e else bgp_reconstruct_4b_atts (bl_net L) p e) = Inr e' \<and>
    rebuilt p seen e'"
proof -
  obtain a segs where a: "ea_find_bgp e BA_AS_PATH = Some a" "path_ok segs"
      "ea_u a = Ptr (wire_path (bl_net L) (asn_width p) segs)"
    using find_entry(1) [OF assms] by (auto simp: entry_ok_def)
  have ids: "entry_ok L p False code (ea_u b)"
    if "ea_find_bgp e code = Some b" for code b
    using find_entry [OF assms(1), of code] that by (cases "code \<in> seen") auto
  have single: "single_attrs e" using assms(1) by (rule entries_single)
  have hop: "has_next_hop e" if "BA_NEXT_HOP \<in> seen"
    using find_entry(1) [OF assms(1) that] by (auto simp: entry_ok_def has_next_hop_def ba_defs)
  show ?thesis
  proof (cases "bp_as4_session p")
    case True
    then have "ea_u a = Ptr (path_bytes (bl_net L) segs)"
      using a(3) by (simp add: asn_width_def wire_path_def)
    with True a ids single hop show ?thesis unfolding rebuilt_def by auto
  next
    case False
    then have p2: "find_ptr e BA_AS_PATH = Inr (Some (old_path_bytes (bl_net L) segs))"
      using a by (simp add: find_ptr_def u_ptr_def asn_width_def wire_path_def)
    obtain p4 where p4: "find_ptr e BA_AS4_PATH = Inr p4"
      using find_ptr_cases [OF assms(1), of BA_AS4_PATH] by auto
    obtain a4 where a4: "find_ptr e BA_AS4_AGGREGATOR = Inr a4"
      using find_ptr_cases [OF assms(1), of BA_AS4_AGGREGATOR] by auto
    obtain a2 where a2: "find_ptr e BA_AGGREGATOR = Inr a2" "\<And>d. a2 = Some d \<Longrightarrow> length d = 6"
      using find_ptr_cases [OF assms(1), of BA_AGGREGATOR] False by (auto simp: entry_ok_def)
    obtain segs' na where r: "path_ok segs'" "reconstruct_4b (bl_net L) p
        (old_path_bytes (bl_net L) segs) p4 a2 a4 = Inr (path_bytes (bl_net L) segs', na)"
      using reconstruct_4b_total [OF a(2) a2(2)] by blast
    let ?e1 = "chain_set_ptr e (EA_CODE EAP_BGP BA_AS_PATH) (path_bytes (bl_net L) segs')"
    let ?e2 = "case na of None \<Rightarrow> ?e1 | Some d \<Rightarrow> chain_set_ptr ?e1 (EA_CODE EAP_BGP BA_AGGREGATOR) d"
    have "bgp_reconstruct_4b_atts (bl_net L) p e = Inr ?e2"
      by (simp add: bgp_reconstruct_4b_atts_def p2 p4 a4 a2(1) r(2) Let_def)
    moreover have "ea_find_bgp ?e2 BA_AS_PATH = Some (a\<lparr>ea_u := Ptr (path_bytes (bl_net L) segs')\<rparr>)"
      using single a(1) by (simp add: find_set_ptr single_set_ptr ba_neq split: option.split)
    moreover have "ea_find_bgp ?e2 code = ea_find_bgp e code"
      if "code \<in> {BA_ORIGINATOR_ID, BA_CLUSTER_LIST, BA_NEXT_HOP}" for code
      using single that by (auto simp: find_set_ptr single_set_ptr ba_neq split: option.split)
    moreover have "single_attrs ?e2" using single by (simp add: single_set_ptr split: option.split)
    ultimately show ?thesis using False r(1) ids hop unfolding rebuilt_def has_next_hop_def by auto
  qed
qed

lemma remove_rebuilt:
  assumes "rebuilt p seen e"
  shows "\<exists>e'. bgp_remove_as4_attrs e = Inr e' \<and> rebuilt p seen e'"
  using assms remove_as4 [of e] by (fastforce simp: rebuilt_def has_next_hop_def ba_defs)

lemma loop_checks:
  assumes "rebuilt p seen e"
  shows "\<exists>l. bgp_as_path_loopy (bl_net L) p e = Inr l \<and>
      (\<not> l \<longrightarrow> (\<exists>a segs. ea_find_bgp e BA_AS_PATH = Some a \<and> path_ok segs \<and>
        ea_u a = Ptr (path_bytes (bl_net L) segs) \<and>
        (0 \<le> cf_allow_local_as (bp_cf p) \<longrightarrow>
           int (count_list (path_asns segs) (bp_local_as p)) \<le> cf_allow_local_as (bp_cf p))))"
    and "\<exists>l. bgp_originator_id_loopy p e = Inr l"
    and "\<exists>l. bgp_cluster_list_loopy (bl_host L) p e = Inr l"
proof -
  obtain a segs where a: "ea_find_bgp e BA_AS_PATH = Some a" "path_ok segs"
      "ea_u a = Ptr (path_bytes (bl_net L) segs)" using assms by (auto simp: rebuilt_def)
  let ?num = "cf_allow_local_as (bp_cf p) + 1"
  have "0 < ?num \<Longrightarrow> as_path_contains (bl_net L) (path_bytes (bl_net L) segs) (bp_local_as p) ?num =
      Inr (?num \<le> int (count_list (path_asns segs) (bp_local_as p)))"
    using unaligned_access.contains_bytes [OF net, of segs ?num] a(2) by (simp add: path_ok_def)
  with a show "\<exists>l. bgp_as_path_loopy (bl_net L) p e = Inr l \<and>
      (\<not> l \<longrightarrow> (\<exists>a segs. ea_find_bgp e BA_AS_PATH = Some a \<and> path_ok segs \<and>
        ea_u a = Ptr (path_bytes (bl_net L) segs) \<and>
        (0 \<le> cf_allow_local_as (bp_cf p) \<longrightarrow>
           int (count_list (path_asns segs) (bp_local_as p)) \<le> cf_allow_local_as (bp_cf p))))"
    by (cases "0 < ?num") (auto simp: bgp_as_path_loopy_def Let_def u_ptr_def)
  have e: "entry_ok L p False code (ea_u a)"
    if "ea_find_bgp e code = Some a" "code \<in> {BA_ORIGINATOR_ID, BA_CLUSTER_LIST}" for code a
    using assms that by (auto simp: rebuilt_def)
  show "\<exists>l. bgp_originator_id_loopy p e = Inr l"
    using e [of BA_ORIGINATOR_ID]
    by (cases "ea_find_bgp e BA_ORIGINATOR_ID")
       (auto simp: bgp_originator_id_loopy_def entry_ok_def u_data_def)
  show "\<exists>l. bgp_cluster_list_loopy (bl_host L) p e = Inr l"
    using e [of BA_CLUSTER_LIST]
    by (cases "ea_find_bgp e BA_CLUSTER_LIST")
       (auto simp: bgp_cluster_list_loopy_def entry_ok_def u_ptr_def)
qed

lemma attach_local_pref:
  "\<exists>e'. bgp_attach_attr e BA_LOCAL_PREF (Data v) = Inr e' \<and>
     (single_attrs e \<longrightarrow> (\<forall>code \<in> {BA_AS_PATH, BA_NEXT_HOP}. ea_find_bgp e' code = ea_find_bgp e code))"
proof -
  let ?a = "\<lparr>ea_id = EA_CODE EAP_BGP BA_LOCAL_PREF, ea_flags = BAF_TRANSITIVE,
    ea_type = EAF_TYPE_INT, ea_u = Data v\<rparr>"
  let ?e = "\<lparr>eal_flags = EALF_SORTED, eal_attrs = [?a]\<rparr> # e"
  have "bgp_attach_attr e BA_LOCAL_PREF (Data v) = Inr ?e"
    by (simp add: bgp_attach_attr_def bgp_set_attr_def)
  moreover have "single_attrs ?e" if "single_attrs e"
    using that types_not_undef [of EAF_TYPE_INT]
    by (simp add: single_attrs_def is_undef_def bisect_def EALF_SORTED_def EALF_BISECT_def)
  ultimately show ?thesis by (auto simp: single_attrs_find ba_neq)
qed

text \<open>What an accepted route has.\<close>

definition route_ok :: "bgp_proto \<Rightarrow> ea_seg list \<Rightarrow> bool" where
  "route_ok p e \<longleftrightarrow>
     (\<exists>a segs. ea_find_bgp e BA_AS_PATH = Some a \<and> path_ok segs \<and>
        ea_u a = Ptr (path_bytes (bl_net L) segs) \<and>
        (0 \<le> cf_allow_local_as (bp_cf p) \<longrightarrow>
           int (count_list (path_asns segs) (bp_local_as p)) \<le> cf_allow_local_as (bp_cf p)))"

lemma decode_total:
  "\<exists>r. bgp_decode_attrs L p attr mandatory = Inr r \<and>
     (\<forall>e. mandatory \<and> r = Accepted e \<longrightarrow> route_ok p e \<and> has_next_hop e)"
proof -
  have "entries_inv L p False {} []" by (simp add: entries_inv_def)
  then obtain r where r: "decode_loop L p attr \<lparr>ds_eattrs = [], ds_seen = {}, ds_withdraw = False\<rparr> = Inr r"
      "loop_result p r"
    using decode_loop_inv [of p "\<lparr>ds_eattrs = [], ds_seen = {}, ds_withdraw = False\<rparr>" attr] by auto
  show ?thesis
  proof (cases "\<exists>st. r = Inr st \<and> \<not> ds_withdraw st \<and> mandatory \<and>
      filter (\<lambda>c. c \<notin> ds_seen st) bgp_mandatory_attrs = []")
    case False
    with r show ?thesis
      by (cases r) (auto simp: bgp_decode_attrs_def split: list.split)
  next
    case True
    then obtain st where st: "r = Inr st" "\<not> ds_withdraw st" "mandatory"
        "filter (\<lambda>c. c \<notin> ds_seen st) bgp_mandatory_attrs = []" by blast
    have inv: "entries_inv L p False (ds_seen st) (ds_eattrs st)" using r(2) st by simp
    have path: "BA_AS_PATH \<in> ds_seen st" and nh: "BA_NEXT_HOP \<in> ds_seen st"
      using st(4) by (simp_all add: bgp_mandatory_attrs_def split: if_splits)
    from reconstruct_total [OF inv path] obtain e1 where e1:
        "(if bp_as4_session p then Inr (ds_eattrs st)
          else bgp_reconstruct_4b_atts (bl_net L) p (ds_eattrs st)) = Inr e1"
        "rebuilt p (ds_seen st) e1" by blast
    from remove_rebuilt [OF e1(2)] obtain e2 where e2: "bgp_remove_as4_attrs e1 = Inr e2"
        "rebuilt p (ds_seen st) e2" by blast
    from loop_checks [OF e2(2)] obtain l1 l2 l3 where l:
        "bgp_as_path_loopy (bl_net L) p e2 = Inr l1" "\<not> l1 \<longrightarrow> route_ok p e2"
        "bgp_originator_id_loopy p e2 = Inr l2" "bgp_cluster_list_loopy (bl_host L) p e2 = Inr l3"
      unfolding route_ok_def by blast
    obtain e3 where e3: "bgp_attach_attr e2 BA_LOCAL_PREF
        (Data (cf_default_local_pref (bp_cf p))) = Inr e3"
        "ea_find_bgp e3 BA_AS_PATH = ea_find_bgp e2 BA_AS_PATH" "ea_find_bgp e3 BA_NEXT_HOP = ea_find_bgp e2 BA_NEXT_HOP"
      using attach_local_pref [of e2 "cf_default_local_pref (bp_cf p)"] e2(2)
      unfolding rebuilt_def by blast
    have "bgp_decode_attrs L p attr mandatory =
        (if l1 then Inr Withdrawn else if l2 \<or> l3 then Inr Withdrawn
         else if BA_LOCAL_PREF \<in> ds_seen st then Inr (Accepted e2) else Inr (Accepted e3))"
      using r(1) st e1(1) e2(1) l e3(1) by (simp add: bgp_decode_attrs_def)
    moreover have "route_ok p e2 \<Longrightarrow> route_ok p e3" using e3(2) by (simp add: route_ok_def)
    moreover have "has_next_hop e2" "has_next_hop e3" using e2(2) e3(3) nh by (simp_all add: rebuilt_def has_next_hop_def)
    ultimately show ?thesis using l(2) by (auto split: if_splits)
  qed
qed

end

section \<open>Properties\<close>




lemma sample_received:
  "received network_lib sample_attrs = [\<lparr>eal_flags = 0, eal_attrs = [snd (sample_attrs ! 2)]\<rparr>,
     \<lparr>eal_flags = 0, eal_attrs = [snd (sample_attrs ! 1)]\<rparr>,
     \<lparr>eal_flags = 0, eal_attrs = [snd (sample_attrs ! 0)]\<rparr>]"
  by (simp add: received_def sample_attrs_def received_attr_def wire_value_def ba_neq)

lemma sample_single: "single_attrs (received network_lib sample_attrs)"
  unfolding sample_received
  by (simp add: single_attrs_def bisect_def sample_attrs_def is_undef_def
      eaf_type_defs EAF_TYPE_MASK_def EAF_TYPE_UNDEF_def)

lemma sample_accepted:
  "\<exists>e. bgp_decode_attrs network_lib sample_proto (attr_block network_lib sample_attrs) True =
     Inr (Accepted e)"
proof -
  let ?e = "received network_lib sample_attrs"
  have loop: "decode_loop network_lib sample_proto (attr_block network_lib sample_attrs)
      \<lparr>ds_eattrs = [], ds_seen = {}, ds_withdraw = False\<rparr> =
    Inr (Inr \<lparr>ds_eattrs = ?e, ds_seen = {BA_ORIGIN, BA_AS_PATH, BA_NEXT_HOP}, ds_withdraw = False\<rparr>)"
    using netlib.decode_loop_all [OF sample_attrs_ok,
        of "\<lparr>ds_eattrs = [], ds_seen = {}, ds_withdraw = False\<rparr>"]
    by (simp add: sample_proto_def sample_attrs_def ba_neq)
  note find = single_attrs_find [OF sample_single]
  have path: "ea_find_bgp ?e BA_AS_PATH = Some (snd (sample_attrs ! 1))"
      "ea_find_bgp ?e BA_ORIGINATOR_ID = None" "ea_find_bgp ?e BA_CLUSTER_LIST = None"
    unfolding find unfolding sample_received by (simp_all add: sample_attrs_def ba_neq)
  have "as_path_contains network_order (path_bytes network_order
      [Seg AS_PATH_SEQUENCE [65002, 200000]]) 65001 1 = Inr False"
    using net.contains_bytes [of "[Seg AS_PATH_SEQUENCE [65002, 200000]]" 1 65001] by simp
  then have "bgp_as_path_loopy network_order sample_proto ?e = Inr False"
    unfolding bgp_as_path_loopy_def path(1)
    by (simp add: sample_proto_def sample_cf_def u_ptr_def sample_attrs_def)
  moreover have "bgp_remove_as4_attrs ?e = Inr ?e"
    unfolding sample_received by (simp add: sample_attrs_def) (simp add: ba_defs)
  moreover have "bgp_originator_id_loopy sample_proto ?e = Inr False"
      "bgp_cluster_list_loopy network_order sample_proto ?e = Inr False"
    unfolding bgp_originator_id_loopy_def bgp_cluster_list_loopy_def path(2,3) by simp_all
  moreover have "bp_as4_session sample_proto" "bl_net network_lib = network_order"
      "bl_host network_lib = network_order" by (simp_all add: sample_proto_def network_lib_def)
  moreover obtain e' where "bgp_attach_attr ?e BA_LOCAL_PREF
      (Data (cf_default_local_pref (bp_cf sample_proto))) = Inr e'"
    using netlib.attach_local_pref by blast
  ultimately show ?thesis
    unfolding bgp_decode_attrs_def loop by (simp add: bgp_mandatory_attrs_def ba_neq)
qed


end
