(* ===== verification/Nexthops.thy ===== *)
theory Nexthops
  imports Lib_Interfaces
begin

text \<open>
  Multipath next hops and route source IDs, \<open>nest/rt-attr.c\<close>. A list of next hops is a
  HOL list (\<open>NULL\<close> is the empty list); whether \<open>mpnh_merge\<close> reuses or copies a node does
  not change the value of the result.
\<close>

section \<open>Next hops\<close>

text \<open>An interface is known by its address in memory and its kernel index.\<close>

record iface =
  if_ref :: nat
  if_index :: u32

record 'a mpnh =
  mp_gw :: 'a
  mp_iface :: iface
  mp_weight :: u8

fun mpnh_hash :: "'a ip_ops \<Rightarrow> 'a mpnh list \<Rightarrow> u32" where
  "mpnh_hash I x = foldl (\<lambda>h n. h XOR ipa_hash I (mp_gw n)) 0 x"

fun mpnh__same :: "'a mpnh list \<Rightarrow> 'a mpnh list \<Rightarrow> bool" where
  "mpnh__same (x # xs) (y # ys) =
     (if \<not> ipa_equal (mp_gw x) (mp_gw y) \<or> mp_iface x \<noteq> mp_iface y \<or> mp_weight x \<noteq> mp_weight y
      then False else mpnh__same xs ys)"
| "mpnh__same xs ys \<longleftrightarrow> xs = [] \<and> ys = []"

definition mpnh_compare_node :: "'a ip_ops \<Rightarrow> 'a mpnh list \<Rightarrow> 'a mpnh list \<Rightarrow> int" where
  "mpnh_compare_node I x y =
     (case x of [] \<Rightarrow> 1 | a # _ \<Rightarrow>
     (case y of [] \<Rightarrow> -1 | b # _ \<Rightarrow>
       let r = uint (mp_weight b) - uint (mp_weight a) in
       if r \<noteq> 0 then r
       else let r = ipa_compare I (mp_gw a) (mp_gw b) in
       if r \<noteq> 0 then r
       else sint (if_index (mp_iface a)) - sint (if_index (mp_iface b))))"

text \<open>The test \<open>max--\<close> is false only when \<open>max\<close> is 0: a negative limit is no limit.\<close>

function mpnh_merge :: "'a ip_ops \<Rightarrow> 'a mpnh list \<Rightarrow> 'a mpnh list \<Rightarrow> int \<Rightarrow> 'a mpnh list" where
  "mpnh_merge I x y mx =
     (if (x = [] \<and> y = []) \<or> mx = 0 then []
      else
        let cmp = mpnh_compare_node I x y in
        if cmp < 0 then hd x # mpnh_merge I (tl x) y (mx - 1)
        else if cmp > 0 then hd y # mpnh_merge I x (tl y) (mx - 1)
        else hd x # mpnh_merge I (tl x) (tl y) (mx - 1))"
  by pat_completeness auto
termination
proof (relation "measure (\<lambda>(I, x, y, mx). length x + length y)", goal_cases)
  case (2 I x y mx cmp)
  then show ?case by (cases x) (auto simp: mpnh_compare_node_def)
next
  case (3 I x y mx cmp)
  then show ?case by (cases x; cases y) (auto simp: mpnh_compare_node_def)
next
  case (4 I x y mx cmp)
  then show ?case by (cases x; cases y) (auto simp: mpnh_compare_node_def)
qed simp

declare mpnh_merge.simps [simp del]

fun mpnh_insert :: "'a ip_ops \<Rightarrow> 'a mpnh list \<Rightarrow> 'a mpnh \<Rightarrow> 'a mpnh list" where
  "mpnh_insert I [] x = [x]"
| "mpnh_insert I (n # ns) x =
     (let cmp = mpnh_compare_node I [n] [x] in
      if cmp < 0 then n # mpnh_insert I ns x
      else if cmp > 0 then x # n # ns
      else n # ns)"

fun mpnh_is_sorted :: "'a ip_ops \<Rightarrow> 'a mpnh list \<Rightarrow> bool" where
  "mpnh_is_sorted I (x # y # xs) =
     (if mpnh_compare_node I (x # y # xs) (y # xs) \<ge> 0 then False else mpnh_is_sorted I (y # xs))"
| "mpnh_is_sorted I _ = True"

text \<open>Destination types of a route (\<open>nest/route.h\<close>).\<close>

definition RTD_ROUTER :: u8 where "RTD_ROUTER = 0"
definition RTD_DEVICE :: u8 where "RTD_DEVICE = 1"
definition RTD_MULTIPATH :: u8 where "RTD_MULTIPATH = 5"

section \<open>The order of next hops\<close>

definition node_key :: "'a mpnh \<Rightarrow> u8 \<times> 'a \<times> u32" where
  "node_key n = (mp_weight n, mp_gw n, if_index (mp_iface n))"

definition node_cmp :: "'a ip_ops \<Rightarrow> 'a mpnh \<Rightarrow> 'a mpnh \<Rightarrow> int" where
  "node_cmp I a b =
     (if mp_weight a \<noteq> mp_weight b then uint (mp_weight b) - uint (mp_weight a)
      else if ipa_compare I (mp_gw a) (mp_gw b) \<noteq> 0 then ipa_compare I (mp_gw a) (mp_gw b)
      else sint (if_index (mp_iface a)) - sint (if_index (mp_iface b)))"

definition node_less :: "'a ip_ops \<Rightarrow> 'a mpnh \<Rightarrow> 'a mpnh \<Rightarrow> bool" where
  "node_less I a b \<longleftrightarrow> node_cmp I a b < 0"

lemma uint_diff_zero: "uint (a :: u8) - uint b = 0 \<longleftrightarrow> a = b"
  by (auto simp: word_uint_eq_iff)

lemma sint_eq_iff: "sint (a :: u32) = sint b \<longleftrightarrow> a = b"
  using signed_word_eqI [of a b] by blast

lemma compare_cons [simp]:
  "mpnh_compare_node I (a # x) (b # y) = node_cmp I a b"
  "mpnh_compare_node I [] y = 1" "mpnh_compare_node I (a # x) [] = -1"
  using uint_diff_zero [of "mp_weight b" "mp_weight a"]
  by (auto simp: mpnh_compare_node_def node_cmp_def Let_def)

text \<open>The merge without a limit.\<close>

fun merge_all :: "'a ip_ops \<Rightarrow> 'a mpnh list \<Rightarrow> 'a mpnh list \<Rightarrow> 'a mpnh list" where
  "merge_all I [] y = y"
| "merge_all I (a # x) [] = a # x"
| "merge_all I (a # x) (b # y) =
     (if node_less I a b then a # merge_all I x (b # y)
      else if node_less I b a then b # merge_all I (a # x) y
      else a # merge_all I x y)"

lemma merge_all_induct [case_names 1 2 3]:
  assumes "\<And>y. P [] y" and "\<And>a x. P (a # x) []"
    and "\<And>a x b y. P x (b # y) \<Longrightarrow> P (a # x) y \<Longrightarrow> P x y \<Longrightarrow> P (a # x) (b # y)"
  shows "P x y"
proof (induction x arbitrary: y)
  case (Cons a x)
  show ?case by (induction y) (use assms Cons in auto)
qed (rule assms)

lemma merge_all_Nil2 [simp]: "merge_all I x [] = x"
  by (cases x) simp_all

context ip_address begin

lemma node_cmp_zero: "node_cmp I a b = 0 \<longleftrightarrow> node_key a = node_key b"
  using uint_diff_zero [of "mp_weight b" "mp_weight a"]
  by (auto simp: node_cmp_def node_key_def compare_eq sint_eq_iff)

lemma node_less_iff:
  "node_less I a b \<longleftrightarrow>
     mp_weight b < mp_weight a \<or>
     mp_weight a = mp_weight b \<and>
       (ipa_compare I (mp_gw a) (mp_gw b) < 0 \<or>
        mp_gw a = mp_gw b \<and> sint (if_index (mp_iface a)) < sint (if_index (mp_iface b)))"
  by (auto simp: node_less_def node_cmp_def word_less_alt compare_eq)

lemma node_less_swap: "0 < node_cmp I a b \<longleftrightarrow> node_less I b a"
  by (auto simp: node_less_iff node_cmp_def compare_eq compare_antisym word_less_alt)

lemma node_less_irrefl [simp]: "\<not> node_less I a a"
  by (simp add: node_less_iff)

lemma node_less_trans:
  assumes ab: "node_less I a b" and bc: "node_less I b c"
  shows "node_less I a c"
proof -
  have w: "mp_weight b \<le> mp_weight a" "mp_weight c \<le> mp_weight b"
    using ab bc by (auto simp: node_less_iff)
  show ?thesis
  proof (cases "mp_weight a = mp_weight c")
    case False
    with w show ?thesis by (simp add: node_less_iff)
  next
    case True
    with w have eq: "mp_weight a = mp_weight b" "mp_weight b = mp_weight c" by simp_all
    have ab': "ipa_compare I (mp_gw a) (mp_gw b) < 0 \<or> mp_gw a = mp_gw b \<and>
        sint (if_index (mp_iface a)) < sint (if_index (mp_iface b))"
      using ab eq by (simp add: node_less_iff)
    have bc': "ipa_compare I (mp_gw b) (mp_gw c) < 0 \<or> mp_gw b = mp_gw c \<and>
        sint (if_index (mp_iface b)) < sint (if_index (mp_iface c))"
      using bc eq by (simp add: node_less_iff)
    from ab' bc' compare_trans [of "mp_gw a" "mp_gw b" "mp_gw c"]
    have "ipa_compare I (mp_gw a) (mp_gw c) < 0 \<or> mp_gw a = mp_gw c \<and>
        sint (if_index (mp_iface a)) < sint (if_index (mp_iface c))"
      by (elim disjE conjE) simp_all
    with True show ?thesis by (simp add: node_less_iff)
  qed
qed

lemma is_sorted_iff: "mpnh_is_sorted I x \<longleftrightarrow> sorted_wrt (node_less I) x"
proof (induction x rule: induct_list012)
  case (3 a b x)
  have "transp (node_less I)" using node_less_trans by (blast intro: transpI)
  with 3 show ?case by (auto simp: sorted_wrt2 node_less_def [of I a b] simp del: sorted_wrt.simps)
qed simp_all

text \<open>The head of a merge, and the merge of two sorted lists.\<close>

lemma merge_simps:
  "mpnh_merge I [] [] mx = []"
  "mpnh_merge I x y 0 = []"
  "mx \<noteq> 0 \<Longrightarrow> mpnh_merge I (a # x) [] mx = a # mpnh_merge I x [] (mx - 1)"
  "mx \<noteq> 0 \<Longrightarrow> mpnh_merge I [] (b # y) mx = b # mpnh_merge I [] y (mx - 1)"
  "mx \<noteq> 0 \<Longrightarrow> mpnh_merge I (a # x) (b # y) mx =
     (if node_less I a b then a # mpnh_merge I x (b # y) (mx - 1)
      else if node_less I b a then b # mpnh_merge I (a # x) y (mx - 1)
      else a # mpnh_merge I x y (mx - 1))"
  using node_less_swap [of a b]
  by (subst mpnh_merge.simps; simp add: node_less_def [of I a b] Let_def)+

lemma merge_limit:
  "mpnh_merge I x y mx =
     (if mx < 0 then merge_all I x y else take (nat mx) (merge_all I x y))"
proof (induction "length x + length y" arbitrary: x y mx rule: less_induct)
  case less
  have step: "take (nat mx) (n # z) = n # take (nat (mx - 1)) z" if "0 < mx" for n and z :: "'a mpnh list"
    using that by (simp add: take_Cons nat_diff_distrib split: nat.splits)
  show ?case
  proof (cases "mx = 0")
    case True
    then show ?thesis by (simp add: merge_simps)
  next
    case False
    show ?thesis
    proof (cases x; cases y)
      assume "x = []" "y = []"
      then show ?thesis by (simp add: merge_simps)
    next
      fix b ys assume "x = []" "y = b # ys"
      with False less [of "[]" ys "mx - 1"] step show ?thesis by (auto simp: merge_simps)
    next
      fix a xs assume "x = a # xs" "y = []"
      with False less [of xs "[]" "mx - 1"] step show ?thesis by (auto simp: merge_simps)
    next
      fix a xs b ys assume "x = a # xs" "y = b # ys"
      with False less [of xs "b # ys" "mx - 1"] less [of "a # xs" ys "mx - 1"]
        less [of xs ys "mx - 1"] step
      show ?thesis by (auto simp: merge_simps)
    qed
  qed
qed

lemma merge_all_keys: "node_key ` set (merge_all I x y) = node_key ` (set x \<union> set y)"
proof (induction x y rule: merge_all_induct)
  case (3 a x b y)
  have "node_key a = node_key b" if "\<not> node_less I a b" "\<not> node_less I b a"
    using that node_less_swap [of a b] node_cmp_zero [of a b] by (simp add: node_less_def [of I a b])
  with 3 show ?case by (auto simp: image_Un)
qed auto

lemma node_less_key:
  "node_key a = node_key c \<Longrightarrow> node_less I c b = node_less I a b"
  "node_key a = node_key c \<Longrightarrow> node_less I b c = node_less I b a"
  by (auto simp: node_key_def node_less_iff)

lemma merge_all_above:
  assumes "\<forall>n\<in>set x \<union> set y. node_less I c n"
  shows "\<forall>n\<in>set (merge_all I x y). node_less I c n"
proof
  fix n assume "n \<in> set (merge_all I x y)"
  then have "node_key n \<in> node_key ` set (merge_all I x y)" by (rule imageI)
  then have "node_key n \<in> node_key ` (set x \<union> set y)" by (simp only: merge_all_keys)
  then obtain m where m: "m \<in> set x \<union> set y" "node_key m = node_key n"
    by (elim imageE) simp
  have "node_less I c m" using assms m(1) by (rule bspec)
  then show "node_less I c n" by (rule node_less_key(2) [OF m(2), THEN iffD2])
qed

lemma merge_all_sorted:
  "sorted_wrt (node_less I) x \<Longrightarrow> sorted_wrt (node_less I) y \<Longrightarrow>
   sorted_wrt (node_less I) (merge_all I x y)"
proof (induction x y rule: merge_all_induct)
  case (3 a x b y)
  have eq: "node_key a = node_key b" if "\<not> node_less I a b" "\<not> node_less I b a"
    using that node_less_swap [of a b] node_cmp_zero [of a b] by (simp add: node_less_def [of I a b])
  consider "node_less I a b" | "\<not> node_less I a b" "node_less I b a"
    | "\<not> node_less I a b" "\<not> node_less I b a" by blast
  then show ?case
  proof cases
    case 1
    with 3 node_less_trans [OF 1] have "\<forall>n\<in>set x \<union> set (b # y). node_less I a n" by auto
    from merge_all_above [OF this] 1 3 show ?thesis by simp
  next
    case 2
    with 3 node_less_trans [OF 2(2)] have "\<forall>n\<in>set (a # x) \<union> set y. node_less I b n" by auto
    from merge_all_above [OF this] 2 3 show ?thesis by simp
  next
    case both: 3
    have "\<forall>n\<in>set x \<union> set y. node_less I a n"
      using 3 node_less_key(1) [OF eq [OF both]] by auto
    from merge_all_above [OF this] both 3 show ?thesis by simp
  qed
qed simp_all

lemma insert_spec:
  "sorted_wrt (node_less I) ns \<Longrightarrow>
   sorted_wrt (node_less I) (mpnh_insert I ns x) \<and>
   node_key ` set (mpnh_insert I ns x) = insert (node_key x) (node_key ` set ns)"
proof (induction ns)
  case (Cons n ns)
  consider "node_cmp I n x < 0" | "node_cmp I n x > 0" | "node_cmp I n x = 0" by linarith
  then show ?case
  proof cases
    case 1
    with Cons have "m \<in> set (mpnh_insert I ns x) \<Longrightarrow> node_less I n m" for m
      using node_less_key(2) [of _ _ n] unfolding node_less_def [of I n x, symmetric]
      by (metis (no_types, lifting) imageE image_eqI insertE sorted_wrt.simps(2))
    with 1 Cons show ?thesis by (auto simp: insert_commute)
  next
    case 2
    then have "node_less I x n" by (simp add: node_less_swap)
    with 2 Cons.prems node_less_trans [OF \<open>node_less I x n\<close>] show ?thesis by auto
  next
    case 3
    with node_cmp_zero [of n x] Cons.prems show ?thesis by (simp add: insert_absorb)
  qed
qed simp

end

section \<open>Source IDs\<close>

text \<open>
  The bitmap of the IDs in use. \<open>src_id_size\<close> is the number of words of \<open>src_ids\<close>.
\<close>

record src_state =
  src_ids :: "u32 list"
  src_id_used :: nat
  src_id_pos :: nat

abbreviation src_id_size :: "src_state \<Rightarrow> nat" where
  "src_id_size s \<equiv> length (src_ids s)"

definition rte_src_init :: src_state where
  "rte_src_init = \<lparr>src_ids = [1, 0, 0, 0], src_id_used = 1, src_id_pos = 0\<rparr>"

text \<open>\<open>ffs(~x) - 1\<close>: the number of the lowest bit that is not set.\<close>

definition u32_cto :: "u32 \<Rightarrow> nat" where
  "u32_cto x = length (takeWhile (bit x) [0..<32])"

definition rte_src_found :: "src_state \<Rightarrow> nat \<Rightarrow> (nat \<times> src_state) res" where
  "rte_src_found s i =
     (if \<not> i < 0x8000000 then Inl Assert_failed
      else let j = u32_cto (src_ids s ! i) in
        Inr (32 * i + j,
             s\<lparr>src_id_pos := i,
               src_ids := (src_ids s)[i := src_ids s ! i OR push_bit j 1],
               src_id_used := src_id_used s + 1\<rparr>))"

definition rte_src_alloc_id :: "src_state \<Rightarrow> (nat \<times> src_state) res" where
  "rte_src_alloc_id s =
     (case find (\<lambda>i. src_ids s ! i \<noteq> 0xffffffff) [src_id_pos s..<src_id_size s] of
        Some i \<Rightarrow> rte_src_found s i
      | None \<Rightarrow>
          if src_id_used s > src_id_size s * 28
          then rte_src_found (s\<lparr>src_ids := src_ids s @ replicate (src_id_size s) 0\<rparr>)
                 (max (src_id_pos s) (src_id_size s))
          else (case find (\<lambda>i. src_ids s ! i \<noteq> 0xffffffff) [0..<src_id_pos s] of
                  Some i \<Rightarrow> rte_src_found s i
                | None \<Rightarrow> Inl Assert_failed))"

definition rte_src_free_id :: "src_state \<Rightarrow> nat \<Rightarrow> src_state res" where
  "rte_src_free_id s n =
     (let i = n div 32; j = n mod 32 in
      if \<not> (i < src_id_size s \<and> bit (src_ids s ! i) j) then Inl Assert_failed
      else Inr (s\<lparr>src_ids := (src_ids s)[i := src_ids s ! i AND NOT (push_bit j 1)],
                  src_id_used := src_id_used s - 1\<rparr>))"

text \<open>The set of IDs in use, and the invariant.\<close>

definition src_allocated :: "src_state \<Rightarrow> nat set" where
  "src_allocated s = {n. n div 32 < src_id_size s \<and> bit (src_ids s ! (n div 32)) (n mod 32)}"

definition src_inv :: "src_state \<Rightarrow> bool" where
  "src_inv s \<longleftrightarrow> src_id_used s = card (src_allocated s) \<and> src_id_pos s < src_id_size s"

lemma finite_allocated [simp]: "finite (src_allocated s)"
proof (rule finite_subset)
  show "src_allocated s \<subseteq> {..<32 * src_id_size s}"
    by (auto simp: src_allocated_def)
qed simp

lemma full_word: "(w :: u32) = 0xffffffff \<longleftrightarrow> (\<forall>n<32. bit w n)"
proof -
  have "0xffffffff = (- 1 :: u32)" by simp
  then show ?thesis by (auto simp: bit_eq_iff)
qed

lemma u32_cto:
  assumes "w \<noteq> 0xffffffff"
  shows "u32_cto w < 32" "\<not> bit w (u32_cto w)"
proof -
  obtain n where "n < 32" "\<not> bit w n" using assms full_word by blast
  then have "takeWhile (bit w) [0..<32] \<noteq> [0..<32]"
    by (metis atLeastLessThan_iff set_takeWhileD set_upt zero_le)
  then show "u32_cto w < 32"
    using length_takeWhile_le [of "bit w" "[0..<32]"] takeWhile_eq_take [of "bit w" "[0..<32]"]
    by (metis diff_zero le_neq_implies_less length_upt take_all_iff u32_cto_def order_refl)
  then show "\<not> bit w (u32_cto w)"
    using takeWhile_upt_bound(2) [of "bit w" 32] by (simp add: u32_cto_def)
qed

lemma allocated_set:
  assumes "i < src_id_size s" "j < 32"
  shows "src_allocated (s\<lparr>src_ids := (src_ids s)[i := src_ids s ! i OR push_bit j 1],
           src_id_used := u, src_id_pos := p\<rparr>) = insert (32 * i + j) (src_allocated s)"
  using assms
  by (auto simp: src_allocated_def nth_list_update bit_simps bit_1_iff split: if_splits)

lemma allocated_clear:
  assumes "i < src_id_size s" "j < 32"
  shows "src_allocated (s\<lparr>src_ids := (src_ids s)[i := src_ids s ! i AND NOT (push_bit j 1)],
           src_id_used := u\<rparr>) = src_allocated s - {32 * i + j}"
  using assms
  by (auto simp: src_allocated_def nth_list_update bit_simps bit_1_iff split: if_splits)

lemma allocated_grow:
  "src_allocated (s\<lparr>src_ids := src_ids s @ replicate k 0\<rparr>) = src_allocated s"
proof (rule set_eqI)
  fix n
  have "replicate k 0 ! (n div 32 - src_id_size s) = (0 :: u32)"
    if "n div 32 < src_id_size s + k" "\<not> n div 32 < src_id_size s"
    using that by (intro nth_replicate) simp
  then show "n \<in> src_allocated (s\<lparr>src_ids := src_ids s @ replicate k 0\<rparr>) \<longleftrightarrow> n \<in> src_allocated s"
    by (cases "n div 32 < src_id_size s") (auto simp: src_allocated_def nth_append)
qed

lemma src_found_spec:
  assumes "src_inv s" "i < src_id_size s" "src_ids s ! i \<noteq> 0xffffffff" "src_id_size s \<le> 0x8000000"
  shows "\<exists>n s'. rte_src_found s i = Inr (n, s') \<and> n \<notin> src_allocated s \<and>
    src_allocated s' = insert n (src_allocated s) \<and> src_inv s'"
proof -
  let ?j = "u32_cto (src_ids s ! i)"
  have j: "?j < 32" "\<not> bit (src_ids s ! i) ?j" using u32_cto [OF assms(3)] by simp_all
  then have new: "32 * i + ?j \<notin> src_allocated s" by (simp add: src_allocated_def)
  let ?s = "s\<lparr>src_ids := (src_ids s)[i := src_ids s ! i OR push_bit ?j 1],
              src_id_used := src_id_used s + 1, src_id_pos := i\<rparr>"
  have "src_allocated ?s = insert (32 * i + ?j) (src_allocated s)"
    using assms(2) j(1) by (rule allocated_set)
  moreover from this have "src_inv ?s" using assms new by (simp add: src_inv_def)
  moreover have "rte_src_found s i = Inr (32 * i + ?j, ?s)"
    using assms by (simp add: rte_src_found_def Let_def)
  ultimately show ?thesis using new by blast
qed

lemma full_words_card:
  assumes "\<And>i. i < src_id_size s \<Longrightarrow> src_ids s ! i = 0xffffffff"
  shows "card (src_allocated s) = 32 * src_id_size s"
proof -
  have "src_allocated s = {..<32 * src_id_size s}"
    using assms by (auto simp: src_allocated_def full_word)
  then show ?thesis by simp
qed

lemma src_alloc_spec:
  assumes "src_inv s" "src_id_size s \<le> 0x4000000"
  shows "\<exists>n s'. rte_src_alloc_id s = Inr (n, s') \<and> n \<notin> src_allocated s \<and>
    src_allocated s' = insert n (src_allocated s) \<and> src_inv s'"
proof -
  let ?P = "\<lambda>i. src_ids s ! i \<noteq> 0xffffffff"
  have pos: "src_id_pos s < src_id_size s" using assms(1) by (simp add: src_inv_def)
  show ?thesis
  proof (cases "find ?P [src_id_pos s..<src_id_size s]")
    case (Some i)
    then have "i < src_id_size s" "?P i" by (auto simp: find_Some_iff)
    with src_found_spec [OF assms(1), of i] assms(2) Some show ?thesis
      by (simp add: rte_src_alloc_id_def)
  next
    case None
    then have upper: "\<not> ?P i" if "src_id_pos s \<le> i" "i < src_id_size s" for i
      using that by (auto simp: find_None_iff)
    show ?thesis
    proof (cases "src_id_used s > src_id_size s * 28")
      case True
      let ?s = "s\<lparr>src_ids := src_ids s @ replicate (src_id_size s) 0\<rparr>"
      have "src_inv ?s" using assms(1) by (simp add: src_inv_def allocated_grow)
      moreover have "src_ids s \<noteq> []" using pos by auto
      ultimately show ?thesis
        using src_found_spec [of ?s "src_id_size s"] pos assms(2) None True
        by (simp add: rte_src_alloc_id_def nth_append allocated_grow max_def)
    next
      case used: False
      show ?thesis
      proof (cases "find ?P [0..<src_id_pos s]")
        case (Some i)
        then have "i < src_id_size s" "?P i" using pos by (auto simp: find_Some_iff)
        with src_found_spec [OF assms(1), of i] assms(2) None used Some show ?thesis
          by (simp add: rte_src_alloc_id_def)
      next
        case lower: None
        then have "\<not> ?P i" if "i < src_id_size s" for i
          using that upper [of i] by (cases "src_id_pos s \<le> i") (auto simp: find_None_iff)
        then have "card (src_allocated s) = 32 * src_id_size s"
          using full_words_card by blast
        with used assms(1) pos show ?thesis by (simp add: src_inv_def)
      qed
    qed
  qed
qed

lemma src_free_spec:
  assumes "src_inv s" "n \<in> src_allocated s"
  shows "\<exists>s'. rte_src_free_id s n = Inr s' \<and> src_allocated s' = src_allocated s - {n} \<and> src_inv s'"
proof -
  let ?i = "n div 32" and ?j = "n mod 32"
  let ?s = "s\<lparr>src_ids := (src_ids s)[?i := src_ids s ! ?i AND NOT (push_bit ?j 1)],
              src_id_used := src_id_used s - 1\<rparr>"
  have i: "?i < src_id_size s" "bit (src_ids s ! ?i) ?j"
    using assms(2) by (simp_all add: src_allocated_def)
  have "src_allocated ?s = src_allocated s - {32 * ?i + ?j}"
    using i(1) by (rule allocated_clear) simp
  then have "src_allocated ?s = src_allocated s - {n}" by simp
  moreover from this have "src_inv ?s" using assms by (simp add: src_inv_def)
  moreover have "rte_src_free_id s n = Inr ?s"
    using i by (simp add: rte_src_free_id_def Let_def)
  ultimately show ?thesis by blast
qed

section \<open>Properties\<close>

text \<open>\<open>mpnh_merge\<close> on two sorted lists and a limit: the result is sorted, it is the first
  \<open>max\<close> nodes of the merge without a limit (a negative limit is none), and that merge has
  exactly the nodes of the two lists, up to weight, gateway and interface index.\<close>

theorem mpnh_merge_sorted:
  assumes "ip_address I" "mpnh_is_sorted I x" "mpnh_is_sorted I y"
  shows "mpnh_is_sorted I (mpnh_merge I x y mx) \<and>
    mpnh_merge I x y mx =
      (if mx < 0 then mpnh_merge I x y (-1) else take (nat mx) (mpnh_merge I x y (-1))) \<and>
    node_key ` set (mpnh_merge I x y (-1)) = node_key ` (set x \<union> set y)"
proof -
  note facts = ip_address.is_sorted_iff [OF assms(1)]
    ip_address.merge_limit [OF assms(1)] ip_address.merge_all_sorted [OF assms(1)]
    ip_address.merge_all_keys [OF assms(1)]
  have "sorted_wrt (node_less I) (merge_all I x y)" using assms facts(1,3) by blast
  then show ?thesis by (simp add: facts sorted_wrt_take)
qed

theorem mpnh_merge_sorted_witness:
  "let n = \<lambda>g w. \<lparr>mp_gw = g, mp_iface = \<lparr>if_ref = 1, if_index = 1\<rparr>, mp_weight = w\<rparr>;
       x = [n 1 2, n 4 1]; y = [n (1 :: u32) 2, n 3 1]
   in mpnh_merge ip4_ops x y 2 = [n 1 2, n 3 1] \<and> mpnh_is_sorted ip4_ops (mpnh_merge ip4_ops x y 2)"
proof -
  let ?n = "\<lambda>g :: u32. \<lambda>w :: u8. \<lparr>mp_gw = g, mp_iface = \<lparr>if_ref = 1, if_index = 1\<rparr>, mp_weight = w\<rparr>"
  have "mpnh_merge ip4_ops [?n 1 2, ?n 4 1] [?n 1 2, ?n 3 1] 2 = [?n 1 2, ?n 3 1]"
    by (simp add: mpnh_merge.simps node_cmp_def)
  moreover have "mpnh_is_sorted ip4_ops (mpnh_merge ip4_ops [?n 1 2, ?n 4 1] [?n 1 2, ?n 3 1] 2)"
    by (rule mpnh_merge_sorted [THEN conjunct1, OF ip4.ip_address_axioms]) (simp_all add: node_cmp_def)
  ultimately show ?thesis by (simp add: Let_def)
qed

text \<open>\<open>mpnh_insert\<close> keeps a list of next hops sorted and adds the new one, once.\<close>

theorem mpnh_insert_sorted:
  assumes "ip_address I" "mpnh_is_sorted I ns"
  shows "mpnh_is_sorted I (mpnh_insert I ns x) \<and>
    node_key ` set (mpnh_insert I ns x) = insert (node_key x) (node_key ` set ns)"
  using assms(2) ip_address.insert_spec [OF assms(1), of ns x] ip_address.is_sorted_iff [OF assms(1)]
  by blast

theorem mpnh_insert_sorted_witness:
  "let n = \<lambda>g w. \<lparr>mp_gw = g, mp_iface = \<lparr>if_ref = 1, if_index = 1\<rparr>, mp_weight = w\<rparr>
   in mpnh_is_sorted ip4_ops (mpnh_insert ip4_ops [n 1 2, n (4 :: u32) 1] (n 3 1))"
  unfolding Let_def
  by (rule mpnh_insert_sorted [THEN conjunct1, OF ip4.ip_address_axioms]) (simp add: node_cmp_def)

text \<open>The ID that \<open>rte_src_alloc_id\<close> returns was not in use, is now, and no other ID changes;
  the assertion that a free bit exists never fails while the bitmap has at most 2^26 words.\<close>

theorem rte_src_alloc_fresh:
  assumes "src_inv s" "src_id_size s \<le> 0x4000000"
  shows "\<exists>n s'. rte_src_alloc_id s = Inr (n, s') \<and> n \<notin> src_allocated s \<and>
    src_allocated s' = insert n (src_allocated s) \<and> src_inv s' \<and>
    (\<exists>s''. rte_src_free_id s' n = Inr s'' \<and> src_allocated s'' = src_allocated s \<and> src_inv s'')"
proof -
  obtain n s' where *: "rte_src_alloc_id s = Inr (n, s')" "n \<notin> src_allocated s"
      "src_allocated s' = insert n (src_allocated s)" "src_inv s'"
    using src_alloc_spec [OF assms] by blast
  from src_free_spec [OF *(4), of n] * show ?thesis by auto
qed

theorem rte_src_alloc_fresh_witness:
  "\<exists>n s'. rte_src_alloc_id rte_src_init = Inr (n, s') \<and> n \<noteq> 0 \<and> src_inv s'"
proof -
  have *: "src_allocated rte_src_init = {0}"
  proof (rule set_eqI)
    fix n :: nat
    have "n div 32 = 0 \<or> n div 32 = 1 \<or> n div 32 = 2 \<or> n div 32 = 3" if "n div 32 < 4"
      using that by linarith
    then show "n \<in> src_allocated rte_src_init \<longleftrightarrow> n \<in> {0}"
      by (auto simp: src_allocated_def rte_src_init_def bit_1_iff)
  qed
  then have "src_inv rte_src_init" by (simp add: src_inv_def) (simp add: rte_src_init_def)
  from rte_src_alloc_fresh [OF this] * show ?thesis by (auto simp: rte_src_init_def)
qed

end
