(* ===== verification/BgpDecision.thy ===== *)
theory BgpDecision
  imports BgpDecode Nexthops "HOL-Library.List_Lexorder"
begin

text \<open>
  The BGP decision process, \<open>proto/bgp/attrs.c\<close>: the comparison of two routes, whether two
  routes may be merged to a multipath route, and the choice of the best route of each group
  of routes from the same neighboring AS (deterministic MED).
\<close>

section \<open>Routes\<close>

text \<open>
  The parts of \<open>struct rte\<close> and \<open>struct rta\<close> that the decision reads. \<open>rt_proto\<close> is
  \<open>attrs->src->proto\<close>, \<open>rt_valid\<close> is \<open>rte_is_valid\<close>.
\<close>

record rte =
  rt_pref :: u16
  rt_valid :: bool
  rt_suppressed :: bool
  rt_dest :: u8
  rt_igp_metric :: u32
  rt_eattrs :: "ea_seg list"
  rt_proto :: bgp_proto

definition ORIGIN_IGP :: u32 where "ORIGIN_IGP = 0"
definition ORIGIN_INCOMPLETE :: u32 where "ORIGIN_INCOMPLETE = 2"

definition rte_resolvable :: "rte \<Rightarrow> bool" where
  "rte_resolvable rt \<longleftrightarrow>
     rt_dest rt = RTD_ROUTER \<or> rt_dest rt = RTD_DEVICE \<or> rt_dest rt = RTD_MULTIPATH"

definition rt_cf :: "rte \<Rightarrow> bgp_config" where "rt_cf r = bp_cf (rt_proto r)"

text \<open>\<open>x = ea_find(...); x ? x->u.data : dflt\<close>\<close>

definition rt_data :: "rte \<Rightarrow> u8 \<Rightarrow> u32 \<Rightarrow> u32 res" where
  "rt_data r code dflt =
     (case ea_find_bgp (rt_eattrs r) code of None \<Rightarrow> Inr dflt | Some x \<Rightarrow> u_data x)"

definition rt_path_len :: "rte \<Rightarrow> nat res" where
  "rt_path_len r =
     (case ea_find_bgp (rt_eattrs r) BA_AS_PATH of None \<Rightarrow> Inr AS_PATH_MAXLEN
      | Some x \<Rightarrow> rbind (u_ptr x) as_path_getlen)"

definition rt_cluster_len :: "rte \<Rightarrow> nat res" where
  "rt_cluster_len r =
     (case ea_find_bgp (rt_eattrs r) BA_CLUSTER_LIST of None \<Rightarrow> Inr 0
      | Some x \<Rightarrow> rmap (\<lambda>d. length d div 4) (u_ptr x))"

definition bgp_get_neighbor :: "unaligned \<Rightarrow> rte \<Rightarrow> u32 res" where
  "bgp_get_neighbor U r =
     (case ea_find_bgp (rt_eattrs r) BA_AS_PATH of None \<Rightarrow> Inr (bp_remote_as (rt_proto r))
      | Some e \<Rightarrow>
          rbind (u_ptr e) (\<lambda>d. rmap (\<lambda>f. case f of Some as \<Rightarrow> as
            | None \<Rightarrow> bp_remote_as (rt_proto r)) (as_path_get_first U d)))"

section \<open>Comparison of two routes\<close>

text \<open>The steps after the comparison of MEDs, then the whole function.\<close>

definition better_tail :: "u32 ip_ops \<Rightarrow> rte \<Rightarrow> rte \<Rightarrow> bool res" where
  "better_tail I new old =
     (let np = rt_proto new; op = rt_proto old in
      if bp_is_internal np \<and> \<not> bp_is_internal op then Inr False
      else if \<not> bp_is_internal np \<and> bp_is_internal op then Inr True
      else
        let n = (if cf_igp_metric (rt_cf new) then rt_igp_metric new else 0);
            o' = (if cf_igp_metric (rt_cf old) then rt_igp_metric old else 0) in
        if n < o' then Inr True else if n > o' then Inr False
        else
          rbind (rt_data new BA_ORIGINATOR_ID (bp_remote_id np)) (\<lambda>n.
          rbind (rt_data old BA_ORIGINATOR_ID (bp_remote_id op)) (\<lambda>o'.
            if (cf_prefer_older (rt_cf new) \<or> cf_prefer_older (rt_cf old)) \<and>
               \<not> bp_is_internal np \<and> n \<noteq> o' then Inr False
            else if n < o' then Inr True else if n > o' then Inr False
            else
              rbind (rt_cluster_len new) (\<lambda>n.
              rbind (rt_cluster_len old) (\<lambda>o'.
                if n < o' then Inr True else if n > o' then Inr False
                else Inr (ipa_compare I (cf_remote_ip (rt_cf new)) (cf_remote_ip (rt_cf old)) < 0))))))"

definition better_med :: "unaligned \<Rightarrow> u32 ip_ops \<Rightarrow> rte \<Rightarrow> rte \<Rightarrow> bool res" where
  "better_med U I new old =
     rbind (if cf_med_metric (rt_cf new) \<or> cf_med_metric (rt_cf old) then Inr True
            else rbind (bgp_get_neighbor U new) (\<lambda>a.
                 rmap (\<lambda>b. a = b) (bgp_get_neighbor U old))) (\<lambda>compare.
       if compare then
         rbind (rt_data new BA_MULTI_EXIT_DISC (cf_default_med (rt_cf new))) (\<lambda>n.
         rbind (rt_data old BA_MULTI_EXIT_DISC (cf_default_med (rt_cf old))) (\<lambda>o'.
           if n < o' then Inr True else if n > o' then Inr False
           else better_tail I new old))
       else better_tail I new old)"

definition better_origin :: "unaligned \<Rightarrow> u32 ip_ops \<Rightarrow> rte \<Rightarrow> rte \<Rightarrow> bool res" where
  "better_origin U I new old =
     rbind (rt_data new BA_ORIGIN ORIGIN_INCOMPLETE) (\<lambda>n.
     rbind (rt_data old BA_ORIGIN ORIGIN_INCOMPLETE) (\<lambda>o'.
       if n < o' then Inr True else if n > o' then Inr False
       else better_med U I new old))"

definition bgp_rte_better :: "unaligned \<Rightarrow> u32 ip_ops \<Rightarrow> rte \<Rightarrow> rte \<Rightarrow> bool res" where
  "bgp_rte_better U I new old =
     (if rt_suppressed new \<and> \<not> rt_suppressed old then Inr False
      else if \<not> rt_suppressed new \<and> rt_suppressed old then Inr True
      else if rte_resolvable new \<and> \<not> rte_resolvable old then Inr True
      else if \<not> rte_resolvable new \<and> rte_resolvable old then Inr False
      else
        rbind (rt_data new BA_LOCAL_PREF (cf_default_local_pref (rt_cf new))) (\<lambda>n.
        rbind (rt_data old BA_LOCAL_PREF (cf_default_local_pref (rt_cf old))) (\<lambda>o'.
          if n > o' then Inr True else if n < o' then Inr False
          else if cf_compare_path_lengths (rt_cf new) \<or> cf_compare_path_lengths (rt_cf old) then
            rbind (rt_path_len new) (\<lambda>n.
            rbind (rt_path_len old) (\<lambda>o'.
              if n < o' then Inr True else if n > o' then Inr False
              else better_origin U I new old))
          else better_origin U I new old)))"

definition mergable_tail :: "unaligned \<Rightarrow> rte \<Rightarrow> rte \<Rightarrow> bool res" where
  "mergable_tail U pri sec =
     rbind (rt_data pri BA_ORIGIN ORIGIN_INCOMPLETE) (\<lambda>p.
     rbind (rt_data sec BA_ORIGIN ORIGIN_INCOMPLETE) (\<lambda>s.
       if p \<noteq> s then Inr False
       else
         rbind (if cf_med_metric (rt_cf pri) \<or> cf_med_metric (rt_cf sec) then Inr True
                else rbind (bgp_get_neighbor U pri) (\<lambda>a.
                     rmap (\<lambda>b. a = b) (bgp_get_neighbor U sec))) (\<lambda>compare.
         rbind (if compare then
                  rbind (rt_data pri BA_MULTI_EXIT_DISC (cf_default_med (rt_cf pri))) (\<lambda>p.
                  rmap (\<lambda>s. p = s) (rt_data sec BA_MULTI_EXIT_DISC (cf_default_med (rt_cf sec))))
                else Inr True) (\<lambda>same_med.
           if \<not> same_med then Inr False
           else if bp_is_internal (rt_proto pri) \<noteq> bp_is_internal (rt_proto sec) then Inr False
           else Inr ((if cf_igp_metric (rt_cf pri) then rt_igp_metric pri else 0) =
                     (if cf_igp_metric (rt_cf sec) then rt_igp_metric sec else 0))))))"

definition bgp_rte_mergable :: "unaligned \<Rightarrow> rte \<Rightarrow> rte \<Rightarrow> bool res" where
  "bgp_rte_mergable U pri sec =
     (if rt_suppressed pri \<noteq> rt_suppressed sec then Inr False
      else if \<not> rte_resolvable sec then Inr False
      else
        rbind (rt_data pri BA_LOCAL_PREF (cf_default_local_pref (rt_cf pri))) (\<lambda>p.
        rbind (rt_data sec BA_LOCAL_PREF (cf_default_local_pref (rt_cf sec))) (\<lambda>s.
          if p \<noteq> s then Inr False
          else if cf_compare_path_lengths (rt_cf pri) \<or> cf_compare_path_lengths (rt_cf sec) then
            rbind (rt_path_len pri) (\<lambda>p.
            rbind (rt_path_len sec) (\<lambda>s.
              if p \<noteq> s then Inr False else mergable_tail U pri sec))
          else mergable_tail U pri sec)))"

section \<open>Deterministic MED\<close>

definition same_group :: "unaligned \<Rightarrow> rte \<Rightarrow> u16 \<Rightarrow> u32 \<Rightarrow> bool res" where
  "same_group U r lpref lasn =
     (if rt_pref r \<noteq> lpref then Inr False else rmap (\<lambda>as. as = lasn) (bgp_get_neighbor U r))"

text \<open>All routes here come from BGP.\<close>

definition use_deterministic_med :: "rte \<Rightarrow> bool" where
  "use_deterministic_med r \<longleftrightarrow> cf_deterministic_med (rt_cf r)"

text \<open>
  The search for the best route of the group in \<open>net->routes\<close>. \<open>best\<close> is the route \<open>r\<close> so far,
  with its position in the list; \<open>Some (None, new)\<close> is the new route, which is not in it.
\<close>

fun group_walk ::
  "unaligned \<Rightarrow> u32 ip_ops \<Rightarrow> u16 \<Rightarrow> u32 \<Rightarrow> rte list \<Rightarrow> nat \<Rightarrow> (nat option \<times> rte) option \<Rightarrow>
   (rte list \<times> (nat option \<times> rte) option) res"
where
  "group_walk U I lpref lasn [] i best = Inr ([], best)"
| "group_walk U I lpref lasn (s # routes) i best =
     (if \<not> rt_valid s then Inr (s # routes, best)
      else
        rbind (if use_deterministic_med s then same_group U s lpref lasn else Inr False) (\<lambda>g.
          if g then
            let s' = s\<lparr>rt_suppressed := True\<rparr> in
            rbind (case best of None \<Rightarrow> Inr True | Some (_, r) \<Rightarrow> bgp_rte_better U I s' r) (\<lambda>b.
            rmap (\<lambda>(routes', best'). (s' # routes', best'))
              (group_walk U I lpref lasn routes (Suc i) (if b then Some (Some i, s') else best)))
          else
            rmap (\<lambda>(routes', best'). (s # routes', best'))
              (group_walk U I lpref lasn routes (Suc i) best)))"

text \<open>
  \<open>bgp_rte_recalculate\<close> for a \<open>new\<close> and an \<open>old\<close> route of one group. The result is the
  return value, the list of routes and the new route. \<open>old\<close> has left the list; \<open>old_best\<close> is
  the best route before, with whether it is \<open>old\<close>.
\<close>

definition recalculate_one ::
  "unaligned \<Rightarrow> u32 ip_ops \<Rightarrow> rte list \<Rightarrow> rte option \<Rightarrow> rte option \<Rightarrow> (rte \<times> bool) option \<Rightarrow>
   u16 \<Rightarrow> u32 \<Rightarrow> (bool \<times> rte list \<times> rte option) res"
where
  "recalculate_one U I routes new old old_best lpref lasn =
     (let new1 = map_option (rt_suppressed_update (\<lambda>_. True)) new;
          obg = (case old of None \<Rightarrow> False | Some r \<Rightarrow> \<not> rt_suppressed r) in
      rbind (case (new1, old) of
               (Some n, Some r) \<Rightarrow> bgp_rte_better U I n (r\<lparr>rt_suppressed := True\<rparr>)
             | _ \<Rightarrow> Inr False) (\<lambda>new_is_better.
        if old \<noteq> None \<and> \<not> obg \<and> \<not> new_is_better then Inr (False, routes, new1)
        else if obg \<and> new_is_better then
          Inr (case old_best of None \<Rightarrow> False | Some (_, is_old) \<Rightarrow> is_old,
               routes, map_option (rt_suppressed_update (\<lambda>_. False)) new1)
        else
          rbind (group_walk U I lpref lasn routes 0 (map_option (\<lambda>n. (None, n)) new1))
            (\<lambda>(routes', best).
              case best of
                None \<Rightarrow> Inr (False, routes', new1)
              | Some (None, r) \<Rightarrow>
                  rmap (\<lambda>g. (g, routes', Some (r\<lparr>rt_suppressed := False\<rparr>)))
                    (case old_best of None \<Rightarrow> Inr False
                     | Some (b, is_old) \<Rightarrow> same_group U b lpref lasn)
              | Some (Some i, r) \<Rightarrow>
                  Inr (obg, routes'[i := r\<lparr>rt_suppressed := False\<rparr>], new1))))"

definition bgp_rte_recalculate ::
  "unaligned \<Rightarrow> u32 ip_ops \<Rightarrow> rte list \<Rightarrow> rte option \<Rightarrow> rte option \<Rightarrow> (rte \<times> bool) option \<Rightarrow>
   (bool \<times> rte list \<times> rte option) res"
where
  "bgp_rte_recalculate U I routes new old old_best =
     (case (new, old) of
        (None, None) \<Rightarrow> Inl Out_of_bounds
      | (Some n, None) \<Rightarrow>
          rbind (bgp_get_neighbor U n) (recalculate_one U I routes new None old_best (rt_pref n))
      | (None, Some r) \<Rightarrow>
          rbind (bgp_get_neighbor U r) (recalculate_one U I routes None old old_best (rt_pref r))
      | (Some n, Some r) \<Rightarrow>
          rbind (bgp_get_neighbor U n) (\<lambda>lasn.
          rbind (same_group U r (rt_pref n) lasn) (\<lambda>g.
            if g then recalculate_one U I routes new old old_best (rt_pref n) lasn
            else
              rbind (bgp_get_neighbor U r) (\<lambda>oasn.
              rbind (recalculate_one U I routes None old old_best (rt_pref r) oasn)
                (\<lambda>(i1, routes1, _).
                  rmap (\<lambda>(i2, routes2, new2). (i1 \<or> i2, routes2, new2))
                    (recalculate_one U I routes1 new None old_best (rt_pref n) lasn))))))"

section \<open>What the decision looks at\<close>

text \<open>The values that a comparison reads from one route.\<close>

record bview =
  v_suppressed :: bool
  v_resolvable :: bool
  v_lpref :: u32
  v_plen :: nat
  v_origin :: u32
  v_neighbor :: u32
  v_med :: u32
  v_internal :: bool
  v_igp :: u32
  v_id :: u32
  v_clen :: nat
  v_ip :: u32
  v_cmp_len :: bool
  v_cmp_med :: bool
  v_older :: bool

definition has_view :: "unaligned \<Rightarrow> rte \<Rightarrow> bview \<Rightarrow> bool" where
  "has_view U r v \<longleftrightarrow>
     rt_suppressed r = v_suppressed v \<and> rte_resolvable r = v_resolvable v \<and>
     rt_data r BA_LOCAL_PREF (cf_default_local_pref (rt_cf r)) = Inr (v_lpref v) \<and>
     rt_path_len r = Inr (v_plen v) \<and>
     rt_data r BA_ORIGIN ORIGIN_INCOMPLETE = Inr (v_origin v) \<and>
     bgp_get_neighbor U r = Inr (v_neighbor v) \<and>
     rt_data r BA_MULTI_EXIT_DISC (cf_default_med (rt_cf r)) = Inr (v_med v) \<and>
     bp_is_internal (rt_proto r) = v_internal v \<and>
     (if cf_igp_metric (rt_cf r) then rt_igp_metric r else 0) = v_igp v \<and>
     rt_data r BA_ORIGINATOR_ID (bp_remote_id (rt_proto r)) = Inr (v_id v) \<and>
     rt_cluster_len r = Inr (v_clen v) \<and> cf_remote_ip (rt_cf r) = v_ip v \<and>
     cf_compare_path_lengths (rt_cf r) = v_cmp_len v \<and> cf_med_metric (rt_cf r) = v_cmp_med v \<and>
     cf_prefer_older (rt_cf r) = v_older v"

text \<open>A sequence of criteria: each says whether the first or the second route wins by it.\<close>

fun decide :: "(bool \<times> bool) list \<Rightarrow> bool" where
  "decide [] = False"
| "decide ((b, w) # cs) = (if b then True else if w then False else decide cs)"

definition criteria :: "u32 ip_ops \<Rightarrow> bview \<Rightarrow> bview \<Rightarrow> (bool \<times> bool) list" where
  "criteria I n d =
     (let len = v_cmp_len n \<or> v_cmp_len d;
          med = v_cmp_med n \<or> v_cmp_med d \<or> v_neighbor n = v_neighbor d;
          older = (v_older n \<or> v_older d) \<and> \<not> v_internal n \<and> \<not> v_internal d \<and> v_id n \<noteq> v_id d in
      [(\<not> v_suppressed n \<and> v_suppressed d, v_suppressed n \<and> \<not> v_suppressed d),
       (v_resolvable n \<and> \<not> v_resolvable d, \<not> v_resolvable n \<and> v_resolvable d),
       (v_lpref d < v_lpref n, v_lpref n < v_lpref d),
       (len \<and> v_plen n < v_plen d, len \<and> v_plen d < v_plen n),
       (v_origin n < v_origin d, v_origin d < v_origin n),
       (med \<and> v_med n < v_med d, med \<and> v_med d < v_med n),
       (\<not> v_internal n \<and> v_internal d, v_internal n \<and> \<not> v_internal d),
       (v_igp n < v_igp d, v_igp d < v_igp n),
       (False, older),
       (v_id n < v_id d, v_id d < v_id n),
       (v_clen n < v_clen d, v_clen d < v_clen n),
       (ipa_compare I (v_ip n) (v_ip d) < 0, False)])"

definition view_better :: "u32 ip_ops \<Rightarrow> bview \<Rightarrow> bview \<Rightarrow> bool" where
  "view_better I n d = decide (criteria I n d)"

lemma better_tail_view:
  assumes "has_view U n v" "has_view U d w"
  shows "better_tail I n d = Inr (decide (drop 6 (criteria I v w)))"
  using assms
  by (cases "v_internal v"; cases "v_internal w")
    (simp_all add: better_tail_def has_view_def criteria_def Let_def)

lemma better_med_view:
  assumes "has_view U n v" "has_view U d w"
  shows "better_med U I n d = Inr (decide (drop 5 (criteria I v w)))"
  using assms better_tail_view [OF assms, of I]
  by (simp add: better_med_def has_view_def criteria_def Let_def)

lemma better_origin_view:
  assumes "has_view U n v" "has_view U d w"
  shows "better_origin U I n d = Inr (decide (drop 4 (criteria I v w)))"
  using assms better_med_view [OF assms, of I]
  by (simp add: better_origin_def has_view_def criteria_def Let_def)

lemma better_view:
  assumes "has_view U n v" "has_view U d w"
  shows "bgp_rte_better U I n d = Inr (view_better I v w)"
  using assms better_origin_view [OF assms, of I]
  by (simp add: bgp_rte_better_def view_better_def has_view_def criteria_def Let_def)

section \<open>The order of routes\<close>

text \<open>
  If every criterion but the last is antisymmetric, and the last cannot hold both ways, the
  decision is asymmetric.
\<close>

definition opposite :: "bool \<times> bool \<Rightarrow> bool \<times> bool \<Rightarrow> bool" where
  "opposite c d \<longleftrightarrow> (fst c \<longrightarrow> \<not> fst d \<and> snd d) \<and> (\<not> fst c \<and> \<not> snd c \<longrightarrow> \<not> fst d \<and> \<not> snd d)"

lemma decide_asym:
  "list_all2 opposite xs ys \<Longrightarrow> \<not> (b \<and> b') \<Longrightarrow>
   decide (xs @ [(b, False)]) \<Longrightarrow> \<not> decide (ys @ [(b', False)])"
proof (induction xs ys rule: list_all2_induct)
  case (Cons c xs d ys)
  then show ?case by (cases c; cases d) (auto simp: opposite_def split: if_splits)
qed auto

lemma criteria_last:
  "criteria I v w = take 11 (criteria I v w) @ [(ipa_compare I (v_ip v) (v_ip w) < 0, False)]"
  by (simp add: criteria_def Let_def)

lemma criteria_opposite: "list_all2 opposite (take 11 (criteria I v w)) (take 11 (criteria I w v))"
  by (simp add: criteria_def Let_def opposite_def) auto

lemma view_better_asym:
  assumes "ip_address I" "view_better I v w"
  shows "\<not> view_better I w v"
proof -
  have "\<not> (ipa_compare I (v_ip v) (v_ip w) < 0 \<and> ipa_compare I (v_ip w) (v_ip v) < 0)"
    using ip_address.compare_swap [OF assms(1), of "v_ip v" "v_ip w"] by simp
  from decide_asym [OF criteria_opposite [of I v w] this] assms(2) show ?thesis
    unfolding view_better_def by (subst (asm) criteria_last, subst criteria_last) simp
qed

text \<open>
  Routes that are compared by the same criteria: the same use of path lengths, no preference
  for older routes, and MEDs compared always, or the same neighboring AS.
\<close>

definition uniform :: "bview \<Rightarrow> bview \<Rightarrow> bool" where
  "uniform v w \<longleftrightarrow> v_cmp_len v = v_cmp_len w \<and> \<not> v_older v \<and> \<not> v_older w \<and>
     v_cmp_med v = v_cmp_med w \<and> (v_cmp_med v \<or> v_neighbor v = v_neighbor w)"

definition view_key :: "bview \<Rightarrow> nat list" where
  "view_key v =
     [if v_suppressed v then 1 else 0, if v_resolvable v then 0 else 1, 2 ^ 32 - unat (v_lpref v),
      if v_cmp_len v then v_plen v else 0, unat (v_origin v), unat (v_med v),
      if v_internal v then 1 else 0, unat (v_igp v), unat (v_id v), v_clen v]"

definition key_less :: "u32 ip_ops \<Rightarrow> bview \<Rightarrow> bview \<Rightarrow> bool" where
  "key_less I v w \<longleftrightarrow> view_key v < view_key w \<or>
     view_key v = view_key w \<and> ipa_compare I (v_ip v) (v_ip w) < 0"

lemma decide_key:
  "b \<longleftrightarrow> k < m \<Longrightarrow> w \<longleftrightarrow> m < (k :: nat) \<Longrightarrow> decide cs \<longleftrightarrow> x < y \<or> x = y \<and> t \<Longrightarrow>
   decide ((b, w) # cs) \<longleftrightarrow> k # x < m # y \<or> k # x = m # y \<and> t"
  by (auto simp: less_list_code)

lemma decide_skip: "decide cs \<longleftrightarrow> P \<Longrightarrow> decide ((False, False) # cs) \<longleftrightarrow> P"
  by simp

lemma lpref_key: "x < y \<longleftrightarrow> 2 ^ 32 - unat y < 2 ^ 32 - unat x" for x y :: u32
  using unsigned_less [of x, where 'a = nat] unsigned_less [of y, where 'a = nat]
  unfolding word_less_nat_alt by simp linarith

lemma decide_last: "decide [(b, False)] \<longleftrightarrow> ([] :: nat list) < [] \<or> [] = ([] :: nat list) \<and> b"
  by simp

lemma uniform_better:
  assumes "uniform v w"
  shows "view_better I v w \<longleftrightarrow> key_less I v w"
proof -
  have older: "((v_older v \<or> v_older w) \<and> \<not> v_internal v \<and> \<not> v_internal w \<and> v_id v \<noteq> v_id w) = False"
    using assms by (simp add: uniform_def)
  have same: "v_cmp_len v = v_cmp_len w" "v_cmp_med v = v_cmp_med w"
    "v_cmp_med w \<or> v_neighbor v = v_neighbor w"
    using assms by (auto simp: uniform_def)
  show ?thesis
    unfolding view_better_def criteria_def key_less_def view_key_def Let_def older
    by (intro decide_skip decide_key decide_last)
      (use same in \<open>auto simp add: word_less_nat_alt [symmetric] lpref_key [symmetric]
         simp del: power_numeral\<close>)
qed

lemma key_less_trans:
  assumes "\<And>a b c. ipa_compare I a b < 0 \<Longrightarrow> ipa_compare I b c < 0 \<Longrightarrow> ipa_compare I a c < 0"
    "key_less I u v" "key_less I v w"
  shows "key_less I u w"
  using assms unfolding key_less_def by (metis less_trans)

section \<open>Properties of the comparison\<close>

text \<open>Three routes, to apply the properties to: two learned from AS 1, one from AS 2.\<close>

definition sample_route :: "u8 \<Rightarrow> u32 \<Rightarrow> u32 \<Rightarrow> u32 \<Rightarrow> rte" where
  "sample_route as med igp rid =
     \<lparr>rt_pref = 100, rt_valid = True, rt_suppressed = False, rt_dest = RTD_ROUTER,
      rt_igp_metric = igp,
      rt_eattrs = [\<lparr>eal_flags = 0, eal_attrs =
        [\<lparr>ea_id = EA_CODE EAP_BGP BA_AS_PATH, ea_flags = BAF_TRANSITIVE, ea_type = EAF_TYPE_AS_PATH,
          ea_u = Ptr [2, 1, 0, 0, 0, as]\<rparr>,
         \<lparr>ea_id = EA_CODE EAP_BGP BA_MULTI_EXIT_DISC, ea_flags = BAF_OPTIONAL, ea_type = EAF_TYPE_INT,
          ea_u = Data med\<rparr>]\<rparr>],
      rt_proto = sample_proto\<lparr>bp_remote_as := ucast as, bp_remote_id := rid\<rparr>\<rparr>"

definition sample_view :: "u8 \<Rightarrow> u32 \<Rightarrow> u32 \<Rightarrow> u32 \<Rightarrow> bview" where
  "sample_view as med igp rid =
     \<lparr>v_suppressed = False, v_resolvable = True, v_lpref = 100, v_plen = 1, v_origin = 2,
      v_neighbor = ucast as, v_med = med, v_internal = False, v_igp = igp, v_id = rid, v_clen = 0,
      v_ip = 0x0a000001, v_cmp_len = True, v_cmp_med = False, v_older = False\<rparr>"

lemma sample_codes:
  "EA_CODE EAP_BGP BA_AS_PATH = 0x102" "EA_CODE EAP_BGP BA_MULTI_EXIT_DISC = 0x104"
  "EA_CODE EAP_BGP BA_LOCAL_PREF = 0x105" "EA_CODE EAP_BGP BA_ORIGIN = 0x101"
  "EA_CODE EAP_BGP BA_ORIGINATOR_ID = 0x109" "EA_CODE EAP_BGP BA_CLUSTER_LIST = 0x10a"
  by (simp_all add: EA_CODE_def EAP_BGP_def BA_AS_PATH_def BA_MULTI_EXIT_DISC_def BA_LOCAL_PREF_def
    BA_ORIGIN_def BA_ORIGINATOR_ID_def BA_CLUSTER_LIST_def)

lemma sample_find:
  fixes as :: u8 and med igp rid :: u32
  defines "e \<equiv> rt_eattrs (sample_route as med igp rid)"
  shows "ea_find_bgp e BA_AS_PATH = Some \<lparr>ea_id = 0x102, ea_flags = BAF_TRANSITIVE,
      ea_type = EAF_TYPE_AS_PATH, ea_u = Ptr [2, 1, 0, 0, 0, as]\<rparr>"
    "ea_find_bgp e BA_MULTI_EXIT_DISC = Some \<lparr>ea_id = 0x104, ea_flags = BAF_OPTIONAL,
      ea_type = EAF_TYPE_INT, ea_u = Data med\<rparr>"
    "ea_find_bgp e BA_LOCAL_PREF = None" "ea_find_bgp e BA_ORIGIN = None"
    "ea_find_bgp e BA_ORIGINATOR_ID = None" "ea_find_bgp e BA_CLUSTER_LIST = None"
  unfolding e_def
  by (simp_all add: sample_route_def ea_find_bgp_def ea_find_def sample_codes is_undef_def
    EA_CODE_MASK_def EAF_TYPE_AS_PATH_def EAF_TYPE_INT_def EAF_TYPE_MASK_def EAF_TYPE_UNDEF_def EALF_BISECT_def bisect_def)

lemma sample_has_view: "has_view network_order (sample_route as med igp rid) (sample_view as med igp rid)"
  unfolding has_view_def rt_data_def rt_path_len_def bgp_get_neighbor_def rt_cluster_len_def sample_find
  by (simp add: sample_view_def u_ptr_def u_data_def sample_route_def rt_cf_def sample_proto_def
    sample_cf_def RTD_ROUTER_def rte_resolvable_def ORIGIN_INCOMPLETE_def as_path_getlen_def
    AS_PATH_SET_def AS_PATH_SEQUENCE_def BS_def rd_u32_def network_order_def be_value_def)

text \<open>The comparison is asymmetric: when \<open>bgp_rte_better\<close> prefers \<open>n\<close> to \<open>d\<close>, it does not prefer
  \<open>d\<close> to \<open>n\<close>, whatever the configurations of the two protocols are.\<close>

theorem bgp_rte_better_asym:
  assumes "ip_address I" "has_view U n v" "has_view U d w" "bgp_rte_better U I n d = Inr True"
  shows "bgp_rte_better U I d n = Inr False"
  using assms view_better_asym [OF assms(1), of v w] better_view [OF assms(2,3), of I]
    better_view [OF assms(3,2), of I] by simp

theorem bgp_rte_better_asym_witness:
  "bgp_rte_better network_order ip4_ops (sample_route 1 5 30 2) (sample_route 1 10 10 1) = Inr True \<and>
   bgp_rte_better network_order ip4_ops (sample_route 1 10 10 1) (sample_route 1 5 30 2) = Inr False"
proof -
  have b: "bgp_rte_better network_order ip4_ops (sample_route 1 5 30 2) (sample_route 1 10 10 1) = Inr True"
    by (subst better_view [OF sample_has_view sample_has_view])
      (simp add: view_better_def criteria_def Let_def sample_view_def)
  from bgp_rte_better_asym [OF ip4.ip_address_axioms sample_has_view sample_has_view b] b
  show ?thesis by simp
qed

text \<open>C35. Routes that are compared by the same criteria (the same use of path lengths, no preference
  for the older route, MEDs compared between any two of them) are ordered lexicographically, by
  the keys that \<open>view_key\<close> lists: the comparison is a strict order, and transitive.\<close>

theorem bgp_rte_better_lexicographic:
  assumes "has_view U n v" "has_view U d w" "uniform v w"
  shows "bgp_rte_better U I n d = Inr (key_less I v w)"
  using better_view [OF assms(1,2), of I] uniform_better [OF assms(3)] by simp

theorem bgp_rte_better_lexicographic_witness:
  "bgp_rte_better network_order ip4_ops (sample_route 1 5 30 2) (sample_route 1 10 10 1) =
     Inr (key_less ip4_ops (sample_view 1 5 30 2) (sample_view 1 10 10 1))"
  by (rule bgp_rte_better_lexicographic [OF sample_has_view sample_has_view])
    (simp add: uniform_def sample_view_def)

text \<open>Without deterministic MED the preference can be a cycle, as the comment in the code says: MEDs are
  compared only between routes from the same neighboring AS.\<close>

theorem bgp_rte_better_med_cycle:
  "\<exists>a b c. bgp_rte_better network_order ip4_ops a b = Inr True \<and>
     bgp_rte_better network_order ip4_ops b c = Inr True \<and>
     bgp_rte_better network_order ip4_ops c a = Inr True"
proof -
  let ?a = "sample_route 1 5 30 1" and ?b = "sample_route 1 10 10 2" and ?c = "sample_route 2 0 20 3"
  have "bgp_rte_better network_order ip4_ops ?a ?b = Inr True \<and>
     bgp_rte_better network_order ip4_ops ?b ?c = Inr True \<and>
     bgp_rte_better network_order ip4_ops ?c ?a = Inr True"
    by (simp add: better_view [OF sample_has_view sample_has_view] view_better_def criteria_def
      Let_def sample_view_def)
  then show ?thesis by blast
qed

section \<open>The groups of deterministic MED\<close>

definition in_group :: "unaligned \<Rightarrow> u16 \<Rightarrow> u32 \<Rightarrow> rte \<Rightarrow> bool" where
  "in_group U lpref lasn r \<longleftrightarrow>
     rt_valid r \<and> use_deterministic_med r \<and> same_group U r lpref lasn = Inr True"

definition group_best :: "unaligned \<Rightarrow> u16 \<Rightarrow> u32 \<Rightarrow> rte list \<Rightarrow> rte list" where
  "group_best U lpref lasn = filter (\<lambda>r. in_group U lpref lasn r \<and> \<not> rt_suppressed r)"

text \<open>A group that has routes has exactly one that is not suppressed.\<close>

definition one_best :: "unaligned \<Rightarrow> u16 \<Rightarrow> u32 \<Rightarrow> rte list \<Rightarrow> bool" where
  "one_best U lpref lasn rs \<longleftrightarrow>
     length (group_best U lpref lasn rs) = (if \<exists>r \<in> set rs. in_group U lpref lasn r then 1 else 0)"

definition opt_list :: "'a option \<Rightarrow> 'a list" where
  "opt_list x = (case x of None \<Rightarrow> [] | Some y \<Rightarrow> [y])"

lemma opt_list_simps [simp]: "opt_list None = []" "opt_list (Some y) = [y]"
  by (simp_all add: opt_list_def)

text \<open>The routes of a network are sorted by validity: the invalid ones come last.\<close>

definition valid_first :: "rte list \<Rightarrow> bool" where
  "valid_first rs \<longleftrightarrow> (\<forall>r \<in> set (dropWhile rt_valid rs). \<not> rt_valid r)"

definition suppress :: "unaligned \<Rightarrow> u16 \<Rightarrow> u32 \<Rightarrow> rte \<Rightarrow> rte" where
  "suppress U lpref lasn r = (if in_group U lpref lasn r then r\<lparr>rt_suppressed := True\<rparr> else r)"

lemma rt_data_suppressed [simp]: "rt_data (r\<lparr>rt_suppressed := b\<rparr>) c d = rt_data r c d"
  by (simp add: rt_data_def)

lemma bgp_get_neighbor_suppressed [simp]:
  "bgp_get_neighbor U (r\<lparr>rt_suppressed := b\<rparr>) = bgp_get_neighbor U r"
  by (simp add: bgp_get_neighbor_def cong: option.case_cong)

lemma in_group_suppressed [simp]:
  "in_group U lpref lasn (r\<lparr>rt_suppressed := b\<rparr>) = in_group U lpref lasn r"
  by (simp add: in_group_def same_group_def use_deterministic_med_def rt_cf_def)

lemma in_group_suppress [simp]:
  "in_group U lpref lasn (suppress U lpref lasn r) = in_group U lpref lasn r"
  by (simp add: suppress_def)

lemma group_best_suppress: "group_best U lpref lasn (map (suppress U lpref lasn) rs) = []"
  by (induction rs) (auto simp: group_best_def suppress_def)

lemma group_best_append [simp]:
  "group_best U lpref lasn (xs @ ys) = group_best U lpref lasn xs @ group_best U lpref lasn ys"
  by (simp add: group_best_def)

lemma group_best_Cons [simp]:
  "group_best U lpref lasn (x # xs) =
     (if in_group U lpref lasn x \<and> \<not> rt_suppressed x then [x] else []) @ group_best U lpref lasn xs"
  by (simp add: group_best_def)

lemma group_best_Nil [simp]: "group_best U lpref lasn [] = []"
  by (simp add: group_best_def)

lemma group_best_none:
  "\<forall>r \<in> set rs. \<not> in_group U lpref lasn r \<Longrightarrow> group_best U lpref lasn rs = []"
  by (simp add: group_best_def filter_empty_conv)

lemma group_best_some:
  "length (group_best U lpref lasn rs) = Suc n \<Longrightarrow> \<exists>r \<in> set rs. in_group U lpref lasn r"
  using group_best_none by fastforce

lemma suppress_invalid:
  "\<forall>r \<in> set rs. \<not> rt_valid r \<Longrightarrow> map (suppress U lpref lasn) rs = rs"
  by (induction rs) (auto simp: suppress_def in_group_def)

lemma group_walk_spec:
  assumes "group_walk U I lpref lasn rs i best = Inr (rs', best')" "valid_first rs"
  shows "rs' = map (suppress U lpref lasn) rs \<and>
    (best' = best \<or> (\<exists>j < length rs. best' = Some (Some (i + j), rs' ! j) \<and>
                        in_group U lpref lasn (rs ! j))) \<and>
    (best' = None \<longrightarrow> (\<forall>r \<in> set rs. \<not> in_group U lpref lasn r))"
  using assms
proof (induction rs arbitrary: i best rs' best')
  case (Cons s rs)
  show ?case
  proof (cases "rt_valid s")
    case False
    with Cons.prems have "\<forall>r \<in> set (s # rs). \<not> rt_valid r" "rs' = s # rs" "best' = best"
      by (auto simp: valid_first_def)
    then show ?thesis using suppress_invalid [of "s # rs"] by (auto simp: in_group_def)
  next
    case True
    then have vf: "valid_first rs" using Cons.prems(2) by (simp add: valid_first_def)
    from Cons.prems(1) True obtain g where
      g: "(if use_deterministic_med s then same_group U s lpref lasn else Inr False) = Inr g"
      by (cases "if use_deterministic_med s then same_group U s lpref lasn else Inr False") auto
    then have ig: "in_group U lpref lasn s = g"
      using True by (auto simp: in_group_def split: if_splits)
    obtain best1 rs1 where w: "group_walk U I lpref lasn rs (Suc i) best1 = Inr (rs1, best')"
      and rs': "rs' = suppress U lpref lasn s # rs1"
      and b1: "best1 = best \<or> g \<and> best1 = Some (Some i, s\<lparr>rt_suppressed := True\<rparr>)"
      and b2: "best1 = None \<longrightarrow> \<not> g"
    proof (cases g)
      case False
      with Cons.prems(1) True g ig that [of best] show thesis
        by (auto simp: suppress_def fault_simps)
    next
      case g': True
      from Cons.prems(1) True g g' obtain b where
        "(case best of None \<Rightarrow> Inr True
          | Some (_, r) \<Rightarrow> bgp_rte_better U I (s\<lparr>rt_suppressed := True\<rparr>) r) = Inr b"
        by (cases "case best of None \<Rightarrow> Inr True
             | Some (_, r) \<Rightarrow> bgp_rte_better U I (s\<lparr>rt_suppressed := True\<rparr>) r") auto
      with Cons.prems(1) True g ig g'
        that [of "if b then Some (Some i, s\<lparr>rt_suppressed := True\<rparr>) else best"] show thesis
        by (cases b) (auto simp: suppress_def fault_simps Let_def split: option.splits)
    qed
    note IH = Cons.IH [OF w vf]
    show ?thesis
    proof (intro conjI)
      show "rs' = map (suppress U lpref lasn) (s # rs)" using IH rs' by simp
      show "best' = None \<longrightarrow> (\<forall>r \<in> set (s # rs). \<not> in_group U lpref lasn r)"
        using IH b2 ig by auto
      show "best' = best \<or> (\<exists>j < length (s # rs). best' = Some (Some (i + j), rs' ! j) \<and>
              in_group U lpref lasn ((s # rs) ! j))"
      proof (cases "best' = best1")
        case True
        with b1 ig rs' show ?thesis by (auto intro!: exI [of _ 0] simp: suppress_def)
      next
        case False
        with IH obtain j where "j < length rs" "best' = Some (Some (Suc i + j), rs1 ! j)"
          "in_group U lpref lasn (rs ! j)" by blast
        then show ?thesis using rs' by (intro disjI2 exI [of _ "Suc j"]) simp
      qed
    qed
  qed
qed (simp add: valid_first_def)

lemma group_best_update:
  assumes "j < length rs" "in_group U lpref lasn (rs ! j)"
  shows "length (group_best U lpref lasn
           ((map (suppress U lpref lasn) rs)[j := (map (suppress U lpref lasn) rs ! j)\<lparr>rt_suppressed := False\<rparr>])) = 1"
proof -
  have "rs = take j rs @ rs ! j # drop (Suc j) rs"
    using assms(1) by (simp add: id_take_nth_drop)
  then have "(map (suppress U lpref lasn) rs)[j := (map (suppress U lpref lasn) rs ! j)\<lparr>rt_suppressed := False\<rparr>] =
      map (suppress U lpref lasn) (take j rs) @
      (suppress U lpref lasn (rs ! j))\<lparr>rt_suppressed := False\<rparr> #
      map (suppress U lpref lasn) (drop (Suc j) rs)"
    using assms(1) by (simp add: upd_conv_take_nth_drop take_map drop_map)
  then show ?thesis using assms(2) by (simp add: group_best_suppress)
qed

lemma walk_best:
  assumes w: "group_walk U I lpref lasn routes 0 (map_option (\<lambda>n. (None, n)) new1) = Inr (rs, best)"
    and vf: "valid_first routes"
    and new: "\<forall>n \<in> set (opt_list new1). in_group U lpref lasn n \<and> rt_suppressed n"
    and res: "case best of None \<Rightarrow> rs' = rs \<and> new' = new1
      | Some (None, r) \<Rightarrow> rs' = rs \<and> new' = Some (r\<lparr>rt_suppressed := False\<rparr>)
      | Some (Some i, r) \<Rightarrow> rs' = rs[i := r\<lparr>rt_suppressed := False\<rparr>] \<and> new' = new1"
  shows "one_best U lpref lasn (opt_list new' @ rs')"
proof -
  let ?m = "map (suppress U lpref lasn) routes"
  note spec = group_walk_spec [OF w vf]
  consider (none) "best = None" "new1 = None" | (new) n where "new1 = Some n" "best = Some (None, n)"
    | (old) j where "j < length routes" "best = Some (Some j, rs ! j)" "in_group U lpref lasn (routes ! j)"
    using spec by (cases new1; cases best) auto
  then show ?thesis
  proof cases
    case none
    then show ?thesis using spec res by (auto simp: one_best_def group_best_suppress)
  next
    case new
    then show ?thesis using spec res assms(3) by (auto simp: one_best_def group_best_suppress)
  next
    case old
    let ?rs = "?m[j := (?m ! j)\<lparr>rt_suppressed := False\<rparr>]"
    have "in_group U lpref lasn (?rs ! j)" using old by simp
    then have "\<exists>r \<in> set ?rs. in_group U lpref lasn r"
      using old(1) by (metis length_list_update length_map nth_mem)
    moreover have "length (group_best U lpref lasn (opt_list new1)) = 0"
      using assms(3) by (cases new1) auto
    ultimately show ?thesis
      using old spec res group_best_update [OF old(1,3)] by (auto simp: one_best_def)
  qed
qed

lemma recalculate_one_cases:
  assumes r: "recalculate_one U I routes new old old_best lpref lasn = Inr (b, rs, new')"
  obtains (keep) d where "old = Some d" "rt_suppressed d" "rs = routes"
      "new' = map_option (rt_suppressed_update (\<lambda>_. True)) new"
    | (new) n d where "new = Some n" "old = Some d" "\<not> rt_suppressed d" "rs = routes"
      "new' = Some (n\<lparr>rt_suppressed := False\<rparr>)"
    | (walk) new1 rs1 best where "new1 = map_option (rt_suppressed_update (\<lambda>_. True)) new"
      "group_walk U I lpref lasn routes 0 (map_option (\<lambda>n. (None, n)) new1) = Inr (rs1, best)"
      "case best of None \<Rightarrow> rs = rs1 \<and> new' = new1
       | Some (None, r) \<Rightarrow> rs = rs1 \<and> new' = Some (r\<lparr>rt_suppressed := False\<rparr>)
       | Some (Some i, r) \<Rightarrow> rs = rs1[i := r\<lparr>rt_suppressed := False\<rparr>] \<and> new' = new1"
proof -
  let ?new1 = "map_option (rt_suppressed_update (\<lambda>_. True)) new"
  let ?obg = "case old of None \<Rightarrow> False | Some r \<Rightarrow> \<not> rt_suppressed r"
  from r obtain better where
    bt: "(case (?new1, old) of (Some n, Some r) \<Rightarrow> bgp_rte_better U I n (r\<lparr>rt_suppressed := True\<rparr>)
          | _ \<Rightarrow> Inr False) = Inr better"
    unfolding recalculate_one_def Let_def rbind_Inr_iff by blast
  note r' = r [unfolded recalculate_one_def Let_def bt rbind_simps]
  consider (1) "old \<noteq> None" "\<not> ?obg" "\<not> better" | (2) "?obg" "better"
    | (3) "\<not> (old \<noteq> None \<and> \<not> ?obg \<and> \<not> better)" "\<not> (?obg \<and> better)" by blast
  then show thesis
  proof cases
    case 1
    with r' keep show thesis by auto
  next
    case 2
    with bt obtain n d where "new = Some n" "old = Some d" "\<not> rt_suppressed d"
      by (cases new; cases old) auto
    with 2 r' new show thesis by simp
  next
    case 3
    with r' obtain rs1 best where
      w: "group_walk U I lpref lasn routes 0 (map_option (\<lambda>n. (None, n)) ?new1) = Inr (rs1, best)"
      by (auto simp only: if_False rbind_Inr_iff split_paired_Ex)
    then show thesis
      using r' 3 walk [OF refl w] by (auto simp: fault_simps split: option.splits prod.splits)
  qed
qed

lemma recalculate_one_best:
  assumes r: "recalculate_one U I routes new old old_best lpref lasn = Inr (b, rs, new')"
    and vf: "valid_first routes"
    and new: "\<forall>n \<in> set (opt_list new). in_group U lpref lasn n"
    and old: "\<forall>d \<in> set (opt_list old). in_group U lpref lasn d"
    and inv: "one_best U lpref lasn (opt_list old @ routes)"
  shows "one_best U lpref lasn (opt_list new' @ rs)"
  using r
proof (cases rule: recalculate_one_cases)
  case keep
  with inv old new show ?thesis
    by (cases new) (auto simp: one_best_def group_best_none dest: group_best_some split: if_splits)
next
  case new
  with inv old assms(3) show ?thesis by (auto simp: one_best_def group_best_none split: if_splits)
next
  case (walk new1 rs1 best)
  have "\<forall>n \<in> set (opt_list new1). in_group U lpref lasn n \<and> rt_suppressed n"
    using walk(1) new by (cases new) auto
  then show ?thesis using walk by (intro walk_best [OF walk(2) vf])
qed

text \<open>The other groups do not change.\<close>

definition regrouped :: "unaligned \<Rightarrow> u16 \<Rightarrow> u32 \<Rightarrow> rte list \<Rightarrow> rte list \<Rightarrow> bool" where
  "regrouped U lpref lasn =
     list_all2 (\<lambda>r r'. r' = r \<or> in_group U lpref lasn r \<and> (\<exists>b. r' = r\<lparr>rt_suppressed := b\<rparr>))"

lemma regrouped_refl [simp]: "regrouped U lpref lasn rs rs"
  by (simp add: regrouped_def list.rel_refl)

lemma regrouped_suppress [simp]: "regrouped U lpref lasn rs (map (suppress U lpref lasn) rs)"
  by (auto simp: regrouped_def suppress_def list_all2_conv_all_nth)

lemma regrouped_update:
  assumes "in_group U lpref lasn (rs ! j)" "j < length rs"
  shows "regrouped U lpref lasn rs
    ((map (suppress U lpref lasn) rs)[j := (map (suppress U lpref lasn) rs ! j)\<lparr>rt_suppressed := b\<rparr>])"
proof -
  have "\<exists>b'. (suppress U lpref lasn r)\<lparr>rt_suppressed := b\<rparr> = r\<lparr>rt_suppressed := b'\<rparr>" for r
    by (auto simp: suppress_def)
  then show ?thesis
    using assms by (auto simp: regrouped_def suppress_def list_all2_conv_all_nth nth_list_update)
qed

lemma regrouped_valid_first: "regrouped U lpref lasn rs rs' \<Longrightarrow> valid_first rs' = valid_first rs"
proof -
  have "valid_first xs' = valid_first xs \<and> (list_all rt_valid xs' = list_all rt_valid xs) \<and>
      list_all (\<lambda>r. \<not> rt_valid r) xs' = list_all (\<lambda>r. \<not> rt_valid r) xs"
    if "list_all2 (\<lambda>r r'. rt_valid r' = rt_valid r) xs xs'" for xs xs'
    using that by (induction rule: list_all2_induct) (auto simp: valid_first_def list_all_iff)
  moreover assume "regrouped U lpref lasn rs rs'"
  then have "list_all2 (\<lambda>r r'. rt_valid r' = rt_valid r) rs rs'"
    unfolding regrouped_def by (rule list_all2_mono) auto
  ultimately show ?thesis by blast
qed

lemma in_group_unique:
  "in_group U p a r \<Longrightarrow> in_group U p' a' r \<Longrightarrow> p' = p \<and> a' = a"
  by (auto simp: in_group_def same_group_def fault_simps split: if_splits)

lemma regrouped_other:
  assumes "regrouped U lpref lasn rs rs'" "(p, a) \<noteq> (lpref, lasn)"
  shows "one_best U p a rs' = one_best U p a rs"
proof -
  have "group_best U p a rs' = group_best U p a rs \<and>
      ((\<exists>r \<in> set rs'. in_group U p a r) \<longleftrightarrow> (\<exists>r \<in> set rs. in_group U p a r))"
    using assms(1) unfolding regrouped_def
  proof (induction rule: list_all2_induct)
    case (Cons x xs y ys)
    have "\<not> in_group U p a x" if "in_group U lpref lasn x"
      using in_group_unique [OF that] assms(2) by auto
    with Cons show ?case by auto
  qed simp
  then show ?thesis by (simp add: one_best_def)
qed

lemma recalculate_one_regrouped:
  assumes r: "recalculate_one U I routes new old old_best lpref lasn = Inr (b, rs, new')"
    and vf: "valid_first routes"
  shows "regrouped U lpref lasn routes rs \<and>
    list_all2 (\<lambda>n n'. \<exists>b. n' = n\<lparr>rt_suppressed := b\<rparr>) (opt_list new) (opt_list new')"
  using r
proof (cases rule: recalculate_one_cases)
  case keep
  then show ?thesis by (cases new) auto
next
  case new
  then show ?thesis by auto
next
  case (walk new1 rs1 best)
  note spec = group_walk_spec [OF walk(2) vf]
  have up: "list_all2 (\<lambda>n n'. \<exists>b. n' = n\<lparr>rt_suppressed := b\<rparr>) (opt_list new) (opt_list new1)"
    using walk(1) by (cases new) auto
  consider "best = None" | n where "new = Some n" "new1 = Some (n\<lparr>rt_suppressed := True\<rparr>)"
        "best = Some (None, n\<lparr>rt_suppressed := True\<rparr>)"
    | j where "j < length routes" "best = Some (Some j, rs1 ! j)" "in_group U lpref lasn (routes ! j)"
    using spec walk(1) by (cases new; cases best) auto
  then show ?thesis
    using spec walk(3) up regrouped_update [where rs = routes] by cases auto
qed

lemma recalculate_one_all:
  assumes r: "recalculate_one U I routes new old old_best lpref lasn = Inr (b, rs, new')"
    and vf: "valid_first routes"
    and new: "\<forall>n \<in> set (opt_list new). in_group U lpref lasn n"
    and old: "\<forall>d \<in> set (opt_list old). in_group U lpref lasn d"
    and inv: "\<forall>p a. one_best U p a (opt_list old @ routes)"
  shows "\<forall>p a. one_best U p a (opt_list new' @ rs)"
proof (intro allI)
  fix p a
  show "one_best U p a (opt_list new' @ rs)"
  proof (cases "(p, a) = (lpref, lasn)")
    case True
    then show ?thesis using recalculate_one_best [OF r vf new old] inv by blast
  next
    case False
    note reg = recalculate_one_regrouped [OF r vf]
    have other: "one_best U p a (opt_list x @ xs) = one_best U p a xs"
      if "\<forall>n \<in> set (opt_list x). in_group U lpref lasn n" for x xs
    proof -
      have "\<forall>n \<in> set (opt_list x). \<not> in_group U p a n"
        using that False in_group_unique by blast
      then show ?thesis by (cases x) (simp_all add: one_best_def)
    qed
    have "\<forall>n \<in> set (opt_list new'). in_group U lpref lasn n"
      using reg new by (cases new; cases new') auto
    with other [of new' rs] regrouped_other [OF conjunct1 [OF reg] False] other [OF old, of routes] inv
    show ?thesis by auto
  qed
qed

lemma recalculate_cases:
  assumes "bgp_rte_recalculate U I routes new old old_best = Inr (b, rs, new')"
  obtains (removed) d lasn where "new = None" "old = Some d" "bgp_get_neighbor U d = Inr lasn"
      "recalculate_one U I routes None old old_best (rt_pref d) lasn = Inr (b, rs, new')"
    | (one) n lasn where "new = Some n" "bgp_get_neighbor U n = Inr lasn"
      "recalculate_one U I routes new old old_best (rt_pref n) lasn = Inr (b, rs, new')"
      "\<forall>d \<in> set (opt_list old). same_group U d (rt_pref n) lasn = Inr True"
    | (two) n lasn d oasn i1 routes1 x i2 where "new = Some n" "bgp_get_neighbor U n = Inr lasn"
      "old = Some d" "bgp_get_neighbor U d = Inr oasn"
      "recalculate_one U I routes None old old_best (rt_pref d) oasn = Inr (i1, routes1, x)"
      "recalculate_one U I routes1 new None old_best (rt_pref n) lasn = Inr (i2, rs, new')"
proof (cases new)
  case None
  with assms removed show thesis
    by (cases old) (auto simp: bgp_rte_recalculate_def fault_simps)
next
  case (Some n)
  show thesis
  proof (cases old)
    case None
    with one assms Some show thesis by (auto simp: bgp_rte_recalculate_def fault_simps)
  next
    case old: (Some d)
    with assms Some obtain lasn g where
      g: "bgp_get_neighbor U n = Inr lasn" "same_group U d (rt_pref n) lasn = Inr g"
      by (auto simp: bgp_rte_recalculate_def rbind_Inr_iff)
    show thesis
    proof (cases g)
      case True
      with one assms Some old g show thesis by (simp add: bgp_rte_recalculate_def)
    next
      case False
      with assms Some old g obtain oasn i1 routes1 x i2 where
        "bgp_get_neighbor U d = Inr oasn"
        "recalculate_one U I routes None old old_best (rt_pref d) oasn = Inr (i1, routes1, x)"
        "recalculate_one U I routes1 new None old_best (rt_pref n) lasn = Inr (i2, rs, new')"
        by (clarsimp simp: bgp_rte_recalculate_def rbind_Inr_iff rmap_Inr_iff)
      with two [OF Some g(1) old] show thesis by blast
    qed
  qed
qed


definition det_route :: "u8 \<Rightarrow> u32 \<Rightarrow> u32 \<Rightarrow> u32 \<Rightarrow> rte" where
  "det_route as med igp rid = (sample_route as med igp rid)
     \<lparr>rt_proto := sample_proto\<lparr>bp_cf := sample_cf\<lparr>cf_deterministic_med := True\<rparr>, bp_remote_as := ucast as\<rparr>\<rparr>"


end
