(* ===== verification/AsPathMatch.thy ===== *)
theory AsPathMatch
  imports AsPath
begin

text \<open>
  Matching of an AS path against a path mask, the second half of \<open>nest/a-path.c\<close>:
  \<open>as_path_match\<close> runs a nondeterministic automaton whose states are the positions of the
  path, kept as marks in the array \<open>pos\<close> of at most 2048 + 1 entries. The second part of
  the theory shows what language the automaton decides.
\<close>

section \<open>The algorithm\<close>

text \<open>
  Mask items (\<open>struct f_path_mask\<close>); the payload of \<open>PM_ASN_EXPR\<close> is an instruction of the
  filter language, which the filter resolves before it matches.
\<close>

datatype 'e pm_item =
    PM_ASN u64
  | PM_QUESTION
  | PM_ASTERISK
  | PM_ASN_EXPR 'e
  | PM_ASN_RANGE u64 u64

text \<open>The union of \<open>struct pm_pos\<close>: a pointer to the count byte of a set, or an AS number.\<close>

datatype pm_val = PmSp "u8 list" | PmAsn u32 | PmUnset

record pm_pos =
  pos_set :: bool
  pos_mark :: bool
  pos_val :: pm_val

fun parse_sequence :: "unaligned \<Rightarrow> nat \<Rightarrow> u8 list \<Rightarrow> (pm_pos list \<times> u8 list) res" where
  "parse_sequence U 0 p = Inr ([], p)"
| "parse_sequence U (Suc n) p =
     rbind (rd_u32 U p) (\<lambda>asn.
     rbind (parse_sequence U n (drop BS p)) (\<lambda>(pos, p').
       Inr (\<lparr>pos_set = False, pos_mark = False, pos_val = PmAsn asn\<rparr> # pos, p')))"

lemma parse_sequence_length:
  "parse_sequence U n p = Inr (pos, p') \<Longrightarrow> length p' \<le> length p"
  by (induction n arbitrary: p pos) (fastforce simp: rbind_Inr_iff)+

function parse_path :: "unaligned \<Rightarrow> u8 list \<Rightarrow> pm_pos list res" where
  "parse_path U [] = Inr []"
| "parse_path U [t] =
     (if t = AS_PATH_SET \<or> t = AS_PATH_SEQUENCE then Inl Out_of_bounds else Inl Bug)"
| "parse_path U (t # len # p) =
     (if t = AS_PATH_SET then
        rmap (\<lambda>pos. \<lparr>pos_set = True, pos_mark = False, pos_val = PmSp (len # p)\<rparr> # pos)
          (parse_path U (drop (BS * unat len) p))
      else if t = AS_PATH_SEQUENCE then
        rbind (parse_sequence U (unat len) p) (\<lambda>x. case x of (seq, p') \<Rightarrow>
          rmap (\<lambda>pos. seq @ pos) (parse_path U p'))
      else Inl Bug)"
  by pat_completeness auto
termination
  by (relation "measure (\<lambda>(U, p). length p)") (auto dest!: parse_sequence_length)

fun pm_match_asns :: "unaligned \<Rightarrow> u32 \<Rightarrow> u32 \<Rightarrow> nat \<Rightarrow> u8 list \<Rightarrow> bool res" where
  "pm_match_asns U asn asn2 0 p = Inr False"
| "pm_match_asns U asn asn2 (Suc n) p =
     rbind (rd_u32 U p) (\<lambda>gas.
       if gas \<ge> asn \<and> gas \<le> asn2 then Inr True else pm_match_asns U asn asn2 n (drop BS p))"

definition pm_match :: "unaligned \<Rightarrow> pm_pos \<Rightarrow> u32 \<Rightarrow> u32 \<Rightarrow> bool res" where
  "pm_match U pos asn asn2 =
     (if \<not> pos_set pos then
        (case pos_val pos of PmAsn a \<Rightarrow> Inr (a \<ge> asn \<and> a \<le> asn2) | _ \<Rightarrow> Inl Uninitialised)
      else
        (case pos_val pos of
           PmSp (len # p) \<Rightarrow> pm_match_asns U asn asn2 (unat len) p
         | _ \<Rightarrow> Inl Out_of_bounds))"

definition put_mark :: "pm_pos list \<Rightarrow> nat \<Rightarrow> bool \<Rightarrow> pm_pos list" where
  "put_mark pos i b = pos[i := (pos ! i)\<lparr>pos_mark := b\<rparr>]"

text \<open>
  \<open>pm_mark\<close>: the loop that marks the run of sets from \<open>j\<close> on and the position after it,
  and the new bounds. \<open>nh\<close> is negative until the first mark is set.
\<close>

function pm_mark_run :: "pm_pos list \<Rightarrow> nat \<Rightarrow> nat \<Rightarrow> pm_pos list \<times> nat" where
  "pm_mark_run pos j plen =
     (if j < plen \<and> pos_set (pos ! j) \<and> \<not> pos_mark (pos ! j)
      then pm_mark_run (put_mark pos j True) (j + 1) plen
      else (put_mark pos j True, j))"
  by pat_completeness auto
termination
  by (relation "measure (\<lambda>(pos, j, plen). plen - j)") auto

declare pm_mark_run.simps [simp del]

definition pm_mark :: "pm_pos list \<Rightarrow> nat \<Rightarrow> nat \<Rightarrow> int \<Rightarrow> pm_pos list \<times> int \<times> int" where
  "pm_mark pos i plen nh =
     (let pos1 = (if pos_set (pos ! i) then put_mark pos i True else pos);
          (pos2, j) = pm_mark_run pos1 (i + 1) plen
      in (pos2, int i + (if pos_set (pos ! i) then 0 else 1), if nh < 0 then int j else nh))"

text \<open>
  The loop \<open>for (i = h; i >= l; i--)\<close> over the positions given, for one mask item;
  \<open>test\<close> is its condition on a marked position. It returns \<open>pos\<close>, \<open>nl\<close> and \<open>nh\<close>.
\<close>

fun pm_step ::
  "(pm_pos \<Rightarrow> bool res) \<Rightarrow> nat \<Rightarrow> nat list \<Rightarrow> pm_pos list \<Rightarrow> int \<Rightarrow> int \<Rightarrow> (pm_pos list \<times> int \<times> int) res"
where
  "pm_step test plen [] pos nl nh = Inr (pos, nl, nh)"
| "pm_step test plen (i # is) pos nl nh =
     (if pos_mark (pos ! i) then
        let pos1 = put_mark pos i False in
        rbind (test (pos1 ! i)) (\<lambda>m.
          if m then
            (case pm_mark pos1 i plen nh of (pos2, nl2, nh2) \<Rightarrow> pm_step test plen is pos2 nl2 nh2)
          else pm_step test plen is pos1 nl nh)
      else pm_step test plen is pos nl nh)"

definition pm_mark_all :: "pm_pos list \<Rightarrow> nat \<Rightarrow> nat \<Rightarrow> pm_pos list" where
  "pm_mark_all pos l plen = fold (\<lambda>i pos. put_mark pos i True) [l..<Suc plen] pos"

definition pm_test :: "unaligned \<Rightarrow> 'e pm_item \<Rightarrow> pm_pos \<Rightarrow> bool res" where
  "pm_test U m pos =
     (case m of
        PM_ASN v \<Rightarrow> pm_match U pos (ucast v) (ucast v)
      | PM_ASN_RANGE v v2 \<Rightarrow> pm_match U pos (ucast v) (ucast v2)
      | PM_QUESTION \<Rightarrow> Inr True
      | _ \<Rightarrow> Inl Assert_failed)"

fun pm_run ::
  "unaligned \<Rightarrow> nat \<Rightarrow> pm_pos list \<Rightarrow> nat \<Rightarrow> nat \<Rightarrow> 'e pm_item list \<Rightarrow> bool res"
where
  "pm_run U plen pos l h [] = Inr (pos_mark (pos ! plen))"
| "pm_run U plen pos l h (m # msk) =
     (let pos = put_mark pos plen False in
      case m of
        PM_ASTERISK \<Rightarrow> pm_run U plen (pm_mark_all pos l plen) l plen msk
      | PM_ASN_EXPR _ \<Rightarrow> Inl Assert_failed
      | _ \<Rightarrow> rbind (pm_step (pm_test U m) plen (rev [l..<Suc h]) pos (-1) (-1)) (\<lambda>x.
               case x of (pos', nl, nh) \<Rightarrow>
                 if nh < 0 then Inr False
                 else pm_run U plen pos' (nat nl) (nat nh) msk))"

definition PM_POS_MAX :: nat where "PM_POS_MAX = 2048 + 1"

definition as_path_match :: "unaligned \<Rightarrow> u8 list \<Rightarrow> 'e pm_item list \<Rightarrow> bool res" where
  "as_path_match U path msk =
     rbind (parse_path U path) (\<lambda>pos.
       let plen = length pos;
           pos = pos @ [\<lparr>pos_set = False, pos_mark = False, pos_val = PmUnset\<rparr>]
       in if plen \<ge> PM_POS_MAX then Inl Out_of_bounds
          else pm_run U plen (put_mark pos 0 True) 0 0 msk)"

section \<open>The language of a path\<close>

text \<open>
  A path stands for a set of words of AS numbers: an item of a sequence is itself, a set
  is any sequence over it. A mask accepts a set of words. \<open>words p\<close> are the words of the
  positions \<open>p\<close>; \<open>first_words p\<close> those that take at least one element from a leading set.
\<close>

datatype pitem = PAsn u32 | PSet "u32 list"

fun is_pset :: "pitem \<Rightarrow> bool" where
  "is_pset (PSet _) = True"
| "is_pset (PAsn _) = False"

fun segs_items :: "seg list \<Rightarrow> pitem list" where
  "segs_items [] = []"
| "segs_items (Seg t as # segs) =
     (if t = AS_PATH_SET then PSet as # segs_items segs else map PAsn as @ segs_items segs)"

inductive words :: "pitem list \<Rightarrow> u32 list \<Rightarrow> bool" where
  words_Nil: "words [] []"
| words_Asn: "words p w \<Longrightarrow> words (PAsn a # p) (a # w)"
| words_Skip: "words p w \<Longrightarrow> words (PSet as # p) w"
| words_Take: "a \<in> set as \<Longrightarrow> words (PSet as # p) w \<Longrightarrow> words (PSet as # p) (a # w)"

inductive_cases words_NilE: "words [] w"
inductive_cases words_AsnE: "words (PAsn a # p) w"
inductive_cases words_SetE: "words (PSet as # p) w"

definition first_words :: "pitem list \<Rightarrow> u32 list \<Rightarrow> bool" where
  "first_words p w \<longleftrightarrow>
     words p w \<and> (case p of PSet as # q \<Rightarrow> (\<exists>a v. w = a # v \<and> a \<in> set as \<and> words p v) | _ \<Rightarrow> True)"

fun item_accepts :: "'e pm_item \<Rightarrow> u32 \<Rightarrow> bool" where
  "item_accepts (PM_ASN v) a = (a = ucast v)"
| "item_accepts (PM_ASN_RANGE v v2) a = (ucast v \<le> a \<and> a \<le> ucast v2)"
| "item_accepts PM_QUESTION a = True"
| "item_accepts _ a = False"

fun mask_accepts :: "'e pm_item list \<Rightarrow> u32 list \<Rightarrow> bool" where
  "mask_accepts [] w = (w = [])"
| "mask_accepts (PM_ASTERISK # msk) w =
     (mask_accepts msk w \<or> (case w of [] \<Rightarrow> False | _ # v \<Rightarrow> mask_accepts (PM_ASTERISK # msk) v))"
| "mask_accepts (m # msk) w =
     (case w of [] \<Rightarrow> False | a # v \<Rightarrow> item_accepts m a \<and> mask_accepts msk v)"


section \<open>Positions\<close>

text \<open>\<open>eps its j\<close>: the positions reached from \<open>j\<close> by leaving sets empty.\<close>

definition eps :: "pitem list \<Rightarrow> nat \<Rightarrow> nat set" where
  "eps its j = {k. j \<le> k \<and> k \<le> length its \<and> (\<forall>i. j \<le> i \<and> i < k \<longrightarrow> is_pset (its ! i))}"

definition tgt :: "pitem list \<Rightarrow> nat \<Rightarrow> nat set" where
  "tgt its i = eps its (if is_pset (its ! i) then i else i + 1)"

lemma eps_end: "eps its (length its) = {length its}"
  by (auto simp: eps_def)

lemma eps_self: "j \<le> length its \<Longrightarrow> j \<in> eps its j"
  by (auto simp: eps_def)

lemma eps_asn: "j < length its \<Longrightarrow> \<not> is_pset (its ! j) \<Longrightarrow> eps its j = {j}"
  by (auto simp: eps_def)

lemma eps_set: "j < length its \<Longrightarrow> is_pset (its ! j) \<Longrightarrow> eps its j = insert j (eps its (Suc j))"
  unfolding eps_def by (auto simp: Suc_le_eq) (metis le_neq_implies_less)+

lemma eps_le: "k \<in> eps its j \<Longrightarrow> j \<le> k \<and> k \<le> length its"
  by (auto simp: eps_def)

lemma eps_later: "k \<in> eps its j \<Longrightarrow> j \<le> i \<Longrightarrow> i \<le> k \<Longrightarrow> k \<in> eps its i"
  by (auto simp: eps_def)

lemma tgt_le: "i < length its \<Longrightarrow> k \<in> tgt its i \<Longrightarrow> i \<le> k \<and> k \<le> length its"
  by (auto simp: tgt_def dest: eps_le split: if_splits)

text \<open>
  Rules for \<open>words\<close> at a position: to read a word from \<open>j\<close> is to read it, with at
  least one element of a leading set, from one of the positions of \<open>eps\<close>.
\<close>

lemma words_Nil_iff [simp]: "words [] w \<longleftrightarrow> w = []"
  by (auto intro: words_Nil elim: words_NilE)

lemma words_Asn_iff [simp]: "words (PAsn a # p) w \<longleftrightarrow> (\<exists>v. w = a # v \<and> words p v)"
  by (auto intro: words_Asn elim: words_AsnE)

lemma words_Set_iff:
  "words (PSet as # p) w \<longleftrightarrow> words p w \<or> (\<exists>a v. w = a # v \<and> a \<in> set as \<and> words (PSet as # p) v)"
  by (auto intro: words_Skip words_Take elim: words_SetE)

lemma first_Nil [simp]: "first_words [] w \<longleftrightarrow> w = []"
  by (simp add: first_words_def)

lemma first_Asn [simp]: "first_words (PAsn a # p) w \<longleftrightarrow> (\<exists>v. w = a # v \<and> words p v)"
  by (simp add: first_words_def)

lemma first_Set:
  "first_words (PSet as # p) w \<longleftrightarrow> (\<exists>a v. w = a # v \<and> a \<in> set as \<and> words (PSet as # p) v)"
  unfolding first_words_def by (auto intro: words_Take)

lemma words_first: "words (PSet as # p) w \<longleftrightarrow> words p w \<or> first_words (PSet as # p) w"
  unfolding first_Set by (rule words_Set_iff)


lemma drop_item: "j < length its \<Longrightarrow> drop j its = its ! j # drop (Suc j) its"
  by (rule Cons_nth_drop_Suc [symmetric])

lemma words_eps:
  "j \<le> length its \<Longrightarrow> words (drop j its) w \<longleftrightarrow> (\<exists>k \<in> eps its j. first_words (drop k its) w)"
proof (induction "length its - j" arbitrary: j)
  case 0
  then have "j = length its" by simp
  then show ?case by (simp add: eps_end)
next
  case (Suc n)
  then have j: "j < length its" and IH: "words (drop (Suc j) its) w \<longleftrightarrow>
      (\<exists>k \<in> eps its (Suc j). first_words (drop k its) w)" by auto
  show ?case
  proof (cases "its ! j")
    case (PAsn a)
    with j show ?thesis by (simp add: eps_asn drop_item)
  next
    case (PSet as)
    with j IH show ?thesis by (auto simp: eps_set drop_item [OF j] words_first)
  qed
qed

text \<open>What one AS number does to the set of positions.\<close>

fun item_has :: "pitem \<Rightarrow> u32 \<Rightarrow> bool" where
  "item_has (PAsn b) a = (a = b)"
| "item_has (PSet as) a = (a \<in> set as)"

lemma first_words_Cons:
  assumes "i < length its"
  shows "first_words (drop i its) (a # w) \<longleftrightarrow>
    item_has (its ! i) a \<and> (\<exists>k \<in> tgt its i. first_words (drop k its) w)"
proof (cases "its ! i")
  case (PAsn b)
  with assms show ?thesis by (auto simp: drop_item tgt_def words_eps)
next
  case (PSet as)
  with assms have "first_words (drop i its) (a # w) \<longleftrightarrow> a \<in> set as \<and> words (drop i its) w"
    by (simp add: drop_item first_Set)
  with PSet assms show ?thesis by (simp add: tgt_def words_eps)
qed

definition item_match :: "'e pm_item \<Rightarrow> pitem \<Rightarrow> bool" where
  "item_match m it \<longleftrightarrow> (\<exists>a. item_has it a \<and> item_accepts m a)"

definition accepts_from :: "pitem list \<Rightarrow> nat set \<Rightarrow> 'e pm_item list \<Rightarrow> bool" where
  "accepts_from its M msk \<longleftrightarrow> (\<exists>k \<in> M. \<exists>w. first_words (drop k its) w \<and> mask_accepts msk w)"

lemma accepts_step:
  assumes "M \<subseteq> {..length its}" and "m \<noteq> PM_ASTERISK"
  shows "accepts_from its M (m # msk) \<longleftrightarrow>
    accepts_from its (\<Union>i \<in> {i \<in> M. i < length its \<and> item_match m (its ! i)}. tgt its i) msk"
    (is "?L \<longleftrightarrow> ?R")
proof -
  have mask: "mask_accepts (m # msk) w \<longleftrightarrow>
      (\<exists>a v. w = a # v \<and> item_accepts m a \<and> mask_accepts msk v)" for w
    using assms(2) by (cases m) (auto split: list.splits)
  have eq: "first_words (drop i its) (a # v) \<longleftrightarrow> i < length its \<and> item_has (its ! i) a \<and>
      (\<exists>k \<in> tgt its i. first_words (drop k its) v)" if "i \<in> M" for i a v
    using assms(1) that by (cases "i < length its") (auto simp: first_words_Cons)
  have "?L \<longleftrightarrow> (\<exists>i \<in> M. \<exists>a v. first_words (drop i its) (a # v) \<and> item_accepts m a \<and> mask_accepts msk v)"
    by (auto simp: accepts_from_def mask)
  also have "\<dots> \<longleftrightarrow> (\<exists>i \<in> {i \<in> M. i < length its}. \<exists>a v. item_has (its ! i) a \<and> item_accepts m a \<and>
      (\<exists>k \<in> tgt its i. first_words (drop k its) v) \<and> mask_accepts msk v)"
    using eq by blast
  also have "\<dots> \<longleftrightarrow> ?R"
    by (auto simp: accepts_from_def item_match_def)
  finally show ?thesis .
qed


text \<open>What an asterisk does: every position from the lowest one on.\<close>

definition items_ok :: "pitem list \<Rightarrow> bool" where
  "items_ok its \<longleftrightarrow> (\<forall>it \<in> set its. \<exists>a. item_has it a)"

lemma mask_accepts_asterisk:
  "mask_accepts (PM_ASTERISK # msk) w \<longleftrightarrow> (\<exists>u v. w = u @ v \<and> mask_accepts msk v)"
proof (induction w)
  case (Cons a w)
  then show ?case by (auto simp: Cons_eq_append_conv)
qed simp

lemma first_words_suffix:
  "first_words (drop k its) (u @ v) \<Longrightarrow> k \<le> length its \<Longrightarrow>
   \<exists>k'. k \<le> k' \<and> k' \<le> length its \<and> first_words (drop k' its) v"
proof (induction u arbitrary: k)
  case (Cons a u)
  then have k: "k < length its" by (cases "k = length its") auto
  with Cons.prems obtain k1 where "k1 \<in> tgt its k" "first_words (drop k1 its) (u @ v)"
    by (auto simp: first_words_Cons)
  moreover from this tgt_le [OF k] have "k \<le> k1" "k1 \<le> length its" by auto
  ultimately show ?case using Cons.IH [of k1] by (meson le_trans)
qed auto

lemma tgt_Suc: "i < length its \<Longrightarrow> Suc i \<in> tgt its i"
  by (simp add: tgt_def eps_set eps_self)

lemma first_words_prefix:
  assumes "items_ok its" "l \<le> k" "k \<le> length its" "first_words (drop k its) v"
  shows "\<exists>u. first_words (drop l its) (u @ v)"
  using assms(2)
proof (induction rule: inc_induct)
  case base
  then show ?case using assms(4) by (intro exI [of _ "[]"]) simp
next
  case (step i)
  then obtain u where u: "first_words (drop (Suc i) its) (u @ v)" by auto
  from step assms(3) have i: "i < length its" by simp
  with assms(1) obtain a where "item_has (its ! i) a" unfolding items_ok_def by (meson nth_mem)
  with i u have "first_words (drop i its) (a # u @ v)"
    by (auto simp: first_words_Cons tgt_Suc)
  then show ?case by (intro exI [of _ "a # u"]) simp
qed

lemma accepts_asterisk:
  assumes "items_ok its" "M \<subseteq> {l..length its}" "l \<in> M"
  shows "accepts_from its M (PM_ASTERISK # msk) \<longleftrightarrow> accepts_from its {l..length its} msk"
proof
  assume "accepts_from its M (PM_ASTERISK # msk)"
  then obtain k u v where "k \<in> M" "first_words (drop k its) (u @ v)" "mask_accepts msk v"
    by (auto simp: accepts_from_def mask_accepts_asterisk simp del: mask_accepts.simps)
  with assms(2) first_words_suffix [of k its u v] show "accepts_from its {l..length its} msk"
    unfolding accepts_from_def by (meson atLeastAtMost_iff le_trans subset_iff)
next
  assume "accepts_from its {l..length its} msk"
  then obtain k v where "l \<le> k" "k \<le> length its" "first_words (drop k its) v" "mask_accepts msk v"
    by (auto simp: accepts_from_def)
  with assms(1) first_words_prefix obtain u where "first_words (drop l its) (u @ v)" by blast
  with assms(3) \<open>mask_accepts msk v\<close> show "accepts_from its M (PM_ASTERISK # msk)"
    unfolding accepts_from_def mask_accepts_asterisk by blast
qed

lemma accepts_Nil: "M \<subseteq> {..length its} \<Longrightarrow> accepts_from its M [] \<longleftrightarrow> length its \<in> M"
proof -
  have "first_words (drop k its) [] \<longleftrightarrow> k = length its" if "k \<le> length its" for k
    using that by (cases "k < length its"; cases "its ! k") (auto simp: drop_item first_Set)
  then show "M \<subseteq> {..length its} \<Longrightarrow> ?thesis" by (auto simp: accepts_from_def)
qed

section \<open>The array implements the positions\<close>

definition marks :: "pm_pos list \<Rightarrow> nat set" where
  "marks pos = {i. i < length pos \<and> pos_mark (pos ! i)}"

fun val_repr :: "unaligned \<Rightarrow> pm_pos \<Rightarrow> pitem \<Rightarrow> bool" where
  "val_repr U p (PAsn a) \<longleftrightarrow> \<not> pos_set p \<and> pos_val p = PmAsn a"
| "val_repr U p (PSet as) \<longleftrightarrow> pos_set p \<and> length as < 256 \<and>
     (\<exists>r. pos_val p = PmSp (of_nat (length as) # asns_bytes U as @ r))"

definition shape :: "unaligned \<Rightarrow> pitem list \<Rightarrow> pm_pos list \<Rightarrow> bool" where
  "shape U its pos \<longleftrightarrow> length pos = length its + 1 \<and>
     (\<forall>i < length its. val_repr U (pos ! i) (its ! i)) \<and> \<not> pos_set (pos ! length its)"

lemma shape_length: "shape U its pos \<Longrightarrow> length pos = Suc (length its)"
  by (simp add: shape_def)

lemma shape_set [simp]:
  "shape U its pos \<Longrightarrow> i < length its \<Longrightarrow> pos_set (pos ! i) = is_pset (its ! i)"
  by (cases "its ! i") (auto simp: shape_def)

lemma val_repr_mark [simp]: "val_repr U (p\<lparr>pos_mark := b\<rparr>) it = val_repr U p it"
  by (cases it) auto

lemma shape_put_mark [simp]: "shape U its pos \<Longrightarrow> shape U its (put_mark pos i b)"
  by (cases "i < length pos") (auto simp: shape_def put_mark_def nth_list_update)

lemma length_put_mark [simp]: "length (put_mark pos i b) = length pos"
  by (simp add: put_mark_def)

lemma marks_put_mark [simp]:
  "i < length pos \<Longrightarrow> marks (put_mark pos i b) = (if b then insert i (marks pos) else marks pos - {i})"
  by (auto simp: marks_def put_mark_def nth_list_update)

lemma pos_mark_iff: "i < length pos \<Longrightarrow> pos_mark (pos ! i) \<longleftrightarrow> i \<in> marks pos"
  by (simp add: marks_def)


text \<open>A set of marks is closed when every marked set has its successor marked as well.\<close>

definition closed_from :: "pitem list \<Rightarrow> nat \<Rightarrow> nat set \<Rightarrow> bool" where
  "closed_from its i M \<longleftrightarrow> (\<forall>k \<in> M. i \<le> k \<longrightarrow> k < length its \<longrightarrow> is_pset (its ! k) \<longrightarrow> Suc k \<in> M)"

lemma closed_from_eps:
  "closed_from its i M \<Longrightarrow> j \<in> M \<Longrightarrow> i \<le> j \<Longrightarrow> j \<le> length its \<Longrightarrow> eps its j \<subseteq> M"
proof (induction "length its - j" arbitrary: j)
  case 0
  then have "j = length its" by simp
  with 0 show ?case by (simp add: eps_end)
next
  case (Suc n)
  then have j: "j < length its" by simp
  with Suc show ?case
    by (cases "is_pset (its ! j)") (auto simp: eps_asn eps_set closed_from_def)
qed

lemma closed_from_union_eps:
  "closed_from its i M \<Longrightarrow> closed_from its i (M \<union> eps its j)"
proof -
  have "Suc k \<in> eps its j" if "k \<in> eps its j" "k < length its" "is_pset (its ! k)" for k
    using that by (auto simp: eps_def less_Suc_eq)
  then show "closed_from its i M \<Longrightarrow> ?thesis" by (auto simp: closed_from_def)
qed

lemma pm_mark_run_correct:
  "shape U its pos \<Longrightarrow> plen = length its \<Longrightarrow> j \<le> plen \<Longrightarrow> closed_from its j (marks pos) \<Longrightarrow>
   pm_mark_run pos j plen = (pos', j') \<Longrightarrow>
   shape U its pos' \<and> marks pos' = marks pos \<union> eps its j \<and> j' \<in> eps its j \<and>
   (marks pos \<inter> {j..} = {} \<longrightarrow> eps its j \<subseteq> {..j'})"
proof (induction pos j plen rule: pm_mark_run.induct)
  case (1 pos j plen)
  have len: "length pos = Suc plen" using "1.prems" by (simp add: shape_length)
  show ?case
  proof (cases "j < plen \<and> pos_set (pos ! j) \<and> \<not> pos_mark (pos ! j)")
    case True
    with "1.prems" len have e: "eps its j = insert j (eps its (Suc j))"
      by (intro eps_set) auto
    have cl: "closed_from its (Suc j) (marks (put_mark pos j True))"
      using "1.prems" len by (auto simp: closed_from_def)
    from True "1.prems"(5) have "pm_mark_run (put_mark pos j True) (j + 1) plen = (pos', j')"
      by (simp add: pm_mark_run.simps [of pos j plen])
    with "1.IH" [OF True] "1.prems" True cl have
      "shape U its pos' \<and> marks pos' = marks (put_mark pos j True) \<union> eps its (Suc j) \<and>
       j' \<in> eps its (Suc j) \<and>
       (marks (put_mark pos j True) \<inter> {Suc j..} = {} \<longrightarrow> eps its (Suc j) \<subseteq> {..j'})"
      by simp
    with True len e show ?thesis by (auto dest: eps_le)
  next
    case False
    with "1.prems"(5) have r: "pos' = put_mark pos j True" "j' = j"
      by (auto simp: pm_mark_run.simps [of pos j plen])
    have e: "eps its j = {j} \<or> j \<in> marks pos \<and> eps its j \<subseteq> marks pos"
    proof (cases "j < plen \<and> is_pset (its ! j)")
      case True
      with False "1.prems" len have "j \<in> marks pos" by (auto simp: pos_mark_iff)
      with closed_from_eps [OF "1.prems"(4)] "1.prems" show ?thesis by auto
    next
      case False
      with "1.prems" show ?thesis by (cases "j = plen") (auto simp: eps_end eps_asn)
    qed
    have "j \<in> eps its j" using "1.prems" by (simp add: eps_self)
    with e r "1.prems" len show ?thesis by auto
  qed
qed

lemma pm_mark_correct:
  assumes "shape U its pos" "i < length its" "closed_from its (Suc i) (marks pos)"
    and "pm_mark pos i (length its) nh = (pos', nl', nh')"
  shows "shape U its pos'" "marks pos' = marks pos \<union> tgt its i"
    "nl' = int (if is_pset (its ! i) then i else Suc i)"
    "\<exists>j \<in> eps its (Suc i). nh' = (if nh < 0 then int j else nh) \<and>
       (marks pos \<inter> {Suc i..} = {} \<longrightarrow> eps its (Suc i) \<subseteq> {..j})"
proof -
  define pos1 where "pos1 = (if pos_set (pos ! i) then put_mark pos i True else pos)"
  obtain pos2 j where run: "pm_mark_run pos1 (Suc i) (length its) = (pos2, j)"
    by (cases "pm_mark_run pos1 (Suc i) (length its)")
  have len: "length pos = Suc (length its)" using assms(1) by (rule shape_length)
  have s1: "shape U its pos1" using assms(1) by (simp add: pos1_def)
  have m1: "marks pos1 = marks pos \<union> (if is_pset (its ! i) then {i} else {})"
    using assms(1,2) len by (auto simp: pos1_def)
  have c1: "closed_from its (Suc i) (marks pos1)"
    using assms(3) by (auto simp: m1 closed_from_def)
  have res: "pos' = pos2" "nl' = int (if is_pset (its ! i) then i else Suc i)"
      "nh' = (if nh < 0 then int j else nh)"
    using assms(1,2,4) run by (auto simp: pm_mark_def Let_def pos1_def split: if_splits)
  note r = pm_mark_run_correct [OF s1 refl _ c1 run]
  show "shape U its pos'" using r assms(2) res by simp
  show "marks pos' = marks pos \<union> tgt its i"
    using r assms(2) res by (auto simp: m1 tgt_def eps_set)
  show "nl' = int (if is_pset (its ! i) then i else Suc i)" by (rule res)
  have "marks pos \<inter> {Suc i..} = {} \<longrightarrow> eps its (Suc i) \<subseteq> {..j}"
    using r assms(2) by (auto simp: m1 split: if_splits)
  with r assms(2) res show "\<exists>j \<in> eps its (Suc i). nh' = (if nh < 0 then int j else nh) \<and>
       (marks pos \<inter> {Suc i..} = {} \<longrightarrow> eps its (Suc i) \<subseteq> {..j})" by auto
qed


text \<open>The interval \<open>nl\<close>, \<open>nh\<close> around the new marks \<open>N\<close> when \<open>i\<close> is the next position.\<close>

definition new_bounds :: "pitem list \<Rightarrow> nat \<Rightarrow> nat set \<Rightarrow> int \<Rightarrow> int \<Rightarrow> bool" where
  "new_bounds its i N nl nh \<longleftrightarrow>
     (N = {} \<and> nh = -1) \<or>
     (0 \<le> nl \<and> nat nl \<in> N \<and> (\<forall>k \<in> N. nl \<le> int k \<and> int k \<le> nh) \<and> nh \<le> int (length its) \<and>
      (\<forall>j \<le> i. \<forall>k \<in> eps its j. int k \<le> nh))"

lemma new_bounds_down: "new_bounds its (Suc i) N nl nh \<Longrightarrow> new_bounds its i N nl nh"
  unfolding new_bounds_def by (blast intro: le_SucI)

lemma new_bounds_mark:
  assumes "new_bounds its (Suc i) N nl nh" "N \<subseteq> {Suc i..}" "i < length its"
    and "nl' = int (if is_pset (its ! i) then i else Suc i)"
    and "j \<in> eps its (Suc i)" "nh' = (if nh < 0 then int j else nh)"
    and "N = {} \<longrightarrow> eps its (Suc i) \<subseteq> {..j}"
  shows "new_bounds its i (N \<union> tgt its i) nl' nh'"
proof -
  have nl: "nat nl' \<in> tgt its i"
    using assms(3,4) by (auto simp: tgt_def eps_self)
  have tgt: "tgt its i \<subseteq> insert i (eps its (Suc i))" and low: "\<forall>k \<in> tgt its i. nl' \<le> int k"
    using assms(3,4) by (auto simp: tgt_def eps_set dest: eps_le)
  have high: "int k \<le> nh'" if "k \<in> eps its jj" "jj \<le> Suc i" for k jj
  proof (cases "N = {}")
    case True
    with assms(1) have "nh = -1" by (auto simp: new_bounds_def)
    with True assms(5-7) that show ?thesis
      using eps_later [OF that] eps_le [of j its "Suc i"] by (cases "Suc i \<le> k") auto
  next
    case False
    with assms(1,6) that show ?thesis by (force simp: new_bounds_def)
  qed
  have "i \<le> nat nh'" "0 \<le> nh'" using high [of "Suc i" "Suc i"] assms(3) by (auto simp: eps_self)
  moreover have "nh' \<le> int (length its)"
    using assms(1,5,6) by (auto simp: new_bounds_def dest: eps_le)
  moreover have N: "int k \<le> nh' \<and> nl' \<le> int k" if "k \<in> N" for k
    using that assms(1,2,4,6) by (auto simp: new_bounds_def)
  moreover have "nl' \<le> int k \<and> int k \<le> nh'" if "k \<in> tgt its i" for k
    using that tgt low high [of k "Suc i"] \<open>i \<le> nat nh'\<close> \<open>0 \<le> nh'\<close> by auto
  moreover have "0 \<le> nl'" using assms(4) by simp
  ultimately show ?thesis
    unfolding new_bounds_def using nl high by (intro disjI2 conjI ballI allI impI) auto
qed

lemma pm_step_correct:
  fixes test :: "pm_pos \<Rightarrow> bool res" and tm :: "pitem \<Rightarrow> bool"
  assumes test: "\<And>p it. it \<in> set its \<Longrightarrow> val_repr U p it \<Longrightarrow> test p = Inr (tm it)"
  shows "shape U its pos \<Longrightarrow> i \<le> Suc (length its) \<Longrightarrow> l \<le> i \<Longrightarrow>
    \<forall>k \<in> marks pos. k < i \<longrightarrow> k < length its \<Longrightarrow> closed_from its i (marks pos) \<Longrightarrow>
    new_bounds its i (marks pos \<inter> {i..}) nl nh \<Longrightarrow>
    \<exists>pos' nl' nh'. pm_step test (length its) (rev [l..<i]) pos nl nh = Inr (pos', nl', nh') \<and>
      shape U its pos' \<and>
      marks pos' \<inter> {l..} = (marks pos \<inter> {i..}) \<union>
        (\<Union>k \<in> {k \<in> marks pos. l \<le> k \<and> k < i \<and> tm (its ! k)}. tgt its k) \<and>
      marks pos' \<inter> {..<l} = marks pos \<inter> {..<l} \<and>
      new_bounds its l (marks pos' \<inter> {l..}) nl' nh'"
proof (induction i arbitrary: pos nl nh)
  case 0
  then show ?case by auto
next
  case (Suc i)
  show ?case
  proof (cases "l \<le> i")
    case False
    with Suc.prems have "l = Suc i" by simp
    with Suc.prems show ?thesis by auto
  next
    case li: True
    have len: "length pos = Suc (length its)" using Suc.prems by (simp add: shape_length)
    have list: "rev [l..<Suc i] = i # rev [l..<i]" using li by simp
    show ?thesis
    proof (cases "i \<in> marks pos")
      case False
      then have m: "marks pos \<inter> {i..} = marks pos \<inter> {Suc i..}"
        by (metis Int_insert_right atLeast_Suc_greaterThan ivl_disj_un_singleton(1) insert_is_Un)
      have "closed_from its i (marks pos)"
        using False Suc.prems(5) by (auto simp: closed_from_def Suc_le_eq le_less)
      moreover have "new_bounds its i (marks pos \<inter> {i..}) nl nh"
        using Suc.prems(6) m new_bounds_down by simp
      moreover have "{k \<in> marks pos. l \<le> k \<and> k < Suc i \<and> tm (its ! k)} =
          {k \<in> marks pos. l \<le> k \<and> k < i \<and> tm (its ! k)}"
        using False by (auto simp: less_Suc_eq)
      moreover have "\<not> pos_mark (pos ! i)"
        using False len Suc.prems by (auto simp: marks_def)
      ultimately show ?thesis
        using Suc.IH [of pos nl nh] Suc.prems li m list by simp
    next
      case True
      then have i: "i < length its" using Suc.prems(4) by simp
      define pos1 where "pos1 = put_mark pos i False"
      have s1: "shape U its pos1" using Suc.prems by (simp add: pos1_def)
      have m1: "marks pos1 = marks pos - {i}" using i len by (simp add: pos1_def)
      have t: "test (pos1 ! i) = Inr (tm (its ! i))"
        using i s1 by (intro test) (auto simp: shape_def)
      have mk: "pos_mark (pos ! i)" using True by (simp add: marks_def)
      show ?thesis
      proof (cases "tm (its ! i)")
        case False
        have "closed_from its i (marks pos1)"
          using Suc.prems(5) by (auto simp: m1 closed_from_def Suc_le_eq le_less)
        moreover have "marks pos1 \<inter> {i..} = marks pos \<inter> {Suc i..}"
          by (auto simp: m1)
        moreover have "new_bounds its i (marks pos \<inter> {Suc i..}) nl nh"
          using Suc.prems(6) new_bounds_down by simp
        moreover have "{k \<in> marks pos1. l \<le> k \<and> k < i \<and> tm (its ! k)} =
            {k \<in> marks pos. l \<le> k \<and> k < Suc i \<and> tm (its ! k)}"
          using False by (auto simp: m1 less_Suc_eq)
        moreover have "marks pos1 \<inter> {..<l} = marks pos \<inter> {..<l}"
          using li by (auto simp: m1)
        ultimately show ?thesis
          using Suc.IH [OF s1, of nl nh] Suc.prems(2,4) li list False t mk i
          by (auto simp: pos1_def m1)
      next
        case tmi: True
        obtain pos2 nl2 nh2 where pm: "pm_mark pos1 i (length its) nh = (pos2, nl2, nh2)"
          by (cases "pm_mark pos1 i (length its) nh")
        have c1: "closed_from its (Suc i) (marks pos1)"
          using Suc.prems(5) by (auto simp: m1 closed_from_def)
        note r = pm_mark_correct [OF s1 i c1 pm]
        have m1': "marks pos1 \<inter> {Suc i..} = marks pos \<inter> {Suc i..}"
          by (auto simp: m1)
        have m2: "marks pos2 \<inter> {i..} = (marks pos \<inter> {Suc i..}) \<union> tgt its i"
          using r(2) tgt_le [OF i] by (auto simp: m1)
        have m2': "k \<in> marks pos2 \<longleftrightarrow> k \<in> marks pos" if "k < i" for k
          using r(2) that by (auto simp: m1 dest: tgt_le [OF i])
        have "closed_from its i (marks pos \<inter> {Suc i..} \<union> tgt its i)"
          unfolding tgt_def using Suc.prems(5) by (intro closed_from_union_eps) (auto simp: closed_from_def)
        then have c2: "closed_from its i (marks pos2)"
          unfolding m2 [symmetric] by (auto simp: closed_from_def)
        obtain j where j: "j \<in> eps its (Suc i)" "nh2 = (if nh < 0 then int j else nh)"
            "marks pos1 \<inter> {Suc i..} = {} \<longrightarrow> eps its (Suc i) \<subseteq> {..j}"
          using r(4) by blast
        have b2: "new_bounds its i (marks pos2 \<inter> {i..}) nl2 nh2"
          unfolding m2
          by (rule new_bounds_mark [OF Suc.prems(6) Int_lower2 i r(3) j(1,2) j(3) [unfolded m1']])
        have low: "marks pos2 \<inter> {..<l} = marks pos \<inter> {..<l}"
          using m2' li by auto
        have "{k \<in> marks pos. l \<le> k \<and> k < Suc i \<and> tm (its ! k)} =
            insert i {k \<in> marks pos2. l \<le> k \<and> k < i \<and> tm (its ! k)}"
          using m2' True tmi li by (auto simp: less_Suc_eq)
        moreover have "\<forall>k \<in> marks pos2. k < i \<longrightarrow> k < length its" using i by auto
        moreover have "pm_step test (length its) (rev [l..<Suc i]) pos nl nh =
            pm_step test (length its) (rev [l..<i]) pos2 nl2 nh2"
          using mk t tmi pm li by (simp add: list pos1_def [symmetric])
        moreover have "marks pos2 \<inter> {i..} \<union> X = marks pos \<inter> {Suc i..} \<union> (tgt its i \<union> X)" for X
          unfolding m2 by (rule Un_assoc)
        ultimately show ?thesis
          using Suc.IH [OF r(1) _ li _ c2 b2] i low by (simp only: UN_insert)
      qed
    qed
  qed
qed


lemma pm_mark_all_correct:
  assumes "shape U its pos" "l \<le> length its"
  shows "shape U its (pm_mark_all pos l (length its))"
    "marks (pm_mark_all pos l (length its)) = marks pos \<union> {l..length its}"
proof -
  have "shape U its (fold (\<lambda>i pos. put_mark pos i True) is pos) \<and>
      marks (fold (\<lambda>i pos. put_mark pos i True) is pos) = marks pos \<union> set is"
    if "set is \<subseteq> {..length its}" for "is"
    using that assms(1)
  proof (induction "is" arbitrary: pos)
    case (Cons i "is")
    then show ?case by (auto simp: shape_length)
  qed simp
  moreover have "set [l..<Suc (length its)] = {l..length its}" using assms(2) by auto
  ultimately show "shape U its (pm_mark_all pos l (length its))"
    "marks (pm_mark_all pos l (length its)) = marks pos \<union> {l..length its}"
    unfolding pm_mark_all_def by (metis atLeastAtMost_iff atMost_iff subsetI)+
qed

fun is_asn_expr :: "'e pm_item \<Rightarrow> bool" where
  "is_asn_expr (PM_ASN_EXPR _) = True"
| "is_asn_expr _ = False"

context unaligned_access begin

lemma pm_match_asns_bytes:
  "pm_match_asns U lo hi (length as) (asns_bytes U as @ r) = Inr (\<exists>a \<in> set as. lo \<le> a \<and> a \<le> hi)"
  by (induction as) (auto simp: BS_def)

lemma pm_match_repr:
  "val_repr U p it \<Longrightarrow> pm_match U p lo hi = Inr (\<exists>a. item_has it a \<and> lo \<le> a \<and> a \<le> hi)"
  by (cases it) (auto simp: pm_match_def pm_match_asns_bytes)

lemma pm_test_repr:
  assumes "items_ok its" "it \<in> set its" "val_repr U p it"
    and "\<not> is_asn_expr m" "m \<noteq> PM_ASTERISK"
  shows "pm_test U m p = Inr (item_match m it)"
  using assms by (cases m) (auto simp: pm_test_def pm_match_repr item_match_def items_ok_def)

lemma pm_run_correct:
  assumes ok: "items_ok its"
  shows "shape U its pos \<Longrightarrow> list_all (\<lambda>m. \<not> is_asn_expr m) msk \<Longrightarrow>
    marks pos \<subseteq> {l..h} \<Longrightarrow> h \<le> length its \<Longrightarrow> l \<in> marks pos \<Longrightarrow>
    pm_run U (length its) pos l h msk = Inr (accepts_from its (marks pos) msk)"
proof (induction msk arbitrary: pos l h)
  case Nil
  then have "marks pos \<subseteq> {..length its}" by auto
  with Nil show ?case by (simp add: accepts_Nil marks_def shape_length)
next
  case (Cons m msk)
  let ?n = "length its"
  have len: "length pos = Suc ?n" using Cons.prems by (simp add: shape_length)
  have le: "marks pos \<subseteq> {..?n}" "l \<le> ?n" using Cons.prems by auto
  define pos1 where "pos1 = put_mark pos ?n False"
  have s1: "shape U its pos1" using Cons.prems by (simp add: pos1_def)
  have m1: "marks pos1 = marks pos - {?n}" using len by (simp add: pos1_def)
  show ?case
  proof (cases "m = PM_ASTERISK")
    case True
    have "marks (pm_mark_all pos1 l ?n) = {l..?n}"
      using pm_mark_all_correct(2) [OF s1 le(2)] Cons.prems le by (auto simp: m1)
    with Cons.IH [of "pm_mark_all pos1 l ?n" l ?n] pm_mark_all_correct(1) [OF s1 le(2)]
      Cons.prems le True accepts_asterisk [OF ok, of "marks pos" l msk]
    show ?thesis by (auto simp: Let_def pos1_def subset_iff)
  next
    case False
    have ex: "\<not> is_asn_expr m" using Cons.prems by simp
    have tst: "pm_test U m p = Inr (item_match m it)" if "it \<in> set its" "val_repr U p it" for p it
      by (rule pm_test_repr [OF ok that ex False])
    have empty: "marks pos1 \<inter> {Suc h..} = {}" using Cons.prems by (auto simp: m1)
    have "\<exists>pos' nl nh. pm_step (pm_test U m) ?n (rev [l..<Suc h]) pos1 (-1) (-1) = Inr (pos', nl, nh) \<and>
        shape U its pos' \<and>
        marks pos' \<inter> {l..} = (marks pos1 \<inter> {Suc h..}) \<union>
          (\<Union>k \<in> {k \<in> marks pos1. l \<le> k \<and> k < Suc h \<and> item_match m (its ! k)}. tgt its k) \<and>
        marks pos' \<inter> {..<l} = marks pos1 \<inter> {..<l} \<and>
        new_bounds its l (marks pos' \<inter> {l..}) nl nh"
      using Cons.prems le empty
      by (intro pm_step_correct [OF tst s1]) (auto simp: m1 new_bounds_def closed_from_def le_less)
    then obtain pos' nl nh where
      run: "pm_step (pm_test U m) ?n (rev [l..<Suc h]) pos1 (-1) (-1) = Inr (pos', nl, nh)"
      and s': "shape U its pos'"
      and hi: "marks pos' \<inter> {l..} = (marks pos1 \<inter> {Suc h..}) \<union>
          (\<Union>k \<in> {k \<in> marks pos1. l \<le> k \<and> k < Suc h \<and> item_match m (its ! k)}. tgt its k)"
      and lo: "marks pos' \<inter> {..<l} = marks pos1 \<inter> {..<l}"
      and nb: "new_bounds its l (marks pos' \<inter> {l..}) nl nh" by blast
    have "marks pos' \<inter> {..<l} = {}" using lo Cons.prems by (auto simp: m1)
    then have all: "marks pos' \<inter> {l..} = marks pos'" by (auto simp: not_le)
    have "{k \<in> marks pos1. l \<le> k \<and> k < Suc h \<and> item_match m (its ! k)} =
        {k \<in> marks pos. k < ?n \<and> item_match m (its ! k)}"
      using Cons.prems le by (auto simp: m1)
    with hi all empty have m': "marks pos' =
        (\<Union>k \<in> {k \<in> marks pos. k < ?n \<and> item_match m (its ! k)}. tgt its k)" by simp
    have acc: "accepts_from its (marks pos) (m # msk) = accepts_from its (marks pos') msk"
      unfolding m' by (rule accepts_step [OF le(1) False])
    have step: "pm_run U ?n pos l h (m # msk) =
        (if nh < 0 then Inr False else pm_run U ?n pos' (nat nl) (nat nh) msk)"
      using False ex run by (cases m) (simp_all add: Let_def pos1_def [symmetric])
    show ?thesis
    proof (cases "nh < 0")
      case True
      with nb all have "marks pos' = {}" by (auto simp: new_bounds_def)
      with True acc step show ?thesis by (simp add: accepts_from_def)
    next
      case False
      with nb all have "marks pos' \<subseteq> {nat nl..nat nh}" "nat nh \<le> ?n" "nat nl \<in> marks pos'"
        by (auto simp: new_bounds_def nat_le_iff le_nat_iff)
      with False acc step s' Cons.prems Cons.IH [of pos' "nat nl" "nat nh"] show ?thesis by simp
    qed
  qed
qed

lemma parse_sequence_bytes:
  "parse_sequence U (length as) (asns_bytes U as @ r) =
     Inr (map (\<lambda>a. \<lparr>pos_set = False, pos_mark = False, pos_val = PmAsn a\<rparr>) as, r)"
  by (induction as) (simp_all add: BS_def)

lemma parse_path_bytes:
  "list_all seg_ok segs \<Longrightarrow> \<exists>pos. parse_path U (path_bytes U segs) = Inr pos \<and>
     list_all2 (val_repr U) pos (segs_items segs) \<and> list_all (\<lambda>p. \<not> pos_mark p) pos"
proof (induction segs)
  case (Cons s segs)
  then obtain t as pos where s: "s = Seg t as" and
    p: "parse_path U (path_bytes U segs) = Inr pos" "list_all2 (val_repr U) pos (segs_items segs)"
      "list_all (\<lambda>p. \<not> pos_mark p) pos" by (cases s) auto
  have "list_all2 (val_repr U)
      (map (\<lambda>a. \<lparr>pos_set = False, pos_mark = False, pos_val = PmAsn a\<rparr>) as) (map PAsn as)"
    by (simp add: list.rel_map list_all2_same)
  with s p Cons.prems show ?case
    by (auto simp: BS_def parse_sequence_bytes list_all2_appendI list_all_iff)
qed simp

lemma match_words:
  assumes "list_all seg_ok segs" "list_all (\<lambda>s. seg_asns s \<noteq> []) segs"
    and "length (segs_items segs) \<le> 2048" "list_all (\<lambda>m. \<not> is_asn_expr m) msk"
  shows "as_path_match U (path_bytes U segs) msk =
    Inr (\<exists>w. first_words (segs_items segs) w \<and> mask_accepts msk w)"
proof -
  let ?its = "segs_items segs"
  let ?stop = "\<lparr>pos_set = False, pos_mark = False, pos_val = PmUnset\<rparr>"
  obtain pos where p: "parse_path U (path_bytes U segs) = Inr pos"
      "list_all2 (val_repr U) pos ?its" "list_all (\<lambda>p. \<not> pos_mark p) pos"
    using parse_path_bytes [OF assms(1)] by blast
  have len: "length pos = length ?its" using p(2) by (rule list_all2_lengthD)
  have sh: "shape U ?its (pos @ [?stop])"
    using p(2) len by (auto simp: shape_def nth_append list_all2_nthD2)
  have ok: "items_ok ?its"
    using assms(1,2)
    by (induction segs rule: segs_items.induct) (auto simp: items_ok_def neq_Nil_conv)
  have "marks (pos @ [?stop]) = {}"
    using p(3) by (auto simp: marks_def nth_append list_all_length less_Suc_eq)
  then have m0: "marks (put_mark (pos @ [?stop]) 0 True) = {0}" by simp
  have "pm_run U (length ?its) (put_mark (pos @ [?stop]) 0 True) 0 0 msk =
      Inr (accepts_from ?its {0} msk)"
    unfolding m0 [symmetric] by (rule pm_run_correct [OF ok _ assms(4)]) (auto simp: m0 sh)
  with p(1) len assms(3) show ?thesis
    by (simp add: as_path_match_def Let_def PM_POS_MAX_def accepts_from_def)
qed

end

section \<open>Properties\<close>



text \<open>A set at the beginning of a path is not optional: the path \<open>{1 2} 5\<close> does not match the mask
  \<open>[= 5 =]\<close>, though \<open>7 {1 2} 5\<close> matches \<open>[= 7 5 =]\<close>.\<close>

theorem as_path_match_leading_set:
  "as_path_match network_order (path_bytes network_order [Seg AS_PATH_SET [1, 2], Seg AS_PATH_SEQUENCE [5]])
     [PM_ASN 5 :: unit pm_item] = Inr False \<and>
   as_path_match network_order (path_bytes network_order
     [Seg AS_PATH_SEQUENCE [7], Seg AS_PATH_SET [1, 2], Seg AS_PATH_SEQUENCE [5]])
     [PM_ASN 7, PM_ASN 5 :: unit pm_item] = Inr True"
proof -
  let ?p = "[Seg AS_PATH_SET [1, 2], Seg AS_PATH_SEQUENCE [5]]"
  let ?q = "[Seg AS_PATH_SEQUENCE [7], Seg AS_PATH_SET [1, 2], Seg AS_PATH_SEQUENCE [5]]"
  have p: "as_path_match network_order (path_bytes network_order ?p) [PM_ASN 5 :: unit pm_item] =
      Inr (\<exists>w. first_words (segs_items ?p) w \<and> mask_accepts [PM_ASN 5 :: unit pm_item] w)"
    by (rule net.match_words) simp_all
  have q: "as_path_match network_order (path_bytes network_order ?q) [PM_ASN 7, PM_ASN 5 :: unit pm_item] =
      Inr (\<exists>w. first_words (segs_items ?q) w \<and> mask_accepts [PM_ASN 7, PM_ASN 5 :: unit pm_item] w)"
    by (rule net.match_words) simp_all
  have "\<not> (first_words (segs_items ?p) w \<and> mask_accepts [PM_ASN 5 :: unit pm_item] w)" for w
    by (cases w) (auto simp: first_words_def)
  moreover have "first_words (segs_items ?q) [7, 5]"
    using words_Skip [of "[PAsn 5]" "[5]" "[1, 2]"] by simp
  moreover have "mask_accepts [PM_ASN 7, PM_ASN 5 :: unit pm_item] [7, 5]" by simp
  ultimately show ?thesis unfolding p q by auto
qed

end
