(* ===== verification/PrefixTrie.thy ===== *)
theory PrefixTrie
  imports Lib_Interfaces
begin

text \<open>
  The compressed trie that represents a set of prefix patterns, \<open>filter/trie.c\<close>, for any
  address type \<open>I\<close>. The second part shows that the trie built from a list of patterns
  decides whether one of them matches.
\<close>

section \<open>The trie\<close>

text \<open>\<open>struct f_trie_node\<close> with its two children; \<open>TNull\<close> is the null pointer.\<close>

datatype 'a trie_node =
    TNull
  | TNode (t_addr: 'a) (t_mask: 'a) (t_accept: 'a) (t_plen: nat) (t_c0: "'a trie_node") (t_c1: "'a trie_node")

record 'a f_trie =
  tr_zero :: bool
  tr_root :: "'a trie_node"

text \<open>The root is part of the allocated and cleared \<open>struct f_trie\<close>.\<close>

definition f_new_trie :: "'a ip_ops \<Rightarrow> 'a f_trie" where
  "f_new_trie I = \<lparr>tr_zero = False,
     tr_root = TNode (ip_none I) (ip_none I) (ip_none I) 0 TNull TNull\<rparr>"

definition new_node :: "nat \<Rightarrow> 'a \<Rightarrow> 'a \<Rightarrow> 'a \<Rightarrow> 'a trie_node" where
  "new_node plen paddr pmask amask = TNode paddr pmask amask plen TNull TNull"

fun set_child :: "'a trie_node \<Rightarrow> bool \<Rightarrow> 'a trie_node \<Rightarrow> 'a trie_node" where
  "set_child (TNode ad mk ac pl c0 c1) b c = (if b then TNode ad mk ac pl c0 c else TNode ad mk ac pl c c1)"
| "set_child TNull b c = TNull"

definition attach_node :: "'a ip_ops \<Rightarrow> 'a trie_node \<Rightarrow> 'a trie_node \<Rightarrow> 'a trie_node" where
  "attach_node I parent child =
     set_child parent (ipa_getbit I (t_addr child) (t_plen parent)) child"

text \<open>
  The loop of \<open>trie_add_prefix\<close> at node \<open>n\<close>. The result is the node in its place, and whether
  that is a new node, which \<open>attach_node(o, ...)\<close> links to the parent.
\<close>

fun trie_add_loop ::
  "'a ip_ops \<Rightarrow> 'a \<Rightarrow> nat \<Rightarrow> 'a \<Rightarrow> 'a \<Rightarrow> 'a \<Rightarrow> 'a trie_node \<Rightarrow> 'a trie_node \<times> bool"
where
  "trie_add_loop I px plen paddr pmask amask TNull = (new_node plen paddr pmask amask, True)"
| "trie_add_loop I px plen paddr pmask amask (TNode ad mk ac pl c0 c1) =
     (let n = TNode ad mk ac pl c0 c1; cmask = ipa_and I mk pmask in
      if ipa_compare I (ipa_and I paddr cmask) (ipa_and I ad cmask) \<noteq> 0 then
        let blen = ipa_pxlen I paddr ad;
            bmask = ipa_mkmask I blen;
            baddr = ipa_and I px bmask;
            baccm = ipa_and I (ipa_or I amask ac) bmask;
            a = new_node plen paddr pmask amask;
            b = new_node blen baddr bmask baccm
        in (attach_node I (attach_node I b n) a, True)
      else if plen < pl then
        let a = new_node plen paddr pmask (ipa_or I amask (ipa_and I ac pmask))
        in (attach_node I a n, True)
      else if plen = pl then (TNode ad mk (ipa_or I ac amask) pl c0 c1, False)
      else
        let n1 = TNode ad mk (ipa_or I ac (ipa_and I amask mk)) pl c0 c1;
            k = ipa_getbit I paddr pl
        in (case trie_add_loop I px plen paddr pmask amask (if k then c1 else c0) of
              (r, fresh) \<Rightarrow> (if fresh then attach_node I n1 r else set_child n1 k r, False)))"

text \<open>With a null pointer for \<open>o\<close> the function would write to it.\<close>

definition trie_add_prefix ::
  "'a ip_ops \<Rightarrow> 'a f_trie \<Rightarrow> 'a \<Rightarrow> nat \<Rightarrow> nat \<Rightarrow> nat \<Rightarrow> 'a f_trie res"
where
  "trie_add_prefix I t px plen l h =
     (let zero = (if l = 0 then True else tr_zero t);
          l' = (if l = 0 then l else l - 1);
          plen' = (if h < plen then h else plen);
          amask = ipa_xor I (ipa_mkmask I l') (ipa_mkmask I h);
          pmask = ipa_mkmask I plen';
          paddr = ipa_and I px pmask
      in case trie_add_loop I px plen' paddr pmask amask (tr_root t) of
           (r, fresh) \<Rightarrow>
             if fresh then Inl Out_of_bounds else Inr \<lparr>tr_zero = zero, tr_root = r\<rparr>)"

fun trie_match_loop :: "'a ip_ops \<Rightarrow> nat \<Rightarrow> 'a \<Rightarrow> 'a \<Rightarrow> 'a trie_node \<Rightarrow> bool" where
  "trie_match_loop I plen paddr pmask TNull = False"
| "trie_match_loop I plen paddr pmask (TNode ad mk ac pl c0 c1) =
     (let cmask = ipa_and I mk pmask in
      if ipa_compare I (ipa_and I paddr cmask) (ipa_and I ad cmask) \<noteq> 0 then False
      else if ipa_getbit I ac (plen - 1) then True
      else if plen \<le> pl then False
      else trie_match_loop I plen paddr pmask (if ipa_getbit I paddr pl then c1 else c0))"

definition trie_match_prefix :: "'a ip_ops \<Rightarrow> 'a f_trie \<Rightarrow> 'a \<Rightarrow> nat \<Rightarrow> bool" where
  "trie_match_prefix I t px plen =
     (let pmask = ipa_mkmask I plen; paddr = ipa_and I px pmask in
      if plen = 0 then tr_zero t else trie_match_loop I plen paddr pmask (tr_root t))"

fun trie_node_same :: "'a trie_node \<Rightarrow> 'a trie_node \<Rightarrow> bool" where
  "trie_node_same TNull TNull = True"
| "trie_node_same TNull (TNode _ _ _ _ _ _) = False"
| "trie_node_same (TNode _ _ _ _ _ _) TNull = False"
| "trie_node_same (TNode ad mk ac pl c0 c1) (TNode ad' mk' ac' pl' c0' c1') =
     (if pl \<noteq> pl' \<or> \<not> ipa_equal ad ad' \<or> \<not> ipa_equal ac ac' then False
      else trie_node_same c0 c0' \<and> trie_node_same c1 c1')"

definition trie_same :: "'a f_trie \<Rightarrow> 'a f_trie \<Rightarrow> bool" where
  "trie_same t1 t2 \<longleftrightarrow> tr_zero t1 = tr_zero t2 \<and> trie_node_same (tr_root t1) (tr_root t2)"

section \<open>Patterns and well-formed tries\<close>

text \<open>
  A pattern is an address, a length, and bounds. It matches a prefix whose length lies
  within the bounds and that agrees with it on the common length.
\<close>

type_synonym 'a pattern = "'a \<times> nat \<times> nat \<times> nat"

fun pattern_match :: "'a ip_ops \<Rightarrow> 'a pattern \<Rightarrow> 'a \<Rightarrow> nat \<Rightarrow> bool" where
  "pattern_match I (pa, pplen, l, h) px plen \<longleftrightarrow>
     ip_address.same_prefix I (min plen pplen) px pa \<and> l \<le> plen \<and> plen \<le> h"

fun pattern_ok :: "'a ip_ops \<Rightarrow> 'a pattern \<Rightarrow> bool" where
  "pattern_ok I (pa, pplen, l, h) \<longleftrightarrow> l \<le> h \<and> h \<le> ip_bits I"

fun trie_add_all :: "'a ip_ops \<Rightarrow> 'a pattern list \<Rightarrow> 'a f_trie \<Rightarrow> 'a f_trie res" where
  "trie_add_all I [] t = Inr t"
| "trie_add_all I ((pa, pplen, l, h) # ps) t =
     rbind (trie_add_prefix I t pa pplen l h) (trie_add_all I ps)"

text \<open>A child extends the prefix of its parent and hangs on the side of its next bit.\<close>

definition below :: "'a ip_ops \<Rightarrow> 'a \<Rightarrow> nat \<Rightarrow> bool \<Rightarrow> 'a trie_node \<Rightarrow> bool" where
  "below I ad pl b c \<longleftrightarrow> c = TNull \<or>
     pl < t_plen c \<and> ip_address.same_prefix I pl (t_addr c) ad \<and> ipa_getbit I (t_addr c) pl = b"

fun node_wf :: "'a ip_ops \<Rightarrow> 'a trie_node \<Rightarrow> bool" where
  "node_wf I TNull = True"
| "node_wf I (TNode ad mk ac pl c0 c1) \<longleftrightarrow>
     pl \<le> ip_bits I \<and> mk = ipa_mkmask I pl \<and> below I ad pl False c0 \<and> below I ad pl True c1 \<and>
     node_wf I c0 \<and> node_wf I c1"

definition trie_wf :: "'a ip_ops \<Rightarrow> 'a f_trie \<Rightarrow> bool" where
  "trie_wf I t \<longleftrightarrow> tr_root t \<noteq> TNull \<and> t_plen (tr_root t) = 0 \<and> node_wf I (tr_root t)"

section \<open>The walk\<close>

context ip_address begin

text \<open>What a walk that starts at a node accepts.\<close>

fun accepts :: "'a trie_node \<Rightarrow> 'a \<Rightarrow> nat \<Rightarrow> bool" where
  "accepts TNull a len = False"
| "accepts (TNode ad mk ac pl c0 c1) a len =
     (same_prefix (min len pl) a ad \<and>
      (ipa_getbit I ac (len - 1) \<or>
       pl < len \<and> accepts (if ipa_getbit I a pl then c1 else c0) a len))"

lemma cmask_same_prefix:
  assumes "m \<le> ip_bits I" "n \<le> ip_bits I"
  shows "ipa_compare I (ipa_and I (ipa_and I a (ipa_mkmask I n)) (ipa_and I (ipa_mkmask I m) (ipa_mkmask I n)))
      (ipa_and I b (ipa_and I (ipa_mkmask I m) (ipa_mkmask I n))) = 0 \<longleftrightarrow> same_prefix (min n m) a b"
proof -
  have 1: "ipa_and I (ipa_and I a (ipa_mkmask I n)) (ipa_and I (ipa_mkmask I m) (ipa_mkmask I n)) =
      ipa_and I a (ipa_mkmask I (min n m))"
    using assms by (intro address_eqI) auto
  have 2: "ipa_and I b (ipa_and I (ipa_mkmask I m) (ipa_mkmask I n)) = ipa_and I b (ipa_mkmask I (min n m))"
    using assms by (intro address_eqI) auto
  show ?thesis
    using assms by (simp only: compare_eq 1 2) (simp add: masked_eq_iff)
qed

lemma match_loop_accepts:
  "node_wf I n \<Longrightarrow> len \<le> ip_bits I \<Longrightarrow> 0 < len \<Longrightarrow>
   trie_match_loop I len (ipa_and I a (ipa_mkmask I len)) (ipa_mkmask I len) n = accepts n a len"
proof (induction n)
  case (TNode ad mk ac pl c0 c1)
  then show ?case
    by (cases "ipa_getbit I a pl") (simp_all add: cmask_same_prefix Let_def not_le)
qed simp

section \<open>Insertion\<close>

text \<open>What the new pattern accepts.\<close>

definition adds :: "'a \<Rightarrow> nat \<Rightarrow> 'a \<Rightarrow> 'a \<Rightarrow> nat \<Rightarrow> bool" where
  "adds px plen amask a len \<longleftrightarrow> same_prefix (min len plen) a px \<and> ipa_getbit I amask (len - 1)"

lemma getbit_prefix:
  "plen \<le> ip_bits I \<Longrightarrow> i < plen \<Longrightarrow> ipa_getbit I (ipa_and I px (ipa_mkmask I plen)) i = ipa_getbit I px i"
  by simp

lemma same_prefix_masked:
  assumes "n \<le> plen" "plen \<le> ip_bits I"
  shows "same_prefix n (ipa_and I px (ipa_mkmask I plen)) b \<longleftrightarrow> same_prefix n px b"
    "same_prefix n b (ipa_and I px (ipa_mkmask I plen)) \<longleftrightarrow> same_prefix n b px"
  using assms by (auto simp: same_prefix_def)

lemma same_prefix_comm: "same_prefix n a b \<Longrightarrow> same_prefix n a c \<longleftrightarrow> same_prefix n b c"
  by (auto simp: same_prefix_def)

lemma accepts_new_node:
  "plen \<le> ip_bits I \<Longrightarrow>
   accepts (new_node plen (ipa_and I px (ipa_mkmask I plen)) pmask amask) a len = adds px plen amask a len"
  by (simp add: new_node_def adds_def same_prefix_masked)

lemma accepts_same_prefix:
  "accepts n a len \<Longrightarrow> n \<noteq> TNull \<and> same_prefix (min len (t_plen n)) a (t_addr n)"
  by (cases n) simp_all

text \<open>A node is accepted on one side of a bit only.\<close>

lemma accepts_side:
  assumes "accepts n a len" "pl < len" "pl < t_plen n"
  shows "ipa_getbit I a pl = ipa_getbit I (t_addr n) pl" "same_prefix pl a (t_addr n)"
  using accepts_same_prefix [OF assms(1)] assms(2,3) by (auto simp: same_prefix_def)

lemma adds_side:
  assumes "adds px plen amask a len" "pl < len" "pl < plen"
  shows "ipa_getbit I a pl = ipa_getbit I px pl" "same_prefix pl a px"
  using assms by (auto simp: adds_def same_prefix_def)

text \<open>The three places where a node is linked.\<close>

lemma accepts_above:
  assumes n: "n \<noteq> TNull" "plen < t_plen n" "same_prefix plen px (t_addr n)"
    and ac: "\<And>a len. 0 < len \<Longrightarrow> len \<le> plen \<Longrightarrow>
      accepts n a len \<longleftrightarrow> same_prefix len a px \<and> ipa_getbit I ac (len - 1)"
    and len: "0 < len" "len \<le> ip_bits I" and plen: "plen \<le> ip_bits I"
  shows "accepts (attach_node I (new_node plen (ipa_and I px (ipa_mkmask I plen)) pmask
      (ipa_or I amask (ipa_and I ac (ipa_mkmask I plen)))) n) a len \<longleftrightarrow>
    accepts n a len \<or> adds px plen amask a len"
proof (cases "len \<le> plen")
  case True
  then have "len - 1 < plen" using len by simp
  with True show ?thesis
    using plen by (auto simp: attach_node_def new_node_def adds_def same_prefix_masked ac [OF len(1) True])
next
  case False
  then have "\<not> len - 1 < plen" by simp
  moreover have side: "same_prefix plen a px \<and> ipa_getbit I a plen = ipa_getbit I (t_addr n) plen"
    if "accepts n a len"
    using accepts_side [OF that _ n(2)] False n(3) same_prefix_sym same_prefix_trans
    by (meson not_le)
  moreover have "\<not> ipa_getbit I (ipa_mkmask I plen) (len - 1)"
    using \<open>\<not> len - 1 < plen\<close> len plen by simp
  ultimately show ?thesis
    using False plen by (auto simp: attach_node_def new_node_def adds_def same_prefix_masked)
qed

lemma accepts_branch:
  fixes ad px :: 'a
  defines "blen \<equiv> ipa_pxlen I px ad"
  assumes n: "n \<noteq> TNull" "t_addr n = ad" "blen < t_plen n" and plen: "blen < plen" "plen \<le> ip_bits I"
    and ac: "\<And>a len. 0 < len \<Longrightarrow> len \<le> blen \<Longrightarrow>
      accepts n a len \<longleftrightarrow> same_prefix len a ad \<and> ipa_getbit I ac (len - 1)"
    and len: "0 < len" "len \<le> ip_bits I"
  shows "accepts (attach_node I (attach_node I
      (new_node blen (ipa_and I px (ipa_mkmask I blen)) bmask
        (ipa_and I (ipa_or I amask ac) (ipa_mkmask I blen))) n)
      (new_node plen (ipa_and I px (ipa_mkmask I plen)) pmask amask)) a len \<longleftrightarrow>
    accepts n a len \<or> adds px plen amask a len"
proof -
  have b: "blen < ip_bits I" using plen by simp
  then have d: "ipa_getbit I px blen \<noteq> ipa_getbit I ad blen" and same: "same_prefix blen px ad"
    using pxlen_differ [of px ad] pxlen_iff [of blen px ad] by (auto simp: blen_def)
  have same': "same_prefix m a px \<longleftrightarrow> same_prefix m a ad" if "m \<le> blen" for m
    using same_prefix_mono [OF same that] by (auto simp: same_prefix_def)
  let ?a = "new_node plen (ipa_and I px (ipa_mkmask I plen)) pmask amask"
  have tree: "accepts (attach_node I (attach_node I
      (new_node blen (ipa_and I px (ipa_mkmask I blen)) bmask
        (ipa_and I (ipa_or I amask ac) (ipa_mkmask I blen))) n) ?a) a len \<longleftrightarrow>
    same_prefix (min len blen) a px \<and>
    (len \<le> blen \<and> (ipa_getbit I amask (len - 1) \<or> ipa_getbit I ac (len - 1)) \<or>
     blen < len \<and> (if ipa_getbit I a blen = ipa_getbit I px blen then adds px plen amask a len
       else accepts n a len))"
    using d b n(2) plen len accepts_new_node [OF plen(2), of px pmask amask a len]
    by (auto simp: attach_node_def new_node_def same_prefix_masked)
  show ?thesis
  proof (cases "len \<le> blen")
    case True
    then show ?thesis
      using plen(1) unfolding tree by (auto simp: adds_def same' ac [OF len(1) True])
  next
    case False
    then show ?thesis
      unfolding tree using d n accepts_side [of n a len blen] adds_side [of px plen amask a len blen]
        plen(1) same' [of blen] by auto
  qed
qed

lemma pxlen_masked:
  assumes "plen \<le> ip_bits I" "\<not> same_prefix (min plen pl) px ad"
  shows "ipa_pxlen I (ipa_and I px (ipa_mkmask I plen)) ad = ipa_pxlen I px ad"
    "ipa_pxlen I px ad < plen" "ipa_pxlen I px ad < pl"
proof -
  let ?paddr = "ipa_and I px (ipa_mkmask I plen)"
  have lt: "ipa_pxlen I px ad < min plen pl"
    using assms pxlen_iff [of "min plen pl" px ad] by (simp add: min.coboundedI1 not_le)
  then show "ipa_pxlen I px ad < plen" "ipa_pxlen I px ad < pl" by auto
  have "m \<le> ipa_pxlen I ?paddr ad \<longleftrightarrow> m \<le> ipa_pxlen I px ad" if "m \<le> plen" for m
    using that assms(1) by (simp add: pxlen_iff same_prefix_masked)
  from this [of "ipa_pxlen I px ad"] this [of "Suc (ipa_pxlen I px ad)"] lt
  show "ipa_pxlen I ?paddr ad = ipa_pxlen I px ad" by simp
qed

lemma below_sideD:
  "below I ad pl b c \<Longrightarrow> c \<noteq> TNull \<Longrightarrow>
   pl < t_plen c \<and> same_prefix pl (t_addr c) ad \<and> ipa_getbit I (t_addr c) pl = b"
  by (simp add: below_def)

lemma wf_set_child:
  assumes "node_wf I (TNode ad mk ac pl c0 c1)" "node_wf I r" "below I ad pl b r"
  shows "node_wf I (set_child (TNode ad mk ac' pl c0 c1) b r)"
  using assms by (cases b) simp_all

lemma below_mono: "below I ad pl b c \<Longrightarrow> same_prefix pl ad ad' \<Longrightarrow> below I ad' pl b c"
  by (auto simp: below_def intro: same_prefix_trans)

text \<open>
  The insertion loop: the new node is well-formed and is not null, it stays below each parent
  that the old one was below and that the new prefix extends, and it accepts in addition what the
  pattern accepts.
\<close>

definition add_post :: "'a \<Rightarrow> nat \<Rightarrow> 'a \<Rightarrow> 'a trie_node \<Rightarrow> 'a trie_node \<times> bool \<Rightarrow> bool" where
  "add_post px plen amask n res \<longleftrightarrow> (case res of (r, fresh) \<Rightarrow>
     r \<noteq> TNull \<and> node_wf I r \<and>
     (fresh \<or> n \<noteq> TNull \<and> t_plen r = t_plen n \<and> t_addr r = t_addr n) \<and>
     (\<forall>ad pl b. below I ad pl b n \<and> pl < plen \<and> same_prefix pl px ad \<and> ipa_getbit I px pl = b \<longrightarrow>
        below I ad pl b r) \<and>
     (\<forall>a len. 0 < len \<and> len \<le> ip_bits I \<longrightarrow>
        accepts r a len = (accepts n a len \<or> adds px plen amask a len)))"

lemma add_above:
  assumes wf: "node_wf I (TNode ad mk ac pl c0 c1)" and plen: "plen < pl" "same_prefix plen px ad"
  shows "add_post px plen amask (TNode ad mk ac pl c0 c1)
    (attach_node I (new_node plen (ipa_and I px (ipa_mkmask I plen)) (ipa_mkmask I plen)
       (ipa_or I amask (ipa_and I ac (ipa_mkmask I plen)))) (TNode ad mk ac pl c0 c1), True)"
    (is "add_post _ _ _ ?n (?r, True)")
proof -
  have pb: "plen \<le> ip_bits I" using wf plen by simp
  have acc: "accepts ?r a len = (accepts ?n a len \<or> adds px plen amask a len)"
    if "0 < len" "len \<le> ip_bits I" for a len
    by (rule accepts_above [OF _ _ _ _ that pb])
      (use plen same_prefix_comm [of _ px ad] same_prefix_sym in \<open>auto simp: same_prefix_def\<close>)
  have "below I (ipa_and I px (ipa_mkmask I plen)) plen (ipa_getbit I ad plen) ?n"
    using plen pb by (auto simp: below_def same_prefix_masked intro: same_prefix_sym)
  then have "node_wf I ?r"
    using wf pb by (simp add: attach_node_def new_node_def below_def)
  moreover have "?r \<noteq> TNull" by (simp add: attach_node_def new_node_def)
  moreover have "below I ad' pl' b ?r"
    if "below I ad' pl' b ?n" "pl' < plen" "same_prefix pl' px ad'" "ipa_getbit I px pl' = b" for ad' pl' b
    using that pb by (simp add: below_def attach_node_def new_node_def same_prefix_masked)
  ultimately show ?thesis using acc by (simp add: add_post_def)
qed

lemma add_branch:
  fixes ad px :: 'a
  defines "blen \<equiv> ipa_pxlen I px ad"
  assumes wf: "node_wf I (TNode ad mk ac pl c0 c1)" and plen: "plen \<le> ip_bits I" "blen < plen" "blen < pl"
  shows "add_post px plen amask (TNode ad mk ac pl c0 c1)
    (attach_node I (attach_node I
      (new_node blen (ipa_and I px (ipa_mkmask I blen)) (ipa_mkmask I blen)
        (ipa_and I (ipa_or I amask ac) (ipa_mkmask I blen))) (TNode ad mk ac pl c0 c1))
      (new_node plen (ipa_and I px (ipa_mkmask I plen)) (ipa_mkmask I plen) amask), True)"
    (is "add_post _ _ _ ?n (?r, True)")
proof -
  have b: "blen < ip_bits I" using plen by simp
  then have d: "ipa_getbit I px blen \<noteq> ipa_getbit I ad blen" and same: "same_prefix blen px ad"
    using pxlen_differ [of px ad] pxlen_iff [of blen px ad] by (auto simp: blen_def)
  have acc: "accepts ?r a len = (accepts ?n a len \<or> adds px plen amask a len)"
    if "0 < len" "len \<le> ip_bits I" for a len
    unfolding blen_def by (rule accepts_branch [OF _ _ _ _ plen(1) _ that])
      (use plen in \<open>auto simp: blen_def\<close>)
  have "node_wf I ?r"
    using wf plen b d same
    by (auto simp: attach_node_def new_node_def below_def same_prefix_masked intro: same_prefix_sym)
  moreover have "?r \<noteq> TNull" by (auto simp: attach_node_def new_node_def)
  moreover have "below I ad' pl' b' ?r"
    if "below I ad' pl' b' ?n" "pl' < plen" "same_prefix pl' px ad'" "ipa_getbit I px pl' = b'" for ad' pl' b'
  proof -
    have "same_prefix (Suc pl') px ad"
      using that by (simp add: below_def same_prefix_Suc) (meson same_prefix_sym same_prefix_trans)
    then have "pl' < blen"
      using that(2) plen pxlen_iff [of "Suc pl'" px ad] by (simp add: blen_def)
    then show ?thesis
      using that b d by (auto simp: below_def attach_node_def new_node_def same_prefix_masked)
  qed
  ultimately show ?thesis using acc by (simp add: add_post_def)
qed

lemma add_deeper:
  assumes wf: "node_wf I (TNode ad mk ac pl c0 c1)" and plen: "pl < plen" "plen \<le> ip_bits I"
    and px: "same_prefix pl px ad"
  defines "k \<equiv> ipa_getbit I px pl"
  assumes r: "add_post px plen amask (if k then c1 else c0) (r, fresh)"
  shows "add_post px plen amask (TNode ad mk ac pl c0 c1)
    (set_child (TNode ad mk (ipa_or I ac (ipa_and I amask mk)) pl c0 c1) k r, False) \<and>
    ipa_getbit I (t_addr r) pl = k"
    (is "add_post _ _ _ ?n (?r, False) \<and> _")
proof -
  have "below I ad pl k (if k then c1 else c0)" using wf by simp
  then have bl: "below I ad pl k r"
    using r plen(1) px by (auto simp: add_post_def k_def)
  then have side: "ipa_getbit I (t_addr r) pl = k"
    using r by (simp add: add_post_def below_def)
  have "node_wf I r" using r by (simp add: add_post_def)
  then have wf': "node_wf I ?r" by (rule wf_set_child [OF wf _ bl])
  have acc: "accepts ?r a len = (accepts ?n a len \<or> adds px plen amask a len)"
    if len: "0 < len" "len \<le> ip_bits I" for a len
  proof (cases "len \<le> pl")
    case True
    then have "same_prefix len a px = same_prefix len a ad"
      using same_prefix_mono [OF px True] by (auto simp: same_prefix_def)
    moreover from True len have "len - 1 < pl" by simp
    then have "ipa_getbit I mk (len - 1)"
      using wf len getbit_mkmask [of pl "len - 1"] by simp
    ultimately show ?thesis using True plen(1) by (cases k) (auto simp: adds_def)
  next
    case False
    then have "\<not> ipa_getbit I mk (len - 1)"
      using wf len getbit_mkmask [of pl "len - 1"] by simp
    moreover have "accepts r a len = (accepts (if k then c1 else c0) a len \<or> adds px plen amask a len)"
      using r len by (simp add: add_post_def)
    moreover have "same_prefix pl a ad \<and> ipa_getbit I a pl = k" if "adds px plen amask a len"
      using adds_side [OF that _ plen(1)] False px same_prefix_trans by (auto simp: k_def)
    ultimately show ?thesis using False by (cases k; cases "ipa_getbit I a pl") auto
  qed
  have "t_plen ?r = pl" "t_addr ?r = ad" "?r \<noteq> TNull" by (cases k; simp)+
  then have "add_post px plen amask ?n (?r, False)"
    unfolding add_post_def prod.case using wf' acc by (intro conjI allI impI) (simp_all add: below_def)
  with side show ?thesis by blast
qed

lemma add_loop_spec:
  assumes "plen \<le> ip_bits I" "node_wf I n"
  shows "add_post px plen amask n (trie_add_loop I px plen (ipa_and I px (ipa_mkmask I plen))
    (ipa_mkmask I plen) amask n)"
  using assms(2)
proof (induction n)
  case TNull
  then show ?case
    using assms(1)
    by (auto simp: add_post_def accepts_new_node) (auto simp: new_node_def below_def same_prefix_masked)
next
  case (TNode ad mk ac pl c0 c1)
  let ?n = "TNode ad mk ac pl c0 c1" and ?paddr = "ipa_and I px (ipa_mkmask I plen)"
  have pl: "pl \<le> ip_bits I" "mk = ipa_mkmask I pl" using TNode.prems by simp_all
  have cmp: "ipa_compare I (ipa_and I ?paddr (ipa_and I mk (ipa_mkmask I plen)))
      (ipa_and I ad (ipa_and I mk (ipa_mkmask I plen))) = 0 \<longleftrightarrow> same_prefix (min plen pl) px ad"
    unfolding pl(2) by (rule cmask_same_prefix [OF pl(1) assms(1)])
  consider (out) "\<not> same_prefix (min plen pl) px ad" | (above) "same_prefix plen px ad" "plen < pl"
    | (same) "same_prefix plen px ad" "plen = pl" | (deeper) "same_prefix pl px ad" "pl < plen"
    by (cases "same_prefix (min plen pl) px ad"; cases plen pl rule: linorder_cases) auto
  then show ?case
  proof cases
    case out
    note px = pxlen_masked [OF assms(1) out]
    show ?thesis
      using add_branch [OF TNode.prems assms(1) px(2,3)] out by (simp add: cmp px(1) Let_def)
  next
    case above
    then show ?thesis
      using add_above [OF TNode.prems above(2,1)] by (simp add: cmp Let_def min_def)
  next
    case same
    then have "accepts (TNode ad mk (ipa_or I ac amask) pl c0 c1) a len =
        (accepts ?n a len \<or> adds px plen amask a len)" for a len
      using same_prefix_mono [OF same(1), of "min len plen"] by (auto simp: adds_def same_prefix_def)
    then show ?thesis
      using same TNode.prems unfolding trie_add_loop.simps Let_def cmp
      by (simp add: add_post_def below_def)
  next
    case deeper
    let ?k = "ipa_getbit I px pl"
    obtain r fresh where r: "trie_add_loop I px plen ?paddr (ipa_mkmask I plen) amask
        (if ?k then c1 else c0) = (r, fresh)" by fastforce
    have "add_post px plen amask (if ?k then c1 else c0) (r, fresh)"
      using TNode r by (cases ?k) auto
    note d = add_deeper [OF TNode.prems deeper(2) assms(1) deeper(1) this]
    have "ipa_getbit I ?paddr pl = ?k" using deeper assms(1) by simp
    with d r deeper show ?thesis
      by (simp add: cmp Let_def attach_node_def min_def)
  qed
qed

text \<open>The whole trie.\<close>

lemma new_trie_wf: "trie_wf I (f_new_trie I)"
  by (simp add: trie_wf_def f_new_trie_def below_def address_eqI [of "ip_none I" "ipa_mkmask I 0"])

lemma new_trie_match: "len \<le> ip_bits I \<Longrightarrow> \<not> trie_match_prefix I (f_new_trie I) a len"
proof -
  have "\<not> accepts (tr_root (f_new_trie I)) a len" "\<not> tr_zero (f_new_trie I)"
    by (simp_all add: f_new_trie_def)
  moreover assume "len \<le> ip_bits I"
  ultimately show ?thesis
    using match_loop_accepts [of "tr_root (f_new_trie I)" len a] new_trie_wf
    by (simp add: trie_match_prefix_def trie_wf_def Let_def)
qed

lemma adds_pattern:
  assumes "l \<le> h" "h \<le> ip_bits I" "0 < len" "len \<le> ip_bits I"
  shows "adds pa (if h < pplen then h else pplen)
      (ipa_xor I (ipa_mkmask I (if l = 0 then l else l - 1)) (ipa_mkmask I h)) a len \<longleftrightarrow>
    pattern_match I (pa, pplen, l, h) a len"
proof -
  have "len - 1 < h \<longleftrightarrow> len \<le> h" "len - 1 < l - 1 \<longleftrightarrow> len < l" "len - 1 < ip_bits I"
    using assms by auto
  then have "ipa_getbit I (ipa_xor I (ipa_mkmask I (if l = 0 then l else l - 1)) (ipa_mkmask I h)) (len - 1)
      \<longleftrightarrow> l \<le> len \<and> len \<le> h"
    using assms by (cases "l = 0") (auto simp: not_less)
  moreover have "min len (if h < pplen then h else pplen) = min len pplen" if "len \<le> h"
    using that by auto
  ultimately show ?thesis by (auto simp: adds_def)
qed

lemma add_prefix_spec:
  assumes wf: "trie_wf I t" and ok: "pattern_ok I (pa, pplen, l, h)"
  shows "\<exists>t'. trie_add_prefix I t pa pplen l h = Inr t' \<and> trie_wf I t' \<and>
    (\<forall>a len. len \<le> ip_bits I \<longrightarrow> trie_match_prefix I t' a len =
       (trie_match_prefix I t a len \<or> pattern_match I (pa, pplen, l, h) a len))"
proof -
  let ?plen = "if h < pplen then h else pplen"
  let ?amask = "ipa_xor I (ipa_mkmask I (if l = 0 then l else l - 1)) (ipa_mkmask I h)"
  let ?mask = "ipa_mkmask I ?plen"
  obtain r fresh where r: "trie_add_loop I pa ?plen (ipa_and I pa ?mask) ?mask ?amask (tr_root t) = (r, fresh)"
    by fastforce
  have plen: "?plen \<le> ip_bits I" using ok by auto
  have post: "add_post pa ?plen ?amask (tr_root t) (r, fresh)"
    using add_loop_spec [OF plen, of "tr_root t" pa ?amask] wf r by (simp add: trie_wf_def)
  have "\<not> fresh"
  proof -
    obtain ad mk ac c0 c1 where root: "tr_root t = TNode ad mk ac 0 c0 c1" and mk: "mk = ipa_mkmask I 0"
      using wf by (cases "tr_root t") (auto simp: trie_wf_def)
    have "ipa_compare I (ipa_and I (ipa_and I pa ?mask) (ipa_and I mk ?mask)) (ipa_and I ad (ipa_and I mk ?mask)) = 0"
      unfolding mk using cmask_same_prefix [OF _ plen, of 0] by (simp add: same_prefix_def)
    with r [unfolded root trie_add_loop.simps Let_def] show ?thesis
      by (auto split: if_splits prod.splits)
  qed
  then have add: "trie_add_prefix I t pa pplen l h =
      Inr \<lparr>tr_zero = (if l = 0 then True else tr_zero t), tr_root = r\<rparr>" (is "_ = Inr ?t")
    using r by (simp only: trie_add_prefix_def Let_def) simp
  have "trie_wf I ?t" using post wf \<open>\<not> fresh\<close> by (simp add: trie_wf_def add_post_def)
  moreover have "trie_match_prefix I ?t a len = (trie_match_prefix I t a len \<or> pattern_match I (pa, pplen, l, h) a len)"
    if len: "len \<le> ip_bits I" for a len
  proof (cases "len = 0")
    case True
    then show ?thesis by (auto simp: trie_match_prefix_def same_prefix_def)
  next
    case False
    then have "accepts r a len = (accepts (tr_root t) a len \<or> pattern_match I (pa, pplen, l, h) a len)"
      using post adds_pattern [of l h len pa pplen a] ok len by (simp add: add_post_def)
    then show ?thesis
      using False len post wf match_loop_accepts [of r len a] match_loop_accepts [of "tr_root t" len a]
      by (simp add: trie_match_prefix_def Let_def add_post_def trie_wf_def)
  qed
  ultimately show ?thesis using add by blast
qed

lemma add_all_spec:
  "trie_wf I t \<Longrightarrow> list_all (pattern_ok I) ps \<Longrightarrow>
   \<exists>t'. trie_add_all I ps t = Inr t' \<and> trie_wf I t' \<and>
     (\<forall>a len. len \<le> ip_bits I \<longrightarrow> trie_match_prefix I t' a len =
        (trie_match_prefix I t a len \<or> (\<exists>p \<in> set ps. pattern_match I p a len)))"
proof (induction ps arbitrary: t)
  case (Cons p ps)
  obtain pa pplen l h where p: "p = (pa, pplen, l, h)" by (cases p)
  obtain t1 where t1: "trie_add_prefix I t pa pplen l h = Inr t1" "trie_wf I t1"
      "\<forall>a len. len \<le> ip_bits I \<longrightarrow> trie_match_prefix I t1 a len =
         (trie_match_prefix I t a len \<or> pattern_match I p a len)"
    using add_prefix_spec [OF Cons.prems(1), of pa pplen l h] Cons.prems(2) p by auto
  obtain t2 where "trie_add_all I ps t1 = Inr t2" "trie_wf I t2"
      "\<forall>a len. len \<le> ip_bits I \<longrightarrow> trie_match_prefix I t2 a len =
         (trie_match_prefix I t1 a len \<or> (\<exists>p \<in> set ps. pattern_match I p a len))"
    using Cons.IH [OF t1(2)] Cons.prems(2) by auto
  with t1 p show ?case by auto
qed simp

lemma node_same_iff:
  "node_wf I n \<Longrightarrow> node_wf I m \<Longrightarrow> trie_node_same n m \<longleftrightarrow> n = m"
  by (induction n m rule: trie_node_same.induct) (auto simp: ipa_equal_def)

end

section \<open>Properties\<close>

text \<open>C22. Prefix sets. The trie that \<open>trie_add_prefix\<close> builds from any list of patterns, in any order,
  matches a prefix exactly when one of the patterns matches it; the function never follows a null
  pointer, and path compression and the sharing of the accept mask
  between the node and its descendants do not change the set.\<close>

theorem trie_matches_patterns:
  assumes "ip_address I" "list_all (pattern_ok I) ps"
  shows "\<exists>t. trie_add_all I ps (f_new_trie I) = Inr t \<and> trie_wf I t \<and>
    (\<forall>px plen. plen \<le> ip_bits I \<longrightarrow>
       trie_match_prefix I t px plen = (\<exists>p \<in> set ps. pattern_match I p px plen))"
  using ip_address.add_all_spec [OF assms(1) ip_address.new_trie_wf [OF assms(1)] assms(2)]
    ip_address.new_trie_match [OF assms(1)] by auto

definition sample_patterns :: "u32 pattern list" where
  "sample_patterns = [(0x0a000000, 8, 8, 32), (0x0a010000, 16, 0, 16), (0xc0a80000, 16, 24, 24)]"

theorem trie_matches_patterns_witness:
  "\<exists>t. trie_add_all ip4_ops sample_patterns (f_new_trie ip4_ops) = Inr t \<and>
     trie_match_prefix ip4_ops t 0xc0a80100 24 \<and> trie_match_prefix ip4_ops t 0x0a000000 4"
proof -
  have "list_all (pattern_ok ip4_ops) sample_patterns" by (simp add: sample_patterns_def)
  from trie_matches_patterns [OF ip4.ip_address_axioms this] obtain t where
    t: "trie_add_all ip4_ops sample_patterns (f_new_trie ip4_ops) = Inr t"
      "\<forall>px plen. plen \<le> 32 \<longrightarrow> trie_match_prefix ip4_ops t px plen =
         (\<exists>p \<in> set sample_patterns. pattern_match ip4_ops p px plen)" by auto
  have "pattern_match ip4_ops (0xc0a80000, 16, 24, 24) 0xc0a80100 24"
    "pattern_match ip4_ops (0x0a010000, 16, 0, 16) 0x0a000000 4"
    by (simp_all add: ip4.masked_eq_iff [symmetric] min_def mask_numeral)
  then show ?thesis using t by (intro exI [of _ t]) (auto simp: sample_patterns_def)
qed

text \<open>\<open>trie_same\<close> decides equality of well-formed tries, though it does not look at the masks:
  so two prefix sets that it calls the same match the same prefixes.\<close>

theorem trie_same_decides:
  assumes "ip_address I" "trie_wf I t1" "trie_wf I t2"
  shows "trie_same t1 t2 \<longleftrightarrow> t1 = t2"
  using ip_address.node_same_iff [OF assms(1), of "tr_root t1" "tr_root t2"] assms(2,3)
  by (cases t1; cases t2) (simp add: trie_same_def trie_wf_def)

theorem trie_same_decides_witness: "trie_same (f_new_trie ip4_ops) (f_new_trie ip4_ops)"
  using trie_same_decides [OF ip4.ip_address_axioms ip4.new_trie_wf ip4.new_trie_wf] by simp

end
