(* ===== verification/RtNotify.thy ===== *)
theory RtNotify
  imports Nexthops EaList
begin

text \<open>
  Routes of a routing table and their export to the protocols, \<open>nest/rt-table.c\<close>: export
  filters, export limits and the statistics, and the notification of a protocol about the best
  route, any route, the first accepted route, or the merged multipath route of a network.
\<close>

section \<open>Routes\<close>

record 'i rta =
  a_src :: nat
  a_source :: u8
  a_scope :: u8
  a_cast :: u8
  a_dest :: u8
  a_flags :: u8
  a_igp_metric :: u32
  a_gw :: 'i
  a_from :: 'i
  a_hostentry :: "nat option"
  a_iface :: iface
  a_nexthops :: "'i mpnh list"
  a_eattrs :: "ea_seg list"
  a_cached :: bool

text \<open>
  \<open>struct rte\<close>, of one network; \<open>r_ref\<close> is the address of the structure, \<open>r_sender\<close> the
  announce hook, and \<open>r_u\<close> the data of the protocol. Addresses are compared only for routes of the
  table; a temporary copy keeps the \<open>r_ref\<close> of its original. \<open>a_cached\<close> is \<open>rta_is_cached\<close>; as the
  cache has one copy of each block, two cached blocks are at the same address when they are equal.
\<close>

record ('i, 'u) route =
  r_ref :: nat
  r_sender :: nat
  r_attrs :: "'i rta"
  r_flags :: u8
  r_pflags :: u8
  r_pref :: u16
  r_lastmod :: int
  r_u :: 'u

definition REF_COW :: u8 where "REF_COW = 1"
definition REF_FILTERED :: u8 where "REF_FILTERED = 2"
definition REF_STALE :: u8 where "REF_STALE = 4"
definition REF_DISCARD :: u8 where "REF_DISCARD = 8"

definition is_valid :: "('i, 'u) route \<Rightarrow> bool" where
  "is_valid r \<longleftrightarrow> r_flags r AND REF_FILTERED = 0"

definition rte_is_valid :: "('i, 'u) route option \<Rightarrow> bool" where
  "rte_is_valid r = (case r of None \<Rightarrow> False | Some e \<Rightarrow> is_valid e)"

definition rte_is_reachable :: "('i, 'u) route \<Rightarrow> bool" where
  "rte_is_reachable r \<longleftrightarrow>
     (let d = a_dest (r_attrs r) in d = RTD_ROUTER \<or> d = RTD_DEVICE \<or> d = RTD_MULTIPATH)"

text \<open>Private copies of a route, of the route and its attributes.\<close>

definition rte_do_cow :: "('i, 'u) route \<Rightarrow> ('i, 'u) route" where
  "rte_do_cow r = r\<lparr>r_flags := 0\<rparr>"

definition rte_cow :: "('i, 'u) route \<Rightarrow> ('i, 'u) route" where
  "rte_cow r = (if r_flags r AND REF_COW \<noteq> 0 then rte_do_cow r else r)"

definition rte_cow_rta :: "('i, 'u) route \<Rightarrow> ('i, 'u) route" where
  "rte_cow_rta r =
     (if \<not> a_cached (r_attrs r) then r
      else (rte_cow r)\<lparr>r_attrs := (r_attrs r)\<lparr>a_cached := False\<rparr>\<rparr>)"

text \<open>Comparison of pointers.\<close>

definition same_ref :: "('i, 'u) route option \<Rightarrow> ('i, 'u) route option \<Rightarrow> bool" where
  "same_ref a b \<longleftrightarrow> map_option r_ref a = map_option r_ref b"

section \<open>Protocols, announce hooks and statistics\<close>

datatype filt = Filter_accept | Filter_reject | Filter_run nat

text \<open>
  What the table knows of the protocols: the protocol of a source and of an announce hook, the
  address of \<open>struct protocol\<close>, the limit of merged next hops, and the hooks, some of which may be
  missing. \<open>e_run\<close> is \<open>f_run\<close>, without its side effects on the log: a filter, whether it forces
  temporary attributes, a route and its temporary attributes give whether the route is accepted,
  and both after the run.
\<close>

record ('i, 'u) rt_env =
  e_ip :: "'i ip_ops"
  e_src_proto :: "nat \<Rightarrow> nat"
  e_hook_proto :: "nat \<Rightarrow> nat"
  e_proto_class :: "nat \<Rightarrow> nat"
  e_proto_up :: "nat \<Rightarrow> bool"
  e_pipe_class :: "nat option"
  e_merge_limit :: "nat \<Rightarrow> u8"
  e_accept_ra :: "nat \<Rightarrow> u8"
  e_better :: "nat \<Rightarrow> (('i, 'u) route \<Rightarrow> ('i, 'u) route \<Rightarrow> bool) option"
  e_mergable :: "nat \<Rightarrow> (('i, 'u) route \<Rightarrow> ('i, 'u) route \<Rightarrow> bool) option"
  e_same :: "nat \<Rightarrow> (('i, 'u) route \<Rightarrow> ('i, 'u) route \<Rightarrow> bool) option"
  e_import_control ::
    "nat \<Rightarrow> (('i, 'u) route \<Rightarrow> ea_seg list \<Rightarrow> int \<times> ('i, 'u) route \<times> ea_seg list) option"
  e_make_tmp :: "nat \<Rightarrow> (('i, 'u) route \<Rightarrow> ea_seg list) option"
  e_store_tmp :: "nat \<Rightarrow> (('i, 'u) route \<Rightarrow> ea_seg list \<Rightarrow> ('i, 'u) route) option"
  e_run ::
    "nat \<Rightarrow> bool \<Rightarrow> ('i, 'u) route \<Rightarrow> ea_seg list \<Rightarrow> bool \<times> ('i, 'u) route \<times> ea_seg list"

record proto_stats =
  imp_routes :: u32
  filt_routes :: u32
  pref_routes :: u32
  imp_updates_received :: u32
  imp_updates_invalid :: u32
  imp_updates_filtered :: u32
  imp_updates_ignored :: u32
  imp_updates_accepted :: u32
  imp_withdraws_received :: u32
  imp_withdraws_invalid :: u32
  imp_withdraws_ignored :: u32
  imp_withdraws_accepted :: u32
  exp_routes :: u32
  exp_updates_received :: u32
  exp_updates_rejected :: u32
  exp_updates_filtered :: u32
  exp_updates_accepted :: u32
  exp_withdraws_received :: u32
  exp_withdraws_accepted :: u32

datatype limit_action = PLA_WARN | PLA_BLOCK | PLA_RESTART | PLA_DISABLE
datatype limit_state = PLS_INITIAL | PLS_ACTIVE | PLS_BLOCKED
datatype limit_dir = PLD_RX | PLD_IN | PLD_OUT

record proto_limit =
  pl_limit :: u32
  pl_action :: limit_action
  pl_state :: limit_state

text \<open>Statistics and limits are shared between hooks, so a hook has their addresses.\<close>

record ahook =
  ah_id :: nat
  ah_in_filter :: filt
  ah_out_filter :: filt
  ah_rx_limit :: "nat option"
  ah_in_limit :: "nat option"
  ah_out_limit :: "nat option"
  ah_stats :: nat
  ah_in_keep_filtered :: bool

definition ah_proto :: "('i, 'u) rt_env \<Rightarrow> ahook \<Rightarrow> nat" where
  "ah_proto E ah = e_hook_proto E (ah_id ah)"

text \<open>A call of the hook \<open>rt_notify\<close> of a protocol.\<close>

record ('i, 'u) notification =
  n_hook :: nat
  n_new :: "('i, 'u) route option"
  n_old :: "('i, 'u) route option"
  n_attrs :: "ea_seg list"

text \<open>
  The state that the update of one network works on: the statistics and limits by their addresses,
  the protocols scheduled for shutdown, the notifications sent, the counters of the garbage
  collection of the table, and the calls of the hooks \<open>rte_insert\<close> and \<open>rte_remove\<close>.
\<close>

record gc_state =
  gc_counter :: int
  gc_time :: int
  gc_scheduled :: bool

datatype ('i, 'u) hook_call = Call_remove nat "('i, 'u) route" | Call_insert nat "('i, 'u) route"

record ('i, 'u) rt_state =
  s_stats :: "nat \<Rightarrow> proto_stats"
  s_limits :: "nat \<Rightarrow> proto_limit"
  s_down :: "(nat \<times> bool \<times> limit_dir) list"
  s_out :: "('i, 'u) notification list"
  s_gc :: gc_state
  s_hooks :: "('i, 'u) hook_call list"

definition upd_stats :: "nat \<Rightarrow> (proto_stats \<Rightarrow> proto_stats) \<Rightarrow> ('i, 'u) rt_state \<Rightarrow> ('i, 'u) rt_state" where
  "upd_stats i f s = s\<lparr>s_stats := (s_stats s)(i := f (s_stats s i))\<rparr>"

definition notify :: "('i, 'u) notification \<Rightarrow> ('i, 'u) rt_state \<Rightarrow> ('i, 'u) rt_state" where
  "notify n s = s\<lparr>s_out := s_out s @ [n]\<rparr>"

text \<open>\<open>proto_notify_limit\<close> (\<open>nest/proto.c\<close>); \<open>s_down\<close> records \<open>proto_schedule_down\<close>.\<close>

definition proto_notify_limit ::
  "('i, 'u) rt_env \<Rightarrow> ahook \<Rightarrow> nat \<Rightarrow> limit_dir \<Rightarrow> ('i, 'u) rt_state \<Rightarrow> ('i, 'u) rt_state"
where
  "proto_notify_limit E ah l dir s =
     (let lim = s_limits s l; set = (\<lambda>st. (s_limits s)(l := lim\<lparr>pl_state := st\<rparr>)) in
      if pl_state lim = PLS_BLOCKED then s
      else case pl_action lim of
        PLA_WARN \<Rightarrow> s\<lparr>s_limits := set PLS_ACTIVE\<rparr>
      | PLA_BLOCK \<Rightarrow> s\<lparr>s_limits := set PLS_BLOCKED\<rparr>
      | _ \<Rightarrow>
          s\<lparr>s_limits := set PLS_BLOCKED,
            s_down := (if e_proto_up E (ah_proto E ah)
              then s_down s @ [(ah_proto E ah, pl_action lim = PLA_RESTART, dir)] else s_down s)\<rparr>)"

section \<open>Comparison of routes\<close>

definition route_proto :: "('i, 'u) rt_env \<Rightarrow> ('i, 'u) route \<Rightarrow> nat" where
  "route_proto E r = e_src_proto E (a_src (r_attrs r))"

definition route_class :: "('i, 'u) rt_env \<Rightarrow> ('i, 'u) route \<Rightarrow> nat" where
  "route_class E r = e_proto_class E (route_proto E r)"

definition rte_better :: "('i, 'u) rt_env \<Rightarrow> ('i, 'u) route option \<Rightarrow> ('i, 'u) route option \<Rightarrow> bool" where
  "rte_better E new old =
     (case old of None \<Rightarrow> True | Some o' \<Rightarrow>
        if \<not> is_valid o' then True
        else case new of None \<Rightarrow> False | Some n \<Rightarrow>
          if \<not> is_valid n then False
          else if r_pref n > r_pref o' then True
          else if r_pref n < r_pref o' then False
          else if route_class E n \<noteq> route_class E o' then route_class E n > route_class E o'
          else case e_better E (route_proto E n) of Some better \<Rightarrow> better n o' | None \<Rightarrow> False)"

definition rte_mergable :: "('i, 'u) rt_env \<Rightarrow> ('i, 'u) route option \<Rightarrow> ('i, 'u) route option \<Rightarrow> bool" where
  "rte_mergable E pri sec =
     (case (pri, sec) of
        (Some p, Some s) \<Rightarrow>
          if \<not> is_valid p \<or> \<not> is_valid s then False
          else if r_pref p \<noteq> r_pref s then False
          else if route_class E p \<noteq> route_class E s then False
          else (case e_mergable E (route_proto E p) of Some m \<Rightarrow> m p s | None \<Rightarrow> False)
      | _ \<Rightarrow> False)"

section \<open>Export to one protocol\<close>

definition rte_make_tmp_attrs :: "('i, 'u) rt_env \<Rightarrow> ('i, 'u) route \<Rightarrow> ea_seg list" where
  "rte_make_tmp_attrs E r =
     (case e_make_tmp E (route_proto E r) of Some mta \<Rightarrow> mta r | None \<Rightarrow> [])"

text \<open>
  \<open>export_filter_\<close>: the route as it is exported, with its temporary attributes, or nothing.
  \<open>None\<close> for \<open>filter\<close> is \<open>FILTER_ACCEPT\<close>.
\<close>

definition export_filter ::
  "('i, 'u) rt_env \<Rightarrow> ahook \<Rightarrow> ('i, 'u) route \<Rightarrow> bool \<Rightarrow> ('i, 'u) rt_state \<Rightarrow>
   (('i, 'u) route \<times> ea_seg list) option \<times> ('i, 'u) rt_state"
where
  "export_filter E ah rt0 silent s =
     (let tmpa = rte_make_tmp_attrs E rt0;
          (v, rt, tmpa) = (case e_import_control E (ah_proto E ah) of
             Some ic \<Rightarrow> ic rt0 tmpa | None \<Rightarrow> (0, rt0, tmpa)) in
      if v < 0 then
        (None, if silent then s
               else upd_stats (ah_stats ah) (exp_updates_rejected_update (\<lambda>n. n + 1)) s)
      else if v > 0 then (Some (rt, tmpa), s)
      else
        let (acc, rt, tmpa) = (case ah_out_filter ah of
               Filter_accept \<Rightarrow> (True, rt, tmpa)
             | Filter_reject \<Rightarrow> (False, rt, tmpa)
             | Filter_run f \<Rightarrow> e_run E f True rt tmpa) in
        if \<not> acc then
          (None, if silent then s
                 else upd_stats (ah_stats ah) (exp_updates_filtered_update (\<lambda>n. n + 1)) s)
        else (Some (rt, tmpa), s))"

text \<open>
  \<open>do_rt_notify\<close>. The attributes passed to the protocol are the temporary ones followed by those
  of the route.
\<close>

definition do_rt_notify ::
  "('i, 'u) rt_env \<Rightarrow> ahook \<Rightarrow> ('i, 'u) route option \<Rightarrow> ('i, 'u) route option \<Rightarrow> ea_seg list \<Rightarrow>
   bool \<Rightarrow> ('i, 'u) rt_state \<Rightarrow> ('i, 'u) rt_state"
where
  "do_rt_notify E ah new old tmpa refeed s =
     (let s1 = (case ah_out_limit ah of
            Some l \<Rightarrow>
              if new \<noteq> None \<and> (old = None \<or> refeed) \<and>
                 exp_routes (s_stats s (ah_stats ah)) \<ge> pl_limit (s_limits s l)
              then proto_notify_limit E ah l PLD_OUT s else s
          | None \<Rightarrow> s);
          blocked = (new \<noteq> None \<and>
            (case ah_out_limit ah of Some l \<Rightarrow> pl_state (s_limits s1 l) = PLS_BLOCKED | None \<Rightarrow> False));
          s2 = (if blocked then
              upd_stats (ah_stats ah) (\<lambda>st. st\<lparr>exp_routes := exp_routes st + 1,
                exp_updates_rejected := exp_updates_rejected st + 1\<rparr>) s1 else s1);
          new1 = (if blocked then None else new) in
      if blocked \<and> old = None then s2
      else
        let s3 = upd_stats (ah_stats ah)
              (\<lambda>st. if new1 \<noteq> None then st\<lparr>exp_updates_accepted := exp_updates_accepted st + 1\<rparr>
                    else st\<lparr>exp_withdraws_accepted := exp_withdraws_accepted st + 1\<rparr>) s2;
            s4 = upd_stats (ah_stats ah)
              (\<lambda>st. if new1 \<noteq> None then st\<lparr>exp_routes := exp_routes st + 1\<rparr> else st) s3;
            s5 = upd_stats (ah_stats ah)
              (\<lambda>st. if old \<noteq> None \<and> \<not> refeed then st\<lparr>exp_routes := exp_routes st - 1\<rparr> else st) s4
        in notify \<lparr>n_hook = ah_id ah, n_new = new1, n_old = old,
             n_attrs = (case new1 of None \<Rightarrow> [] | Some n \<Rightarrow> tmpa @ a_eattrs (r_attrs n))\<rparr> s5)"

text \<open>Whether an update or a withdrawal was received.\<close>

definition count_received :: "ahook \<Rightarrow> ('i, 'u) route option \<Rightarrow> ('i, 'u) rt_state \<Rightarrow> ('i, 'u) rt_state" where
  "count_received ah new =
     upd_stats (ah_stats ah)
       (\<lambda>st. if new \<noteq> None then st\<lparr>exp_updates_received := exp_updates_received st + 1\<rparr>
             else st\<lparr>exp_withdraws_received := exp_withdraws_received st + 1\<rparr>)"

definition export_opt ::
  "('i, 'u) rt_env \<Rightarrow> ahook \<Rightarrow> ('i, 'u) route option \<Rightarrow> bool \<Rightarrow> ('i, 'u) rt_state \<Rightarrow>
   (('i, 'u) route \<times> ea_seg list) option \<times> ('i, 'u) rt_state"
where
  "export_opt E ah r silent s =
     (case r of None \<Rightarrow> (None, s) | Some e \<Rightarrow> export_filter E ah e silent s)"

definition tmp_of :: "(('i, 'u) route \<times> ea_seg list) option \<Rightarrow> ea_seg list" where
  "tmp_of x = (case x of None \<Rightarrow> [] | Some (_, t) \<Rightarrow> t)"

text \<open>A withdrawal to a pipe is passed on even if neither route was exported.\<close>

definition rt_notify_basic ::
  "('i, 'u) rt_env \<Rightarrow> ahook \<Rightarrow> ('i, 'u) route option \<Rightarrow> ('i, 'u) route option \<Rightarrow> bool \<Rightarrow>
   ('i, 'u) rt_state \<Rightarrow> ('i, 'u) rt_state res"
where
  "rt_notify_basic E ah new0 old0 refeed s =
     (let s1 = count_received ah new0 s;
          (new, s2) = export_opt E ah new0 False s1;
          (old, s3) = (if refeed then (map_option (\<lambda>o'. (o', [])) old0, s2)
                       else export_opt E ah old0 True s2) in
      if new = None \<and> old = None then
        (if e_pipe_class E = Some (e_proto_class E (ah_proto E ah)) \<and> new0 = None then
           (case old0 of None \<Rightarrow> Inl Out_of_bounds
            | Some o' \<Rightarrow>
                Inr (if ah_proto E ah \<noteq> e_hook_proto E (r_sender o')
                     then notify \<lparr>n_hook = ah_id ah, n_new = None, n_old = old0, n_attrs = []\<rparr> s3
                     else s3))
         else Inr s3)
      else Inr (do_rt_notify E ah (map_option fst new) (map_option fst old) (tmp_of new) refeed s3))"

text \<open>
  \<open>rt_notify_accepted\<close>. The first loop looks for the first route that the export filter accepts
  and returns it with the rest of the list from there on, and whether it walked past \<open>before_old\<close>.
\<close>

fun find_new_best ::
  "('i, 'u) rt_env \<Rightarrow> ahook \<Rightarrow> ('i, 'u) route option \<Rightarrow> ('i, 'u) route list \<Rightarrow> bool \<Rightarrow>
   ('i, 'u) rt_state \<Rightarrow>
   (('i, 'u) route \<times> ea_seg list) option \<times> ('i, 'u) route list \<times> bool \<times> ('i, 'u) rt_state"
where
  "find_new_best E ah before_old [] meet s = (None, [], meet, s)"
| "find_new_best E ah before_old (r # rs) meet s =
     (if \<not> is_valid r then (None, r # rs, meet, s)
      else case export_filter E ah r False s of
        (Some x, s1) \<Rightarrow> (Some x, r # rs, meet, s1)
      | (None, s1) \<Rightarrow> find_new_best E ah before_old rs (meet \<or> same_ref (Some r) before_old) s1)"

text \<open>The second loop, from the route after the new best one.\<close>

fun find_old_best ::
  "('i, 'u) rt_env \<Rightarrow> ahook \<Rightarrow> ('i, 'u) route option \<Rightarrow> ('i, 'u) route option \<Rightarrow>
   ('i, 'u) route list \<Rightarrow> ('i, 'u) rt_state \<Rightarrow>
   ((('i, 'u) route \<times> ea_seg list) option \<times> ('i, 'u) rt_state) res"
where
  "find_old_best E ah before_old old_changed [] s = Inr (None, s)"
| "find_old_best E ah before_old old_changed (r # rs) s =
     (if \<not> is_valid r then Inr (None, s)
      else case export_filter E ah r True s of
        (Some x, s1) \<Rightarrow> Inr (Some x, s1)
      | (None, s1) \<Rightarrow>
          if same_ref (Some r) before_old then
            (case old_changed of None \<Rightarrow> Inl Out_of_bounds
             | Some o' \<Rightarrow>
                 case export_filter E ah o' True s1 of
                   (Some x, s2) \<Rightarrow> Inr (Some x, s2)
                 | (None, s2) \<Rightarrow> find_old_best E ah before_old old_changed rs s2)
          else find_old_best E ah before_old old_changed rs s1)"

datatype feed = Feed_none | Feed | Refeed

definition rt_notify_accepted ::
  "('i, 'u) rt_env \<Rightarrow> ahook \<Rightarrow> ('i, 'u) route list \<Rightarrow> ('i, 'u) route option \<Rightarrow>
   ('i, 'u) route option \<Rightarrow> ('i, 'u) route option \<Rightarrow> feed \<Rightarrow> ('i, 'u) rt_state \<Rightarrow>
   ('i, 'u) rt_state res"
where
  "rt_notify_accepted E ah routes new_changed old_changed before_old fd s =
     (let old_meet = (old_changed \<noteq> None \<and> before_old = None);
          s1 = count_received ah new_changed s;
          (new_best, rest, meet, s2) = find_new_best E ah before_old routes old_meet s1;
          found = (\<lambda>old_best st. do_rt_notify E ah (map_option fst new_best) old_best (tmp_of new_best)
                     (fd = Refeed) st) in
      if fd \<noteq> Feed_none then
        (let old_best = (if fd = Refeed then
               (case new_best of Some (n, _) \<Rightarrow> Some n
                | None \<Rightarrow> (case routes of [] \<Rightarrow> None | h # _ \<Rightarrow> if is_valid h then Some h else None))
             else None) in
         Inr (if new_best = None \<and> old_best = None then s2 else found old_best s2))
      else
        case (if meet then export_opt E ah old_changed True s2 else (None, s2)) of
          (Some (o', _), s3) \<Rightarrow> Inr (found (Some o') s3)
        | (None, s3) \<Rightarrow>
            if new_best = None then Inr s3
            else if \<not> same_ref (Some (hd rest)) new_changed then Inr s3
            else rmap (\<lambda>(old_best, s4). found (map_option fst old_best) s4)
                   (find_old_best E ah before_old old_changed (tl rest) s3))"

text \<open>The merged multipath route.\<close>

definition mpnh_merge_rta ::
  "('i, 'u) rt_env \<Rightarrow> 'i mpnh list \<Rightarrow> 'i rta \<Rightarrow> u8 \<Rightarrow> 'i mpnh list"
where
  "mpnh_merge_rta E nhs a mx =
     (let nh2 = (if a_dest a = RTD_MULTIPATH then a_nexthops a
                 else [\<lparr>mp_gw = a_gw a, mp_iface = a_iface a, mp_weight = 0\<rparr>])
      in mpnh_merge (e_ip E) nhs nh2 (uint mx))"

fun merge_loop ::
  "('i, 'u) rt_env \<Rightarrow> ahook \<Rightarrow> ('i, 'u) route \<Rightarrow> ('i, 'u) route list \<Rightarrow> 'i mpnh list \<Rightarrow>
   ('i, 'u) rt_state \<Rightarrow> 'i mpnh list \<times> ('i, 'u) rt_state"
where
  "merge_loop E ah best0 [] nhs s = (nhs, s)"
| "merge_loop E ah best0 (rt0 # rts) nhs s =
     (if \<not> rte_mergable E (Some best0) (Some rt0) then merge_loop E ah best0 rts nhs s
      else case export_filter E ah rt0 True s of
        (None, s1) \<Rightarrow> merge_loop E ah best0 rts nhs s1
      | (Some (rt, _), s1) \<Rightarrow>
          merge_loop E ah best0 rts
            (if rte_is_reachable rt
             then mpnh_merge_rta E nhs (r_attrs rt) (e_merge_limit E (ah_proto E ah)) else nhs) s1)"

definition rt_export_merged ::
  "('i, 'u) rt_env \<Rightarrow> ahook \<Rightarrow> ('i, 'u) route list \<Rightarrow> bool \<Rightarrow> ('i, 'u) rt_state \<Rightarrow>
   (('i, 'u) route \<times> ea_seg list) option \<times> ('i, 'u) rt_state"
where
  "rt_export_merged E ah routes silent s =
     (case routes of [] \<Rightarrow> (None, s)
      | best0 # rts \<Rightarrow>
          if \<not> is_valid best0 then (None, s)
          else case export_filter E ah best0 silent s of
            (None, s1) \<Rightarrow> (None, s1)
          | (Some (best, tmpa), s1) \<Rightarrow>
              if \<not> rte_is_reachable best then (Some (best, tmpa), s1)
              else
                case merge_loop E ah best0 rts [] s1 of (nhs, s2) \<Rightarrow>
                  if nhs = [] then (Some (best, tmpa), s2)
                  else
                    let nhs2 = mpnh_merge_rta E nhs (r_attrs best) (e_merge_limit E (ah_proto E ah)) in
                    if tl nhs2 = [] then (Some (best, tmpa), s2)
                    else
                      let best = rte_cow_rta best in
                      (Some (best\<lparr>r_attrs := (r_attrs best)\<lparr>a_dest := RTD_MULTIPATH, a_nexthops := nhs2\<rparr>\<rparr>,
                         tmpa), s2))"

definition rt_notify_merged ::
  "('i, 'u) rt_env \<Rightarrow> ahook \<Rightarrow> ('i, 'u) route list \<Rightarrow> ('i, 'u) route option \<Rightarrow>
   ('i, 'u) route option \<Rightarrow> ('i, 'u) route option \<Rightarrow> ('i, 'u) route option \<Rightarrow> bool \<Rightarrow>
   ('i, 'u) rt_state \<Rightarrow> ('i, 'u) rt_state"
where
  "rt_notify_merged E ah routes new_changed old_changed new_best old_best refeed s =
     (if new_best = None \<and> old_best = None then s
      else
        let check = same_ref new_best old_best \<and> \<not> refeed;
            (n, s1) = (if check \<and> rte_mergable E new_best new_changed
                       then export_opt E ah new_changed True s else (None, s));
            (d, s2) = (if check \<and> rte_mergable E old_best old_changed
                       then export_opt E ah old_changed True s1 else (None, s1)) in
        if check \<and> n = None \<and> d = None then s2
        else
          let s3 = count_received ah new_best s2;
              (new1, s4) = (if new_best = None then (None, s3)
                            else rt_export_merged E ah routes False s3);
              (old1, s5) = (if old_best \<noteq> None \<and> \<not> refeed
                            then export_opt E ah old_best True s4
                            else (map_option (\<lambda>o'. (o', [])) old_best, s4))
          in if new1 \<noteq> None \<or> old1 \<noteq> None
             then do_rt_notify E ah (map_option fst new1) (map_option fst old1) (tmp_of new1) refeed s5
             else s5)"

definition RA_OPTIMAL :: u8 where "RA_OPTIMAL = 1"
definition RA_ACCEPTED :: u8 where "RA_ACCEPTED = 2"
definition RA_ANY :: u8 where "RA_ANY = 3"
definition RA_MERGED :: u8 where "RA_MERGED = 4"

definition only_valid :: "('i, 'u) route option \<Rightarrow> ('i, 'u) route option" where
  "only_valid r = (if rte_is_valid r then r else None)"

fun announce_hooks ::
  "('i, 'u) rt_env \<Rightarrow> ('i, 'u) route list \<Rightarrow> u8 \<Rightarrow> ('i, 'u) route option \<Rightarrow>
   ('i, 'u) route option \<Rightarrow> ('i, 'u) route option \<Rightarrow> ('i, 'u) route option \<Rightarrow>
   ('i, 'u) route option \<Rightarrow> ahook list \<Rightarrow> ('i, 'u) rt_state \<Rightarrow> ('i, 'u) rt_state res"
where
  "announce_hooks E routes type new old new_best old_best before_old [] s = Inr s"
| "announce_hooks E routes type new old new_best old_best before_old (a # hooks) s =
     rbind (if e_accept_ra E (ah_proto E a) = type then
              (if type = RA_ACCEPTED then rt_notify_accepted E a routes new old before_old Feed_none s
               else if type = RA_MERGED then
                 Inr (rt_notify_merged E a routes new old new_best old_best False s)
               else rt_notify_basic E a new old False s)
            else Inr s)
       (announce_hooks E routes type new old new_best old_best before_old hooks)"

text \<open>
  \<open>rte_announce\<close>. \<open>pstats\<close> is the address of the statistics of a protocol. The update of the host
  cache (\<open>rt_notify_hostcache\<close>) only schedules an event.
\<close>

definition rte_announce ::
  "('i, 'u) rt_env \<Rightarrow> (nat \<Rightarrow> nat) \<Rightarrow> ahook list \<Rightarrow> ('i, 'u) route list \<Rightarrow> u8 \<Rightarrow>
   ('i, 'u) route option \<Rightarrow> ('i, 'u) route option \<Rightarrow> ('i, 'u) route option \<Rightarrow>
   ('i, 'u) route option \<Rightarrow> ('i, 'u) route option \<Rightarrow> ('i, 'u) rt_state \<Rightarrow> ('i, 'u) rt_state res"
where
  "rte_announce E pstats hooks routes type new old new_best old_best before_old s =
     (let before_old = (if rte_is_valid old then before_old else None);
          new = only_valid new; old = only_valid old;
          new_best = only_valid new_best; old_best = only_valid old_best in
      if new = None \<and> old = None then Inr s
      else
        let s1 = (case new of
              Some n \<Rightarrow> if type = RA_OPTIMAL
                then upd_stats (pstats (route_proto E n)) (pref_routes_update (\<lambda>k. k + 1)) s else s
            | None \<Rightarrow> s);
            s2 = (case old of
              Some o' \<Rightarrow> if type = RA_OPTIMAL
                then upd_stats (pstats (route_proto E o')) (pref_routes_update (\<lambda>k. k - 1)) s1 else s1
            | None \<Rightarrow> s1)
        in announce_hooks E routes type new old new_best old_best before_old hooks s2)"

end
