(* ===== verification/RtUpdate.thy ===== *)
theory RtUpdate
  imports RtNotify
begin

text \<open>
  Updates of a network of a routing table, \<open>nest/rt-table.c\<close>: validation and import filtering of a
  route, replacement of the old route of the same source, import limits, the selection of the
  best route, the announcement of the change, and the refresh cycle of a protocol.
\<close>

section \<open>The table\<close>

text \<open>
  Configuration and environment of a table. \<open>t_stats\<close> gives the statistics of a protocol, \<open>t_hook_rec\<close>
  the announce hook that sent a route; \<open>t_recalculate\<close> is the hook \<open>rte_recalculate\<close> of the protocol
  of a source: from the routes of the network, the new, the old and the old best route it computes
  the result and the routes and the new route as it leaves them (the hook of BGP, the only one,
  changes neither the old route nor the order of the routes). The functions on addresses are those
  of the library of the program.
\<close>

record 'i addr_lib =
  l_bits :: nat
  l_is_prefix :: "'i \<Rightarrow> nat \<Rightarrow> bool"
  l_classify_net :: "'i \<Rightarrow> int"
  l_iaddr_host :: int
  l_scope_mask :: int
  l_scope_link :: int

record ('i, 'u) table_env =
  t_lib :: "'i addr_lib"
  t_sorted :: bool
  t_hooks :: "ahook list"
  t_hook_rec :: "nat \<Rightarrow> ahook"
  t_stats :: "nat \<Rightarrow> nat"
  t_gc_max_ops :: int
  t_gc_min_time :: int
  t_now :: int
  t_recalculate :: "nat \<Rightarrow> (('i, 'u) route list \<Rightarrow> ('i, 'u) route option \<Rightarrow> ('i, 'u) route option \<Rightarrow>
    ('i, 'u) route option \<Rightarrow> bool \<times> ('i, 'u) route list \<times> ('i, 'u) route option) option"
  t_rte_insert :: "nat \<Rightarrow> bool"
  t_rte_remove :: "nat \<Rightarrow> bool"

record ('i, 'u) network =
  n_prefix :: 'i
  n_pxlen :: nat
  n_routes :: "('i, 'u) route list"

definition head_opt :: "'a list \<Rightarrow> 'a option" where
  "head_opt xs = (case xs of [] \<Rightarrow> None | x # _ \<Rightarrow> Some x)"

fun rte_find :: "('i, 'u) route list \<Rightarrow> nat \<Rightarrow> ('i, 'u) route option" where
  "rte_find [] src = None"
| "rte_find (e # es) src = (if a_src (r_attrs e) \<noteq> src then rte_find es src else Some e)"

definition rte_validate :: "('i, 'u) rt_env \<Rightarrow> 'i addr_lib \<Rightarrow> ('i, 'u) network \<Rightarrow> ('i, 'u) route \<Rightarrow> bool" where
  "rte_validate E L n e =
     (if n_pxlen n > l_bits L \<or> \<not> l_is_prefix L (n_prefix n) (n_pxlen n) then False
      else
        let c = l_classify_net L (n_prefix n) in
        if c < 0 \<or> c AND l_iaddr_host L = 0 \<or> c AND l_scope_mask L \<le> l_scope_link L then False
        else if a_dest (r_attrs e) = RTD_MULTIPATH \<and> \<not> mpnh_is_sorted (e_ip E) (a_nexthops (r_attrs e))
        then False
        else True)"

text \<open>Cached attributes are at the same address when they are equal.\<close>

definition rte_same :: "('i, 'u) rt_env \<Rightarrow> ('i, 'u) route \<Rightarrow> ('i, 'u) route \<Rightarrow> bool" where
  "rte_same E x y \<longleftrightarrow>
     r_attrs x = r_attrs y \<and> r_flags x = r_flags y \<and> r_pflags x = r_pflags y \<and> r_pref x = r_pref y \<and>
     (case e_same E (route_proto E x) of None \<Rightarrow> True | Some same \<Rightarrow> same x y)"

definition rte_is_filtered :: "('i, 'u) route \<Rightarrow> bool" where
  "rte_is_filtered e \<longleftrightarrow> r_flags e AND REF_FILTERED \<noteq> 0"

definition rte_is_ok :: "('i, 'u) route option \<Rightarrow> bool" where
  "rte_is_ok e = (case e of None \<Rightarrow> False | Some r \<Rightarrow> \<not> rte_is_filtered r)"

section \<open>The old route\<close>

text \<open>
  The first loop of \<open>rte_recalculate\<close>: a route of the same source from another protocol, the same
  route, or the old route, the route before it, and the list without it.
\<close>

datatype ('i, 'u) old_search =
    Collision
  | Unchanged
  | Removed "('i, 'u) route option" "('i, 'u) route option" "('i, 'u) route list"

fun remove_old ::
  "('i, 'u) rt_env \<Rightarrow> nat \<Rightarrow> nat \<Rightarrow> ('i, 'u) route option \<Rightarrow> ('i, 'u) route option \<Rightarrow>
   ('i, 'u) route list \<Rightarrow> ('i, 'u) old_search"
where
  "remove_old E p src new before_old [] = Removed None None []"
| "remove_old E p src new before_old (old # rs) =
     (if a_src (r_attrs old) = src then
        (if e_hook_proto E (r_sender old) \<noteq> p then Collision
         else if (case new of None \<Rightarrow> False | Some n \<Rightarrow> rte_same E old n) then Unchanged
         else Removed (Some old) before_old rs)
      else
        case remove_old E p src new (Some old) rs of
          Removed o' b rs' \<Rightarrow> Removed o' b (old # rs')
        | x \<Rightarrow> x)"

section \<open>Limits and statistics\<close>

text \<open>
  The limits of a hook: nothing more to do, or the new route that remains, whether the new one is
  accepted, and the statistics.
\<close>

definition limit_blocks ::
  "('i, 'u) rt_env \<Rightarrow> ahook \<Rightarrow> nat \<Rightarrow> limit_dir \<Rightarrow> u32 \<Rightarrow> ('i, 'u) rt_state \<Rightarrow> bool \<times> ('i, 'u) rt_state"
where
  "limit_blocks E ah l dir n s =
     (let s1 = (if n \<ge> pl_limit (s_limits s l) then proto_notify_limit E ah l dir s else s)
      in (pl_state (s_limits s1 l) = PLS_BLOCKED, s1))"

definition count_change ::
  "('i, 'u) route option \<Rightarrow> ('i, 'u) route option \<Rightarrow> proto_stats \<Rightarrow> proto_stats"
where
  "count_change new old st =
     (let st1 = (case new of None \<Rightarrow> st | Some n \<Rightarrow>
            if rte_is_filtered n then st\<lparr>filt_routes := filt_routes st + 1\<rparr>
            else st\<lparr>imp_routes := imp_routes st + 1\<rparr>)
      in case old of None \<Rightarrow> st1 | Some o' \<Rightarrow>
            if rte_is_filtered o' then st1\<lparr>filt_routes := filt_routes st1 - 1\<rparr>
            else st1\<lparr>imp_routes := imp_routes st1 - 1\<rparr>)"

definition count_accepted :: "bool \<Rightarrow> bool \<Rightarrow> proto_stats \<Rightarrow> proto_stats" where
  "count_accepted new_ok old_ok st =
     (if new_ok then st\<lparr>imp_updates_accepted := imp_updates_accepted st + 1\<rparr>
      else if old_ok then st\<lparr>imp_withdraws_accepted := imp_withdraws_accepted st + 1\<rparr>
      else st\<lparr>imp_withdraws_ignored := imp_withdraws_ignored st + 1\<rparr>)"

definition count_ignored :: "proto_stats \<Rightarrow> proto_stats" where
  "count_ignored st = st\<lparr>imp_updates_ignored := imp_updates_ignored st + 1\<rparr>"

text \<open>\<open>None\<close>: the update is dropped. Otherwise the new route that remains and whether it is accepted.\<close>

definition import_limits ::
  "('i, 'u) rt_env \<Rightarrow> ahook \<Rightarrow> ('i, 'u) route option \<Rightarrow> ('i, 'u) route option \<Rightarrow> ('i, 'u) rt_state \<Rightarrow>
   (('i, 'u) route option \<times> bool) option \<times> ('i, 'u) rt_state"
where
  "import_limits E ah new old s =
     (let new_ok = rte_is_ok new; old_ok = rte_is_ok old; st = s_stats s (ah_stats ah);
          (rx, s1) = (case ah_rx_limit ah of
              Some l \<Rightarrow> if old = None \<and> new \<noteq> None
                then limit_blocks E ah l PLD_RX (imp_routes st + filt_routes st) s else (False, s)
            | None \<Rightarrow> (False, s)) in
      if rx then (None, upd_stats (ah_stats ah) count_ignored s1)
      else
        let (imp, s2) = (case ah_in_limit ah of
              Some l \<Rightarrow> if \<not> old_ok \<and> new_ok
                then limit_blocks E ah l PLD_IN (imp_routes (s_stats s1 (ah_stats ah))) s1 else (False, s1)
            | None \<Rightarrow> (False, s1)) in
        if imp then
          let s3 = upd_stats (ah_stats ah) count_ignored s2;
              new1 = (if ah_in_keep_filtered ah
                      then map_option (\<lambda>n. n\<lparr>r_flags := r_flags n OR REF_FILTERED\<rparr>) new else None) in
          if old = None \<and> new1 = None then (None, s3)
          else (Some (new1, False), upd_stats (ah_stats ah) (count_change new1 old) s3)
        else
          (Some (new, new_ok),
           upd_stats (ah_stats ah) (\<lambda>st. count_change new old (count_accepted new_ok old_ok st)) s2))"

section \<open>Selection of the best route\<close>

text \<open>Sorted tables: the place of the new route is looked for from the start or from \<open>before_old\<close>.\<close>

fun insert_here ::
  "('i, 'u) rt_env \<Rightarrow> ('i, 'u) route \<Rightarrow> ('i, 'u) route list \<Rightarrow> ('i, 'u) route list"
where
  "insert_here E new [] = [new]"
| "insert_here E new (r # rs) =
     (if rte_better E (Some new) (Some r) then new # r # rs else r # insert_here E new rs)"

fun insert_behind ::
  "('i, 'u) rt_env \<Rightarrow> ('i, 'u) route \<Rightarrow> ('i, 'u) route \<Rightarrow> ('i, 'u) route list \<Rightarrow> ('i, 'u) route list"
where
  "insert_behind E b new [] = []"
| "insert_behind E b new (r # rs) =
     (if r_ref r = r_ref b then r # insert_here E new rs else r # insert_behind E b new rs)"

definition insert_sorted ::
  "('i, 'u) rt_env \<Rightarrow> ('i, 'u) route option \<Rightarrow> ('i, 'u) route \<Rightarrow> ('i, 'u) route list \<Rightarrow> ('i, 'u) route list"
where
  "insert_sorted E before_old new rs =
     (case before_old of
        Some b \<Rightarrow> if \<not> rte_better E (Some new) before_old then insert_behind E b new rs
                  else insert_here E new rs
      | None \<Rightarrow> insert_here E new rs)"

text \<open>Other tables: the best route is elected and moved to the front.\<close>

fun elect_loop :: "('i, 'u) rt_env \<Rightarrow> ('i, 'u) route list \<Rightarrow> nat \<Rightarrow> nat list \<Rightarrow> nat" where
  "elect_loop E rs bp [] = bp"
| "elect_loop E rs bp (k # ks) =
     elect_loop E rs (if rte_better E (Some (rs ! k)) (Some (rs ! bp)) then k else bp) ks"

definition relink_front :: "nat \<Rightarrow> 'a list \<Rightarrow> 'a list" where
  "relink_front i rs = rs ! i # (take i rs @ drop (Suc i) rs)"

definition elect :: "('i, 'u) rt_env \<Rightarrow> ('i, 'u) route list \<Rightarrow> ('i, 'u) route list" where
  "elect E rs = (if rs = [] then [] else relink_front (elect_loop E rs 0 [1..<length rs]) rs)"

text \<open>
  The routes after the change, the new route, and the old best route, whose data the hook may have
  changed.
\<close>

definition opt_list :: "'a option \<Rightarrow> 'a list" where
  "opt_list x = (case x of None \<Rightarrow> [] | Some a \<Rightarrow> [a])"

definition select_unsorted ::
  "('i, 'u) rt_env \<Rightarrow> ('i, 'u) table_env \<Rightarrow> nat \<Rightarrow> ('i, 'u) route option \<Rightarrow> ('i, 'u) route option \<Rightarrow>
   ('i, 'u) route option \<Rightarrow> ('i, 'u) route list \<Rightarrow>
   ('i, 'u) route list \<times> ('i, 'u) route option \<times> ('i, 'u) route option"
where
  "select_unsorted E T src new old old_best rs =
     (let (force, rs, new) = (case t_recalculate T (e_src_proto E src) of
            None \<Rightarrow> (False, rs, new) | Some hook \<Rightarrow> hook rs new old old_best);
          old_first = (old \<noteq> None \<and> same_ref old old_best);
          old_best = (if old_first then old_best else head_opt rs) in
      if force then (elect E (opt_list new @ rs), new, old_best)
      else if new \<noteq> None \<and> rte_better E new old_best then (opt_list new @ rs, new, old_best)
      else if same_ref old old_best then (elect E (opt_list new @ rs), new, old_best)
      else (case new of
          Some n \<Rightarrow> (case rs of [] \<Rightarrow> [] | r # rs' \<Rightarrow> r # n # rs')
        | None \<Rightarrow> rs, new, old_best))"

definition select_routes ::
  "('i, 'u) rt_env \<Rightarrow> ('i, 'u) table_env \<Rightarrow> nat \<Rightarrow> ('i, 'u) route option \<Rightarrow> ('i, 'u) route option \<Rightarrow>
   ('i, 'u) route option \<Rightarrow> ('i, 'u) route option \<Rightarrow> ('i, 'u) route list \<Rightarrow>
   ('i, 'u) route list \<times> ('i, 'u) route option \<times> ('i, 'u) route option"
where
  "select_routes E T src new old before_old old_best rs =
     (if t_sorted T then
        (case new of Some n \<Rightarrow> insert_sorted E before_old n rs | None \<Rightarrow> rs, new, old_best)
      else select_unsorted E T src new old old_best rs)"

text \<open>\<open>new->lastmod = now\<close>, seen through the list and through the pointers.\<close>

definition touch :: "int \<Rightarrow> ('i, 'u) route option \<Rightarrow> ('i, 'u) route \<Rightarrow> ('i, 'u) route" where
  "touch now new r = (if same_ref (Some r) new then r\<lparr>r_lastmod := now\<rparr> else r)"

section \<open>The update of a network\<close>

definition rt_schedule_gc :: "gc_state \<Rightarrow> gc_state" where
  "rt_schedule_gc g = (if gc_scheduled g then g else g\<lparr>gc_scheduled := True\<rparr>)"

definition gc_check :: "('i, 'u) table_env \<Rightarrow> ('i, 'u) route list \<Rightarrow> ('i, 'u) rt_state \<Rightarrow> ('i, 'u) rt_state" where
  "gc_check T routes s =
     (if routes = [] then
        let g = s_gc s; g1 = g\<lparr>gc_counter := gc_counter g + 1\<rparr> in
        s\<lparr>s_gc := (if gc_counter g \<ge> t_gc_max_ops T \<and> gc_time g + t_gc_min_time T \<le> t_now T
                   then rt_schedule_gc g1 else g1)\<rparr>
      else s)"

definition announce_change ::
  "('i, 'u) rt_env \<Rightarrow> ('i, 'u) table_env \<Rightarrow> ('i, 'u) route list \<Rightarrow> ('i, 'u) route option \<Rightarrow>
   ('i, 'u) route option \<Rightarrow> ('i, 'u) route option \<Rightarrow> ('i, 'u) route option \<Rightarrow>
   ('i, 'u) rt_state \<Rightarrow> ('i, 'u) rt_state res"
where
  "announce_change E T routes new old old_best before_old s =
     (let ann = rte_announce E (t_stats T) (t_hooks T) routes; best = head_opt routes in
      rbind (ann RA_ANY new old None None None s) (\<lambda>s.
      rbind (if \<not> same_ref best old_best then ann RA_OPTIMAL best old_best None None None s else Inr s) (\<lambda>s.
      rbind (if t_sorted T then ann RA_ACCEPTED new old None None before_old s else Inr s) (\<lambda>s.
      ann RA_MERGED new old best old_best None s))))"

definition call_hooks ::
  "('i, 'u) table_env \<Rightarrow> nat \<Rightarrow> ('i, 'u) route option \<Rightarrow> bool \<Rightarrow> ('i, 'u) route option \<Rightarrow>
   bool \<Rightarrow> ('i, 'u) rt_state \<Rightarrow> ('i, 'u) rt_state"
where
  "call_hooks T p new new_ok old old_ok s =
     s\<lparr>s_hooks := s_hooks s
        @ (if old_ok \<and> t_rte_remove T p then map (Call_remove p) (opt_list old) else [])
        @ (if new_ok \<and> t_rte_insert T p then map (Call_insert p) (opt_list new) else [])\<rparr>"

definition rte_recalculate ::
  "('i, 'u) rt_env \<Rightarrow> ('i, 'u) table_env \<Rightarrow> ahook \<Rightarrow> ('i, 'u) route list \<Rightarrow> ('i, 'u) route option \<Rightarrow>
   nat \<Rightarrow> ('i, 'u) rt_state \<Rightarrow> (('i, 'u) route list \<times> ('i, 'u) rt_state) res"
where
  "rte_recalculate E T ah routes new src s =
     (let p = ah_proto E ah; old_best = head_opt routes in
      case remove_old E p src new None routes of
        Collision \<Rightarrow> Inr (routes, s)
      | Unchanged \<Rightarrow>
          Inr (routes, if rte_is_ok new then upd_stats (ah_stats ah) count_ignored s else s)
      | Removed old before_old rs \<Rightarrow>
          if old = None \<and> new = None then
            Inr (routes, upd_stats (ah_stats ah)
              (\<lambda>st. st\<lparr>imp_withdraws_ignored := imp_withdraws_ignored st + 1\<rparr>) s)
          else case import_limits E ah new old s of
            (None, s1) \<Rightarrow> Inr (rs, s1)
          | (Some (new, new_ok), s1) \<Rightarrow>
              (case select_routes E T src new old before_old old_best rs of
                 (routes2, new, old_best) \<Rightarrow>
                   let upd = touch (t_now T) new; routes2 = map upd routes2;
                       new = map_option upd new in
                   rmap (\<lambda>s2. (routes2,
                       call_hooks T p new new_ok old (rte_is_ok old) (gc_check T routes2 s2)))
                     (announce_change E T routes2 new old old_best before_old s1)))"

section \<open>Updates by a protocol\<close>

definition RTS_DUMMY :: u8 where "RTS_DUMMY = 0"

definition rte_hide_dummy_routes :: "('i, 'u) route list \<Rightarrow> ('i, 'u) route option \<times> ('i, 'u) route list" where
  "rte_hide_dummy_routes rs =
     (case rs of r # rs' \<Rightarrow> if a_source (r_attrs r) = RTS_DUMMY then (Some r, rs') else (None, rs)
      | [] \<Rightarrow> (None, []))"

definition rte_unhide_dummy_routes :: "('i, 'u) route option \<Rightarrow> ('i, 'u) route list \<Rightarrow> ('i, 'u) route list" where
  "rte_unhide_dummy_routes dummy rs = (case dummy of Some d \<Rightarrow> d # rs | None \<Rightarrow> rs)"

text \<open>
  The block that \<open>rta_lookup\<close> returns, by its value: the attributes are merged and sorted, and the
  block is cached.
\<close>

definition rta_normal :: "'i rta \<Rightarrow> 'i rta" where
  "rta_normal a =
     a\<lparr>a_eattrs := (case a_eattrs a of [] \<Rightarrow> [] | [e] \<Rightarrow> ea_sort [e] | es \<Rightarrow> ea_sort (ea_merge es)),
       a_cached := True\<rparr>"

text \<open>
  The import of a route: what remains of it after validation and the import filter. Temporary
  attributes are stored back when the filter changed them; storing the values that were just read
  is no change.
\<close>

definition import_route ::
  "('i, 'u) rt_env \<Rightarrow> ('i, 'u) table_env \<Rightarrow> ahook \<Rightarrow> ('i, 'u) network \<Rightarrow> ('i, 'u) route \<Rightarrow> nat \<Rightarrow>
   ('i, 'u) rt_state \<Rightarrow> ('i, 'u) route option \<times> ('i, 'u) rt_state"
where
  "import_route E T ah n new0 src s =
     (let new = new0\<lparr>r_sender := ah_id ah\<rparr>;
          cnt = upd_stats (ah_stats ah);
          s1 = cnt (imp_updates_received_update (\<lambda>k. k + 1)) s;
          s_filtered = cnt (imp_updates_filtered_update (\<lambda>k. k + 1)) s1;
          mark = (\<lambda>r. r\<lparr>r_flags := r_flags r OR REF_FILTERED\<rparr>);
          finish = (\<lambda>r. let r = (if a_cached (r_attrs r) then r else r\<lparr>r_attrs := rta_normal (r_attrs r)\<rparr>)
                        in r\<lparr>r_flags := r_flags r OR REF_COW\<rparr>) in
      if \<not> rte_validate E (t_lib T) n new then
        (None, cnt (imp_updates_invalid_update (\<lambda>k. k + 1)) s1)
      else case ah_in_filter ah of
        Filter_reject \<Rightarrow>
          if \<not> ah_in_keep_filtered ah then (None, s_filtered) else (Some (finish (mark new)), s_filtered)
      | Filter_accept \<Rightarrow> (Some (finish new), s1)
      | Filter_run f \<Rightarrow>
          let tmpa = rte_make_tmp_attrs E new;
              (acc, new, tmpa2) = e_run E f False new tmpa;
              stored = (\<lambda>r. if tmpa2 \<noteq> tmpa
                 then (case e_store_tmp E (e_src_proto E src) of Some st \<Rightarrow> st r tmpa2 | None \<Rightarrow> r) else r) in
          if \<not> acc then
            if \<not> ah_in_keep_filtered ah then (None, s_filtered)
            else (Some (finish (stored (mark new))), s_filtered)
          else (Some (finish (stored new)), s1))"

text \<open>
  \<open>rte_update2\<close>. A withdrawal without a network or a source is ignored; an update has both.
\<close>

definition rte_update2 ::
  "('i, 'u) rt_env \<Rightarrow> ('i, 'u) table_env \<Rightarrow> ahook \<Rightarrow> ('i, 'u) network option \<Rightarrow> ('i, 'u) route option \<Rightarrow>
   nat option \<Rightarrow> ('i, 'u) rt_state \<Rightarrow> (('i, 'u) network option \<times> ('i, 'u) rt_state) res"
where
  "rte_update2 E T ah net new src s =
     (let recalc = (\<lambda>n src new s.
         case rte_hide_dummy_routes (n_routes n) of (dummy, rs) \<Rightarrow>
           rmap (\<lambda>(rs, s). (Some (n\<lparr>n_routes := rte_unhide_dummy_routes dummy rs\<rparr>), s))
             (rte_recalculate E T ah rs new src s)) in
      case new of
        None \<Rightarrow>
          let s1 = upd_stats (ah_stats ah) (imp_withdraws_received_update (\<lambda>k. k + 1)) s in
          (case (net, src) of
             (Some n, Some i) \<Rightarrow> recalc n i None s1
           | _ \<Rightarrow> Inr (net, upd_stats (ah_stats ah) (imp_withdraws_ignored_update (\<lambda>k. k + 1)) s1))
      | Some r \<Rightarrow>
          (case (net, src) of
             (Some n, Some i) \<Rightarrow>
               (case import_route E T ah n r i s of (new, s1) \<Rightarrow> recalc n i new s1)
           | _ \<Rightarrow> Inl Out_of_bounds))"

definition rte_discard ::
  "('i, 'u) rt_env \<Rightarrow> ('i, 'u) table_env \<Rightarrow> ('i, 'u) route list \<Rightarrow> ('i, 'u) route \<Rightarrow>
   ('i, 'u) rt_state \<Rightarrow> (('i, 'u) route list \<times> ('i, 'u) rt_state) res"
where
  "rte_discard E T routes old s =
     rte_recalculate E T (t_hook_rec T (r_sender old)) routes None (a_src (r_attrs old)) s"

text \<open>\<open>rt_examine\<close>, for the routes of the network if there is one.\<close>

definition rt_examine ::
  "('i, 'u) rt_env \<Rightarrow> ('i, 'u) route list option \<Rightarrow> nat \<Rightarrow> filt \<Rightarrow> bool"
where
  "rt_examine E n p flt =
     (let rt = Option.bind n head_opt in
      case rt of None \<Rightarrow> False | Some r \<Rightarrow>
        if \<not> is_valid r then False
        else
          let tmpa = rte_make_tmp_attrs E r;
              (v, r, tmpa) = (case e_import_control E p of Some ic \<Rightarrow> ic r tmpa | None \<Rightarrow> (0, r, tmpa));
              v = (if v = 0 then
                     (if (case flt of Filter_accept \<Rightarrow> True | Filter_reject \<Rightarrow> False
                          | Filter_run f \<Rightarrow> fst (e_run E f True r tmpa)) then 1 else 0)
                   else v)
          in v > 0)"

section \<open>Refresh of the routes of a protocol\<close>

text \<open>On the routes of all networks of a table; whether a prune is scheduled at the end.\<close>

definition rt_refresh_begin :: "ahook \<Rightarrow> ('i, 'u) route list list \<Rightarrow> ('i, 'u) route list list" where
  "rt_refresh_begin ah nets =
     map (map (\<lambda>e. if r_sender e = ah_id ah then e\<lparr>r_flags := r_flags e OR REF_STALE\<rparr> else e)) nets"

definition rt_refresh_end :: "ahook \<Rightarrow> ('i, 'u) route list list \<Rightarrow> ('i, 'u) route list list \<times> bool" where
  "rt_refresh_end ah nets =
     (let hit = (\<lambda>e. r_sender e = ah_id ah \<and> r_flags e AND REF_STALE \<noteq> 0) in
      (map (map (\<lambda>e. if hit e then e\<lparr>r_flags := r_flags e OR REF_DISCARD\<rparr> else e)) nets,
       list_ex (list_ex hit) nets))"

end
