(* ===== verification/RtSelect.thy ===== *)
theory RtSelect
  imports RtUpdate
begin

text \<open>
  The selection of the best route: insertion into the sorted list of a network and the election of
  the best route keep the routes best first, for every comparison of routes that is an order.
\<close>

section \<open>Preference orders\<close>

text \<open>
  \<open>beats\<close> is the strict preference, \<open>better\<close> the test of the code, which may also hold between
  elements that do not count.
\<close>

locale preference_order =
  fixes S :: "'a set" and beats :: "'a \<Rightarrow> 'a \<Rightarrow> bool" and better :: "'a \<Rightarrow> 'a \<Rightarrow> bool"
  assumes beats_cover: "\<lbrakk>a \<in> S; b \<in> S; c \<in> S; beats a c\<rbrakk> \<Longrightarrow> beats a b \<or> beats b c"
    and beats_better: "\<lbrakk>a \<in> S; b \<in> S; beats a b\<rbrakk> \<Longrightarrow> better a b"
    and better_asym: "\<lbrakk>a \<in> S; b \<in> S; better a b\<rbrakk> \<Longrightarrow> \<not> beats b a"
    and better_below: "\<lbrakk>a \<in> S; b \<in> S; c \<in> S; better a b; \<not> beats c b\<rbrakk> \<Longrightarrow> better a c"
begin

definition best_first :: "'a list \<Rightarrow> bool" where
  "best_first xs = sorted_wrt (\<lambda>a b. \<not> beats b a) xs"

definition undefeated :: "'a \<Rightarrow> 'a list \<Rightarrow> bool" where
  "undefeated x xs \<longleftrightarrow> (\<forall>y \<in> set xs. \<not> beats y x)"

lemma not_beats_trans: "\<lbrakk>a \<in> S; b \<in> S; c \<in> S; \<not> beats a b; \<not> beats b c\<rbrakk> \<Longrightarrow> \<not> beats a c"
  using beats_cover by blast

lemma beats_asym: "\<lbrakk>a \<in> S; b \<in> S; beats a b\<rbrakk> \<Longrightarrow> \<not> beats b a"
  using beats_better better_asym by blast

lemma not_beats_self: "a \<in> S \<Longrightarrow> \<not> beats a a"
  using beats_asym by blast

fun place :: "'a \<Rightarrow> 'a list \<Rightarrow> 'a list" where
  "place x [] = [x]"
| "place x (y # ys) = (if better x y then x # y # ys else y # place x ys)"

lemma set_place: "set (place x xs) = insert x (set xs)"
  by (induction xs) auto

lemma place_best_first:
  "\<lbrakk>x \<in> S; set xs \<subseteq> S; best_first xs\<rbrakk> \<Longrightarrow> best_first (place x xs)"
proof (induction xs)
  case (Cons y ys)
  have rest: "\<forall>z \<in> set ys. \<not> beats z y" using Cons.prems by (simp add: best_first_def)
  show ?case
  proof (cases "better x y")
    case True
    then have "\<not> beats y x" using better_asym Cons.prems by auto
    then have "\<forall>z \<in> set ys. \<not> beats z x" using rest not_beats_trans [of _ y x] Cons.prems by auto
    then show ?thesis using True \<open>\<not> beats y x\<close> Cons.prems by (simp add: best_first_def)
  next
    case False
    then have "\<not> beats x y" using beats_better Cons.prems by auto
    then show ?thesis
      using False rest Cons.IH Cons.prems by (auto simp: best_first_def set_place)
  qed
qed (simp add: best_first_def)

lemma place_append:
  "\<forall>y \<in> set xs. \<not> better x y \<Longrightarrow> place x (xs @ ys) = xs @ place x ys"
  by (induction xs) auto

text \<open>If \<open>x\<close> is not better than \<open>b\<close>, then it is not better than what precedes \<open>b\<close>.\<close>

lemma place_after:
  assumes "x \<in> S" "set (xs @ b # ys) \<subseteq> S" "best_first (xs @ b # ys)" "\<not> better x b"
  shows "place x (xs @ b # ys) = xs @ b # place x ys"
proof -
  have "\<not> better x y" if "y \<in> set xs" for y
    using better_below [of x y b] that assms by (auto simp: best_first_def sorted_wrt_append)
  then show ?thesis using place_append [of xs x "b # ys"] assms(4) by simp
qed

lemma undefeated_step:
  assumes "x \<in> S" "y \<in> S" "set xs \<subseteq> S" "undefeated y xs" "\<not> beats y x"
  shows "undefeated x xs"
  using assms not_beats_trans [of _ y x] by (auto simp: undefeated_def)

end

section \<open>The order of the routes of a network\<close>

text \<open>
  What the selection relies on: among valid routes of the same preference and class, the
  comparison of the protocols is a strict order in which being incomparable is transitive, and does
  not depend on the time of the last change.
\<close>

definition hook_beats :: "('i, 'u) rt_env \<Rightarrow> ('i, 'u) route \<Rightarrow> ('i, 'u) route \<Rightarrow> bool" where
  "hook_beats E a b = (case e_better E (route_proto E a) of Some h \<Rightarrow> h a b | None \<Rightarrow> False)"

definition rivals :: "('i, 'u) rt_env \<Rightarrow> ('i, 'u) route \<Rightarrow> ('i, 'u) route \<Rightarrow> bool" where
  "rivals E a b \<longleftrightarrow> is_valid a \<and> is_valid b \<and> r_pref a = r_pref b \<and> route_class E a = route_class E b"

definition better_ok :: "('i, 'u) rt_env \<Rightarrow> ('i, 'u) route set \<Rightarrow> bool" where
  "better_ok E S \<longleftrightarrow>
     (\<forall>a \<in> S. \<forall>b \<in> S. rivals E a b \<and> hook_beats E a b \<longrightarrow> \<not> hook_beats E b a) \<and>
     (\<forall>a \<in> S. \<forall>b \<in> S. \<forall>c \<in> S. rivals E a b \<and> rivals E b c \<and> hook_beats E a c \<longrightarrow>
        hook_beats E a b \<or> hook_beats E b c)"

definition rte_beats :: "('i, 'u) rt_env \<Rightarrow> ('i, 'u) route \<Rightarrow> ('i, 'u) route \<Rightarrow> bool" where
  "rte_beats E a b \<longleftrightarrow> is_valid a \<and> rte_better E (Some a) (Some b)"

definition ordered_routes :: "('i, 'u) rt_env \<Rightarrow> ('i, 'u) route set \<Rightarrow> ('i, 'u) route set" where
  "ordered_routes E S = (if better_ok E S then S else {})"

lemma rte_better_iff:
  "rte_better E (Some a) (Some b) \<longleftrightarrow> \<not> is_valid b \<or> is_valid a \<and>
     (r_pref b < r_pref a \<or> r_pref a = r_pref b \<and>
       (route_class E b < route_class E a \<or> route_class E a = route_class E b \<and> hook_beats E a b))"
  by (auto simp: rte_better_def hook_beats_def split: option.split)

lemma better_okD:
  assumes "better_ok E S" "a \<in> S" "b \<in> S"
  shows "rivals E a b \<Longrightarrow> hook_beats E a b \<Longrightarrow> \<not> hook_beats E b a"
    and "\<lbrakk>c \<in> S; rivals E a b; rivals E b c; hook_beats E a c\<rbrakk> \<Longrightarrow> hook_beats E a b \<or> hook_beats E b c"
  using assms unfolding better_ok_def by blast+

definition rank_less :: "('i, 'u) rt_env \<Rightarrow> ('i, 'u) route \<Rightarrow> ('i, 'u) route \<Rightarrow> bool" where
  "rank_less E a b \<longleftrightarrow> r_pref a < r_pref b \<or> r_pref a = r_pref b \<and> route_class E a < route_class E b"

lemma lex_less_trans:
  fixes p q r :: "'a :: linorder" and u v w :: "'b :: linorder"
  shows "p < q \<or> p = q \<and> u < v \<Longrightarrow> \<not> (r < q \<or> r = q \<and> w < v) \<Longrightarrow> p < r \<or> p = r \<and> u < w"
  by (auto simp: not_less)

lemma lex_less_asym:
  fixes p q :: "'a :: linorder" and u v :: "'b :: linorder"
  shows "p < q \<or> p = q \<and> u < v \<Longrightarrow> \<not> (q < p \<or> q = p \<and> v < u)"
  by auto

lemma lex_less_total:
  fixes p q :: "'a :: linorder" and u v :: "'b :: linorder"
  shows "p = q \<and> u = v \<longleftrightarrow> \<not> (p < q \<or> p = q \<and> u < v) \<and> \<not> (q < p \<or> q = p \<and> v < u)"
  by (auto simp: not_less)

lemma rank_less_trans: "rank_less E a b \<Longrightarrow> \<not> rank_less E c b \<Longrightarrow> rank_less E a c"
  unfolding rank_less_def by (rule lex_less_trans)

lemma rank_less_asym: "rank_less E a b \<Longrightarrow> \<not> rank_less E b a"
  unfolding rank_less_def by (rule lex_less_asym)

lemma rank_less_cover: "rank_less E a c \<Longrightarrow> rank_less E a b \<or> rank_less E b c"
  using rank_less_trans by blast

lemma rivals_rank:
  "is_valid a \<Longrightarrow> is_valid b \<Longrightarrow> rivals E a b \<longleftrightarrow> \<not> rank_less E a b \<and> \<not> rank_less E b a"
  using lex_less_total [of "r_pref a" "r_pref b" "route_class E a" "route_class E b"]
  unfolding rivals_def rank_less_def by blast

lemma rte_beats_iff:
  "rte_beats E a b \<longleftrightarrow> is_valid a \<and> (\<not> is_valid b \<or> rank_less E b a \<or> rivals E a b \<and> hook_beats E a b)"
  unfolding rte_beats_def rte_better_iff rank_less_def rivals_def by metis

lemma rivals_trans: "rivals E a b \<Longrightarrow> rivals E b c \<Longrightarrow> rivals E a c"
  by (simp add: rivals_def)

lemma rivals_not_less: "rivals E a b \<Longrightarrow> \<not> rank_less E a b \<and> \<not> rank_less E b a"
  by (simp add: rivals_def rank_less_def)

lemma rte_better_rank:
  "rte_better E (Some a) (Some b) \<longleftrightarrow> \<not> is_valid b \<or> rte_beats E a b"
  by (auto simp: rte_beats_def rte_better_iff)

lemma rte_better_beats:
  assumes "rivals E a b \<Longrightarrow> hook_beats E a b \<Longrightarrow> \<not> hook_beats E b a"
  shows "rte_better E (Some a) (Some b) \<Longrightarrow> \<not> rte_beats E b a"
  using assms rank_less_asym [of E b a] rivals_not_less [of E b a]
  by (auto simp: rte_beats_iff rte_better_rank rivals_def)

lemma rte_beats_cover:
  assumes ok: "better_ok E S" "x \<in> S" "y \<in> S" "z \<in> S" and b: "rte_beats E x z"
  shows "rte_beats E x y \<or> rte_beats E y z"
proof (cases "is_valid x \<and> is_valid y \<and> is_valid z")
  case valid: True
  show ?thesis
  proof (cases "rivals E x y \<and> rivals E y z")
    case True
    then have "rivals E x z" using rivals_trans by blast
    then have "hook_beats E x z" using b valid rivals_not_less by (auto simp: rte_beats_iff)
    then show ?thesis using better_okD(2) [OF ok(1,2,3,4)] True valid by (auto simp: rte_beats_iff)
  next
    case False
    have "\<not> rank_less E x z"
      using b valid rivals_not_less [of E x z] rank_less_asym by (auto simp: rte_beats_iff)
    then have "rank_less E y x \<or> rank_less E z y"
      using False valid rivals_rank [of x y E] rivals_rank [of y z E] rank_less_trans [of E x y z]
        rank_less_cover [of E y z x] by blast
    then show ?thesis using valid by (auto simp: rte_beats_iff)
  qed
next
  case False
  then show ?thesis using b by (auto simp: rte_beats_iff)
qed

interpretation sel: preference_order "ordered_routes E S" "rte_beats E" "\<lambda>a b. rte_better E (Some a) (Some b)"
  for E :: "('i, 'u) rt_env" and S
proof
  fix a b c :: "('i, 'u) route"
  assume a: "a \<in> ordered_routes E S" and b: "b \<in> ordered_routes E S"
  then have ok: "better_ok E S" and ab: "a \<in> S" "b \<in> S"
    by (auto simp: ordered_routes_def split: if_splits)
  show "rte_beats E a b \<Longrightarrow> rte_better E (Some a) (Some b)" by (simp add: rte_beats_def)
  show "rte_better E (Some a) (Some b) \<Longrightarrow> \<not> rte_beats E b a"
    using better_okD(1) [OF ok ab] rte_better_beats by blast
  assume c: "c \<in> ordered_routes E S"
  then have c: "c \<in> S" by (auto simp: ordered_routes_def split: if_splits)
  have cover: "rte_beats E x y \<or> rte_beats E y z" if "rte_beats E x z" "x \<in> S" "y \<in> S" "z \<in> S" for x y z
    using that by (intro rte_beats_cover [OF ok]) auto
  show "rte_beats E a c \<Longrightarrow> rte_beats E a b \<or> rte_beats E b c" using cover ab c by blast
  show "rte_better E (Some a) (Some c)" if "rte_better E (Some a) (Some b)" "\<not> rte_beats E c b"
    using that cover [of a b c] ab c by (auto simp: rte_beats_def rte_better_iff)
qed

section \<open>Sorted tables\<close>

definition sorted_routes :: "('i, 'u) rt_env \<Rightarrow> ('i, 'u) route list \<Rightarrow> bool" where
  "sorted_routes E rs = sorted_wrt (\<lambda>a b. \<not> rte_beats E b a) rs"

lemma sorted_routes_best_first: "sorted_routes E rs = sel.best_first E rs"
  by (simp add: sorted_routes_def sel.best_first_def)

lemma insert_here_place: "insert_here E new rs = sel.place E new rs"
  by (induction rs) auto

lemma insert_behind_split:
  "\<forall>x \<in> set xs. r_ref x \<noteq> r_ref b \<Longrightarrow> insert_behind E b new (xs @ b # ys) = xs @ b # insert_here E new ys"
  by (induction xs) auto

lemma sorted_insert_here:
  assumes "better_ok E S" "new \<in> S" "set rs \<subseteq> S" "sorted_routes E rs"
  shows "sorted_routes E (insert_here E new rs)"
  using assms sel.place_best_first [of new E S rs]
  by (simp add: sorted_routes_best_first insert_here_place ordered_routes_def)

text \<open>Looking for the place from the old route on finds the same place.\<close>

lemma insert_sorted_here:
  assumes "better_ok E S" "new \<in> S" "set rs \<subseteq> S" "sorted_routes E rs" "distinct (map r_ref rs)"
    and "\<forall>b. before_old = Some b \<longrightarrow> b \<in> set rs"
  shows "insert_sorted E before_old new rs = insert_here E new rs"
proof (cases "\<exists>b. before_old = Some b \<and> \<not> rte_better E (Some new) (Some b)")
  case True
  then obtain b where b: "before_old = Some b" "\<not> rte_better E (Some new) (Some b)" by blast
  with assms(6) obtain xs ys where rs: "rs = xs @ b # ys" by (auto dest: split_list)
  then have "\<forall>x \<in> set xs. r_ref x \<noteq> r_ref b" using assms(5) by (force simp: image_iff)
  moreover have "sel.place E new rs = xs @ b # sel.place E new ys"
    unfolding rs using assms(1-4) b(2) rs
    by (intro sel.place_after [of _ E S]) (auto simp: sorted_routes_best_first ordered_routes_def)
  ultimately show ?thesis
    using b by (simp add: insert_sorted_def rs insert_behind_split insert_here_place)
next
  case False
  then show ?thesis by (auto simp: insert_sorted_def split: option.split)
qed

section \<open>The election\<close>

lemma elect_loop_bound:
  "\<lbrakk>bp < length rs; \<forall>k \<in> set ks. k < length rs\<rbrakk> \<Longrightarrow> elect_loop E rs bp ks < length rs"
  by (induction ks arbitrary: bp) auto

lemma elect_loop_undefeated:
  assumes ok: "better_ok E S" "set rs \<subseteq> S"
  shows "\<lbrakk>bp < length rs; \<forall>k \<in> set ks. k < length rs; sel.undefeated E (rs ! bp) xs; set xs \<subseteq> S\<rbrakk> \<Longrightarrow>
    sel.undefeated E (rs ! elect_loop E rs bp ks) (xs @ map ((!) rs) ks)"
proof (induction ks arbitrary: bp xs)
  case (Cons k ks)
  have in_S: "rs ! bp \<in> ordered_routes E S" "rs ! k \<in> ordered_routes E S" "set xs \<subseteq> ordered_routes E S"
    using ok Cons.prems by (auto simp: ordered_routes_def)
  have "sel.undefeated E (rs ! (if rte_better E (Some (rs ! k)) (Some (rs ! bp)) then k else bp)) (xs @ [rs ! k])"
  proof (cases "rte_better E (Some (rs ! k)) (Some (rs ! bp))")
    case True
    then have "\<not> rte_beats E (rs ! bp) (rs ! k)" using sel.better_asym in_S by blast
    then show ?thesis
      using True sel.undefeated_step [OF in_S(2,1,3)] Cons.prems sel.not_beats_self [OF in_S(2)]
      by (auto simp: sel.undefeated_def)
  next
    case False
    then show ?thesis using sel.beats_better [OF in_S(2,1)] Cons.prems by (auto simp: sel.undefeated_def)
  qed
  then show ?case
    using Cons.IH [of "if rte_better E (Some (rs ! k)) (Some (rs ! bp)) then k else bp" "xs @ [rs ! k]"]
      Cons.prems subsetD [OF ok(2) nth_mem] by auto
qed simp

lemma relink_front_mset: "i < length xs \<Longrightarrow> mset (relink_front i xs) = mset xs"
  unfolding relink_front_def by (subst (3) id_take_nth_drop [of i xs]) simp_all

lemma elect_spec:
  assumes "better_ok E S" "set rs \<subseteq> S"
  shows "mset (elect E rs) = mset rs" "rs \<noteq> [] \<Longrightarrow> sel.undefeated E (hd (elect E rs)) rs"
proof -
  let ?i = "elect_loop E rs 0 [1..<length rs]"
  have i: "?i < length rs" if "rs \<noteq> []" using that by (intro elect_loop_bound) auto
  then show "mset (elect E rs) = mset rs" by (simp add: elect_def relink_front_mset)
  assume ne: "rs \<noteq> []"
  have "sel.undefeated E (rs ! ?i) ([rs ! 0] @ map ((!) rs) [1..<length rs])"
    using ne assms sel.not_beats_self [of "rs ! 0" E S] subsetD [OF assms(2) nth_mem, of 0]
    by (intro elect_loop_undefeated [OF assms]) (auto simp: sel.undefeated_def ordered_routes_def)
  moreover have "[rs ! 0] @ map ((!) rs) [1..<length rs] = rs"
    using ne by (metis append_Cons append_Nil length_greater_0_conv list.simps(9) map_nth upt_conv_Cons One_nat_def)
  ultimately show "sel.undefeated E (hd (elect E rs)) rs" using ne by (simp add: elect_def relink_front_def)
qed

end
