(* ===== verification/RtExport.thy ===== *)
theory RtExport
  imports RtNotify
begin

text \<open>
  What a protocol is told about a network: the notifications follow the route that the
  protocol should have. For the first accepted route this is the correctness of the search in
  \<open>rt_notify_accepted\<close>, which finds the old best route without the old list.
\<close>

section \<open>The exported route\<close>

text \<open>The result of the export filter does not depend on the state.\<close>

definition exported :: "('i, 'u) rt_env \<Rightarrow> ahook \<Rightarrow> ('i, 'u) route \<Rightarrow> (('i, 'u) route \<times> ea_seg list) option" where
  "exported E ah r = fst (export_filter E ah r True undefined)"

definition exported_opt ::
  "('i, 'u) rt_env \<Rightarrow> ahook \<Rightarrow> ('i, 'u) route option \<Rightarrow> (('i, 'u) route \<times> ea_seg list) option"
where
  "exported_opt E ah r = (case r of None \<Rightarrow> None | Some e \<Rightarrow> exported E ah e)"

text \<open>States that differ in the statistics only.\<close>

definition same_but_stats :: "('i, 'u) rt_state \<Rightarrow> ('i, 'u) rt_state \<Rightarrow> bool" where
  "same_but_stats s t \<longleftrightarrow> s_limits t = s_limits s \<and> s_down t = s_down s \<and> s_out t = s_out s \<and>
     s_gc t = s_gc s \<and> s_hooks t = s_hooks s"

lemma same_but_stats_refl [simp]: "same_but_stats s s"
  by (simp add: same_but_stats_def)

lemma same_but_stats_trans: "same_but_stats s t \<Longrightarrow> same_but_stats t u \<Longrightarrow> same_but_stats s u"
  by (simp add: same_but_stats_def)

lemma same_but_stats_upd [simp]: "same_but_stats s (upd_stats i f s)"
  by (simp add: same_but_stats_def upd_stats_def)

lemma same_but_stats_count [simp]: "same_but_stats s (count_received ah new s)"
  by (simp add: count_received_def)

lemma export_filter_spec:
  "\<exists>t. export_filter E ah r silent s = (exported E ah r, t) \<and> same_but_stats s t"
  by (auto simp: export_filter_def exported_def Let_def split: prod.split if_splits)

lemma export_filterE:
  obtains t where "export_filter E ah r silent s = (exported E ah r, t)" "same_but_stats s t"
  using export_filter_spec by blast

lemma export_opt_spec:
  "\<exists>t. export_opt E ah r silent s = (exported_opt E ah r, t) \<and> same_but_stats s t"
  by (cases r) (auto simp: export_opt_def exported_opt_def export_filter_spec)

lemma export_optE:
  obtains t where "export_opt E ah r silent s = (exported_opt E ah r, t)" "same_but_stats s t"
  using export_opt_spec by blast

text \<open>A notification without an export limit.\<close>

definition sent ::
  "ahook \<Rightarrow> (('i, 'u) route \<times> ea_seg list) option \<Rightarrow> ('i, 'u) route option \<Rightarrow> ('i, 'u) notification"
where
  "sent ah new old = \<lparr>n_hook = ah_id ah, n_new = map_option fst new, n_old = old,
     n_attrs = (case new of None \<Rightarrow> [] | Some (n, tmpa) \<Rightarrow> tmpa @ a_eattrs (r_attrs n))\<rparr>"

lemma do_rt_notify_unlimited:
  assumes "ah_out_limit ah = None"
  shows "s_out (do_rt_notify E ah (map_option fst new) old (tmp_of new) refeed s) = s_out s @ [sent ah new old]"
  using assms by (cases new) (auto simp: do_rt_notify_def Let_def notify_def upd_stats_def sent_def tmp_of_def)

text \<open>What the protocol has after a sequence of notifications.\<close>

definition view :: "nat \<Rightarrow> ('i, 'u) notification list \<Rightarrow> ('i, 'u) route option" where
  "view h ns = (case rev (filter (\<lambda>n. n_hook n = h) ns) of [] \<Rightarrow> None | n # _ \<Rightarrow> n_new n)"

lemma view_snoc [simp]: "view h (ns @ [n]) = (if n_hook n = h then n_new n else view h ns)"
  by (simp add: view_def)

lemma sent_hook [simp]: "n_hook (sent ah new old) = ah_id ah" "n_new (sent ah new old) = map_option fst new"
  by (simp_all add: sent_def)

section \<open>The best route\<close>

lemma rt_notify_basic_out:
  assumes "ah_out_limit ah = None" "new \<noteq> None \<or> old \<noteq> None"
    and "e_pipe_class E \<noteq> Some (e_proto_class E (ah_proto E ah))"
  shows "\<exists>s'. rt_notify_basic E ah new old False s = Inr s' \<and>
    s_out s' = s_out s @ (if exported_opt E ah new = None \<and> exported_opt E ah old = None then []
      else [sent ah (exported_opt E ah new) (map_option fst (exported_opt E ah old))])"
proof -
  let ?s1 = "count_received ah new s"
  obtain s2 where s2: "export_opt E ah new False ?s1 = (exported_opt E ah new, s2)" "same_but_stats ?s1 s2"
    by (rule export_optE)
  obtain s3 where s3: "export_opt E ah old True s2 = (exported_opt E ah old, s3)" "same_but_stats s2 s3"
    by (rule export_optE)
  have "s_out s3 = s_out s"
    using s2(2) s3(2) same_but_stats_count [of s ah new] by (simp add: same_but_stats_def)
  then show ?thesis
    using s2(1) s3(1) assms
    by (auto simp: rt_notify_basic_def Let_def do_rt_notify_unlimited)
qed

section \<open>The first accepted route\<close>

definition accepted :: "('i, 'u) rt_env \<Rightarrow> ahook \<Rightarrow> ('i, 'u) route \<Rightarrow> bool" where
  "accepted E ah r \<longleftrightarrow> exported E ah r \<noteq> None"

lemma not_accepted: "\<not> accepted E ah r \<longleftrightarrow> exported E ah r = None"
  unfolding accepted_def by (rule not_not)

definition first_accepted ::
  "('i, 'u) rt_env \<Rightarrow> ahook \<Rightarrow> ('i, 'u) route list \<Rightarrow> ('i, 'u) route option"
where
  "first_accepted E ah rs = find (accepted E ah) rs"

text \<open>The place of the old route: at the front, or after \<open>before_old\<close>.\<close>

fun put_after :: "('i, 'u) route \<Rightarrow> ('i, 'u) route \<Rightarrow> ('i, 'u) route list \<Rightarrow> ('i, 'u) route list" where
  "put_after b x [] = []"
| "put_after b x (r # rs) = (if r_ref r = r_ref b then r # x # rs else r # put_after b x rs)"

definition with_old ::
  "('i, 'u) route option \<Rightarrow> ('i, 'u) route option \<Rightarrow> ('i, 'u) route list \<Rightarrow> ('i, 'u) route list"
where
  "with_old before_old old rs =
     (case old of None \<Rightarrow> rs
      | Some x \<Rightarrow> (case before_old of None \<Rightarrow> x # rs | Some b \<Rightarrow> put_after b x rs))"

definition without :: "('i, 'u) route option \<Rightarrow> ('i, 'u) route list \<Rightarrow> ('i, 'u) route list" where
  "without new rs = filter (\<lambda>r. \<not> same_ref (Some r) new) rs"

lemma find_append: "find P (xs @ ys) = (case find P xs of None \<Rightarrow> find P ys | Some x \<Rightarrow> Some x)"
  by (induction xs) auto

lemma find_None: "(\<forall>x \<in> set xs. \<not> P x) \<Longrightarrow> find P xs = None"
  by (simp add: find_None_iff)

lemma put_after_append:
  "put_after b x (xs @ ys) =
     (if \<exists>r \<in> set xs. r_ref r = r_ref b then put_after b x xs @ ys else xs @ put_after b x ys)"
  by (induction xs) auto

lemma put_after_absent: "\<forall>r \<in> set xs. r_ref r \<noteq> r_ref b \<Longrightarrow> put_after b x xs = xs"
  by (induction xs) auto

lemma find_put_after_none:
  "\<forall>r \<in> set xs. \<not> P r \<Longrightarrow> find P (put_after b x xs) =
     (if (\<exists>r \<in> set xs. r_ref r = r_ref b) \<and> P x then Some x else None)"
  by (induction xs) (auto simp: find_None)

lemma find_put_after:
  "P r \<Longrightarrow> find P (put_after b x (r # rs)) = Some r"
  by simp

text \<open>The first loop.\<close>

definition meets :: "('i, 'u) route option \<Rightarrow> ('i, 'u) route list \<Rightarrow> bool" where
  "meets before_old rs \<longleftrightarrow> (\<exists>r \<in> set rs. same_ref (Some r) before_old)"

lemma find_new_best_spec:
  "\<exists>t. same_but_stats s t \<and>
    ((\<forall>r \<in> set (takeWhile is_valid rs). \<not> accepted E ah r) \<and>
     (\<exists>rest. find_new_best E ah bo rs meet s =
        (None, rest, meet \<or> meets bo (takeWhile is_valid rs), t)) \<or>
     (\<exists>a r b rest. takeWhile is_valid rs = a @ r # b \<and> (\<forall>x \<in> set a. \<not> accepted E ah x) \<and>
        accepted E ah r \<and> takeWhile is_valid rest = b \<and>
        find_new_best E ah bo rs meet s = (exported E ah r, r # rest, meet \<or> meets bo a, t)))"
proof (induction rs arbitrary: meet s)
  case Nil
  then show ?case by (auto simp: meets_def)
next
  case (Cons r rs)
  show ?case
  proof (cases "is_valid r")
    case False
    then show ?thesis by (auto simp: meets_def)
  next
    case True
    obtain s1 where s1: "export_filter E ah r False s = (exported E ah r, s1)" "same_but_stats s s1"
      by (rule export_filterE)
    show ?thesis
    proof (cases "accepted E ah r")
      case acc: True
      then have "find_new_best E ah bo (r # rs) meet s = (exported E ah r, r # rs, meet, s1)"
        using True s1 by (auto simp: accepted_def)
      then show ?thesis
        using True acc s1(2) by (intro exI [of _ s1] conjI disjI2 exI [of _ "[]"]) (auto simp: meets_def)
    next
      case False
      then have step: "find_new_best E ah bo (r # rs) meet s =
          find_new_best E ah bo rs (meet \<or> same_ref (Some r) bo) s1"
        using True s1 by (auto simp: accepted_def split: option.split)
      obtain t where t: "same_but_stats s1 t"
        and cases: "(\<forall>r \<in> set (takeWhile is_valid rs). \<not> accepted E ah r) \<and>
          (\<exists>rest. find_new_best E ah bo rs (meet \<or> same_ref (Some r) bo) s1 =
            (None, rest, (meet \<or> same_ref (Some r) bo) \<or> meets bo (takeWhile is_valid rs), t)) \<or>
         (\<exists>a q b rest. takeWhile is_valid rs = a @ q # b \<and> (\<forall>x \<in> set a. \<not> accepted E ah x) \<and>
            accepted E ah q \<and> takeWhile is_valid rest = b \<and>
            find_new_best E ah bo rs (meet \<or> same_ref (Some r) bo) s1 =
              (exported E ah q, q # rest, (meet \<or> same_ref (Some r) bo) \<or> meets bo a, t))"
        using Cons.IH [of s1 "meet \<or> same_ref (Some r) bo"] by blast
      have st: "same_but_stats s t" using s1(2) t by (rule same_but_stats_trans)
      from cases show ?thesis
      proof (elim disjE exE conjE)
        fix rest assume "\<forall>r \<in> set (takeWhile is_valid rs). \<not> accepted E ah r"
          "find_new_best E ah bo rs (meet \<or> same_ref (Some r) bo) s1 =
            (None, rest, (meet \<or> same_ref (Some r) bo) \<or> meets bo (takeWhile is_valid rs), t)"
        then show ?thesis
          using st True False unfolding step by (intro exI [of _ t]) (auto simp: meets_def)
      next
        fix a q b rest assume *: "takeWhile is_valid rs = a @ q # b" "\<forall>x \<in> set a. \<not> accepted E ah x"
          "accepted E ah q" "takeWhile is_valid rest = b"
          "find_new_best E ah bo rs (meet \<or> same_ref (Some r) bo) s1 =
            (exported E ah q, q # rest, (meet \<or> same_ref (Some r) bo) \<or> meets bo a, t)"
        then show ?thesis
          using st True False unfolding step
          by (intro exI [of _ t] conjI disjI2 exI [of _ "r # a"] exI [of _ q] exI [of _ b]
              exI [of _ rest]) (auto simp: meets_def)
      qed
    qed
  qed
qed

text \<open>The second loop.\<close>

lemma find_old_best_spec:
  assumes "bo \<noteq> None \<longrightarrow> old \<noteq> None" "distinct (map r_ref (takeWhile is_valid rs))"
  shows "\<exists>t. same_but_stats s t \<and> find_old_best E ah bo old rs s =
    Inr (exported_opt E ah (first_accepted E ah
      (case bo of None \<Rightarrow> takeWhile is_valid rs
       | Some b \<Rightarrow> put_after b (the old) (takeWhile is_valid rs))), t)"
  using assms(2)
proof (induction rs arbitrary: s)
  case Nil
  then show ?case
    by (auto simp: exported_opt_def first_accepted_def split: option.splits)
next
  case (Cons r rs)
  show ?case
  proof (cases "is_valid r")
    case False
    then show ?thesis
      by (auto simp: exported_opt_def first_accepted_def split: option.splits)
  next
    case True
    obtain s1 where s1: "export_filter E ah r True s = (exported E ah r, s1)" "same_but_stats s s1"
      by (rule export_filterE)
    show ?thesis
    proof (cases "accepted E ah r")
      case acc: True
      then show ?thesis using True s1
        by (auto simp: accepted_def exported_opt_def first_accepted_def split: option.splits)
    next
      case rej: False
      obtain t1 where t1: "same_but_stats s1 t1" "find_old_best E ah bo old rs s1 =
        Inr (exported_opt E ah (first_accepted E ah (case bo of None \<Rightarrow> takeWhile is_valid rs
          | Some b \<Rightarrow> put_after b (the old) (takeWhile is_valid rs))), t1)"
        using Cons.IH [of s1] Cons.prems True by auto
      show ?thesis
      proof (cases "same_ref (Some r) bo")
        case False
        then show ?thesis
          using True s1 t1 rej same_but_stats_trans [OF s1(2) t1(1)]
          by (auto simp: accepted_def first_accepted_def same_ref_def split: option.splits)
      next
        case True
        then obtain b where b: "bo = Some b" "r_ref r = r_ref b"
          by (cases bo) (auto simp: same_ref_def)
        then obtain x where x: "old = Some x" using assms(1) by auto
        obtain s2 where s2: "export_filter E ah x True s1 = (exported E ah x, s2)" "same_but_stats s1 s2"
          by (rule export_filterE)
        obtain t2 where t2: "same_but_stats s2 t2" "find_old_best E ah bo old rs s2 =
          Inr (exported_opt E ah (first_accepted E ah (put_after b x (takeWhile is_valid rs))), t2)"
          using Cons.IH [of s2] Cons.prems b x \<open>is_valid r\<close> by auto
        have "r_ref r \<notin> r_ref ` set (takeWhile is_valid rs)"
          using Cons.prems \<open>is_valid r\<close> by simp
        then have "\<forall>q \<in> set (takeWhile is_valid rs). r_ref q \<noteq> r_ref b"
          unfolding b(2) [symmetric] by (metis imageI)
        then have "put_after b x (takeWhile is_valid rs) = takeWhile is_valid rs"
          by (rule put_after_absent)
        moreover have "exported E ah r = None" using rej by (simp add: not_accepted)
        ultimately show ?thesis
          using \<open>is_valid r\<close> True s1 s2 t2 b x same_but_stats_trans [OF s1(2) s2(2)]
            same_but_stats_trans [OF same_but_stats_trans [OF s1(2) s2(2)] t2(1)]
          by (cases "exported E ah x") (auto simp: accepted_def first_accepted_def exported_opt_def)
      qed
    qed
  qed
qed

section \<open>Updates of the first accepted route\<close>

text \<open>
  A change of a sorted list of routes: \<open>new\<close> is in the new list, \<open>old\<close> was in the old one, after
  \<open>before_old\<close>, which is in both.
\<close>

definition change_ok ::
  "('i, 'u) route list \<Rightarrow> ('i, 'u) route option \<Rightarrow> ('i, 'u) route option \<Rightarrow> ('i, 'u) route option \<Rightarrow> bool"
where
  "change_ok V new old bo \<longleftrightarrow>
     distinct (map r_ref V) \<and> (\<forall>n. new = Some n \<longrightarrow> n \<in> set V) \<and>
     (\<forall>b. bo = Some b \<longrightarrow> b \<in> set (without new V)) \<and> (bo \<noteq> None \<longrightarrow> old \<noteq> None)"

lemma without_None [simp]: "without None V = V"
  by (simp add: without_def same_ref_def)

lemma without_append [simp]: "without new (xs @ ys) = without new xs @ without new ys"
  by (simp add: without_def)

lemma without_absent: "\<forall>r \<in> set xs. \<not> same_ref (Some r) new \<Longrightarrow> without new xs = xs"
  by (simp add: without_def filter_id_conv)

lemma meets_Some: "meets (Some b) xs \<longleftrightarrow> (\<exists>r \<in> set xs. r_ref r = r_ref b)"
  by (simp add: meets_def same_ref_def)

lemma meets_None [simp]: "\<not> meets None xs"
  by (simp add: meets_def same_ref_def)

text \<open>The routes before the first accepted one: only the old route can be accepted there.\<close>

lemma first_before:
  assumes "\<forall>x \<in> set a. \<not> accepted E ah x" "bo \<noteq> None \<longrightarrow> old \<noteq> None"
    and "\<forall>b. bo = Some b \<longrightarrow> (\<forall>x \<in> set a. r_ref x = r_ref b \<longrightarrow> x \<in> set (without new a))"
  shows "first_accepted E ah (with_old bo old (without new a @ c)) =
    (if (old \<noteq> None \<and> bo = None \<or> meets bo a) \<and> accepted E ah (the old) then old
     else first_accepted E ah (case bo of None \<Rightarrow> c | Some b \<Rightarrow> if meets bo a then c else put_after b (the old) c))"
proof -
  have rej: "\<forall>x \<in> set (without new a). \<not> accepted E ah x" using assms(1) by (auto simp: without_def)
  show ?thesis
  proof (cases bo)
    case None
    then show ?thesis using rej
      by (cases old) (auto simp: with_old_def first_accepted_def find_append find_None)
  next
    case (Some b)
    then obtain x where x: "old = Some x" using assms(2) by auto
    have "meets bo a \<longleftrightarrow> (\<exists>r \<in> set (without new a). r_ref r = r_ref b)"
      using assms(3) Some by (auto simp: meets_Some without_def)
    then show ?thesis
      using rej Some x
      by (auto simp: with_old_def put_after_append first_accepted_def find_append find_None
          find_put_after_none)
  qed
qed

lemma rt_notify_accepted_out:
  fixes E :: "('i, 'u) rt_env"
  assumes lim: "ah_out_limit ah = None"
    and ok: "change_ok (takeWhile is_valid rs) new old bo"
  defines "V \<equiv> takeWhile is_valid rs"
  defines "fn \<equiv> first_accepted E ah V" and "fo \<equiv> first_accepted E ah (with_old bo old (without new V))"
  shows "\<exists>s'. rt_notify_accepted E ah rs new old bo Feed_none s = Inr s' \<and>
    (s_out s' = s_out s @ [sent ah (exported_opt E ah fn) (map_option fst (exported_opt E ah fo))] \<or>
     s_out s' = s_out s \<and> exported_opt E ah fn = exported_opt E ah fo)"
proof -
  let ?meet = "old \<noteq> None \<and> bo = None"
  let ?s1 = "count_received ah new s"
  have bo_old: "bo \<noteq> None \<longrightarrow> old \<noteq> None" and dist: "distinct (map r_ref V)"
    and new_in: "\<And>n. new = Some n \<Longrightarrow> n \<in> set V"
    and bo_in: "\<And>b. bo = Some b \<Longrightarrow> b \<in> set (without new V)"
    using ok by (auto simp: change_ok_def V_def)
  have bo_ref: "x = b" if "x \<in> set V" "bo = Some b" "r_ref x = r_ref b" for x b
    using that bo_in [OF that(2)] dist by (auto simp: without_def distinct_map inj_on_def)
  obtain t where t: "same_but_stats ?s1 t"
    and loop: "((\<forall>r \<in> set V. \<not> accepted E ah r) \<and>
     (\<exists>rest. find_new_best E ah bo rs ?meet ?s1 = (None, rest, ?meet \<or> meets bo V, t))) \<or>
     (\<exists>a r b rest. V = a @ r # b \<and> (\<forall>x \<in> set a. \<not> accepted E ah x) \<and>
        accepted E ah r \<and> takeWhile is_valid rest = b \<and>
        find_new_best E ah bo rs ?meet ?s1 = (exported E ah r, r # rest, ?meet \<or> meets bo a, t))"
    using find_new_best_spec [of ?s1 rs E ah bo ?meet] unfolding V_def by blast
  have t_out: "s_out t = s_out s"
    using t same_but_stats_count [of s ah new] by (simp add: same_but_stats_def)
  obtain s3 where s3: "export_opt E ah old True t = (exported_opt E ah old, s3)" "same_but_stats t s3"
    by (rule export_optE)
  note run = rt_notify_accepted_def [of E ah rs new old bo Feed_none s, unfolded Let_def]
  from loop show ?thesis
  proof (elim disjE exE conjE)
    fix rest assume rej: "\<forall>r \<in> set V. \<not> accepted E ah r"
      and l: "find_new_best E ah bo rs ?meet ?s1 = (None, rest, ?meet \<or> meets bo V, t)"
    have fn: "fn = None" using rej by (simp add: fn_def first_accepted_def find_None)
    have "\<forall>b. bo = Some b \<longrightarrow> (\<forall>x \<in> set V. r_ref x = r_ref b \<longrightarrow> x \<in> set (without new V))"
      using bo_in bo_ref by metis
    from first_before [OF rej bo_old this, of "[]"]
    have fo: "fo = (if (?meet \<or> meets bo V) \<and> accepted E ah (the old) then old else None)"
      unfolding fo_def by (auto simp: first_accepted_def split: option.split)
    show ?thesis
    proof (cases "?meet \<or> meets bo V")
      case True
      then obtain x where x: "old = Some x" using bo_old by (cases bo) auto
      show ?thesis
      proof (cases "exported E ah x")
        case None
        then show ?thesis
          unfolding run l using True s3 t_out fn fo x
          by (auto simp: exported_opt_def accepted_def same_but_stats_def)
      next
        case (Some e)
        then show ?thesis
          unfolding run l using True s3 t_out fn fo x
          by (cases e) (auto simp: exported_opt_def accepted_def same_but_stats_def
            do_rt_notify_unlimited [OF lim, of E None, simplified])
      qed
    next
      case False
      then show ?thesis unfolding run l using t_out fn fo by auto
    qed
  next
    fix a r b rest assume V: "V = a @ r # b" and rej: "\<forall>x \<in> set a. \<not> accepted E ah x"
      and acc: "accepted E ah r" and rest: "takeWhile is_valid rest = b"
      and l: "find_new_best E ah bo rs ?meet ?s1 = (exported E ah r, r # rest, ?meet \<or> meets bo a, t)"
    have sub: "set a \<subseteq> set V" and fn: "fn = Some r"
      using V rej acc by (auto simp: fn_def first_accepted_def find_append find_None)
    have pre: "\<forall>b. bo = Some b \<longrightarrow> (\<forall>x \<in> set a. r_ref x = r_ref b \<longrightarrow> x \<in> set (without new a))"
      using bo_in bo_ref sub by (auto simp: without_def)
    have fo: "fo = (if (?meet \<or> meets bo a) \<and> accepted E ah (the old) then old
        else first_accepted E ah (case bo of None \<Rightarrow> without new (r # b)
          | Some q \<Rightarrow> if meets bo a then without new (r # b) else put_after q (the old) (without new (r # b))))"
      unfolding fo_def using first_before [OF rej bo_old pre, of "without new (r # b)"] V by simp
    obtain ex where ex: "exported E ah r = Some ex" using acc by (auto simp: accepted_def)
    show ?thesis
    proof (cases "(?meet \<or> meets bo a) \<and> accepted E ah (the old)")
      case True
      then obtain x where x: "old = Some x" using bo_old by (cases bo) auto
      obtain e where e: "exported E ah x = Some e" using True x by (auto simp: accepted_def)
      have "exported_opt E ah old = Some e" "exported_opt E ah fo = Some e" "exported_opt E ah fn = exported E ah r"
        using True x e fo fn by (simp_all add: exported_opt_def)
      then show ?thesis
        unfolding run l using True s3 t_out
        by (cases e) (auto simp: do_rt_notify_unlimited [OF lim] same_but_stats_def)
    next
      case no: False
      obtain s4 where s4: "(if ?meet \<or> meets bo a then export_opt E ah old True t else (None, t)) = (None, s4)"
        "s_out s4 = s_out s"
      proof (cases "?meet \<or> meets bo a")
        case True
        then obtain x where "old = Some x" using bo_old by (cases bo) auto
        then show ?thesis
          using that [of s3] no True s3 t_out
          by (auto simp: exported_opt_def not_accepted same_but_stats_def)
      next
        case False
        then show ?thesis by (intro that [of t]) (use t_out in auto)
      qed
      have step: "rt_notify_accepted E ah rs new old bo Feed_none s =
        (if \<not> same_ref (Some r) new then Inr s4
         else rmap (\<lambda>(old_best, s5). do_rt_notify E ah (map_option fst (exported E ah r))
             (map_option fst old_best) (tmp_of (exported E ah r)) False s5)
           (find_old_best E ah bo old rest s4))"
        unfolding run l using s4 ex by simp
      show ?thesis
      proof (cases "same_ref (Some r) new")
        case False
        have "fo = Some r"
          using no fo acc False
          by (auto simp: first_accepted_def without_def find_put_after split: option.split)
        then show ?thesis using False step s4(2) fn by simp
      next
        case True
        have "fo = first_accepted E ah (case bo of None \<Rightarrow> b | Some q \<Rightarrow> put_after q (the old) b)"
        proof -
          have "without new (r # b) = b"
            using True dist V by (auto simp: without_def same_ref_def filter_id_conv) (metis imageI option.inject)
          moreover have "put_after q (the old) b = b" if "bo = Some q" "meets bo a" for q
          proof -
            have "r_ref q \<in> r_ref ` set a" using that by (auto simp: meets_Some) (metis imageI)
            then have "r_ref q \<notin> r_ref ` set b" using dist V by auto
            then show ?thesis by (intro put_after_absent) (metis imageI)
          qed
          ultimately show ?thesis using no fo by (auto split: option.splits)
        qed
        moreover obtain t5 where "same_but_stats s4 t5" "find_old_best E ah bo old rest s4 =
          Inr (exported_opt E ah (first_accepted E ah (case bo of None \<Rightarrow> b | Some q \<Rightarrow> put_after q (the old) b)), t5)"
          using find_old_best_spec [of bo old rest s4 E ah] bo_old dist V rest by auto
        ultimately show ?thesis
          using True step s4(2) fn
          by (auto simp: do_rt_notify_unlimited [OF lim] same_but_stats_def exported_opt_def [of _ _ "Some r"])
      qed
    qed
  qed
qed

section \<open>What a protocol knows\<close>

text \<open>A protocol that takes the best route of a network (without an export limit and not a pipe):
  if what it was told last is the exported form of the old best route, then the call of
  \<open>rt_notify_basic\<close> for a change of the best route succeeds, and what the protocol was told last is
  the exported form of the new best route, nothing when the filter rejects it.\<close>

theorem rt_notify_basic_tracks:
  assumes "ah_out_limit ah = None" "new \<noteq> None \<or> old \<noteq> None"
    and "e_pipe_class E \<noteq> Some (e_proto_class E (ah_proto E ah))"
    and "view (ah_id ah) (s_out s) = map_option fst (exported_opt E ah old)"
  shows "\<exists>s'. rt_notify_basic E ah new old False s = Inr s' \<and>
    view (ah_id ah) (s_out s') = map_option fst (exported_opt E ah new)"
  using rt_notify_basic_out [OF assms(1-3), of s] assms(4) by (auto split: if_splits)

definition demo_env :: "(u32, u32) rt_env" where
  "demo_env = \<lparr>e_ip = ip4_ops, e_src_proto = (\<lambda>n. n), e_hook_proto = (\<lambda>n. n), e_proto_class = (\<lambda>n. 0),
     e_proto_up = (\<lambda>_. True), e_pipe_class = None, e_merge_limit = (\<lambda>_. 4), e_accept_ra = (\<lambda>_. RA_ACCEPTED),
     e_better = (\<lambda>_. None), e_mergable = (\<lambda>_. None), e_same = (\<lambda>_. None),
     e_import_control = (\<lambda>_. Some (\<lambda>r t. (if r_u r = 0 then -1 else 0, r, t))),
     e_make_tmp = (\<lambda>_. None), e_store_tmp = (\<lambda>_. None),
     e_run = (\<lambda>f tmp r t. (r_pref r > 50, r, t))\<rparr>"

definition demo_route :: "nat \<Rightarrow> u16 \<Rightarrow> u32 \<Rightarrow> (u32, u32) route" where
  "demo_route i pref u = \<lparr>r_ref = i, r_sender = 0, r_attrs = \<lparr>a_src = 0, a_source = 1, a_scope = 0, a_cast = 0,
     a_dest = RTD_ROUTER, a_flags = 0, a_igp_metric = 0, a_gw = 1, a_from = 1, a_hostentry = None, a_iface = \<lparr>if_ref = 0, if_index = 1\<rparr>, a_nexthops = [], a_eattrs = [], a_cached = True\<rparr>,
     r_flags = 0, r_pflags = 0, r_pref = pref, r_lastmod = 0, r_u = u\<rparr>"

definition demo_hook :: ahook where
  "demo_hook = \<lparr>ah_id = 0, ah_in_filter = Filter_accept, ah_out_filter = Filter_run 0, ah_rx_limit = None,
     ah_in_limit = None, ah_out_limit = None, ah_stats = 0, ah_in_keep_filtered = False\<rparr>"

definition demo_state :: "(u32, u32) rt_state" where
  "demo_state = \<lparr>s_stats = (\<lambda>_. \<lparr>imp_routes = 0, filt_routes = 0, pref_routes = 0,
     imp_updates_received = 0, imp_updates_invalid = 0, imp_updates_filtered = 0,
     imp_updates_ignored = 0, imp_updates_accepted = 0, imp_withdraws_received = 0,
     imp_withdraws_invalid = 0, imp_withdraws_ignored = 0, imp_withdraws_accepted = 0, exp_routes = 0,
     exp_updates_received = 0, exp_updates_rejected = 0, exp_updates_filtered = 0,
     exp_updates_accepted = 0, exp_withdraws_received = 0, exp_withdraws_accepted = 0\<rparr>),
     s_limits = (\<lambda>_. \<lparr>pl_limit = 0, pl_action = PLA_BLOCK, pl_state = PLS_INITIAL\<rparr>),
     s_down = [], s_out = [], s_gc = \<lparr>gc_counter = 0, gc_time = 0, gc_scheduled = False\<rparr>, s_hooks = []\<rparr>"

lemmas demo_defs = demo_env_def demo_route_def demo_hook_def demo_state_def is_valid_def REF_FILTERED_def

theorem rt_notify_basic_tracks_witness:
  "\<exists>s'. rt_notify_basic demo_env demo_hook (Some (demo_route 1 100 7)) (Some (demo_route 2 10 7)) False
       demo_state = Inr s' \<and> view 0 (s_out s') = Some (demo_route 1 100 7)"
  using rt_notify_basic_tracks [of demo_hook "Some (demo_route 1 100 7)" "Some (demo_route 2 10 7)"
      demo_env demo_state]
  by (simp add: demo_defs view_def exported_opt_def exported_def export_filter_def Let_def
      rte_make_tmp_attrs_def route_proto_def)



end
