(* ===== verification/RtFrame.thy ===== *)
theory RtFrame
  imports RtExport RtUpdate
begin

text \<open>
  What the announcement of a change leaves alone: the notifications of other hooks, the counters of
  imported and filtered routes, the garbage collection; and that no announcement fails.
\<close>

section \<open>Frames\<close>

text \<open>A step that notifies only the hooks of \<open>I\<close> and counts no imported routes.\<close>

definition frame :: "nat set \<Rightarrow> ('i, 'u) rt_state \<Rightarrow> ('i, 'u) rt_state \<Rightarrow> bool" where
  "frame I s t \<longleftrightarrow>
     (\<exists>ns. s_out t = s_out s @ ns \<and> n_hook ` set ns \<subseteq> I) \<and>
     (\<forall>i. imp_routes (s_stats t i) = imp_routes (s_stats s i) \<and> filt_routes (s_stats t i) = filt_routes (s_stats s i)) \<and>
     s_gc t = s_gc s \<and> s_hooks t = s_hooks s"

named_theorems framed

lemma frame_refl [framed, simp]: "frame I s s"
  by (simp add: frame_def)

lemma frame_trans: "frame I s t \<Longrightarrow> frame I t u \<Longrightarrow> frame I s u"
proof -
  assume st: "frame I s t" and tu: "frame I t u"
  obtain n1 where n1: "s_out t = s_out s @ n1" "n_hook ` set n1 \<subseteq> I" using st by (auto simp: frame_def)
  obtain n2 where n2: "s_out u = s_out t @ n2" "n_hook ` set n2 \<subseteq> I" using tu by (auto simp: frame_def)
  have "s_out u = s_out s @ (n1 @ n2)" "n_hook ` set (n1 @ n2) \<subseteq> I" using n1 n2 by auto
  then show ?thesis using st tu unfolding frame_def by metis
qed

lemma frame_mono: "frame I s t \<Longrightarrow> I \<subseteq> J \<Longrightarrow> frame J s t"
  unfolding frame_def by blast

lemma frame_upd [framed]:
  "(\<And>st. imp_routes (f st) = imp_routes st \<and> filt_routes (f st) = filt_routes st) \<Longrightarrow>
   frame I s (upd_stats i f s)"
  by (simp add: frame_def upd_stats_def)

lemma frame_notify [framed]: "n_hook n \<in> I \<Longrightarrow> frame I s (notify n s)"
  by (auto simp: frame_def notify_def)

lemma frame_limit [framed]: "frame I s (proto_notify_limit E ah l dir s)"
  by (auto simp: frame_def proto_notify_limit_def Let_def split: limit_action.split)

lemma frame_count [framed]: "frame I s (count_received ah new s)"
  unfolding count_received_def by (intro frame_upd) simp

lemma frame_export_filter [framed]: "frame I s (snd (export_filter E ah r silent s))"
  by (auto simp: export_filter_def Let_def split: prod.split if_splits intro!: frame_upd)

lemma frame_export_opt [framed]: "frame I s (snd (export_opt E ah r silent s))"
  by (auto simp: export_opt_def framed split: option.split)

lemma frame_view: "frame I s t \<Longrightarrow> h \<notin> I \<Longrightarrow> view h (s_out t) = view h (s_out s)"
proof -
  assume "frame I s t" "h \<notin> I"
  then obtain ns where ns: "s_out t = s_out s @ ns" "h \<notin> n_hook ` set ns"
    unfolding frame_def by blast
  then have "filter (\<lambda>n. n_hook n = h) ns = []" by (auto simp: filter_empty_conv)
  then show ?thesis using ns(1) by (simp add: view_def)
qed

lemma frame_do_rt_notify [framed]: "ah_id ah \<in> I \<Longrightarrow> frame I s (do_rt_notify E ah new old tmpa refeed s)"
proof -
  assume I: "ah_id ah \<in> I"
  let ?lim = "(case ah_out_limit ah of
            Some l \<Rightarrow>
              if new \<noteq> None \<and> (old = None \<or> refeed) \<and>
                 exp_routes (s_stats s (ah_stats ah)) \<ge> pl_limit (s_limits s l)
              then proto_notify_limit E ah l PLD_OUT s else s
          | None \<Rightarrow> s)"
  have "frame I s ?lim" by (simp add: framed split: option.split)
  then show ?thesis
    using I unfolding do_rt_notify_def Let_def
    by (auto intro!: frame_trans [of I s ?lim] frame_refl frame_trans [OF _ frame_notify] frame_trans [OF _ frame_upd])
qed

section \<open>Notifications\<close>

lemma rt_notify_basic_frame:
  assumes "new \<noteq> None \<or> old \<noteq> None"
  shows "\<exists>t. rt_notify_basic E ah new old refeed s = Inr t \<and> frame {ah_id ah} s t"
proof -
  let ?s1 = "count_received ah new s"
  obtain n s2 where n: "export_opt E ah new False ?s1 = (n, s2)" by fastforce
  obtain o' s3 where o': "(if refeed then (map_option (\<lambda>o'. (o', [])) old, s2) else export_opt E ah old True s2) = (o', s3)"
    by fastforce
  have "frame {ah_id ah} ?s1 s2" using frame_export_opt [of _ ?s1 E ah new False] n by (metis snd_conv)
  moreover have "frame {ah_id ah} s2 s3"
    using frame_export_opt [of _ s2 E ah old True] o' by (metis frame_refl snd_conv)
  ultimately have f: "frame {ah_id ah} s s3" using frame_trans frame_count by metis
  have "rt_notify_basic E ah new old refeed s =
    (if n = None \<and> o' = None then
        (if e_pipe_class E = Some (e_proto_class E (ah_proto E ah)) \<and> new = None then
           (case old of None \<Rightarrow> Inl Out_of_bounds
            | Some q \<Rightarrow>
                Inr (if ah_proto E ah \<noteq> e_hook_proto E (r_sender q)
                     then notify \<lparr>n_hook = ah_id ah, n_new = None, n_old = old, n_attrs = []\<rparr> s3
                     else s3))
         else Inr s3)
      else Inr (do_rt_notify E ah (map_option fst n) (map_option fst o') (tmp_of n) refeed s3))"
    by (simp only: rt_notify_basic_def Let_def n o' prod.case)
  then show ?thesis
    using f assms by (auto intro!: frame_trans [OF f] framed split: option.split)
qed

lemma find_new_best_frame:
  "frame I s (snd (snd (snd (find_new_best E ah bo rs meet s))))"
proof (induction rs arbitrary: meet s)
  case (Cons r rs)
  obtain x s1 where x: "export_filter E ah r False s = (x, s1)" by fastforce
  then have s1: "frame I s s1" using frame_export_filter by (metis snd_conv)
  show ?case using x frame_trans [OF s1 Cons.IH] s1 by (auto split: option.split)
qed simp

lemma find_old_best_frame:
  assumes "bo \<noteq> None \<longrightarrow> old \<noteq> None"
  shows "\<exists>x t. find_old_best E ah bo old rs s = Inr (x, t) \<and> frame I s t"
proof (induction rs arbitrary: s)
  case (Cons r rs)
  obtain x s1 where x: "export_filter E ah r True s = (x, s1)" by fastforce
  then have s1: "frame I s s1" using frame_export_filter by (metis snd_conv)
  obtain y s2 where y: "export_opt E ah old True s1 = (y, s2)" by fastforce
  then have s2: "frame I s1 s2" using frame_export_opt by (metis snd_conv)
  have bo: "same_ref (Some r) bo \<Longrightarrow> old \<noteq> None" using assms by (cases bo) (auto simp: same_ref_def)
  obtain x1 t1 where t1: "find_old_best E ah bo old rs s1 = Inr (x1, t1)" "frame I s1 t1" using Cons.IH by blast
  obtain x2 t2 where t2: "find_old_best E ah bo old rs s2 = Inr (x2, t2)" "frame I s2 t2" using Cons.IH by blast
  show ?case
    using x y bo t1 t2 s1 frame_trans [OF s1 t1(2)] frame_trans [OF s1 s2] frame_trans [OF frame_trans [OF s1 s2] t2(2)]
    by (auto simp: export_opt_def split: option.split)
qed simp

lemma rt_notify_accepted_frame:
  assumes "bo \<noteq> None \<longrightarrow> old \<noteq> None"
  shows "\<exists>t. rt_notify_accepted E ah rs new old bo fd s = Inr t \<and> frame {ah_id ah} s t"
proof -
  let ?m = "old \<noteq> None \<and> bo = None" and ?I = "{ah_id ah}"
  obtain nb rest meet s2 where nb: "find_new_best E ah bo rs ?m (count_received ah new s) = (nb, rest, meet, s2)"
    by (metis prod.collapse)
  have s2: "frame ?I s s2"
    using find_new_best_frame [of ?I "count_received ah new s" E ah bo rs ?m] nb frame_trans [OF frame_count]
    by simp
  obtain ob s3 where ob: "(if meet then export_opt E ah old True s2 else (None, s2)) = (ob, s3)" by fastforce
  then have "frame ?I s2 s3" using frame_export_opt [of ?I s2 E ah old True] by (auto split: if_splits)
  then have s3: "frame ?I s s3" using s2 frame_trans by blast
  obtain x t where xt: "find_old_best E ah bo old (tl rest) s3 = Inr (x, t)" "frame ?I s3 t"
    using find_old_best_frame [OF assms] by blast
  have t: "frame ?I s t" using s3 xt(2) frame_trans by blast
  have fin: "frame ?I s (do_rt_notify E ah n q tm rf u)" if "frame ?I s u" for n q tm rf u
    using frame_trans [OF that frame_do_rt_notify [of ah ?I u E n q tm rf]] by simp
  show ?thesis
    unfolding rt_notify_accepted_def Let_def nb prod.case ob xt(1)
    using fin s2 s3 t by (auto simp: xt(1) split: option.split prod.split)
qed

lemma merge_loop_frame: "frame I s (snd (merge_loop E ah best rts nhs s))"
proof (induction rts arbitrary: nhs s)
  case (Cons r rts)
  obtain x s1 where x: "export_filter E ah r True s = (x, s1)" by fastforce
  then have s1: "frame I s s1" using frame_export_filter by (metis snd_conv)
  show ?case using x frame_trans [OF s1 Cons.IH] Cons.IH by (auto split: option.split)
qed simp

lemma rt_export_merged_frame: "frame I s (snd (rt_export_merged E ah rs silent s))"
proof (cases rs)
  case (Cons r rts)
  obtain x s1 where x: "export_filter E ah r silent s = (x, s1)" by fastforce
  then have s1: "frame I s s1" using frame_export_filter by (metis snd_conv)
  obtain nhs s2 where l: "merge_loop E ah r rts [] s1 = (nhs, s2)" by fastforce
  then have "frame I s1 s2" using merge_loop_frame by (metis snd_conv)
  then have "frame I s s2" using s1 frame_trans by blast
  then show ?thesis using x s1 l Cons by (auto simp: rt_export_merged_def Let_def split: option.split)
qed (simp add: rt_export_merged_def)

lemma rt_notify_merged_frame:
  "frame {ah_id ah} s (rt_notify_merged E ah rs new old nb ob refeed s)"
proof -
  let ?I = "{ah_id ah}" and ?check = "same_ref nb ob \<and> \<not> refeed"
  obtain n s1 where n: "(if ?check \<and> rte_mergable E nb new then export_opt E ah new True s else (None, s)) = (n, s1)"
    by fastforce
  obtain d s2 where d: "(if ?check \<and> rte_mergable E ob old then export_opt E ah old True s1 else (None, s1)) = (d, s2)"
    by fastforce
  obtain n1 s4 where n1: "(if nb = None then (None, count_received ah nb s2)
      else rt_export_merged E ah rs False (count_received ah nb s2)) = (n1, s4)" by fastforce
  obtain o1 s5 where o1: "(if ob \<noteq> None \<and> \<not> refeed then export_opt E ah ob True s4
      else (map_option (\<lambda>o'. (o', [])) ob, s4)) = (o1, s5)" by fastforce
  have s1: "frame ?I s s1" using n frame_export_opt [of ?I s E ah new True] by (auto split: if_splits)
  have "frame ?I s1 s2" using d frame_export_opt [of ?I s1 E ah old True] by (auto split: if_splits)
  with s1 have s2: "frame ?I s s2" by (rule frame_trans)
  have s3: "frame ?I s (count_received ah nb s2)" using s2 frame_count by (rule frame_trans)
  have "frame ?I (count_received ah nb s2) s4"
    using n1 rt_export_merged_frame [of ?I "count_received ah nb s2" E ah rs False] by (auto split: if_splits)
  with s3 have s4: "frame ?I s s4" by (rule frame_trans)
  have "frame ?I s4 s5" using o1 frame_export_opt [of ?I s4 E ah ob True] by (auto split: if_splits)
  with s4 have s5: "frame ?I s s5" by (rule frame_trans)
  show ?thesis
    unfolding rt_notify_merged_def Let_def n d n1 o1 prod.case
    using s2 s5 frame_trans [OF s5 frame_do_rt_notify] by auto
qed

section \<open>Announcements\<close>

text \<open>The hooks that a type of announcement reaches.\<close>

definition reached :: "('i, 'u) rt_env \<Rightarrow> u8 \<Rightarrow> ahook list \<Rightarrow> nat set" where
  "reached E type hooks = {ah_id a | a. a \<in> set hooks \<and> e_accept_ra E (ah_proto E a) = type}"

lemma announce_hooks_frame:
  assumes "new \<noteq> None \<or> old \<noteq> None" "bo \<noteq> None \<longrightarrow> old \<noteq> None"
  shows "\<exists>t. announce_hooks E rs type new old nb ob bo hooks s = Inr t \<and> frame (reached E type hooks) s t"
proof (induction hooks arbitrary: s)
  case (Cons a hooks)
  have sub: "reached E type hooks \<subseteq> reached E type (a # hooks)" by (auto simp: reached_def)
  show ?case
  proof (cases "e_accept_ra E (ah_proto E a) = type")
    case True
    let ?step = "if type = RA_ACCEPTED then rt_notify_accepted E a rs new old bo Feed_none s
               else if type = RA_MERGED then Inr (rt_notify_merged E a rs new old nb ob False s)
               else rt_notify_basic E a new old False s"
    have "\<exists>t. ?step = Inr t \<and> frame {ah_id a} s t"
      using rt_notify_accepted_frame [OF assms(2)] rt_notify_basic_frame [OF assms(1)]
        rt_notify_merged_frame by (auto split: if_splits)
    then obtain t where t: "?step = Inr t" "frame {ah_id a} s t" by blast
    obtain u where u: "announce_hooks E rs type new old nb ob bo hooks t = Inr u" "frame (reached E type hooks) t u"
      using Cons.IH by blast
    have "frame (reached E type (a # hooks)) s t"
      using frame_mono [OF t(2), of "reached E type (a # hooks)"] True by (auto simp: reached_def)
    then have "frame (reached E type (a # hooks)) s u" using frame_mono [OF u(2) sub] by (rule frame_trans)
    moreover have "announce_hooks E rs type new old nb ob bo (a # hooks) s = Inr u"
      unfolding announce_hooks.simps if_P [OF True] t(1) by (simp add: u(1))
    ultimately show ?thesis by blast
  next
    case False
    obtain u where "announce_hooks E rs type new old nb ob bo hooks s = Inr u" "frame (reached E type hooks) s u"
      using Cons.IH by blast
    then show ?thesis using False frame_mono [OF _ sub] by auto
  qed
qed simp

lemma rte_announce_frame:
  assumes "bo \<noteq> None \<longrightarrow> old \<noteq> None"
  shows "\<exists>t. rte_announce E pst hooks rs type new old nb ob bo s = Inr t \<and> frame (reached E type hooks) s t"
proof (cases "only_valid new = None \<and> only_valid old = None")
  case False
  let ?bo = "if rte_is_valid old then bo else None"
  let ?s1 = "case only_valid new of Some n \<Rightarrow> if type = RA_OPTIMAL
      then upd_stats (pst (route_proto E n)) (pref_routes_update (\<lambda>k. k + 1)) s else s | None \<Rightarrow> s"
  let ?s2 = "case only_valid old of Some o' \<Rightarrow> if type = RA_OPTIMAL
      then upd_stats (pst (route_proto E o')) (pref_routes_update (\<lambda>k. k - 1)) ?s1 else ?s1 | None \<Rightarrow> ?s1"
  have "frame (reached E type hooks) s ?s1" by (auto intro!: frame_upd split: option.split)
  moreover have "frame (reached E type hooks) ?s1 ?s2" by (auto intro!: frame_upd split: option.split)
  ultimately have f: "frame (reached E type hooks) s ?s2" by (rule frame_trans)
  have "?bo \<noteq> None \<longrightarrow> only_valid old \<noteq> None" using assms by (simp add: only_valid_def)
  then obtain t where "announce_hooks E rs type (only_valid new) (only_valid old) (only_valid nb) (only_valid ob)
      ?bo hooks ?s2 = Inr t" "frame (reached E type hooks) ?s2 t"
    using announce_hooks_frame False by blast
  then show ?thesis using frame_trans [OF f] False unfolding rte_announce_def Let_def by auto
qed (simp add: rte_announce_def Let_def)

end
