(* ===== verification/RtRecalc.thy ===== *)
theory RtRecalc
  imports RtSelect RtFrame
begin

text \<open>
  The update of a network as a whole: \<open>rte_recalculate\<close> never fails, counts the routes of the network,
  keeps within the import limit, keeps the routes sorted or the best one first, and tells every
  protocol its new best or first accepted route.
\<close>

section \<open>The old route\<close>

lemma remove_old_split:
  "remove_old E p src new b0 rs = Removed old bo rs' \<Longrightarrow>
     old = None \<and> bo = None \<and> rs' = rs \<and> (\<forall>r \<in> set rs. a_src (r_attrs r) \<noteq> src) \<or>
     (\<exists>xs q ys. old = Some q \<and> rs = xs @ q # ys \<and> rs' = xs @ ys \<and>
        bo = (if xs = [] then b0 else Some (last xs)) \<and> a_src (r_attrs q) = src \<and>
        e_hook_proto E (r_sender q) = p \<and> (\<forall>r \<in> set xs. a_src (r_attrs r) \<noteq> src))"
proof (induction rs arbitrary: b0 rs')
  case (Cons r rs)
  show ?case
  proof (cases "a_src (r_attrs r) = src")
    case True
    then have "old = Some r \<and> rs' = rs \<and> bo = b0 \<and> e_hook_proto E (r_sender r) = p"
      using Cons.prems by (simp split: if_splits)
    then show ?thesis using True by (intro disjI2 exI [of _ "[]"]) auto
  next
    case False
    then obtain rs2 where rs2: "remove_old E p src new (Some r) rs = Removed old bo rs2" "rs' = r # rs2"
      using Cons.prems by (auto split: old_search.splits)
    from Cons.IH [OF rs2(1)] show ?thesis
    proof (elim disjE exE conjE)
      fix xs q ys
      assume *: "old = Some q" "rs = xs @ q # ys" "rs2 = xs @ ys"
        "bo = (if xs = [] then Some r else Some (last xs))" "a_src (r_attrs q) = src"
        "e_hook_proto E (r_sender q) = p" "\<forall>r \<in> set xs. a_src (r_attrs r) \<noteq> src"
      then show ?thesis using rs2(2) False by (intro disjI2 exI [of _ "r # xs"]) auto
    qed (use rs2(2) False in simp)
  qed
qed simp

lemma remove_old_cases:
  assumes "remove_old E p src new b0 rs = Removed old bo rs'"
  obtains (absent) "old = None" "bo = None" "rs' = rs" "\<forall>r \<in> set rs. a_src (r_attrs r) \<noteq> src"
  | (found) xs q ys where "old = Some q" "rs = xs @ q # ys" "rs' = xs @ ys"
      "bo = (if xs = [] then b0 else Some (last xs))" "a_src (r_attrs q) = src"
      "e_hook_proto E (r_sender q) = p" "\<forall>r \<in> set xs. a_src (r_attrs r) \<noteq> src"
  using remove_old_split [OF assms] by blast

section \<open>The limits\<close>

definition mark_filtered :: "('i, 'u) route \<Rightarrow> ('i, 'u) route" where
  "mark_filtered r = r\<lparr>r_flags := r_flags r OR REF_FILTERED\<rparr>"

lemma mark_filtered_invalid [simp]: "\<not> is_valid (mark_filtered r)"
proof -
  have "bit ((r_flags r OR 2) AND 2) 1" by (simp add: bit_simps)
  then have "(r_flags r OR 2) AND 2 \<noteq> 0" by auto
  then show ?thesis by (simp add: is_valid_def mark_filtered_def REF_FILTERED_def)
qed

lemma is_filtered_iff [simp]: "rte_is_filtered r \<longleftrightarrow> \<not> is_valid r"
  by (simp add: rte_is_filtered_def is_valid_def)

lemma rte_is_ok_simps [simp]: "\<not> rte_is_ok None" "rte_is_ok (Some r) \<longleftrightarrow> is_valid r"
  by (simp_all add: rte_is_ok_def)

lemma mark_filtered_ref [simp]:
  "r_ref (mark_filtered r) = r_ref r" "r_attrs (mark_filtered r) = r_attrs r"
  by (simp_all add: mark_filtered_def)

text \<open>The two counters of a hook, and a step that changes nothing else that matters here.\<close>

definition counts :: "proto_stats \<Rightarrow> u32 \<times> u32" where
  "counts st = (imp_routes st, filt_routes st)"

definition quiet :: "('i, 'u) rt_state \<Rightarrow> ('i, 'u) rt_state \<Rightarrow> bool" where
  "quiet s t \<longleftrightarrow> s_out t = s_out s \<and> (\<forall>i. counts (s_stats t i) = counts (s_stats s i))"

lemma quiet_refl [simp]: "quiet s s"
  by (simp add: quiet_def)

lemma quiet_trans: "quiet s t \<Longrightarrow> quiet t u \<Longrightarrow> quiet s u"
  by (simp add: quiet_def)

lemma quiet_upd: "(\<And>st. counts (f st) = counts st) \<Longrightarrow> quiet s (upd_stats i f s)"
  by (simp add: quiet_def upd_stats_def)

lemma quiet_ignored [simp]: "quiet s (upd_stats i count_ignored s)"
  by (rule quiet_upd) (simp add: counts_def count_ignored_def)

lemma quiet_limit: "quiet s (proto_notify_limit E ah l dir s)"
  by (auto simp: quiet_def proto_notify_limit_def Let_def split: limit_action.split)

lemma limit_blocks_quiet: "quiet s (snd (limit_blocks E ah l dir n s))"
  by (simp add: limit_blocks_def Let_def quiet_limit)

lemma upd_stats_simps [simp]:
  "s_stats (upd_stats k f s) i = (if i = k then f (s_stats s i) else s_stats s i)"
  "s_out (upd_stats k f s) = s_out s"
  by (simp_all add: upd_stats_def)

lemma import_limits_cases:
  assumes "new \<noteq> None \<or> old \<noteq> None"
  obtains (dropped) s1 where "import_limits E ah new old s = (None, s1)" "old = None" "quiet s s1"
  | (kept) new1 ok s0 s1 where "import_limits E ah new old s = (Some (new1, ok), s1)" "quiet s s0"
      "new1 = new \<or> new1 = map_option mark_filtered new \<or> new1 = None" "new1 \<noteq> None \<or> old \<noteq> None"
      "s_out s1 = s_out s"
      "\<forall>i. counts (s_stats s1 i) = counts (if i = ah_stats ah then count_change new1 old (s_stats s0 i) else s_stats s0 i)"
proof -
  obtain rx s1 where rx: "(case ah_rx_limit ah of
      Some l \<Rightarrow> if old = None \<and> new \<noteq> None
        then limit_blocks E ah l PLD_RX (imp_routes (s_stats s (ah_stats ah)) + filt_routes (s_stats s (ah_stats ah))) s
        else (False, s)
    | None \<Rightarrow> (False, s)) = (rx, s1)" by fastforce
  obtain im s2 where im: "(case ah_in_limit ah of
      Some l \<Rightarrow> if \<not> rte_is_ok old \<and> rte_is_ok new
        then limit_blocks E ah l PLD_IN (imp_routes (s_stats s1 (ah_stats ah))) s1 else (False, s1)
    | None \<Rightarrow> (False, s1)) = (im, s2)" by fastforce
  have q1: "quiet s s1" "rx \<longrightarrow> old = None"
    using rx limit_blocks_quiet [of s E ah] by (auto split: option.splits if_splits simp: prod_eq_iff)
  have "quiet s1 s2"
    using im limit_blocks_quiet [of s1 E ah] by (auto split: option.splits if_splits simp: prod_eq_iff)
  with q1 have q2: "quiet s s2" by (blast intro: quiet_trans)
  let ?new1 = "if ah_in_keep_filtered ah then map_option mark_filtered new else None"
  let ?s3 = "upd_stats (ah_stats ah) count_ignored s2"
  have q3: "quiet s ?s3" using q2 quiet_ignored by (rule quiet_trans)
  let ?s4 = "upd_stats (ah_stats ah) (count_accepted (rte_is_ok new) (rte_is_ok old)) s2"
  have "quiet s2 ?s4" by (rule quiet_upd) (simp add: counts_def count_accepted_def)
  with q2 have q4: "quiet s ?s4" by (rule quiet_trans)
  note run = import_limits_def [of E ah new old s, unfolded Let_def rx prod.case im, folded mark_filtered_def]
  consider "rx" | "\<not> rx" "im" "old = None \<and> ?new1 = None" | "\<not> rx" "im" "\<not> (old = None \<and> ?new1 = None)"
    | "\<not> rx" "\<not> im" by blast
  then show thesis
  proof cases
    case 1
    then show thesis
      using dropped [of "upd_stats (ah_stats ah) count_ignored s1"] q1 quiet_trans [OF q1(1) quiet_ignored]
      unfolding run by auto
  next
    case 2
    then show thesis using dropped [of ?s3] q3 unfolding run by auto
  next
    case 3
    then have "import_limits E ah new old s =
        (Some (?new1, False), upd_stats (ah_stats ah) (count_change ?new1 old) ?s3)"
      unfolding run by auto
    then show thesis
      by (rule kept [OF _ q3]) (use 3 q3 in \<open>auto simp: quiet_def\<close>)
  next
    case 4
    then have "import_limits E ah new old s = (Some (new, rte_is_ok new), upd_stats (ah_stats ah)
          (\<lambda>st. count_change new old (count_accepted (rte_is_ok new) (rte_is_ok old) st)) s2)"
      unfolding run by auto
    then show thesis
      by (rule kept [OF _ q4]) (use assms q4 in \<open>auto simp: quiet_def\<close>)
  qed
qed

section \<open>The announcement of a change\<close>

lemma announce_change_steps:
  assumes "bo \<noteq> None \<longrightarrow> old \<noteq> None"
  obtains s1 s2 s3 t where
    "rte_announce E (t_stats T) (t_hooks T) rs RA_ANY new old None None None s = Inr s1"
    "frame (reached E RA_ANY (t_hooks T)) s s1"
    "(if \<not> same_ref (head_opt rs) ob
      then rte_announce E (t_stats T) (t_hooks T) rs RA_OPTIMAL (head_opt rs) ob None None None s1 else Inr s1) = Inr s2"
    "frame (reached E RA_OPTIMAL (t_hooks T)) s1 s2"
    "(if t_sorted T then rte_announce E (t_stats T) (t_hooks T) rs RA_ACCEPTED new old None None bo s2
      else Inr s2) = Inr s3"
    "frame (reached E RA_ACCEPTED (t_hooks T)) s2 s3"
    "frame (reached E RA_MERGED (t_hooks T)) s3 t"
    "announce_change E T rs new old ob bo s = Inr t"
proof -
  have none: "None \<noteq> None \<longrightarrow> x \<noteq> None" for x :: "('a, 'b) route option" by simp
  note fr = rte_announce_frame [of _ _ E "t_stats T" "t_hooks T" rs]
  obtain s1 where s1: "rte_announce E (t_stats T) (t_hooks T) rs RA_ANY new old None None None s = Inr s1"
    "frame (reached E RA_ANY (t_hooks T)) s s1" using fr [OF none] by blast
  obtain s2 where s2: "(if \<not> same_ref (head_opt rs) ob
      then rte_announce E (t_stats T) (t_hooks T) rs RA_OPTIMAL (head_opt rs) ob None None None s1 else Inr s1) = Inr s2"
    "frame (reached E RA_OPTIMAL (t_hooks T)) s1 s2"
    using fr [OF none, of RA_OPTIMAL "head_opt rs" ob None None s1] by (cases "same_ref (head_opt rs) ob") auto
  obtain s3 where s3: "(if t_sorted T
      then rte_announce E (t_stats T) (t_hooks T) rs RA_ACCEPTED new old None None bo s2 else Inr s2) = Inr s3"
    "frame (reached E RA_ACCEPTED (t_hooks T)) s2 s3"
    using fr [OF assms, of RA_ACCEPTED new None None s2] by (cases "t_sorted T") auto
  obtain t where t: "rte_announce E (t_stats T) (t_hooks T) rs RA_MERGED new old (head_opt rs) ob None s3 = Inr t"
    "frame (reached E RA_MERGED (t_hooks T)) s3 t" using fr [OF none] by blast
  have "announce_change E T rs new old ob bo s = Inr t"
    unfolding announce_change_def Let_def s1(1) rbind_simps(2) s2(1) s3(1) t(1) ..
  from that [OF s1 s2 s3 t(2) this] show thesis .
qed

lemma announce_change_frame:
  assumes "bo \<noteq> None \<longrightarrow> old \<noteq> None"
  obtains t where "announce_change E T rs new old ob bo s = Inr t" "frame UNIV s t"
proof (rule announce_change_steps [OF assms])
  fix s1 s2 s3 t
  assume "frame (reached E RA_ANY (t_hooks T)) s s1" "frame (reached E RA_OPTIMAL (t_hooks T)) s1 s2"
    "frame (reached E RA_ACCEPTED (t_hooks T)) s2 s3" "frame (reached E RA_MERGED (t_hooks T)) s3 t"
    "announce_change E T rs new old ob bo s = Inr t"
  then show thesis
    using that frame_mono [of _ _ _ UNIV] frame_trans [of UNIV] by (metis subset_UNIV)
qed

section \<open>The steps of an update\<close>

lemma gc_check_simps [simp]:
  "s_out (gc_check T rs s) = s_out s" "s_stats (gc_check T rs s) = s_stats s"
  by (simp_all add: gc_check_def Let_def)

lemma call_hooks_simps [simp]:
  "s_out (call_hooks T p n nk q qk s) = s_out s" "s_stats (call_hooks T p n nk q qk s) = s_stats s"
  by (simp_all add: call_hooks_def)

lemma rte_recalculate_cases:
  obtains (same) s' where "rte_recalculate E T ah routes new src s = Inr (routes, s')" "quiet s s'"
      "\<forall>old bo rs. remove_old E (ah_proto E ah) src new None routes = Removed old bo rs \<longrightarrow>
        old = None \<and> (new = None \<or> fst (import_limits E ah new old s) = None)"
  | (changed) old bo rs new1 s0 s1 rs2 new2 ob s2 s' ok where
      "remove_old E (ah_proto E ah) src new None routes = Removed old bo rs"
      "new1 = new \<or> new1 = map_option mark_filtered new \<or> new1 = None" "new1 \<noteq> None \<or> old \<noteq> None"
      "quiet s s0" "s_out s1 = s_out s"
      "\<forall>i. counts (s_stats s1 i) = counts (if i = ah_stats ah then count_change new1 old (s_stats s0 i) else s_stats s0 i)"
      "select_routes E T src new1 old bo (head_opt routes) rs = (rs2, new2, ob)"
      "announce_change E T (map (touch (t_now T) new2) rs2) (map_option (touch (t_now T) new2) new2) old ob bo s1 = Inr s2"
      "rte_recalculate E T ah routes new src s = Inr (map (touch (t_now T) new2) rs2, s')"
      "s_out s' = s_out s2" "s_stats s' = s_stats s2"
      "import_limits E ah new old s = (Some (new1, ok), s1)"
proof (cases "remove_old E (ah_proto E ah) src new None routes")
  case (Removed old bo rs)
  have bo: "bo \<noteq> None \<longrightarrow> old \<noteq> None" "old = None \<Longrightarrow> rs = routes"
    using Removed by (auto elim: remove_old_cases)
  show thesis
  proof (cases "old = None \<and> new = None")
    case True
    show thesis
      by (rule same [OF _ quiet_upd [of "\<lambda>st. st\<lparr>imp_withdraws_ignored := imp_withdraws_ignored st + 1\<rparr>"]])
        (use Removed True in \<open>auto simp: rte_recalculate_def counts_def\<close>)
  next
    case False
    then have "new \<noteq> None \<or> old \<noteq> None" by auto
    then show thesis
    proof (cases rule: import_limits_cases [of new old E ah s])
      case (dropped s1)
      then show thesis using same [of s1] Removed False bo by (auto simp: rte_recalculate_def)
    next
      case (kept new1 ok s0 s1)
      obtain rs2 new2 ob where sel: "select_routes E T src new1 old bo (head_opt routes) rs = (rs2, new2, ob)"
        by (metis prod.collapse)
      obtain s2 where s2: "announce_change E T (map (touch (t_now T) new2) rs2)
          (map_option (touch (t_now T) new2) new2) old ob bo s1 = Inr s2"
        by (rule announce_change_frame [OF bo(1)])
      let ?s' = "call_hooks T (ah_proto E ah) (map_option (touch (t_now T) new2) new2) ok old
          (rte_is_ok old) (gc_check T (map (touch (t_now T) new2) rs2) s2)"
      have "rte_recalculate E T ah routes new src s = Inr (map (touch (t_now T) new2) rs2, ?s')"
        using Removed False kept(1) sel s2 by (auto simp: rte_recalculate_def Let_def)
      then show thesis
        using changed [OF Removed kept(3,4,2,5,6) sel s2, of ?s' ok] kept(1) by simp
    qed
  qed
qed (use same [of s] same [of "upd_stats (ah_stats ah) count_ignored s"] in
    \<open>auto simp: rte_recalculate_def split: if_splits\<close>)

section \<open>The number of routes\<close>

definition n_valid :: "('i, 'u) route list \<Rightarrow> u32" where
  "n_valid rs = of_nat (length (filter is_valid rs))"

definition n_filtered :: "('i, 'u) route list \<Rightarrow> u32" where
  "n_filtered rs = of_nat (length (filter (\<lambda>r. \<not> is_valid r) rs))"

text \<open>The hook \<open>rte_recalculate\<close> does not filter routes.\<close>

definition hook_keeps :: "('i, 'u) table_env \<Rightarrow> bool" where
  "hook_keeps T \<longleftrightarrow> (\<forall>i h rs new old ob f rs' new'. t_recalculate T i = Some h \<longrightarrow> h rs new old ob = (f, rs', new') \<longrightarrow>
     map r_flags rs' = map r_flags rs \<and> map_option r_flags new' = map_option r_flags new)"

lemma n_valid_simps [simp]:
  "n_valid [] = 0" "n_valid (r # rs) = (if is_valid r then 1 else 0) + n_valid rs"
  "n_valid (xs @ ys) = n_valid xs + n_valid ys"
  "n_filtered [] = 0" "n_filtered (r # rs) = (if is_valid r then 0 else 1) + n_filtered rs"
  "n_filtered (xs @ ys) = n_filtered xs + n_filtered ys"
  by (simp_all add: n_valid_def n_filtered_def)

lemma n_valid_flags:
  fixes xs ys :: "('i, 'u) route list"
  assumes "mset (map r_flags xs) = mset (map r_flags ys)"
  shows "n_valid xs = n_valid ys" "n_filtered xs = n_filtered ys"
    "length (filter is_valid xs) = length (filter is_valid ys)"
proof -
  have *: "length (filter (P \<circ> r_flags) zs) = size (filter_mset P (mset (map r_flags zs)))" for P and zs :: "('i, 'u) route list"
    by (induction zs) auto
  have "length (filter (P \<circ> r_flags) xs) = length (filter (P \<circ> r_flags) ys)" for P
    unfolding * assms ..
  from this [of "\<lambda>f. f AND REF_FILTERED = 0"] this [of "\<lambda>f. f AND REF_FILTERED \<noteq> 0"]
  show "n_valid xs = n_valid ys" "n_filtered xs = n_filtered ys"
    "length (filter is_valid xs) = length (filter is_valid ys)"
    by (simp_all add: n_valid_def n_filtered_def is_valid_def [abs_def] comp_def)
qed

lemma touch_simps [simp]:
  "r_flags (touch now new r) = r_flags r" "r_ref (touch now new r) = r_ref r"
  "r_attrs (touch now new r) = r_attrs r" "r_pref (touch now new r) = r_pref r"
  "is_valid (touch now new r) = is_valid r"
  by (simp_all add: touch_def is_valid_def)

lemma insert_here_mset: "mset (insert_here E new rs) = add_mset new (mset rs)"
  by (induction rs) auto

lemma insert_behind_mset:
  "b \<in> set rs \<Longrightarrow> mset (insert_behind E b new rs) = add_mset new (mset rs)"
  by (induction rs) (auto simp: insert_here_mset)

lemma insert_sorted_mset:
  "\<forall>b. bo = Some b \<longrightarrow> b \<in> set rs \<Longrightarrow> mset (insert_sorted E bo new rs) = add_mset new (mset rs)"
  by (auto simp: insert_sorted_def insert_here_mset insert_behind_mset split: option.split)

lemma insert_sorted_flags:
  assumes "\<forall>b. bo = Some b \<longrightarrow> b \<in> set rs"
  shows "mset (map r_flags (insert_sorted E bo new rs)) = add_mset (r_flags new) (mset (map r_flags rs))"
  by (simp add: insert_sorted_mset [OF assms])

lemma elect_Nil [simp]: "elect E [] = []"
  by (simp add: elect_def)

lemma elect_mset: "mset (elect E rs) = mset rs"
proof -
  have "rs \<noteq> [] \<Longrightarrow> elect_loop E rs 0 [1..<length rs] < length rs" by (intro elect_loop_bound) auto
  then show ?thesis by (simp add: elect_def relink_front_mset)
qed

lemma select_unsorted_flags:
  assumes "hook_keeps T" "select_unsorted E T src new old ob rs = (rs2, new2, ob2)"
  shows "mset (map r_flags rs2) = mset (map r_flags (opt_list new @ rs))"
proof -
  obtain force rs1 new1 where h: "(case t_recalculate T (e_src_proto E src) of
      None \<Rightarrow> (False, rs, new) | Some hook \<Rightarrow> hook rs new old ob) = (force, rs1, new1)"
    by (metis prod.collapse)
  have keep: "map r_flags rs1 = map r_flags rs" "map_option r_flags new1 = map_option r_flags new"
    using h assms(1) by (auto simp: hook_keeps_def split: option.splits)
  have eq: "mset (map r_flags (opt_list new1 @ rs1)) = mset (map r_flags (opt_list new @ rs))"
    using keep by (cases new; cases new1) (auto simp: opt_list_def)
  let ?ob = "if old \<noteq> None \<and> same_ref old ob then ob else head_opt rs1"
  have third: "rs1 \<noteq> []" if "\<not> (new1 \<noteq> None \<and> rte_better E new1 ?ob)" "\<not> same_ref old ?ob" "new1 \<noteq> None"
    using that by (auto simp: head_opt_def rte_better_def same_ref_def split: if_splits)
  have el: "mset (map r_flags (elect E xs)) = mset (map r_flags xs)" for xs
    using elect_mset [of E xs] by (metis mset_map)
  have "mset (map r_flags rs2) = mset (map r_flags (opt_list new1 @ rs1))"
    using assms(2) [symmetric] third el unfolding select_unsorted_def h Let_def prod.case
    by (cases rs1; cases new1) (auto simp: opt_list_def split: if_splits)
  then show ?thesis using eq by simp
qed

lemma select_routes_flags:
  assumes "hook_keeps T" "select_routes E T src new old bo ob rs = (rs2, new2, ob2)"
    and "\<forall>b. bo = Some b \<longrightarrow> b \<in> set rs"
  shows "mset (map r_flags rs2) = mset (map r_flags (opt_list new @ rs))"
  using assms select_unsorted_flags [OF assms(1), of E src new old ob rs rs2 new2 ob2]
  by (auto simp: select_routes_def opt_list_def insert_sorted_flags simp del: mset_map
      split: if_splits option.splits)

lemma count_change_counts:
  "counts (count_change new old st) =
     (imp_routes st + n_valid (opt_list new) - n_valid (opt_list old),
      filt_routes st + n_filtered (opt_list new) - n_filtered (opt_list old))"
  by (auto simp: counts_def count_change_def opt_list_def Let_def split: option.split)

lemma remove_old_counts:
  assumes "remove_old E p src new b0 rs = Removed old bo rs'"
  shows "n_valid rs = n_valid (opt_list old) + n_valid rs'" "n_filtered rs = n_filtered (opt_list old) + n_filtered rs'"
    and "\<forall>b. b0 = None \<longrightarrow> bo = Some b \<longrightarrow> b \<in> set rs'"
    and "length (filter is_valid rs) = length (filter is_valid (opt_list old)) + length (filter is_valid rs')"
  using assms by (auto elim!: remove_old_cases simp: opt_list_def split: if_splits)

lemma changed_counts:
  assumes "remove_old E p src new None routes = Removed old bo rs"
    and "quiet s s0"
    and "\<forall>i. counts (s_stats s1 i) = counts (if i = k then count_change new1 old (s_stats s0 i) else s_stats s0 i)"
    and "announce_change E T rs' new' old ob bo s1 = Inr s2"
  shows "counts (s_stats s2 k) =
      (imp_routes (s_stats s k) + n_valid (opt_list new1) - n_valid (opt_list old),
       filt_routes (s_stats s k) + n_filtered (opt_list new1) - n_filtered (opt_list old))"
    and "i \<noteq> k \<Longrightarrow> counts (s_stats s2 i) = counts (s_stats s i)"
proof -
  have bo: "bo \<noteq> None \<longrightarrow> old \<noteq> None" using assms(1) by (auto elim: remove_old_cases)
  have "frame UNIV s1 s2" using announce_change_frame [OF bo] assms(4) by (metis Inr_inject)
  then have s2: "counts (s_stats s2 i) = counts (s_stats s1 i)" for i by (simp add: frame_def counts_def)
  have s0: "counts (s_stats s0 i) = counts (s_stats s i)" for i using assms(2) by (simp add: quiet_def)
  show "i \<noteq> k \<Longrightarrow> counts (s_stats s2 i) = counts (s_stats s i)" using assms(3) s2 s0 by simp
  have "counts (s_stats s2 k) = counts (count_change new1 old (s_stats s0 k))" using assms(3) s2 by simp
  then show "counts (s_stats s2 k) =
      (imp_routes (s_stats s k) + n_valid (opt_list new1) - n_valid (opt_list old),
       filt_routes (s_stats s k) + n_filtered (opt_list new1) - n_filtered (opt_list old))"
    using s0 [of k] unfolding count_change_counts by (simp add: counts_def)
qed

text \<open>C18. The counters of imported and of filtered routes of a hook follow the list of the network:
  whatever happens to an update (a collision, an unchanged route, a limit, a route that is filtered,
  replaced or removed), \<open>rte_recalculate\<close> succeeds and changes \<open>imp_routes\<close> and \<open>filt_routes\<close> of the
  statistics of the hook by exactly the change of the number of valid and of filtered routes of the
  network, and changes these counters of no other statistics.\<close>

theorem rte_recalculate_counts:
  assumes "hook_keeps T"
  shows "\<exists>routes' s'. rte_recalculate E T ah routes new src s = Inr (routes', s') \<and>
    imp_routes (s_stats s' (ah_stats ah)) = imp_routes (s_stats s (ah_stats ah)) + n_valid routes' - n_valid routes \<and>
    filt_routes (s_stats s' (ah_stats ah)) =
      filt_routes (s_stats s (ah_stats ah)) + n_filtered routes' - n_filtered routes \<and>
    (\<forall>i. i \<noteq> ah_stats ah \<longrightarrow> imp_routes (s_stats s' i) = imp_routes (s_stats s i) \<and>
      filt_routes (s_stats s' i) = filt_routes (s_stats s i))"
proof (cases rule: rte_recalculate_cases [of E T ah routes new src s])
  case (same s')
  then show ?thesis by (auto simp: quiet_def counts_def)
next
  case (changed old bo rs new1 s0 s1 rs2 new2 ob s2 s')
  note rem = remove_old_counts [OF changed(1)]
  have "mset (map r_flags rs2) = mset (map r_flags (opt_list new1 @ rs))"
    using select_routes_flags [OF assms changed(7)] rem(3) by blast
  then have "mset (map r_flags (map (touch (t_now T) new2) rs2)) = mset (map r_flags (opt_list new1 @ rs))"
    by (simp add: comp_def)
  from n_valid_flags [OF this] changed_counts [OF changed(1,4,6,8)] show ?thesis
    using changed(9,11) rem(1,2) by (auto simp: counts_def)
qed

definition demo_table :: "bool \<Rightarrow> (u32, u32) table_env" where
  "demo_table sorted_flag = \<lparr>t_lib = \<lparr>l_bits = 32, l_is_prefix = (\<lambda>_ _. True), l_classify_net = (\<lambda>_. 17),
       l_iaddr_host = 16, l_scope_mask = 15, l_scope_link = 0\<rparr>,
     t_sorted = sorted_flag, t_hooks = [demo_hook], t_hook_rec = (\<lambda>_. demo_hook), t_stats = (\<lambda>_. 0),
     t_gc_max_ops = 1000, t_gc_min_time = 5, t_now = 9, t_recalculate = (\<lambda>_. None),
     t_rte_insert = (\<lambda>_. False), t_rte_remove = (\<lambda>_. False)\<rparr>"

theorem rte_recalculate_counts_witness:
  "\<exists>routes' s'. rte_recalculate demo_env (demo_table False) demo_hook [demo_route 1 100 7] (Some (demo_route 2 90 7)) 0
       demo_state = Inr (routes', s') \<and>
     imp_routes (s_stats s' 0) = n_valid routes' - 1"
  using rte_recalculate_counts [of "demo_table False" demo_env demo_hook "[demo_route 1 100 7]"
      "Some (demo_route 2 90 7)" 0 demo_state]
  by (auto simp: hook_keeps_def demo_table_def demo_defs)

section \<open>The import limit\<close>

lemma limit_blocks_limits:
  "pl_limit (s_limits (snd (limit_blocks E ah l dir n s)) k) = pl_limit (s_limits s k)"
  "pl_action (s_limits (snd (limit_blocks E ah l dir n s)) k) = pl_action (s_limits s k)"
  by (auto simp: limit_blocks_def proto_notify_limit_def Let_def split: limit_action.split)

lemma limit_blocks_full:
  assumes "pl_action (s_limits s l) \<noteq> PLA_WARN" "n \<ge> pl_limit (s_limits s l)"
  shows "fst (limit_blocks E ah l dir n s)"
  using assms by (auto simp: limit_blocks_def proto_notify_limit_def Let_def split: limit_action.split)

text \<open>A route that gets past the limit is the unchanged new route, and there was room for it.\<close>

lemma import_limits_room:
  assumes l: "ah_in_limit ah = Some l" "pl_action (s_limits s l) \<noteq> PLA_WARN"
    and run: "import_limits E ah new old s = (Some (new1, ok), s1)"
    and ok: "rte_is_ok new1" "\<not> rte_is_ok old"
  shows "imp_routes (s_stats s (ah_stats ah)) < pl_limit (s_limits s l)"
proof (rule ccontr)
  assume "\<not> ?thesis"
  then have full: "pl_limit (s_limits s l) \<le> imp_routes (s_stats s (ah_stats ah))" by simp
  obtain rx s1 where rx: "(case ah_rx_limit ah of
      Some l \<Rightarrow> if old = None \<and> new \<noteq> None
        then limit_blocks E ah l PLD_RX (imp_routes (s_stats s (ah_stats ah)) + filt_routes (s_stats s (ah_stats ah))) s
        else (False, s)
    | None \<Rightarrow> (False, s)) = (rx, s1)" by fastforce
  have s1: "pl_limit (s_limits s1 l) = pl_limit (s_limits s l)" "pl_action (s_limits s1 l) = pl_action (s_limits s l)"
    "counts (s_stats s1 (ah_stats ah)) = counts (s_stats s (ah_stats ah))"
    using rx limit_blocks_limits [of E ah _ PLD_RX _ s l] limit_blocks_quiet [of s E ah]
    by (auto simp: quiet_def split: option.splits if_splits) (metis snd_conv)+
  have block: "fst (limit_blocks E ah l PLD_IN (imp_routes (s_stats s1 (ah_stats ah))) s1)"
    by (rule limit_blocks_full) (use s1 l full in \<open>auto simp: counts_def\<close>)
  obtain s2 where s2: "limit_blocks E ah l PLD_IN (imp_routes (s_stats s1 (ah_stats ah))) s1 = (True, s2)"
    using block by (metis prod.collapse)
  note def = import_limits_def [of E ah new old s, unfolded Let_def rx prod.case l(1) option.case, folded mark_filtered_def]
  show False
    using run ok s2 unfolding def by (cases new) (auto split: if_splits)
qed

lemma counter_step:
  fixes i lim :: u32
  assumes "i \<le> lim"
  shows "n \<Longrightarrow> \<not> q \<Longrightarrow> i < lim \<Longrightarrow> i + 1 \<le> lim \<and> unat (i + 1) = unat i + 1"
    and "\<not> n \<Longrightarrow> q \<Longrightarrow> 0 < unat i \<Longrightarrow> i - 1 \<le> lim \<and> unat (i - 1) + 1 = unat i"
proof -
  show "i + 1 \<le> lim \<and> unat (i + 1) = unat i + 1" if "i < lim"
  proof -
    have "unat (i + 1) = unat i + 1"
      using that unsigned_less [of lim, where 'a = nat]
      by (simp add: unat_word_ariths word_less_nat_alt)
    then show ?thesis using that by (simp add: word_le_nat_alt word_less_nat_alt)
  qed
  show "i - 1 \<le> lim \<and> unat (i - 1) + 1 = unat i" if "0 < unat i"
  proof -
    have "unat (i - 1) = unat i - 1" using that by (simp add: unat_minus_one unat_gt_0)
    then show ?thesis using that assms by (simp add: word_le_nat_alt)
  qed
qed

text \<open>C19. The import limit is kept: for a hook whose limit does more than warn, if the counter of imported
  routes is within the limit and counts at least the valid routes of the network, then after
  \<open>rte_recalculate\<close> with any update the counter is within the limit. The counter does not wrap around.\<close>

theorem rte_recalculate_import_limit:
  assumes "hook_keeps T"
    and l: "ah_in_limit ah = Some l" "pl_action (s_limits s l) \<noteq> PLA_WARN"
    and le: "imp_routes (s_stats s (ah_stats ah)) \<le> pl_limit (s_limits s l)"
    and num: "length (filter is_valid routes) \<le> unat (imp_routes (s_stats s (ah_stats ah)))"
  shows "\<exists>routes' s'. rte_recalculate E T ah routes new src s = Inr (routes', s') \<and>
    imp_routes (s_stats s' (ah_stats ah)) \<le> pl_limit (s_limits s l) \<and>
    unat (imp_routes (s_stats s' (ah_stats ah))) + length (filter is_valid routes) =
      unat (imp_routes (s_stats s (ah_stats ah))) + length (filter is_valid routes')"
proof (cases rule: rte_recalculate_cases [of E T ah routes new src s])
  case (same s')
  then show ?thesis using le by (auto simp: quiet_def counts_def)
next
  case (changed old bo rs new1 s0 s1 rs2 new2 ob s2 s' ok)
  note rem = remove_old_counts [OF changed(1)]
  let ?i = "imp_routes (s_stats s (ah_stats ah))"
  have "mset (map r_flags rs2) = mset (map r_flags (opt_list new1 @ rs))"
    using select_routes_flags [OF assms(1) changed(7)] rem(3) by blast
  then have "mset (map r_flags (map (touch (t_now T) new2) rs2)) = mset (map r_flags (opt_list new1 @ rs))"
    by (simp add: comp_def)
  from n_valid_flags(3) [OF this]
  have len: "length (filter is_valid (map (touch (t_now T) new2) rs2)) =
      length (filter is_valid (opt_list new1)) + length (filter is_valid rs)" by simp
  have imp: "imp_routes (s_stats s' (ah_stats ah)) = ?i + n_valid (opt_list new1) - n_valid (opt_list old)"
    using changed_counts(1) [OF changed(1,4,6,8)] changed(11) by (simp add: counts_def)
  have room: "rte_is_ok new1 \<Longrightarrow> \<not> rte_is_ok old \<Longrightarrow> ?i < pl_limit (s_limits s l)"
    using import_limits_room [OF l changed(12)] .
  have "imp_routes (s_stats s' (ah_stats ah)) \<le> pl_limit (s_limits s l) \<and>
    unat (imp_routes (s_stats s' (ah_stats ah))) + length (filter is_valid routes) =
      unat ?i + length (filter is_valid (map (touch (t_now T) new2) rs2))"
    using counter_step [OF le, of "rte_is_ok new1" "rte_is_ok old"] room num le
    unfolding imp len rem(4) by (cases new1; cases old) (auto simp: opt_list_def)
  then show ?thesis using changed(9) by blast
qed

definition demo_limited :: ahook where
  "demo_limited = demo_hook\<lparr>ah_in_limit := Some 3\<rparr>"

theorem rte_recalculate_import_limit_witness:
  "\<exists>routes' s'. rte_recalculate demo_env (demo_table True) demo_limited [] (Some (demo_route 2 90 7)) 0
       demo_state = Inr (routes', s') \<and> imp_routes (s_stats s' 0) \<le> 0"
  using rte_recalculate_import_limit [of "demo_table True" demo_limited 3 demo_state "[]" demo_env
      "Some (demo_route 2 90 7)" 0]
  by (auto simp: hook_keeps_def demo_table_def demo_limited_def demo_defs)

end
