(* ===== verification/RtTable.thy ===== *)
theory RtTable
  imports RtRecalc
begin

text \<open>
  A routing table and the protocols connected to it: in a sorted table the routes of a network stay
  sorted, and a protocol that takes the first accepted route always knows it; in every table a
  protocol that takes the best route knows the first route of the network.
\<close>

section \<open>The hook that an announcement reaches\<close>

definition notify_step ::
  "('i, 'u) rt_env \<Rightarrow> ('i, 'u) route list \<Rightarrow> u8 \<Rightarrow> ('i, 'u) route option \<Rightarrow> ('i, 'u) route option \<Rightarrow>
   ('i, 'u) route option \<Rightarrow> ('i, 'u) route option \<Rightarrow> ('i, 'u) route option \<Rightarrow> ahook \<Rightarrow>
   ('i, 'u) rt_state \<Rightarrow> ('i, 'u) rt_state res"
where
  "notify_step E rs type new old nb ob bo a s =
     (if type = RA_ACCEPTED then rt_notify_accepted E a rs new old bo Feed_none s
      else if type = RA_MERGED then Inr (rt_notify_merged E a rs new old nb ob False s)
      else rt_notify_basic E a new old False s)"

lemma announce_hooks_append:
  "announce_hooks E rs type new old nb ob bo (xs @ ys) s =
     rbind (announce_hooks E rs type new old nb ob bo xs s) (announce_hooks E rs type new old nb ob bo ys)"
proof (induction xs arbitrary: s)
  case (Cons x xs)
  have "announce_hooks E rs type new old nb ob bo (xs @ ys) =
      (\<lambda>s. rbind (announce_hooks E rs type new old nb ob bo xs s) (announce_hooks E rs type new old nb ob bo ys))"
    by (rule ext) (rule Cons.IH)
  then show ?case by (simp only: append_Cons announce_hooks.simps rbind_assoc)
qed simp

lemma announce_hooks_view:
  assumes "a \<in> set hooks" "distinct (map ah_id hooks)" "e_accept_ra E (ah_proto E a) = type"
    and nn: "new \<noteq> None \<or> old \<noteq> None" "bo \<noteq> None \<longrightarrow> old \<noteq> None"
    and step: "\<And>u. view (ah_id a) (s_out u) = view (ah_id a) (s_out s) \<Longrightarrow>
      \<exists>u'. notify_step E rs type new old nb ob bo a u = Inr u' \<and> view (ah_id a) (s_out u') = v"
  shows "\<exists>t. announce_hooks E rs type new old nb ob bo hooks s = Inr t \<and> view (ah_id a) (s_out t) = v"
proof -
  obtain xs ys where hooks: "hooks = xs @ a # ys" using assms(1) by (auto dest: split_list)
  have ids: "ah_id a \<notin> reached E type xs" "ah_id a \<notin> reached E type ys"
    using assms(2) hooks by (force simp: reached_def image_iff)+
  obtain s1 where s1: "announce_hooks E rs type new old nb ob bo xs s = Inr s1" "frame (reached E type xs) s s1"
    using announce_hooks_frame [OF nn] by blast
  obtain s2 where s2: "notify_step E rs type new old nb ob bo a s1 = Inr s2" "view (ah_id a) (s_out s2) = v"
    using step [of s1] frame_view [OF s1(2) ids(1)] by blast
  obtain t where t: "announce_hooks E rs type new old nb ob bo ys s2 = Inr t" "frame (reached E type ys) s2 t"
    using announce_hooks_frame [OF nn] by blast
  have "announce_hooks E rs type new old nb ob bo hooks s = Inr t"
    unfolding hooks announce_hooks_append s1(1) rbind_simps announce_hooks.simps if_P [OF assms(3)]
      s2(1) [unfolded notify_step_def] t(1) ..
  then show ?thesis using frame_view [OF t(2) ids(2)] s2(2) by simp
qed

lemma not_reached:
  assumes "a \<in> set hooks" "distinct (map ah_id hooks)" "e_accept_ra E (ah_proto E a) \<noteq> type"
  shows "ah_id a \<notin> reached E type hooks"
  using assms by (auto simp: reached_def distinct_map inj_on_def)

section \<open>Sorted tables\<close>

text \<open>The comparison of the protocols does not look at the time of the last change.\<close>

definition lastmod_blind :: "('i, 'u) rt_env \<Rightarrow> bool" where
  "lastmod_blind E \<longleftrightarrow> (\<forall>a b t. hook_beats E (a\<lparr>r_lastmod := t\<rparr>) b = hook_beats E a b \<and>
     hook_beats E a (b\<lparr>r_lastmod := t\<rparr>) = hook_beats E a b)"

lemma touch_class [simp]: "route_class E (touch n x r) = route_class E r"
  by (simp add: route_class_def route_proto_def)

lemma touch_beats:
  assumes "lastmod_blind E"
  shows "rte_beats E (touch n x a) (touch n x b) = rte_beats E a b"
proof -
  have "hook_beats E (touch n x a) (touch n x b) = hook_beats E a b"
    using assms by (simp add: lastmod_blind_def touch_def)
  then show ?thesis by (simp add: rte_beats_iff rivals_def rank_less_def)
qed

lemma sorted_touch:
  "lastmod_blind E \<Longrightarrow> sorted_routes E (map (touch n x) rs) = sorted_routes E rs"
  by (simp add: sorted_routes_def sorted_wrt_map touch_beats)

lemma better_ok_invalid: "better_ok E S \<Longrightarrow> \<not> is_valid x \<Longrightarrow> better_ok E (insert x S)"
  unfolding better_ok_def rivals_def by blast

lemma valid_first:
  assumes "sorted_routes E rs"
  shows "takeWhile is_valid rs = filter is_valid rs"
  using assms
proof (induction rs)
  case (Cons r rs)
  then have "sorted_routes E rs" "is_valid r \<or> (\<forall>x \<in> set rs. \<not> is_valid x)"
    by (auto simp: sorted_routes_def rte_beats_iff)
  then show ?case using Cons.IH by auto
qed simp

lemma sorted_remove: "sorted_routes E (xs @ q # ys) \<Longrightarrow> sorted_routes E (xs @ ys)"
  by (simp add: sorted_routes_def sorted_wrt_append)

lemma insert_here_split: "\<exists>us vs. rs = us @ vs \<and> insert_here E n rs = us @ n # vs"
proof (induction rs)
  case (Cons r rs)
  then obtain us vs where uv: "rs = us @ vs" "insert_here E n rs = us @ n # vs" by blast
  show ?case
  proof (cases "rte_better E (Some n) (Some r)")
    case True
    then show ?thesis by (intro exI [of _ "[]"] exI [of _ "r # rs"]) simp
  next
    case False
    then show ?thesis using uv by (intro exI [of _ "r # us"] exI [of _ vs]) simp
  qed
qed simp

lemma touch_other: "r_ref r \<noteq> r_ref n \<Longrightarrow> touch t (Some n) r = r"
  by (simp add: touch_def same_ref_def)

text \<open>The state of a sorted network, and an update that the table can take.\<close>

definition network_ok :: "('i, 'u) rt_env \<Rightarrow> ('i, 'u) route list \<Rightarrow> bool" where
  "network_ok E rs \<longleftrightarrow> sorted_routes E rs \<and> distinct (map r_ref rs) \<and> distinct (map (\<lambda>r. a_src (r_attrs r)) rs)"

definition fresh_update ::
  "('i, 'u) route list \<Rightarrow> ('i, 'u) route option \<Rightarrow> nat \<Rightarrow> bool"
where
  "fresh_update rs new src \<longleftrightarrow>
     (\<forall>n. new = Some n \<longrightarrow> r_ref n \<notin> r_ref ` set rs \<and> a_src (r_attrs n) = src)"

text \<open>The list after the change, without the time stamp.\<close>

definition inserted :: "('i, 'u) rt_env \<Rightarrow> ('i, 'u) route option \<Rightarrow> ('i, 'u) route list \<Rightarrow> ('i, 'u) route list" where
  "inserted E new rs = (case new of None \<Rightarrow> rs | Some n \<Rightarrow> insert_here E n rs)"

lemma sorted_update:
  assumes sorted: "t_sorted T" and ok: "better_ok E S" "set routes \<subseteq> S" "set_option new1 \<subseteq> S"
    and net: "network_ok E routes" "fresh_update routes new1 src"
    and rem: "remove_old E p src new None routes = Removed old bo rs"
  shows "select_routes E T src new1 old bo ob rs = (inserted E new1 rs, new1, ob)"
    and "network_ok E (inserted E new1 rs)"
proof -
  have "sorted_routes E rs"
    using rem
  proof (cases rule: remove_old_cases)
    case (found xs q ys)
    then show ?thesis using net(1) sorted_remove unfolding network_ok_def by metis
  qed (use net(1) in \<open>simp add: network_ok_def\<close>)
  then have sub: "set rs \<subseteq> S" "distinct (map r_ref rs)" "sorted_routes E rs" "\<forall>b. bo = Some b \<longrightarrow> b \<in> set rs"
    "\<forall>r \<in> set rs. a_src (r_attrs r) \<noteq> src" "distinct (map (\<lambda>r. a_src (r_attrs r)) rs)" "set rs \<subseteq> set routes"
    using rem net(1) ok(2)
    by (auto elim!: remove_old_cases simp: network_ok_def split: if_splits)
  show "select_routes E T src new1 old bo ob rs = (inserted E new1 rs, new1, ob)"
    using sorted insert_sorted_here [OF ok(1) _ sub(1,3,2,4)] ok(3)
    by (auto simp: select_routes_def inserted_def split: option.split)
  show "network_ok E (inserted E new1 rs)"
  proof (cases new1)
    case (Some n)
    obtain us vs where uv: "rs = us @ vs" "insert_here E n rs = us @ n # vs" using insert_here_split by blast
    have "r_ref n \<notin> r_ref ` set rs" "a_src (r_attrs n) \<notin> (\<lambda>r. a_src (r_attrs r)) ` set rs"
      using net(2) Some sub(5,7) by (auto simp: fresh_update_def)
    moreover have "sorted_routes E (insert_here E n rs)"
      using sorted_insert_here [OF ok(1) _ sub(1,3)] ok(3) Some by simp
    ultimately show ?thesis
      using sub(2,6) uv Some by (auto simp: network_ok_def inserted_def)
  qed (use sub in \<open>simp add: network_ok_def inserted_def\<close>)
qed

lemma network_ok_touch: "lastmod_blind E \<Longrightarrow> network_ok E (map (touch n x) rs) = network_ok E rs"
  by (simp add: network_ok_def sorted_touch comp_def)

lemma fresh_kept:
  assumes "fresh_update routes new src" "new1 = new \<or> new1 = map_option mark_filtered new \<or> new1 = None"
  shows "fresh_update routes new1 src"
  using assms by (cases new) (auto simp: fresh_update_def)

lemma better_ok_kept:
  assumes "better_ok E (set routes \<union> set_option new)" "new1 = new \<or> new1 = map_option mark_filtered new \<or> new1 = None"
  shows "\<exists>S. better_ok E S \<and> set routes \<subseteq> S \<and> set_option new1 \<subseteq> S"
proof (cases new)
  case (Some n)
  then show ?thesis
    using assms better_ok_invalid [OF assms(1), of "mark_filtered n"]
    by (intro exI [of _ "insert (mark_filtered n) (set routes \<union> set_option new)"]) auto
qed (use assms in auto)

text \<open>C16. In a sorted table the routes of a network stay sorted: if the comparison of the protocols
  orders the routes of the network and the new one, and the new route is a new structure of the
  source, then \<open>rte_recalculate\<close> succeeds, the routes are best first afterwards (no route is beaten by
  a later one, filtered routes last), no route is in the list twice, and no source has two routes.\<close>

theorem rte_recalculate_keeps_sorted:
  assumes "t_sorted T" "lastmod_blind E" "better_ok E (set routes \<union> set_option new)"
    and "network_ok E routes" "fresh_update routes new src"
  shows "\<exists>routes' s'. rte_recalculate E T ah routes new src s = Inr (routes', s') \<and> network_ok E routes'"
proof (cases rule: rte_recalculate_cases [of E T ah routes new src s])
  case (changed old bo rs new1 s0 s1 rs2 new2 ob s2 s')
  obtain S where S: "better_ok E S" "set routes \<subseteq> S" "set_option new1 \<subseteq> S"
    using better_ok_kept [OF assms(3) changed(2)] by blast
  note upd = sorted_update [OF assms(1) S assms(4) fresh_kept [OF assms(5) changed(2)] changed(1)]
  have "network_ok E rs2" using upd(1) [of "head_opt routes"] upd(2) changed(7) by simp
  then show ?thesis using changed(9) network_ok_touch [OF assms(2)] by blast
qed (use assms in blast)

definition demo_from :: "nat \<Rightarrow> nat \<Rightarrow> u16 \<Rightarrow> u32 \<Rightarrow> (u32, u32) route" where
  "demo_from src i pref u =
     (demo_route i pref u)\<lparr>r_attrs := (r_attrs (demo_route i pref u))\<lparr>a_src := src\<rparr>\<rparr>"

lemma demo_env_blind: "lastmod_blind demo_env" "better_ok demo_env S"
  by (simp_all add: lastmod_blind_def better_ok_def hook_beats_def demo_env_def)

lemmas demo_simps = demo_table_def demo_defs network_ok_def sorted_routes_def rte_beats_iff rank_less_def
  rivals_def route_class_def route_proto_def hook_beats_def fresh_update_def

theorem rte_recalculate_keeps_sorted_witness:
  "\<exists>routes' s'. rte_recalculate demo_env (demo_table True) demo_hook [demo_route 1 100 7] (Some (demo_from 5 2 110 7)) 5
       demo_state = Inr (routes', s') \<and> network_ok demo_env routes'"
  by (rule rte_recalculate_keeps_sorted; (rule demo_env_blind | simp add: demo_simps demo_from_def))

section \<open>The first accepted route\<close>

text \<open>The old list, from what the announcement says.\<close>

lemma filter_inserted:
  assumes "fresh_update routes new1 src" "set rs \<subseteq> set routes"
  shows "without (only_valid (map_option (touch t new1) new1)) (filter is_valid (map (touch t new1) (inserted E new1 rs)))
    = filter is_valid rs"
proof (cases new1)
  case (Some n)
  obtain us vs where uv: "rs = us @ vs" "insert_here E n rs = us @ n # vs" using insert_here_split by blast
  have other: "r_ref r \<noteq> r_ref n" if "r \<in> set rs" for r
    using assms Some that by (force simp: fresh_update_def image_iff)
  then have us: "map (touch t (Some n)) us = us" "map (touch t (Some n)) vs = vs"
    using uv(1) touch_other by (auto intro!: map_idI)
  have "without (Some (touch t (Some n) n)) (filter is_valid rs) = filter is_valid rs"
    using other by (intro without_absent) (auto simp: same_ref_def)
  then have w: "without (Some (touch t (Some n) n)) (filter is_valid us) = filter is_valid us"
    "without (Some (touch t (Some n) n)) (filter is_valid vs) = filter is_valid vs"
    using other uv(1) by (auto intro!: without_absent simp: same_ref_def)
  then show ?thesis
    using uv us Some
    by (cases "is_valid n") (auto simp: inserted_def only_valid_def rte_is_valid_def without_def same_ref_def)
next
  case None
  then have "map (touch t None) rs = rs" by (intro map_idI) (simp add: touch_def same_ref_def)
  then show ?thesis using None by (simp add: inserted_def only_valid_def rte_is_valid_def)
qed

lemma put_after_last:
  assumes "xs \<noteq> []" "distinct (map r_ref (xs @ ys))"
  shows "put_after (last xs) q (xs @ ys) = xs @ q # ys"
proof -
  obtain zs z where xs: "xs = zs @ [z]" using assms(1) by (metis rev_exhaust)
  have "r_ref z \<notin> r_ref ` set zs" using assms(2) xs by simp
  then have "\<forall>r \<in> set zs. r_ref r \<noteq> r_ref z" by (metis imageI)
  then show ?thesis unfolding xs append_assoc by (simp add: put_after_append)
qed

lemma filter_with_old:
  assumes "network_ok E routes" "remove_old E p src new None routes = Removed old bo rs"
  shows "with_old (if rte_is_valid old then bo else None) (only_valid old) (filter is_valid rs) = filter is_valid routes"
  using assms(2)
proof (cases rule: remove_old_cases)
  case (found xs q ys)
  show ?thesis
  proof (cases "is_valid q")
    case True
    have "\<forall>x \<in> set xs. \<not> rte_beats E q x"
      using assms(1) unfolding found(2) network_ok_def sorted_routes_def sorted_wrt_append by simp
    then have "\<forall>x \<in> set xs. is_valid x" using True by (auto simp: rte_beats_iff)
    then have xs: "filter is_valid xs = xs" by simp
    have "distinct (map r_ref (xs @ ys))" using assms(1) by (simp add: found(2) network_ok_def)
    then have d: "distinct (map r_ref (xs @ filter is_valid ys))" by (auto simp: distinct_map_filter)
    show ?thesis
    proof (cases "xs = []")
      case True
      then show ?thesis using \<open>is_valid q\<close> found by (simp add: with_old_def only_valid_def rte_is_valid_def)
    next
      case False
      then show ?thesis
        using \<open>is_valid q\<close> found xs put_after_last [OF False d]
        by (simp add: with_old_def only_valid_def rte_is_valid_def)
    qed
  qed (use found in \<open>simp add: with_old_def only_valid_def rte_is_valid_def\<close>)
qed (simp add: with_old_def only_valid_def rte_is_valid_def)

lemma only_valid_None [simp]: "only_valid None = None"
  by (simp add: only_valid_def rte_is_valid_def)

lemma only_valid_eq_None [simp]: "only_valid r = None \<longleftrightarrow> \<not> rte_is_valid r"
  by (cases r) (simp_all add: only_valid_def rte_is_valid_def)

lemma only_valid_Some: "only_valid r = Some x \<longleftrightarrow> r = Some x \<and> is_valid x"
  by (cases r) (auto simp: only_valid_def rte_is_valid_def)

lemma before_old_valid:
  assumes "network_ok E routes" "remove_old E p src new None routes = Removed old bo rs"
    and "rte_is_valid old" "bo = Some b"
  shows "b \<in> set (filter is_valid rs)"
  using assms(2)
proof (cases rule: remove_old_cases)
  case (found xs q ys)
  have "b \<in> set xs" using found(4) assms(4) by (auto split: if_splits)
  moreover have "\<forall>x \<in> set xs. \<not> rte_beats E q x"
    using assms(1) unfolding found(2) network_ok_def sorted_routes_def sorted_wrt_append by simp
  moreover have "is_valid q" using assms(3) found(1) by (simp add: rte_is_valid_def)
  ultimately show ?thesis using found(3) by (auto simp: rte_beats_iff)
qed (use assms(4) in simp)

lemma update_change_ok:
  fixes new1 :: "('i, 'u) route option"
  assumes "network_ok E routes" "remove_old E p src new None routes = Removed old bo rs"
    and "fresh_update routes new1 src" "network_ok E routes'"
    and r': "routes' = map (touch t new1) (inserted E new1 rs)"
  shows "change_ok (filter is_valid routes') (only_valid (map_option (touch t new1) new1)) (only_valid old)
    (if rte_is_valid old then bo else None)"
proof -
  have sub: "set rs \<subseteq> set routes" using assms(2) by (auto elim: remove_old_cases)
  have "distinct (map r_ref routes')" using assms(4) by (simp add: network_ok_def)
  then have "distinct (map r_ref (filter is_valid routes'))" by (rule distinct_map_filter)
  moreover have "n \<in> set (filter is_valid routes')" if n: "only_valid (map_option (touch t new1) new1) = Some n" for n
  proof -
    obtain m where "new1 = Some m" "n = touch t new1 m" "is_valid n"
      using n by (cases new1) (auto simp: only_valid_Some)
    moreover have "m \<in> set (inserted E (Some m) rs)"
      by (simp add: inserted_def insert_here_place sel.set_place)
    ultimately show ?thesis unfolding r' by auto
  qed
  moreover have "b \<in> set (without (only_valid (map_option (touch t new1) new1)) (filter is_valid routes'))"
    if "rte_is_valid old" "bo = Some b" for b
    using before_old_valid [OF assms(1,2) that] filter_inserted [OF assms(3) sub] unfolding r' by simp
  moreover have "rte_is_valid old \<Longrightarrow> only_valid old \<noteq> None" by simp
  ultimately show ?thesis unfolding change_ok_def by (auto split: if_splits)
qed

lemma announce_accepted_view:
  assumes a: "a \<in> set (t_hooks T)" "distinct (map ah_id (t_hooks T))" "e_accept_ra E (ah_proto E a) = RA_ACCEPTED"
      "ah_out_limit a = None"
    and ok: "change_ok (filter is_valid rs) (only_valid new) (only_valid old) (if rte_is_valid old then bo else None)"
    and sorted: "sorted_routes E rs"
    and v: "view (ah_id a) (s_out s) = map_option fst (exported_opt E a (first_accepted E a
      (with_old (if rte_is_valid old then bo else None) (only_valid old)
        (without (only_valid new) (filter is_valid rs)))))"
  shows "\<exists>t. rte_announce E pst (t_hooks T) rs RA_ACCEPTED new old None None bo s = Inr t \<and>
    view (ah_id a) (s_out t) = map_option fst (exported_opt E a (first_accepted E a (filter is_valid rs)))"
proof (cases "only_valid new = None \<and> only_valid old = None")
  case True
  then show ?thesis using v by (simp add: rte_announce_def Let_def with_old_def del: only_valid_eq_None)
next
  case False
  let ?bo = "if rte_is_valid old then bo else None"
  have ra: "RA_ACCEPTED \<noteq> RA_OPTIMAL" by (simp add: RA_ACCEPTED_def RA_OPTIMAL_def)
  have tw: "takeWhile is_valid rs = filter is_valid rs" by (rule valid_first [OF sorted])
  have bo: "?bo \<noteq> None \<longrightarrow> only_valid old \<noteq> None" by simp
  have step: "\<exists>u'. notify_step E rs RA_ACCEPTED (only_valid new) (only_valid old) None None ?bo a u = Inr u' \<and>
      view (ah_id a) (s_out u') = map_option fst (exported_opt E a (first_accepted E a (filter is_valid rs)))"
    if "view (ah_id a) (s_out u) = view (ah_id a) (s_out s)" for u
    using rt_notify_accepted_out [OF a(4) ok [folded tw], of E u] that v unfolding tw notify_step_def
    by auto
  from announce_hooks_view [OF a(1,2,3) _ bo step] False obtain t where
    "announce_hooks E rs RA_ACCEPTED (only_valid new) (only_valid old) None None ?bo (t_hooks T) s = Inr t"
    "view (ah_id a) (s_out t) = map_option fst (exported_opt E a (first_accepted E a (filter is_valid rs)))"
    by blast
  then show ?thesis
    using False ra unfolding rte_announce_def Let_def by (auto split: option.split)
qed

lemmas ra_distinct = RA_ACCEPTED_def RA_OPTIMAL_def RA_ANY_def RA_MERGED_def

text \<open>C7. A protocol that takes the first accepted route of a sorted table knows it after every update:
  take a hook with announcements of the first accepted route and no export limit, a network whose
  routes are sorted, an update with any outcome, and suppose that what the protocol was told last is the
  exported form of the first valid route that its export filter accepts, or a withdrawal if there is
  none. Then this is so after \<open>rte_recalculate\<close>, for the new list of routes.\<close>

theorem sorted_table_accepted_view:
  assumes "t_sorted T" "lastmod_blind E" "better_ok E (set routes \<union> set_option new)"
    and "network_ok E routes" "fresh_update routes new src"
    and a: "a \<in> set (t_hooks T)" "distinct (map ah_id (t_hooks T))" "e_accept_ra E (ah_proto E a) = RA_ACCEPTED"
      "ah_out_limit a = None"
    and v: "view (ah_id a) (s_out s) =
      map_option fst (exported_opt E a (first_accepted E a (filter is_valid routes)))"
  shows "\<exists>routes' s'. rte_recalculate E T ah routes new src s = Inr (routes', s') \<and>
    view (ah_id a) (s_out s') = map_option fst (exported_opt E a (first_accepted E a (filter is_valid routes')))"
proof (cases rule: rte_recalculate_cases [of E T ah routes new src s])
  case (same s')
  then show ?thesis using v by (auto simp: quiet_def)
next
  case (changed old bo rs new1 s0 s1 rs2 new2 ob s2 s')
  obtain S where S: "better_ok E S" "set routes \<subseteq> S" "set_option new1 \<subseteq> S"
    using better_ok_kept [OF assms(3) changed(2)] by blast
  have fresh: "fresh_update routes new1 src" by (rule fresh_kept [OF assms(5) changed(2)])
  note upd = sorted_update [OF assms(1) S assms(4) fresh changed(1)]
  have rs2: "rs2 = inserted E new1 rs" "new2 = new1" using upd(1) [of "head_opt routes"] changed(7) by simp_all
  let ?rs' = "map (touch (t_now T) new1) rs2" and ?new = "map_option (touch (t_now T) new1) new1"
  let ?v = "\<lambda>xs. map_option fst (exported_opt E a (first_accepted E a xs))"
  have net': "network_ok E ?rs'" using upd(2) network_ok_touch [OF assms(2)] by (simp add: rs2)
  have sub: "set rs \<subseteq> set routes" using changed(1) by (auto elim: remove_old_cases)
  have bo: "bo \<noteq> None \<longrightarrow> old \<noteq> None" using changed(1) by (auto elim: remove_old_cases)
  have old_list: "with_old (if rte_is_valid old then bo else None) (only_valid old)
      (without (only_valid ?new) (filter is_valid ?rs')) = filter is_valid routes"
    unfolding rs2 filter_inserted [OF fresh sub] by (rule filter_with_old [OF assms(4) changed(1)])
  have ok: "change_ok (filter is_valid ?rs') (only_valid ?new) (only_valid old) (if rte_is_valid old then bo else None)"
    by (rule update_change_ok [OF assms(4) changed(1) fresh net']) (simp add: rs2)
  have sorted': "sorted_routes E ?rs'" using net' by (simp add: network_ok_def)
  note away = not_reached [OF a(1,2), of E, unfolded a(3)]
  obtain t1 t2 t3 where
      t: "frame (reached E RA_ANY (t_hooks T)) s1 t1" "frame (reached E RA_OPTIMAL (t_hooks T)) t1 t2"
        "rte_announce E (t_stats T) (t_hooks T) ?rs' RA_ACCEPTED ?new old None None bo t2 = Inr t3"
        "frame (reached E RA_MERGED (t_hooks T)) t3 s2"
  proof (rule announce_change_steps [OF bo, of E T ?rs' ?new s1 ob])
    fix u1 u2 u3 u
    assume u: "frame (reached E RA_ANY (t_hooks T)) s1 u1" "frame (reached E RA_OPTIMAL (t_hooks T)) u1 u2"
      "(if t_sorted T then rte_announce E (t_stats T) (t_hooks T) ?rs' RA_ACCEPTED ?new old None None bo u2
        else Inr u2) = Inr u3"
      "frame (reached E RA_MERGED (t_hooks T)) u3 u" "announce_change E T ?rs' ?new old ob bo s1 = Inr u"
    then have "u = s2" using changed(8) rs2(2) by simp
    then show thesis using that [of u1 u2 u3] u assms(1) by simp
  qed
  have "view (ah_id a) (s_out t2) = view (ah_id a) (s_out s)"
    using frame_view [OF t(1) away] frame_view [OF t(2) away] changed(5) by (simp add: ra_distinct)
  then have "view (ah_id a) (s_out t3) = ?v (filter is_valid ?rs')"
    using announce_accepted_view [OF a ok sorted', of t2 "t_stats T"] t(3) v old_list by auto
  then have "view (ah_id a) (s_out s') = ?v (filter is_valid ?rs')"
    using frame_view [OF t(4) away] changed(10) by (simp add: ra_distinct)
  then show ?thesis using changed(9) rs2(2) by blast
qed

theorem sorted_table_accepted_view_witness:
  "\<exists>routes' s'. rte_recalculate demo_env (demo_table True) demo_hook [demo_route 1 100 7] (Some (demo_from 5 2 110 7)) 5
       (notify \<lparr>n_hook = 0, n_new = Some (demo_route 1 100 7), n_old = None, n_attrs = []\<rparr> demo_state) = Inr (routes', s') \<and>
     view (ah_id demo_hook) (s_out s') = map_option fst (exported_opt demo_env demo_hook
       (first_accepted demo_env demo_hook (filter is_valid routes')))"
  by (rule sorted_table_accepted_view; (rule demo_env_blind | simp add: demo_simps demo_from_def view_def
      exported_opt_def exported_def export_filter_def Let_def notify_def rte_make_tmp_attrs_def
      first_accepted_def accepted_def ah_proto_def))

end
