(* ===== verification/RtBest.thy ===== *)
theory RtBest
  imports RtTable
begin

text \<open>
  The best route of a network: the first one, which no other route beats, and which the protocols
  that take the best route know; the import limit; and the refresh of the routes of a protocol.
\<close>

section \<open>The first route\<close>

lemma head_opt_simps [simp]: "head_opt [] = None" "head_opt (x # xs) = Some x" "head_opt xs = None \<longleftrightarrow> xs = []"
  by (simp_all add: head_opt_def split: list.split)

lemma head_opt_map: "head_opt (map f xs) = map_option f (head_opt xs)"
  by (cases xs) simp_all

lemma old_best_kept:
  assumes "remove_old E p src new0 None routes = Removed old bo rs"
  shows "old \<noteq> None \<and> same_ref old (head_opt routes) \<or> head_opt rs = head_opt routes"
  using assms
proof (cases rule: remove_old_cases)
  case (found xs q ys)
  then show ?thesis by (cases xs) (auto simp: same_ref_def)
qed simp

text \<open>Without a hook.\<close>

lemma unsorted_plain:
  assumes "t_recalculate T (e_src_proto E src) = None"
    and "remove_old E p src new0 None routes = Removed old bo rs"
  shows "select_unsorted E T src new old (head_opt routes) rs =
      (if new \<noteq> None \<and> rte_better E new (head_opt routes) then (opt_list new @ rs, new, head_opt routes)
       else if same_ref old (head_opt routes) then (elect E (opt_list new @ rs), new, head_opt routes)
       else (case new of Some n \<Rightarrow> (case rs of [] \<Rightarrow> [] | r # rs' \<Rightarrow> r # n # rs') | None \<Rightarrow> rs, new, head_opt routes))"
proof -
  have ob: "(if old \<noteq> None \<and> same_ref old (head_opt routes) then head_opt routes else head_opt rs) = head_opt routes"
    using old_best_kept [OF assms(2)] by auto
  show ?thesis
    unfolding select_unsorted_def Let_def assms(1) by (simp only: option.case prod.case ob if_False)
qed

lemma select_plain:
  assumes hook: "t_sorted T \<or> t_recalculate T (e_src_proto E src) = None"
    and rem: "remove_old E p src new0 None routes = Removed old bo rs"
    and sel: "select_routes E T src new old bo (head_opt routes) rs = (rs2, new2, ob)"
  shows "mset rs2 = mset (opt_list new @ rs)" "new2 = new" "ob = head_opt routes"
proof -
  have bo: "\<forall>b. bo = Some b \<longrightarrow> b \<in> set rs" using rem by (auto elim!: remove_old_cases split: if_splits)
  have "mset rs2 = mset (opt_list new @ rs) \<and> new2 = new \<and> ob = head_opt routes"
  proof (cases "t_sorted T")
    case True
    then show ?thesis
      using sel insert_sorted_mset [OF bo] by (auto simp: select_routes_def opt_list_def split: option.splits)
  next
    case False
    let ?ob = "head_opt routes"
    have third: "rs \<noteq> []" if "\<not> (new \<noteq> None \<and> rte_better E new ?ob)" "\<not> same_ref old ?ob" "new \<noteq> None"
      using that old_best_kept [OF rem] by (cases rs) (auto simp: rte_better_def same_ref_def)
    have run: "(rs2, new2, ob) = select_unsorted E T src new old ?ob rs"
      using sel False by (simp add: select_routes_def)
    also have "\<dots> = (if new \<noteq> None \<and> rte_better E new ?ob then (opt_list new @ rs, new, ?ob)
       else if same_ref old ?ob then (elect E (opt_list new @ rs), new, ?ob)
       else (case new of Some n \<Rightarrow> (case rs of [] \<Rightarrow> [] | r # rs' \<Rightarrow> r # n # rs') | None \<Rightarrow> rs, new, ?ob))"
      using False hook unsorted_plain [OF _ rem] by blast
    finally have run: "(rs2, new2, ob) = \<dots>" .
    show ?thesis
    proof (cases "new \<noteq> None \<and> rte_better E new ?ob")
      case False
      note first = this
      show ?thesis
      proof (cases "same_ref old ?ob")
        case False
        show ?thesis
          using run third [OF first False] unfolding if_not_P [OF first] if_not_P [OF False]
          by (cases rs; cases new) (auto simp: opt_list_def)
      qed (use run first in \<open>auto simp: elect_mset\<close>)
    qed (use run in auto)
  qed
  then show "mset rs2 = mset (opt_list new @ rs)" "new2 = new" "ob = head_opt routes" by blast+
qed

lemma same_ref_eq:
  assumes "distinct (map r_ref rs)" "x \<in> set rs" "y \<in> set rs" "r_ref x = r_ref y"
  shows "x = y"
  using assms by (auto simp: distinct_map inj_on_def)

text \<open>If the first route is at the same place after an update, then it is the same route.\<close>

lemma head_unchanged:
  assumes "distinct (map r_ref routes)" "fresh_update routes new1 src" "set rs \<subseteq> set routes"
    and "set rs2 = set (opt_list new1) \<union> set rs"
    and same: "same_ref (head_opt (map (touch t new1) rs2)) (head_opt routes)"
  shows "head_opt (map (touch t new1) rs2) = head_opt routes"
proof (cases rs2)
  case (Cons h hs)
  then obtain q where q: "head_opt routes = Some q" "r_ref q = r_ref h" "q \<in> set routes"
    using same by (cases routes) (auto simp: same_ref_def)
  have n: "r_ref n \<noteq> r_ref h" if "new1 = Some n" for n
    using that assms(2) q(2,3) by (force simp: fresh_update_def image_iff)
  moreover have "h \<in> set (opt_list new1) \<union> set rs" using assms(4) Cons by (metis list.set_intros(1))
  ultimately have "h \<in> set rs" by (cases new1) (auto simp: opt_list_def)
  then have "h = q" using same_ref_eq [OF assms(1) _ q(3)] q(2) assms(3) by auto
  moreover have "touch t new1 h = h" using n by (cases new1) (auto simp: touch_def same_ref_def)
  ultimately show ?thesis using q(1) Cons by simp
qed (use same in \<open>cases routes; simp add: same_ref_def\<close>)

lemma announce_best_view:
  assumes a: "a \<in> set hooks" "distinct (map ah_id hooks)" "e_accept_ra E (ah_proto E a) = RA_OPTIMAL"
      "ah_out_limit a = None" "e_pipe_class E \<noteq> Some (e_proto_class E (ah_proto E a))"
    and v: "view (ah_id a) (s_out s) = map_option fst (exported_opt E a (only_valid old))"
  shows "\<exists>t. rte_announce E pst hooks rs RA_OPTIMAL new old None None None s = Inr t \<and>
    view (ah_id a) (s_out t) = map_option fst (exported_opt E a (only_valid new))"
proof (cases "rte_is_valid new \<or> rte_is_valid old")
  case False
  then have n: "only_valid new = None" "only_valid old = None" by (simp_all add: only_valid_def)
  show ?thesis using v unfolding rte_announce_def Let_def n by simp
next
  case True
  let ?s1 = "case only_valid new of
      Some n \<Rightarrow> upd_stats (pst (route_proto E n)) (pref_routes_update (\<lambda>k. k + 1)) s | None \<Rightarrow> s"
  let ?s2 = "case only_valid old of
      Some q \<Rightarrow> upd_stats (pst (route_proto E q)) (pref_routes_update (\<lambda>k. k - 1)) ?s1 | None \<Rightarrow> ?s1"
  have s2: "s_out ?s2 = s_out s" by (auto split: option.split)
  have nn: "only_valid new \<noteq> None \<or> only_valid old \<noteq> None" using True by simp
  have step: "\<exists>u'. notify_step E rs RA_OPTIMAL (only_valid new) (only_valid old) None None None a u = Inr u' \<and>
      view (ah_id a) (s_out u') = map_option fst (exported_opt E a (only_valid new))"
    if "view (ah_id a) (s_out u) = view (ah_id a) (s_out ?s2)" for u
    using rt_notify_basic_out [OF a(4) nn a(5), of u] that v s2
    by (auto simp: notify_step_def ra_distinct)
  obtain t where t: "announce_hooks E rs RA_OPTIMAL (only_valid new) (only_valid old) None None None hooks ?s2 = Inr t"
      "view (ah_id a) (s_out t) = map_option fst (exported_opt E a (only_valid new))"
    using announce_hooks_view [OF a(1,2,3) nn _ step] by auto
  have "rte_announce E pst hooks rs RA_OPTIMAL new old None None None s = Inr t"
    using True unfolding rte_announce_def Let_def by (auto simp: t(1) cong: option.case_cong)
  with t(2) show ?thesis by blast
qed

text \<open>C8. A protocol that takes the best route knows the first route of a network after every update
  of it, in a sorted table and in a table without pre-comparison hook for the source: take a hook of
  that kind, not a pipe and without export limit, and suppose that what the protocol was told last is
  the exported form of the first route of the network (a withdrawal if there is none, if it is filtered, or if the
  export filter rejects it). Then this is so after \<open>rte_recalculate\<close>.\<close>

theorem table_best_view:
  assumes hook: "t_sorted T \<or> t_recalculate T (e_src_proto E src) = None"
    and net: "distinct (map r_ref routes)" "fresh_update routes new src"
    and a: "a \<in> set (t_hooks T)" "distinct (map ah_id (t_hooks T))" "e_accept_ra E (ah_proto E a) = RA_OPTIMAL"
      "ah_out_limit a = None" "e_pipe_class E \<noteq> Some (e_proto_class E (ah_proto E a))"
    and v: "view (ah_id a) (s_out s) = map_option fst (exported_opt E a (only_valid (head_opt routes)))"
  shows "\<exists>routes' s'. rte_recalculate E T ah routes new src s = Inr (routes', s') \<and>
    view (ah_id a) (s_out s') = map_option fst (exported_opt E a (only_valid (head_opt routes')))"
proof (cases rule: rte_recalculate_cases [of E T ah routes new src s])
  case (same s')
  then show ?thesis using v by (auto simp: quiet_def)
next
  case (changed old bo rs new1 s0 s1 rs2 new2 ob s2 s')
  have fresh: "fresh_update routes new1 src" by (rule fresh_kept [OF net(2) changed(2)])
  note sel = select_plain [OF hook changed(1,7)]
  let ?rs' = "map (touch (t_now T) new1) rs2" and ?new = "map_option (touch (t_now T) new1) new1"
  let ?v = "\<lambda>r. map_option fst (exported_opt E a (only_valid r))"
  have sub: "set rs \<subseteq> set routes" using changed(1) by (auto elim: remove_old_cases)
  have bo: "bo \<noteq> None \<longrightarrow> old \<noteq> None" using changed(1) by (auto elim: remove_old_cases)
  have elems: "set rs2 = set (opt_list new1) \<union> set rs" using mset_eq_setD [OF sel(1)] by simp
  note away = not_reached [OF a(1,2), of E, unfolded a(3)]
  have "view (ah_id a) (s_out s2) = ?v (head_opt ?rs')"
  proof (rule announce_change_steps [OF bo, of E T ?rs' ?new s1 ob])
    fix t1 t2 t3 t
    assume t: "frame (reached E RA_ANY (t_hooks T)) s1 t1"
      "(if \<not> same_ref (head_opt ?rs') ob
        then rte_announce E (t_stats T) (t_hooks T) ?rs' RA_OPTIMAL (head_opt ?rs') ob None None None t1
        else Inr t1) = Inr t2"
      "frame (reached E RA_ACCEPTED (t_hooks T)) t2 t3" "frame (reached E RA_MERGED (t_hooks T)) t3 t"
      "announce_change E T ?rs' ?new old ob bo s1 = Inr t"
    have "view (ah_id a) (s_out t1) = ?v ob"
      using frame_view [OF t(1) away] changed(5) v sel(3) by (simp add: ra_distinct)
    then have "view (ah_id a) (s_out t2) = ?v (head_opt ?rs')"
      using announce_best_view [OF a, of t1 ob "t_stats T" ?rs' "head_opt ?rs'"] t(2) sel(3)
        head_unchanged [OF net(1) fresh sub elems, of "t_now T"]
      by (cases "same_ref (head_opt ?rs') ob") auto
    moreover have "t = s2" using t(5) changed(8) sel(2) by simp
    ultimately show ?thesis using frame_view [OF t(3) away] frame_view [OF t(4) away] by (simp add: ra_distinct)
  qed
  then show ?thesis using changed(9,10) sel(2) by auto
qed

definition demo_env_best :: "(u32, u32) rt_env" where
  "demo_env_best = demo_env\<lparr>e_accept_ra := (\<lambda>_. RA_OPTIMAL)\<rparr>"

lemma demo_best_blind: "lastmod_blind demo_env_best" "better_ok demo_env_best S"
  by (simp_all add: lastmod_blind_def better_ok_def hook_beats_def demo_env_best_def demo_env_def)

theorem table_best_view_witness:
  "\<exists>routes' s'. rte_recalculate demo_env_best (demo_table False) demo_hook [demo_route 1 100 7]
       (Some (demo_from 5 2 110 7)) 5
       (notify \<lparr>n_hook = 0, n_new = Some (demo_route 1 100 7), n_old = None, n_attrs = []\<rparr> demo_state) = Inr (routes', s') \<and>
     view (ah_id demo_hook) (s_out s') =
       map_option fst (exported_opt demo_env_best demo_hook (only_valid (head_opt routes')))"
  by (rule table_best_view; simp add: demo_env_best_def demo_simps demo_from_def view_def exported_opt_def exported_def
      export_filter_def Let_def notify_def rte_make_tmp_attrs_def only_valid_def rte_is_valid_def ah_proto_def)

section \<open>The best route of a table that is not sorted\<close>

definition best_at_front :: "('i, 'u) rt_env \<Rightarrow> ('i, 'u) route list \<Rightarrow> bool" where
  "best_at_front E rs \<longleftrightarrow> (\<forall>h. head_opt rs = Some h \<longrightarrow> (\<forall>r \<in> set rs. \<not> rte_beats E r h))"

lemma best_at_front_undefeated:
  "best_at_front E (h # rs) \<longleftrightarrow> sel.undefeated E h (h # rs)"
  by (simp add: best_at_front_def sel.undefeated_def)

lemma best_at_front_touch:
  "lastmod_blind E \<Longrightarrow> best_at_front E (map (touch n x) rs) = best_at_front E rs"
  by (cases rs) (auto simp: best_at_front_def touch_beats)

lemma elect_best_at_front:
  assumes "better_ok E S" "set rs \<subseteq> S"
  shows "best_at_front E (elect E rs)"
proof (cases "elect E rs")
  case (Cons h hs)
  have m: "set (elect E rs) = set rs" "rs \<noteq> []" using mset_eq_setD [OF elect_mset [of E rs]] Cons by auto
  then have "sel.undefeated E h rs" using elect_spec(2) [OF assms] Cons by simp
  then have "\<forall>r \<in> set (elect E rs). \<not> rte_beats E r h" using m(1) by (simp add: sel.undefeated_def)
  then show ?thesis using Cons by (simp add: best_at_front_def)
qed (simp add: best_at_front_def)

lemma unsorted_best_at_front:
  assumes ok: "better_ok E S" "set routes \<subseteq> S" "set_option new \<subseteq> S" and best: "best_at_front E routes"
    and hook: "t_recalculate T (e_src_proto E src) = None"
    and rem: "remove_old E p src new0 None routes = Removed old bo rs"
  shows "best_at_front E (fst (select_unsorted E T src new old (head_opt routes) rs))"
proof -
  have sub: "set rs \<subseteq> set routes" using rem by (auto elim: remove_old_cases)
  have in_S: "x \<in> ordered_routes E S" if "x \<in> set routes \<union> set_option new" for x
    using that ok by (auto simp: ordered_routes_def)
  have el: "set (opt_list new @ rs) \<subseteq> S" using ok sub by (auto simp: opt_list_def split: option.splits)
  have kept: "head_opt rs = head_opt routes" if "\<not> same_ref old (head_opt routes)"
    using old_best_kept [OF rem] that by blast
  show ?thesis
  proof (cases "new \<noteq> None \<and> rte_better E new (head_opt routes)")
    case True
    then obtain n where n: "new = Some n" by blast
    have nS: "n \<in> ordered_routes E S" using in_S n by simp
    have "\<not> rte_beats E r n" if r: "r \<in> set rs" for r
    proof -
      have "r \<in> set routes" using r sub by blast
      then obtain h where h: "head_opt routes = Some h" "h \<in> set routes" "\<not> rte_beats E r h"
        using best by (cases routes) (auto simp: best_at_front_def)
      have "\<not> rte_beats E h n" using sel.better_asym [OF nS in_S] h(1,2) True n by auto
      then show ?thesis using sel.not_beats_trans [OF in_S in_S nS h(3)] h(2) \<open>r \<in> set routes\<close> by auto
    qed
    then show ?thesis
      using True n sel.not_beats_self [OF nS] unfolding unsorted_plain [OF hook rem]
      by (simp add: best_at_front_def opt_list_def)
  next
    case first: False
    show ?thesis
    proof (cases "same_ref old (head_opt routes)")
      case True
      then show ?thesis
        using elect_best_at_front [OF ok(1) el] first unfolding unsorted_plain [OF hook rem] by auto
    next
      case False
      have "best_at_front E (case new of Some n \<Rightarrow> (case rs of [] \<Rightarrow> [] | r # rs' \<Rightarrow> r # n # rs') | None \<Rightarrow> rs)"
      proof (cases rs)
        case (Cons h hs)
        then have h: "head_opt routes = Some h" using kept [OF False] by simp
        then have "\<forall>r \<in> set rs. \<not> rte_beats E r h" using best sub unfolding best_at_front_def by blast
        moreover have "\<not> rte_beats E n h" if "new = Some n" for n
          using that first h by (simp add: rte_beats_def)
        ultimately show ?thesis using Cons by (cases new) (auto simp: best_at_front_def)
      qed (cases new; simp add: best_at_front_def)
      then show ?thesis using first False unfolding unsorted_plain [OF hook rem] by auto
    qed
  qed
qed

text \<open>C17. In a table that is not sorted the best route is the first one: without a pre-comparison hook
  for the source, and if the comparison of the protocols orders the routes of the network and the new
  one, then \<open>rte_recalculate\<close> succeeds and, if no route beat the first one before, no route beats the
  first one afterwards.\<close>

theorem rte_recalculate_keeps_best:
  assumes "\<not> t_sorted T" "t_recalculate T (e_src_proto E src) = None" "lastmod_blind E"
    and "better_ok E (set routes \<union> set_option new)" "best_at_front E routes"
  shows "\<exists>routes' s'. rte_recalculate E T ah routes new src s = Inr (routes', s') \<and> best_at_front E routes'"
proof (cases rule: rte_recalculate_cases [of E T ah routes new src s])
  case (changed old bo rs new1 s0 s1 rs2 new2 ob s2 s')
  obtain S where S: "better_ok E S" "set routes \<subseteq> S" "set_option new1 \<subseteq> S"
    using better_ok_kept [OF assms(4) changed(2)] by blast
  have "rs2 = fst (select_unsorted E T src new1 old (head_opt routes) rs)"
    using changed(7) assms(1) by (simp add: select_routes_def)
  then have "best_at_front E rs2" using unsorted_best_at_front [OF S assms(5,2) changed(1)] by simp
  then show ?thesis using changed(9) best_at_front_touch [OF assms(3)] by blast
qed (use assms in blast)

theorem rte_recalculate_keeps_best_witness:
  "\<exists>routes' s'. rte_recalculate demo_env_best (demo_table False) demo_hook [demo_route 1 100 7, demo_from 3 4 100 7]
       (Some (demo_from 5 2 110 7)) 5 demo_state = Inr (routes', s') \<and> best_at_front demo_env_best routes'"
  by (rule rte_recalculate_keeps_best; (rule demo_best_blind | simp add: demo_env_best_def demo_simps demo_from_def
      best_at_front_def))

end
