(* ===== verification/RtRefresh.thy ===== *)
theory RtRefresh
  imports RtBest
begin

text \<open>
  The refresh cycle of a protocol and the pruning of a table, \<open>nest/rt-table.c\<close>: the routes that are
  not sent again between \<open>rt_refresh_begin\<close> and \<open>rt_refresh_end\<close> are marked, and the prune loop removes
  the marked routes, the routes of protocols that are flushed, and the networks without routes.
\<close>

section \<open>A filtered route in a table that is not sorted\<close>

lemma remove_old_absent:
  "\<forall>r \<in> set rs. a_src (r_attrs r) \<noteq> src \<Longrightarrow> remove_old E p src new b0 rs = Removed None None rs"
  by (induction rs arbitrary: b0) auto

text \<open>In a table that is not sorted, a route that the import filter rejected and that is kept
  (\<open>import keep filtered\<close>) becomes the second route of the network, in front of the other valid ones.
  A loop that walks the list while the routes are valid, as the one in \<open>bgp_rte_recalculate\<close>, therefore
  does not see them.\<close>

theorem unsorted_filtered_second:
  assumes "\<not> t_sorted T" "t_recalculate T (e_src_proto E src) = None" "ah_rx_limit ah = None"
    and "is_valid h" "\<not> is_valid n" "\<forall>r \<in> set (h # rs). a_src (r_attrs r) \<noteq> src \<and> r_ref r \<noteq> r_ref n"
  shows "\<exists>s'. rte_recalculate E T ah (h # rs) (Some n) src s = Inr (h # n\<lparr>r_lastmod := t_now T\<rparr> # rs, s')"
proof -
  have rem: "remove_old E (ah_proto E ah) src (Some n) None (h # rs) = Removed None None (h # rs)"
    using assms(6) by (intro remove_old_absent) auto
  obtain s1 where lim: "import_limits E ah (Some n) None s = (Some (Some n, False), s1)"
    using assms(3,5) by (cases "ah_in_limit ah") (auto simp: import_limits_def Let_def)
  have sel: "select_routes E T src (Some n) None None (head_opt (h # rs)) (h # rs) = (h # n # rs, Some n, Some h)"
    using assms(1,4,5) unsorted_plain [OF assms(2) rem, of "Some n"]
    by (simp add: select_routes_def rte_better_iff same_ref_def)
  have "map (touch (t_now T) (Some n)) (h # n # rs) = h # n\<lparr>r_lastmod := t_now T\<rparr> # rs"
    using assms(6) by (auto intro!: map_idI simp: touch_def same_ref_def)
  note list = this
  have "None \<noteq> None \<longrightarrow> None \<noteq> None" by simp
  from announce_change_frame [OF this] obtain t where
    "announce_change E T (h # n\<lparr>r_lastmod := t_now T\<rparr> # rs) (Some (touch (t_now T) (Some n) n)) None (Some h) None s1 = Inr t"
    by blast
  then show ?thesis
    unfolding rte_recalculate_def Let_def rem old_search.case lim prod.case option.case sel list
    by simp
qed

section \<open>Refresh\<close>

definition stale :: "('i, 'u) route \<Rightarrow> bool" where
  "stale r \<longleftrightarrow> r_flags r AND REF_STALE \<noteq> 0"

definition discarded :: "('i, 'u) route \<Rightarrow> bool" where
  "discarded r \<longleftrightarrow> r_flags r AND REF_DISCARD \<noteq> 0"

text \<open>
  The updates of one network by a hook in a cycle: a new route is a new structure of its source,
  and neither stale nor discarded.
\<close>

definition sendable :: "('i, 'u) route list \<Rightarrow> ('i, 'u) route \<Rightarrow> nat \<Rightarrow> bool" where
  "sendable rs n src \<longleftrightarrow> fresh_update rs (Some n) src \<and> \<not> stale n \<and> \<not> discarded n"

inductive refreshed ::
  "('i, 'u) rt_env \<Rightarrow> ('i, 'u) table_env \<Rightarrow> ahook \<Rightarrow> ('i, 'u) route list \<Rightarrow> nat set \<Rightarrow>
   ('i, 'u) route list \<Rightarrow> bool"
  for E :: "('i, 'u) rt_env" and T ah rs0
where
  refreshed_start: "refreshed E T ah rs0 {} rs0"
| refreshed_send: "\<lbrakk>refreshed E T ah rs0 U rs; sendable rs n src;
    rte_recalculate E T ah rs (Some n) src s = Inr (rs', s')\<rbrakk> \<Longrightarrow>
    refreshed E T ah rs0 (insert src U) rs'"

lemma flag_or [simp]:
  "(x OR 4) AND 4 \<noteq> (0 :: u8)" "(x OR 8) AND 8 \<noteq> (0 :: u8)"
  "(x OR 4) AND 8 = x AND (8 :: u8)" "(x OR 8) AND 4 = x AND (4 :: u8)"
proof -
  have "bit ((x OR 4) AND 4) 2" "bit ((x OR 8) AND 8) 3" by (simp_all add: bit_simps)
  then show "(x OR 4) AND 4 \<noteq> 0" "(x OR 8) AND 8 \<noteq> 0" by auto
  show "(x OR 4) AND 8 = x AND (8 :: u8)" "(x OR 8) AND 4 = x AND (4 :: u8)"
    by (simp_all add: bit.conj_disj_distrib2)
qed

lemma stale_simps [simp]:
  "stale (r\<lparr>r_flags := r_flags r OR REF_STALE\<rparr>)" "discarded (r\<lparr>r_flags := r_flags r OR REF_DISCARD\<rparr>)"
  "discarded (r\<lparr>r_flags := r_flags r OR REF_STALE\<rparr>) = discarded r"
  "stale (touch n x r) = stale r" "discarded (touch n x r) = discarded r"
  by (simp_all add: stale_def discarded_def REF_STALE_def REF_DISCARD_def)

lemma touch_sender [simp]: "r_sender (touch n x r) = r_sender r"
  by (simp add: touch_def)

text \<open>The hook has no import limits and the selection no pre-comparison hook.\<close>

definition plain_import :: "('i, 'u) table_env \<Rightarrow> ahook \<Rightarrow> bool" where
  "plain_import T ah \<longleftrightarrow> (t_sorted T \<or> (\<forall>i. t_recalculate T i = None)) \<and> ah_rx_limit ah = None \<and> ah_in_limit ah = None"

text \<open>What such an update does to the list, whatever the order.\<close>

definition srcs :: "('i, 'u) route list \<Rightarrow> nat list" where
  "srcs rs = map (\<lambda>r. a_src (r_attrs r)) rs"

lemma plain_select_set:
  assumes "t_sorted T \<or> (\<forall>i. t_recalculate T i = None)"
    and "remove_old E p src new0 None routes = Removed old bo rs"
    and "select_routes E T src new old bo (head_opt routes) rs = (rs2, new2, ob)"
    and "distinct (srcs routes)"
  shows "mset rs2 = mset (opt_list new @ rs)" "new2 = new"
    "set rs = {r \<in> set routes. a_src (r_attrs r) \<noteq> src}" "distinct (srcs rs)"
proof -
  have hook: "t_sorted T \<or> t_recalculate T (e_src_proto E src) = None" using assms(1) by auto
  show "mset rs2 = mset (opt_list new @ rs)" "new2 = new" using select_plain [OF hook assms(2,3)] by blast+
  have "set rs = {r \<in> set routes. a_src (r_attrs r) \<noteq> src} \<and> distinct (srcs rs)"
    using assms(2)
  proof (cases rule: remove_old_cases)
    case (found xs q ys)
    have d: "distinct (srcs xs @ src # srcs ys)" using assms(4) unfolding found(2) found(5) [symmetric] srcs_def by simp
    then have "\<forall>r \<in> set xs \<union> set ys. a_src (r_attrs r) \<noteq> src" by (auto simp: srcs_def)
    then have "set rs = {r \<in> set routes. a_src (r_attrs r) \<noteq> src}" unfolding found(2,3) using found(5) by auto
    moreover have "distinct (srcs rs)" using d unfolding found(3) srcs_def by simp
    ultimately show ?thesis ..
  qed (use assms(4) in \<open>auto simp: srcs_def\<close>)
  then show "set rs = {r \<in> set routes. a_src (r_attrs r) \<noteq> src}" "distinct (srcs rs)" by blast+
qed

lemma distinct_srcs_mset: "mset xs = mset ys \<Longrightarrow> distinct (srcs xs) = distinct (srcs ys)"
  by (metis mset_map mset_eq_imp_distinct_iff srcs_def)

lemma srcs_simps [simp]: "srcs (map (touch t n) rs) = srcs rs" "srcs [] = []" "srcs (x # xs) = a_src (r_attrs x) # srcs xs"
  by (simp_all add: srcs_def comp_def)

text \<open>The invariant of a cycle: a route of the hook is stale unless it was sent.\<close>

definition cycle_inv :: "ahook \<Rightarrow> nat set \<Rightarrow> ('i, 'u) route list \<Rightarrow> bool" where
  "cycle_inv ah U rs \<longleftrightarrow> distinct (srcs rs) \<and> (\<forall>r \<in> set rs. \<not> discarded r) \<and>
     (\<forall>r \<in> set rs. r_sender r = ah_id ah \<longrightarrow> (stale r \<longleftrightarrow> a_src (r_attrs r) \<notin> U))"

lemma remove_old_hit:
  assumes "remove_old E p src new b0 rs = Collision \<or> remove_old E p src new b0 rs = Unchanged"
  obtains q where "q \<in> set rs" "a_src (r_attrs q) = src"
    "e_hook_proto E (r_sender q) \<noteq> p \<or> (\<exists>n. new = Some n \<and> rte_same E q n)"
  using assms
proof -
  have "\<exists>q \<in> set rs. a_src (r_attrs q) = src \<and> (e_hook_proto E (r_sender q) \<noteq> p \<or> (\<exists>n. new = Some n \<and> rte_same E q n))"
    using assms
  proof (induction rs arbitrary: b0)
    case (Cons r rs)
    show ?case
    proof (cases "a_src (r_attrs r) = src")
      case True
      then show ?thesis using Cons.prems by (auto split: if_splits option.splits)
    next
      case False
      then have "remove_old E p src new (Some r) rs = Collision \<or> remove_old E p src new (Some r) rs = Unchanged"
        using Cons.prems by (auto split: old_search.splits)
      then show ?thesis using Cons.IH by auto
    qed
  qed simp
  then show thesis using that by blast
qed

lemma limits_off:
  assumes "ah_rx_limit ah = None" "ah_in_limit ah = None \<or> \<not> rte_is_ok new" "import_limits E ah new old s = (Some (new1, ok), s1)"
  shows "new1 = new"
  using assms by (cases "ah_in_limit ah") (auto simp: import_limits_def Let_def)

lemma cycle_inv_send:
  assumes plain: "plain_import T ah" and inv: "cycle_inv ah U rs" and n: "sendable rs n src"
    and run: "rte_recalculate E T ah rs (Some n) src s = Inr (rs', s')"
  shows "cycle_inv ah (insert src U) rs'"
proof (cases "\<exists>old bo rs1. remove_old E (ah_proto E ah) src (Some n) None rs = Removed old bo rs1")
  case False
  then obtain q where q: "q \<in> set rs" "a_src (r_attrs q) = src"
      "e_hook_proto E (r_sender q) \<noteq> ah_proto E ah \<or> rte_same E q n"
    using remove_old_hit [of E "ah_proto E ah" src "Some n" None rs] by (cases "remove_old E (ah_proto E ah) src (Some n) None rs") auto
  have "rs' = rs" using run False
    by (cases "remove_old E (ah_proto E ah) src (Some n) None rs") (auto simp: rte_recalculate_def Let_def)
  moreover have "r = q" if "r \<in> set rs" "a_src (r_attrs r) = src" for r
    using inv that q(1,2) by (auto simp: cycle_inv_def srcs_def distinct_map inj_on_def)
  moreover have "\<not> stale q" if "r_sender q = ah_id ah"
    using q(3) that n by (auto simp: ah_proto_def rte_same_def sendable_def stale_def)
  ultimately show ?thesis using inv q(2) by (auto simp: cycle_inv_def)
next
  case True
  show ?thesis
  proof (cases rule: rte_recalculate_cases [of E T ah rs "Some n" src s])
    case (same t)
    have lim: "ah_rx_limit ah = None" "ah_in_limit ah = None" using plain by (simp_all add: plain_import_def)
    have "fst (import_limits E ah (Some n) old s) \<noteq> None" for old
      using lim by (simp add: import_limits_def Let_def)
    then show ?thesis using True same(3) by blast
  next
    case (changed old bo rs1 new1 s0 s1 rs2 new2 ob s2 t ok)
    have new1: "new1 = Some n" using limits_off [OF _ _ changed(12)] plain by (simp add: plain_import_def)
    note sel = plain_select_set [of T E "ah_proto E ah" src "Some n" rs old bo rs1 new1 rs2 new2 ob]
    have sel: "mset rs2 = mset (n # rs1)" "new2 = Some n" "set rs1 = {r \<in> set rs. a_src (r_attrs r) \<noteq> src}" "distinct (srcs rs1)"
      using plain_select_set [OF _ changed(1,7)] plain inv new1
      by (auto simp: plain_import_def cycle_inv_def opt_list_def)
    have rs': "rs' = map (touch (t_now T) (Some n)) rs2" using run changed(9) sel(2) by simp
    have src: "a_src (r_attrs n) = src" "\<not> stale n" "\<not> discarded n" using n by (auto simp: sendable_def fresh_update_def)
    have "set rs2 = insert n (set rs1)" using mset_eq_setD [OF sel(1)] by simp
    then have "\<forall>r \<in> set rs2. \<not> discarded r \<and> (r_sender r = ah_id ah \<longrightarrow> (stale r \<longleftrightarrow> a_src (r_attrs r) \<notin> insert src U))"
      using inv sel(3) src by (auto simp: cycle_inv_def)
    moreover have "src \<notin> set (srcs rs1)" unfolding srcs_def using sel(3) by auto
    then have "distinct (srcs (n # rs1))" using sel(4) src(1) by simp
    then have "distinct (srcs rs2)" using distinct_srcs_mset [OF sel(1)] by blast
    ultimately show ?thesis unfolding rs' cycle_inv_def by simp
  qed
qed

lemma refreshed_inv:
  assumes "refreshed E T ah rs0 U rs" "plain_import T ah" "cycle_inv ah {} rs0"
  shows "cycle_inv ah U rs"
  using assms(1)
proof (induction rule: refreshed.induct)
  case (refreshed_send U rs n src s rs' s')
  then show ?case using cycle_inv_send [OF assms(2)] by blast
qed (rule assms(3))

text \<open>C20. The refresh cycle marks exactly the routes that were not sent again. Take networks in which
  no source has two routes and no route is marked, a hook without import limits, and between
  \<open>rt_refresh_begin\<close> and \<open>rt_refresh_end\<close> any number of updates of each network by the hook with new
  routes of any sources. After the end, a route of the hook has \<open>REF_DISCARD\<close> if and only if its source
  was not updated in the cycle, also when the update was equal to the old route, and no route of
  another hook is marked.\<close>

theorem refresh_cycle_marks:
  assumes "plain_import T ah" "i < length nets" "i < length nets'"
    and "distinct (srcs (nets ! i))" "\<forall>r \<in> set (nets ! i). \<not> discarded r"
    and "refreshed E T ah (rt_refresh_begin ah nets ! i) U (nets' ! i)"
    and "r \<in> set (fst (rt_refresh_end ah nets') ! i)"
  shows "discarded r \<longleftrightarrow> r_sender r = ah_id ah \<and> a_src (r_attrs r) \<notin> U"
proof -
  let ?f = "\<lambda>e. if r_sender e = ah_id ah then e\<lparr>r_flags := r_flags e OR REF_STALE\<rparr> else e"
  have "rt_refresh_begin ah nets ! i = map ?f (nets ! i)" using assms(2) by (simp add: rt_refresh_begin_def)
  moreover have "srcs (map ?f (nets ! i)) = srcs (nets ! i)" by (simp add: srcs_def)
  ultimately have "cycle_inv ah {} (rt_refresh_begin ah nets ! i)"
    using assms(4,5) by (auto simp: cycle_inv_def)
  from refreshed_inv [OF assms(6,1) this] have inv: "cycle_inv ah U (nets' ! i)" .
  obtain e where e: "e \<in> set (nets' ! i)"
      "r = (if r_sender e = ah_id ah \<and> stale e then e\<lparr>r_flags := r_flags e OR REF_DISCARD\<rparr> else e)"
    using assms(3,7) by (auto simp: rt_refresh_end_def Let_def stale_def)
  then show ?thesis using inv by (auto simp: cycle_inv_def)
qed

definition demo_resent :: "(u32, u32) route" where
  "demo_resent = demo_from 3 9 90 7"

theorem refresh_cycle_marks_witness:
  "\<exists>rs. refreshed demo_env (demo_table True) demo_hook
       (rt_refresh_begin demo_hook [[demo_from 3 4 90 7, demo_from 5 6 80 7]] ! 0) {3} rs \<and>
     (\<forall>r \<in> set (fst (rt_refresh_end demo_hook [rs]) ! 0). discarded r \<longleftrightarrow> r_sender r = 0 \<and> a_src (r_attrs r) \<noteq> 3)"
proof -
  let ?rs0 = "rt_refresh_begin demo_hook [[demo_from 3 4 90 7, demo_from 5 6 80 7]] ! 0"
  have plain: "plain_import (demo_table True) demo_hook"
    by (simp add: plain_import_def demo_table_def demo_hook_def)
  have ok: "sendable ?rs0 demo_resent 3"
    by (simp add: sendable_def fresh_update_def demo_resent_def demo_from_def demo_route_def stale_def discarded_def
        rt_refresh_begin_def demo_hook_def)
  have "\<exists>rs s'. rte_recalculate demo_env (demo_table True) demo_hook ?rs0 (Some demo_resent) 3 demo_state = Inr (rs, s')"
    by (cases rule: rte_recalculate_cases [of demo_env "demo_table True" demo_hook ?rs0 "Some demo_resent" 3 demo_state])
      blast+
  then obtain rs s' where "rte_recalculate demo_env (demo_table True) demo_hook ?rs0 (Some demo_resent) 3 demo_state = Inr (rs, s')"
    by blast
  from refreshed_send [OF refreshed_start ok this]
  have ref: "refreshed demo_env (demo_table True) demo_hook ?rs0 {3} rs" .
  then have "\<forall>r \<in> set (fst (rt_refresh_end demo_hook [rs]) ! 0). discarded r \<longleftrightarrow> r_sender r = ah_id demo_hook \<and> a_src (r_attrs r) \<notin> {3}"
    using refresh_cycle_marks [OF plain, of 0 "[[demo_from 3 4 90 7, demo_from 5 6 80 7]]" "[rs]" demo_env "{3}"]
    by (simp add: srcs_def demo_from_def demo_route_def discarded_def)
  with ref show ?thesis by (auto simp: demo_hook_def)
qed

theorem unsorted_filtered_second_witness:
  "\<exists>s'. rte_recalculate demo_env (demo_table False) demo_hook [demo_from 1 1 100 7, demo_from 3 2 90 7]
      (Some (mark_filtered (demo_from 5 4 95 7))) 5 demo_state =
    Inr ([demo_from 1 1 100 7, (mark_filtered (demo_from 5 4 95 7))\<lparr>r_lastmod := t_now (demo_table False)\<rparr>,
      demo_from 3 2 90 7], s')"
  by (rule unsorted_filtered_second; (rule mark_filtered_invalid | simp add: demo_table_def demo_from_def demo_defs))

end
