(* ===== verification/FilterVal.thy ===== *)
theory FilterVal
  imports AsPathMatch CommSet PrefixTrie
begin

text \<open>
  Values of the filter language and their comparison, the sets of the language as trees of intervals,
  and the test of membership: \<open>filter/filter.c\<close> and \<open>filter/tree.c\<close>.
\<close>

section \<open>Values\<close>

text \<open>
  \<open>struct f_val\<close>: the type with the member of the union that it stands for. The payload of a tree node
  (\<open>data\<close>) and the expressions of a path mask are instructions. \<open>NULL\<close> for a list is \<open>None\<close>.
\<close>

datatype ('i, 'd) f_val =
    V_void
  | V_int u32
  | V_bool u32
  | V_pair u32
  | V_quad u32
  | V_enum u8 u32
  | V_ip 'i
  | V_prefix 'i u32
  | V_string "u8 list"
  | V_path_mask "'d pm_item list"
  | V_path "u8 list"
  | V_clist "u32 list option"
  | V_ec u64
  | V_eclist "u32 list option"
  | V_lc lcomm
  | V_lclist "u32 list option"
  | V_set "('i, 'd) f_tree"
  | V_prefix_set "'i f_trie"
and ('i, 'd) f_tree =
    Tip
  | Node (t_left: "('i, 'd) f_tree") (t_from: "('i, 'd) f_val") (t_to: "('i, 'd) f_val") (t_data: 'd)
      (t_right: "('i, 'd) f_tree")

fun f_type :: "('i, 'd) f_val \<Rightarrow> u8" where
  "f_type V_void = 1"
| "f_type (V_int _) = 0x10"
| "f_type (V_bool _) = 0x11"
| "f_type (V_pair _) = 0x12"
| "f_type (V_quad _) = 0x13"
| "f_type (V_enum t _) = t"
| "f_type (V_ip _) = 0x20"
| "f_type (V_prefix _ _) = 0x21"
| "f_type (V_string _) = 0x22"
| "f_type (V_path_mask _) = 0x23"
| "f_type (V_path _) = 0x24"
| "f_type (V_clist _) = 0x25"
| "f_type (V_ec _) = 0x26"
| "f_type (V_eclist _) = 0x27"
| "f_type (V_lc _) = 0x28"
| "f_type (V_lclist _) = 0x29"
| "f_type (V_set _) = 0x80"
| "f_type (V_prefix_set _) = 0x81"

text \<open>
  What the filters use of the libraries: addresses; the number of an address, when the daemon is built
  for IPv4; \<open>strcmp\<close>, \<open>patmatch\<close> and \<open>qsort\<close>; and how words and addresses lie in the memory of the host.
\<close>

record ('i, 'd) filter_lib =
  fl_ip :: "'i ip_ops"
  fl_unaligned :: unaligned
  fl_quad :: "('i \<Rightarrow> u32) option"
  fl_in_net :: "'i \<Rightarrow> 'i \<Rightarrow> u32 \<Rightarrow> bool"
  fl_net_in_net :: "'i \<Rightarrow> u32 \<Rightarrow> 'i \<Rightarrow> u32 \<Rightarrow> bool"
  fl_strcmp :: "u8 list \<Rightarrow> u8 list \<Rightarrow> int"
  fl_patmatch :: "u8 list \<Rightarrow> u8 list \<Rightarrow> bool"
  fl_qsort :: "(('i, 'd) f_tree \<Rightarrow> ('i, 'd) f_tree \<Rightarrow> int) \<Rightarrow> ('i, 'd) f_tree list \<Rightarrow> ('i, 'd) f_tree list"
  fl_words :: "u8 list \<Rightarrow> u32 list"
  fl_bytes :: "u32 list \<Rightarrow> u8 list"
  fl_addr :: "u8 list \<Rightarrow> 'i"
  fl_addr_bytes :: "'i \<Rightarrow> u8 list"

section \<open>Comparison\<close>

definition CMP_ERROR :: int where "CMP_ERROR = 999"

definition uint_cmp :: "u32 \<Rightarrow> u32 \<Rightarrow> int" where
  "uint_cmp i1 i2 = of_bool (i1 > i2) - of_bool (i1 < i2)"

definition u64_cmp :: "u64 \<Rightarrow> u64 \<Rightarrow> int" where
  "u64_cmp i1 i2 = of_bool (i1 > i2) - of_bool (i1 < i2)"

definition lcomm_cmp :: "lcomm \<Rightarrow> lcomm \<Rightarrow> int" where
  "lcomm_cmp v1 v2 =
     (if lc_asn v1 \<noteq> lc_asn v2 then (if lc_asn v1 > lc_asn v2 then 1 else -1)
      else if ldp1 v1 \<noteq> ldp1 v2 then (if ldp1 v1 > ldp1 v2 then 1 else -1)
      else if ldp2 v1 \<noteq> ldp2 v2 then (if ldp2 v1 > ldp2 v2 then 1 else -1)
      else 0)"

text \<open>The comparison of two values of the same type.\<close>

definition same_type_compare :: "('i, 'd) filter_lib \<Rightarrow> ('i, 'd) f_val \<Rightarrow> ('i, 'd) f_val \<Rightarrow> int" where
  "same_type_compare L v1 v2 =
     (case v1 of
        V_void \<Rightarrow> 0
      | V_int a \<Rightarrow> (case v2 of V_int b \<Rightarrow> uint_cmp a b | _ \<Rightarrow> CMP_ERROR)
      | V_bool a \<Rightarrow> (case v2 of V_bool b \<Rightarrow> uint_cmp a b | _ \<Rightarrow> CMP_ERROR)
      | V_pair a \<Rightarrow> (case v2 of V_pair b \<Rightarrow> uint_cmp a b | _ \<Rightarrow> CMP_ERROR)
      | V_quad a \<Rightarrow> (case v2 of V_quad b \<Rightarrow> uint_cmp a b | _ \<Rightarrow> CMP_ERROR)
      | V_enum _ a \<Rightarrow> (case v2 of V_enum _ b \<Rightarrow> uint_cmp a b | _ \<Rightarrow> CMP_ERROR)
      | V_ec a \<Rightarrow> (case v2 of V_ec b \<Rightarrow> u64_cmp a b | _ \<Rightarrow> CMP_ERROR)
      | V_lc a \<Rightarrow> (case v2 of V_lc b \<Rightarrow> lcomm_cmp a b | _ \<Rightarrow> CMP_ERROR)
      | V_ip a \<Rightarrow> (case v2 of V_ip b \<Rightarrow> ipa_compare (fl_ip L) a b | _ \<Rightarrow> CMP_ERROR)
      | V_prefix a m \<Rightarrow> (case v2 of V_prefix b n \<Rightarrow> (let rc = ipa_compare (fl_ip L) a b in if rc \<noteq> 0 then rc else uint_cmp m n) | _ \<Rightarrow> CMP_ERROR)
      | V_string a \<Rightarrow> (case v2 of V_string b \<Rightarrow> fl_strcmp L a b | _ \<Rightarrow> CMP_ERROR)
      | _ \<Rightarrow> CMP_ERROR)"

definition val_compare :: "('i, 'd) filter_lib \<Rightarrow> ('i, 'd) f_val \<Rightarrow> ('i, 'd) f_val \<Rightarrow> int" where
  "val_compare L v1 v2 =
     (if f_type v1 \<noteq> f_type v2 then
        if v1 = V_void then -1
        else if v2 = V_void then 1
        else (case fl_quad L of None \<Rightarrow> CMP_ERROR
          | Some q \<Rightarrow> (case v1 of
              V_quad a \<Rightarrow> (case v2 of V_ip b \<Rightarrow> uint_cmp a (q b) | _ \<Rightarrow> CMP_ERROR)
            | V_ip a \<Rightarrow> (case v2 of V_quad b \<Rightarrow> uint_cmp (q a) b | _ \<Rightarrow> CMP_ERROR)
            | _ \<Rightarrow> CMP_ERROR))
      else same_type_compare L v1 v2)"

text \<open>A conjunction that the code evaluates from the left; instructions are compared by \<open>same\<close>.\<close>

definition andr :: "bool res \<Rightarrow> bool res \<Rightarrow> bool res" where
  "andr a b = rbind a (\<lambda>x. if x then b else Inr False)"

fun same_tree ::
  "('i, 'd) filter_lib \<Rightarrow> ('d \<Rightarrow> 'd \<Rightarrow> bool res) \<Rightarrow> ('i, 'd) f_tree \<Rightarrow> ('i, 'd) f_tree \<Rightarrow> bool res"
where
  "same_tree L same Tip Tip = Inr True"
| "same_tree L same (Node l1 f1 t1 d1 r1) (Node l2 f2 t2 d2 r2) =
     (if val_compare L f1 f2 \<noteq> 0 then Inr False
      else if val_compare L t1 t2 \<noteq> 0 then Inr False
      else andr (same_tree L same l1 l2) (andr (same_tree L same r1 r2) (same d1 d2)))"
| "same_tree L same _ _ = Inr False"

fun pm_same ::
  "('d \<Rightarrow> 'd \<Rightarrow> bool res) \<Rightarrow> 'd pm_item list \<Rightarrow> 'd pm_item list \<Rightarrow> bool res"
where
  "pm_same same (m1 # ms1) (m2 # ms2) =
     (case (m1, m2) of
        (PM_ASN_EXPR e1, PM_ASN_EXPR e2) \<Rightarrow> andr (same e1 e2) (pm_same same ms1 ms2)
      | (PM_ASN a, PM_ASN b) \<Rightarrow> if a \<noteq> b then Inr False else pm_same same ms1 ms2
      | (PM_ASN_RANGE a1 a2, PM_ASN_RANGE b1 b2) \<Rightarrow>
          if a1 \<noteq> b1 \<or> a2 \<noteq> b2 then Inr False else pm_same same ms1 ms2
      | (PM_QUESTION, PM_QUESTION) \<Rightarrow> pm_same same ms1 ms2
      | (PM_ASTERISK, PM_ASTERISK) \<Rightarrow> pm_same same ms1 ms2
      | _ \<Rightarrow> Inr False)"
| "pm_same same ms1 ms2 = Inr (ms1 = [] \<and> ms2 = [])"

text \<open>
  \<open>adata_same\<close> reads through its pointers; an enumeration type that the parser does not produce, or
  another type without comparison, ends in \<open>bug\<close>.
\<close>

definition adata_same :: "'a list option \<Rightarrow> 'a list option \<Rightarrow> bool res" where
  "adata_same a b = (case (a, b) of (Some x, Some y) \<Rightarrow> Inr (x = y) | _ \<Rightarrow> Inl Out_of_bounds)"

definition val_same ::
  "('i, 'd) filter_lib \<Rightarrow> ('d \<Rightarrow> 'd \<Rightarrow> bool res) \<Rightarrow> ('i, 'd) f_val \<Rightarrow> ('i, 'd) f_val \<Rightarrow> bool res"
where
  "val_same L same v1 v2 =
     (let rc = val_compare L v1 v2 in
      if rc \<noteq> CMP_ERROR then Inr (rc = 0)
      else if f_type v1 \<noteq> f_type v2 then Inr False
      else case v1 of
           V_path_mask a \<Rightarrow> (case v2 of V_path_mask b \<Rightarrow> pm_same same a b | _ \<Rightarrow> Inl Bug)
        | V_path a \<Rightarrow> (case v2 of V_path b \<Rightarrow> Inr (a = b) | _ \<Rightarrow> Inl Bug)
        | V_clist a \<Rightarrow> (case v2 of V_clist b \<Rightarrow> adata_same a b | _ \<Rightarrow> Inl Bug)
        | V_eclist a \<Rightarrow> (case v2 of V_eclist b \<Rightarrow> adata_same a b | _ \<Rightarrow> Inl Bug)
        | V_lclist a \<Rightarrow> (case v2 of V_lclist b \<Rightarrow> adata_same a b | _ \<Rightarrow> Inl Bug)
        | V_set a \<Rightarrow> (case v2 of V_set b \<Rightarrow> same_tree L same a b | _ \<Rightarrow> Inl Bug)
        | V_prefix_set a \<Rightarrow> (case v2 of V_prefix_set b \<Rightarrow> Inr (trie_same a b) | _ \<Rightarrow> Inl Bug)
        | _ \<Rightarrow> Inl Bug)"

section \<open>Trees\<close>

lemma tree_induct [case_names Tip Node]:
  assumes "P Tip" "\<And>l f t d r. P l \<Longrightarrow> P r \<Longrightarrow> P (Node l f t d r)"
  shows "P tr"
  by (rule f_tree.induct [of "\<lambda>_. True" P]) (use assms in auto)

text \<open>The subtree that is found; \<open>Tip\<close> is the null pointer.\<close>

fun find_tree :: "('i, 'd) filter_lib \<Rightarrow> ('i, 'd) f_tree \<Rightarrow> ('i, 'd) f_val \<Rightarrow> ('i, 'd) f_tree" where
  "find_tree L Tip val = Tip"
| "find_tree L (Node l f t d r) val =
     (if val_compare L f val \<noteq> 1 \<and> val_compare L t val \<noteq> -1 then Node l f t d r
      else if val_compare L f val = -1 then find_tree L r val
      else find_tree L l val)"

definition in_tree :: "('i, 'd) filter_lib \<Rightarrow> ('i, 'd) f_tree \<Rightarrow> ('i, 'd) f_val \<Rightarrow> bool" where
  "in_tree L t val \<longleftrightarrow> find_tree L t val \<noteq> Tip"

text \<open>The array from index \<open>l\<close> up to \<open>h\<close>.\<close>

function build_tree_rec :: "('i, 'd) f_tree list \<Rightarrow> nat \<Rightarrow> nat \<Rightarrow> ('i, 'd) f_tree" where
  "build_tree_rec buf l h =
     (if l \<ge> h then Tip
      else
        let pos = (l + h) div 2; n = buf ! pos in
        Node (build_tree_rec buf l pos) (t_from n) (t_to n) (t_data n) (build_tree_rec buf (pos + 1) h))"
  by pat_completeness auto
termination
  by (relation "measure (\<lambda>(buf, l, h). h - l)") auto

declare build_tree_rec.simps [simp del]

definition tree_compare :: "('i, 'd) filter_lib \<Rightarrow> ('i, 'd) f_tree \<Rightarrow> ('i, 'd) f_tree \<Rightarrow> int" where
  "tree_compare L p1 p2 = val_compare L (t_from p1) (t_from p2)"

text \<open>The nodes of a degenerated tree, linked by \<open>left\<close>.\<close>

fun left_nodes :: "('i, 'd) f_tree \<Rightarrow> ('i, 'd) f_tree list" where
  "left_nodes Tip = []"
| "left_nodes (Node l f t d r) = Node l f t d r # left_nodes l"

definition build_tree :: "('i, 'd) filter_lib \<Rightarrow> ('i, 'd) f_tree \<Rightarrow> ('i, 'd) f_tree" where
  "build_tree L from =
     (if from = Tip then Tip
      else let buf = fl_qsort L (tree_compare L) (left_nodes from) in build_tree_rec buf 0 (length buf))"

section \<open>Membership\<close>

definition LEN_MASK :: u32 where "LEN_MASK = 0xff"
definition LEN_PLUS :: u32 where "LEN_PLUS = 0x1000000"
definition LEN_MINUS :: u32 where "LEN_MINUS = 0x2000000"
definition LEN_RANGE :: u32 where "LEN_RANGE = 0x4000000"

definition fprefix_get_bounds :: "nat \<Rightarrow> u32 \<Rightarrow> nat \<times> nat" where
  "fprefix_get_bounds max_len len =
     (let n = unat (len AND LEN_MASK) in
      if len AND LEN_MINUS \<noteq> 0 then (0, n)
      else if len AND LEN_PLUS \<noteq> 0 then (n, max_len)
      else if len AND LEN_RANGE \<noteq> 0 then
        (unat (0xff AND drop_bit 16 len), unat (0xff AND drop_bit 8 len))
      else (n, n))"

definition trie_add_fprefix :: "'i ip_ops \<Rightarrow> 'i f_trie \<Rightarrow> 'i \<Rightarrow> u32 \<Rightarrow> 'i f_trie res" where
  "trie_add_fprefix I t ip len =
     (case fprefix_get_bounds (ip_bits I) len of (l, h) \<Rightarrow>
        trie_add_prefix I t ip (unat (len AND LEN_MASK)) l h)"

definition trie_match_fprefix :: "'i ip_ops \<Rightarrow> 'i f_trie \<Rightarrow> 'i \<Rightarrow> u32 \<Rightarrow> bool" where
  "trie_match_fprefix I t ip len = trie_match_prefix I t ip (unat (len AND LEN_MASK))"

text \<open>The value that a community is compared as, and whether the type of the set allows it.\<close>

definition clist_set_type :: "('i, 'd) filter_lib \<Rightarrow> ('i, 'd) f_tree \<Rightarrow> (u32 \<Rightarrow> ('i, 'd) f_val) \<times> bool" where
  "clist_set_type L tr =
     (case t_from tr of
        V_pair _ \<Rightarrow> (V_pair, True)
      | V_quad _ \<Rightarrow> (V_quad, True)
      | V_ip _ \<Rightarrow> if fl_quad L \<noteq> None then (V_quad, True) else (\<lambda>_. V_void, False)
      | _ \<Rightarrow> (\<lambda>_. V_void, False))"

definition eclist_set_type :: "('i, 'd) f_tree \<Rightarrow> bool" where
  "eclist_set_type tr \<longleftrightarrow> f_type (t_from tr) = 0x26"

definition lclist_set_type :: "('i, 'd) f_tree \<Rightarrow> bool" where
  "lclist_set_type tr \<longleftrightarrow> f_type (t_from tr) = 0x28"

fun any_pair :: "(u32 \<Rightarrow> u32 \<Rightarrow> bool) \<Rightarrow> u32 list \<Rightarrow> bool res" where
  "any_pair P (a # b # l) = (if P a b then Inr True else any_pair P l)"
| "any_pair P [] = Inr False"
| "any_pair P [a] = Inl Out_of_bounds"

fun any_triple :: "(u32 \<Rightarrow> u32 \<Rightarrow> u32 \<Rightarrow> bool) \<Rightarrow> u32 list \<Rightarrow> bool res" where
  "any_triple P (a # b # c # l) = (if P a b c then Inr True else any_triple P l)"
| "any_triple P [] = Inr False"
| "any_triple P _ = Inl Out_of_bounds"

text \<open>\<open>None\<close> is \<open>CMP_ERROR\<close>.\<close>

definition clist_match_set ::
  "('i, 'd) filter_lib \<Rightarrow> u32 list option \<Rightarrow> ('i, 'd) f_tree \<Rightarrow> bool option res"
where
  "clist_match_set L clist tr =
     (case clist of None \<Rightarrow> Inr (Some False)
      | Some l \<Rightarrow>
          case clist_set_type L tr of (v, ok) \<Rightarrow>
            if \<not> ok then Inr None else Inr (Some (list_ex (\<lambda>c. in_tree L tr (v c)) l)))"

definition eclist_match_set ::
  "('i, 'd) filter_lib \<Rightarrow> u32 list option \<Rightarrow> ('i, 'd) f_tree \<Rightarrow> bool option res"
where
  "eclist_match_set L list tr =
     (case list of None \<Rightarrow> Inr (Some False)
      | Some l \<Rightarrow>
          if \<not> eclist_set_type tr then Inr None
          else rmap Some (any_pair (\<lambda>a b. in_tree L tr (V_ec (ec_get a b))) l))"

definition lclist_match_set ::
  "('i, 'd) filter_lib \<Rightarrow> u32 list option \<Rightarrow> ('i, 'd) f_tree \<Rightarrow> bool option res"
where
  "lclist_match_set L list tr =
     (case list of None \<Rightarrow> Inr (Some False)
      | Some l \<Rightarrow>
          if \<not> lclist_set_type tr then Inr None
          else rmap Some (any_triple (\<lambda>a b c. in_tree L tr (V_lc (lc_get a b c))) l))"

text \<open>
  The filters of community lists. \<open>pos\<close> tells whether the members of the set are kept or removed;
  the set is a tree or a list of the same kind.
\<close>

definition clist_filter ::
  "('i, 'd) filter_lib \<Rightarrow> u32 list option \<Rightarrow> ('i, 'd) f_tree + u32 list option \<Rightarrow> bool \<Rightarrow> u32 list option"
where
  "clist_filter L list st pos =
     (case list of None \<Rightarrow> None
      | Some l \<Rightarrow>
          let member = (case st of
              Inl tr \<Rightarrow> (\<lambda>c. in_tree L tr (fst (clist_set_type L tr) c))
            | Inr ad \<Rightarrow> int_set_contains ad)
          in Some (filter (\<lambda>c. member c = pos) l))"

fun filter_pairs :: "(u32 \<Rightarrow> u32 \<Rightarrow> bool res) \<Rightarrow> bool \<Rightarrow> u32 list \<Rightarrow> u32 list res" where
  "filter_pairs P pos (a # b # l) =
     rbind (P a b) (\<lambda>m. rmap (\<lambda>k. if m = pos then a # b # k else k) (filter_pairs P pos l))"
| "filter_pairs P pos [] = Inr []"
| "filter_pairs P pos [a] = Inl Out_of_bounds"

fun filter_triples :: "(u32 \<Rightarrow> u32 \<Rightarrow> u32 \<Rightarrow> bool res) \<Rightarrow> bool \<Rightarrow> u32 list \<Rightarrow> u32 list res" where
  "filter_triples P pos (a # b # c # l) =
     rbind (P a b c) (\<lambda>m. rmap (\<lambda>k. if m = pos then a # b # c # k else k) (filter_triples P pos l))"
| "filter_triples P pos [] = Inr []"
| "filter_triples P pos _ = Inl Out_of_bounds"

definition eclist_filter ::
  "('i, 'd) filter_lib \<Rightarrow> u32 list option \<Rightarrow> ('i, 'd) f_tree + u32 list option \<Rightarrow> bool \<Rightarrow> u32 list option res"
where
  "eclist_filter L list st pos =
     (case list of None \<Rightarrow> Inr None
      | Some l \<Rightarrow>
          rmap Some (filter_pairs (\<lambda>a b. case st of
              Inl tr \<Rightarrow> Inr (in_tree L tr (V_ec (ec_get a b)))
            | Inr ad \<Rightarrow> ec_set_contains ad (ec_get a b)) pos l))"

definition lclist_filter ::
  "('i, 'd) filter_lib \<Rightarrow> u32 list option \<Rightarrow> ('i, 'd) f_tree + u32 list option \<Rightarrow> bool \<Rightarrow> u32 list option res"
where
  "lclist_filter L list st pos =
     (case list of None \<Rightarrow> Inr None
      | Some l \<Rightarrow>
          rmap Some (filter_triples (\<lambda>a b c. case st of
              Inl tr \<Rightarrow> Inr (in_tree L tr (V_lc (lc_get a b c)))
            | Inr ad \<Rightarrow> lc_set_contains ad (lc_get a b c)) pos l))"

text \<open>The last part of \<open>val_in_range\<close>: \<open>v2\<close> is a set, whose root is read first.\<close>

definition in_set :: "('i, 'd) filter_lib \<Rightarrow> ('i, 'd) f_val \<Rightarrow> ('i, 'd) f_tree \<Rightarrow> bool option res" where
  "in_set L v1 tr =
     (if tr = Tip then Inl Out_of_bounds
      else if f_type v1 = f_type (t_from tr) \<or>
          fl_quad L \<noteq> None \<and> f_type v1 = 0x13 \<and> f_type (t_from tr) = 0x20
      then Inr (Some (in_tree L tr v1))
      else case v1 of
          V_clist ad \<Rightarrow> clist_match_set L ad tr
        | V_eclist ad \<Rightarrow> eclist_match_set L ad tr
        | V_lclist ad \<Rightarrow> lclist_match_set L ad tr
        | V_path ad \<Rightarrow> rmap Some (as_path_match_set (fl_unaligned L) ad (\<lambda>a. in_tree L tr (V_int a)))
        | _ \<Rightarrow> Inr None)"

definition val_in_range ::
  "('i, 'd) filter_lib \<Rightarrow> ('i, 'd) f_val \<Rightarrow> ('i, 'd) f_val \<Rightarrow> bool option res"
where
  "val_in_range L v1 v2 =
     (case v2 of
        V_path_mask m \<Rightarrow> (case v1 of V_path ad \<Rightarrow> rmap Some (as_path_match (fl_unaligned L) ad m) | _ \<Rightarrow> Inr None)
      | V_path ad \<Rightarrow> (case v1 of V_int i \<Rightarrow> rmap Some (as_path_contains (fl_unaligned L) ad i 1) | _ \<Rightarrow> Inr None)
      | V_clist ad \<Rightarrow> (case v1 of
            V_pair i \<Rightarrow> Inr (Some (int_set_contains ad i))
          | V_quad i \<Rightarrow> Inr (Some (int_set_contains ad i))
          | V_ip a \<Rightarrow> Inr (map_option (\<lambda>q. int_set_contains ad (q a)) (fl_quad L))
          | _ \<Rightarrow> Inr None)
      | V_eclist ad \<Rightarrow> (case v1 of V_ec e \<Rightarrow> rmap Some (ec_set_contains ad e) | _ \<Rightarrow> Inr None)
      | V_lclist ad \<Rightarrow> (case v1 of V_lc c \<Rightarrow> rmap Some (lc_set_contains ad c) | _ \<Rightarrow> Inr None)
      | V_string p \<Rightarrow> (case v1 of V_string x \<Rightarrow> Inr (Some (fl_patmatch L p x)) | _ \<Rightarrow> Inr None)
      | V_prefix ip len \<Rightarrow> (case v1 of
            V_ip a \<Rightarrow> Inr (Some (fl_in_net L a ip len))
          | V_prefix a n \<Rightarrow> Inr (Some (fl_net_in_net L a n ip len))
          | _ \<Rightarrow> Inr None)
      | V_prefix_set ti \<Rightarrow> (case v1 of V_prefix a n \<Rightarrow> Inr (Some (trie_match_fprefix (fl_ip L) ti a n)) | _ \<Rightarrow> Inr None)
      | V_set tr \<Rightarrow> in_set L v1 tr
      | _ \<Rightarrow> Inr None)"

end
