(* ===== verification/FilterInst.thy ===== *)
theory FilterInst
  imports FilterVal
begin

text \<open>
  The instructions of the filter language (\<open>struct f_inst\<close>, \<open>filter/filter.h\<close>) and the comparison of
  filters (\<open>i_same\<close>, \<open>filter/filter.c\<close>), which decides whether a new configuration keeps a filter.
\<close>

section \<open>Instructions\<close>

text \<open>
  A variable of the language: its name and class, and the address of its value. The instructions with
  two evaluated arguments, and those with one, are told apart by their code; \<open>aux\<close> belongs to all of
  them. A pointer to an instruction is the chain (\<open>next\<close>) that starts there, and \<open>NULL\<close> the empty one.
\<close>

record f_sym =
  sym_name :: "u8 list"
  sym_class :: u16
  sym_def :: nat

datatype f_op2 =
    FI_ADD | FI_SUBTRACT | FI_MULTIPLY | FI_DIVIDE | FI_PAIR_CONSTRUCT | FI_EC_CONSTRUCT
  | FI_NEQ | FI_EQ | FI_LT | FI_LTE | FI_MATCH | FI_NOT_MATCH | FI_IP_MASK | FI_PATH_PREPEND
  | FI_CLIST_ADD_DEL

datatype f_op1 =
    FI_NOT | FI_DEFINED | FI_PRINT | FI_LENGTH | FI_IP | FI_AS_PATH_FIRST | FI_AS_PATH_LAST
  | FI_AS_PATH_LAST_NAG

datatype f_code =
    F_NOP | F_NONL | F_ACCEPT | F_REJECT | F_ERROR | F_QUITBIRD

datatype f_sa =
    SA_FROM | SA_GW | SA_NET | SA_PROTO | SA_SOURCE | SA_SCOPE | SA_CAST | SA_DEST | SA_IFNAME | SA_IFINDEX

text \<open>
  \<open>FI_AND_OR b\<close> is \<open>FI_OR\<close> if \<open>b\<close>, and \<open>FI_EA_GET\<close> and \<open>FI_EA_SET\<close> have the type of the attribute, as
  \<open>aux\<close>, and \<open>a2\<close>, whose upper byte is the number of a bit. \<open>FI_ROA_CHECK\<close> has its prefix and AS number
  only in the form with arguments; \<open>rtc\<close> is the name of the table.
\<close>

datatype 'i f_inst =
    FI_op2 f_op2 u16 "'i f_inst list" "'i f_inst list"
  | FI_op1 f_op1 u16 "'i f_inst list"
  | FI_AND_OR bool "'i f_inst list" "'i f_inst list"
  | FI_LC_CONSTRUCT "'i f_inst list" "'i f_inst list" "'i f_inst list"
  | FI_PATHMASK_CONSTRUCT "'i f_inst list pm_item list"
  | FI_SET f_sym "'i f_inst list"
  | FI_CONSTANT "('i, 'i f_inst list) f_val"
  | FI_VARIABLE f_sym
  | FI_CONSTANT_INDIRECT "('i, 'i f_inst list) f_val"
  | FI_CONDITION "'i f_inst list" "'i f_inst list"
  | FI_NOP
  | FI_PRINT_AND_DIE "'i f_inst list" f_code
  | FI_RTA_GET u8 f_sa
  | FI_RTA_SET u8 f_sa "'i f_inst list"
  | FI_EA_GET u8 u32
  | FI_EA_SET u8 u32 "'i f_inst list"
  | FI_PREF_GET
  | FI_PREF_SET "'i f_inst list"
  | FI_RETURN "'i f_inst list"
  | FI_CALL "'i f_inst list" "'i f_inst list"
  | FI_CLEAR_LOCAL_VARS "f_sym list"
  | FI_SWITCH "'i f_inst list" "('i, 'i f_inst list) f_tree"
  | FI_EMPTY u8
  | FI_ROA_CHECK "('i f_inst list \<times> 'i f_inst list) option" "u8 list"

type_synonym 'i f_block = "'i f_inst list"
type_synonym 'i fval = "('i, 'i f_inst list) f_val"
type_synonym 'i ftree = "('i, 'i f_inst list) f_tree"
type_synonym 'i flib = "('i, 'i f_inst list) filter_lib"

section \<open>Comparison of filters\<close>

text \<open>The instructions inside of a value are smaller than it.\<close>

lemma pm_item_size: "d \<in> set_pm_item m \<Longrightarrow> f d < size_pm_item f m"
  by (cases m) auto

lemma pm_list_size: "m \<in> set ms \<Longrightarrow> d \<in> set_pm_item m \<Longrightarrow> f d < size_list (size_pm_item f) ms"
  using pm_item_size [of d m f] by (induction ms) auto

lemma set_f_val_size:
  fixes v :: "('i, 'd) f_val" and t :: "('i, 'd) f_tree"
  shows "\<forall>d \<in> set_f_val v. f d < size_f_val (\<lambda>_. 0) f v" "\<forall>d \<in> set_f_tree t. f d < size_f_tree (\<lambda>_. 0) f t"
  by (induction v and t rule: f_val.induct f_tree.induct) (auto dest: pm_list_size [where f = f] simp: less_Suc_eq_le trans_le_add1 trans_le_add2 less_imp_le)

lemma same_tree_cong [fundef_cong]:
  assumes "L = L'" "t = t'" "u = u'" "\<And>d e. d \<in> set_f_tree t' \<Longrightarrow> e \<in> set_f_tree u' \<Longrightarrow> s d e = s' d e"
  shows "same_tree L s t u = same_tree L' s' t' u'"
proof -
  have "same_tree L s t u = same_tree L s' t u" if "\<And>d e. d \<in> set_f_tree t \<Longrightarrow> e \<in> set_f_tree u \<Longrightarrow> s d e = s' d e" for t u
    using that by (induction L s t u rule: same_tree.induct) auto
  then show ?thesis using assms by simp
qed

lemma pm_same_cong [fundef_cong]:
  assumes "t = t'" "u = u'" "\<And>d e. d \<in> (\<Union>x \<in> set t'. set_pm_item x) \<Longrightarrow> e \<in> (\<Union>y \<in> set u'. set_pm_item y) \<Longrightarrow> s d e = s' d e"
  shows "pm_same s t u = pm_same s' t' u'"
proof -
  have "pm_same s t u = pm_same s' t u"
    if "\<And>d e. d \<in> (\<Union>x \<in> set t. set_pm_item x) \<Longrightarrow> e \<in> (\<Union>y \<in> set u. set_pm_item y) \<Longrightarrow> s d e = s' d e" for t u
    using that
  proof (induction s t u rule: pm_same.induct)
    case (1 same m1 ms1 m2 ms2)
    then show ?case by (cases m1; cases m2) auto
  qed auto
  then show ?thesis using assms by simp
qed

lemma val_same_cong [fundef_cong]:
  assumes "L = L'" "v = v'" "u = u'" "\<And>d e. d \<in> set_f_val v' \<Longrightarrow> e \<in> set_f_val u' \<Longrightarrow> s d e = s' d e"
  shows "val_same L s v u = val_same L' s' v' u'"
proof -
  have "val_same L s v u = val_same L s' v u"
    if s: "\<And>d e. d \<in> set_f_val v \<Longrightarrow> e \<in> set_f_val u \<Longrightarrow> s d e = s' d e"
  proof (cases v)
    case v: (V_path_mask m)
    show ?thesis
    proof (cases u)
      case (V_path_mask n)
      then have "pm_same s m n = pm_same s' m n" using s v by (intro pm_same_cong) auto
      then show ?thesis using V_path_mask v by (simp add: val_same_def Let_def)
    qed (simp_all add: val_same_def Let_def v)
  next
    case v: (V_set t)
    show ?thesis
    proof (cases u)
      case (V_set t')
      then have "same_tree L s t t' = same_tree L s' t t'" using s v by (intro same_tree_cong) auto
      then show ?thesis using V_set v by (simp add: val_same_def Let_def)
    qed (simp_all add: val_same_def Let_def v)
  qed (simp_all add: val_same_def Let_def)
  then show ?thesis using assms by simp
qed

lemma andr_cong [fundef_cong]:
  "a = a' \<Longrightarrow> (a' = Inr True \<Longrightarrow> b = b') \<Longrightarrow> andr a b = andr a' b'"
  by (auto simp: andr_def split: sum.splits intro!: rbind_cong)

text \<open>A constant is in \<open>a2\<close>: a pointer to a set or a string, or else a number.\<close>

definition const_i :: "('i, 'd) f_val \<Rightarrow> u32" where
  "const_i v = (case v of V_int n \<Rightarrow> n | V_bool n \<Rightarrow> n | V_pair n \<Rightarrow> n | V_quad n \<Rightarrow> n | V_enum _ n \<Rightarrow> n | _ \<Rightarrow> 0)"

definition constant_same ::
  "('i, 'd) filter_lib \<Rightarrow> ('d \<Rightarrow> 'd \<Rightarrow> bool res) \<Rightarrow> ('i, 'd) f_val \<Rightarrow> ('i, 'd) f_val \<Rightarrow> bool res"
where
  "constant_same L same v v' =
     (case v of
        V_prefix_set a \<Rightarrow> (case v' of V_prefix_set b \<Rightarrow> Inr (trie_same a b) | _ \<Rightarrow> Inr False)
      | V_set a \<Rightarrow> (case v' of V_set b \<Rightarrow> same_tree L same a b | _ \<Rightarrow> Inr False)
      | V_string a \<Rightarrow> (case v' of V_string b \<Rightarrow> Inr (fl_strcmp L a b = 0) | _ \<Rightarrow> Inr False)
      | _ \<Rightarrow> Inr (const_i v = const_i v'))"

lemma constant_same_cong [fundef_cong]:
  assumes "L = L'" "v = v'" "u = u'" "\<And>d e. d \<in> set_f_val v' \<Longrightarrow> e \<in> set_f_val u' \<Longrightarrow> s d e = s' d e"
  shows "constant_same L s v u = constant_same L' s' v' u'"
proof -
  have "constant_same L s v u = constant_same L s' v u"
    if s: "\<And>d e. d \<in> set_f_val v \<Longrightarrow> e \<in> set_f_val u \<Longrightarrow> s d e = s' d e"
  proof (cases v)
    case v: (V_set t)
    show ?thesis
    proof (cases u)
      case (V_set t')
      then have "same_tree L s t t' = same_tree L s' t t'" using s v by (intro same_tree_cong) auto
      then show ?thesis using V_set v by (simp add: constant_same_def)
    qed (simp_all add: constant_same_def v)
  qed (simp_all add: constant_same_def)
  then show ?thesis using assms by simp
qed

text \<open>The arguments that are numbers or names of both instructions.\<close>

function i_same :: "'i flib \<Rightarrow> 'i f_block \<Rightarrow> 'i f_block \<Rightarrow> bool res"
  and inst_same :: "'i flib \<Rightarrow> 'i f_inst \<Rightarrow> 'i f_inst \<Rightarrow> bool res"
where
  "i_same L f1 f2 =
     (case f1 of [] \<Rightarrow> Inr (f2 = [])
      | x # xs \<Rightarrow> (case f2 of [] \<Rightarrow> Inr False | y # ys \<Rightarrow> andr (inst_same L x y) (i_same L xs ys)))"
| "inst_same L x y =
     (case x of
        FI_op2 c a p q \<Rightarrow> (case y of FI_op2 c' a' p' q' \<Rightarrow>
          if a \<noteq> a' \<or> c \<noteq> c' then Inr False else andr (i_same L p p') (i_same L q q') | _ \<Rightarrow> Inr False)
      | FI_op1 c a p \<Rightarrow> (case y of FI_op1 c' a' p' \<Rightarrow>
          if a \<noteq> a' \<or> c \<noteq> c' then Inr False else i_same L p p' | _ \<Rightarrow> Inr False)
      | FI_AND_OR b p q \<Rightarrow> (case y of FI_AND_OR b' p' q' \<Rightarrow>
          if b \<noteq> b' then Inr False else andr (i_same L p p') (i_same L q q') | _ \<Rightarrow> Inr False)
      | FI_LC_CONSTRUCT p q r \<Rightarrow> (case y of FI_LC_CONSTRUCT p' q' r' \<Rightarrow>
          andr (i_same L p p') (andr (i_same L q q') (i_same L r r')) | _ \<Rightarrow> Inr False)
      | FI_PATHMASK_CONSTRUCT m \<Rightarrow> (case y of FI_PATHMASK_CONSTRUCT m' \<Rightarrow> pm_same (i_same L) m m' | _ \<Rightarrow> Inr False)
      | FI_SET s q \<Rightarrow> (case y of FI_SET s' q' \<Rightarrow>
          andr (i_same L q q') (Inr (sym_name s = sym_name s' \<and> sym_class s = sym_class s')) | _ \<Rightarrow> Inr False)
      | FI_CONSTANT v \<Rightarrow> (case y of FI_CONSTANT v' \<Rightarrow>
          if f_type v \<noteq> f_type v' then Inr False else constant_same L (i_same L) v v' | _ \<Rightarrow> Inr False)
      | FI_VARIABLE s \<Rightarrow> (case y of FI_VARIABLE s' \<Rightarrow> Inr (sym_name s = sym_name s') | _ \<Rightarrow> Inr False)
      | FI_CONSTANT_INDIRECT v \<Rightarrow> (case y of FI_CONSTANT_INDIRECT v' \<Rightarrow> val_same L (i_same L) v v' | _ \<Rightarrow> Inr False)
      | FI_CONDITION p q \<Rightarrow> (case y of FI_CONDITION p' q' \<Rightarrow> andr (i_same L p p') (i_same L q q') | _ \<Rightarrow> Inr False)
      | FI_NOP \<Rightarrow> Inr (y = FI_NOP)
      | FI_PRINT_AND_DIE p c \<Rightarrow> (case y of FI_PRINT_AND_DIE p' c' \<Rightarrow> andr (i_same L p p') (Inr (c = c')) | _ \<Rightarrow> Inr False)
      | FI_RTA_GET a c \<Rightarrow> (case y of FI_RTA_GET a' c' \<Rightarrow> Inr (a = a' \<and> c = c') | _ \<Rightarrow> Inr False)
      | FI_RTA_SET a c p \<Rightarrow> (case y of FI_RTA_SET a' c' p' \<Rightarrow>
          if a \<noteq> a' then Inr False else andr (i_same L p p') (Inr (c = c')) | _ \<Rightarrow> Inr False)
      | FI_EA_GET a c \<Rightarrow> (case y of FI_EA_GET a' c' \<Rightarrow> Inr (a = a' \<and> c = c') | _ \<Rightarrow> Inr False)
      | FI_EA_SET a c p \<Rightarrow> (case y of FI_EA_SET a' c' p' \<Rightarrow>
          if a \<noteq> a' then Inr False else andr (i_same L p p') (Inr (c = c')) | _ \<Rightarrow> Inr False)
      | FI_PREF_GET \<Rightarrow> Inr (y = FI_PREF_GET)
      | FI_PREF_SET p \<Rightarrow> (case y of FI_PREF_SET p' \<Rightarrow> i_same L p p' | _ \<Rightarrow> Inr False)
      | FI_RETURN p \<Rightarrow> (case y of FI_RETURN p' \<Rightarrow> i_same L p p' | _ \<Rightarrow> Inr False)
      | FI_CALL p q \<Rightarrow> (case y of FI_CALL p' q' \<Rightarrow> andr (i_same L p p') (i_same L q q') | _ \<Rightarrow> Inr False)
      | FI_CLEAR_LOCAL_VARS s \<Rightarrow> (case y of FI_CLEAR_LOCAL_VARS s' \<Rightarrow> Inr True | _ \<Rightarrow> Inr False)
      | FI_SWITCH p t \<Rightarrow> (case y of FI_SWITCH p' t' \<Rightarrow> andr (i_same L p p') (same_tree L (i_same L) t t') | _ \<Rightarrow> Inr False)
      | FI_EMPTY a \<Rightarrow> (case y of FI_EMPTY a' \<Rightarrow> Inr (a = a') | _ \<Rightarrow> Inr False)
      | FI_ROA_CHECK args rtc \<Rightarrow> (case y of FI_ROA_CHECK args' rtc' \<Rightarrow>
          andr (case args of None \<Rightarrow> Inr (args' = None)
                | Some (p, q) \<Rightarrow> (case args' of None \<Rightarrow> Inr False
                    | Some (p', q') \<Rightarrow> andr (i_same L p p') (i_same L q q')))
               (Inr (rtc = rtc')) | _ \<Rightarrow> Inr False))"
  by pat_completeness auto
termination
proof (relation "measure (\<lambda>x. case x of Inl (L, f, g) \<Rightarrow> size_list size f | Inr (L, f, g) \<Rightarrow> size f)", goal_cases)
qed (auto simp: less_Suc_eq_le le_trans [OF less_imp_le] pm_list_size [THEN less_imp_le] set_f_val_size [THEN bspec, THEN less_imp_le] trans_le_add2)

end
