(* ===== verification/FilterRun.thy ===== *)
theory FilterRun
  imports FilterInst RtUpdate BgpAttrs
begin

text \<open>
  The interpreter of the filter language: \<open>interpret\<close>, \<open>f_run\<close>, \<open>f_eval_rte\<close> and \<open>f_eval\<close> of
  \<open>filter/filter.c\<close>. A helper for each group of instructions computes the result from the values of
  the arguments; \<open>interpret\<close> evaluates the arguments and chains the instructions.
\<close>

section \<open>Results and state\<close>

text \<open>
  The value that \<open>interpret\<close> returns, by its type: a plain value; a value with the bit \<open>T_RETURN\<close>, from
  a \<open>return\<close> statement; or \<open>T_RETURN\<close> alone, with the code of \<open>accept\<close>, \<open>reject\<close> or an error.
\<close>

datatype 'i f_out = Val "'i fval" | Ret "'i fval" | Exit f_code

text \<open>
  What the filter reads: the libraries, the network of the route, the names of the protocol of a
  source and of an interface (\<open>""\<close> without interface), \<open>neigh_find\<close> (scope and interface), the number
  \<open>SCOPE_HOST\<close> of \<open>lib/ip.h\<close>, \<open>roa_check\<close> on the table of a given name (if there is one), and the
  flag \<open>FF_FORCE_TMPATTR\<close>.
\<close>

record 'i filter_env =
  fe_lib :: "'i flib"
  fe_net :: "'i \<times> u32"
  fe_proto_name :: "nat \<Rightarrow> u8 list"
  fe_iface_name :: "iface \<Rightarrow> u8 list"
  fe_neigh :: "nat \<Rightarrow> 'i \<Rightarrow> (u8 \<times> iface) option"
  fe_scope_host :: u8
  fe_roa :: "u8 list \<Rightarrow> ('i \<Rightarrow> u32 \<Rightarrow> u32 \<Rightarrow> u32) option"
  fe_force_tmp :: bool

text \<open>
  What it changes. \<open>f_rte\<close> points to the caller's pointer to a route: \<open>fi_caller\<close> is the route object
  of the caller, and \<open>fi_copy\<close> the copy that the pointer was changed to, if it was. \<open>fi_caller\<close> is
  \<open>None\<close> when \<open>f_rte\<close> is a null pointer. \<open>fi_vars\<close> has the values of the variables.
\<close>

record ('i, 'u) fi_state =
  fi_caller :: "('i, 'u) route option"
  fi_copy :: "('i, 'u) route option"
  fi_old_rta :: "'i rta option"
  fi_tmp :: "ea_seg list"
  fi_vars :: "nat \<Rightarrow> 'i fval"

type_synonym ('i, 'u) fi_result = "('i f_out \<times> ('i, 'u) fi_state) res"

definition the_rte :: "('i, 'u) fi_state \<Rightarrow> ('i, 'u) route option" where
  "the_rte s = (case fi_copy s of Some r \<Rightarrow> Some r | None \<Rightarrow> fi_caller s)"

text \<open>A write into the route object that \<open>*f_rte\<close> points to.\<close>

definition upd_rte :: "(('i, 'u) route \<Rightarrow> ('i, 'u) route) \<Rightarrow> ('i, 'u) fi_state \<Rightarrow> ('i, 'u) fi_state" where
  "upd_rte g s =
     (case fi_copy s of Some r \<Rightarrow> s\<lparr>fi_copy := Some (g r)\<rparr>
      | None \<Rightarrow> s\<lparr>fi_caller := map_option g (fi_caller s)\<rparr>)"

definition upd_attrs :: "('i rta \<Rightarrow> 'i rta) \<Rightarrow> ('i, 'u) fi_state \<Rightarrow> ('i, 'u) fi_state" where
  "upd_attrs g = upd_rte (\<lambda>r. r\<lparr>r_attrs := g (r_attrs r)\<rparr>)"

definition f_rte_cow :: "('i, 'u) fi_state \<Rightarrow> ('i, 'u) fi_state" where
  "f_rte_cow s =
     (case the_rte s of None \<Rightarrow> s
      | Some r \<Rightarrow> if r_flags r AND REF_COW \<noteq> 0 then s\<lparr>fi_copy := Some (rte_do_cow r)\<rparr> else s)"

definition f_rta_cow :: "('i, 'u) fi_state \<Rightarrow> ('i, 'u) fi_state" where
  "f_rta_cow s =
     (case the_rte s of None \<Rightarrow> s
      | Some r \<Rightarrow>
          if \<not> a_cached (r_attrs r) then s
          else upd_attrs (\<lambda>a. a\<lparr>a_cached := False\<rparr>) ((f_rte_cow s)\<lparr>fi_old_rta := Some (r_attrs r)\<rparr>))"

text \<open>The macros \<open>runtime\<close>, \<open>ARG\<close> and \<open>ACCESS_RTE\<close>.\<close>

definition runtime :: "('i, 'u) fi_state \<Rightarrow> ('i, 'u) fi_result" where
  "runtime s = Inr (Exit F_ERROR, s)"

definition arg ::
  "('i, 'u) fi_result \<Rightarrow> ('i fval \<Rightarrow> ('i, 'u) fi_state \<Rightarrow> ('i, 'u) fi_result) \<Rightarrow> ('i, 'u) fi_result"
where
  "arg r k = rbind r (\<lambda>(x, s). case x of Val v \<Rightarrow> k v s | _ \<Rightarrow> Inr (x, s))"

definition access_rte ::
  "('i, 'u) fi_state \<Rightarrow> (('i, 'u) route \<Rightarrow> ('i, 'u) fi_result) \<Rightarrow> ('i, 'u) fi_result"
where
  "access_rte s k = (case the_rte s of None \<Rightarrow> runtime s | Some r \<Rightarrow> k r)"

text \<open>A value of an operation without effects; \<open>None\<close> is a runtime error.\<close>

definition done_with :: "('i, 'u) fi_state \<Rightarrow> 'i fval option res \<Rightarrow> ('i, 'u) fi_result" where
  "done_with s r = rmap (\<lambda>v. (case v of Some v \<Rightarrow> Val v | None \<Rightarrow> Exit F_ERROR, s)) r"

definition of_bool32 :: "bool \<Rightarrow> u32" where "of_bool32 b = (if b then 1 else 0)"

section \<open>Binary operations\<close>

definition arith :: "f_op2 \<Rightarrow> 'i fval \<Rightarrow> 'i fval \<Rightarrow> 'i fval option" where
  "arith c v1 v2 =
     (case v1 of
        V_int a \<Rightarrow> (case v2 of
          V_int b \<Rightarrow> (case c of
              FI_ADD \<Rightarrow> Some (V_int (a + b))
            | FI_SUBTRACT \<Rightarrow> Some (V_int (a - b))
            | FI_MULTIPLY \<Rightarrow> Some (V_int (a * b))
            | _ \<Rightarrow> if b = 0 then None else Some (V_int (a div b)))
          | _ \<Rightarrow> None)
      | _ \<Rightarrow> None)"

definition pair_construct :: "'i fval \<Rightarrow> 'i fval \<Rightarrow> 'i fval option" where
  "pair_construct v1 v2 =
     (case v1 of
        V_int u1 \<Rightarrow> (case v2 of
          V_int u2 \<Rightarrow> if u1 > 0xFFFF \<or> u2 > 0xFFFF then None else Some (V_pair (push_bit 16 u1 OR u2))
          | _ \<Rightarrow> None)
      | _ \<Rightarrow> None)"

definition EC_GENERIC :: u16 where "EC_GENERIC = 0xFFFF"

definition ec_construct :: "'i flib \<Rightarrow> u16 \<Rightarrow> 'i fval \<Rightarrow> 'i fval \<Rightarrow> 'i fval option" where
  "ec_construct L aux v1 v2 =
     (case (case v1 of
          V_int k \<Rightarrow> Some (False, k)
        | V_quad k \<Rightarrow> Some (True, k)
        | V_ip a \<Rightarrow> map_option (\<lambda>q. (True, q a)) (fl_quad L)
        | _ \<Rightarrow> None) of
        None \<Rightarrow> None
      | Some (ipv4_used, key) \<Rightarrow>
          (case v2 of
             V_int val \<Rightarrow>
               (case (if aux = EC_GENERIC then (False, ec_generic (ucast key) (ucast val))
                      else if ipv4_used then (True, ec_ip4 (ucast aux) (ucast key) (ucast val))
                      else if key < 0x10000 then (False, ec_as2 (ucast aux) (ucast key) (ucast val))
                      else (True, ec_as4 (ucast aux) (ucast key) (ucast val))) of
                  (check, ec) \<Rightarrow> if check \<and> val > 0xFFFF then None else Some (V_ec ec))
           | _ \<Rightarrow> None))"

definition compare_op :: "'i flib \<Rightarrow> (int \<Rightarrow> bool) \<Rightarrow> 'i fval \<Rightarrow> 'i fval \<Rightarrow> 'i fval option" where
  "compare_op L P v1 v2 =
     (let i = val_compare L v1 v2 in
      if i = CMP_ERROR then None else Some (V_bool (of_bool32 (P i))))"

definition ip_mask :: "'i flib \<Rightarrow> 'i fval \<Rightarrow> 'i fval \<Rightarrow> 'i fval option" where
  "ip_mask L v1 v2 =
     (case v2 of
        V_int n \<Rightarrow> (case v1 of
          V_ip a \<Rightarrow> Some (V_ip (ipa_and (fl_ip L) (ipa_mkmask (fl_ip L) (unat n)) a)) | _ \<Rightarrow> None)
      | _ \<Rightarrow> None)"

definition path_prepend :: "'i flib \<Rightarrow> 'i fval \<Rightarrow> 'i fval \<Rightarrow> 'i fval option res" where
  "path_prepend L v1 v2 =
     (case v1 of
        V_path p \<Rightarrow> (case v2 of
          V_int as \<Rightarrow> rmap (\<lambda>q. Some (V_path q)) (as_path_prepend (fl_unaligned L) p as) | _ \<Rightarrow> Inr None)
      | _ \<Rightarrow> Inr None)"

text \<open>
  \<open>add\<close>, \<open>delete\<close> and \<open>filter\<close> (\<open>aux\<close> is the letter \<open>a\<close>, \<open>d\<close> or \<open>f\<close>). The second argument is classified
  first: a single value, a set, or a list of the same kind. The root of a set is read for its type.
\<close>

datatype ('i, 'k) ca_arg = Ca_key 'k | Ca_set "'i ftree" | Ca_list "u32 list option"

definition root_type :: "'i ftree \<Rightarrow> u8 res" where
  "root_type t = (if t = Tip then Inl Out_of_bounds else Inr (f_type (t_from t)))"

definition path_arg :: "'i fval \<Rightarrow> ('i, u32) ca_arg option res" where
  "path_arg v2 =
     (case v2 of
        V_int n \<Rightarrow> Inr (Some (Ca_key n))
      | V_set t \<Rightarrow> rmap (\<lambda>ty. if ty = 0x10 then Some (Ca_set t) else None) (root_type t)
      | _ \<Rightarrow> Inr None)"

definition path_filter_op :: "'i flib \<Rightarrow> u8 list \<Rightarrow> (u32 \<Rightarrow> bool) \<Rightarrow> bool \<Rightarrow> 'i fval option res" where
  "path_filter_op L p mtch pos =
     rmap (map_option V_path) (as_path_filter (fl_unaligned L) (Some p) mtch pos)"

definition path_add_del :: "'i flib \<Rightarrow> u16 \<Rightarrow> u8 list \<Rightarrow> 'i fval \<Rightarrow> 'i fval option res" where
  "path_add_del L aux p v2 =
     rbind (path_arg v2) (\<lambda>a. case a of
         None \<Rightarrow> Inr None
       | Some a \<Rightarrow>
           let mtch = (case a of Ca_set t \<Rightarrow> (\<lambda>as. in_tree L t (V_int as)) | Ca_key k \<Rightarrow> (\<lambda>as. as = k)
                       | Ca_list _ \<Rightarrow> (\<lambda>_. False)) in
           if aux = 0x61 then Inr None
           else if aux = 0x64 then path_filter_op L p mtch False
           else if aux = 0x66 then
             (case a of Ca_set _ \<Rightarrow> path_filter_op L p mtch True | _ \<Rightarrow> Inr None)
           else Inl Bug)"

definition clist_arg :: "'i flib \<Rightarrow> 'i fval \<Rightarrow> ('i, u32) ca_arg option res" where
  "clist_arg L v2 =
     (case v2 of
        V_pair n \<Rightarrow> Inr (Some (Ca_key n))
      | V_quad n \<Rightarrow> Inr (Some (Ca_key n))
      | V_ip a \<Rightarrow> Inr (map_option (\<lambda>q. Ca_key (q a)) (fl_quad L))
      | V_set t \<Rightarrow> rmap (\<lambda>_. if snd (clist_set_type L t) then Some (Ca_set t) else None) (root_type t)
      | V_clist l \<Rightarrow> Inr (Some (Ca_list l))
      | _ \<Rightarrow> Inr None)"

definition eclist_arg :: "'i fval \<Rightarrow> ('i, u64) ca_arg option res" where
  "eclist_arg v2 =
     (case v2 of
        V_ec n \<Rightarrow> Inr (Some (Ca_key n))
      | V_set t \<Rightarrow> rmap (\<lambda>_. if eclist_set_type t then Some (Ca_set t) else None) (root_type t)
      | V_eclist l \<Rightarrow> Inr (Some (Ca_list l))
      | _ \<Rightarrow> Inr None)"

definition lclist_arg :: "'i fval \<Rightarrow> ('i, lcomm) ca_arg option res" where
  "lclist_arg v2 =
     (case v2 of
        V_lc n \<Rightarrow> Inr (Some (Ca_key n))
      | V_set t \<Rightarrow> rmap (\<lambda>_. if lclist_set_type t then Some (Ca_set t) else None) (root_type t)
      | V_lclist l \<Rightarrow> Inr (Some (Ca_list l))
      | _ \<Rightarrow> Inr None)"

text \<open>The operations on a list, given how a single value is added and deleted, the union and the filter.\<close>

definition list_add_del ::
  "('k \<Rightarrow> u32 list option res) \<Rightarrow> (u32 list option \<Rightarrow> u32 list option res) \<Rightarrow> ('k \<Rightarrow> u32 list option res) \<Rightarrow>
   ('i ftree + u32 list option \<Rightarrow> bool \<Rightarrow> u32 list option res) \<Rightarrow> u16 \<Rightarrow> ('i, 'k) ca_arg \<Rightarrow>
   u32 list option option res"
where
  "list_add_del ins uni del filt aux a =
     (if aux = 0x61 then
        (case a of Ca_set _ \<Rightarrow> Inr None | Ca_key k \<Rightarrow> rmap Some (ins k) | Ca_list l \<Rightarrow> rmap Some (uni l))
      else if aux = 0x64 then
        (case a of Ca_key k \<Rightarrow> rmap Some (del k) | Ca_set t \<Rightarrow> rmap Some (filt (Inl t) False)
         | Ca_list l \<Rightarrow> rmap Some (filt (Inr l) False))
      else if aux = 0x66 then
        (case a of Ca_key _ \<Rightarrow> Inr None | Ca_set t \<Rightarrow> rmap Some (filt (Inl t) True)
         | Ca_list l \<Rightarrow> rmap Some (filt (Inr l) True))
      else Inl Bug)"

definition clist_add_del :: "'i flib \<Rightarrow> u16 \<Rightarrow> u32 list option \<Rightarrow> 'i fval \<Rightarrow> 'i fval option res" where
  "clist_add_del L aux l v2 =
     rbind (clist_arg L v2) (\<lambda>a. case a of None \<Rightarrow> Inr None
       | Some a \<Rightarrow> rmap (map_option V_clist)
           (list_add_del (\<lambda>n. Inr (int_set_add l n)) (\<lambda>k. Inr (int_set_union l k)) (int_set_del l)
              (\<lambda>st pos. Inr (clist_filter L l st pos)) aux a))"

definition eclist_add_del :: "'i flib \<Rightarrow> u16 \<Rightarrow> u32 list option \<Rightarrow> 'i fval \<Rightarrow> 'i fval option res" where
  "eclist_add_del L aux l v2 =
     rbind (eclist_arg v2) (\<lambda>a. case a of None \<Rightarrow> Inr None
       | Some a \<Rightarrow> rmap (map_option V_eclist)
           (list_add_del (ec_set_add l) (ec_set_union l) (ec_set_del l) (eclist_filter L l) aux a))"

definition lclist_add_del :: "'i flib \<Rightarrow> u16 \<Rightarrow> u32 list option \<Rightarrow> 'i fval \<Rightarrow> 'i fval option res" where
  "lclist_add_del L aux l v2 =
     rbind (lclist_arg v2) (\<lambda>a. case a of None \<Rightarrow> Inr None
       | Some a \<Rightarrow> rmap (map_option V_lclist)
           (list_add_del (lc_set_add l) (lc_set_union l) (lc_set_del l) (lclist_filter L l) aux a))"

definition op2_run :: "'i flib \<Rightarrow> f_op2 \<Rightarrow> u16 \<Rightarrow> 'i fval \<Rightarrow> 'i fval \<Rightarrow> 'i fval option res" where
  "op2_run L c aux v1 v2 =
     (case c of
        FI_ADD \<Rightarrow> Inr (arith c v1 v2)
      | FI_SUBTRACT \<Rightarrow> Inr (arith c v1 v2)
      | FI_MULTIPLY \<Rightarrow> Inr (arith c v1 v2)
      | FI_DIVIDE \<Rightarrow> Inr (arith c v1 v2)
      | FI_PAIR_CONSTRUCT \<Rightarrow> Inr (pair_construct v1 v2)
      | FI_EC_CONSTRUCT \<Rightarrow> Inr (ec_construct L aux v1 v2)
      | FI_NEQ \<Rightarrow> rmap (\<lambda>b. Some (V_bool (of_bool32 (\<not> b)))) (val_same L (i_same L) v1 v2)
      | FI_EQ \<Rightarrow> rmap (\<lambda>b. Some (V_bool (of_bool32 b))) (val_same L (i_same L) v1 v2)
      | FI_LT \<Rightarrow> Inr (compare_op L (\<lambda>i. i = -1) v1 v2)
      | FI_LTE \<Rightarrow> Inr (compare_op L (\<lambda>i. i \<noteq> 1) v1 v2)
      | FI_MATCH \<Rightarrow> rmap (map_option (\<lambda>b. V_bool (of_bool32 b))) (val_in_range L v1 v2)
      | FI_NOT_MATCH \<Rightarrow> rmap (map_option (\<lambda>b. V_bool (of_bool32 (\<not> b)))) (val_in_range L v1 v2)
      | FI_IP_MASK \<Rightarrow> Inr (ip_mask L v1 v2)
      | FI_PATH_PREPEND \<Rightarrow> path_prepend L v1 v2
      | FI_CLIST_ADD_DEL \<Rightarrow>
          (case v1 of
             V_path p \<Rightarrow> path_add_del L aux p v2
           | V_clist l \<Rightarrow> clist_add_del L aux l v2
           | V_eclist l \<Rightarrow> eclist_add_del L aux l v2
           | V_lclist l \<Rightarrow> lclist_add_del L aux l v2
           | _ \<Rightarrow> Inr None))"

section \<open>Unary operations\<close>

text \<open>\<open>list->length\<close> of a null pointer is outside of any object.\<close>

definition val_length :: "'i fval \<Rightarrow> u32 option res" where
  "val_length v1 =
     (case v1 of
        V_prefix _ n \<Rightarrow> Inr (Some n)
      | V_path p \<Rightarrow> rmap (\<lambda>n. Some (of_nat n)) (as_path_getlen p)
      | V_clist l \<Rightarrow> (case l of None \<Rightarrow> Inl Out_of_bounds | Some l \<Rightarrow> Inr (Some (of_nat (int_set_get_size l))))
      | V_eclist l \<Rightarrow> (case l of None \<Rightarrow> Inl Out_of_bounds | Some l \<Rightarrow> Inr (Some (of_nat (ec_set_get_size l))))
      | V_lclist l \<Rightarrow> (case l of None \<Rightarrow> Inl Out_of_bounds | Some l \<Rightarrow> Inr (Some (of_nat (lc_set_get_size l))))
      | _ \<Rightarrow> Inr None)"

definition as_op :: "'i fval \<Rightarrow> (u8 list \<Rightarrow> u32 option res) \<Rightarrow> 'i fval option res" where
  "as_op v1 f =
     (case v1 of
        V_path p \<Rightarrow> rmap (\<lambda>as. Some (V_int (case as of Some a \<Rightarrow> a | None \<Rightarrow> 0))) (f p)
      | _ \<Rightarrow> Inr None)"

definition op1_run :: "'i flib \<Rightarrow> f_op1 \<Rightarrow> u16 \<Rightarrow> 'i fval \<Rightarrow> 'i fval option res" where
  "op1_run L c aux v1 =
     (case c of
        FI_NOT \<Rightarrow> Inr (case v1 of V_bool b \<Rightarrow> Some (V_bool (of_bool32 (b = 0))) | _ \<Rightarrow> None)
      | FI_DEFINED \<Rightarrow> Inr (Some (V_bool (of_bool32 (f_type v1 \<noteq> 1))))
      | FI_PRINT \<Rightarrow> Inr (Some V_void)
      | FI_LENGTH \<Rightarrow> rmap (map_option V_int) (val_length v1)
      | FI_IP \<Rightarrow> (case v1 of V_prefix a _ \<Rightarrow> if aux = 0x20 then Inr (Some (V_ip a)) else Inl Bug | _ \<Rightarrow> Inr None)
      | FI_AS_PATH_FIRST \<Rightarrow> as_op v1 (as_path_get_first (fl_unaligned L))
      | FI_AS_PATH_LAST \<Rightarrow> as_op v1 (as_path_get_last (fl_unaligned L))
      | FI_AS_PATH_LAST_NAG \<Rightarrow> as_op v1 (\<lambda>p. rmap Some (as_path_get_last_nonaggregated (fl_unaligned L) p)))"

section \<open>Attributes of the route\<close>

definition RTD_BLACKHOLE :: u8 where "RTD_BLACKHOLE = 2"
definition RTD_UNREACHABLE :: u8 where "RTD_UNREACHABLE = 3"
definition RTD_PROHIBIT :: u8 where "RTD_PROHIBIT = 4"

text \<open>\<open>NULL\<close> as an interface.\<close>

definition NO_IFACE :: iface where "NO_IFACE = \<lparr>if_ref = 0, if_index = 0\<rparr>"

definition rta_get :: "'i filter_env \<Rightarrow> ('i, 'u) route \<Rightarrow> u8 \<Rightarrow> f_sa \<Rightarrow> 'i fval" where
  "rta_get E r aux sa =
     (let a = r_attrs r in
      case sa of
        SA_FROM \<Rightarrow> V_ip (a_from a)
      | SA_GW \<Rightarrow> V_ip (a_gw a)
      | SA_NET \<Rightarrow> V_prefix (fst (fe_net E)) (snd (fe_net E))
      | SA_PROTO \<Rightarrow> V_string (fe_proto_name E (a_src a))
      | SA_SOURCE \<Rightarrow> V_enum aux (ucast (a_source a))
      | SA_SCOPE \<Rightarrow> V_enum aux (ucast (a_scope a))
      | SA_CAST \<Rightarrow> V_enum aux (ucast (a_cast a))
      | SA_DEST \<Rightarrow> V_enum aux (ucast (a_dest a))
      | SA_IFNAME \<Rightarrow> V_string (fe_iface_name E (a_iface a))
      | SA_IFINDEX \<Rightarrow> V_int (if_index (a_iface a)))"

text \<open>
  The assignment, after the copy: the member of the union that it reads is that of the type of the
  attribute.
\<close>

definition val_ip :: "'i fval \<Rightarrow> 'i res" where
  "val_ip v = (case v of V_ip a \<Rightarrow> Inr a | V_prefix a _ \<Rightarrow> Inr a | _ \<Rightarrow> Inl Uninitialised)"

definition val_i :: "'i fval \<Rightarrow> u32 res" where
  "val_i v =
     (case v of V_int n \<Rightarrow> Inr n | V_bool n \<Rightarrow> Inr n | V_pair n \<Rightarrow> Inr n | V_quad n \<Rightarrow> Inr n
      | V_enum _ n \<Rightarrow> Inr n | _ \<Rightarrow> Inl Uninitialised)"

definition rta_set :: "'i filter_env \<Rightarrow> f_sa \<Rightarrow> 'i fval \<Rightarrow> ('i, 'u) fi_state \<Rightarrow> ('i, 'u) fi_result" where
  "rta_set E sa v1 s0 =
     (let s = f_rta_cow s0; ok = (\<lambda>g. Inr (Val V_void, upd_attrs g s)) in
      case sa of
        SA_FROM \<Rightarrow> rbind (val_ip v1) (\<lambda>ip. ok (\<lambda>a. a\<lparr>a_from := ip\<rparr>))
      | SA_GW \<Rightarrow> rbind (val_ip v1) (\<lambda>ip.
          case (case the_rte s of None \<Rightarrow> None | Some r \<Rightarrow> fe_neigh E (a_src (r_attrs r)) ip) of
            None \<Rightarrow> runtime s
          | Some (scope, iface) \<Rightarrow>
              if scope = fe_scope_host E then runtime s
              else ok (\<lambda>a. a\<lparr>a_dest := RTD_ROUTER, a_gw := ip, a_iface := iface, a_nexthops := [],
                            a_hostentry := None\<rparr>))
      | SA_SCOPE \<Rightarrow> rbind (val_i v1) (\<lambda>n. ok (\<lambda>a. a\<lparr>a_scope := ucast n\<rparr>))
      | SA_DEST \<Rightarrow> rbind (val_i v1) (\<lambda>i.
          if i \<noteq> ucast RTD_BLACKHOLE \<and> i \<noteq> ucast RTD_UNREACHABLE \<and> i \<noteq> ucast RTD_PROHIBIT then runtime s
          else ok (\<lambda>a. a\<lparr>a_dest := ucast i, a_gw := ip_none (fl_ip (fe_lib E)), a_iface := NO_IFACE,
                        a_nexthops := [], a_hostentry := None\<rparr>))
      | _ \<Rightarrow> Inl Bug)"

definition EAF_TYPE_BITFIELD :: u8 where "EAF_TYPE_BITFIELD = 0x09"
definition EAF_TEMP :: u8 where "EAF_TEMP = 0x80"

definition bitfield_mask :: "u32 \<Rightarrow> u32" where
  "bitfield_mask a2 = push_bit (unat (drop_bit 24 a2)) 1"

text \<open>The search for an attribute, in the order that the flag decides.\<close>

definition find_attr :: "'i filter_env \<Rightarrow> ('i, 'u) route \<Rightarrow> ea_seg list \<Rightarrow> u16 \<Rightarrow> eattr option" where
  "find_attr E r tmp code =
     (let e1 = (if \<not> fe_force_tmp E then ea_find (a_eattrs (r_attrs r)) (ucast code) else None);
          e2 = (if e1 = None then ea_find tmp (ucast code) else e1) in
      if e2 = None \<and> fe_force_tmp E then ea_find (a_eattrs (r_attrs r)) (ucast code) else e2)"

definition ea_get_missing :: "u8 \<Rightarrow> 'i fval" where
  "ea_get_missing ty =
     (if ty = EAF_TYPE_INT_SET then V_clist (Some [])
      else if ty = EAF_TYPE_EC_SET then V_eclist (Some [])
      else if ty = EAF_TYPE_LC_SET then V_lclist (Some [])
      else V_void)"

definition ea_get_value :: "'i flib \<Rightarrow> u8 \<Rightarrow> u32 \<Rightarrow> eattr \<Rightarrow> 'i fval res" where
  "ea_get_value L ty a2 e =
     (if ty = EAF_TYPE_INT then rmap V_int (u_data e)
      else if ty = EAF_TYPE_ROUTER_ID then rmap V_quad (u_data e)
      else if ty = EAF_TYPE_OPAQUE then Inr (V_enum 0x3f 0)
      else if ty = EAF_TYPE_IP_ADDRESS then rmap (\<lambda>b. V_ip (fl_addr L b)) (u_ptr e)
      else if ty = EAF_TYPE_AS_PATH then rmap V_path (u_ptr e)
      else if ty = EAF_TYPE_BITFIELD then rmap (\<lambda>d. V_bool (of_bool32 (d AND bitfield_mask a2 \<noteq> 0))) (u_data e)
      else if ty = EAF_TYPE_INT_SET then rmap (\<lambda>b. V_clist (Some (fl_words L b))) (u_ptr e)
      else if ty = EAF_TYPE_EC_SET then rmap (\<lambda>b. V_eclist (Some (fl_words L b))) (u_ptr e)
      else if ty = EAF_TYPE_LC_SET then rmap (\<lambda>b. V_lclist (Some (fl_words L b))) (u_ptr e)
      else if ty = EAF_TYPE_UNDEF then Inr V_void
      else Inl Bug)"

definition ea_get :: "'i filter_env \<Rightarrow> ('i, 'u) route \<Rightarrow> ea_seg list \<Rightarrow> u8 \<Rightarrow> u32 \<Rightarrow> 'i fval res" where
  "ea_get E r tmp aux a2 =
     (case find_attr E r tmp (ucast a2) of
        None \<Rightarrow> Inr (ea_get_missing (aux AND EAF_TYPE_MASK))
      | Some e \<Rightarrow> ea_get_value (fe_lib E) (aux AND EAF_TYPE_MASK) a2 e)"

text \<open>The value that is stored; \<open>None\<close> for a value of the wrong type. To store a null pointer
  counts as reading through it.\<close>

definition list_ptr :: "'i flib \<Rightarrow> u32 list option \<Rightarrow> eavalue option res" where
  "list_ptr L l = (case l of None \<Rightarrow> Inl Out_of_bounds | Some l \<Rightarrow> Inr (Some (Ptr (fl_bytes L l))))"

definition ea_set_value ::
  "'i filter_env \<Rightarrow> ('i, 'u) route \<Rightarrow> ea_seg list \<Rightarrow> u8 \<Rightarrow> u32 \<Rightarrow> 'i fval \<Rightarrow> eavalue option res"
where
  "ea_set_value E r tmp aux a2 v1 =
     (let ty = aux AND EAF_TYPE_MASK; L = fe_lib E in
      if ty = EAF_TYPE_INT then
        Inr (case v1 of V_int n \<Rightarrow> Some (Data n)
             | V_enum t n \<Rightarrow> if t < 0x30 \<or> t > 0x3f then None else Some (Data n) | _ \<Rightarrow> None)
      else if ty = EAF_TYPE_ROUTER_ID then
        Inr (case v1 of V_ip a \<Rightarrow> map_option (\<lambda>q. Data (q a)) (fl_quad L)
             | V_quad n \<Rightarrow> Some (Data n) | V_int n \<Rightarrow> Some (Data n) | _ \<Rightarrow> None)
      else if ty = EAF_TYPE_OPAQUE then Inr None
      else if ty = EAF_TYPE_IP_ADDRESS then
        Inr (case v1 of V_ip a \<Rightarrow> Some (Ptr (fl_addr_bytes L a)) | _ \<Rightarrow> None)
      else if ty = EAF_TYPE_AS_PATH then Inr (case v1 of V_path p \<Rightarrow> Some (Ptr p) | _ \<Rightarrow> None)
      else if ty = EAF_TYPE_BITFIELD then
        (case v1 of
           V_bool b \<Rightarrow>
             rmap (\<lambda>data. Some (Data (if b \<noteq> 0 then data OR bitfield_mask a2
                                    else data AND NOT (bitfield_mask a2))))
               (case find_attr E r tmp (ucast a2) of Some e \<Rightarrow> u_data e | None \<Rightarrow> Inr 0)
         | _ \<Rightarrow> Inr None)
      else if ty = EAF_TYPE_INT_SET then (case v1 of V_clist l \<Rightarrow> list_ptr L l | _ \<Rightarrow> Inr None)
      else if ty = EAF_TYPE_EC_SET then (case v1 of V_eclist l \<Rightarrow> list_ptr L l | _ \<Rightarrow> Inr None)
      else if ty = EAF_TYPE_LC_SET then (case v1 of V_lclist l \<Rightarrow> list_ptr L l | _ \<Rightarrow> Inr None)
      else if ty = EAF_TYPE_UNDEF then Inr (case v1 of V_void \<Rightarrow> Some (Data 0) | _ \<Rightarrow> None)
      else Inl Bug)"

definition ea_set ::
  "'i filter_env \<Rightarrow> ('i, 'u) route \<Rightarrow> u8 \<Rightarrow> u32 \<Rightarrow> 'i fval \<Rightarrow> ('i, 'u) fi_state \<Rightarrow> ('i, 'u) fi_result"
where
  "ea_set E r aux a2 v1 s =
     rbind (ea_set_value E r (fi_tmp s) aux a2 v1) (\<lambda>d. case d of
         None \<Rightarrow> runtime s
       | Some d \<Rightarrow>
           let l = \<lparr>eal_flags = EALF_SORTED,
                    eal_attrs = [\<lparr>ea_id = ucast a2, ea_flags = 0, ea_type = aux OR EAF_ORIGINATED, ea_u = d\<rparr>]\<rparr> in
           if aux AND EAF_TEMP = 0 \<and> \<not> fe_force_tmp E
           then Inr (Val V_void, upd_attrs (\<lambda>a. a\<lparr>a_eattrs := l # a_eattrs a\<rparr>) (f_rta_cow s))
           else Inr (Val V_void, s\<lparr>fi_tmp := l # fi_tmp s\<rparr>))"

definition pref_set :: "'i fval \<Rightarrow> ('i, 'u) fi_state \<Rightarrow> ('i, 'u) fi_result" where
  "pref_set v1 s =
     (case v1 of
        V_int n \<Rightarrow> if n > 0xFFFF then runtime s
                  else Inr (Val V_void, upd_rte (\<lambda>r. r\<lparr>r_pref := ucast n\<rparr>) (f_rte_cow s))
      | _ \<Rightarrow> runtime s)"

section \<open>Variables, empty attributes and origin checks\<close>

definition SYM_VARIABLE :: u16 where "SYM_VARIABLE = 0x100"

definition set_var :: "'i flib \<Rightarrow> f_sym \<Rightarrow> 'i fval \<Rightarrow> ('i, 'u) fi_state \<Rightarrow> ('i, 'u) fi_result" where
  "set_var L sy v2 s =
     (let store = (\<lambda>v. Inr (Val V_void, s\<lparr>fi_vars := (fi_vars s)(sym_def sy := v)\<rparr>)) in
      if sym_class sy \<noteq> SYM_VARIABLE OR ucast (f_type v2) \<and> f_type v2 \<noteq> 1 then
        (case (v2, fl_quad L) of
           (V_ip a, Some q) \<Rightarrow> if sym_class sy = SYM_VARIABLE OR 0x13 then store (V_quad (q a)) else runtime s
         | _ \<Rightarrow> runtime s)
      else store v2)"

definition clear_vars :: "f_sym list \<Rightarrow> ('i, 'u) fi_state \<Rightarrow> ('i, 'u) fi_state" where
  "clear_vars syms s = s\<lparr>fi_vars := fold (\<lambda>sy m. m(sym_def sy := V_void)) syms (fi_vars s)\<rparr>"

text \<open>An empty attribute has one of four types; a value of another type would have no contents.\<close>

definition empty_val :: "u8 \<Rightarrow> 'i fval res" where
  "empty_val aux =
     (if aux = 0x24 then Inr (V_path [])
      else if aux = 0x25 then Inr (V_clist (Some []))
      else if aux = 0x27 then Inr (V_eclist (Some []))
      else if aux = 0x29 then Inr (V_lclist (Some []))
      else Inl Uninitialised)"

definition roa_result :: "'i filter_env \<Rightarrow> u8 list \<Rightarrow> 'i \<Rightarrow> u32 \<Rightarrow> u32 \<Rightarrow> ('i, 'u) fi_state \<Rightarrow> ('i, 'u) fi_result" where
  "roa_result E rtc px len as s =
     (case fe_roa E rtc of None \<Rightarrow> runtime s | Some check \<Rightarrow> Inr (Val (V_enum 0x35 (check px len as)), s))"

definition roa_check_args ::
  "'i filter_env \<Rightarrow> u8 list \<Rightarrow> 'i fval \<Rightarrow> 'i fval \<Rightarrow> ('i, 'u) fi_state \<Rightarrow> ('i, 'u) fi_result"
where
  "roa_check_args E rtc v1 v2 s =
     (case v1 of
        V_prefix px len \<Rightarrow> (case v2 of V_int as \<Rightarrow> roa_result E rtc px len as s | _ \<Rightarrow> runtime s)
      | _ \<Rightarrow> runtime s)"

text \<open>
  Without arguments the AS number is that of the route. \<open>as_path_get_last\<close> may find none; then \<open>as\<close> has
  the value that an earlier instruction of the chain left in it, if there was one.
\<close>

definition roa_check_route ::
  "'i filter_env \<Rightarrow> u8 list \<Rightarrow> ('i, 'u) route \<Rightarrow> ('i, 'u) fi_state \<Rightarrow> ('i, 'u) fi_result"
where
  "roa_check_route E rtc r s =
     (case ea_find_bgp (a_eattrs (r_attrs r)) 0x02 of
        None \<Rightarrow> runtime s
      | Some e \<Rightarrow>
          if ea_type e \<noteq> EAF_TYPE_AS_PATH then runtime s
          else rbind (u_ptr e) (\<lambda>p. rbind (as_path_get_last (fl_unaligned (fe_lib E)) p) (\<lambda>as.
            case as of None \<Rightarrow> Inl Uninitialised
            | Some as \<Rightarrow> roa_result E rtc (fst (fe_net E)) (snd (fe_net E)) as s)))"

definition print_and_die :: "f_code \<Rightarrow> ('i, 'u) fi_state \<Rightarrow> ('i, 'u) fi_result" where
  "print_and_die c s =
     (case c of F_QUITBIRD \<Rightarrow> Inl Died | F_NOP \<Rightarrow> Inr (Val V_void, s) | F_NONL \<Rightarrow> Inr (Val V_void, s)
      | _ \<Rightarrow> Inr (Exit c, s))"

section \<open>The interpreter\<close>

text \<open>
  \<open>interpret\<close> runs a chain: the value of the last instruction is its value, unless one returns. In a
  path mask the expressions are evaluated in order, and each has to give an integer.
\<close>

lemma find_tree_size:
  "find_tree L t v = Node l a b d r \<Longrightarrow> f d < size_f_tree (\<lambda>_. 0) f t"
  by (induction t rule: tree_induct) (auto split: if_splits intro: trans_le_add2)

function interpret_f :: "'i filter_env \<Rightarrow> 'i f_block \<Rightarrow> ('i, 'u) fi_state \<Rightarrow> ('i, 'u) fi_result"
  and interp_inst :: "'i filter_env \<Rightarrow> 'i f_inst \<Rightarrow> ('i, 'u) fi_state \<Rightarrow> ('i, 'u) fi_result"
  and interp_mask :: "'i filter_env \<Rightarrow> 'i f_block pm_item list \<Rightarrow> ('i, 'u) fi_state \<Rightarrow>
    ('i f_block pm_item list option \<times> ('i, 'u) fi_state) res"
where
  "interpret_f E [] s = Inr (Val V_void, s)"
| "interpret_f E (i # chain) s =
     (if chain = [] then interp_inst E i s else arg (interp_inst E i s) (\<lambda>_. interpret_f E chain))"
| "interp_inst E (FI_op2 c aux a1 a2) s =
     arg (interpret_f E a1 s) (\<lambda>v1 s. arg (interpret_f E a2 s) (\<lambda>v2 s. done_with s (op2_run (fe_lib E) c aux v1 v2)))"
| "interp_inst E (FI_op1 c aux a1) s =
     arg (interpret_f E a1 s) (\<lambda>v1 s. done_with s (op1_run (fe_lib E) c aux v1))"
| "interp_inst E (FI_AND_OR is_or a1 a2) s =
     arg (interpret_f E a1 s) (\<lambda>v1 s.
       case v1 of
         V_bool b \<Rightarrow>
           if b = of_bool32 is_or then Inr (Val v1, s)
           else arg (interpret_f E a2 s) (\<lambda>v2 s. case v2 of V_bool _ \<Rightarrow> Inr (Val v2, s) | _ \<Rightarrow> runtime s)
       | _ \<Rightarrow> runtime s)"
| "interp_inst E (FI_LC_CONSTRUCT a1 a2 a3) s =
     arg (interpret_f E a1 s) (\<lambda>v1 s. arg (interpret_f E a2 s) (\<lambda>v2 s. arg (interpret_f E a3 s) (\<lambda>v3 s.
       case (v1, v2, v3) of
         (V_int x, V_int y, V_int z) \<Rightarrow> Inr (Val (V_lc \<lparr>lc_asn = x, ldp1 = y, ldp2 = z\<rparr>), s)
       | _ \<Rightarrow> runtime s)))"
| "interp_inst E (FI_PATHMASK_CONSTRUCT m) s =
     rbind (interp_mask E m s) (\<lambda>(m', s). case m' of None \<Rightarrow> runtime s | Some m' \<Rightarrow> Inr (Val (V_path_mask m'), s))"
| "interp_inst E (FI_SET sy a2) s = arg (interpret_f E a2 s) (\<lambda>v2 s. set_var (fe_lib E) sy v2 s)"
| "interp_inst E (FI_CONSTANT v) s = Inr (Val v, s)"
| "interp_inst E (FI_VARIABLE sy) s = Inr (Val (fi_vars s (sym_def sy)), s)"
| "interp_inst E (FI_CONSTANT_INDIRECT v) s = Inr (Val v, s)"
| "interp_inst E (FI_CONDITION a1 a2) s =
     arg (interpret_f E a1 s) (\<lambda>v1 s.
       case v1 of
         V_bool b \<Rightarrow>
           if b \<noteq> 0 then arg (interpret_f E a2 s) (\<lambda>_ s. Inr (Val (V_bool 0), s)) else Inr (Val (V_bool 1), s)
       | _ \<Rightarrow> runtime s)"
| "interp_inst E FI_NOP s = Inr (Val V_void, s)"
| "interp_inst E (FI_PRINT_AND_DIE a1 c) s = arg (interpret_f E a1 s) (\<lambda>_ s. print_and_die c s)"
| "interp_inst E (FI_RTA_GET aux sa) s = access_rte s (\<lambda>r. Inr (Val (rta_get E r aux sa), s))"
| "interp_inst E (FI_RTA_SET aux sa a1) s =
     access_rte s (\<lambda>_. arg (interpret_f E a1 s) (\<lambda>v1 s. if aux \<noteq> f_type v1 then runtime s else rta_set E sa v1 s))"
| "interp_inst E (FI_EA_GET aux a2) s =
     access_rte s (\<lambda>r. rmap (\<lambda>v. (Val v, s)) (ea_get E r (fi_tmp s) aux a2))"
| "interp_inst E (FI_EA_SET aux a2 a1) s =
     access_rte s (\<lambda>_. arg (interpret_f E a1 s) (\<lambda>v1 s. access_rte s (\<lambda>r. ea_set E r aux a2 v1 s)))"
| "interp_inst E FI_PREF_GET s = access_rte s (\<lambda>r. Inr (Val (V_int (ucast (r_pref r))), s))"
| "interp_inst E (FI_PREF_SET a1) s = access_rte s (\<lambda>_. arg (interpret_f E a1 s) pref_set)"
| "interp_inst E (FI_RETURN a1) s = arg (interpret_f E a1 s) (\<lambda>v1 s. Inr (Ret v1, s))"
| "interp_inst E (FI_CALL a1 a2) s =
     arg (interpret_f E a1 s) (\<lambda>_ s. rmap (\<lambda>(x, s). (case x of Ret v \<Rightarrow> Val v | _ \<Rightarrow> x, s)) (interpret_f E a2 s))"
| "interp_inst E (FI_CLEAR_LOCAL_VARS syms) s = Inr (Val V_void, clear_vars syms s)"
| "interp_inst E (FI_SWITCH a1 t) s =
     arg (interpret_f E a1 s) (\<lambda>v1 s.
       case find_tree (fe_lib E) t v1 of
         Node _ _ _ d _ \<Rightarrow> interpret_f E d s
       | Tip \<Rightarrow> (case find_tree (fe_lib E) t V_void of
             Node _ _ _ d _ \<Rightarrow> interpret_f E d s
           | Tip \<Rightarrow> Inr (Val V_void, s)))"
| "interp_inst E (FI_EMPTY aux) s = rmap (\<lambda>v. (Val v, s)) (empty_val aux)"
| "interp_inst E (FI_ROA_CHECK args rtc) s =
     (case args of
        Some (a1, a2) \<Rightarrow> arg (interpret_f E a1 s) (\<lambda>v1 s. arg (interpret_f E a2 s) (\<lambda>v2 s. roa_check_args E rtc v1 v2 s))
      | None \<Rightarrow> access_rte s (\<lambda>r. roa_check_route E rtc r s))"
| "interp_mask E [] s = Inr (Some [], s)"
| "interp_mask E (m # ms) s =
     (case m of
        PM_ASN_EXPR e \<Rightarrow> rbind (interpret_f E e s) (\<lambda>(x, s).
          case x of
            Val v \<Rightarrow> (case v of
                V_int n \<Rightarrow> rmap (\<lambda>(k, s). (map_option ((#) (PM_ASN (ucast n))) k, s)) (interp_mask E ms s)
              | _ \<Rightarrow> Inr (None, s))
          | _ \<Rightarrow> Inr (None, s))
      | _ \<Rightarrow> rmap (\<lambda>(k, s). (map_option ((#) m) k, s)) (interp_mask E ms s))"
  by pat_completeness auto
termination
proof (relation "measure (\<lambda>x. case x of Inl (E, f, s) \<Rightarrow> size_list size f
    | Inr (Inl (E, f, s)) \<Rightarrow> size f | Inr (Inr (E, m, s)) \<Rightarrow> size_list (size_pm_item (size_list size)) m)", goal_cases)
qed (auto simp: less_Suc_eq_le dest!: find_tree_size [where f = "size_list size"])

lemmas interp_cases = interpret_f_interp_inst_interp_mask.induct

section \<open>Running a filter\<close>

datatype 'i filter_prog = FILTER_ACCEPT | FILTER_REJECT | FILTER "'i f_block"

definition fi_start :: "('i, 'u) route option \<Rightarrow> ea_seg list \<Rightarrow> (nat \<Rightarrow> 'i fval) \<Rightarrow> ('i, 'u) fi_state" where
  "fi_start r tmp vars =
     \<lparr>fi_caller = r, fi_copy = None, fi_old_rta = None, fi_tmp = tmp, fi_vars = vars\<rparr>"

text \<open>
  When a cached block was changed and the route of the caller is its own, \<open>rta_lookup\<close> replaces the
  private block by the cached one of the same value.
\<close>

definition relookup :: "('i, 'u) route \<Rightarrow> ('i, 'u) fi_state \<Rightarrow> ('i, 'u) fi_state res" where
  "relookup r s =
     (if fi_old_rta s = None \<or> r_flags r AND REF_COW \<noteq> 0 then Inr s
      else case the_rte s of
          Some r' \<Rightarrow> if a_cached (r_attrs r') then Inl Assert_failed else Inr (upd_attrs rta_normal s)
        | None \<Rightarrow> Inr s)"

definition f_run ::
  "'i filter_env \<Rightarrow> 'i filter_prog \<Rightarrow> ('i, 'u) route \<Rightarrow> ea_seg list \<Rightarrow> (nat \<Rightarrow> 'i fval) \<Rightarrow>
   (f_code \<times> ('i, 'u) fi_state) res"
where
  "f_run E f r tmp vars =
     (let s0 = fi_start (Some r) tmp vars in
      case f of
        FILTER_ACCEPT \<Rightarrow> Inr (F_ACCEPT, s0)
      | FILTER_REJECT \<Rightarrow> Inr (F_REJECT, s0)
      | FILTER root \<Rightarrow>
          rbind (interpret_f E root s0) (\<lambda>(x, s).
          rbind (relookup r s) (\<lambda>s. Inr (case x of Exit c \<Rightarrow> c | _ \<Rightarrow> F_ERROR, s))))"

definition ea_append :: "ea_seg list \<Rightarrow> ea_seg list \<Rightarrow> ea_seg list" where
  "ea_append to what = to @ what"

text \<open>\<open>f_eval_rte\<close> assumes that the block of the route is private.\<close>

definition f_eval_rte ::
  "'i filter_env \<Rightarrow> 'i f_block \<Rightarrow> ('i, 'u) route \<Rightarrow> (nat \<Rightarrow> 'i fval) \<Rightarrow> ('i, 'u) fi_result"
where
  "f_eval_rte E ex r vars =
     rmap (\<lambda>(x, s). (x, upd_attrs (\<lambda>a. a\<lparr>a_eattrs := ea_append (fi_tmp s) (a_eattrs a)\<rparr>) s))
       (interpret_f E ex (fi_start (Some r) [] vars))"

definition f_eval :: "'i filter_env \<Rightarrow> 'i f_block \<Rightarrow> (nat \<Rightarrow> 'i fval) \<Rightarrow> ('i, 'u) fi_result" where
  "f_eval E ex vars = interpret_f E ex (fi_start None [] vars)"

text \<open>\<open>cf_error\<close>, the rejection of a configuration, is \<open>None\<close>.\<close>

definition f_eval_int :: "'i filter_env \<Rightarrow> 'i f_block \<Rightarrow> (nat \<Rightarrow> 'i fval) \<Rightarrow> u32 option res" where
  "f_eval_int E ex vars =
     rmap (\<lambda>(x, s :: ('i, unit) fi_state). case x of Val v \<Rightarrow> (case v of V_int n \<Rightarrow> Some n | _ \<Rightarrow> None) | _ \<Rightarrow> None)
       (f_eval E ex vars)"

definition filter_same :: "'i flib \<Rightarrow> 'i filter_prog \<Rightarrow> 'i filter_prog \<Rightarrow> bool res" where
  "filter_same L new old =
     (case (new, old) of
        (FILTER a, FILTER b) \<Rightarrow> i_same L a b
      | _ \<Rightarrow> Inr (new = old))"

text \<open>The result of a filter as the routing table sees it: \<open>f_run\<close> gives more than \<open>F_ACCEPT\<close> for a rejected route.\<close>

definition f_accepts :: "f_code \<Rightarrow> bool" where
  "f_accepts c \<longleftrightarrow> c = F_NOP \<or> c = F_NONL \<or> c = F_ACCEPT"

end
