(* ===== verification/FilterCow.thy ===== *)
theory FilterCow
  imports FilterRun
begin

text \<open>
  What a filter does not change. An invariant of the interpreter is a property of its state that each
  effect keeps; the locale proves that the interpreter keeps it. Two invariants: the route object of the
  caller and the cached attribute blocks are not written, and the identity of the route stays.
\<close>

section \<open>Invariants of the interpreter\<close>

definition keeps :: "(('i, 'u) fi_state \<Rightarrow> bool) \<Rightarrow> ('x \<times> ('i, 'u) fi_state) res \<Rightarrow> bool" where
  "keeps P r \<longleftrightarrow> (case r of Inr (_, s) \<Rightarrow> P s | Inl _ \<Rightarrow> True)"

lemma keeps_simps [simp]: "keeps P (Inr (x, s)) = P s" "keeps P (Inl e)" "keeps P (runtime s) = P s"
  by (simp_all add: keeps_def runtime_def)

lemma keeps_rbind: "keeps P r \<Longrightarrow> (\<And>x s. r = Inr (x, s) \<Longrightarrow> P s \<Longrightarrow> keeps P (k (x, s))) \<Longrightarrow> keeps P (rbind r k)"
  by (cases r) (auto simp: keeps_def)

lemma keeps_arg: "keeps P r \<Longrightarrow> (\<And>v s. P s \<Longrightarrow> keeps P (k v s)) \<Longrightarrow> keeps P (arg r k)"
  unfolding arg_def by (rule keeps_rbind) (auto split: f_out.split)

lemma keeps_rbind_res: "(\<And>x. keeps P (k x)) \<Longrightarrow> keeps P (rbind r k)"
  by (cases r) simp_all

lemma keeps_rmap: "keeps P r \<Longrightarrow> keeps P (rmap (\<lambda>(x, s). (f x, s)) r)"
  by (auto simp: keeps_def rmap_def rbind_def split: sum.splits)

lemma keeps_rmap_res: "P s \<Longrightarrow> keeps P (rmap (\<lambda>v. (f v, s)) r)"
  by (cases r) simp_all

lemma keeps_done: "P s \<Longrightarrow> keeps P (done_with s r)"
  unfolding done_with_def by (rule keeps_rmap_res)

lemma keeps_access: "P s \<Longrightarrow> (\<And>r. the_rte s = Some r \<Longrightarrow> keeps P (k r)) \<Longrightarrow> keeps P (access_rte s k)"
  by (simp add: access_rte_def split: option.split)

locale filter_invariant =
  fixes P :: "('i, 'u) fi_state \<Rightarrow> bool"
  assumes rte_cow: "P s \<Longrightarrow> P (f_rte_cow s)"
    and rta_cow: "P s \<Longrightarrow> P (f_rta_cow s)"
    and write_pref: "P s \<Longrightarrow> P (upd_rte (\<lambda>r. r\<lparr>r_pref := n\<rparr>) (f_rte_cow s))"
    and write_attrs: "P s \<Longrightarrow> (\<And>a. a_src (g a) = a_src a \<and> a_cached (g a) = a_cached a) \<Longrightarrow> P (upd_attrs g (f_rta_cow s))"
    and write_tmp: "P s \<Longrightarrow> P (s\<lparr>fi_tmp := t\<rparr>)"
    and write_vars: "P s \<Longrightarrow> P (s\<lparr>fi_vars := m\<rparr>)"
begin

lemma rta_set_keeps: "P s \<Longrightarrow> keeps P (rta_set E sa v s)"
  unfolding rta_set_def Let_def
  by (auto simp: write_attrs rta_cow intro!: keeps_rbind_res split: f_sa.split option.split)

lemma ea_set_keeps: "P s \<Longrightarrow> keeps P (ea_set E r aux a2 v s)"
  unfolding ea_set_def Let_def
  by (auto simp: write_attrs write_tmp intro!: keeps_rbind_res split: option.split)

lemma pref_set_keeps: "P s \<Longrightarrow> keeps P (pref_set v s)"
  unfolding pref_set_def by (auto simp: write_pref split: f_val.split)

lemma set_var_keeps: "P s \<Longrightarrow> keeps P (set_var L sy v s)"
  unfolding set_var_def Let_def by (auto simp: write_vars split: f_val.split option.split)

lemma roa_keeps:
  "P s \<Longrightarrow> keeps P (roa_check_args E rtc v1 v2 s)" "P s \<Longrightarrow> keeps P (roa_check_route E rtc r s)"
  unfolding roa_check_args_def roa_check_route_def roa_result_def
  by (auto intro!: keeps_rbind_res split: f_val.split option.split)

lemma print_and_die_keeps: "P s \<Longrightarrow> keeps P (print_and_die c s)"
  unfolding print_and_die_def by (cases c) auto

lemmas effects_keep = rta_set_keeps ea_set_keeps pref_set_keeps set_var_keeps roa_keeps print_and_die_keeps
  keeps_done

theorem interpret_keeps:
  "P s \<Longrightarrow> keeps P (interpret_f E chain s)"
  "P s \<Longrightarrow> keeps P (interp_inst E i s)"
  "P s \<Longrightarrow> keeps P (interp_mask E m s)"
proof (induction E chain s and E i s and E m s rule: interp_cases)
qed (auto simp: clear_vars_def write_vars intro!: keeps_arg keeps_rbind keeps_rmap keeps_rmap_res keeps_access effects_keep
    split: f_val.split f_tree.split f_out.split option.split pm_item.split)

end

section \<open>The route of the caller and the cached blocks\<close>

text \<open>
  For a route that is read-only (\<open>REF_COW\<close>) and has a cached block, as all routes in a table: the
  caller's object is as before, and a block marked as cached is the original one.
\<close>

definition shared :: "('i, 'u) route \<Rightarrow> bool" where
  "shared r \<longleftrightarrow> r_flags r AND REF_COW \<noteq> 0 \<and> a_cached (r_attrs r)"

definition cow_inv :: "('i, 'u) route \<Rightarrow> ('i, 'u) fi_state \<Rightarrow> bool" where
  "cow_inv r s \<longleftrightarrow> shared r \<longrightarrow> fi_caller s = Some r \<and>
     (case fi_copy s of None \<Rightarrow> True
      | Some c \<Rightarrow> r_flags c AND REF_COW = 0 \<and> (a_cached (r_attrs c) \<longrightarrow> r_attrs c = r_attrs r))"

lemmas state_ops = f_rte_cow_def f_rta_cow_def upd_rte_def upd_attrs_def the_rte_def rte_do_cow_def

lemma cow_inv_cases:
  assumes "cow_inv r s" "shared r"
  obtains "fi_caller s = Some r" "fi_copy s = None"
  | c where "fi_caller s = Some r" "fi_copy s = Some c" "r_flags c AND REF_COW = 0"
      "a_cached (r_attrs c) \<longrightarrow> r_attrs c = r_attrs r"
  using assms by (auto simp: cow_inv_def split: option.splits)

lemma cow_invI:
  assumes "shared r \<Longrightarrow> fi_caller s = Some r"
    "\<And>c. shared r \<Longrightarrow> fi_copy s = Some c \<Longrightarrow> r_flags c AND REF_COW = 0 \<and> (a_cached (r_attrs c) \<longrightarrow> r_attrs c = r_attrs r)"
  shows "cow_inv r s"
  using assms by (simp add: cow_inv_def split: option.split)

lemma cow_copies:
  assumes "cow_inv r s" "shared r"
  obtains c where "f_rte_cow s = s\<lparr>fi_copy := Some c\<rparr>" "r_flags c AND REF_COW = 0"
    "a_cached (r_attrs c) \<longrightarrow> r_attrs c = r_attrs r"
  using assms
proof (cases rule: cow_inv_cases)
  case 1
  with assms(2) show ?thesis by (intro that [of "rte_do_cow r"]) (simp_all add: shared_def state_ops)
next
  case (2 c)
  then show ?thesis by (intro that [of c]) (simp_all add: state_ops)
qed

lemma cow_private:
  assumes "cow_inv r s" "shared r"
  obtains c old where "f_rta_cow s = s\<lparr>fi_copy := Some c, fi_old_rta := old\<rparr>" "r_flags c AND REF_COW = 0"
    "\<not> a_cached (r_attrs c)"
  using assms
proof (cases rule: cow_inv_cases)
  case 1
  with assms(2) show ?thesis
    by (intro that [of "Some (r_attrs r)" "rte_cow_rta r"]) (simp_all add: shared_def state_ops rte_cow_rta_def rte_cow_def)
next
  case (2 c)
  show ?thesis
  proof (cases "a_cached (r_attrs c)")
    case True
    with 2 show ?thesis
      by (intro that [of "Some (r_attrs c)" "c\<lparr>r_attrs := (r_attrs c)\<lparr>a_cached := False\<rparr>\<rparr>"]) (simp_all add: state_ops)
  next
    case False
    with 2 show ?thesis by (intro that [of "fi_old_rta s" c]) (simp_all add: state_ops)
  qed
qed

lemma upd_id [simp]: "upd_rte (\<lambda>x. x) s = s" "upd_attrs (\<lambda>x. x) s = s"
proof -
  show *: "upd_rte (\<lambda>x. x) s = s"
    by (cases s; simp add: upd_rte_def option.map_ident split: option.split)
  show "upd_attrs (\<lambda>x. x) s = s" using * by (simp add: upd_attrs_def)
qed

interpretation cow: filter_invariant "cow_inv r" for r :: "('i, 'u) route"
proof
  fix s :: "('i, 'u) fi_state" and g :: "'i rta \<Rightarrow> 'i rta" and n t m
  assume s: "cow_inv r s"
  have caller: "fi_caller s = Some r" if "shared r" using s that by (simp add: cow_inv_def)
  have priv: "cow_inv r (upd_rte h (f_rte_cow s))"
    if "\<And>x. r_flags (h x) = r_flags x \<and> r_attrs (h x) = r_attrs x" for h
  proof (cases "shared r")
    case True
    obtain c where "f_rte_cow s = s\<lparr>fi_copy := Some c\<rparr>" "r_flags c AND REF_COW = 0"
      "a_cached (r_attrs c) \<longrightarrow> r_attrs c = r_attrs r" using cow_copies [OF s True] .
    then show ?thesis using caller [OF True] that by (simp add: cow_inv_def upd_rte_def)
  qed (simp add: cow_inv_def)
  from priv [of "\<lambda>x. x"] show "cow_inv r (f_rte_cow s)"
    by simp
  from priv show "cow_inv r (upd_rte (\<lambda>r. r\<lparr>r_pref := n\<rparr>) (f_rte_cow s))" by simp
  have priv2: "cow_inv r (upd_attrs h (f_rta_cow s))" if "\<And>a. a_cached (h a) = a_cached a" for h
  proof (cases "shared r")
    case True
    obtain c old where "f_rta_cow s = s\<lparr>fi_copy := Some c, fi_old_rta := old\<rparr>" "r_flags c AND REF_COW = 0"
      "\<not> a_cached (r_attrs c)" using cow_private [OF s True] .
    then show ?thesis using caller [OF True] that by (simp add: cow_inv_def upd_attrs_def upd_rte_def)
  qed (simp add: cow_inv_def)
  from priv2 [of "\<lambda>x. x"] show "cow_inv r (f_rta_cow s)"
    by simp
  from priv2 show "cow_inv r (upd_attrs g (f_rta_cow s))" if "\<And>a. a_src (g a) = a_src a \<and> a_cached (g a) = a_cached a"
    using that by simp
  show "cow_inv r (s\<lparr>fi_tmp := t\<rparr>)" "cow_inv r (s\<lparr>fi_vars := m\<rparr>)" using s by (simp_all add: cow_inv_def)
qed

text \<open>What identifies a route: its address, source, sender and time; for a route that is not copied, all flags.\<close>

definition same_route :: "('i, 'u) route \<Rightarrow> ('i, 'u) route \<Rightarrow> bool" where
  "same_route r r' \<longleftrightarrow> r_ref r' = r_ref r \<and> r_sender r' = r_sender r \<and> r_pflags r' = r_pflags r \<and>
     r_lastmod r' = r_lastmod r \<and> r_u r' = r_u r \<and> a_src (r_attrs r') = a_src (r_attrs r) \<and>
     (r_flags r AND REF_COW = 0 \<longrightarrow> r_flags r' = r_flags r)"

definition same_inv :: "('i, 'u) route \<Rightarrow> ('i, 'u) fi_state \<Rightarrow> bool" where
  "same_inv r s \<longleftrightarrow> (\<exists>r'. the_rte s = Some r' \<and> same_route r r')"

lemma the_rte_upd: "the_rte (upd_rte g s) = map_option g (the_rte s)"
  by (simp add: upd_rte_def the_rte_def split: option.split)

lemma the_rte_cow: "the_rte (f_rte_cow s) = map_option rte_cow (the_rte s)"
  by (auto simp: f_rte_cow_def the_rte_def rte_cow_def split: option.split)

lemma the_rte_old: "the_rte (s\<lparr>fi_old_rta := x\<rparr>) = the_rte s"
  by (cases "fi_copy s") (simp_all add: the_rte_def)

lemma the_rte_rta_cow: "the_rte (f_rta_cow s) = map_option rte_cow_rta (the_rte s)"
  by (auto simp: f_rta_cow_def rte_cow_rta_def upd_attrs_def the_rte_upd the_rte_old the_rte_cow rte_cow_def rte_do_cow_def
      split: option.split)

lemmas the_rte_ops = the_rte_upd the_rte_cow the_rte_rta_cow

interpretation same: filter_invariant "same_inv r" for r :: "('i, 'u) route"
proof
  fix s :: "('i, 'u) fi_state" and g :: "'i rta \<Rightarrow> 'i rta" and n t m
  assume "same_inv r s"
  then obtain r' where r': "the_rte s = Some r'" "same_route r r'" by (auto simp: same_inv_def)
  have cow: "same_route r (rte_cow r')" and rta_cow: "same_route r (rte_cow_rta r')"
    using r'(2) by (auto simp: same_route_def rte_cow_def rte_do_cow_def rte_cow_rta_def)
  then show "same_inv r (f_rte_cow s)" "same_inv r (f_rta_cow s)"
    using r'(1) by (simp_all add: same_inv_def the_rte_ops)
  show "same_inv r (upd_rte (\<lambda>r. r\<lparr>r_pref := n\<rparr>) (f_rte_cow s))"
    using r'(1) cow by (simp add: same_inv_def the_rte_ops same_route_def)
  show "same_inv r (upd_attrs g (f_rta_cow s))" if "\<And>a. a_src (g a) = a_src a \<and> a_cached (g a) = a_cached a"
    using r'(1) rta_cow that by (simp add: same_inv_def upd_attrs_def the_rte_ops same_route_def)
  show "same_inv r (s\<lparr>fi_tmp := t\<rparr>)" "same_inv r (s\<lparr>fi_vars := m\<rparr>)"
    using r' by (cases "fi_copy s"; simp add: same_inv_def the_rte_def)+
qed

lemma relookup_keeps:
  assumes "relookup r s = Inr s'" "same_inv r s"
  shows "same_inv r s'"
proof -
  from assms(2) obtain r' where r': "the_rte s = Some r'" "same_route r r'" by (auto simp: same_inv_def)
  then have "same_inv r (upd_attrs rta_normal s)"
    by (simp add: same_inv_def upd_attrs_def the_rte_upd same_route_def rta_normal_def)
  then show ?thesis using assms r'(1) by (auto simp: relookup_def split: if_splits)
qed

text \<open>C23. A filter does not write into a route of a table. Let \<open>r\<close> be read-only (\<open>REF_COW\<close>) with a cached
  attribute block. After \<open>f_run\<close> the object of the caller is unchanged; the resulting route is the same
  route (address, source, sender, time of change, data of the protocol), and its block, if it is still
  a cached one, is the block of \<open>r\<close>: cached blocks, which other routes share, are not changed either.\<close>

theorem f_run_copies:
  assumes "f_run E f r tmp vars = Inr (c, s)" "r_flags r AND REF_COW \<noteq> 0" "a_cached (r_attrs r)"
  shows "fi_caller s = Some r \<and>
    (\<exists>r'. the_rte s = Some r' \<and> same_route r r' \<and> (a_cached (r_attrs r') \<longrightarrow> r_attrs r' = r_attrs r))"
proof -
  let ?s = "fi_start (Some r) tmp vars"
  have start: "cow_inv r ?s" "same_inv r ?s"
    by (simp_all add: cow_inv_def same_inv_def fi_start_def the_rte_def same_route_def)
  have "cow_inv r s \<and> same_inv r s"
  proof (cases f)
    case (FILTER root)
    have "keeps (cow_inv r) (interpret_f E root ?s)" "keeps (same_inv r) (interpret_f E root ?s)"
      using start by (simp_all add: cow.interpret_keeps same.interpret_keeps)
    then show ?thesis using assms(1,2) FILTER
      by (auto simp: f_run_def rbind_Inr_iff keeps_def relookup_def)
  qed (use assms(1) start in \<open>simp_all add: f_run_def\<close>)
  then show ?thesis using assms(2,3)
    by (auto simp: cow_inv_def shared_def same_inv_def the_rte_def split: option.splits)
qed

end
