(* ===== verification/FilterSet.thy ===== *)
theory FilterSet
  imports FilterVal "HOL-Library.Multiset"
begin

text \<open>
  Sets of the filter language. \<open>build_tree\<close> makes a search tree of a list of disjoint intervals, and
  \<open>find_tree\<close> finds the interval that contains a value; for overlapping intervals it does not.
\<close>

section \<open>Three-way comparison\<close>

locale three_way =
  fixes S :: "'a set" and cmp :: "'a \<Rightarrow> 'a \<Rightarrow> int" and key :: "'a \<Rightarrow> int"
  assumes cmp_key: "a \<in> S \<Longrightarrow> b \<in> S \<Longrightarrow> cmp a b = sgn (key a - key b)"
begin

lemma cmp_cases:
  assumes "a \<in> S" "b \<in> S"
  shows "cmp a b = 1 \<longleftrightarrow> key b < key a" "cmp a b = -1 \<longleftrightarrow> key a < key b" "cmp a b \<le> 0 \<longleftrightarrow> key a \<le> key b"
    "cmp a b = 0 \<longleftrightarrow> key a = key b"
  using assms by (auto simp: cmp_key sgn_if)

end

text \<open>The numbers that the values of one type are compared as, if addresses are compared as numbers.\<close>

definition lcomm_key :: "lcomm \<Rightarrow> int" where
  "lcomm_key v = uint (lc_asn v) * 2 ^ 64 + uint (ldp1 v) * 2 ^ 32 + uint (ldp2 v)"

fun val_key :: "('i \<Rightarrow> int) \<Rightarrow> ('i, 'd) f_val \<Rightarrow> int" where
  "val_key k (V_int a) = uint a"
| "val_key k (V_bool a) = uint a"
| "val_key k (V_pair a) = uint a"
| "val_key k (V_quad a) = uint a"
| "val_key k (V_enum _ a) = uint a"
| "val_key k (V_ec a) = uint a"
| "val_key k (V_lc v) = lcomm_key v"
| "val_key k (V_ip a) = k a"
| "val_key k (V_prefix a n) = k a * 2 ^ 32 + uint n"
| "val_key k _ = 0"

fun scalar :: "('i, 'd) f_val \<Rightarrow> bool" where
  "scalar (V_enum t _) = (0x30 \<le> t \<and> t \<le> 0x3f)"
| "scalar (V_int _) = True"
| "scalar (V_bool _) = True"
| "scalar (V_pair _) = True"
| "scalar (V_quad _) = True"
| "scalar (V_ec _) = True"
| "scalar (V_lc _) = True"
| "scalar (V_ip _) = True"
| "scalar (V_prefix _ _) = True"
| "scalar _ = False"

definition ip_numbers :: "('i, 'd) filter_lib \<Rightarrow> ('i \<Rightarrow> int) \<Rightarrow> bool" where
  "ip_numbers L k \<longleftrightarrow> (\<forall>a b. ipa_compare (fl_ip L) a b = sgn (k a - k b))"

definition comparable :: "('i, 'd) filter_lib \<Rightarrow> ('i \<Rightarrow> int) \<Rightarrow> u8 \<Rightarrow> ('i, 'd) f_val set" where
  "comparable L k t = (if ip_numbers L k then {v. f_type v = t \<and> scalar v} else {})"

lemma uint_cmp_sgn: "uint_cmp a b = sgn (uint a - uint b)"
  by (auto simp: uint_cmp_def word_less_def sgn_if)

lemma u64_cmp_sgn: "u64_cmp a b = sgn (uint a - uint b)"
  by (auto simp: u64_cmp_def word_less_def sgn_if)

lemma sgn_lex:
  fixes a b :: int
  assumes "0 \<le> p" "p < m" "0 \<le> q" "q < m"
  shows "sgn ((a * m + p) - (b * m + q)) = (if sgn (a - b) \<noteq> 0 then sgn (a - b) else sgn (p - q))"
proof -
  consider "a < b" | "a = b" | "b < a" by linarith
  then show ?thesis
  proof cases
    case 1
    then have "a + 1 \<le> b" by simp
    then have "(a + 1) * m \<le> b * m" using assms by (intro mult_right_mono) auto
    then have "a * m + m \<le> b * m" by (simp add: distrib_right)
    then show ?thesis using 1 assms by (simp add: sgn_if)
  next
    case 3
    then have "b + 1 \<le> a" by simp
    then have "(b + 1) * m \<le> a * m" using assms by (intro mult_right_mono) auto
    then have "b * m + m \<le> a * m" by (simp add: distrib_right)
    then show ?thesis using 3 assms by (simp add: sgn_if)
  qed simp
qed

lemma uint_range: "0 \<le> uint (x :: u32)" "uint (x :: u32) < 2 ^ 32"
  using uint_lt2p [of x] by simp_all

lemma lcomm_cmp_sgn: "lcomm_cmp a b = sgn (lcomm_key a - lcomm_key b)"
proof -
  let ?k = "\<lambda>v. uint (lc_asn v) * 2 ^ 32 + uint (ldp1 v)"
  have key: "lcomm_key v = ?k v * 2 ^ 32 + uint (ldp2 v)" for v
    by (simp add: lcomm_key_def distrib_right)
  show ?thesis
    unfolding key sgn_lex [OF uint_range uint_range]
    unfolding sgn_lex [OF uint_range uint_range]
    by (auto simp: lcomm_cmp_def word_less_def sgn_if word_uint_eq_iff)
qed

interpretation vals: three_way "comparable L k t" "val_compare L" "val_key k"
  for L :: "('i, 'd) filter_lib" and k t
proof
  fix a b assume "a \<in> comparable L k t" "b \<in> comparable L k t"
  then have ip: "\<forall>x y. ipa_compare (fl_ip L) x y = sgn (k x - k y)"
    and ty: "f_type a = t" "f_type b = t" and sc: "scalar a" "scalar b"
    by (auto simp: comparable_def ip_numbers_def split: if_splits)
  show "val_compare L a b = sgn (val_key k a - val_key k b)"
    using ty sc ip sgn_lex [OF uint_range uint_range]
    by (cases a; cases b)
      (auto simp: val_compare_def same_type_compare_def uint_cmp_sgn u64_cmp_sgn lcomm_cmp_sgn Let_def)
qed

section \<open>Search trees\<close>

fun tree_nodes :: "('i, 'd) f_tree \<Rightarrow> (('i, 'd) f_val \<times> ('i, 'd) f_val \<times> 'd) list" where
  "tree_nodes Tip = []"
| "tree_nodes (Node l f t d r) = tree_nodes l @ (f, t, d) # tree_nodes r"

definition node_item :: "('i, 'd) f_tree \<Rightarrow> ('i, 'd) f_val \<times> ('i, 'd) f_val \<times> 'd" where
  "node_item n = (t_from n, t_to n, t_data n)"

lemma build_tree_rec_nodes:
  "h \<le> length buf \<Longrightarrow> tree_nodes (build_tree_rec buf l h) = map (\<lambda>i. node_item (buf ! i)) [l..<h]"
proof (induction buf l h rule: build_tree_rec.induct)
  case (1 buf l h)
  show ?case
  proof (cases "l < h")
    case True
    let ?p = "(l + h) div 2"
    have p: "l \<le> ?p" "?p < h" using True by auto
    then have "[l..<h] = [l..<?p] @ ?p # [Suc ?p..<h]"
      using upt_add_eq_append [of l ?p "h - ?p"] by (simp add: upt_conv_Cons)
    then show ?thesis
      using 1 True p by (simp add: build_tree_rec.simps [of buf l h] Let_def node_item_def)
  qed (simp add: build_tree_rec.simps [of buf l h])
qed

lemma build_tree_rec_all: "tree_nodes (build_tree_rec buf 0 (length buf)) = map node_item buf"
  unfolding build_tree_rec_nodes [OF order_refl] by (intro nth_equalityI) auto

text \<open>Intervals of comparable values, in order and disjoint.\<close>

definition item_ok :: "('i, 'd) filter_lib \<Rightarrow> ('i \<Rightarrow> int) \<Rightarrow> u8 \<Rightarrow> ('i, 'd) f_val \<times> ('i, 'd) f_val \<times> 'd \<Rightarrow> bool" where
  "item_ok L k t x \<longleftrightarrow> fst x \<in> comparable L k t \<and> fst (snd x) \<in> comparable L k t \<and>
     val_key k (fst x) \<le> val_key k (fst (snd x))"

definition covers :: "('i \<Rightarrow> int) \<Rightarrow> ('i, 'd) f_val \<times> ('i, 'd) f_val \<times> 'd \<Rightarrow> ('i, 'd) f_val \<Rightarrow> bool" where
  "covers k x v \<longleftrightarrow> val_key k (fst x) \<le> val_key k v \<and> val_key k v \<le> val_key k (fst (snd x))"

definition before :: "('i \<Rightarrow> int) \<Rightarrow> ('i, 'd) f_val \<times> ('i, 'd) f_val \<times> 'd \<Rightarrow> ('i, 'd) f_val \<times> ('i, 'd) f_val \<times> 'd \<Rightarrow> bool" where
  "before k x y \<longleftrightarrow> val_key k (fst (snd x)) < val_key k (fst y)"

lemma find_tree_ordered:
  assumes v: "v \<in> comparable L k ty"
  shows "\<lbrakk>list_all (item_ok L k ty) (tree_nodes tr); sorted_wrt (before k) (tree_nodes tr)\<rbrakk> \<Longrightarrow>
    (case find_tree L tr v of Tip \<Rightarrow> \<forall>x \<in> set (tree_nodes tr). \<not> covers k x v
     | Node _ f t d _ \<Rightarrow> (f, t, d) \<in> set (tree_nodes tr) \<and> covers k (f, t, d) v)"
proof (induction tr rule: tree_induct)
  case (Node l f t d r)
  have f: "f \<in> comparable L k ty" "t \<in> comparable L k ty" "val_key k f \<le> val_key k t"
    using Node.prems(1) by (simp_all add: item_ok_def)
  note c = vals.cmp_cases [OF f(1) v] vals.cmp_cases [OF f(2) v]
  have left: "\<forall>x \<in> set (tree_nodes l). val_key k (fst (snd x)) < val_key k f"
    and right: "\<forall>x \<in> set (tree_nodes r). val_key k t < val_key k (fst x)"
    using Node.prems(2) by (auto simp: sorted_wrt_append before_def)
  have IHl: "case find_tree L l v of Tip \<Rightarrow> \<forall>x \<in> set (tree_nodes l). \<not> covers k x v
     | Node _ f t d _ \<Rightarrow> (f, t, d) \<in> set (tree_nodes l) \<and> covers k (f, t, d) v"
    and IHr: "case find_tree L r v of Tip \<Rightarrow> \<forall>x \<in> set (tree_nodes r). \<not> covers k x v
     | Node _ f t d _ \<Rightarrow> (f, t, d) \<in> set (tree_nodes r) \<and> covers k (f, t, d) v"
    using Node.IH Node.prems by (simp_all add: sorted_wrt_append)
  consider "covers k (f, t, d) v" | "val_key k v < val_key k f" | "val_key k t < val_key k v"
    unfolding covers_def by (simp, linarith)
  then show ?case
  proof cases
    case 1
    then have "find_tree L (Node l f t d r) v = Node l f t d r" using c by (simp add: covers_def)
    then show ?thesis using 1 by simp
  next
    case 2
    then have "find_tree L (Node l f t d r) v = find_tree L l v" using c by simp
    moreover have "\<not> covers k x v" if "x \<in> set (tree_nodes r)" for x
      using that right 2 f(3) by (fastforce simp: covers_def)
    ultimately show ?thesis using IHl 2 by (auto simp: covers_def split: f_tree.splits)
  next
    case 3
    then have "find_tree L (Node l f t d r) v = find_tree L r v" using c f(3) by simp
    moreover have "\<not> covers k x v" if "x \<in> set (tree_nodes l)" for x
      using that left 3 f(3) by (fastforce simp: covers_def)
    ultimately show ?thesis using IHr 3 by (auto simp: covers_def split: f_tree.splits)
  qed
qed simp

section \<open>Building the tree\<close>

text \<open>
  What \<open>qsort\<close> promises: a permutation of the array and, if the comparison is that of numbers of the
  elements, a sorted one.
\<close>

definition qsort_ok :: "('i, 'd) filter_lib \<Rightarrow> bool" where
  "qsort_ok L \<longleftrightarrow> (\<forall>c xs. mset (fl_qsort L c xs) = mset xs \<and>
     (\<forall>g :: ('i, 'd) f_tree \<Rightarrow> int. (\<forall>x \<in> set xs. \<forall>y \<in> set xs. c x y = sgn (g x - g y)) \<longrightarrow>
       sorted_wrt (\<lambda>x y. g x \<le> g y) (fl_qsort L c xs)))"

lemma qsort_sorted:
  fixes g :: "('i, 'd) f_tree \<Rightarrow> int"
  assumes "qsort_ok L" "\<And>x y. x \<in> set xs \<Longrightarrow> y \<in> set xs \<Longrightarrow> c x y = sgn (g x - g y)"
  shows "sorted_wrt (\<lambda>x y. g x \<le> g y) (fl_qsort L c xs)"
  using assms(1) [unfolded qsort_ok_def, THEN spec, THEN spec, THEN conjunct2, THEN spec, of xs c g] assms(2) by blast

lemma left_nodes_size: "n \<in> set (left_nodes tr) \<Longrightarrow> size n \<le> size tr"
  by (induction tr rule: tree_induct) auto

lemma distinct_left_nodes: "distinct (left_nodes tr)"
proof (induction tr rule: tree_induct)
  case (Node l f t d r)
  have "Node l f t d r \<notin> set (left_nodes l)" using left_nodes_size by fastforce
  then show ?case using Node by simp
qed simp

definition disjoint_items :: "('i, 'd) filter_lib \<Rightarrow> ('i \<Rightarrow> int) \<Rightarrow> u8 \<Rightarrow> ('i, 'd) f_tree list \<Rightarrow> bool" where
  "disjoint_items L k t ns \<longleftrightarrow> (\<forall>n \<in> set ns. item_ok L k t (node_item n)) \<and>
     (\<forall>n \<in> set ns. \<forall>m \<in> set ns. n \<noteq> m \<longrightarrow>
        before k (node_item n) (node_item m) \<or> before k (node_item m) (node_item n))"

lemma sorted_disjoint:
  assumes "sorted_wrt (\<lambda>x y. val_key k (t_from x) \<le> val_key k (t_from y)) ns" "distinct ns" "disjoint_items L k t ns"
  shows "sorted_wrt (before k) (map node_item ns)"
  using assms
proof (induction ns)
  case (Cons n ns)
  have "before k (node_item n) (node_item m)" if "m \<in> set ns" for m
  proof -
    have "n \<noteq> m" "val_key k (t_from n) \<le> val_key k (t_from m)" "val_key k (t_from m) \<le> val_key k (t_to m)"
      using Cons.prems that by (auto simp: disjoint_items_def item_ok_def node_item_def)
    then have "\<not> before k (node_item m) (node_item n)" by (simp add: before_def node_item_def)
    then show ?thesis using Cons.prems(3) that \<open>n \<noteq> m\<close> by (auto simp: disjoint_items_def)
  qed
  then show ?case using Cons by (auto simp: disjoint_items_def)
qed simp

lemma build_tree_nodes:
  assumes "qsort_ok L" "disjoint_items L k t (left_nodes items)"
  shows "set (tree_nodes (build_tree L items)) = node_item ` set (left_nodes items)"
    and "sorted_wrt (before k) (tree_nodes (build_tree L items))"
    and "list_all (item_ok L k t) (tree_nodes (build_tree L items))"
proof -
  let ?buf = "fl_qsort L (tree_compare L) (left_nodes items)"
  have perm: "mset ?buf = mset (left_nodes items)" using assms(1) by (simp add: qsort_ok_def)
  then have s: "set ?buf = set (left_nodes items)" "distinct ?buf"
    using distinct_left_nodes mset_eq_setD mset_eq_imp_distinct_iff by metis+
  have "tree_compare L x y = sgn (val_key k (t_from x) - val_key k (t_from y))"
    if "x \<in> set (left_nodes items)" "y \<in> set (left_nodes items)" for x y
    using assms(2) that vals.cmp_key [of "t_from x" L k t "t_from y"]
    by (auto simp: tree_compare_def disjoint_items_def item_ok_def node_item_def)
  then have sorted: "sorted_wrt (\<lambda>x y. val_key k (t_from x) \<le> val_key k (t_from y)) ?buf"
    by (rule qsort_sorted [OF assms(1)])
  have dis: "disjoint_items L k t ?buf" using assms(2) by (simp add: disjoint_items_def s(1))
  have nodes: "tree_nodes (build_tree L items) = map node_item ?buf"
  proof (cases "items = Tip")
    case True
    then have "?buf = []" using perm by simp
    then show ?thesis using True by (simp add: build_tree_def)
  qed (simp add: build_tree_def build_tree_rec_all Let_def)
  show "set (tree_nodes (build_tree L items)) = node_item ` set (left_nodes items)" by (simp add: nodes s(1))
  show "sorted_wrt (before k) (tree_nodes (build_tree L items))"
    unfolding nodes by (rule sorted_disjoint [OF sorted s(2) dis])
  show "list_all (item_ok L k t) (tree_nodes (build_tree L items))"
    using assms(2) by (simp add: nodes list_all_iff s(1) disjoint_items_def)
qed

text \<open>C37. Sets of the filter language and \<open>switch\<close>. Let \<open>items\<close> be the intervals that the parser chained,
  all of one type that has a comparison (integers, pairs, quads, enumerations, communities, addresses or
  prefixes), none empty and no two overlapping. Then \<open>find_tree\<close> in the tree that \<open>build_tree\<close> makes of
  them returns nothing if and only if no interval contains the value, and else the node of an interval
  that contains it, with its payload.\<close>

theorem find_tree_build_tree:
  assumes "qsort_ok L" "disjoint_items L k t (left_nodes items)" "v \<in> comparable L k t"
  shows "case find_tree L (build_tree L items) v of
      Tip \<Rightarrow> \<forall>n \<in> set (left_nodes items). \<not> covers k (node_item n) v
    | Node _ f u d _ \<Rightarrow> \<exists>n \<in> set (left_nodes items). node_item n = (f, u, d) \<and> covers k (node_item n) v"
  using find_tree_ordered [OF assms(3) build_tree_nodes(3,2) [OF assms(1,2)]]
  unfolding build_tree_nodes(1) [OF assms(1,2)] by (auto split: f_tree.splits)

fun ins_by :: "('a \<Rightarrow> 'a \<Rightarrow> int) \<Rightarrow> 'a \<Rightarrow> 'a list \<Rightarrow> 'a list" where
  "ins_by c x [] = [x]"
| "ins_by c x (y # ys) = (if c x y \<le> 0 then x # y # ys else y # ins_by c x ys)"

fun words_of :: "u8 list \<Rightarrow> u32 list" where
  "words_of (a # b # c # d # r) = get_u32 network_order [a, b, c, d] # words_of r"
| "words_of _ = []"

definition demo_lib :: "(u32, 'd) filter_lib" where
  "demo_lib = \<lparr>fl_ip = ip4_ops, fl_unaligned = network_order, fl_quad = Some (\<lambda>a. a),
     fl_in_net = (\<lambda>_ _ _. False), fl_net_in_net = (\<lambda>_ _ _ _. False),
     fl_strcmp = (\<lambda>a b. if a = b then 0 else 1), fl_patmatch = (=),
     fl_qsort = (\<lambda>c xs. foldr (ins_by c) xs []), fl_words = words_of, fl_bytes = (\<lambda>l. concat (map (put_u32 network_order) l)),
     fl_addr = get_u32 network_order, fl_addr_bytes = put_u32 network_order\<rparr>"

lemma ins_by_mset: "mset (ins_by c x xs) = add_mset x (mset xs)"
  by (induction xs) auto

lemma ins_by_sorted:
  fixes g :: "'a \<Rightarrow> int"
  assumes "\<forall>y \<in> set xs. c x y = sgn (g x - g y)" "sorted_wrt (\<lambda>x y. g x \<le> g y) xs"
  shows "sorted_wrt (\<lambda>x y. g x \<le> g y) (ins_by c x xs)"
  using assms
proof (induction xs)
  case (Cons y ys)
  have "set (ins_by c x ys) = insert x (set ys)" using arg_cong [OF ins_by_mset [of c x ys], of set_mset] by simp
  then show ?case using Cons by (force simp: sgn_if split: if_splits)
qed simp

lemma demo_lib_ok: "qsort_ok (demo_lib :: (u32, 'd) filter_lib)"
proof -
  have m: "mset (foldr (ins_by c) xs []) = mset xs" for c and xs :: "(u32, 'd) f_tree list"
    by (induction xs) (simp_all add: ins_by_mset)
  have "sorted_wrt (\<lambda>x y. g x \<le> g y) (foldr (ins_by c) xs [])"
    if "\<forall>x \<in> set xs. \<forall>y \<in> set xs. c x y = sgn (g x - g y)" for c g and xs :: "(u32, 'd) f_tree list"
    using that
  proof (induction xs)
    case (Cons x xs)
    then show ?case using ins_by_sorted [of "foldr (ins_by c) xs []" c x g] mset_eq_setD [OF m [of c xs]] by auto
  qed simp
  with m show ?thesis by (auto simp: qsort_ok_def demo_lib_def)
qed

fun int_items :: "(u32 \<times> u32) list \<Rightarrow> (u32, unit) f_tree" where
  "int_items [] = Tip"
| "int_items ((a, b) # xs) = Node (int_items xs) (V_int a) (V_int b) () Tip"

theorem find_tree_build_tree_witness:
  "case find_tree demo_lib (build_tree demo_lib (int_items [(20, 30), (1, 10)])) (V_int 7) of
      Tip \<Rightarrow> \<forall>n \<in> set (left_nodes (int_items [(20, 30), (1, 10)])). \<not> covers uint (node_item n) (V_int 7)
    | Node _ f u d _ \<Rightarrow> \<exists>n \<in> set (left_nodes (int_items [(20, 30), (1, 10)])).
        node_item n = (f, u, d) \<and> covers uint (node_item n) (V_int 7)"
proof (rule find_tree_build_tree [OF demo_lib_ok, where t = "0x10"])
  have ip: "ip_numbers demo_lib uint"
    by (auto simp: ip_numbers_def demo_lib_def word_less_def sgn_if word_uint_eq_iff)
  show "V_int 7 \<in> comparable demo_lib uint 0x10" using ip by (simp add: comparable_def)
  show "disjoint_items demo_lib uint 0x10 (left_nodes (int_items [(20, 30), (1, 10)]))"
    using ip by (auto simp: disjoint_items_def item_ok_def node_item_def before_def comparable_def)
qed

text \<open>Overlapping intervals in a set lose members: 7 is in \<open>[1..10]\<close>, but not in the set
  \<open>[1..10, 2..3, 4..5]\<close>.\<close>

theorem find_tree_overlap:
  "\<not> in_tree demo_lib (build_tree demo_lib (int_items [(1, 10), (2, 3), (4, 5)])) (V_int 7)"
  by (simp add: in_tree_def build_tree_def demo_lib_def tree_compare_def val_compare_def same_type_compare_def
      uint_cmp_def build_tree_rec.simps Let_def)

end
