(* ===== verification/FilterAttr.thy ===== *)
theory FilterAttr
  imports FilterCow FilterSet
begin

text \<open>
  Attributes in filters: an assignment followed by an access, the attributes that an assignment does
  not touch, and the cases where an attribute is not seen.
\<close>

section \<open>Assignment and access\<close>

text \<open>The layout of words and addresses in memory can be read back.\<close>

definition host_layout :: "'i flib \<Rightarrow> bool" where
  "host_layout L \<longleftrightarrow> (\<forall>l. fl_words L (fl_bytes L l) = l) \<and> (\<forall>a. fl_addr L (fl_addr_bytes L a) = a)"

text \<open>The values that an attribute of a type has.\<close>

definition value_fits :: "u8 \<Rightarrow> 'i fval \<Rightarrow> bool" where
  "value_fits ty v =
     (case v of
        V_int _ \<Rightarrow> ty = EAF_TYPE_INT
      | V_quad _ \<Rightarrow> ty = EAF_TYPE_ROUTER_ID
      | V_ip _ \<Rightarrow> ty = EAF_TYPE_IP_ADDRESS
      | V_path _ \<Rightarrow> ty = EAF_TYPE_AS_PATH
      | V_clist l \<Rightarrow> ty = EAF_TYPE_INT_SET \<and> l \<noteq> None
      | V_eclist l \<Rightarrow> ty = EAF_TYPE_EC_SET \<and> l \<noteq> None
      | V_lclist l \<Rightarrow> ty = EAF_TYPE_LC_SET \<and> l \<noteq> None
      | _ \<Rightarrow> False)"

lemma code_masks:
  "ucast ((ucast (c :: u16) :: u32) AND EA_CODE_MASK) = c" "(ucast (c :: u16) :: u32) AND EA_ALLOW_UNDEF = 0"
proof -
  have m: "EA_CODE_MASK = mask 16" "EA_ALLOW_UNDEF = 2 ^ 16"
    by (simp_all add: EA_CODE_MASK_def EA_ALLOW_UNDEF_def mask_eq_exp_minus_1)
  show "ucast ((ucast c :: u32) AND EA_CODE_MASK) = c"
    by (rule bit_word_eqI) (auto simp: m(1) bit_simps)
  show "(ucast c :: u32) AND EA_ALLOW_UNDEF = 0"
    unfolding m(2) and_exp_eq_0_iff_not_bit by (auto simp: bit_unsigned_iff dest: bit_imp_le_length)
qed

lemma ea_find_new:
  "ea_find (\<lparr>eal_flags = EALF_SORTED, eal_attrs = [a]\<rparr> # l) (ucast c) =
     (if ea_id a = c then if is_undef a then None else Some a else ea_find l (ucast c))"
  by (simp add: ea_find_def bisect_def EALF_SORTED_def EALF_BISECT_def code_masks)

definition new_attr :: "u16 \<Rightarrow> u8 \<Rightarrow> eavalue \<Rightarrow> eattr" where
  "new_attr code aux d = \<lparr>ea_id = code, ea_flags = 0, ea_type = aux OR EAF_ORIGINATED, ea_u = d\<rparr>"

lemma new_attr_id [simp]: "ea_id (new_attr code aux d) = code" "ea_u (new_attr code aux d) = d"
  by (simp_all add: new_attr_def)

lemma new_attr_undef: "is_undef (new_attr code aux d) \<longleftrightarrow> aux AND EAF_TYPE_MASK = EAF_TYPE_UNDEF"
proof -
  have "(aux OR EAF_ORIGINATED) AND EAF_TYPE_MASK = aux AND EAF_TYPE_MASK"
    by (simp add: bit.conj_disj_distrib2 EAF_ORIGINATED_def EAF_TYPE_MASK_def)
  then show ?thesis by (simp add: is_undef_def new_attr_def)
qed

text \<open>A value that fits is stored as it is, and what is stored is read back as that value.\<close>

lemma stored_value:
  assumes "value_fits (aux AND EAF_TYPE_MASK) v" "host_layout (fe_lib E)"
  obtains d where "ea_set_value E r tmp aux a2 v = Inr (Some d)" "aux AND EAF_TYPE_MASK \<noteq> EAF_TYPE_UNDEF"
    "\<And>e. ea_u e = d \<Longrightarrow> ea_get_value (fe_lib E) (aux AND EAF_TYPE_MASK) a2' e = Inr v"
proof -
  note defs = ea_set_value_def ea_get_value_def Let_def EAF_TYPE_INT_def EAF_TYPE_ROUTER_ID_def
    EAF_TYPE_OPAQUE_def EAF_TYPE_IP_ADDRESS_def EAF_TYPE_AS_PATH_def EAF_TYPE_BITFIELD_def EAF_TYPE_INT_SET_def
    EAF_TYPE_EC_SET_def EAF_TYPE_LC_SET_def EAF_TYPE_UNDEF_def u_data_def u_ptr_def list_ptr_def
  have h: "fl_words (fe_lib E) (fl_bytes (fe_lib E) l) = l" "fl_addr (fe_lib E) (fl_addr_bytes (fe_lib E) a) = a" for l a
    using assms(2) by (simp_all add: host_layout_def)
  show thesis
  proof (cases v)
    case (V_int n)
    with assms(1) show thesis by (intro that [of "Data n"]) (simp_all add: value_fits_def defs)
  next
    case (V_quad n)
    with assms(1) show thesis by (intro that [of "Data n"]) (simp_all add: value_fits_def defs)
  next
    case (V_ip a)
    with assms(1) show thesis by (intro that [of "Ptr (fl_addr_bytes (fe_lib E) a)"]) (simp_all add: value_fits_def defs h)
  next
    case (V_path p)
    with assms(1) show thesis by (intro that [of "Ptr p"]) (simp_all add: value_fits_def defs)
  next
    case (V_clist l)
    with assms(1) show thesis
      by (intro that [of "Ptr (fl_bytes (fe_lib E) (the l))"]) (auto simp: value_fits_def defs h)
  next
    case (V_eclist l)
    with assms(1) show thesis
      by (intro that [of "Ptr (fl_bytes (fe_lib E) (the l))"]) (auto simp: value_fits_def defs h)
  next
    case (V_lclist l)
    with assms(1) show thesis
      by (intro that [of "Ptr (fl_bytes (fe_lib E) (the l))"]) (auto simp: value_fits_def defs h)
  qed (use assms(1) in \<open>simp_all add: value_fits_def\<close>)
qed

definition visible :: "'i filter_env \<Rightarrow> ('i, 'u) fi_state \<Rightarrow> u8 \<Rightarrow> u32 \<Rightarrow> 'i fval res option" where
  "visible E s aux a2 = map_option (\<lambda>r. ea_get E r (fi_tmp s) aux a2) (the_rte s)"

lemma rte_cow_rta_eattrs: "a_eattrs (r_attrs (rte_cow_rta r)) = a_eattrs (r_attrs r)"
  by (simp add: rte_cow_rta_def rte_cow_def rte_do_cow_def)

text \<open>Where an assignment puts the new attribute, in terms of what \<open>find_attr\<close> finds.\<close>

lemma ea_set_find:
  assumes "the_rte s = Some r" "ea_set_value E r (fi_tmp s) aux a2 v = Inr (Some d)"
    "aux AND EAF_TYPE_MASK \<noteq> EAF_TYPE_UNDEF"
    "aux AND EAF_TEMP = 0 \<or> fe_force_tmp E \<or> ea_find (a_eattrs (r_attrs r)) (ucast (ucast a2 :: u16)) = None"
  obtains s' r' where "ea_set E r aux a2 v s = Inr (Val V_void, s')" "the_rte s' = Some r'"
    "\<And>c. find_attr E r' (fi_tmp s') c =
       (if c = ucast a2 then Some (new_attr c aux d) else find_attr E r (fi_tmp s) c)"
proof (cases "aux AND EAF_TEMP = 0 \<and> \<not> fe_force_tmp E")
  case True
  let ?l = "\<lparr>eal_flags = EALF_SORTED, eal_attrs = [new_attr (ucast a2) aux d]\<rparr>"
  let ?g = "\<lambda>a. a\<lparr>a_eattrs := ?l # a_eattrs a\<rparr>"
  let ?s' = "upd_attrs ?g (f_rta_cow s)"
  show thesis
  proof (rule that)
    show "ea_set E r aux a2 v s = Inr (Val V_void, ?s')"
      using True assms(2) by (simp add: ea_set_def new_attr_def Let_def)
    show "the_rte ?s' = Some ((rte_cow_rta r)\<lparr>r_attrs := ?g (r_attrs (rte_cow_rta r))\<rparr>)"
      using assms(1) by (simp add: upd_attrs_def the_rte_ops)
    have tmp: "fi_tmp ?s' = fi_tmp s"
      by (simp add: upd_attrs_def upd_rte_def f_rta_cow_def f_rte_cow_def split: option.split)
    show "find_attr E ((rte_cow_rta r)\<lparr>r_attrs := ?g (r_attrs (rte_cow_rta r))\<rparr>) (fi_tmp ?s') c =
        (if c = ucast a2 then Some (new_attr c aux d) else find_attr E r (fi_tmp s) c)" for c
      using True assms(3) unfolding tmp
      by (simp add: find_attr_def ea_find_new new_attr_undef rte_cow_rta_eattrs Let_def)
  qed
next
  case False
  let ?l = "\<lparr>eal_flags = EALF_SORTED, eal_attrs = [new_attr (ucast a2) aux d]\<rparr>"
  show thesis
  proof (rule that)
    show "ea_set E r aux a2 v s = Inr (Val V_void, s\<lparr>fi_tmp := ?l # fi_tmp s\<rparr>)"
      using False assms(2) by (auto simp: ea_set_def new_attr_def Let_def)
    show "the_rte (s\<lparr>fi_tmp := ?l # fi_tmp s\<rparr>) = Some r" using assms(1) by (cases "fi_copy s") (simp_all add: the_rte_def)
    show "find_attr E r (fi_tmp (s\<lparr>fi_tmp := ?l # fi_tmp s\<rparr>)) c =
        (if c = ucast a2 then Some (new_attr c aux d) else find_attr E r (fi_tmp s) c)" for c
      using False assms(3,4)
      by (auto simp: find_attr_def ea_find_new new_attr_undef Let_def)
  qed
qed

text \<open>C36. Attributes of a route in filters. Let a filter assign a value that fits the type of the attribute,
  where the attribute is not one of the temporary ones that are searched after the attributes of the
  route. Then a later access gives the value back, and every attribute with another code has the value
  that it had before.\<close>

theorem ea_set_then_get:
  assumes "the_rte s = Some r" "value_fits (aux AND EAF_TYPE_MASK) v" "host_layout (fe_lib E)"
    "aux AND EAF_TEMP = 0 \<or> fe_force_tmp E \<or> ea_find (a_eattrs (r_attrs r)) (ucast (ucast a2 :: u16)) = None"
  shows "\<exists>s'. interp_inst E (FI_EA_SET aux a2 [FI_CONSTANT v]) s = Inr (Val V_void, s') \<and>
     interpret_f E [FI_EA_GET aux a2] s' = Inr (Val v, s') \<and>
     (\<forall>aux' b2. (ucast b2 :: u16) \<noteq> ucast a2 \<longrightarrow> visible E s' aux' b2 = visible E s aux' b2)"
proof -
  obtain d where d: "ea_set_value E r (fi_tmp s) aux a2 v = Inr (Some d)" "aux AND EAF_TYPE_MASK \<noteq> EAF_TYPE_UNDEF"
    "\<And>e. ea_u e = d \<Longrightarrow> ea_get_value (fe_lib E) (aux AND EAF_TYPE_MASK) a2 e = Inr v"
    by (rule stored_value [OF assms(2,3), where r = r and tmp = "fi_tmp s" and ?a2.0 = a2 and a2' = a2]) blast
  obtain s' r' where s': "ea_set E r aux a2 v s = Inr (Val V_void, s')" "the_rte s' = Some r'"
    and f: "\<And>c. find_attr E r' (fi_tmp s') c =
       (if c = ucast a2 then Some (new_attr c aux d) else find_attr E r (fi_tmp s) c)"
    by (rule ea_set_find [OF assms(1) d(1,2) assms(4)]) blast
  show ?thesis
  proof (intro exI conjI allI impI)
    show "interp_inst E (FI_EA_SET aux a2 [FI_CONSTANT v]) s = Inr (Val V_void, s')"
      using s'(1) assms(1) by (simp add: access_rte_def arg_def)
    have "ea_get E r' (fi_tmp s') aux a2 = Inr v" using d(3) by (simp add: ea_get_def f new_attr_def)
    then show "interpret_f E [FI_EA_GET aux a2] s' = Inr (Val v, s')" using s'(2) by (simp add: access_rte_def)
    show "visible E s' aux' b2 = visible E s aux' b2" if "(ucast b2 :: u16) \<noteq> ucast a2" for aux' b2
      using that s'(2) assms(1) by (simp add: visible_def ea_get_def f)
  qed
qed

section \<open>Examples\<close>

definition demo_filter_env :: "bool \<Rightarrow> u32 filter_env" where
  "demo_filter_env force =
     \<lparr>fe_lib = demo_lib, fe_net = (0x0a000000, 8), fe_proto_name = (\<lambda>_. []), fe_iface_name = (\<lambda>_. []),
      fe_neigh = (\<lambda>_ _. None), fe_scope_host = 0, fe_roa = (\<lambda>_. Some (\<lambda>_ _ _. 1)), fe_force_tmp = force\<rparr>"

definition demo_filter_route :: "u8 \<Rightarrow> ea_seg list \<Rightarrow> (u32, unit) route" where
  "demo_filter_route flags ea =
     \<lparr>r_ref = 1, r_sender = 0,
      r_attrs = \<lparr>a_src = 0, a_source = 11, a_scope = 0, a_cast = 0, a_dest = RTD_ROUTER, a_flags = 0,
        a_igp_metric = 0, a_gw = 1, a_from = 1, a_hostentry = None, a_iface = \<lparr>if_ref = 1, if_index = 1\<rparr>,
        a_nexthops = [], a_eattrs = ea, a_cached = True\<rparr>,
      r_flags = flags, r_pflags = 0, r_pref = 100, r_lastmod = 0, r_u = ()\<rparr>"

lemma words_of_put: "words_of (put_u32 network_order w @ r) = w # words_of r"
proof -
  have "\<exists>a b c d. l = [a, b, c, d]" if "length l = 4" for l :: "u8 list"
    using that by (auto simp: length_Suc_conv numeral_eq_Suc)
  then obtain a b c d where p: "put_u32 network_order w = [a, b, c, d]"
    using net.length_put_u32 [of w] by blast
  then show ?thesis using net.get_put_u32 [of w] by simp
qed

lemma demo_layout: "host_layout demo_lib"
proof -
  have "words_of (concat (map (put_u32 network_order) l)) = l" for l
    by (induction l) (simp_all add: words_of_put)
  then show ?thesis by (simp add: host_layout_def demo_lib_def net.get_put_u32)
qed

text \<open>\<open>bgp_local_pref = 200\<close> and then the value of \<open>bgp_local_pref\<close>.\<close>

abbreviation lpref_code :: u32 where "lpref_code \<equiv> 0x0105"

theorem ea_set_then_get_witness:
  "\<exists>s'. interp_inst (demo_filter_env False) (FI_EA_SET EAF_TYPE_INT lpref_code [FI_CONSTANT (V_int 200)])
       (fi_start (Some (demo_filter_route 1 [])) [] (\<lambda>_. V_void)) = Inr (Val V_void, s') \<and>
     interpret_f (demo_filter_env False) [FI_EA_GET EAF_TYPE_INT lpref_code] s' = Inr (Val (V_int 200), s') \<and>
     (\<forall>aux' b2. (ucast b2 :: u16) \<noteq> ucast lpref_code \<longrightarrow> visible (demo_filter_env False) s' aux' b2 =
        visible (demo_filter_env False) (fi_start (Some (demo_filter_route 1 [])) [] (\<lambda>_. V_void)) aux' b2)"
  by (rule ea_set_then_get [where r = "demo_filter_route 1 []"])
    (simp_all add: demo_filter_env_def demo_layout fi_start_def the_rte_def value_fits_def EAF_TYPE_INT_def
      EAF_TYPE_MASK_def EAF_TEMP_def)

text \<open>\<open>bgp_local_pref = 200; preference = 50; accept\<close> on a route of a table.\<close>

definition demo_filter :: "u32 filter_prog" where
  "demo_filter = FILTER [FI_EA_SET EAF_TYPE_INT lpref_code [FI_CONSTANT (V_int 200)],
     FI_PREF_SET [FI_CONSTANT (V_int 50)], FI_PRINT_AND_DIE [] F_ACCEPT]"

lemmas filter_demo_simps = f_run_def demo_filter_env_def fi_start_def the_rte_def demo_filter_route_def arg_def
  access_rte_def ea_set_def ea_set_value_def f_rta_cow_def upd_attrs_def upd_rte_def f_rte_cow_def rte_do_cow_def
  REF_COW_def pref_set_def print_and_die_def relookup_def EAF_TEMP_def EAF_TYPE_INT_def EAF_TYPE_MASK_def Let_def
  ea_get_def find_attr_def ea_get_value_def op1_run_def done_with_def of_bool32_def u_data_def ea_find_def bisect_def
  EALF_SORTED_def EALF_BISECT_def EA_CODE_MASK_def is_undef_def EAF_TYPE_UNDEF_def EAF_ORIGINATED_def
  EAF_TYPE_ROUTER_ID_def EAF_TYPE_OPAQUE_def EAF_TYPE_IP_ADDRESS_def EAF_TYPE_AS_PATH_def EAF_TYPE_BITFIELD_def
  EAF_TYPE_INT_SET_def EAF_TYPE_EC_SET_def EAF_TYPE_LC_SET_def

lemma demo_filter_run:
  "rmap (\<lambda>(c, s). (c, map_option r_pref (the_rte s)))
     (f_run (demo_filter_env False) demo_filter (demo_filter_route 1 []) [] (\<lambda>_. V_void)) = Inr (F_ACCEPT, Some 50)"
  by (simp add: filter_demo_simps demo_filter_def)

text \<open>\<open>unset\<close> (\<open>EAF_TYPE_UNDEF | EAF_TEMP\<close>, as the parser makes it) of an attribute of the route puts
  its mark into the temporary attributes, which are searched last when the filter is not forced to use
  them: in an import filter the attribute is still defined after \<open>unset(bgp_local_pref)\<close>.\<close>

theorem unset_without_effect:
  "rmap fst (interpret_f (demo_filter_env False)
     [FI_EA_SET EAF_TYPE_INT lpref_code [FI_CONSTANT (V_int 200)],
      FI_EA_SET (EAF_TYPE_UNDEF OR EAF_TEMP) lpref_code [],
      FI_op1 FI_DEFINED 0 [FI_EA_GET EAF_TYPE_INT lpref_code]]
     (fi_start (Some (demo_filter_route 1 [])) [] (\<lambda>_. V_void))) = Inr (Val (V_bool 1))"
  by (simp add: filter_demo_simps demo_filter_def)

theorem f_run_copies_witness:
  "\<exists>c s. f_run (demo_filter_env False) demo_filter (demo_filter_route 1 []) [] (\<lambda>_. V_void) = Inr (c, s) \<and>
     fi_caller s = Some (demo_filter_route 1 []) \<and>
     (\<exists>r'. the_rte s = Some r' \<and> same_route (demo_filter_route 1 []) r' \<and>
       (a_cached (r_attrs r') \<longrightarrow> r_attrs r' = r_attrs (demo_filter_route 1 [])))"
proof -
  obtain c s where run: "f_run (demo_filter_env False) demo_filter (demo_filter_route 1 []) [] (\<lambda>_. V_void) = Inr (c, s)"
    using demo_filter_run by (auto simp: rmap_Inr_iff)
  have "fi_caller s = Some (demo_filter_route 1 []) \<and>
     (\<exists>r'. the_rte s = Some r' \<and> same_route (demo_filter_route 1 []) r' \<and>
       (a_cached (r_attrs r') \<longrightarrow> r_attrs r' = r_attrs (demo_filter_route 1 [])))"
    by (rule f_run_copies [OF run]) (simp_all add: demo_filter_route_def REF_COW_def)
  with run show ?thesis by blast
qed

text \<open>
  \<open>roa_check\<close> without arguments compares the whole type of the path attribute, with its flags. A path that
  the filter itself assigned has the flag \<open>EAF_ORIGINATED\<close>, and the check ends in a runtime error.
\<close>

definition path_attr :: eattr where
  "path_attr = \<lparr>ea_id = 0x0102, ea_flags = 0, ea_type = EAF_TYPE_AS_PATH, ea_u = Ptr [2, 1, 0, 0, 0, 5]\<rparr>"

definition path_route :: "(u32, unit) route" where
  "path_route = demo_filter_route 1 [\<lparr>eal_flags = EALF_SORTED, eal_attrs = [path_attr]\<rparr>]"

lemma roa_check_after_assignment:
  "rmap fst (interpret_f (demo_filter_env False) [FI_ROA_CHECK None []]
     (fi_start (Some path_route) [] (\<lambda>_. V_void))) = Inr (Val (V_enum 0x35 1))"
  "rmap fst (interpret_f (demo_filter_env False)
     [FI_EA_SET EAF_TYPE_AS_PATH 0x0102 [FI_EA_GET EAF_TYPE_AS_PATH 0x0102], FI_ROA_CHECK None []]
     (fi_start (Some path_route) [] (\<lambda>_. V_void))) = Inr (Exit F_ERROR)"
  by (simp_all add: filter_demo_simps path_route_def path_attr_def roa_check_route_def ea_find_bgp_def EA_CODE_def
      EAP_BGP_def u_ptr_def runtime_def as_path_get_last_def rd_u32_def roa_result_def demo_lib_def BS_def
      AS_PATH_SET_def AS_PATH_SEQUENCE_def network_order_def be_value_def)

end
