(* ===== verification/Fib.thy ===== *)
theory Fib
  imports Lib_Interfaces
begin

text \<open>
  The hash table of network prefixes (\<open>nest/rt-fib.c\<close>): chains ordered by unique identifiers, growing
  and shrinking, longest match, and the iterators that survive changes of the table.
\<close>

section \<open>Nodes and tables\<close>

text \<open>
  \<open>readers\<close> is the list of the iterators that are suspended at a node; an iterator is a number. The
  pointers between iterators and nodes are not modelled: an iterator is suspended at the node that has it
  in this list, and at the end when no node has it. \<open>fn_data\<close> is what follows the header of a node.
\<close>

record ('i, 'd) fib_node =
  fn_prefix :: 'i
  fn_pxlen :: u8
  fn_uid :: u32
  fn_readers :: "nat list"
  fn_data :: 'd

record ('i, 'd) fib =
  hash_table :: "('i, 'd) fib_node list list"
  hash_order :: nat
  entries :: u32
  entries_min :: u32
  entries_max :: u32

definition HASH_DEF_ORDER :: nat where "HASH_DEF_ORDER = 10"
definition HASH_HI_STEP :: nat where "HASH_HI_STEP = 2"
definition HASH_HI_MAX :: nat where "HASH_HI_MAX = 16"
definition HASH_LO_STEP :: nat where "HASH_LO_STEP = 2"
definition HASH_LO_MIN :: nat where "HASH_LO_MIN = 10"

abbreviation hash_size :: "('i, 'd) fib \<Rightarrow> nat" where "hash_size f \<equiv> 2 ^ hash_order f"

text \<open>The sizes and limits of a table of the given order; the chains are allocated, but not filled.\<close>

definition fib_ht_alloc :: "nat \<Rightarrow> ('i, 'd) fib \<Rightarrow> ('i, 'd) fib" where
  "fib_ht_alloc ord f =
     f\<lparr>hash_order := ord,
       entries_max := (if ord > HASH_HI_MAX - HASH_HI_STEP then - 1 else of_nat (2 ^ ord * 4)),
       entries_min := (if ord < HASH_LO_MIN + HASH_LO_STEP then 0 else of_nat (2 ^ ord div 5))\<rparr>"

text \<open>\<open>hash_shift\<close> is \<open>16 - hash_order\<close>.\<close>

definition fib_hash :: "'i ip_ops \<Rightarrow> nat \<Rightarrow> 'i \<Rightarrow> nat" where
  "fib_hash I ord a = unat (drop_bit (16 - ord) (ipa_hash I a))"

definition fib_init :: "nat \<Rightarrow> ('i, 'd) fib" where
  "fib_init ord =
     (let ord = (if ord = 0 then HASH_DEF_ORDER else ord);
          f = fib_ht_alloc ord \<lparr>hash_table = [], hash_order = 0, entries = 0, entries_min = 0, entries_max = 0\<rparr>
      in f\<lparr>hash_table := replicate (2 ^ ord) [], entries_min := 0\<rparr>)"

text \<open>
  \<open>fib_rehash\<close> walks over all nodes and fills the new chains one after the other: the chains finished,
  the chain at index \<open>ni\<close> so far, and \<open>ni\<close>.
\<close>

type_synonym ('i, 'd) fill = "('i, 'd) fib_node list list \<times> ('i, 'd) fib_node list \<times> nat"

function skip_to :: "nat \<Rightarrow> ('i, 'd) fill \<Rightarrow> ('i, 'd) fill" where
  "skip_to nh (cs, t, ni) = (if nh > ni then skip_to nh (cs @ [t], [], Suc ni) else (cs, t, ni))"
  by pat_completeness auto
termination
  by (relation "measure (\<lambda>(nh, _, _, ni). nh - ni)") auto

declare skip_to.simps [simp del]

definition rehash_node :: "'i ip_ops \<Rightarrow> nat \<Rightarrow> ('i, 'd) fib_node \<Rightarrow> ('i, 'd) fill \<Rightarrow> ('i, 'd) fill" where
  "rehash_node I ord e st =
     (case skip_to (fib_hash I ord (fn_prefix e)) st of (cs, t, ni) \<Rightarrow> (cs, t @ [e], ni))"

definition fib_rehash :: "'i ip_ops \<Rightarrow> nat \<Rightarrow> ('i, 'd) fib \<Rightarrow> ('i, 'd) fib" where
  "fib_rehash I ord f =
     (let st = fold (rehash_node I ord) (concat (hash_table f)) ([], [], 0)
      in (fib_ht_alloc ord f)\<lparr>hash_table := fst (skip_to (2 ^ ord) st)\<rparr>)"

section \<open>Search, insertion and deletion\<close>

definition same_net :: "'i \<Rightarrow> nat \<Rightarrow> ('i, 'd) fib_node \<Rightarrow> bool" where
  "same_net a len e \<longleftrightarrow> unat (fn_pxlen e) = len \<and> ipa_equal a (fn_prefix e)"

fun chain_find :: "'i \<Rightarrow> nat \<Rightarrow> ('i, 'd) fib_node list \<Rightarrow> ('i, 'd) fib_node option" where
  "chain_find a len [] = None"
| "chain_find a len (e # es) = (if \<not> same_net a len e then chain_find a len es else Some e)"

definition fib_find :: "'i ip_ops \<Rightarrow> ('i, 'd) fib \<Rightarrow> 'i \<Rightarrow> nat \<Rightarrow> ('i, 'd) fib_node option" where
  "fib_find I f a len = chain_find a len (hash_table f ! fib_hash I (hash_order f) a)"

text \<open>The place of a new node in its chain: after the smaller identifiers, at the first one that is free.\<close>

fun chain_bump :: "(u32 \<Rightarrow> ('i, 'd) fib_node) \<Rightarrow> u32 \<Rightarrow> ('i, 'd) fib_node list \<Rightarrow> ('i, 'd) fib_node list" where
  "chain_bump mk uid [] = [mk uid]"
| "chain_bump mk uid (g # gs) = (if fn_uid g = uid then g # chain_bump mk (uid + 1) gs else mk uid # g # gs)"

fun chain_insert :: "(u32 \<Rightarrow> ('i, 'd) fib_node) \<Rightarrow> u32 \<Rightarrow> ('i, 'd) fib_node list \<Rightarrow> ('i, 'd) fib_node list" where
  "chain_insert mk uid [] = chain_bump mk uid []"
| "chain_insert mk uid (g # gs) =
     (if fn_uid g < uid then g # chain_insert mk uid gs else chain_bump mk uid (g # gs))"

text \<open>
  \<open>fib_get\<close> with \<open>dat\<close>, the data that the constructor \<open>init\<close> puts into a new node. The pointer that it
  returns is to the node that \<open>fib_find\<close> finds afterwards.
\<close>

definition fib_get :: "'i ip_ops \<Rightarrow> 'd \<Rightarrow> ('i, 'd) fib \<Rightarrow> 'i \<Rightarrow> nat \<Rightarrow> ('i, 'd) fib" where
  "fib_get I dat f a len =
     (let h = ipa_hash I a; i = fib_hash I (hash_order f) a; ee = hash_table f ! i;
          mk = (\<lambda>uid. \<lparr>fn_prefix = a, fn_pxlen = of_nat len, fn_uid = uid, fn_readers = [], fn_data = dat\<rparr>) in
      case chain_find a len ee of
        Some e \<Rightarrow> f
      | None \<Rightarrow>
          let f' = f\<lparr>hash_table := (hash_table f)[i := chain_insert mk (push_bit 16 h) ee], entries := entries f + 1\<rparr>
          in if entries f > entries_max f then fib_rehash I (hash_order f + HASH_HI_STEP) f' else f')"

text \<open>A change of the data of a node through a pointer to it.\<close>

definition fib_update :: "'i ip_ops \<Rightarrow> ('d \<Rightarrow> 'd) \<Rightarrow> 'i \<Rightarrow> nat \<Rightarrow> ('i, 'd) fib \<Rightarrow> ('i, 'd) fib" where
  "fib_update I g a len f =
     f\<lparr>hash_table := map (map (\<lambda>e. if same_net a len e then e\<lparr>fn_data := g (fn_data e)\<rparr> else e)) (hash_table f)\<rparr>"

text \<open>\<open>fib_route\<close>: the longest prefix first.\<close>

fun fib_route :: "'i ip_ops \<Rightarrow> ('i, 'd) fib \<Rightarrow> 'i \<Rightarrow> nat \<Rightarrow> ('i, 'd) fib_node option" where
  "fib_route I f a len =
     (case fib_find I f (ipa_and I a (ipa_mkmask I len)) len of
        Some t \<Rightarrow> Some t
      | None \<Rightarrow> (case len of 0 \<Rightarrow> None | Suc n \<Rightarrow> fib_route I f a n))"

text \<open>
  \<open>fib_delete\<close>. The readers of the node go to the next node: the rest of its chain, or the first node of
  the following chains.
\<close>

fun fib_merge_readers :: "nat list \<Rightarrow> ('i, 'd) fib_node list list \<Rightarrow> ('i, 'd) fib_node list list" where
  "fib_merge_readers its [] = []"
| "fib_merge_readers its ([] # cs) = [] # fib_merge_readers its cs"
| "fib_merge_readers its ((l # ls) # cs) = (l\<lparr>fn_readers := fn_readers l @ its\<rparr> # ls) # cs"

fun chain_delete :: "'i \<Rightarrow> nat \<Rightarrow> ('i, 'd) fib_node list \<Rightarrow>
  (('i, 'd) fib_node list \<times> ('i, 'd) fib_node \<times> ('i, 'd) fib_node list) option" where
  "chain_delete a len [] = None"
| "chain_delete a len (e # es) =
     (if same_net a len e then Some ([], e, es)
      else map_option (\<lambda>(pre, x, suf). (e # pre, x, suf)) (chain_delete a len es))"

definition fib_delete :: "'i ip_ops \<Rightarrow> ('i, 'd) fib \<Rightarrow> 'i \<Rightarrow> nat \<Rightarrow> ('i, 'd) fib res" where
  "fib_delete I f a len =
     (let i = fib_hash I (hash_order f) a; tab = hash_table f in
      case chain_delete a len (tab ! i) of
        None \<Rightarrow> Inl Bug
      | Some (pre, e, suf) \<Rightarrow>
          let after = suf # drop (Suc i) tab;
              after' = (if fn_readers e = [] then after else fib_merge_readers (fn_readers e) after);
              f' = f\<lparr>hash_table := take i tab @ (pre @ hd after') # tl after', entries := entries f - 1\<rparr>
          in Inr (if entries f < entries_min f then fib_rehash I (hash_order f - HASH_LO_STEP) f' else f'))"

section \<open>Iterators\<close>

text \<open>\<open>fit_init\<close>, \<open>fit_put\<close>: the iterator becomes the first reader of a node.\<close>

definition add_reader :: "nat \<Rightarrow> (('i, 'd) fib_node \<Rightarrow> bool) \<Rightarrow> ('i, 'd) fib \<Rightarrow> ('i, 'd) fib" where
  "add_reader it P f =
     f\<lparr>hash_table := map (map (\<lambda>e. if P e then e\<lparr>fn_readers := it # fn_readers e\<rparr> else e)) (hash_table f)\<rparr>"

definition fit_put :: "nat \<Rightarrow> ('i, 'd) fib_node \<Rightarrow> ('i, 'd) fib \<Rightarrow> ('i, 'd) fib" where
  "fit_put it n f = add_reader it (\<lambda>e. fn_uid e = fn_uid n) f"

definition fit_init :: "nat \<Rightarrow> ('i, 'd) fib \<Rightarrow> ('i, 'd) fib" where
  "fit_init it f = (case concat (hash_table f) of [] \<Rightarrow> f | n # _ \<Rightarrow> fit_put it n f)"

text \<open>The node of an iterator, which is taken off it; \<open>None\<close> at the end.\<close>

definition fit_get :: "nat \<Rightarrow> ('i, 'd) fib \<Rightarrow> ('i, 'd) fib_node option \<times> ('i, 'd) fib" where
  "fit_get it f =
     (let without = (\<lambda>e. e\<lparr>fn_readers := removeAll it (fn_readers e)\<rparr>) in
      (map_option without (find (\<lambda>e. it \<in> set (fn_readers e)) (concat (hash_table f))),
       f\<lparr>hash_table := map (map without) (hash_table f)\<rparr>))"

text \<open>The nodes after \<open>n\<close>, in its chain at \<open>hpos\<close> or the following ones.\<close>

definition nodes_after :: "('i, 'd) fib_node \<Rightarrow> nat \<Rightarrow> ('i, 'd) fib \<Rightarrow> ('i, 'd) fib_node list" where
  "nodes_after n hpos f =
     tl (dropWhile (\<lambda>e. fn_uid e \<noteq> fn_uid n) (hash_table f ! hpos)) @ concat (drop (Suc hpos) (hash_table f))"

definition fit_put_next :: "nat \<Rightarrow> ('i, 'd) fib_node \<Rightarrow> nat \<Rightarrow> ('i, 'd) fib \<Rightarrow> ('i, 'd) fib" where
  "fit_put_next it n hpos f = (case nodes_after n hpos f of [] \<Rightarrow> f | m # _ \<Rightarrow> fit_put it m f)"

text \<open>The nodes that the loop \<open>FIB_ITERATE_START\<close> visits from the node of an iterator on.\<close>

definition fib_iterate :: "'i ip_ops \<Rightarrow> nat \<Rightarrow> ('i, 'd) fib \<Rightarrow> ('i, 'd) fib_node list" where
  "fib_iterate I it f =
     (case fit_get it f of
        (None, _) \<Rightarrow> []
      | (Some n, f') \<Rightarrow> n # nodes_after n (fib_hash I (hash_order f') (fn_prefix n)) f')"

definition fib_nodes :: "('i, 'd) fib \<Rightarrow> ('i, 'd) fib_node list" where
  "fib_nodes f = concat (hash_table f)"

end
