(* ===== verification/FibTable.thy ===== *)
theory FibTable
  imports Fib
begin

text \<open>
  The invariant of the hash table of prefixes: the chains, one after the other, are the nodes in the
  order of their identifiers. So a table of another size has the same nodes in the same order, and the
  operations are those of a finite map.
\<close>

section \<open>The invariant\<close>

text \<open>The hash function of addresses has 16 bits.\<close>

definition hash16 :: "'i ip_ops \<Rightarrow> bool" where
  "hash16 I \<longleftrightarrow> (\<forall>a. unat (ipa_hash I a) < 65536)"

abbreviation node_uid :: "('i, 'd) fib_node \<Rightarrow> nat" where "node_uid e \<equiv> unat (fn_uid e)"

definition node_class :: "'i ip_ops \<Rightarrow> nat \<Rightarrow> ('i, 'd) fib_node \<Rightarrow> nat" where
  "node_class I ord e = fib_hash I ord (fn_prefix e)"

definition node_key :: "('i, 'd) fib_node \<Rightarrow> 'i \<times> nat" where
  "node_key e = (fn_prefix e, unat (fn_pxlen e))"

definition uids_ok :: "'i ip_ops \<Rightarrow> ('i, 'd) fib_node list \<Rightarrow> bool" where
  "uids_ok I ns \<longleftrightarrow> sorted_wrt (\<lambda>a b. node_uid a < node_uid b) ns \<and>
     (\<forall>e \<in> set ns. node_uid e div 65536 = unat (ipa_hash I (fn_prefix e)))"

definition fib_ok :: "'i ip_ops \<Rightarrow> ('i, 'd) fib \<Rightarrow> bool" where
  "fib_ok I f \<longleftrightarrow> hash_order f \<le> 16 \<and> length (hash_table f) = hash_size f \<and>
     (\<forall>h < hash_size f. \<forall>e \<in> set (hash_table f ! h). node_class I (hash_order f) e = h) \<and>
     uids_ok I (fib_nodes f) \<and> distinct (map node_key (fib_nodes f)) \<and>
     entries f = of_nat (length (fib_nodes f)) \<and> (hash_order f > 14 \<longrightarrow> entries_max f = - 1)"

lemma same_net_key: "same_net a len e \<longleftrightarrow> node_key e = (a, len)"
  by (auto simp: same_net_def node_key_def ipa_equal_def)

lemma same_net_fun: "same_net a len = (\<lambda>e. node_key e = (a, len))"
  by (rule ext) (rule same_net_key)

lemma unat_drop_bit: "unat (drop_bit n (w :: u32)) = unat w div 2 ^ n"
proof -
  have "take_bit 32 (unat w) = unat w" using unsigned_less [of w, where 'a = nat] by (simp add: take_bit_nat_eq_self)
  then show ?thesis by (simp only: unsigned_drop_bit_eq) (simp add: drop_bit_eq_div)
qed

lemma fib_hash_div: "fib_hash I ord a = unat (ipa_hash I a) div 2 ^ (16 - ord)"
  by (simp add: fib_hash_def unat_drop_bit)

lemma fib_hash_less:
  assumes "hash16 I" "ord \<le> 16"
  shows "fib_hash I ord a < 2 ^ ord"
proof -
  have "(2 :: nat) ^ ord * 2 ^ (16 - ord) = 65536" using assms(2) by (simp flip: power_add)
  then show ?thesis using assms(1) by (simp add: fib_hash_div hash16_def less_mult_imp_div_less)
qed

lemma class_uid:
  "node_uid e div 65536 = unat (ipa_hash I (fn_prefix e)) \<Longrightarrow>
   node_class I ord e = node_uid e div 65536 div 2 ^ (16 - ord)"
  by (simp add: node_class_def fib_hash_div)

lemma class_mono:
  assumes "uids_ok I ns"
  shows "sorted_wrt (\<lambda>a b. node_class I ord a \<le> node_class I ord b) ns"
proof (rule sorted_wrt_mono_rel)
  show "sorted_wrt (\<lambda>a b. node_uid a < node_uid b) ns" using assms by (simp add: uids_ok_def)
  show "node_class I ord a \<le> node_class I ord b"
    if "a \<in> set ns" "b \<in> set ns" "node_uid a < node_uid b" for a b
  proof -
    have "node_uid a div 65536 = unat (ipa_hash I (fn_prefix a))" "node_uid b div 65536 = unat (ipa_hash I (fn_prefix b))"
      using assms that(1,2) by (simp_all add: uids_ok_def)
    from class_uid [OF this(1)] class_uid [OF this(2)] show ?thesis using that(3) by (simp add: div_le_mono)
  qed
qed

section \<open>Chains and the list of nodes\<close>

text \<open>A table in which every chain holds the nodes of its class is determined by the list of the nodes.\<close>

definition chains_of :: "'i ip_ops \<Rightarrow> nat \<Rightarrow> ('i, 'd) fib_node list \<Rightarrow> ('i, 'd) fib_node list list" where
  "chains_of I ord ns = map (\<lambda>h. filter (\<lambda>e. node_class I ord e = h) ns) [0..<2 ^ ord]"

lemma filter_classes:
  assumes "sorted_wrt (\<lambda>a b. k a \<le> (k b :: nat)) ns"
  shows "filter (\<lambda>e. k e < Suc n) ns = filter (\<lambda>e. k e < n) ns @ filter (\<lambda>e. k e = n) ns"
  using assms
proof (induction ns)
  case (Cons e ns)
  have "filter (\<lambda>e. k e < n) ns = []" if "k e = n" using Cons.prems that by (auto simp: filter_empty_conv)
  then show ?case using Cons by auto
qed simp

lemma concat_classes:
  assumes "sorted_wrt (\<lambda>a b. k a \<le> (k b :: nat)) ns"
  shows "concat (map (\<lambda>h. filter (\<lambda>e. k e = h) ns) [0..<n]) = filter (\<lambda>e. k e < n) ns"
  by (induction n) (simp_all add: filter_classes [OF assms])

lemma concat_chains_of:
  assumes "uids_ok I ns" "hash16 I" "ord \<le> 16"
  shows "concat (chains_of I ord ns) = ns"
  unfolding chains_of_def concat_classes [OF class_mono [OF assms(1)]]
  using fib_hash_less [OF assms(2,3)] by (simp add: node_class_def)

lemma filter_concat_class:
  assumes "\<forall>h < length tab. \<forall>e \<in> set (tab ! h). k e = h" "i < length tab"
  shows "filter (\<lambda>e. k e = i) (concat tab) = tab ! i"
proof -
  have "concat (map (filter (\<lambda>e. k e = i)) tab) = tab ! i"
    using assms
  proof (induction tab arbitrary: i rule: rev_induct)
    case (snoc c tab)
    show ?case
    proof (cases "i = length tab")
      case True
      have "filter (\<lambda>e. k e = i) c = c" using snoc.prems(1) True by (auto simp: nth_append intro!: filter_True)
      moreover have "filter (\<lambda>e. k e = i) d = []" if d: "d \<in> set tab" for d
      proof -
        obtain h where h: "h < length tab" "d = tab ! h" using d by (auto simp: in_set_conv_nth)
        then have "\<forall>e \<in> set d. k e = h" using snoc.prems(1) by (auto simp: nth_append split: if_splits)
        then show ?thesis using h(1) True by (auto simp: filter_empty_conv)
      qed
      ultimately show ?thesis using True by (simp add: concat_eq_Nil_conv)
    next
      case False
      then have "i < length tab" using snoc.prems(2) by simp
      moreover have "\<forall>h < length tab. \<forall>e \<in> set (tab ! h). k e = h"
        using snoc.prems(1) by (auto simp: nth_append split: if_splits)
      moreover have "filter (\<lambda>e. k e = i) c = []"
        using snoc.prems(1) False by (auto simp: nth_append filter_empty_conv)
      ultimately show ?thesis using snoc.IH by (simp add: nth_append)
    qed
  qed simp
  then show ?thesis by (simp add: filter_concat)
qed

lemma chains_of_concat:
  assumes "length tab = 2 ^ ord" "\<forall>h < 2 ^ ord. \<forall>e \<in> set (tab ! h). node_class I ord e = h"
  shows "chains_of I ord (concat tab) = tab"
  using assms filter_concat_class [of tab "node_class I ord"]
  by (intro nth_equalityI) (simp_all add: chains_of_def)

lemma chains_of_class:
  "h < 2 ^ ord \<Longrightarrow> e \<in> set (chains_of I ord ns ! h) \<Longrightarrow> node_class I ord e = h"
  by (simp add: chains_of_def)

section \<open>Rehashing\<close>

lemma skip_to_closed:
  "ni \<le> nh \<Longrightarrow> skip_to nh (cs, t, ni) =
     (if nh = ni then (cs, t, ni) else (cs @ t # replicate (nh - Suc ni) [], [], nh))"
proof (induction "nh - ni" arbitrary: cs t ni)
  case (Suc n)
  then have "ni < nh" by simp
  then have r: "replicate (nh - Suc ni) [] = (if nh = Suc ni then [] else [] # replicate (nh - Suc (Suc ni)) [])"
    by (simp add: Suc_diff_Suc flip: replicate_Suc)
  show ?case using Suc.hyps(1) [of "Suc ni"] Suc.hyps(2) \<open>ni < nh\<close>
    by (simp add: skip_to.simps [of nh cs] r)
qed (simp add: skip_to.simps)

lemma rehash_fill:
  assumes "sorted_wrt (\<lambda>a b. node_class I ord a \<le> node_class I ord b) ns" "ni < n"
    "\<forall>e \<in> set ns. ni \<le> node_class I ord e \<and> node_class I ord e < n"
  shows "fst (skip_to n (fold (rehash_node I ord) ns (cs, t, ni))) =
    cs @ (t @ filter (\<lambda>e. node_class I ord e = ni) ns) #
      map (\<lambda>h. filter (\<lambda>e. node_class I ord e = h) ns) [Suc ni..<n]"
  using assms
proof (induction ns arbitrary: cs t ni)
  case Nil
  then show ?case by (simp add: skip_to_closed map_replicate_const)
next
  case (Cons e ns)
  let ?k = "node_class I ord"
  have e: "ni \<le> ?k e" "?k e < n" "fib_hash I ord (fn_prefix e) = ?k e" using Cons.prems(3) by (simp_all add: node_class_def)
  have ns: "\<forall>x \<in> set ns. ?k e \<le> ?k x \<and> ?k x < n" "sorted_wrt (\<lambda>a b. ?k a \<le> ?k b) ns"
    using Cons.prems(1,3) by auto
  show ?case
  proof (cases "?k e = ni")
    case True
    then show ?thesis using Cons.IH [OF ns(2) _ ns(1), of cs "t @ [e]"] e
      by (simp add: rehash_node_def skip_to_closed cong: map_cong)
  next
    case False
    then have lt: "ni < ?k e" using e(1) by simp
    have small: "filter (\<lambda>x. ?k x = h) ns = []" if "h < ?k e" for h using ns(1) that by (auto simp: filter_empty_conv)
    have "[Suc ni..<n] = [Suc ni..<?k e] @ ?k e # [Suc (?k e)..<n]"
      using lt e(2) upt_add_eq_append [of "Suc ni" "?k e" "n - ?k e"] by (simp add: upt_conv_Cons)
    moreover have "map (\<lambda>h. filter (\<lambda>x. ?k x = h) (e # ns)) [Suc ni..<?k e] = replicate (?k e - Suc ni) []"
      using small by (intro replicate_eqI) auto
    ultimately show ?thesis
      using Cons.IH [OF ns(2) e(2) ns(1), of "cs @ t # replicate (?k e - Suc ni) []" "[e]"] lt e small
      by (simp add: rehash_node_def skip_to_closed cong: map_cong)
  qed
qed

lemma fib_ht_alloc_simps [simp]:
  "hash_table (fib_ht_alloc ord f) = hash_table f" "hash_order (fib_ht_alloc ord f) = ord"
  "entries (fib_ht_alloc ord f) = entries f"
  by (simp_all add: fib_ht_alloc_def)

lemma rehash_chains:
  assumes "uids_ok I (fib_nodes f)" "hash16 I" "ord \<le> 16"
  shows "hash_table (fib_rehash I ord f) = chains_of I ord (fib_nodes f)"
proof -
  have k: "0 \<le> node_class I ord e \<and> node_class I ord e < 2 ^ ord" for e :: "('a, 'b) fib_node"
    using fib_hash_less [OF assms(2,3)] by (simp add: node_class_def)
  have "[0..<2 ^ ord] = 0 # [Suc 0..<2 ^ ord]" by (simp add: upt_conv_Cons)
  then show ?thesis
    using rehash_fill [OF class_mono [OF assms(1)], of 0 "2 ^ ord" ord "[]" "[]"] k
    by (simp add: fib_rehash_def Let_def chains_of_def fib_nodes_def)
qed

text \<open>A new size changes neither the nodes nor their order.\<close>

lemma rehash_nodes:
  assumes "uids_ok I (fib_nodes f)" "hash16 I" "ord \<le> 16"
  shows "fib_nodes (fib_rehash I ord f) = fib_nodes f"
  unfolding fib_nodes_def [of "fib_rehash I ord f"] rehash_chains [OF assms] concat_chains_of [OF assms] ..

lemma rehash_ok:
  assumes "uids_ok I (fib_nodes f)" "hash16 I" "ord \<le> 16" "distinct (map node_key (fib_nodes f))"
    "entries f = of_nat (length (fib_nodes f))"
  shows "fib_ok I (fib_rehash I ord f)"
proof -
  have "hash_order (fib_rehash I ord f) = ord" "entries (fib_rehash I ord f) = entries f"
    "ord > 14 \<longrightarrow> entries_max (fib_rehash I ord f) = - 1"
    by (simp_all add: fib_rehash_def Let_def fib_ht_alloc_def HASH_HI_MAX_def HASH_HI_STEP_def)
  then show ?thesis using assms
    by (simp add: fib_ok_def rehash_nodes rehash_chains chains_of_class) (simp add: chains_of_def)
qed

section \<open>Search\<close>

lemma chain_find_find: "chain_find a len es = find (same_net a len) es"
  by (induction es) auto

lemma find_filter: "(\<And>x. P x \<Longrightarrow> Q x) \<Longrightarrow> find P (filter Q xs) = find P xs"
  by (induction xs) auto

lemma same_net_class: "same_net a len e \<Longrightarrow> node_class I ord e = fib_hash I ord a"
  by (simp add: same_net_def ipa_equal_def node_class_def)

lemma fib_find_nodes:
  assumes "fib_ok I f" "hash16 I"
  shows "fib_find I f a len = find (same_net a len) (fib_nodes f)"
proof -
  let ?i = "fib_hash I (hash_order f) a"
  have "?i < length (hash_table f)" using assms fib_hash_less [of I "hash_order f" a] by (simp add: fib_ok_def)
  then have "hash_table f ! ?i = filter (\<lambda>e. node_class I (hash_order f) e = ?i) (fib_nodes f)"
    unfolding fib_nodes_def using assms by (intro filter_concat_class [symmetric]) (simp_all add: fib_ok_def)
  then show ?thesis by (simp add: fib_find_def chain_find_find find_filter same_net_class)
qed

section \<open>Insertion\<close>

lemma chain_bump_split:
  assumes "sorted_wrt (\<lambda>a b. node_uid a < node_uid b) gs" "\<forall>e \<in> set gs. unat uid \<le> node_uid e"
    "length (filter (\<lambda>e. node_uid e < lim) gs) + unat uid < lim" "lim \<le> 2 ^ 32"
  shows "\<exists>pre suf u. gs = pre @ suf \<and> chain_bump mk uid gs = pre @ mk u # suf \<and> unat uid \<le> unat u \<and> unat u < lim \<and>
     (\<forall>e \<in> set pre. node_uid e < unat u) \<and> (\<forall>e \<in> set suf. unat u < node_uid e)"
  using assms
proof (induction gs arbitrary: uid)
  case Nil
  then show ?case by (intro exI [of _ "[]"] exI [of _ uid]) simp
next
  case (Cons g gs)
  show ?case
  proof (cases "fn_uid g = uid")
    case True
    have lt: "unat uid < lim" using Cons.prems(3) by linarith
    then have lim: "Suc (unat uid) < lim" using Cons.prems(3) True lt by simp
    then have u1: "unat (uid + 1) = Suc (unat uid)" using Cons.prems(4) by (simp add: unat_plus_if_size word_size)
    have "\<forall>e \<in> set gs. unat (uid + 1) \<le> node_uid e" using Cons.prems(1) True u1 by auto
    moreover have "length (filter (\<lambda>e. node_uid e < lim) gs) + unat (uid + 1) < lim"
      using Cons.prems(3) lt True u1 by simp
    ultimately obtain pre suf u where "gs = pre @ suf" "chain_bump mk (uid + 1) gs = pre @ mk u # suf"
      "unat (uid + 1) \<le> unat u" "unat u < lim" "\<forall>e \<in> set pre. node_uid e < unat u" "\<forall>e \<in> set suf. unat u < node_uid e"
      using Cons.IH [of "uid + 1"] Cons.prems(1,4) by auto
    then show ?thesis using True u1 by (intro exI [of _ "g # pre"] exI [of _ suf] exI [of _ u]) auto
  next
    case False
    then have "unat uid \<noteq> node_uid g" by (metis word_unat_eq_iff)
    then have "unat uid < node_uid g" using Cons.prems(2) by (simp add: le_neq_implies_less)
    then show ?thesis using False Cons.prems
      by (intro exI [of _ "[]"] exI [of _ "g # gs"] exI [of _ uid]) auto
  qed
qed

lemma chain_insert_split:
  assumes "sorted_wrt (\<lambda>a b. node_uid a < node_uid b) gs"
    "length (filter (\<lambda>e. unat uid \<le> node_uid e \<and> node_uid e < lim) gs) + unat uid < lim" "lim \<le> 2 ^ 32"
  shows "\<exists>pre suf u. gs = pre @ suf \<and> chain_insert mk uid gs = pre @ mk u # suf \<and> unat uid \<le> unat u \<and> unat u < lim \<and>
     (\<forall>e \<in> set pre. node_uid e < unat u) \<and> (\<forall>e \<in> set suf. unat u < node_uid e)"
  using assms
proof (induction gs)
  case Nil
  then show ?case by (intro exI [of _ "[]"] exI [of _ uid]) simp
next
  case (Cons g gs)
  show ?case
  proof (cases "fn_uid g < uid")
    case True
    then have g: "node_uid g < unat uid" by (simp add: word_less_nat_alt)
    then obtain pre suf u where "gs = pre @ suf" "chain_insert mk uid gs = pre @ mk u # suf" "unat uid \<le> unat u"
      "unat u < lim" "\<forall>e \<in> set pre. node_uid e < unat u" "\<forall>e \<in> set suf. unat u < node_uid e"
      using Cons by auto
    then show ?thesis using True g by (intro exI [of _ "g # pre"] exI [of _ suf] exI [of _ u]) auto
  next
    case False
    then have "unat uid \<le> node_uid g" by (simp add: word_less_nat_alt)
    then have all: "\<forall>e \<in> set (g # gs). unat uid \<le> node_uid e" using Cons.prems(1) by auto
    then have "filter (\<lambda>e. unat uid \<le> node_uid e \<and> node_uid e < lim) (g # gs) = filter (\<lambda>e. node_uid e < lim) (g # gs)"
      by (intro filter_cong) auto
    then show ?thesis
      using chain_bump_split [OF Cons.prems(1) all _ Cons.prems(3), of mk] Cons.prems(2) False by simp
  qed
qed

definition new_node :: "'d \<Rightarrow> 'i \<Rightarrow> nat \<Rightarrow> u32 \<Rightarrow> ('i, 'd) fib_node" where
  "new_node dat a len uid = \<lparr>fn_prefix = a, fn_pxlen = of_nat len, fn_uid = uid, fn_readers = [], fn_data = dat\<rparr>"

text \<open>Fewer than 65536 nodes have the hash of the address: there is an identifier for another one.\<close>

definition has_room :: "'i ip_ops \<Rightarrow> ('i, 'd) fib \<Rightarrow> 'i \<Rightarrow> bool" where
  "has_room I f a \<longleftrightarrow> length (filter (\<lambda>e. ipa_hash I (fn_prefix e) = ipa_hash I a) (fib_nodes f)) < 65536"

lemma length_filter_sublist:
  "(\<And>x. P x \<Longrightarrow> Q x) \<Longrightarrow> length (filter P xs) \<le> length (filter Q (us @ xs @ vs))"
  by (induction xs) auto

lemma chain_place:
  fixes f :: "('i, 'd) fib"
  assumes ok: "fib_ok I f" and hash: "hash16 I" and room: "has_room I f a"
  defines "i \<equiv> fib_hash I (hash_order f) a"
  obtains pre suf u where "hash_table f ! i = pre @ suf"
    "chain_insert mk (push_bit 16 (ipa_hash I a)) (hash_table f ! i) = pre @ mk u # suf"
    "unat u div 65536 = unat (ipa_hash I a)"
    "\<forall>e \<in> set pre. node_uid e < unat u" "\<forall>e \<in> set suf. unat u < node_uid e"
    "fib_nodes f = concat (take i (hash_table f)) @ (pre @ suf) @ concat (drop (Suc i) (hash_table f))"
proof -
  let ?h = "unat (ipa_hash I a)" and ?tab = "hash_table f"
  have i: "i < length ?tab" using ok fib_hash_less [OF hash] by (simp add: fib_ok_def i_def)
  have h: "?h < 65536" using hash by (simp add: hash16_def)
  have uid: "unat (push_bit 16 (ipa_hash I a)) = ?h * 65536"
    using h by (simp add: push_bit_eq_mult unat_mult_lem [THEN iffD1])
  have ns: "fib_nodes f = concat (take i ?tab) @ (?tab ! i) @ concat (drop (Suc i) ?tab)"
    unfolding fib_nodes_def by (subst id_take_nth_drop [OF i]) simp
  have uids: "uids_ok I (fib_nodes f)" using ok by (simp add: fib_ok_def)
  have sorted: "sorted_wrt (\<lambda>a b. node_uid a < node_uid b) (?tab ! i)"
    using uids unfolding uids_ok_def ns by (simp add: sorted_wrt_append)
  have "length (filter (\<lambda>e. node_uid e div 65536 = ?h) (?tab ! i)) \<le>
      length (filter (\<lambda>e. node_uid e div 65536 = ?h) (fib_nodes f))"
    unfolding ns by (rule length_filter_sublist)
  also have "\<dots> = length (filter (\<lambda>e. ipa_hash I (fn_prefix e) = ipa_hash I a) (fib_nodes f))"
    using uids by (intro arg_cong [where f = length] filter_cong) (auto simp: uids_ok_def word_unat_eq_iff)
  finally have few: "length (filter (\<lambda>e. node_uid e div 65536 = ?h) (?tab ! i)) < 65536"
    using room by (simp add: has_room_def)
  have "(\<lambda>e. ?h * 65536 \<le> node_uid e \<and> node_uid e < ?h * 65536 + 65536) =
      (\<lambda>e :: ('i, 'd) fib_node. node_uid e div 65536 = ?h)"
    by (rule ext) linarith
  then have cnt: "length (filter (\<lambda>e. unat (push_bit 16 (ipa_hash I a)) \<le> node_uid e \<and> node_uid e < ?h * 65536 + 65536) (?tab ! i)) +
      unat (push_bit 16 (ipa_hash I a)) < ?h * 65536 + 65536"
    using few by (simp add: uid)
  obtain pre suf u where split: "?tab ! i = pre @ suf"
    "chain_insert mk (push_bit 16 (ipa_hash I a)) (?tab ! i) = pre @ mk u # suf"
    "unat (push_bit 16 (ipa_hash I a)) \<le> unat u" "unat u < ?h * 65536 + 65536"
    "\<forall>e \<in> set pre. node_uid e < unat u" "\<forall>e \<in> set suf. unat u < node_uid e"
    using chain_insert_split [OF sorted cnt, of mk] h by auto
  have "unat u div 65536 = ?h" using split(3,4) uid by linarith
  from that [OF split(1,2) this split(5,6)] ns split(1) show thesis by simp
qed

lemma insert_uids:
  assumes "uids_ok I (P @ (pre @ suf) @ S)" "node_uid n div 65536 = unat (ipa_hash I (fn_prefix n))"
    "\<forall>e \<in> set pre. node_uid e < node_uid n" "\<forall>e \<in> set suf. node_uid n < node_uid e"
    "\<forall>e \<in> set P. node_class I ord e < node_class I ord n" "\<forall>e \<in> set S. node_class I ord n < node_class I ord e"
  shows "uids_ok I (P @ (pre @ n # suf) @ S)"
proof -
  have c: "node_class I ord e = node_uid e div 65536 div 2 ^ (16 - ord)" if "e \<in> set P \<union> set S \<or> e = n" for e
    using assms(1,2) that by (intro class_uid) (auto simp: uids_ok_def)
  have "node_uid e < node_uid n" if "e \<in> set P" for e
    using assms(5) that c by (metis UnCI div_le_mono leD leI)
  moreover have "node_uid n < node_uid e" if "e \<in> set S" for e
    using assms(6) that c by (metis UnCI div_le_mono leD leI)
  ultimately show ?thesis
    using assms(1-4) by (auto simp: uids_ok_def sorted_wrt_append)
qed

lemma concat_list_update:
  "i < length tab \<Longrightarrow> concat (tab[i := c]) = concat (take i tab) @ c @ concat (drop (Suc i) tab)"
  by (simp add: upd_conv_take_nth_drop)

lemma chain_classes:
  assumes "fib_ok I f" "i < hash_size f"
  shows "\<forall>e \<in> set (concat (take i (hash_table f))). node_class I (hash_order f) e < i"
    and "\<forall>e \<in> set (concat (drop (Suc i) (hash_table f))). i < node_class I (hash_order f) e"
proof -
  have k: "node_class I (hash_order f) e = h" if "h < length (hash_table f)" "e \<in> set (hash_table f ! h)" for e h
    using assms(1) that by (simp add: fib_ok_def)
  have len: "i < length (hash_table f)" using assms by (simp add: fib_ok_def)
  show "\<forall>e \<in> set (concat (take i (hash_table f))). node_class I (hash_order f) e < i"
    using k len by (auto simp: in_set_conv_nth [of _ "take i (hash_table f)"]) (metis less_trans)
  show "\<forall>e \<in> set (concat (drop (Suc i) (hash_table f))). i < node_class I (hash_order f) e"
  proof
    fix e assume "e \<in> set (concat (drop (Suc i) (hash_table f)))"
    then obtain c where "c \<in> set (drop (Suc i) (hash_table f))" "e \<in> set c" by auto
    then obtain j where "j < length (drop (Suc i) (hash_table f))" "e \<in> set (drop (Suc i) (hash_table f) ! j)"
      by (auto simp: in_set_conv_nth [of c])
    then have "Suc i + j < length (hash_table f)" "e \<in> set (hash_table f ! (Suc i + j))" using len by simp_all
    then show "i < node_class I (hash_order f) e" using k [of "Suc i + j" e] by simp
  qed
qed

text \<open>The state before a possible change of the size.\<close>

lemma insert_ok:
  fixes f :: "('i, 'd) fib" and dat :: 'd
  assumes ok: "fib_ok I f" and hash: "hash16 I" and u: "unat u div 65536 = unat (ipa_hash I a)" and len: "len < 256"
    and tab: "hash_table f ! fib_hash I (hash_order f) a = pre @ suf"
      "\<forall>e \<in> set pre. node_uid e < unat u" "\<forall>e \<in> set suf. unat u < node_uid e"
    and new: "\<forall>e \<in> set (fib_nodes f). \<not> same_net a len e"
  defines "f' \<equiv> f\<lparr>hash_table := (hash_table f)[fib_hash I (hash_order f) a := pre @ new_node dat a len u # suf],
      entries := entries f + 1\<rparr>"
  obtains P S where "fib_nodes f = P @ S" "fib_nodes f' = P @ new_node dat a len u # S" "fib_ok I f'"
proof -
  let ?i = "fib_hash I (hash_order f) a" and ?n = "new_node dat a len u"
  let ?P = "concat (take ?i (hash_table f))" and ?S = "concat (drop (Suc ?i) (hash_table f))"
  have i: "?i < hash_size f" using ok fib_hash_less [OF hash] by (simp add: fib_ok_def)
  have i': "?i < length (hash_table f)" using ok i by (simp add: fib_ok_def)
  have n: "fn_prefix ?n = a" "fn_uid ?n = u" "node_key ?n = (a, len)" "node_class I (hash_order f) ?n = ?i"
    using len by (simp_all add: new_node_def node_key_def node_class_def)
  have ns: "fib_nodes f = ?P @ (pre @ suf) @ ?S"
    unfolding fib_nodes_def by (subst id_take_nth_drop [OF i']) (simp add: tab(1))
  have ns': "fib_nodes f' = ?P @ (pre @ ?n # suf) @ ?S"
    by (simp add: fib_nodes_def f'_def concat_list_update [OF i'])
  have "uids_ok I (?P @ (pre @ ?n # suf) @ ?S)"
  proof (rule insert_uids [where ord = "hash_order f"])
    show "uids_ok I (?P @ (pre @ suf) @ ?S)" using ok unfolding fib_ok_def ns by simp
  qed (use chain_classes [OF ok i] tab u n in \<open>simp_all only: n\<close>)
  moreover have "distinct (map node_key (fib_nodes f'))"
    using ok new unfolding fib_ok_def ns ns' same_net_key by (auto simp: n)
  moreover have "\<forall>h < hash_size f. \<forall>e \<in> set (hash_table f' ! h). node_class I (hash_order f) e = h"
    using ok i' tab(1) n(4) unfolding fib_ok_def f'_def by (auto simp: nth_list_update)
  ultimately have "fib_ok I f'"
    using ok unfolding fib_ok_def ns' by (simp add: f'_def ns)
  then show thesis using that [of "?P @ pre" "suf @ ?S"] ns ns' by simp
qed

lemma fib_get_cases:
  assumes ok: "fib_ok I f" and hash: "hash16 I" and room: "has_room I f a" and len: "len < 256"
  obtains (old) e where "find (same_net a len) (fib_nodes f) = Some e" "fib_get I dat f a len = f"
  | (new) P S u where "\<forall>e \<in> set (fib_nodes f). \<not> same_net a len e" "fib_nodes f = P @ S"
      "fib_nodes (fib_get I dat f a len) = P @ new_node dat a len u # S" "fib_ok I (fib_get I dat f a len)"
proof (cases "find (same_net a len) (fib_nodes f)")
  case (Some e)
  then have "chain_find a len (hash_table f ! fib_hash I (hash_order f) a) = Some e"
    using fib_find_nodes [OF ok hash, of a len] by (simp add: fib_find_def)
  then have "fib_get I dat f a len = f" by (simp add: fib_get_def Let_def)
  then show thesis using old Some by blast
next
  case None
  let ?i = "fib_hash I (hash_order f) a"
  from None have no: "\<forall>e \<in> set (fib_nodes f). \<not> same_net a len e" by (auto simp: find_None_iff)
  have nf: "chain_find a len (hash_table f ! ?i) = None"
    using None fib_find_nodes [OF ok hash, of a len] by (simp add: fib_find_def)
  obtain pre suf u where p: "hash_table f ! ?i = pre @ suf"
    "chain_insert (new_node dat a len) (push_bit 16 (ipa_hash I a)) (hash_table f ! ?i) = pre @ new_node dat a len u # suf"
    "unat u div 65536 = unat (ipa_hash I a)" "\<forall>e \<in> set pre. node_uid e < unat u" "\<forall>e \<in> set suf. unat u < node_uid e"
    by (rule chain_place [OF ok hash room, where mk = "new_node dat a len"]) blast
  let ?f' = "f\<lparr>hash_table := (hash_table f)[?i := pre @ new_node dat a len u # suf], entries := entries f + 1\<rparr>"
  obtain P S where f': "fib_nodes f = P @ S" "fib_nodes ?f' = P @ new_node dat a len u # S" "fib_ok I ?f'"
    by (rule insert_ok [OF ok hash p(3) len p(1,4,5) no, where dat = dat]) blast
  have get: "fib_get I dat f a len =
      (if entries f > entries_max f then fib_rehash I (hash_order f + HASH_HI_STEP) ?f' else ?f')"
    using nf p(2) unfolding fib_get_def Let_def new_node_def [abs_def] by simp
  show thesis
  proof (cases "entries f > entries_max f")
    case True
    then have "hash_order f \<le> 14" using ok by (auto simp: fib_ok_def not_le)
    then have ord: "hash_order f + HASH_HI_STEP \<le> 16" by (simp add: HASH_HI_STEP_def)
    have ok': "uids_ok I (fib_nodes ?f')" "distinct (map node_key (fib_nodes ?f'))"
      "entries ?f' = of_nat (length (fib_nodes ?f'))" using f'(3) unfolding fib_ok_def by blast+
    show thesis using new [OF no f'(1), of u] True f'(2) get rehash_nodes [OF ok'(1) hash ord] rehash_ok [OF ok'(1) hash ord ok'(2,3)]
      by simp
  next
    case False
    then show thesis using new [OF no f'(1), of u] f'(2,3) get by simp
  qed
qed

section \<open>Deletion\<close>

lemma chain_delete_None: "chain_delete a len es = None \<longleftrightarrow> (\<forall>e \<in> set es. \<not> same_net a len e)"
  by (induction es) auto

lemma chain_delete_Some:
  "chain_delete a len es = Some (pre, e, suf) \<Longrightarrow> es = pre @ e # suf \<and> same_net a len e"
  by (induction es arbitrary: pre) (auto split: if_splits)

text \<open>Readers are not looked at by the other operations.\<close>

definition set_readers :: "nat list \<Rightarrow> ('i, 'd) fib_node \<Rightarrow> ('i, 'd) fib_node" where
  "set_readers rs e = e\<lparr>fn_readers := rs\<rparr>"

definition merged :: "nat list \<Rightarrow> ('i, 'd) fib_node list \<Rightarrow> ('i, 'd) fib_node list" where
  "merged its ns = (case ns of [] \<Rightarrow> [] | l # ls \<Rightarrow> set_readers (fn_readers l @ its) l # ls)"

lemma merge_shape:
  "length (fib_merge_readers its cs) = length cs"
  "concat (fib_merge_readers its cs) = merged its (concat cs)"
  "(\<And>e x. k (e\<lparr>fn_readers := x\<rparr>) = k e) \<Longrightarrow> map (map k) (fib_merge_readers its cs) = map (map k) cs"
  by (induction its cs rule: fib_merge_readers.induct) (simp_all add: merged_def set_readers_def)

lemma merged_simps [simp]:
  "map node_key (merged its ns) = map node_key ns" "map fn_uid (merged its ns) = map fn_uid ns"
  "map fn_prefix (merged its ns) = map fn_prefix ns" "length (merged its ns) = length ns"
  by (simp_all add: merged_def set_readers_def node_key_def split: list.split)

lemma merged_kv: "map (\<lambda>e. (node_key e, fn_data e)) (merged its ns) = map (\<lambda>e. (node_key e, fn_data e)) ns"
  by (simp add: merged_def set_readers_def node_key_def split: list.split)

lemma uids_ok_map:
  fixes ns ms :: "('i, 'd) fib_node list"
  assumes "uids_ok I ns" "map fn_uid ms = map fn_uid ns" "map fn_prefix ms = map fn_prefix ns"
  shows "uids_ok I ms"
proof -
  have e: "uids_ok I ns \<longleftrightarrow> sorted_wrt (\<lambda>a b. unat a < unat b) (map fn_uid ns) \<and>
      list_all2 (\<lambda>u p. unat u div 65536 = unat (ipa_hash I p)) (map fn_uid ns) (map fn_prefix ns)"
    for ns :: "('i, 'd) fib_node list"
    by (simp add: uids_ok_def sorted_wrt_map list_all2_conv_all_nth all_set_conv_all_nth)
  show ?thesis using assms unfolding e by simp
qed

lemma fib_ok_alt:
  "fib_ok I f \<longleftrightarrow> hash_order f \<le> 16 \<and> length (hash_table f) = hash_size f \<and>
     (\<forall>h < hash_size f. \<forall>p \<in> set (map fn_prefix (hash_table f ! h)). fib_hash I (hash_order f) p = h) \<and>
     uids_ok I (fib_nodes f) \<and> distinct (map node_key (fib_nodes f)) \<and>
     entries f = of_nat (length (fib_nodes f)) \<and> (hash_order f > 14 \<longrightarrow> entries_max f = - 1)"
  by (simp add: fib_ok_def node_class_def)

lemma uids_ok_remove: "uids_ok I (P @ e # S) \<Longrightarrow> uids_ok I (P @ S)"
  by (auto simp: uids_ok_def sorted_wrt_append)

text \<open>The state before a possible change of the size: \<open>rest'\<close> are the chains from the place of the node on.\<close>

lemma delete_ok:
  fixes f :: "('i, 'd) fib"
  assumes ok: "fib_ok I f" and i: "i < hash_size f" and tab: "hash_table f ! i = pre @ e # suf"
    and rest: "rest' = (if fn_readers e = [] then suf # drop (Suc i) (hash_table f)
      else fib_merge_readers (fn_readers e) (suf # drop (Suc i) (hash_table f)))"
  defines "f' \<equiv> f\<lparr>hash_table := take i (hash_table f) @ (pre @ hd rest') # tl rest', entries := entries f - 1\<rparr>"
  obtains P S where "fib_nodes f = P @ e # S" "fib_nodes f' = P @ (if fn_readers e = [] then S else merged (fn_readers e) S)"
    "fib_ok I f'"
proof -
  let ?tab = "hash_table f" and ?m = "map fn_prefix :: ('i, 'd) fib_node list \<Rightarrow> 'i list"
  let ?P = "concat (take i ?tab) @ pre" and ?S = "suf @ concat (drop (Suc i) ?tab)"
  let ?S' = "if fn_readers e = [] then ?S else merged (fn_readers e) ?S"
  have i': "i < length ?tab" using ok i by (simp add: fib_ok_def)
  have r: "length rest' = length (suf # drop (Suc i) ?tab)" "map ?m rest' = map ?m (suf # drop (Suc i) ?tab)"
    "concat rest' = ?S'"
    using merge_shape(1,2) [of "fn_readers e" "suf # drop (Suc i) ?tab"]
      merge_shape(3) [of fn_prefix "fn_readers e" "suf # drop (Suc i) ?tab"] by (simp_all add: rest)
  obtain c cs where c: "rest' = c # cs" using r(1) by (cases rest') auto
  have ns: "fib_nodes f = ?P @ e # ?S"
    unfolding fib_nodes_def by (subst id_take_nth_drop [OF i']) (simp add: tab)
  have ns': "fib_nodes f' = ?P @ ?S'" using r(3) by (simp add: fib_nodes_def f'_def c)
  have m: "map ?m (hash_table f') = (map ?m ?tab)[i := ?m (pre @ suf)]"
    using r(2) i' by (simp add: f'_def c upd_conv_take_nth_drop take_map drop_map)
  have len: "length (hash_table f') = length ?tab" using r(1) i' by (simp add: f'_def c)
  have "\<forall>p \<in> set (?m (hash_table f' ! h)). fib_hash I (hash_order f) p = h" if "h < hash_size f" for h
  proof -
    have l: "h < length ?tab" using that ok by (simp add: fib_ok_def)
    then have "?m (hash_table f' ! h) = (map ?m ?tab)[i := ?m (pre @ suf)] ! h" using len m by (metis nth_map)
    then have "set (?m (hash_table f' ! h)) \<subseteq> set (?m (?tab ! h))" using l tab by (cases "h = i") auto
    then show ?thesis using ok that unfolding fib_ok_alt by blast
  qed
  moreover have "uids_ok I (fib_nodes f')"
  proof (rule uids_ok_map)
    have "uids_ok I (?P @ e # ?S)" using ok unfolding fib_ok_def ns by blast
    then show "uids_ok I (?P @ ?S)" by (rule uids_ok_remove)
  qed (simp_all add: ns')
  moreover have keys: "map node_key (fib_nodes f') = map node_key (?P @ ?S)" by (simp add: ns')
  have "distinct (map node_key (?P @ e # ?S))" using ok unfolding fib_ok_def ns by blast
  then have "distinct (map node_key (fib_nodes f'))" unfolding keys by simp
  moreover have "hash_order f' = hash_order f" "entries_max f' = entries_max f" by (simp_all add: f'_def)
  moreover have "entries f' = of_nat (length (fib_nodes f'))"
  proof -
    have "length (fib_nodes f) = Suc (length (fib_nodes f'))" unfolding ns ns' by simp
    then have "entries f = 1 + of_nat (length (fib_nodes f'))" using ok by (simp add: fib_ok_def)
    moreover have "entries f' = entries f - 1" by (simp add: f'_def)
    ultimately show ?thesis by (metis add_diff_cancel_left')
  qed
  ultimately have "fib_ok I f'" using ok len unfolding fib_ok_alt by (metis (no_types))
  from that [OF ns ns' this] show thesis .
qed

lemma fib_delete_cases:
  assumes ok: "fib_ok I f" and hash: "hash16 I"
  obtains (missing) "\<forall>e \<in> set (fib_nodes f). \<not> same_net a len e" "fib_delete I f a len = Inl Bug"
  | (deleted) P e S f' where "fib_nodes f = P @ e # S" "same_net a len e" "fib_delete I f a len = Inr f'"
      "fib_nodes f' = P @ (if fn_readers e = [] then S else merged (fn_readers e) S)" "fib_ok I f'"
proof (cases "chain_delete a len (hash_table f ! fib_hash I (hash_order f) a)")
  case None
  then have "chain_find a len (hash_table f ! fib_hash I (hash_order f) a) = None"
    by (auto simp: chain_delete_None chain_find_find find_None_iff)
  then have "find (same_net a len) (fib_nodes f) = None"
    using fib_find_nodes [OF ok hash, of a len] by (simp add: fib_find_def)
  then show thesis using missing None by (auto simp: find_None_iff fib_delete_def)
next
  case (Some r)
  let ?i = "fib_hash I (hash_order f) a" and ?tab = "hash_table f"
  obtain pre e suf where r: "r = (pre, e, suf)" by (cases r)
  have split: "?tab ! ?i = pre @ e # suf" "same_net a len e" using chain_delete_Some [of a len "?tab ! ?i"] Some r by auto
  have i: "?i < hash_size f" using ok fib_hash_less [OF hash] by (auto simp: fib_ok_def)
  define rest' where "rest' = (if fn_readers e = [] then suf # drop (Suc ?i) ?tab
      else fib_merge_readers (fn_readers e) (suf # drop (Suc ?i) ?tab))"
  let ?f = "f\<lparr>hash_table := take ?i ?tab @ (pre @ hd rest') # tl rest', entries := entries f - 1\<rparr>"
  obtain P S where f': "fib_nodes f = P @ e # S" "fib_ok I ?f"
    "fib_nodes ?f = P @ (if fn_readers e = [] then S else merged (fn_readers e) S)"
    by (rule delete_ok [OF ok i split(1) rest'_def]) blast
  have del: "fib_delete I f a len =
      Inr (if entries f < entries_min f then fib_rehash I (hash_order f - HASH_LO_STEP) ?f else ?f)"
    using Some r unfolding fib_delete_def Let_def by (simp add: rest'_def)
  show thesis
  proof (cases "entries f < entries_min f")
    case True
    have ord: "hash_order f - HASH_LO_STEP \<le> 16" using ok by (auto simp: fib_ok_def)
    have ok': "uids_ok I (fib_nodes ?f)" "distinct (map node_key (fib_nodes ?f))"
      "entries ?f = of_nat (length (fib_nodes ?f))" using f'(2) unfolding fib_ok_def by blast+
    show thesis
      using deleted [OF f'(1) split(2), of "fib_rehash I (hash_order f - HASH_LO_STEP) ?f"] True del f'(3)
        rehash_nodes [OF ok'(1) hash ord] rehash_ok [OF ok'(1) hash ord ok'(2,3)] by simp
  next
    case False
    then show thesis using deleted [OF f'(1) split(2), of ?f] f'(2,3) del by simp
  qed
qed

section \<open>The table as a map\<close>

definition fib_map :: "('i, 'd) fib \<Rightarrow> 'i \<times> nat \<rightharpoonup> 'd" where
  "fib_map f k = map_option fn_data (find (\<lambda>e. node_key e = k) (fib_nodes f))"

lemma fib_map_of: "fib_map f = map_of (map (\<lambda>e. (node_key e, fn_data e)) (fib_nodes f))"
proof
  fix k
  have "map_option fn_data (find (\<lambda>e. node_key e = k) ns) = map_of (map (\<lambda>e. (node_key e, fn_data e)) ns) k"
    for ns :: "('a, 'b) fib_node list" by (induction ns) auto
  then show "fib_map f k = map_of (map (\<lambda>e. (node_key e, fn_data e)) (fib_nodes f)) k" by (simp add: fib_map_def)
qed

lemma fib_find_map:
  assumes "fib_ok I f" "hash16 I"
  shows "map_option fn_data (fib_find I f a len) = fib_map f (a, len)"
  unfolding fib_find_nodes [OF assms] fib_map_def same_net_fun ..

lemma map_of_insert_mid:
  "k \<notin> fst ` set xs \<Longrightarrow> map_of (xs @ (k, v) # ys) = (map_of (xs @ ys))(k \<mapsto> v)"
  by (induction xs) auto

lemma map_of_delete_mid:
  "distinct (map fst (xs @ (k, v) # ys)) \<Longrightarrow> map_of (xs @ ys) = (map_of (xs @ (k, v) # ys))(k := None)"
  by (induction xs) (auto simp: map_of_eq_None_iff fun_upd_twist intro!: ext)

lemma fib_get_map:
  assumes "fib_ok I f" "hash16 I" "has_room I f a" "len < 256"
  shows "fib_ok I (fib_get I dat f a len)"
    "fib_map (fib_get I dat f a len) = (if fib_map f (a, len) = None then (fib_map f)((a, len) \<mapsto> dat) else fib_map f)"
proof -
  show "fib_ok I (fib_get I dat f a len)"
    by (rule fib_get_cases [OF assms, where dat = dat]) (simp_all add: assms(1))
  show "fib_map (fib_get I dat f a len) = (if fib_map f (a, len) = None then (fib_map f)((a, len) \<mapsto> dat) else fib_map f)"
  proof (rule fib_get_cases [OF assms, where dat = dat])
    fix P S u
    assume n: "\<forall>e \<in> set (fib_nodes f). \<not> same_net a len e" "fib_nodes f = P @ S"
      "fib_nodes (fib_get I dat f a len) = P @ new_node dat a len u # S"
    have k: "node_key (new_node dat a len u) = (a, len)" "fn_data (new_node dat a len u) = dat"
      using assms(4) by (simp_all add: new_node_def node_key_def)
    let ?kv = "\<lambda>e. (node_key e, fn_data e)"
    have new: "(a, len) \<notin> node_key ` set (fib_nodes f)" using n(1) by (auto simp: same_net_key)
    then have "map_of (map ?kv P @ ((a, len), dat) # map ?kv S) = (map_of (map ?kv P @ map ?kv S))((a, len) \<mapsto> dat)"
      by (intro map_of_insert_mid) (auto simp: n(2))
    moreover have "fib_map f (a, len) = None" using new by (auto simp: fib_map_of map_of_eq_None_iff image_image)
    ultimately show ?thesis by (simp add: fib_map_of n(2,3) k del: map_of_append)
  next
    fix e assume "find (same_net a len) (fib_nodes f) = Some e" "fib_get I dat f a len = f"
    then show ?thesis unfolding same_net_fun by (simp add: fib_map_def)
  qed
qed

lemma fib_delete_map:
  assumes "fib_ok I f" "hash16 I"
  shows "case fib_delete I f a len of
       Inr f' \<Rightarrow> fib_ok I f' \<and> fib_map f (a, len) \<noteq> None \<and> fib_map f' = (fib_map f)((a, len) := None)
     | Inl _ \<Rightarrow> fib_map f (a, len) = None"
proof (rule fib_delete_cases [OF assms])
  assume "\<forall>e \<in> set (fib_nodes f). \<not> same_net a len e" "fib_delete I f a len = Inl Bug"
  then show ?thesis by (auto simp: fib_map_of map_of_eq_None_iff same_net_key image_image)
next
  fix P e S f'
  assume e: "fib_nodes f = P @ e # S" "same_net a len e" "fib_delete I f a len = Inr f'"
    "fib_nodes f' = P @ (if fn_readers e = [] then S else merged (fn_readers e) S)" "fib_ok I f'"
  let ?kv = "\<lambda>e. (node_key e, fn_data e)"
  have "map ?kv (fib_nodes f') = map ?kv P @ map ?kv S" by (simp add: e(4) merged_kv)
  moreover have "distinct (map node_key (fib_nodes f))" using assms(1) by (simp add: fib_ok_def)
  then have "map_of (map ?kv P @ map ?kv S) = (map_of (map ?kv P @ (node_key e, fn_data e) # map ?kv S))((a, len) := None)"
    using e(1,2) map_of_delete_mid [of "map ?kv P" "node_key e" "fn_data e" "map ?kv S"] by (simp add: same_net_key comp_def)
  ultimately show ?thesis using e(1,2,3,5) by (simp add: fib_map_of same_net_key map_of_eq_None_iff)
qed

text \<open>C24. The hash table of prefixes is a finite map. Let fewer than 65536 nodes have the hash of the
  address. \<open>fib_get\<close> keeps the invariant of the table (every node in the chain of its hash, the chains
  ordered by unique identifiers, no prefix twice, the count of entries right), whether or not it changes
  the size of the table; it adds a new node if there was none, and changes nothing else. \<open>fib_find\<close> finds
  the data of a prefix, and \<open>fib_delete\<close> removes it.\<close>

theorem fib_is_map:
  assumes "fib_ok I f" "hash16 I" "has_room I f a" "len < 256"
  shows "fib_ok I (fib_get I dat f a len) \<and>
    fib_map (fib_get I dat f a len) = (if fib_map f (a, len) = None then (fib_map f)((a, len) \<mapsto> dat) else fib_map f) \<and>
    (\<forall>b n. map_option fn_data (fib_find I f b n) = fib_map f (b, n)) \<and>
    (case fib_delete I f a len of
       Inr f' \<Rightarrow> fib_ok I f' \<and> fib_map f (a, len) \<noteq> None \<and> fib_map f' = (fib_map f)((a, len) := None)
     | Inl _ \<Rightarrow> fib_map f (a, len) = None)"
  using fib_get_map [OF assms, of dat] fib_delete_map [OF assms(1,2)] fib_find_map [OF assms(1,2)] by simp

lemma fib_init_ok:
  assumes "ord \<le> 16"
  defines "f \<equiv> fib_init ord :: ('i, 'd) fib"
  shows "fib_ok I f" "fib_nodes f = []" "fib_map f = Map.empty"
proof -
  show n: "fib_nodes f = []" by (simp add: f_def fib_init_def fib_nodes_def Let_def)
  then show "fib_map f = Map.empty" by (simp add: fib_map_def fun_eq_iff)
  have "hash_order f \<le> 16" using assms(1) by (simp add: f_def fib_init_def fib_ht_alloc_def HASH_DEF_ORDER_def)
  moreover have "length (hash_table f) = hash_size f" by (simp add: f_def fib_init_def fib_ht_alloc_def Let_def)
  moreover have "entries f = 0" by (simp add: f_def fib_init_def fib_ht_alloc_def Let_def)
  moreover have "hash_order f > 14 \<Longrightarrow> entries_max f = - 1"
    by (simp add: f_def fib_init_def fib_ht_alloc_def Let_def HASH_HI_MAX_def HASH_HI_STEP_def split: if_splits)
  moreover have "hash_table f ! h = []" if "h < hash_size f" for h
    using that by (simp add: f_def fib_init_def fib_ht_alloc_def Let_def)
  ultimately show "fib_ok I f" using n by (simp add: fib_ok_def uids_ok_def)
qed

lemma ip4_hash16: "hash16 ip4_ops"
proof -
  have "unat ((w :: u32) AND 0xffff) < 65536" for w
    using word_and_le1 [of w "0xffff"] by (simp add: word_le_nat_alt)
  then show ?thesis by (simp add: hash16_def ip4_ops_def)
qed

theorem fib_is_map_witness:
  "fib_map (fib_get ip4_ops CHR ''x'' (fib_init 10) 0x0A000000 8) = [(0x0A000000, 8) \<mapsto> CHR ''x''] \<and>
   map_option fn_data (fib_find ip4_ops (fib_get ip4_ops CHR ''x'' (fib_init 10) 0x0A000000 8) 0x0A000000 8) = Some CHR ''x''"
proof -
  let ?f = "fib_init 10 :: (u32, char) fib" and ?a = "0x0A000000 :: u32"
  let ?g = "fib_get ip4_ops CHR ''x'' ?f ?a 8"
  have f: "fib_ok ip4_ops ?f" "fib_nodes ?f = []" "fib_map ?f = Map.empty" using fib_init_ok [of 10] by simp_all
  have r: "has_room ip4_ops ?f ?a" using f(2) by (simp add: has_room_def)
  have g: "fib_ok ip4_ops ?g" "fib_map ?g = [(?a, 8) \<mapsto> CHR ''x'']"
    using fib_is_map [OF f(1) ip4_hash16 r, of 8 "CHR ''x''"] f(3) by simp_all
  then show ?thesis using fib_find_map [OF g(1) ip4_hash16, of ?a 8] by simp
qed

end
