(* ===== verification/FibIter.thy ===== *)
theory FibIter
  imports FibTable
begin

text \<open>
  Iterators over the hash table of prefixes: whatever is inserted or deleted while an iterator is
  suspended, and however the table is resized, the iterator still has the nodes before it that it had
  before. And the longest match of \<open>fib_route\<close>.
\<close>

section \<open>Changes of the readers and the data of the nodes\<close>

lemma map_nodes_ok:
  fixes f :: "('i, 'd) fib"
  assumes ok: "fib_ok I f"
    and g: "\<And>e. fn_prefix (g e) = fn_prefix e" "\<And>e. fn_pxlen (g e) = fn_pxlen e" "\<And>e. fn_uid (g e) = fn_uid e"
  defines "f' \<equiv> f\<lparr>hash_table := map (map g) (hash_table f)\<rparr>"
  shows "fib_ok I f'" "fib_nodes f' = map g (fib_nodes f)"
proof -
  show n: "fib_nodes f' = map g (fib_nodes f)" by (simp add: fib_nodes_def f'_def map_concat)
  have c: "fn_prefix \<circ> g = fn_prefix" "fn_uid \<circ> g = fn_uid" "node_key \<circ> g = node_key"
    using g by (simp_all add: fun_eq_iff node_key_def)
  have "uids_ok I (map g (fib_nodes f))"
    by (rule uids_ok_map [of I "fib_nodes f"]) (use ok in \<open>simp_all add: fib_ok_def c\<close>)
  moreover have "map node_key (map g (fib_nodes f)) = map node_key (fib_nodes f)" by (simp add: c)
  moreover have "map fn_prefix (hash_table f' ! h) = map fn_prefix (hash_table f ! h)" if "h < hash_size f" for h
    using that ok by (simp add: f'_def c fib_ok_def)
  then have "\<forall>h < hash_size f'. \<forall>p \<in> set (map fn_prefix (hash_table f' ! h)). fib_hash I (hash_order f') p = h"
    using ok unfolding fib_ok_alt by (simp add: f'_def)
  moreover have "length (hash_table f') = hash_size f'" "hash_order f' = hash_order f" "entries f' = entries f"
    "entries_max f' = entries_max f" using ok by (simp_all add: f'_def fib_ok_def)
  ultimately show "fib_ok I f'" using ok unfolding fib_ok_alt n by (simp add: c)
qed

text \<open>The place of a node in the table.\<close>

lemma nodes_after_split:
  assumes ok: "fib_ok I f" and hash: "hash16 I" and n: "fib_nodes f = P @ n # S"
  shows "nodes_after n (fib_hash I (hash_order f) (fn_prefix n)) f = S"
proof -
  let ?i = "fib_hash I (hash_order f) (fn_prefix n)" and ?tab = "hash_table f"
  have i: "?i < length ?tab" using ok fib_hash_less [OF hash] by (simp add: fib_ok_def)
  have "n \<in> set (concat ?tab)" using n by (simp add: fib_nodes_def)
  then obtain c where "c \<in> set ?tab" "n \<in> set c" by auto
  then obtain h where h: "h < length ?tab" "n \<in> set (?tab ! h)" by (metis in_set_conv_nth)
  then have "h = ?i" using ok by (auto simp: fib_ok_def node_class_def)
  then obtain pre suf where s: "?tab ! ?i = pre @ n # suf" using h(2) by (metis split_list)
  have all: "fib_nodes f = (concat (take ?i ?tab) @ pre) @ n # suf @ concat (drop (Suc ?i) ?tab)"
    unfolding fib_nodes_def by (subst id_take_nth_drop [OF i]) (simp add: s)
  have less: "sorted_wrt (\<lambda>a b. node_uid a < node_uid b) (fib_nodes f)" using ok by (simp add: fib_ok_def uids_ok_def)
  then have "\<forall>e \<in> set pre. fn_uid e \<noteq> fn_uid n" unfolding all by (auto simp: sorted_wrt_append)
  then have "nodes_after n ?i f = suf @ concat (drop (Suc ?i) ?tab)"
    by (simp add: nodes_after_def s dropWhile_append)
  moreover have "distinct (fib_nodes f)" using ok by (auto simp: fib_ok_def distinct_map)
  then have "S = suf @ concat (drop (Suc ?i) ?tab)" using all n
    by (metis append_Cons_eq_iff not_distinct_conv_prefix distinct_append distinct.simps(2) append_eq_conv_conj)
  ultimately show ?thesis by simp
qed

section \<open>Iterators\<close>

text \<open>The nodes that an iterator still has before it.\<close>

definition pending :: "nat \<Rightarrow> ('i, 'd) fib \<Rightarrow> ('i, 'd) fib_node list" where
  "pending it f = dropWhile (\<lambda>e. it \<notin> set (fn_readers e)) (fib_nodes f)"

lemma dropWhile_map_key:
  "(\<And>e. P (g e) = P e) \<Longrightarrow> (\<And>e. k (g e) = k e) \<Longrightarrow> map k (dropWhile P (map g es)) = map k (dropWhile P es)"
  by (induction es) auto

lemma find_dropWhile: "find P es = (case dropWhile (\<lambda>e. \<not> P e) es of [] \<Rightarrow> None | x # _ \<Rightarrow> Some x)"
  by (induction es) auto

lemma dropWhile_hd_sat: "dropWhile (\<lambda>e. \<not> P e) es = x # xs \<Longrightarrow> P x"
  by (metis dropWhile_eq_Cons_conv)

lemma pending_insert:
  assumes "fib_nodes f = P @ S" "fib_nodes f' = P @ n # S" "fn_readers n = []"
    "\<forall>e \<in> set (P @ S). node_key e \<noteq> node_key n"
  shows "filter (\<lambda>k. k \<noteq> node_key n) (map node_key (pending it f')) = map node_key (pending it f)"
proof -
  have keep: "filter (\<lambda>k. k \<noteq> node_key n) (map node_key es) = map node_key es" if "set es \<subseteq> set (P @ S)" for es
    using that assms(4) by (auto simp: filter_id_conv)
  have s: "set (dropWhile Q es) \<subseteq> set es" for Q :: "('a, 'b) fib_node \<Rightarrow> bool" and es by (auto dest: set_dropWhileD)
  show ?thesis
  proof (cases "\<exists>e \<in> set P. it \<in> set (fn_readers e)")
    case True
    then have "pending it f = dropWhile (\<lambda>e. it \<notin> set (fn_readers e)) P @ S"
      "pending it f' = dropWhile (\<lambda>e. it \<notin> set (fn_readers e)) P @ n # S"
      by (auto simp: pending_def assms(1,2) dropWhile_append1)
    then show ?thesis using keep [of "dropWhile (\<lambda>e. it \<notin> set (fn_readers e)) P @ S"] s [of _ P] by auto
  next
    case False
    then have "pending it f = dropWhile (\<lambda>e. it \<notin> set (fn_readers e)) S"
      "pending it f' = dropWhile (\<lambda>e. it \<notin> set (fn_readers e)) S"
      by (auto simp: pending_def assms(1-3) dropWhile_append2)
    then show ?thesis using keep [of "pending it f"] s [of _ S] by auto
  qed
qed

lemma pending_delete:
  assumes nodes: "fib_nodes f = P @ e # S" "fib_nodes f' = P @ (if fn_readers e = [] then S else merged (fn_readers e) S)"
    and other: "\<forall>n \<in> set (P @ S). node_key n \<noteq> node_key e"
  shows "map node_key (pending it f') = filter (\<lambda>k. k \<noteq> node_key e) (map node_key (pending it f))"
proof -
  let ?D = "dropWhile (\<lambda>e. it \<notin> set (fn_readers e))"
  let ?S = "if fn_readers e = [] then S else merged (fn_readers e) S"
  have keep: "filter (\<lambda>k. k \<noteq> node_key e) (map node_key es) = map node_key es" if "set es \<subseteq> set (P @ S)" for es
    using that other by (auto simp: filter_id_conv)
  have s: "set (dropWhile Q es) \<subseteq> set es" for Q :: "('a, 'b) fib_node \<Rightarrow> bool" and es by (auto dest: set_dropWhileD)
  have keys: "map node_key ?S = map node_key S" by simp
  consider (before) "\<exists>n \<in> set P. it \<in> set (fn_readers n)"
    | (at) "\<forall>n \<in> set P. it \<notin> set (fn_readers n)" "it \<in> set (fn_readers e)"
    | (after) "\<forall>n \<in> set P. it \<notin> set (fn_readers n)" "it \<notin> set (fn_readers e)" by blast
  then show ?thesis
  proof cases
    case before
    then have "pending it f = ?D P @ e # S" "pending it f' = ?D P @ ?S"
      by (auto simp: pending_def nodes dropWhile_append1)
    moreover have "set (?D P @ S) \<subseteq> set (P @ S)" using s [of _ P] by auto
    note keep [OF this]
    ultimately show ?thesis using keys by simp
  next
    case at
    then have "pending it f = e # S" "pending it f' = ?D ?S" by (auto simp: pending_def nodes dropWhile_append2)
    moreover have "?D ?S = ?S" using at(2) by (auto simp: merged_def set_readers_def split: list.split)
    ultimately show ?thesis using keep [of S] keys by auto
  next
    case after
    then have "pending it f = ?D S" "pending it f' = ?D ?S" by (auto simp: pending_def nodes dropWhile_append2)
    moreover have "map node_key (?D ?S) = map node_key (?D S)"
      using after(2) by (cases S) (auto simp: merged_def set_readers_def node_key_def)
    moreover have "set (?D S) \<subseteq> set (P @ S)" using s [of _ S] by auto
    note keep [OF this]
    ultimately show ?thesis by simp
  qed
qed

abbreviation without :: "nat \<Rightarrow> ('i, 'd) fib_node \<Rightarrow> ('i, 'd) fib_node" where
  "without it e \<equiv> e\<lparr>fn_readers := removeAll it (fn_readers e)\<rparr>"

lemma fit_get_ok:
  assumes ok: "fib_ok I f"
  shows "fib_ok I (snd (fit_get it f))" "fib_nodes (snd (fit_get it f)) = map (without it) (fib_nodes f)"
proof -
  have "snd (fit_get it f) = f\<lparr>hash_table := map (map (without it)) (hash_table f)\<rparr>" by (simp add: fit_get_def Let_def)
  then show "fib_ok I (snd (fit_get it f))" "fib_nodes (snd (fit_get it f)) = map (without it) (fib_nodes f)"
    using map_nodes_ok [OF ok, of "without it"] by simp_all
qed

lemma fib_iterate_eq:
  assumes ok: "fib_ok I f" and hash: "hash16 I"
  shows "fib_iterate I it f = map (without it) (pending it f)"
proof -
  obtain f' where get: "fit_get it f = (map_option (without it) (find (\<lambda>e. it \<in> set (fn_readers e)) (fib_nodes f)), f')"
    by (simp add: fit_get_def fib_nodes_def Let_def)
  have f': "fib_ok I f'" "fib_nodes f' = map (without it) (fib_nodes f)" using fit_get_ok [OF ok, of it] get by simp_all
  show ?thesis
  proof (cases "pending it f")
    case Nil
    then have "find (\<lambda>e. it \<in> set (fn_readers e)) (fib_nodes f) = None" by (auto simp: find_None_iff pending_def)
    then show ?thesis using Nil get by (simp add: fib_iterate_def)
  next
    case (Cons n S)
    then have "find (\<lambda>e. it \<in> set (fn_readers e)) (fib_nodes f) = Some n" by (simp add: find_dropWhile pending_def)
    moreover obtain P where "fib_nodes f = P @ n # S"
      using Cons unfolding pending_def by (metis takeWhile_dropWhile_id)
    then have "fib_nodes f' = map (without it) P @ without it n # map (without it) S" by (simp add: f'(2))
    note nodes_after_split [OF f'(1) hash this]
    ultimately show ?thesis using Cons get by (simp add: fib_iterate_def)
  qed
qed

lemma fib_iterate_pending:
  fixes f :: "('i, 'd) fib"
  assumes "fib_ok I f" "hash16 I" "\<And>e x. k (e\<lparr>fn_readers := x\<rparr>) = k e"
  shows "map k (fib_iterate I it f) = map k (pending it f)"
  by (simp add: fib_iterate_eq [OF assms(1,2)] assms(3))

lemma fib_iterate_suffix:
  assumes "fib_ok I f" "hash16 I"
  obtains P where "fib_nodes (snd (fit_get it f)) = P @ fib_iterate I it f"
proof -
  let ?Q = "\<lambda>e. it \<notin> set (fn_readers e)"
  have "fib_nodes (snd (fit_get it f)) = map (without it) (takeWhile ?Q (fib_nodes f) @ dropWhile ?Q (fib_nodes f))"
    by (simp add: fit_get_ok(2) [OF assms(1)])
  also have "\<dots> = map (without it) (takeWhile ?Q (fib_nodes f)) @ fib_iterate I it f"
    by (simp only: fib_iterate_eq [OF assms] pending_def map_append)
  finally show thesis by (rule that)
qed

lemma node_key_readers [simp]: "node_key (e\<lparr>fn_readers := x\<rparr>) = node_key e" by (simp add: node_key_def)

lemmas fib_iterate_keys = fib_iterate_pending [where k = node_key, OF _ _ node_key_readers]

text \<open>An iterator that is put at a node has this node and the following ones before it.\<close>

lemma fit_put_iterate:
  fixes f :: "('i, 'd) fib"
  assumes ok: "fib_ok I f" and hash: "hash16 I" and k: "\<And>e x. k (e\<lparr>fn_readers := x\<rparr>) = k e"
    and off: "\<forall>e \<in> set (fib_nodes f). it \<notin> set (fn_readers e)" and n: "fib_nodes f = P @ n # S"
  shows "fib_ok I (fit_put it n f)" "map k (fib_iterate I it (fit_put it n f)) = map k (n # S)"
    "map k (fib_nodes (fit_put it n f)) = map k (fib_nodes f)"
proof -
  let ?g = "\<lambda>e. if fn_uid e = fn_uid n then e\<lparr>fn_readers := it # fn_readers e\<rparr> else e"
  have put: "fit_put it n f = f\<lparr>hash_table := map (map ?g) (hash_table f)\<rparr>" by (simp add: fit_put_def add_reader_def)
  have ok': "fib_ok I (fit_put it n f)" and nodes: "fib_nodes (fit_put it n f) = map ?g (fib_nodes f)"
    unfolding put by (rule map_nodes_ok [OF ok]; simp)+
  have "\<forall>e \<in> set P. fn_uid e \<noteq> fn_uid n" using ok n by (auto simp: fib_ok_def uids_ok_def sorted_wrt_append)
  then have P: "map ?g P = P" by (simp add: map_idI)
  have "pending it (fit_put it n f) = map ?g (n # S)"
    unfolding pending_def nodes n map_append P using off n by (subst dropWhile_append2) simp_all
  then show "map k (fib_iterate I it (fit_put it n f)) = map k (n # S)"
    using fib_iterate_pending [OF ok' hash, of k it] k by auto
  show "fib_ok I (fit_put it n f)" by (rule ok')
  show "map k (fib_nodes (fit_put it n f)) = map k (fib_nodes f)" using k by (auto simp: nodes)
qed

text \<open>A table with one network and an iterator at it.\<close>

definition one_net :: "'d \<Rightarrow> (u32, 'd) fib" where
  "one_net x = fit_init 0 (fib_get ip4_ops x (fib_init 10) 0x0A000000 8)"

lemma one_net:
  fixes x :: 'd
  shows "fib_ok ip4_ops (one_net x)" "map node_key (fib_nodes (one_net x)) = [(0x0A000000, 8)]"
    "map node_key (fib_iterate ip4_ops 0 (one_net x)) = [(0x0A000000, 8)]" "has_room ip4_ops (one_net x) a"
    "fib_map (one_net x) = [(0x0A000000, 8) \<mapsto> x]"
    "\<exists>u. fib_nodes (one_net x) = [\<lparr>fn_prefix = 0x0A000000, fn_pxlen = 8, fn_uid = u, fn_readers = [0], fn_data = x\<rparr>]"
proof -
  let ?f = "fib_init 10 :: (u32, 'd) fib" and ?a = "0x0A000000 :: u32"
  let ?g = "fib_get ip4_ops x ?f ?a 8"
  have f: "fib_ok ip4_ops ?f" "fib_nodes ?f = []" by (simp_all add: fib_init_ok)
  have room: "has_room ip4_ops ?f ?a" using f(2) by (simp add: has_room_def)
  obtain u where g: "fib_nodes ?g = [new_node x ?a 8 u]" "fib_ok ip4_ops ?g"
    by (rule fib_get_cases [OF f(1) ip4_hash16 room, of 8 x]) (use f(2) in auto)
  have n: "node_key (new_node x ?a 8 u) = (?a, 8)" "fn_readers (new_node x ?a 8 u) = []" "fn_data (new_node x ?a 8 u) = x"
    by (simp_all add: new_node_def node_key_def)
  have o: "one_net x = fit_put 0 (new_node x ?a 8 u) ?g" using g(1) by (simp add: one_net_def fit_init_def flip: fib_nodes_def)
  have off: "\<forall>e \<in> set (fib_nodes ?g). 0 \<notin> set (fn_readers e)" using g(1) n(2) by simp
  have split: "fib_nodes ?g = [] @ new_node x ?a 8 u # []" using g(1) by simp
  note put = fit_put_iterate [OF g(2) ip4_hash16 _ off split]
  show "fib_ok ip4_ops (one_net x)" unfolding o by (rule put(1)) (rule node_key_readers)
  show k: "map node_key (fib_nodes (one_net x)) = [(?a, 8)]" unfolding o using put(3) [of node_key] g(1) n by simp
  show "map node_key (fib_iterate ip4_ops 0 (one_net x)) = [(?a, 8)]" unfolding o using put(2) [of node_key] n by simp
  have "map (\<lambda>e. (node_key e, fn_data e)) (fib_nodes (one_net x)) = [((?a, 8), x)]"
    unfolding o using put(3) [of "\<lambda>e. (node_key e, fn_data e)"] g(1) n by simp
  then show "fib_map (one_net x) = [(?a, 8) \<mapsto> x]" by (simp add: fib_map_of)
  have "fib_nodes (fit_put it e f) = map (\<lambda>m. if fn_uid m = fn_uid e then m\<lparr>fn_readers := it # fn_readers m\<rparr> else m) (fib_nodes f)"
    for it e and f :: "(u32, 'd) fib" by (simp add: fit_put_def add_reader_def fib_nodes_def map_concat)
  then show "\<exists>u. fib_nodes (one_net x) = [\<lparr>fn_prefix = ?a, fn_pxlen = 8, fn_uid = u, fn_readers = [0], fn_data = x\<rparr>]"
    unfolding o by (auto simp: g(1) new_node_def)
  have "length (fib_nodes (one_net x)) = 1" using k by (metis length_map length_Cons list.size(3) One_nat_def)
  then have "length (filter P (fib_nodes (one_net x))) \<le> 1" for P by (metis length_filter_le)
  then show "has_room ip4_ops (one_net x) a" unfolding has_room_def by (rule le_less_trans) simp
qed

text \<open>C25. Asynchronous retrieval. An iterator suspended in the table has the same nodes before it after any
  insertion or deletion, with the table growing or shrinking or not: \<open>fib_get\<close> may add the new node to
  them, and \<open>fib_delete\<close> only takes the deleted one away, even when the iterator was suspended at it. The
  loop of \<open>FIB_ITERATE_START\<close> visits these nodes in this order.\<close>

theorem fib_iterator_survives:
  assumes "fib_ok I f" "hash16 I" "has_room I f a" "len < 256"
  shows "filter (\<lambda>k. k \<noteq> (a, len)) (map node_key (fib_iterate I it (fib_get I dat f a len))) =
      filter (\<lambda>k. k \<noteq> (a, len)) (map node_key (fib_iterate I it f)) \<and>
    (case fib_delete I f a len of
      Inr f' \<Rightarrow> map node_key (fib_iterate I it f') = filter (\<lambda>k. k \<noteq> (a, len)) (map node_key (fib_iterate I it f))
    | Inl _ \<Rightarrow> True)"
proof
  note it = fib_iterate_keys [OF assms(1,2)]
  show "filter (\<lambda>k. k \<noteq> (a, len)) (map node_key (fib_iterate I it (fib_get I dat f a len))) =
      filter (\<lambda>k. k \<noteq> (a, len)) (map node_key (fib_iterate I it f))"
  proof (rule fib_get_cases [OF assms, where dat = dat])
    fix P S u
    assume n: "\<forall>e \<in> set (fib_nodes f). \<not> same_net a len e" "fib_nodes f = P @ S"
      "fib_nodes (fib_get I dat f a len) = P @ new_node dat a len u # S" "fib_ok I (fib_get I dat f a len)"
    have k: "node_key (new_node dat a len u) = (a, len)" "fn_readers (new_node dat a len u) = []"
      using assms(4) by (simp_all add: new_node_def node_key_def)
    have "filter (\<lambda>k. k \<noteq> (a, len)) (map node_key (pending it (fib_get I dat f a len))) = map node_key (pending it f)"
      using pending_insert [OF n(2,3) k(2)] n(1,2) unfolding k(1) same_net_key by simp
    moreover have "filter (\<lambda>k. k \<noteq> (a, len)) (map node_key (pending it f)) = map node_key (pending it f)"
      using n(1) unfolding same_net_key by (auto simp: filter_id_conv pending_def dest: set_dropWhileD)
    ultimately show ?thesis by (simp only: fib_iterate_keys [OF n(4) assms(2)] it)
  qed simp
  show "case fib_delete I f a len of
      Inr f' \<Rightarrow> map node_key (fib_iterate I it f') = filter (\<lambda>k. k \<noteq> (a, len)) (map node_key (fib_iterate I it f))
    | Inl _ \<Rightarrow> True"
  proof (rule fib_delete_cases [OF assms(1,2), of a len])
    fix P e S f'
    assume e: "fib_nodes f = P @ e # S" "same_net a len e" "fib_delete I f a len = Inr f'"
      "fib_nodes f' = P @ (if fn_readers e = [] then S else merged (fn_readers e) S)" "fib_ok I f'"
    have "\<forall>n \<in> set (P @ S). node_key n \<noteq> node_key e" using assms(1) e(1) by (auto simp: fib_ok_def image_iff)
    from pending_delete [OF e(1,4) this] show ?thesis
      using e(2,3) by (simp add: fib_iterate_keys [OF e(5) assms(2)] it same_net_key)
  qed simp
qed

theorem fib_iterator_survives_witness:
  "filter (\<lambda>k. k \<noteq> (0x0B000000, 16)) (map node_key (fib_iterate ip4_ops 0 (fib_get ip4_ops CHR ''y'' (one_net CHR ''x'') 0x0B000000 16))) =
     [(0x0A000000, 8)]"
  using fib_iterator_survives [OF one_net(1) ip4_hash16 one_net(4), where len = 16 and it = 0 and dat = "CHR ''y''" and a = "0x0B000000"] by (simp add: one_net)

section \<open>Longest match\<close>

lemma fib_find_Some:
  assumes "fib_ok I f" "hash16 I" "fib_find I f a len = Some t"
  shows "t \<in> set (fib_nodes f) \<and> fn_prefix t = a \<and> unat (fn_pxlen t) = len"
  using assms(3) unfolding fib_find_nodes [OF assms(1,2)] by (auto simp: find_Some_iff same_net_def ipa_equal_def)

declare fib_route.simps [simp del]

text \<open>C29. \<open>fib_route\<close> is the longest match among the networks of length at most \<open>len\<close> that contain the
  address: it finds a network of the table, the address cut to its length, and the table has no longer
  one; it finds none only if the table has none.\<close>

theorem fib_route_longest:
  assumes "fib_ok I f" "hash16 I"
  shows "case fib_route I f a len of
      None \<Rightarrow> (\<forall>n \<le> len. fib_map f (ipa_and I a (ipa_mkmask I n), n) = None)
    | Some t \<Rightarrow> t \<in> set (fib_nodes f) \<and> unat (fn_pxlen t) \<le> len \<and>
        fn_prefix t = ipa_and I a (ipa_mkmask I (unat (fn_pxlen t))) \<and>
        (\<forall>n \<le> len. unat (fn_pxlen t) < n \<longrightarrow> fib_map f (ipa_and I a (ipa_mkmask I n), n) = None)"
proof (induction len)
  case 0
  then show ?case
    using fib_find_map [OF assms, of "ipa_and I a (ipa_mkmask I 0)" 0] fib_find_Some [OF assms]
    by (auto simp: fib_route.simps [of _ _ _ 0] split: option.split)
next
  case (Suc m)
  let ?a = "ipa_and I a (ipa_mkmask I (Suc m))"
  show ?case
  proof (cases "fib_find I f ?a (Suc m)")
    case None
    then have "fib_map f (?a, Suc m) = None" using fib_find_map [OF assms, of ?a "Suc m"] by simp
    moreover have "fib_route I f a (Suc m) = fib_route I f a m" using None by (simp add: fib_route.simps [of _ _ _ "Suc m"])
    ultimately show ?thesis using Suc.IH by (auto simp: le_Suc_eq split: option.splits)
  next
    case (Some t)
    then show ?thesis using fib_find_Some [OF assms Some] by (simp add: fib_route.simps [of _ _ _ "Suc m"])
  qed
qed

theorem fib_route_longest_witness:
  "\<exists>t. fib_route ip4_ops (one_net CHR ''x'') 0x0A010203 32 = Some t \<and> fn_prefix t = 0x0A000000 \<and> unat (fn_pxlen t) = 8"
proof -
  let ?T = "one_net CHR ''x''"
  have nodes: "node_key t = (0x0A000000, 8)" if "t \<in> set (fib_nodes ?T)" for t
  proof -
    from that have "node_key t \<in> set (map node_key (fib_nodes ?T))" by simp
    then show ?thesis unfolding one_net(2) by simp
  qed
  let ?r = "fib_route ip4_ops ?T 0x0A010203 32"
  have r: "case ?r of None \<Rightarrow> \<forall>n \<le> 32. fib_map ?T (ipa_and ip4_ops 0x0A010203 (ipa_mkmask ip4_ops n), n) = None
    | Some t \<Rightarrow> t \<in> set (fib_nodes ?T)"
    using fib_route_longest [OF one_net(1) [where x = "CHR ''x''"] ip4_hash16, where a = "0x0A010203" and len = 32]
    by (cases ?r) (simp_all only: option.case)
  have m: "ipa_and ip4_ops 0x0A010203 (ipa_mkmask ip4_ops 8) = 0x0A000000" by (simp add: mask_eq_exp_minus_1)
  have some: "fib_map ?T (ipa_and ip4_ops 0x0A010203 (ipa_mkmask ip4_ops 8), 8) \<noteq> None" unfolding m one_net(5) by simp
  have "?r \<noteq> None"
  proof
    assume "?r = None"
    then have "\<forall>n \<le> 32. fib_map ?T (ipa_and ip4_ops 0x0A010203 (ipa_mkmask ip4_ops n), n) = None" using r by (simp only: option.case)
    then have "fib_map ?T (ipa_and ip4_ops 0x0A010203 (ipa_mkmask ip4_ops 8), 8) = None" by (rule allE [of _ 8]) (erule mp, simp)
    with some show False by (rule notE)
  qed
  then obtain t where t: "?r = Some t" by blast
  then have "t \<in> set (fib_nodes ?T)" using r by (simp only: option.case)
  from nodes [OF this] t show ?thesis by (simp add: node_key_def)
qed

end
