(* ===== verification/Roa.thy ===== *)
theory Roa
  imports FibIter
begin

text \<open>
  The tables of route origin authorizations (\<open>nest/rt-roa.c\<close>): adding, deleting and flushing ROAs,
  the validation of a route, the listing of a table in parts, and the change of the configuration.
\<close>

section \<open>ROAs\<close>

record roa_item =
  ri_asn :: u32
  ri_maxlen :: u8
  ri_src :: u8

definition ROA_SRC_ANY :: u8 where "ROA_SRC_ANY = 0"
definition ROA_SRC_CONFIG :: u8 where "ROA_SRC_CONFIG = 1"
definition ROA_UNKNOWN :: u8 where "ROA_UNKNOWN = 0"
definition ROA_VALID :: u8 where "ROA_VALID = 1"
definition ROA_INVALID :: u8 where "ROA_INVALID = 2"

definition src_match :: "roa_item \<Rightarrow> u8 \<Rightarrow> bool" where
  "src_match it src \<longleftrightarrow> src = 0 \<or> ri_src it = src"

definition same_roa :: "u8 \<Rightarrow> u32 \<Rightarrow> u8 \<Rightarrow> roa_item \<Rightarrow> bool" where
  "same_roa maxlen asn src it \<longleftrightarrow> ri_maxlen it = maxlen \<and> ri_asn it = asn \<and> src_match it src"

text \<open>The nodes of the hash table have the lists of items; a new node has none (\<open>roa_node_init\<close>).\<close>

type_synonym 'i roa_fib = "('i, roa_item list) fib"

definition add_roa :: "u8 \<Rightarrow> u32 \<Rightarrow> u8 \<Rightarrow> roa_item list \<Rightarrow> roa_item list" where
  "add_roa maxlen asn src items =
     (if list_ex (same_roa maxlen asn src) items then items
      else \<lparr>ri_asn = asn, ri_maxlen = maxlen, ri_src = src\<rparr> # items)"

definition roa_add_item :: "'i ip_ops \<Rightarrow> 'i roa_fib \<Rightarrow> 'i \<Rightarrow> u8 \<Rightarrow> u8 \<Rightarrow> u32 \<Rightarrow> u8 \<Rightarrow> 'i roa_fib" where
  "roa_add_item I t prefix pxlen maxlen asn src =
     fib_update I (add_roa maxlen asn src) prefix (unat pxlen) (fib_get I [] t prefix (unat pxlen))"

fun del_roa :: "u8 \<Rightarrow> u32 \<Rightarrow> u8 \<Rightarrow> roa_item list \<Rightarrow> roa_item list" where
  "del_roa maxlen asn src [] = []"
| "del_roa maxlen asn src (it # its) =
     (if same_roa maxlen asn src it then its else it # del_roa maxlen asn src its)"

definition roa_delete_item :: "'i ip_ops \<Rightarrow> 'i roa_fib \<Rightarrow> 'i \<Rightarrow> u8 \<Rightarrow> u8 \<Rightarrow> u32 \<Rightarrow> u8 \<Rightarrow> 'i roa_fib" where
  "roa_delete_item I t prefix pxlen maxlen asn src =
     (case fib_find I t prefix (unat pxlen) of
        None \<Rightarrow> t
      | Some n \<Rightarrow> fib_update I (del_roa maxlen asn src) prefix (unat pxlen) t)"

definition roa_flush :: "'i roa_fib \<Rightarrow> u8 \<Rightarrow> 'i roa_fib" where
  "roa_flush t src =
     t\<lparr>hash_table := map (map (\<lambda>n. n\<lparr>fn_data := filter (\<lambda>it. \<not> src_match it src) (fn_data n)\<rparr>)) (hash_table t)\<rparr>"

text \<open>\<open>roa_check\<close>, with \<open>anything\<close> and the length that is left to be tried.\<close>

fun check_items :: "u8 \<Rightarrow> u32 \<Rightarrow> roa_item list \<Rightarrow> bool" where
  "check_items pxlen asn [] = False"
| "check_items pxlen asn (it # its) =
     (if ri_maxlen it \<ge> pxlen \<and> ri_asn it = asn \<and> asn \<noteq> 0 then True else check_items pxlen asn its)"

fun check_lens :: "'i ip_ops \<Rightarrow> 'i roa_fib \<Rightarrow> 'i \<Rightarrow> u8 \<Rightarrow> u32 \<Rightarrow> bool \<Rightarrow> nat \<Rightarrow> u8" where
  "check_lens I t prefix pxlen asn anything len =
     (let items = (case fib_find I t (ipa_and I prefix (ipa_mkmask I len)) len of None \<Rightarrow> [] | Some n \<Rightarrow> fn_data n);
          anything = (anything \<or> items \<noteq> []) in
      if check_items pxlen asn items then ROA_VALID
      else (case len of
          0 \<Rightarrow> if anything then ROA_INVALID else ROA_UNKNOWN
        | Suc l \<Rightarrow> check_lens I t prefix pxlen asn anything l))"

definition roa_check :: "'i ip_ops \<Rightarrow> 'i roa_fib \<Rightarrow> 'i \<Rightarrow> u8 \<Rightarrow> u32 \<Rightarrow> u8" where
  "roa_check I t prefix pxlen asn = check_lens I t prefix pxlen asn False (unat pxlen)"

section \<open>Listing\<close>

datatype roa_mode = ROA_SHOW_ALL | ROA_SHOW_PX | ROA_SHOW_IN | ROA_SHOW_FOR

record 'i roa_show_data =
  sd_prefix :: 'i
  sd_pxlen :: u8
  sd_mode :: roa_mode
  sd_asn :: u32

text \<open>A line of the output has the prefix, its length, the maximal length and the AS number.\<close>

type_synonym 'i roa_line = "'i \<times> u8 \<times> u8 \<times> u32"

definition roa_show_node :: "('i, roa_item list) fib_node \<Rightarrow> u8 \<Rightarrow> u32 \<Rightarrow> 'i roa_line list" where
  "roa_show_node rn len asn =
     map (\<lambda>ri. (fn_prefix rn, fn_pxlen rn, ri_maxlen ri, ri_asn ri))
       (filter (\<lambda>ri. ri_maxlen ri \<ge> len \<and> (asn = 0 \<or> ri_asn ri = asn)) (fn_data rn))"

text \<open>\<open>within\<close> is the function \<open>net_in_net\<close> of the library.\<close>

type_synonym 'i within = "'i \<Rightarrow> nat \<Rightarrow> 'i \<Rightarrow> nat \<Rightarrow> bool"

definition show_this :: "'i within \<Rightarrow> 'i roa_show_data \<Rightarrow> ('i, roa_item list) fib_node \<Rightarrow> 'i roa_line list" where
  "show_this within d rn =
     (if sd_mode d = ROA_SHOW_ALL \<or> within (fn_prefix rn) (unat (fn_pxlen rn)) (sd_prefix d) (unat (sd_pxlen d))
      then roa_show_node rn 0 (sd_asn d) else [])"

text \<open>The loop of \<open>roa_show_cont\<close>: the lines, and the node where it stops when its count is used up.\<close>

fun show_walk :: "'i within \<Rightarrow> 'i roa_show_data \<Rightarrow> nat \<Rightarrow> ('i, roa_item list) fib_node list \<Rightarrow>
  'i roa_line list \<times> ('i, roa_item list) fib_node option" where
  "show_walk within d n [] = ([], None)"
| "show_walk within d 0 (rn # rns) = ([], Some rn)"
| "show_walk within d (Suc n) (rn # rns) =
     (case show_walk within d n rns of (out, stop) \<Rightarrow> (show_this within d rn @ out, stop))"

text \<open>The lines of one call, the table, and whether there is more.\<close>

definition roa_show_cont :: "'i within \<Rightarrow> 'i ip_ops \<Rightarrow> 'i roa_show_data \<Rightarrow> nat \<Rightarrow> 'i roa_fib \<Rightarrow> 'i roa_line list \<times> 'i roa_fib \<times> bool" where
  "roa_show_cont within I d it t =
     (let t' = snd (fit_get it t) in
      case show_walk within d 32 (fib_iterate I it t) of
        (out, None) \<Rightarrow> (out, t', False)
      | (out, Some rn) \<Rightarrow> (out, fit_put it rn t', True))"

fun show_for :: "'i ip_ops \<Rightarrow> 'i roa_fib \<Rightarrow> 'i roa_show_data \<Rightarrow> nat \<Rightarrow> 'i roa_line list" where
  "show_for I t d len =
     (case fib_find I t (ipa_and I (sd_prefix d) (ipa_mkmask I len)) len of None \<Rightarrow> [] | Some rn \<Rightarrow> roa_show_node rn 0 (sd_asn d)) @
     (case len of 0 \<Rightarrow> [] | Suc l \<Rightarrow> show_for I t d l)"

text \<open>\<open>roa_show\<close>: the lines written at once (\<open>None\<close> where the network is not in the table), the table,
  and whether \<open>roa_show_cont\<close> goes on.\<close>

definition roa_show :: "'i ip_ops \<Rightarrow> 'i roa_show_data \<Rightarrow> nat \<Rightarrow> 'i roa_fib \<Rightarrow> 'i roa_line list option \<times> 'i roa_fib \<times> bool" where
  "roa_show I d it t =
     (case sd_mode d of
        ROA_SHOW_ALL \<Rightarrow> (Some [], fit_init it t, True)
      | ROA_SHOW_IN \<Rightarrow> (Some [], fit_init it t, True)
      | ROA_SHOW_PX \<Rightarrow>
          (map_option (\<lambda>rn. roa_show_node rn 0 (sd_asn d)) (fib_find I t (sd_prefix d) (unat (sd_pxlen d))), t, False)
      | ROA_SHOW_FOR \<Rightarrow> (Some (show_for I t d (unat (sd_pxlen d))), t, False))"

section \<open>Configuration\<close>

record 'i roa_item_config =
  ric_prefix :: 'i
  ric_pxlen :: u8
  ric_maxlen :: u8
  ric_asn :: u32

record 'i roa_table_config =
  rtc_name :: string
  rtc_items :: "'i roa_item_config list"

definition roa_add_item_config :: "'i roa_table_config \<Rightarrow> 'i \<Rightarrow> u8 \<Rightarrow> u8 \<Rightarrow> u32 \<Rightarrow> 'i roa_table_config" where
  "roa_add_item_config rtc prefix pxlen maxlen asn =
     rtc\<lparr>rtc_items := \<lparr>ric_prefix = prefix, ric_pxlen = pxlen, ric_maxlen = maxlen, ric_asn = asn\<rparr> # rtc_items rtc\<rparr>"

text \<open>A table has the number of its configuration in the list of the configured tables.\<close>

record 'i roa_table =
  roa_fib :: "'i roa_fib"
  roa_name :: string
  roa_cf :: nat

definition roa_populate :: "'i ip_ops \<Rightarrow> 'i roa_item_config list \<Rightarrow> 'i roa_fib \<Rightarrow> 'i roa_fib" where
  "roa_populate I items t =
     fold (\<lambda>ric t. roa_add_item I t (ric_prefix ric) (ric_pxlen ric) (ric_maxlen ric) (ric_asn ric) ROA_SRC_CONFIG) items t"

definition roa_new_table :: "'i ip_ops \<Rightarrow> 'i roa_table_config list \<Rightarrow> nat \<Rightarrow> 'i roa_table" where
  "roa_new_table I cfs k =
     \<lparr>roa_fib = roa_populate I (rtc_items (cfs ! k)) (fib_init 0), roa_name = rtc_name (cfs ! k), roa_cf = k\<rparr>"

text \<open>
  \<open>roa_commit\<close>. \<open>symbol\<close> is \<open>cf_find_symbol\<close> in the new configuration: the number of the ROA table that has a
  name, \<open>None\<close> if there is no such symbol or it is of another class. The second component of the result is
  \<open>roa_table_default\<close>, the table of the first configuration.
\<close>

definition commit_old :: "'i ip_ops \<Rightarrow> 'i roa_table_config list \<Rightarrow> (string \<Rightarrow> nat option) \<Rightarrow> 'i roa_table \<Rightarrow> 'i roa_table option" where
  "commit_old I cfs symbol t =
     map_option (\<lambda>k. t\<lparr>roa_name := rtc_name (cfs ! k), roa_cf := k,
         roa_fib := roa_populate I (rtc_items (cfs ! k)) (roa_flush (roa_fib t) ROA_SRC_CONFIG)\<rparr>) (symbol (roa_name t))"

definition roa_commit :: "'i ip_ops \<Rightarrow> 'i roa_table_config list \<Rightarrow> (string \<Rightarrow> nat option) \<Rightarrow> bool \<Rightarrow>
  'i roa_table list \<Rightarrow> 'i roa_table list \<times> 'i roa_table option" where
  "roa_commit I cfs symbol old ts =
     (let kept = (if old then List.map_filter (commit_old I cfs symbol) ts else ts);
          used = (if old then map roa_cf kept else []);
          ts' = kept @ map (roa_new_table I cfs) (filter (\<lambda>k. k \<notin> set used) [0..<length cfs])
      in (ts', if cfs = [] then None else find (\<lambda>t. roa_cf t = 0) ts'))"

end
