(* ===== verification/RoaCheck.thy ===== *)
theory RoaCheck
  imports Roa
begin

text \<open>
  The ROA tables as sets of ROAs: the operations on a table, the validation of RFC 6483, and the
  listing of a whole table in parts.
\<close>

section \<open>The ROAs of a table\<close>

definition roa_items :: "'i roa_fib \<Rightarrow> 'i \<Rightarrow> nat \<Rightarrow> roa_item list" where
  "roa_items t a n = (case fib_map t (a, n) of None \<Rightarrow> [] | Some items \<Rightarrow> items)"

lemma fib_find_items:
  assumes "fib_ok I t" "hash16 I"
  shows "(case fib_find I t a n of None \<Rightarrow> [] | Some e \<Rightarrow> fn_data e) = roa_items t a n"
  using fib_find_map [OF assms, of a n] by (cases "fib_find I t a n"; cases "fib_map t (a, n)") (auto simp: roa_items_def)

lemma fib_update_nodes:
  "fib_nodes (fib_update I g a len f) = map (\<lambda>e. if same_net a len e then e\<lparr>fn_data := g (fn_data e)\<rparr> else e) (fib_nodes f)"
  by (simp add: fib_update_def fib_nodes_def map_concat)

lemma fib_update_ok:
  fixes f :: "('i, 'd) fib"
  assumes "fib_ok I f"
  shows "fib_ok I (fib_update I g a len f)"
    "fib_map (fib_update I g a len f) = (fib_map f)((a, len) := map_option g (fib_map f (a, len)))"
proof -
  let ?g = "\<lambda>e. if same_net a len e then e\<lparr>fn_data := g (fn_data e)\<rparr> else e"
  have u: "fib_update I g a len f = f\<lparr>hash_table := map (map ?g) (hash_table f)\<rparr>" by (simp add: fib_update_def)
  show "fib_ok I (fib_update I g a len f)" unfolding u by (rule map_nodes_ok [OF assms]; simp)
  note n = fib_update_nodes [of I g a len f]
  have "map_option fn_data (find (\<lambda>e. node_key e = k) (map ?g es)) =
      (if k = (a, len) then map_option g (map_option fn_data (find (\<lambda>e. node_key e = k) es))
       else map_option fn_data (find (\<lambda>e. node_key e = k) es))" for k and es :: "('i, 'd) fib_node list"
    by (induction es) (auto simp: same_net_key node_key_def)
  then show "fib_map (fib_update I g a len f) = (fib_map f)((a, len) := map_option g (fib_map f (a, len)))"
    by (simp add: fun_eq_iff fib_map_def n)
qed

section \<open>Validation\<close>

text \<open>The items of the networks of length at most \<open>n\<close> that contain the prefix.\<close>

definition covering :: "'i ip_ops \<Rightarrow> 'i roa_fib \<Rightarrow> 'i \<Rightarrow> nat \<Rightarrow> roa_item set" where
  "covering I t prefix n = (\<Union>l \<in> {..n}. set (roa_items t (ipa_and I prefix (ipa_mkmask I l)) l))"

definition authorizes :: "u8 \<Rightarrow> u32 \<Rightarrow> roa_item \<Rightarrow> bool" where
  "authorizes pxlen asn it \<longleftrightarrow> ri_asn it = asn \<and> asn \<noteq> 0 \<and> pxlen \<le> ri_maxlen it"

lemma check_items_set: "check_items pxlen asn its \<longleftrightarrow> (\<exists>it \<in> set its. authorizes pxlen asn it)"
  by (induction its) (auto simp: authorizes_def)

lemma covering_rec:
  "covering I t prefix 0 = set (roa_items t (ipa_and I prefix (ipa_mkmask I 0)) 0)"
  "covering I t prefix (Suc n) = set (roa_items t (ipa_and I prefix (ipa_mkmask I (Suc n))) (Suc n)) \<union> covering I t prefix n"
  by (simp_all add: covering_def atMost_Suc)

declare check_lens.simps [simp del]

lemma check_lens_covering:
  assumes "fib_ok I t" "hash16 I"
  shows "check_lens I t prefix pxlen asn anything len =
    (if \<exists>it \<in> covering I t prefix len. authorizes pxlen asn it then ROA_VALID
     else if anything \<or> covering I t prefix len \<noteq> {} then ROA_INVALID else ROA_UNKNOWN)"
proof (induction len arbitrary: anything)
  case 0
  show ?case
    by (simp add: check_lens.simps [of _ _ _ _ _ _ 0] fib_find_items [OF assms] check_items_set covering_rec Let_def)
next
  case (Suc len)
  show ?case
    by (auto simp: check_lens.simps [of _ _ _ _ _ _ "Suc len"] fib_find_items [OF assms] check_items_set covering_rec Let_def
        Suc.IH)
qed

text \<open>C26. Validation follows RFC 6483. A ROA covers a route if its prefix contains the prefix of the route.
  A route with a covering ROA for its origin AS (which is known) and its length is valid, another one with
  a covering ROA is invalid, and all others are unknown.\<close>

theorem roa_check_rfc6483:
  assumes "fib_ok I t" "hash16 I"
  shows "roa_check I t prefix pxlen asn =
    (if \<exists>n \<le> unat pxlen. \<exists>it \<in> set (roa_items t (ipa_and I prefix (ipa_mkmask I n)) n).
         ri_asn it = asn \<and> asn \<noteq> 0 \<and> pxlen \<le> ri_maxlen it then ROA_VALID
     else if \<exists>n \<le> unat pxlen. roa_items t (ipa_and I prefix (ipa_mkmask I n)) n \<noteq> [] then ROA_INVALID
     else ROA_UNKNOWN)"
  using check_lens_covering [OF assms, of prefix pxlen asn False "unat pxlen"]
  by (auto simp: roa_check_def covering_def authorizes_def)

text \<open>A table with the ROA \<open>10.0.0.0/8\<close> of the AS 65001, up to the length 16.\<close>

definition sample_roas :: "u32 roa_fib" where
  "sample_roas = fib_update ip4_ops (add_roa 16 65001 1) 0x0A000000 8 (one_net [])"

lemma sample_roas:
  "fib_ok ip4_ops sample_roas"
  "roa_items sample_roas a n = (if (a, n) = (0x0A000000, 8) then [\<lparr>ri_asn = 65001, ri_maxlen = 16, ri_src = 1\<rparr>] else [])"
  by (simp_all add: sample_roas_def roa_items_def one_net add_roa_def fib_update_ok [OF one_net(1)])

lemma sample_nodes: "\<exists>u. fib_nodes sample_roas = [\<lparr>fn_prefix = 0x0A000000, fn_pxlen = 8, fn_uid = u, fn_readers = [0],
    fn_data = [\<lparr>ri_asn = 65001, ri_maxlen = 16, ri_src = 1\<rparr>]\<rparr>]"
proof -
  obtain u where "fib_nodes (one_net ([] :: roa_item list)) = [\<lparr>fn_prefix = 0x0A000000, fn_pxlen = 8, fn_uid = u, fn_readers = [0], fn_data = []\<rparr>]"
    using one_net(6) [of "[] :: roa_item list"] by blast
  then show ?thesis by (simp add: sample_roas_def add_roa_def same_net_def ipa_equal_def fib_update_nodes)
qed

theorem roa_check_rfc6483_witness:
  "roa_check ip4_ops sample_roas 0x0A010000 16 65001 = ROA_VALID \<and>
   roa_check ip4_ops sample_roas 0x0A010000 24 65001 = ROA_INVALID \<and>
   roa_check ip4_ops sample_roas 0x0B010000 16 65001 = ROA_UNKNOWN"
proof -
  have m: "n \<noteq> 8 \<or> ipa_and ip4_ops 0x0B010000 (ipa_mkmask ip4_ops n) \<noteq> 0x0A000000" for n
    by (cases "n = 8") (simp_all add: mask_eq_exp_minus_1)
  have in8: "ipa_and ip4_ops 0x0A010000 (ipa_mkmask ip4_ops 8) = 0x0A000000" by (simp add: mask_eq_exp_minus_1)
  note r = roa_check_rfc6483 [OF sample_roas(1) ip4_hash16, unfolded sample_roas(2)]
  have "roa_check ip4_ops sample_roas 0x0A010000 16 65001 = ROA_VALID"
    unfolding r by (rule if_P, rule exI [of _ 8]) (simp only: in8, simp)
  moreover have "roa_check ip4_ops sample_roas 0x0A010000 24 65001 = ROA_INVALID"
    unfolding r by (subst if_not_P, simp, rule if_P, rule exI [of _ 8]) (simp only: in8, simp)
  moreover have "roa_check ip4_ops sample_roas 0x0B010000 16 65001 = ROA_UNKNOWN"
    unfolding r using m by (auto simp del: ip4_ops_simps)
  ultimately show ?thesis by simp
qed

section \<open>Changes of a table\<close>

lemma add_item_items:
  assumes "fib_ok I t" "hash16 I" "has_room I t prefix"
  shows "fib_ok I (roa_add_item I t prefix pxlen maxlen asn src)"
    "roa_items (roa_add_item I t prefix pxlen maxlen asn src) a n =
       (if (a, n) = (prefix, unat pxlen) then add_roa maxlen asn src (roa_items t prefix (unat pxlen)) else roa_items t a n)"
proof -
  let ?g = "fib_get I [] t prefix (unat pxlen)"
  have len: "unat pxlen < 256" using unsigned_less [of pxlen, where 'a = nat] by simp
  note g = fib_get_map [OF assms len, of "[]"]
  show "fib_ok I (roa_add_item I t prefix pxlen maxlen asn src)"
    unfolding roa_add_item_def by (rule fib_update_ok [OF g(1)])
  show "roa_items (roa_add_item I t prefix pxlen maxlen asn src) a n =
       (if (a, n) = (prefix, unat pxlen) then add_roa maxlen asn src (roa_items t prefix (unat pxlen)) else roa_items t a n)"
    unfolding roa_items_def roa_add_item_def fib_update_ok(2) [OF g(1)] g(2) by (auto split: option.split)
qed

lemma delete_item_items:
  assumes "fib_ok I t" "hash16 I"
  shows "fib_ok I (roa_delete_item I t prefix pxlen maxlen asn src)"
    "roa_items (roa_delete_item I t prefix pxlen maxlen asn src) a n =
       (if (a, n) = (prefix, unat pxlen) then del_roa maxlen asn src (roa_items t prefix (unat pxlen)) else roa_items t a n)"
proof -
  have none: "fib_find I t prefix (unat pxlen) = None \<longleftrightarrow> fib_map t (prefix, unat pxlen) = None"
    using fib_find_map [OF assms, of prefix "unat pxlen"] by (metis map_option_is_None)
  show "fib_ok I (roa_delete_item I t prefix pxlen maxlen asn src)"
    using assms(1) fib_update_ok [OF assms(1)] by (simp add: roa_delete_item_def split: option.split)
  show "roa_items (roa_delete_item I t prefix pxlen maxlen asn src) a n =
       (if (a, n) = (prefix, unat pxlen) then del_roa maxlen asn src (roa_items t prefix (unat pxlen)) else roa_items t a n)"
    using none by (auto simp: roa_delete_item_def roa_items_def fib_update_ok(2) [OF assms(1)] split: option.split)
qed

lemma flush_items:
  fixes t :: "'i roa_fib"
  assumes "fib_ok I t"
  shows "fib_ok I (roa_flush t src)" "roa_items (roa_flush t src) a n = filter (\<lambda>it. \<not> src_match it src) (roa_items t a n)"
proof -
  let ?g = "\<lambda>e. e\<lparr>fn_data := filter (\<lambda>it. \<not> src_match it src) (fn_data e)\<rparr>"
  have u: "roa_flush t src = t\<lparr>hash_table := map (map ?g) (hash_table t)\<rparr>" by (simp add: roa_flush_def)
  show "fib_ok I (roa_flush t src)" unfolding u by (rule map_nodes_ok [OF assms]; simp)
  have n: "fib_nodes (roa_flush t src) = map ?g (fib_nodes t)" unfolding u by (rule map_nodes_ok [OF assms]; simp)
  have "map_option fn_data (find (\<lambda>e. node_key e = k) (map ?g es)) =
      map_option (filter (\<lambda>it. \<not> src_match it src)) (map_option fn_data (find (\<lambda>e. node_key e = k) es))"
    for k and es :: "('i, roa_item list) fib_node list"
    by (induction es) (auto simp: node_key_def)
  then show "roa_items (roa_flush t src) a n = filter (\<lambda>it. \<not> src_match it src) (roa_items t a n)"
    by (auto simp: roa_items_def fib_map_def n split: option.split)
qed

text \<open>The operations on the items of a prefix. After \<open>roa_add_item\<close> the ROA is there, for its source
  or another one if any source will do, and nothing else is new; \<open>roa_delete_item\<close> takes the ROA of an
  addition away again; \<open>roa_flush\<close> leaves the items of the other sources. No operation changes the
  items of another prefix, and all keep the invariant of the table.\<close>

theorem roa_table_operations:
  fixes pxlen maxlen src :: u8 and asn :: u32
  assumes "fib_ok I t" "hash16 I" "has_room I t prefix"
  defines "added \<equiv> roa_add_item I t prefix pxlen maxlen asn src"
    and "present \<equiv> list_ex (same_roa maxlen asn src) (roa_items t prefix (unat pxlen))"
  shows "fib_ok I added \<and> fib_ok I (roa_delete_item I t prefix pxlen maxlen asn src) \<and> fib_ok I (roa_flush t src) \<and>
    list_ex (same_roa maxlen asn src) (roa_items added prefix (unat pxlen)) \<and>
    (present \<longrightarrow> (\<forall>a n. roa_items added a n = roa_items t a n)) \<and>
    (\<not> present \<longrightarrow> (\<forall>a n. roa_items (roa_delete_item I added prefix pxlen maxlen asn src) a n = roa_items t a n)) \<and>
    (\<forall>a n. (a, n) \<noteq> (prefix, unat pxlen) \<longrightarrow> roa_items added a n = roa_items t a n \<and>
       roa_items (roa_delete_item I t prefix pxlen maxlen asn src) a n = roa_items t a n) \<and>
    (\<forall>a n. roa_items (roa_flush t src) a n = filter (\<lambda>it. src \<noteq> 0 \<and> ri_src it \<noteq> src) (roa_items t a n))"
proof -
  note add = add_item_items [OF assms(1-3)] and del = delete_item_items [OF assms(1,2)]
  have ok: "fib_ok I added" unfolding added_def by (rule add(1))
  note del' = delete_item_items [OF ok assms(2)]
  have here: "roa_items added prefix (unat pxlen) = add_roa maxlen asn src (roa_items t prefix (unat pxlen))"
    by (simp add: added_def add(2))
  have "list_ex (same_roa maxlen asn src) (roa_items added prefix (unat pxlen))"
    by (auto simp: here add_roa_def same_roa_def src_match_def)
  moreover have "roa_items added a n = roa_items t a n" if present for a n
    using that by (auto simp: added_def add(2) add_roa_def present_def)
  moreover have "roa_items (roa_delete_item I added prefix pxlen maxlen asn src) a n = roa_items t a n" if "\<not> present" for a n
  proof (cases "(a, n) = (prefix, unat pxlen)")
    case True
    then show ?thesis using that by (simp add: del'(2) here add_roa_def present_def same_roa_def src_match_def)
  next
    case False
    then have "roa_items (roa_delete_item I added prefix pxlen maxlen asn src) a n = roa_items added a n"
      by (auto simp: del'(2))
    also have "\<dots> = roa_items t a n" unfolding added_def by (subst add(2)) (rule if_not_P [OF False])
    finally show ?thesis .
  qed
  moreover have "roa_items added a n = roa_items t a n" if "(a, n) \<noteq> (prefix, unat pxlen)" for a n
    unfolding added_def by (subst add(2)) (rule if_not_P [OF that])
  ultimately show ?thesis using ok flush_items [OF assms(1)] del by (auto simp: src_match_def)
qed

section \<open>Configuration\<close>

definition configured :: "'i roa_item_config list \<Rightarrow> 'i \<Rightarrow> nat \<Rightarrow> roa_item set" where
  "configured items a n =
     {\<lparr>ri_asn = ric_asn c, ri_maxlen = ric_maxlen c, ri_src = ROA_SRC_CONFIG\<rparr> |c.
        c \<in> set items \<and> ric_prefix c = a \<and> unat (ric_pxlen c) = n}"

lemma src_match_config: "src_match it ROA_SRC_CONFIG \<longleftrightarrow> ri_src it = ROA_SRC_CONFIG"
  by (simp add: src_match_def ROA_SRC_CONFIG_def)

lemma set_add_config:
  "set (add_roa maxlen asn ROA_SRC_CONFIG items) = insert \<lparr>ri_asn = asn, ri_maxlen = maxlen, ri_src = ROA_SRC_CONFIG\<rparr> (set items)"
proof -
  have "same_roa maxlen asn ROA_SRC_CONFIG it \<longleftrightarrow> it = \<lparr>ri_asn = asn, ri_maxlen = maxlen, ri_src = ROA_SRC_CONFIG\<rparr>" for it
    by (cases it) (auto simp: same_roa_def src_match_def ROA_SRC_CONFIG_def)
  then show ?thesis by (auto simp: add_roa_def list_ex_iff)
qed

lemma roa_add_item_nodes:
  assumes "fib_ok I t" "hash16 I" "has_room I t prefix"
  shows "length (fib_nodes (roa_add_item I t prefix pxlen maxlen asn src)) \<le> Suc (length (fib_nodes t))"
proof -
  have len: "unat pxlen < 256" using unsigned_less [of pxlen, where 'a = nat] by simp
  have "length (fib_nodes (fib_get I [] t prefix (unat pxlen))) \<le> Suc (length (fib_nodes t))"
    by (rule fib_get_cases [OF assms len, where dat = "[]"]) simp_all
  moreover have "length (fib_nodes (fib_update I g a n f)) = length (fib_nodes f)" for g a n and f :: "'a roa_fib"
    by (simp add: fib_update_nodes)
  ultimately show ?thesis by (simp add: roa_add_item_def)
qed

lemma populate_items:
  assumes "fib_ok I t" "hash16 I" "length (fib_nodes t) + length items \<le> 65535"
  shows "fib_ok I (roa_populate I items t) \<and>
    set (roa_items (roa_populate I items t) a n) = set (roa_items t a n) \<union> configured items a n"
  using assms
proof (induction items arbitrary: t)
  case Nil
  then show ?case by (simp add: roa_populate_def configured_def)
next
  case (Cons c items)
  let ?t = "roa_add_item I t (ric_prefix c) (ric_pxlen c) (ric_maxlen c) (ric_asn c) ROA_SRC_CONFIG"
  have "length (fib_nodes t) < 65536" using Cons.prems(3) by simp
  then have room: "has_room I t (ric_prefix c)"
    unfolding has_room_def by (rule le_less_trans [OF length_filter_le])
  note add = add_item_items [OF Cons.prems(1,2) room]
  have "length (fib_nodes ?t) + length items \<le> 65535"
    using roa_add_item_nodes [OF Cons.prems(1,2) room, of "ric_pxlen c" "ric_maxlen c" "ric_asn c" ROA_SRC_CONFIG] Cons.prems(3)
    by simp
  note IH = Cons.IH [OF add(1) Cons.prems(2) this]
  have "roa_populate I (c # items) t = roa_populate I items ?t" by (simp add: roa_populate_def)
  moreover have "configured (c # items) a n = configured items a n \<union>
      (if (a, n) = (ric_prefix c, unat (ric_pxlen c)) then {\<lparr>ri_asn = ric_asn c, ri_maxlen = ric_maxlen c, ri_src = ROA_SRC_CONFIG\<rparr>} else {})"
    by (auto simp: configured_def)
  ultimately show ?case using IH by (auto simp: add(2) set_add_config)
qed

lemma commit_old_items:
  assumes "fib_ok I (roa_fib t)" "hash16 I" "length (fib_nodes (roa_fib t)) + length (rtc_items (cfs ! k)) \<le> 65535"
    "symbol (roa_name t) = Some k"
  obtains t' where "commit_old I cfs symbol t = Some t'" "roa_cf t' = k" "roa_name t' = rtc_name (cfs ! k)" "fib_ok I (roa_fib t')"
    "\<And>a n. set (roa_items (roa_fib t') a n) =
      {it \<in> set (roa_items (roa_fib t) a n). ri_src it \<noteq> ROA_SRC_CONFIG} \<union> configured (rtc_items (cfs ! k)) a n"
proof -
  let ?f = "roa_flush (roa_fib t) ROA_SRC_CONFIG"
  note f = flush_items [OF assms(1), of ROA_SRC_CONFIG]
  have "length (fib_nodes ?f) = length (fib_nodes (roa_fib t))"
    by (simp add: roa_flush_def fib_nodes_def length_concat comp_def)
  then have l: "length (fib_nodes ?f) + length (rtc_items (cfs ! k)) \<le> 65535" using assms(3) by simp
  show thesis
    by (rule that) (use assms(4) populate_items [OF f(1) assms(2) l] in
        \<open>auto simp: commit_old_def f(2) src_match_config\<close>)
qed

lemma roa_new_table_items:
  assumes "hash16 I" "length (rtc_items (cfs ! k)) \<le> 65535"
  shows "roa_cf (roa_new_table I cfs k) = k" "roa_name (roa_new_table I cfs k) = rtc_name (cfs ! k)"
    "fib_ok I (roa_fib (roa_new_table I cfs k))"
    "set (roa_items (roa_fib (roa_new_table I cfs k)) a n) = configured (rtc_items (cfs ! k)) a n"
proof -
  have e: "fib_ok I (fib_init 0)" "length (fib_nodes (fib_init 0 :: 'a roa_fib)) + length (rtc_items (cfs ! k)) \<le> 65535"
    using assms(2) by (simp_all add: fib_init_ok)
  have "roa_items (fib_init 0) a n = []" by (simp add: roa_items_def fib_init_ok(3))
  then show "roa_cf (roa_new_table I cfs k) = k" "roa_name (roa_new_table I cfs k) = rtc_name (cfs ! k)"
    "fib_ok I (roa_fib (roa_new_table I cfs k))"
    "set (roa_items (roa_fib (roa_new_table I cfs k)) a n) = configured (rtc_items (cfs ! k)) a n"
    using populate_items [OF e(1) assms(1) e(2), of a n] by (simp_all add: roa_new_table_def)
qed



section \<open>Listing of a table\<close>

text \<open>The calls of \<open>roa_show_cont\<close> until there is no more, but at most \<open>n\<close>.\<close>

fun show_calls :: "'i within \<Rightarrow> 'i ip_ops \<Rightarrow> 'i roa_show_data \<Rightarrow> nat \<Rightarrow> nat \<Rightarrow> 'i roa_fib \<Rightarrow> 'i roa_line list \<times> 'i roa_fib \<times> bool" where
  "show_calls within I d it 0 t = ([], t, True)"
| "show_calls within I d it (Suc n) t =
     (case roa_show_cont within I d it t of
        (out, t', False) \<Rightarrow> (out, t', False)
      | (out, t', True) \<Rightarrow> (case show_calls within I d it n t' of (out', r) \<Rightarrow> (out @ out', r)))"

lemma show_walk_take:
  "show_walk within d n ns =
     (concat (map (show_this within d) (take n ns)), case drop n ns of [] \<Rightarrow> None | rn # _ \<Rightarrow> Some rn)"
  by (induction within d n ns rule: show_walk.induct) auto

lemma show_this_readers: "show_this within d (e\<lparr>fn_readers := x\<rparr>) = show_this within d e"
  by (simp add: show_this_def roa_show_node_def)

lemmas fit_put_lines = fit_put_iterate [where k = "show_this within d", OF _ _ show_this_readers] for within d

lemma show_cont_step:
  assumes ok: "fib_ok I t" and hash: "hash16 I"
  obtains t' where "roa_show_cont within I d it t =
      (concat (take 32 (map (show_this within d) (fib_iterate I it t))), t', length (fib_iterate I it t) > 32)"
    "length (fib_iterate I it t) > 32 \<Longrightarrow> fib_ok I t' \<and>
      map (show_this within d) (fib_iterate I it t') = drop 32 (map (show_this within d) (fib_iterate I it t))"
proof -
  let ?ns = "fib_iterate I it t" and ?t = "snd (fit_get it t)"
  obtain P where P: "fib_nodes ?t = P @ ?ns" by (rule fib_iterate_suffix [OF ok hash])
  show thesis
  proof (cases "drop 32 ?ns")
    case Nil
    then show thesis using that [of ?t] by (simp add: roa_show_cont_def show_walk_take take_map)
  next
    case (Cons rn rest)
    have "fib_nodes ?t = (P @ take 32 ?ns) @ rn # rest"
      by (subst P, subst append_take_drop_id [of 32 ?ns, symmetric]) (simp only: Cons append_assoc)
    moreover have "\<forall>e \<in> set (fib_nodes ?t). it \<notin> set (fn_readers e)" using fit_get_ok(2) [OF ok, of it] by simp
    ultimately have put: "fib_ok I (fit_put it rn ?t)"
      "map (show_this within d) (fib_iterate I it (fit_put it rn ?t)) = map (show_this within d) (rn # rest)"
      using fit_put_lines [OF fit_get_ok(1) [OF ok] hash] by blast+
    have "length ?ns > 32" using Cons by (metis drop_eq_Nil list.distinct(1) not_le)
    then show thesis using that [of "fit_put it rn ?t"] put Cons
      by (simp add: roa_show_cont_def show_walk_take take_map drop_map)
  qed
qed

lemma show_calls_all:
  assumes "fib_ok I t" "hash16 I" "length (fib_iterate I it t) \<le> 32 * Suc n"
  shows "\<exists>t'. show_calls within I d it (Suc n) t = (concat (map (show_this within d) (fib_iterate I it t)), t', False)"
  using assms
proof (induction n arbitrary: t)
  case 0
  show ?case by (rule show_cont_step [OF 0(1,2), of within d it]) (use 0(3) in \<open>simp add: take_map\<close>)
next
  case (Suc n)
  let ?L = "map (show_this within d)"
  obtain t' where t': "roa_show_cont within I d it t =
      (concat (take 32 (?L (fib_iterate I it t))), t', length (fib_iterate I it t) > 32)"
    "length (fib_iterate I it t) > 32 \<Longrightarrow> fib_ok I t' \<and> ?L (fib_iterate I it t') = drop 32 (?L (fib_iterate I it t))"
    by (rule show_cont_step [OF Suc.prems(1,2), of within d it]) blast
  show ?case
  proof (cases "length (fib_iterate I it t) > 32")
    case True
    then have l: "?L (fib_iterate I it t') = drop 32 (?L (fib_iterate I it t))" and ok: "fib_ok I t'" using t'(2) by simp_all
    then have "length (fib_iterate I it t') = length (fib_iterate I it t) - 32" by (metis length_drop length_map)
    then have "length (fib_iterate I it t') \<le> 32 * Suc n" using Suc.prems(3) by simp
    then obtain t'' where "show_calls within I d it (Suc n) t' = (concat (?L (fib_iterate I it t')), t'', False)"
      using Suc.IH [OF ok Suc.prems(2)] by blast
    then show ?thesis using t'(1) True l
      by (simp del: show_calls.simps add: show_calls.simps(2) [of _ _ _ _ "Suc n"] flip: concat_append)
  next
    case False
    then show ?thesis using t'(1) by (simp add: take_map)
  qed
qed

text \<open>C28. The listing of a table, which is written in parts of 32 prefixes. With enough calls
  \<open>roa_show_cont\<close> ends, and its calls together write the lines of every prefix of the table once.\<close>

theorem roa_show_lists_all:
  assumes "fib_ok I t" "hash16 I" "\<forall>e \<in> set (fib_nodes t). it \<notin> set (fn_readers e)"
    "sd_mode d \<in> {ROA_SHOW_ALL, ROA_SHOW_IN}" "length (fib_nodes t) \<le> 32 * Suc n"
  shows "\<exists>t' t''. roa_show I d it t = (Some [], t', True) \<and>
    show_calls within I d it (Suc n) t' = (concat (map (show_this within d) (fib_nodes t)), t'', False)"
proof -
  have it: "fib_ok I (fit_init it t) \<and> map (show_this within d) (fib_iterate I it (fit_init it t)) = map (show_this within d) (fib_nodes t)"
  proof (cases "fib_nodes t")
    case Nil
    then show ?thesis using assms(1) fib_iterate_eq [OF assms(1,2), of it] by (simp add: fit_init_def pending_def flip: fib_nodes_def)
  next
    case (Cons n S)
    then have "fit_init it t = fit_put it n t" by (simp add: fit_init_def flip: fib_nodes_def)
    then show ?thesis using fit_put_lines [OF assms(1-3), of "[]" n S] Cons by simp
  qed
  then have "length (fib_iterate I it (fit_init it t)) = length (fib_nodes t)" by (metis length_map)
  then show ?thesis using show_calls_all [of I "fit_init it t" it n within d] it assms(2,4,5) by (auto simp: roa_show_def)
qed

theorem roa_show_lists_all_witness:
  "\<exists>t' t''. roa_show ip4_ops \<lparr>sd_prefix = 0, sd_pxlen = 0, sd_mode = ROA_SHOW_ALL, sd_asn = 0\<rparr> 1 sample_roas = (Some [], t', True) \<and>
    show_calls (\<lambda>_ _ _ _. True) ip4_ops \<lparr>sd_prefix = 0, sd_pxlen = 0, sd_mode = ROA_SHOW_ALL, sd_asn = 0\<rparr> 1 1 t' =
      ([(0x0A000000, 8, 16, 65001)], t'', False)"
proof -
  let ?d = "\<lparr>sd_prefix = 0 :: u32, sd_pxlen = 0, sd_mode = ROA_SHOW_ALL, sd_asn = 0\<rparr>"
  obtain u where n: "fib_nodes sample_roas = [\<lparr>fn_prefix = 0x0A000000, fn_pxlen = 8, fn_uid = u, fn_readers = [0],
      fn_data = [\<lparr>ri_asn = 65001, ri_maxlen = 16, ri_src = 1\<rparr>]\<rparr>]"
    by (rule sample_nodes [THEN exE])
  then show ?thesis
    using roa_show_lists_all [OF sample_roas(1) ip4_hash16, where it = 1 and d = ?d and n = 0 and within = "\<lambda>_ _ _ _. True"]
    by (simp add: show_this_def roa_show_node_def del: show_calls.simps)
qed

end
