(* ===== verification/BgpPackets.thy ===== *)
theory BgpPackets
  imports BgpCodec
begin

text \<open>
  The bodies of the BGP messages (\<open>proto/bgp/packets.c\<close>, the version for IPv4): what is written, and how
  received bytes are taken apart. The effects on the session are in the theory of the sessions.
\<close>

section \<open>Configuration and capabilities\<close>

text \<open>The fields of \<open>struct bgp_config\<close> that the session uses.\<close>

record session_cfg =
  sc_remote_as :: u32
  sc_capabilities :: nat
  sc_enable_refresh :: bool
  sc_enable_as4 :: bool
  sc_enable_ext :: bool
  sc_advertise_ipv4 :: bool
  sc_passive :: bool
  sc_secondary :: bool
  sc_add_path :: u8
  sc_gr_mode :: nat
  sc_gr_time :: u32
  sc_multihop :: bool
  sc_ttl_security :: bool
  sc_gw_direct :: bool
  sc_password :: bool
  sc_check_link :: bool
  sc_bfd :: bool
  sc_connect_delay_time :: u32
  sc_connect_retry_time :: u32
  sc_hold_time :: u32
  sc_initial_hold_time :: u32
  sc_keepalive_time :: u32
  sc_error_amnesia_time :: u32
  sc_error_delay_time_min :: u32
  sc_error_delay_time_max :: u32
  sc_disable_after_error :: bool
  sc_disable_after_cease :: u32
  sc_rr_cluster_id :: u32

definition ADD_PATH_RX :: u8 where "ADD_PATH_RX = 1"
definition ADD_PATH_TX :: u8 where "ADD_PATH_TX = 2"
definition ADD_PATH_FULL :: u8 where "ADD_PATH_FULL = 3"
definition BGP_GR_ABLE :: nat where "BGP_GR_ABLE = 1"
definition BGP_GR_AWARE :: nat where "BGP_GR_AWARE = 2"
definition BGP_GRF_RESTART :: u8 where "BGP_GRF_RESTART = 0x80"
definition BGP_GRF_FORWARDING :: u8 where "BGP_GRF_FORWARDING = 0x80"
definition BGP_AF :: u8 where "BGP_AF = 1"
definition BGP_VERSION :: u8 where "BGP_VERSION = 4"
definition BGP_HEADER_LENGTH :: nat where "BGP_HEADER_LENGTH = 19"
definition BGP_MAX_MESSAGE_LENGTH :: nat where "BGP_MAX_MESSAGE_LENGTH = 4096"
definition BGP_MAX_EXT_MSG_LENGTH :: nat where "BGP_MAX_EXT_MSG_LENGTH = 65535"
definition BGP_RR_REQUEST :: u8 where "BGP_RR_REQUEST = 0"
definition BGP_RR_BEGIN :: u8 where "BGP_RR_BEGIN = 1"
definition BGP_RR_END :: u8 where "BGP_RR_END = 2"

definition bgp_max_packet_length :: "bool \<Rightarrow> nat" where
  "bgp_max_packet_length ext = (if ext then BGP_MAX_EXT_MSG_LENGTH else BGP_MAX_MESSAGE_LENGTH)"

text \<open>What the OPEN message of the peer says (fields of \<open>struct bgp_conn\<close>), with the initial values.\<close>

record peer_caps =
  pc_advertised_as :: u32
  pc_refresh :: bool
  pc_as4 :: bool
  pc_add_path :: u8
  pc_enhanced_refresh :: bool
  pc_gr_aware :: bool
  pc_gr_able :: bool
  pc_gr_time :: u16
  pc_gr_flags :: u8
  pc_gr_aflags :: u8
  pc_ext_messages :: bool

definition no_caps :: peer_caps where
  "no_caps = \<lparr>pc_advertised_as = 0, pc_refresh = False, pc_as4 = False, pc_add_path = 0, pc_enhanced_refresh = False,
     pc_gr_aware = False, pc_gr_able = False, pc_gr_time = 0, pc_gr_flags = 0, pc_gr_aflags = 0, pc_ext_messages = False\<rparr>"

section \<open>OPEN\<close>

definition bgp_put_cap_ipv4 :: "u8 list" where "bgp_put_cap_ipv4 = [1, 4, 0, BGP_AF, 0, 1]"
definition bgp_put_cap_rr :: "u8 list" where "bgp_put_cap_rr = [2, 0]"
definition bgp_put_cap_ext_msg :: "u8 list" where "bgp_put_cap_ext_msg = [6, 0]"

definition bgp_put_cap_gr1 :: "unaligned \<Rightarrow> session_cfg \<Rightarrow> bool \<Rightarrow> u8 list" where
  "bgp_put_cap_gr1 U cf gr_recovery =
     (let t = put_u16 U (ucast (sc_gr_time cf)) in
      [64, 6] @ (if gr_recovery then (hd t OR BGP_GRF_RESTART) # tl t else t) @
      [0, BGP_AF, 1, if gr_recovery then BGP_GRF_FORWARDING else 0])"

definition bgp_put_cap_gr2 :: "unaligned \<Rightarrow> u8 list" where "bgp_put_cap_gr2 U = [64, 2] @ put_u16 U 0"
definition bgp_put_cap_as4 :: "unaligned \<Rightarrow> u32 \<Rightarrow> u8 list" where "bgp_put_cap_as4 U local_as = [65, 4] @ put_u32 U local_as"

definition bgp_put_cap_add_path :: "session_cfg \<Rightarrow> u8 list" where
  "bgp_put_cap_add_path cf = [69, 4, 0, BGP_AF, 1, sc_add_path cf]"

definition bgp_put_cap_err :: "u8 list" where "bgp_put_cap_err = [70, 0]"

definition open_caps :: "unaligned \<Rightarrow> session_cfg \<Rightarrow> u32 \<Rightarrow> bool \<Rightarrow> u8 list" where
  "open_caps U cf local_as gr_recovery =
     (if sc_advertise_ipv4 cf then bgp_put_cap_ipv4 else []) @
     (if sc_enable_refresh cf then bgp_put_cap_rr else []) @
     (if sc_gr_mode cf = BGP_GR_ABLE then bgp_put_cap_gr1 U cf gr_recovery
      else if sc_gr_mode cf = BGP_GR_AWARE then bgp_put_cap_gr2 U else []) @
     (if sc_enable_as4 cf then bgp_put_cap_as4 U local_as else []) @
     (if sc_add_path cf \<noteq> 0 then bgp_put_cap_add_path cf else []) @
     (if sc_enable_refresh cf then bgp_put_cap_err else []) @
     (if sc_enable_ext cf then bgp_put_cap_ext_msg else [])"

text \<open>\<open>nocap\<close>: \<open>start_state\<close> is \<open>BSS_CONNECT_NOCAP\<close>.\<close>

definition bgp_create_open :: "unaligned \<Rightarrow> session_cfg \<Rightarrow> u32 \<Rightarrow> u32 \<Rightarrow> bool \<Rightarrow> bool \<Rightarrow> u8 list" where
  "bgp_create_open U cf local_as local_id gr_recovery nocap =
     (let hdr = [BGP_VERSION] @ put_u16 U (if local_as < 0xFFFF then ucast local_as else AS_TRANS) @
            put_u16 U (ucast (sc_hold_time cf)) @ put_u32 U local_id;
          caps = open_caps U cf local_as gr_recovery in
      if nocap \<or> caps = [] then hdr @ [0]
      else hdr @ [of_nat (length caps + 2), 2, of_nat (length caps)] @ caps)"

text \<open>The loops over the address families of a capability.\<close>

fun gr_families :: "u8 list \<Rightarrow> peer_caps \<Rightarrow> peer_caps" where
  "gr_families (a # b # c # d # r) pc =
     gr_families r (if a = 0 \<and> b = BGP_AF \<and> c = 1 then pc\<lparr>pc_gr_able := True, pc_gr_aflags := d\<rparr> else pc)"
| "gr_families r pc = pc"

fun add_path_families :: "u8 list \<Rightarrow> peer_caps \<Rightarrow> peer_caps" where
  "add_path_families (a # b # c # d # r) pc =
     add_path_families r (if a = 0 \<and> b = BGP_AF \<and> c = 1 then pc\<lparr>pc_add_path := d\<rparr> else pc)"
| "add_path_families r pc = pc"

text \<open>One capability; false is the jump to \<open>err\<close>.\<close>

definition parse_capability :: "unaligned \<Rightarrow> session_cfg \<Rightarrow> u8 \<Rightarrow> u8 list \<Rightarrow> peer_caps \<Rightarrow> peer_caps \<times> bool" where
  "parse_capability U cf code z pc =
     (if code = 2 then (if z \<noteq> [] then (pc, False) else (pc\<lparr>pc_refresh := True\<rparr>, True))
      else if code = 6 then (if z \<noteq> [] then (pc, False) else (pc\<lparr>pc_ext_messages := True\<rparr>, True))
      else if code = 64 then
        (if length z mod 4 \<noteq> 2 then (pc, False)
         else (gr_families (drop 2 z)
                 (pc\<lparr>pc_gr_aware := True, pc_gr_able := False, pc_gr_time := get_u16 U (take 2 z) AND 0x0fff,
                     pc_gr_flags := hd z AND 0xf0, pc_gr_aflags := 0\<rparr>), True))
      else if code = 65 then
        (if length z \<noteq> 4 then (pc, False)
         else (let pc = pc\<lparr>pc_as4 := True\<rparr>
               in if sc_enable_as4 cf then pc\<lparr>pc_advertised_as := get_u32 U z\<rparr> else pc, True))
      else if code = 69 then
        (if length z mod 4 \<noteq> 0 then (pc, False)
         else (let pc = add_path_families z pc in (pc, pc_add_path pc \<le> ADD_PATH_FULL)))
      else if code = 70 then (if z \<noteq> [] then (pc, False) else (pc\<lparr>pc_enhanced_refresh := True\<rparr>, True))
      else (pc, True))"

function bgp_parse_capabilities :: "unaligned \<Rightarrow> session_cfg \<Rightarrow> u8 list \<Rightarrow> peer_caps \<Rightarrow> peer_caps \<times> bool" where
  "bgp_parse_capabilities U cf opt pc =
     (if opt = [] then (pc, True)
      else if length opt < 2 \<or> length opt < 2 + unat (opt ! 1) then (pc, False)
      else let cl = unat (opt ! 1) in
        case parse_capability U cf (opt ! 0) (take cl (drop 2 opt)) pc of
          (pc, False) \<Rightarrow> (pc, False)
        | (pc, True) \<Rightarrow> bgp_parse_capabilities U cf (drop (2 + cl) opt) pc)"
  by pat_completeness auto
termination
  by (relation "measure (\<lambda>(_, _, opt, _). length opt)") auto

declare bgp_parse_capabilities.simps [simp del]

text \<open>
  \<open>bgp_parse_options\<close> with the calls of \<open>bgp_error\<close> that it makes, in this order: subcode and data of
  errors with the code 2. It goes on after an error in a capability, and it returns 0 in any case.
\<close>

function bgp_parse_options :: "unaligned \<Rightarrow> session_cfg \<Rightarrow> bool \<Rightarrow> u8 list \<Rightarrow> peer_caps \<Rightarrow> peer_caps \<times> (nat \<times> u8 list) list" where
  "bgp_parse_options U cf nocap opt pc =
     (if opt = [] then (pc, [])
      else if length opt < 2 \<or> length opt < 2 + unat (opt ! 1) then (pc, [(0, [])])
      else let ol = unat (opt ! 1) in
        if opt ! 0 = 2 then
          (case (if nocap then (pc, True) else bgp_parse_capabilities U cf (take ol (drop 2 opt)) pc) of
             (pc, ok) \<Rightarrow>
               (case bgp_parse_options U cf nocap (drop (2 + ol) opt) pc of
                  (pc, errs) \<Rightarrow> (pc, if ok then errs else (0, []) # errs)))
        else (pc, [(4, take ol opt)]))"
  by pat_completeness auto
termination
  by (relation "measure (\<lambda>(_, _, _, opt, _). length opt)") auto

declare bgp_parse_options.simps [simp del]

section \<open>UPDATE\<close>

text \<open>A prefix in a message: the path id, the address and the length.\<close>

type_synonym nlri = "u32 \<times> u32 \<times> u8"

definition put_prefix :: "unaligned \<Rightarrow> bool \<Rightarrow> nlri \<Rightarrow> u8 list" where
  "put_prefix U add_path n =
     (case n of (path_id, a, len) \<Rightarrow>
        (if add_path then put_u32 U path_id else []) @ [len] @ take ((unat len + 7) div 8) (put_u32 U a))"

text \<open>The bytes, and the prefixes that are left in the bucket.\<close>

fun bgp_encode_prefixes :: "unaligned \<Rightarrow> bool \<Rightarrow> nat \<Rightarrow> nlri list \<Rightarrow> u8 list \<times> nlri list" where
  "bgp_encode_prefixes U add_path remains [] = ([], [])"
| "bgp_encode_prefixes U add_path remains (n # ns) =
     (if remains < 5 + 4 then ([], n # ns)
      else let b = put_prefix U add_path n in
        case bgp_encode_prefixes U add_path (remains - length b) ns of (w, rest) \<Rightarrow> (b @ w, rest))"

text \<open>
  The queue of buckets: attributes and prefixes. The result is the attributes and the prefixes that are
  written and the rest of the queue; buckets without prefixes and those whose attributes do not fit are freed.
\<close>

type_synonym bucket = "eattr list \<times> nlri list"

fun update_buckets :: "bgp_lib \<Rightarrow> bgp_proto \<Rightarrow> bool \<Rightarrow> nat \<Rightarrow> bucket list \<Rightarrow> ((u8 list \<times> u8 list) option \<times> bucket list) res" where
  "update_buckets L p add_path remains [] = Inr (None, [])"
| "update_buckets L p add_path remains ((attrs, ns) # bs) =
     (if ns = [] then update_buckets L p add_path remains bs
      else rbind (bgp_encode_attrs L p attrs (int remains - 1024)) (\<lambda>r.
        case r of
          None \<Rightarrow> update_buckets L p add_path remains bs
        | Some a \<Rightarrow>
            (case bgp_encode_prefixes (bl_net L) add_path (remains - length a) ns of
               (w, rest) \<Rightarrow> Inr (Some (a, w), (attrs, rest) # bs))))"

text \<open>The body of an UPDATE (\<open>None\<close>: nothing to send), the withdrawn prefixes left, and the buckets left.\<close>

definition bgp_create_update ::
  "bgp_lib \<Rightarrow> bgp_proto \<Rightarrow> bool \<Rightarrow> bool \<Rightarrow> nlri list \<Rightarrow> bucket list \<Rightarrow> (u8 list option \<times> nlri list \<times> bucket list) res" where
  "bgp_create_update L p ext add_path wd bs =
     (let U = bl_net L; remains = bgp_max_packet_length ext - BGP_HEADER_LENGTH - 4;
          (w, wd') = (if wd \<noteq> [] then bgp_encode_prefixes U add_path remains wd else ([], wd)) in
      if w \<noteq> [] then Inr (Some (put_u16 U (of_nat (length w)) @ w @ put_u16 U 0), wd', bs)
      else rbind (update_buckets L p add_path remains bs) (\<lambda>(r, bs').
        case r of
          None \<Rightarrow> Inr (None, wd', bs')
        | Some (a, n) \<Rightarrow>
            Inr (if n = [] then None
                 else Some (put_u16 U 0 @ put_u16 U (of_nat (length a)) @ a @ n @ (if a = [] then put_u16 U 0 else [])),
                 wd', bs')))"

text \<open>The macro \<open>DECODE_PREFIX\<close> in a loop: the prefixes, and the subcode of the error that ends it, 0 if none.
  The bytes of the address that are not sent are not set; the mask clears them.\<close>

function decode_prefixes :: "unaligned \<Rightarrow> u32 ip_ops \<Rightarrow> bool \<Rightarrow> u8 list \<Rightarrow> nlri list \<times> nat" where
  "decode_prefixes U I add_path b =
     (if b = [] then ([], 0)
      else if add_path \<and> length b < 5 then ([], 1)
      else let path_id = (if add_path then get_u32 U (take 4 b) else 0);
               c = (if add_path then drop 4 b else b); len = hd c; q = (unat len + 7) div 8; d = tl c in
        if unat len > 32 then ([], 10)
        else if length d < q then ([], 1)
        else (case decode_prefixes U I add_path (drop q d) of
                (ns, err) \<Rightarrow>
                  ((path_id, ipa_and I (get_u32 U (take 4 (take q d @ replicate 4 0))) (ipa_mkmask I (unat len)), len) # ns, err)))"
  by pat_completeness auto
termination
  by (relation "measure (\<lambda>(_, _, _, b). length b)") (auto simp: Let_def)

declare decode_prefixes.simps [simp del]

text \<open>The parts of an UPDATE of at least 23 bytes, \<open>None\<close> is the jump to \<open>malformed\<close>. A read outside of the
  message does not happen: the bytes of the packet from its start are given.\<close>

definition split_update :: "unaligned \<Rightarrow> u8 list \<Rightarrow> (u8 list \<times> u8 list \<times> u8 list) option res" where
  "split_update U pkt =
     rbind (rd_u16 U (drop 19 pkt)) (\<lambda>wl. let withdrawn_len = unat wl in
       if withdrawn_len + 23 > length pkt then Inr None
       else rbind (rd_u16 U (drop (21 + withdrawn_len) pkt)) (\<lambda>al. let attr_len = unat al in
         if withdrawn_len + attr_len + 23 > length pkt then Inr None
         else let nlri = drop (23 + withdrawn_len + attr_len) pkt in
           if attr_len = 0 \<and> nlri \<noteq> [] then Inr None
           else Inr (Some (take withdrawn_len (drop 21 pkt), take attr_len (drop (23 + withdrawn_len) pkt), nlri))))"

section \<open>Other messages\<close>

definition bgp_create_notification :: "nat \<Rightarrow> nat \<Rightarrow> u8 list \<Rightarrow> u8 list" where
  "bgp_create_notification code subcode data = [of_nat code, of_nat subcode] @ data"

definition bgp_create_end_mark :: "unaligned \<Rightarrow> u8 list" where "bgp_create_end_mark U = put_u32 U 0"
definition bgp_create_route_refresh :: "u8 list" where "bgp_create_route_refresh = [0, BGP_AF, BGP_RR_REQUEST, 1]"
definition bgp_create_begin_refresh :: "u8 list" where "bgp_create_begin_refresh = [0, BGP_AF, BGP_RR_BEGIN, 1]"
definition bgp_create_end_refresh :: "u8 list" where "bgp_create_end_refresh = [0, BGP_AF, BGP_RR_END, 1]"

definition bgp_create_header :: "unaligned \<Rightarrow> nat \<Rightarrow> u8 \<Rightarrow> u8 list" where
  "bgp_create_header U len type = replicate 16 0xff @ put_u16 U (of_nat len) @ [type]"

end
