(* ===== verification/ProtoCore.thy ===== *)
theory ProtoCore
  imports Bird_Prelude
begin

text \<open>
  The life cycle of a protocol instance (\<open>nest/proto.c\<close>): the state that the protocol reports, the state
  of its connection to the routing tables, and the state of the export of routes to it; starting,
  stopping, feeding, flushing, and the recovery of a graceful restart.
\<close>

section \<open>State\<close>

datatype proto_st = PS_DOWN | PS_START | PS_UP | PS_STOP
datatype core_st = FS_HUNGRY | FS_HAPPY | FS_FLUSHING
datatype export_st = ES_DOWN | ES_FEEDING | ES_READY
datatype gr_st = GRS_NONE | GRS_INIT | GRS_ACTIVE | GRS_DONE
datatype attn_fun = Proto_feed_initial | Proto_feed_more

text \<open>
  The record begins with the variables of the module that all instances share: \<open>graceful_restart_state\<close>,
  \<open>graceful_restart_locks\<close>, \<open>gr_wait_timer\<close> (whether it was set to fire at once) and \<open>flush_loop_state\<close>.
  The fields of \<open>struct proto\<close> follow; the protocols extend the record by their own ones.

  \<open>p_pool\<close>: the pool of the instance exists. \<open>p_hooked\<close>: it has its announce hook, and \<open>p_linked\<close>: the
  hook is in the list of its table. \<open>p_source\<close>, \<open>p_locked\<close>: it holds its main source and its table.
  \<open>p_mark\<close>: its tables are marked for pruning. \<open>p_fell\<close>: \<open>proto_fell_down\<close> is the next call; it is the last
  action of \<open>proto_notify_state\<close>. \<open>p_gone\<close>: the instance was freed.
\<close>

record proto =
  gr_state :: gr_st
  gr_locks :: u32
  gr_now :: bool
  flush_round :: bool
  p_multitable :: bool
  p_disabled :: bool
  proto_state :: proto_st
  core_state :: core_st
  export_state :: export_st
  p_reconfiguring :: bool
  p_refeeding :: bool
  p_flushing :: bool
  gr_recovery :: bool
  gr_lock :: bool
  gr_wait :: bool
  down_sched :: u8
  down_code :: u8
  p_attn :: "attn_fun option"
  p_attn_active :: bool
  p_pool :: bool
  p_hooked :: bool
  p_linked :: bool
  p_source :: bool
  p_locked :: bool
  p_mark :: bool
  st_imp_routes :: u32
  st_filt_routes :: u32
  st_exp_routes :: u32
  p_message :: "u8 list"
  p_fell :: bool
  p_gone :: bool

definition PDS_DISABLE :: u8 where "PDS_DISABLE = 1"
definition PDS_RESTART :: u8 where "PDS_RESTART = 2"
definition PDC_CF_REMOVE :: u8 where "PDC_CF_REMOVE = 0x01"
definition PDC_CF_DISABLE :: u8 where "PDC_CF_DISABLE = 0x02"
definition PDC_CF_RESTART :: u8 where "PDC_CF_RESTART = 0x03"
definition PDC_CMD_DISABLE :: u8 where "PDC_CMD_DISABLE = 0x11"
definition PDC_CMD_RESTART :: u8 where "PDC_CMD_RESTART = 0x12"
definition PDC_CMD_SHUTDOWN :: u8 where "PDC_CMD_SHUTDOWN = 0x13"
definition PDC_RX_LIMIT_HIT :: u8 where "PDC_RX_LIMIT_HIT = 0x21"
definition PDC_IN_LIMIT_HIT :: u8 where "PDC_IN_LIMIT_HIT = 0x22"
definition PDC_OUT_LIMIT_HIT :: u8 where "PDC_OUT_LIMIT_HIT = 0x23"

text \<open>
  The functions of the protocol that this module calls. A \<open>start\<close> or \<open>shutdown\<close> that the protocol does not
  have is the one that returns \<open>PS_UP\<close> or \<open>PS_DOWN\<close>. \<open>h_renew\<close> is \<open>proto_init\<close> with the configuration
  \<open>cf_new\<close> in place of the freed instance, \<open>None\<close> if there is no such configuration. \<open>h_reload\<close> is
  \<open>reload_routes\<close> with its result, false if the protocol does not have it.
\<close>

record 'p proto_hooks =
  h_start :: "'p \<Rightarrow> ('p \<times> proto_st) res"
  h_shutdown :: "'p \<Rightarrow> ('p \<times> proto_st) res"
  h_feed_begin :: "'p \<Rightarrow> bool \<Rightarrow> 'p"
  h_feed_end :: "'p \<Rightarrow> 'p"
  h_cleanup :: "'p \<Rightarrow> 'p"
  h_reload :: "'p \<Rightarrow> 'p \<times> bool"
  h_renew :: "'p \<Rightarrow> 'p option"

definition ASSERT :: "bool \<Rightarrow> 'a res \<Rightarrow> 'a res" where
  "ASSERT b r = (if b then r else Inl Assert_failed)"

lemma ASSERT_simps [simp]: "ASSERT True r = r" "ASSERT False r = Inl Assert_failed"
  by (simp_all add: ASSERT_def)

section \<open>Graceful restart of the router\<close>

definition proto_graceful_restart_lock :: "'a proto_scheme \<Rightarrow> 'a proto_scheme res" where
  "proto_graceful_restart_lock p =
     ASSERT (gr_state p = GRS_INIT) (ASSERT (gr_recovery p)
       (Inr (if gr_lock p then p else p\<lparr>gr_lock := True, gr_locks := gr_locks p + 1\<rparr>)))"

definition proto_graceful_restart_unlock :: "'a proto_scheme \<Rightarrow> 'a proto_scheme" where
  "proto_graceful_restart_unlock p =
     (if \<not> gr_lock p then p
      else p\<lparr>gr_lock := False, gr_locks := gr_locks p - 1,
             gr_now := (gr_now p \<or> gr_state p = GRS_ACTIVE \<and> gr_locks p - 1 = 0)\<rparr>)"

section \<open>Feeding\<close>

text \<open>\<open>proto_schedule_feed\<close>; \<open>fb\<close> is the hook \<open>feed_begin\<close> of the protocol.\<close>

definition proto_schedule_feed :: "('a proto_scheme \<Rightarrow> bool \<Rightarrow> 'a proto_scheme) \<Rightarrow> bool \<Rightarrow> 'a proto_scheme \<Rightarrow> 'a proto_scheme" where
  "proto_schedule_feed fb initial p =
     fb (p\<lparr>export_state := ES_FEEDING, p_refeeding := \<not> initial,
           p_attn := Some (if initial then Proto_feed_initial else Proto_feed_more), p_attn_active := True\<rparr>) initial"

text \<open>The event of a protocol that is fed; \<open>fed\<close> is the result of \<open>rt_feed_baby\<close>, whether all is sent.\<close>

definition proto_feed_more :: "('a proto_scheme \<Rightarrow> 'a proto_scheme) \<Rightarrow> bool \<Rightarrow> 'a proto_scheme \<Rightarrow> 'a proto_scheme" where
  "proto_feed_more fe fed p =
     (if export_state p \<noteq> ES_FEEDING then p
      else if fed then fe (p\<lparr>export_state := ES_READY\<rparr>)
      else p\<lparr>p_attn := Some Proto_feed_more, p_attn_active := True\<rparr>)"

definition proto_feed_initial :: "('a proto_scheme \<Rightarrow> 'a proto_scheme) \<Rightarrow> bool \<Rightarrow> 'a proto_scheme \<Rightarrow> 'a proto_scheme" where
  "proto_feed_initial fe fed p = (if export_state p \<noteq> ES_FEEDING then p else proto_feed_more fe fed p)"

definition run_attn :: "('a proto_scheme \<Rightarrow> 'a proto_scheme) \<Rightarrow> bool \<Rightarrow> 'a proto_scheme \<Rightarrow> 'a proto_scheme" where
  "run_attn fe fed p =
     (let q = p\<lparr>p_attn_active := False\<rparr> in
      case p_attn p of None \<Rightarrow> q
      | Some Proto_feed_initial \<Rightarrow> proto_feed_initial fe fed q
      | Some Proto_feed_more \<Rightarrow> proto_feed_more fe fed q)"

definition proto_request_feeding :: "('a proto_scheme \<Rightarrow> bool \<Rightarrow> 'a proto_scheme) \<Rightarrow> 'a proto_scheme \<Rightarrow> 'a proto_scheme res" where
  "proto_request_feeding fb p =
     ASSERT (proto_state p = PS_UP)
       (Inr (if export_state p = ES_DOWN \<or> export_state p = ES_FEEDING \<and> p_attn p = Some Proto_feed_initial then p
             else proto_schedule_feed fb False (p\<lparr>st_exp_routes := 0\<rparr>)))"

section \<open>Connection to the tables and changes of the state\<close>

definition proto_want_core_up :: "'a proto_scheme \<Rightarrow> 'a proto_scheme res" where
  "proto_want_core_up p =
     ASSERT (core_state p = FS_HUNGRY)
       (Inr (let p = (if p_multitable p then p else p\<lparr>p_source := True, p_hooked := True\<rparr>)
             in p\<lparr>core_state := FS_HAPPY\<rparr>))"

definition proto_want_export_up ::
  "('a proto_scheme \<Rightarrow> bool \<Rightarrow> 'a proto_scheme) \<Rightarrow> 'a proto_scheme \<Rightarrow> 'a proto_scheme res" where
  "proto_want_export_up fb p =
     ASSERT (core_state p = FS_HAPPY) (ASSERT (export_state p = ES_DOWN)
       (Inr (proto_schedule_feed fb True (p\<lparr>p_linked := True\<rparr>))))"

definition proto_want_export_down :: "'a proto_scheme \<Rightarrow> 'a proto_scheme res" where
  "proto_want_export_down p =
     ASSERT (export_state p \<noteq> ES_DOWN) (Inr (p\<lparr>export_state := ES_DOWN, st_exp_routes := 0, p_linked := False\<rparr>))"

text \<open>\<open>proto_schedule_flush_loop\<close> as far as this instance is concerned.\<close>

definition proto_schedule_flush_loop :: "'a proto_scheme \<Rightarrow> 'a proto_scheme" where
  "proto_schedule_flush_loop p =
     (if flush_round p then p
      else let p = p\<lparr>flush_round := True\<rparr>
           in if core_state p = FS_FLUSHING then p\<lparr>p_flushing := True, p_mark := True\<rparr> else p)"

definition proto_want_core_down :: "'a proto_scheme \<Rightarrow> 'a proto_scheme res" where
  "proto_want_core_down p =
     ASSERT (core_state p = FS_HAPPY) (ASSERT (export_state p = ES_DOWN)
       (Inr (let p = proto_schedule_flush_loop (p\<lparr>core_state := FS_FLUSHING\<rparr>)
             in if p_multitable p then p else p\<lparr>p_source := False\<rparr>)))"

definition proto_falling_down :: "'a proto_scheme \<Rightarrow> 'a proto_scheme" where
  "proto_falling_down p = proto_graceful_restart_unlock (p\<lparr>gr_recovery := False, gr_wait := False\<rparr>)"

definition when_res :: "bool \<Rightarrow> ('p \<Rightarrow> 'p res) \<Rightarrow> 'p \<Rightarrow> 'p res" where
  "when_res b f p = (if b then f p else Inr p)"

lemma when_res_simps [simp]: "when_res True f p = f p" "when_res False f p = Inr p"
  by (simp_all add: when_res_def)

text \<open>
  \<open>proto_notify_state\<close> without the call of \<open>proto_fell_down\<close> in its end, which \<open>p_fell\<close> records.
\<close>

definition notify_state ::
  "('a proto_scheme \<Rightarrow> bool \<Rightarrow> 'a proto_scheme) \<Rightarrow> proto_st \<Rightarrow> 'a proto_scheme \<Rightarrow> 'a proto_scheme res" where
  "notify_state fb ps p0 =
     (let ops = proto_state p0; cs = core_state p0; es = export_state p0; p = p0\<lparr>proto_state := ps\<rparr> in
      if ops = ps then Inr p0
      else case ps of
        PS_START \<Rightarrow>
          ASSERT (ops = PS_DOWN \<or> ops = PS_UP) (ASSERT (cs = FS_HUNGRY \<or> cs = FS_HAPPY)
            (when_res (es \<noteq> ES_DOWN) proto_want_export_down p))
      | PS_UP \<Rightarrow>
          ASSERT (ops = PS_DOWN \<or> ops = PS_START) (ASSERT (cs = FS_HUNGRY \<or> cs = FS_HAPPY) (ASSERT (es = ES_DOWN)
            (rbind (when_res (cs = FS_HUNGRY) proto_want_core_up p)
              (\<lambda>p. when_res (\<not> gr_wait p) (proto_want_export_up fb) p))))
      | PS_STOP \<Rightarrow>
          ASSERT (ops = PS_START \<or> ops = PS_UP)
            (rbind (when_res (es \<noteq> ES_DOWN) proto_want_export_down (p\<lparr>down_sched := 0\<rparr>))
              (\<lambda>p. rbind (when_res (cs = FS_HAPPY) proto_want_core_down p) (\<lambda>p. Inr (proto_falling_down p))))
      | PS_DOWN \<Rightarrow>
          rbind (when_res (es \<noteq> ES_DOWN) proto_want_export_down (p\<lparr>down_code := 0, down_sched := 0\<rparr>))
            (\<lambda>p. rbind (when_res (cs = FS_HAPPY) proto_want_core_down p)
              (\<lambda>p. Inr ((if ops \<noteq> PS_STOP then proto_falling_down p else p)\<lparr>p_pool := False, p_fell := (cs = FS_HUNGRY)\<rparr>))))"

section \<open>Starting and stopping\<close>

definition proto_init_instance :: "'a proto_scheme \<Rightarrow> 'a proto_scheme" where
  "proto_init_instance p =
     p\<lparr>p_pool := True, p_attn := None, p_attn_active := False, gr_recovery := (gr_recovery p \<or> gr_state p = GRS_INIT),
       p_locked := (p_locked p \<or> \<not> p_multitable p)\<rparr>"

text \<open>\<open>proto_rethink_goal\<close> up to the call of \<open>proto_fell_down\<close>.\<close>

definition goal_up :: "'a proto_scheme \<Rightarrow> bool" where
  "goal_up p \<longleftrightarrow> \<not> (p_disabled p \<or> p_reconfiguring p)"

definition move_to_goal :: "'a proto_scheme proto_hooks \<Rightarrow> 'a proto_scheme \<Rightarrow> 'a proto_scheme res" where
  "move_to_goal H p =
     (if goal_up p then
        if proto_state p = PS_DOWN \<and> core_state p = FS_HUNGRY then
          rbind (h_start H (proto_init_instance p)) (\<lambda>(q, ps). notify_state (h_feed_begin H) ps q)
        else Inr p
      else if proto_state p = PS_START \<or> proto_state p = PS_UP then
        rbind (h_shutdown H p) (\<lambda>(q, ps). notify_state (h_feed_begin H) ps q)
      else Inr p)"

definition rethink_step :: "'a proto_scheme proto_hooks \<Rightarrow> 'a proto_scheme \<Rightarrow> 'a proto_scheme res" where
  "rethink_step H p =
     (if p_reconfiguring p \<and> core_state p = FS_HUNGRY \<and> proto_state p = PS_DOWN then
        (case h_renew H p of None \<Rightarrow> Inr (p\<lparr>p_gone := True\<rparr>) | Some q \<Rightarrow> move_to_goal H q)
      else move_to_goal H p)"

text \<open>\<open>proto_fell_down\<close> before its call of \<open>proto_rethink_goal\<close>.\<close>

definition fell_down :: "'a proto_scheme proto_hooks \<Rightarrow> 'a proto_scheme \<Rightarrow> 'a proto_scheme" where
  "fell_down H p =
     h_cleanup H (p\<lparr>p_fell := False, st_imp_routes := 0, st_filt_routes := 0, st_exp_routes := 0,
       p_hooked := False, p_locked := (p_locked p \<and> p_multitable p)\<rparr>)"

text \<open>
  \<open>proto_fell_down\<close> and \<open>proto_rethink_goal\<close> call each other: the calls that are still to be made when
  \<open>p_fell\<close> is set, with a bound on their number; \<open>None\<close> if the bound is too small.
\<close>

fun settle :: "'a proto_scheme proto_hooks \<Rightarrow> nat \<Rightarrow> 'a proto_scheme res \<Rightarrow> 'a proto_scheme res option" where
  "settle H n (Inl e) = Some (Inl e)"
| "settle H 0 (Inr p) = (if p_fell p then None else Some (Inr p))"
| "settle H (Suc n) (Inr p) = (if p_fell p then settle H n (rethink_step H (fell_down H p)) else Some (Inr p))"

definition proto_rethink_goal :: "'a proto_scheme proto_hooks \<Rightarrow> nat \<Rightarrow> 'a proto_scheme \<Rightarrow> 'a proto_scheme res option" where
  "proto_rethink_goal H n p = settle H n (rethink_step H p)"

definition proto_notify_state ::
  "'a proto_scheme proto_hooks \<Rightarrow> nat \<Rightarrow> proto_st \<Rightarrow> 'a proto_scheme \<Rightarrow> 'a proto_scheme res option" where
  "proto_notify_state H n ps p = settle H n (notify_state (h_feed_begin H) ps p)"

definition proto_fell_down :: "'a proto_scheme proto_hooks \<Rightarrow> nat \<Rightarrow> 'a proto_scheme \<Rightarrow> 'a proto_scheme res option" where
  "proto_fell_down H n p = settle H n (rethink_step H (fell_down H p))"

text \<open>Two calls one after the other.\<close>

definition obind :: "'a res option \<Rightarrow> ('a \<Rightarrow> 'b res option) \<Rightarrow> 'b res option" where
  "obind r f = (case r of None \<Rightarrow> None | Some (Inl e) \<Rightarrow> Some (Inl e) | Some (Inr x) \<Rightarrow> f x)"

section \<open>Scheduled shutdown\<close>

definition proto_schedule_down :: "bool \<Rightarrow> u8 \<Rightarrow> 'a proto_scheme \<Rightarrow> 'a proto_scheme res" where
  "proto_schedule_down restart code p =
     ASSERT (proto_state p = PS_UP)
       (Inr (if down_sched p = PDS_DISABLE then p
             else p\<lparr>down_sched := (if restart then PDS_RESTART else PDS_DISABLE), down_code := code\<rparr>))"

definition proto_shutdown_loop :: "'a proto_scheme proto_hooks \<Rightarrow> nat \<Rightarrow> 'a proto_scheme \<Rightarrow> 'a proto_scheme res option" where
  "proto_shutdown_loop H n p =
     (if core_state p = FS_HAPPY \<and> down_sched p \<noteq> 0 then
        (let restart = (down_sched p = PDS_RESTART) in
         obind (proto_rethink_goal H n (p\<lparr>p_disabled := True\<rparr>))
           (\<lambda>q. if restart then proto_rethink_goal H n (q\<lparr>p_disabled := False\<rparr>) else Some (Inr q)))
      else Some (Inr p))"

section \<open>Flushing\<close>

text \<open>\<open>pruned\<close> is the result of \<open>rt_prune_loop\<close>: the marked tables are pruned.\<close>

definition proto_flush_loop :: "'a proto_scheme proto_hooks \<Rightarrow> nat \<Rightarrow> bool \<Rightarrow> 'a proto_scheme \<Rightarrow> 'a proto_scheme res option" where
  "proto_flush_loop H n pruned p =
     (if \<not> pruned then Some (Inr p)
      else obind
        (if core_state p = FS_FLUSHING \<and> p_flushing p then
           (let q = p\<lparr>p_flushing := False, core_state := FS_HUNGRY\<rparr>
            in if proto_state p = PS_DOWN then proto_fell_down H n q else Some (Inr q))
         else Some (Inr p))
        (\<lambda>q. Some (Inr (let r = q\<lparr>flush_round := False\<rparr>
                        in if core_state r = FS_FLUSHING then proto_schedule_flush_loop r else r))))"

section \<open>Phases of a graceful restart\<close>

definition graceful_restart_recovery :: "'a proto_scheme \<Rightarrow> 'a proto_scheme" where
  "graceful_restart_recovery p = p\<lparr>gr_state := GRS_INIT\<rparr>"

definition graceful_restart_done ::
  "('a proto_scheme \<Rightarrow> bool \<Rightarrow> 'a proto_scheme) \<Rightarrow> 'a proto_scheme \<Rightarrow> 'a proto_scheme res" where
  "graceful_restart_done fb p =
     (let p = p\<lparr>gr_state := GRS_DONE\<rparr> in
      rbind (if gr_recovery p then
               rmap (\<lambda>q. q\<lparr>gr_recovery := False, gr_wait := False, gr_lock := False\<rparr>)
                 (when_res (proto_state p = PS_UP \<and> gr_wait p) (proto_want_export_up fb) p)
             else Inr p)
        (\<lambda>q. Inr (q\<lparr>gr_locks := 0\<rparr>)))"

definition graceful_restart_init ::
  "('a proto_scheme \<Rightarrow> bool \<Rightarrow> 'a proto_scheme) \<Rightarrow> 'a proto_scheme \<Rightarrow> 'a proto_scheme res" where
  "graceful_restart_init fb p =
     (if gr_state p = GRS_NONE then Inr p
      else if gr_locks p = 0 then graceful_restart_done fb p
      else Inr (p\<lparr>gr_state := GRS_ACTIVE, gr_now := False\<rparr>))"

section \<open>Commands\<close>

text \<open>The message of a command is NULL or a string.\<close>

definition proto_set_message :: "u8 list option \<Rightarrow> 'a proto_scheme \<Rightarrow> 'a proto_scheme" where
  "proto_set_message msg p = p\<lparr>p_message := (case msg of None \<Rightarrow> [] | Some m \<Rightarrow> m)\<rparr>"

definition proto_cmd_disable ::
  "'a proto_scheme proto_hooks \<Rightarrow> nat \<Rightarrow> u8 list option \<Rightarrow> 'a proto_scheme \<Rightarrow> 'a proto_scheme res option" where
  "proto_cmd_disable H n arg p =
     (if p_disabled p then Some (Inr p)
      else proto_rethink_goal H n (proto_set_message arg (p\<lparr>p_disabled := True, down_code := PDC_CMD_DISABLE\<rparr>)))"

definition proto_cmd_enable ::
  "'a proto_scheme proto_hooks \<Rightarrow> nat \<Rightarrow> u8 list option \<Rightarrow> 'a proto_scheme \<Rightarrow> 'a proto_scheme res option" where
  "proto_cmd_enable H n arg p =
     (if \<not> p_disabled p then Some (Inr p)
      else proto_rethink_goal H n (proto_set_message arg (p\<lparr>p_disabled := False\<rparr>)))"

definition proto_cmd_restart ::
  "'a proto_scheme proto_hooks \<Rightarrow> nat \<Rightarrow> u8 list option \<Rightarrow> 'a proto_scheme \<Rightarrow> 'a proto_scheme res option" where
  "proto_cmd_restart H n arg p =
     (if p_disabled p then Some (Inr p)
      else obind (proto_rethink_goal H n (proto_set_message arg (p\<lparr>p_disabled := True, down_code := PDC_CMD_RESTART\<rparr>)))
        (\<lambda>q. proto_rethink_goal H n (q\<lparr>p_disabled := False\<rparr>)))"

datatype reload_dir = CMD_RELOAD | CMD_RELOAD_IN | CMD_RELOAD_OUT

definition proto_cmd_reload :: "'a proto_scheme proto_hooks \<Rightarrow> reload_dir \<Rightarrow> 'a proto_scheme \<Rightarrow> 'a proto_scheme res" where
  "proto_cmd_reload H dir p =
     (if p_disabled p \<or> proto_state p \<noteq> PS_UP then Inr p
      else (let (q, ok) = (if dir \<noteq> CMD_RELOAD_OUT then h_reload H p else (p, True)) in
        if \<not> ok then Inr q
        else if dir \<noteq> CMD_RELOAD_IN then proto_request_feeding (h_feed_begin H) q
        else Inr q))"

definition proto_state_name :: "'a proto_scheme \<Rightarrow> string" where
  "proto_state_name p =
     (case (proto_state p, core_state p) of
        (PS_DOWN, FS_HUNGRY) \<Rightarrow> ''down''
      | (PS_START, FS_HUNGRY) \<Rightarrow> ''start''
      | (PS_START, FS_HAPPY) \<Rightarrow> ''start''
      | (PS_UP, FS_HAPPY) \<Rightarrow> (case export_state p of ES_DOWN \<Rightarrow> ''wait'' | ES_FEEDING \<Rightarrow> ''feed'' | ES_READY \<Rightarrow> ''up'')
      | (PS_STOP, FS_HUNGRY) \<Rightarrow> ''stop''
      | (PS_STOP, FS_FLUSHING) \<Rightarrow> ''stop''
      | (PS_DOWN, FS_FLUSHING) \<Rightarrow> ''flush''
      | _ \<Rightarrow> ''???'')"

end
