(* ===== verification/ProtoSafe.thy ===== *)
theory ProtoSafe
  imports ProtoCore
begin

text \<open>
  The states of a protocol instance fit together: the invariant that the assertions of \<open>nest/proto.c\<close>
  rest on, for every protocol whose hooks keep to their contract.
\<close>

section \<open>What a call returns\<close>

definition returns :: "'a res \<Rightarrow> ('a \<Rightarrow> bool) \<Rightarrow> bool" where
  "returns r P \<longleftrightarrow> (\<exists>q. r = Inr q \<and> P q)"

definition ends :: "'a res option \<Rightarrow> ('a \<Rightarrow> bool) \<Rightarrow> bool" where
  "ends r P \<longleftrightarrow> (\<exists>q. r = Some (Inr q) \<and> P q)"

lemma returns_Inr [simp]: "returns (Inr q) P \<longleftrightarrow> P q"
  by (simp add: returns_def)

lemma returns_Inl [simp]: "\<not> returns (Inl e) P"
  by (simp add: returns_def)

lemma returns_rbind [simp]: "returns (rbind r f) P \<longleftrightarrow> returns r (\<lambda>x. returns (f x) P)"
  by (auto simp: returns_def fault_simps)

lemma returns_rmap [simp]: "returns (rmap g r) P \<longleftrightarrow> returns r (\<lambda>x. P (g x))"
  by (auto simp: returns_def fault_simps)

lemma returns_ASSERT [simp]: "returns (ASSERT b r) P \<longleftrightarrow> b \<and> returns r P"
  by (simp add: ASSERT_def)

lemma ends_Some [simp]: "ends (Some r) P \<longleftrightarrow> returns r P"
  by (auto simp: ends_def returns_def)

lemma ends_obind [simp]: "ends (obind s f) P \<longleftrightarrow> ends s (\<lambda>x. ends (f x) P)"
  by (auto simp: ends_def obind_def split: option.split sum.split)

lemma returns_mono: "returns r P \<Longrightarrow> (\<And>x. r = Inr x \<Longrightarrow> P x \<Longrightarrow> Q x) \<Longrightarrow> returns r Q"
  by (auto simp: returns_def)

lemma ends_mono: "ends r P \<Longrightarrow> (\<And>x. r = Some (Inr x) \<Longrightarrow> P x \<Longrightarrow> Q x) \<Longrightarrow> ends r Q"
  by (auto simp: ends_def)

section \<open>The invariant\<close>

text \<open>The three states, the links to the tables, and the wait for a graceful restart.\<close>

definition core_states :: "'a proto_scheme \<Rightarrow> bool" where
  "core_states p \<longleftrightarrow>
     (case proto_state p of
        PS_DOWN \<Rightarrow> core_state p \<noteq> FS_HAPPY \<and> export_state p = ES_DOWN
      | PS_START \<Rightarrow> core_state p \<noteq> FS_FLUSHING \<and> export_state p = ES_DOWN
      | PS_UP \<Rightarrow> core_state p = FS_HAPPY
      | PS_STOP \<Rightarrow> core_state p \<noteq> FS_HAPPY \<and> export_state p = ES_DOWN) \<and>
     (p_linked p \<longleftrightarrow> export_state p \<noteq> ES_DOWN) \<and>
     (p_flushing p \<longrightarrow> core_state p = FS_FLUSHING) \<and> (core_state p = FS_FLUSHING \<longrightarrow> flush_round p) \<and>
     (gr_wait p \<longrightarrow> export_state p = ES_DOWN)"

definition core_ok :: "'a proto_scheme \<Rightarrow> bool" where
  "core_ok p \<longleftrightarrow> core_states p \<and>
     (proto_state p = PS_DOWN \<or> proto_state p = PS_STOP \<longrightarrow> \<not> gr_recovery p \<and> \<not> gr_lock p)"

lemma truncate_eqD:
  assumes "proto.truncate p = proto.truncate q"
  shows "core_states p \<longleftrightarrow> core_states q" "core_ok p \<longleftrightarrow> core_ok q" "proto_state p = proto_state q"
    "core_state p = core_state q" "export_state p = export_state q" "p_fell p = p_fell q" "p_disabled p = p_disabled q"
    "p_reconfiguring p = p_reconfiguring q" "p_gone p = p_gone q" "gr_state p = gr_state q" "gr_recovery p = gr_recovery q"
  using assms by (simp_all add: proto.truncate_def core_states_def core_ok_def split: proto_st.split)

text \<open>The changes of the state that \<open>proto_notify_state\<close> accepts.\<close>

definition can_notify :: "'a proto_scheme \<Rightarrow> proto_st \<Rightarrow> bool" where
  "can_notify p ps \<longleftrightarrow>
     (case ps of
        PS_START \<Rightarrow> proto_state p \<noteq> PS_STOP \<and> core_state p \<noteq> FS_FLUSHING
      | PS_UP \<Rightarrow> proto_state p \<noteq> PS_STOP \<and> core_state p \<noteq> FS_FLUSHING
      | PS_STOP \<Rightarrow> proto_state p \<noteq> PS_DOWN
      | PS_DOWN \<Rightarrow> True)"

lemma core_state_cases: "core_state p = FS_HUNGRY \<or> core_state p = FS_HAPPY \<or> core_state p = FS_FLUSHING"
  by (cases "core_state p") simp_all

lemmas core_defs = proto_want_core_up_def proto_want_export_up_def proto_want_export_down_def proto_want_core_down_def
  proto_falling_down_def proto_graceful_restart_unlock_def proto_schedule_flush_loop_def

text \<open>What a notification changes beside the state: only \<open>feed_begin\<close> changes the fields of the protocol.\<close>

lemma notify_START:
  assumes "core_states p" "can_notify p PS_START" "\<not> p_fell p"
  obtains q where "notify_state fb PS_START p = Inr q" "core_ok q" "proto_state q = PS_START" "\<not> p_fell q"
    "proto.more q = proto.more p"
proof -
  have "\<exists>q. notify_state fb PS_START p = Inr q \<and> core_ok q \<and> proto_state q = PS_START \<and> \<not> p_fell q \<and> proto.more q = proto.more p"
    using assms core_state_cases [of p]
    by (cases "proto_state p"; cases "export_state p = ES_DOWN")
      (auto simp: notify_state_def Let_def core_states_def core_ok_def can_notify_def core_defs)
  then show thesis using that by blast
qed

definition feed_frame :: "('a proto_scheme \<Rightarrow> bool \<Rightarrow> 'a proto_scheme) \<Rightarrow> bool" where
  "feed_frame fb \<longleftrightarrow> (\<forall>p b. proto.truncate (fb p b) = proto.truncate p)"

text \<open>The state in which \<open>feed_begin\<close> is called for the first time.\<close>

definition feeding :: "'a proto_scheme \<Rightarrow> 'a proto_scheme" where
  "feeding p = p\<lparr>proto_state := PS_UP, core_state := FS_HAPPY,
     p_source := (p_source p \<or> core_state p = FS_HUNGRY \<and> \<not> p_multitable p),
     p_hooked := (p_hooked p \<or> core_state p = FS_HUNGRY \<and> \<not> p_multitable p),
     p_linked := True, export_state := ES_FEEDING, p_refeeding := False,
     p_attn := Some Proto_feed_initial, p_attn_active := True\<rparr>"

lemma notify_UP_eq:
  assumes "core_states p" "can_notify p PS_UP"
  shows "notify_state fb PS_UP p =
    (if proto_state p = PS_UP then Inr p
     else if gr_wait p then Inr (p\<lparr>proto_state := PS_UP, core_state := FS_HAPPY,
         p_source := (p_source p \<or> core_state p = FS_HUNGRY \<and> \<not> p_multitable p),
         p_hooked := (p_hooked p \<or> core_state p = FS_HUNGRY \<and> \<not> p_multitable p)\<rparr>)
     else Inr (fb (feeding p) True))"
  using assms core_state_cases [of p]
  by (cases "proto_state p")
    (auto simp: notify_state_def Let_def core_states_def can_notify_def core_defs feeding_def proto_schedule_feed_def
      intro!: arg_cong2 [where f = fb] split: if_splits)

lemma notify_UP:
  assumes "core_states p" "can_notify p PS_UP" "\<not> p_fell p" "feed_frame fb"
  obtains q where "notify_state fb PS_UP p = Inr q" "core_ok q" "proto_state q = PS_UP" "\<not> p_fell q"
    "proto.more q = proto.more p \<or> (\<exists>r. q = fb r True \<and> proto.more r = proto.more p \<and> proto_state r = PS_UP)"
proof -
  have "proto.truncate (fb (feeding p) True) = proto.truncate (feeding p)" using assms(4) by (simp add: feed_frame_def)
  note f = truncate_eqD [OF this]
  have g0: "core_ok (feeding p)" if "\<not> gr_wait p"
    using that assms(1-3) by (simp add: feeding_def core_ok_def core_states_def can_notify_def split: proto_st.splits)
  have g: "\<not> p_fell (feeding p)" "proto_state (feeding p) = PS_UP" "proto.more (feeding p) = proto.more p"
    using assms(1-3) by (simp_all add: feeding_def core_ok_def core_states_def can_notify_def split: proto_st.splits)
  consider (same) "proto_state p = PS_UP" | (wait) "proto_state p \<noteq> PS_UP" "gr_wait p" | (feed) "proto_state p \<noteq> PS_UP" "\<not> gr_wait p"
    by blast
  then show thesis
  proof cases
    case same
    then show thesis using that [of p] assms(1,3) by (simp add: notify_UP_eq [OF assms(1,2)] core_ok_def)
  next
    case wait
    let ?q = "p\<lparr>proto_state := PS_UP, core_state := FS_HAPPY,
         p_source := (p_source p \<or> core_state p = FS_HUNGRY \<and> \<not> p_multitable p),
         p_hooked := (p_hooked p \<or> core_state p = FS_HUNGRY \<and> \<not> p_multitable p)\<rparr>"
    have "core_ok ?q" using assms(1,2) wait by (simp add: core_ok_def core_states_def can_notify_def split: proto_st.splits)
    then show thesis using that [of ?q] assms(3) wait by (simp add: notify_UP_eq [OF assms(1,2)])
  next
    case feed
    have "fb (feeding p) True = fb (feeding p) True \<and> proto.more (feeding p) = proto.more p \<and> proto_state (feeding p) = PS_UP"
      using g(2,3) by simp
    then show thesis using that [of "fb (feeding p) True"] feed f g g0 by (simp add: notify_UP_eq [OF assms(1,2)]) blast
  qed
qed

lemma notify_STOP:
  assumes "core_ok p" "can_notify p PS_STOP" "\<not> p_fell p"
  obtains q where "notify_state fb PS_STOP p = Inr q" "core_ok q" "proto_state q = PS_STOP" "\<not> p_fell q"
    "proto.more q = proto.more p"
proof -
  have "\<exists>q. notify_state fb PS_STOP p = Inr q \<and> core_ok q \<and> proto_state q = PS_STOP \<and> \<not> p_fell q \<and> proto.more q = proto.more p"
    using assms core_state_cases [of p]
    by (cases "proto_state p"; cases "export_state p = ES_DOWN"; cases "core_state p"; cases "flush_round p")
      (auto simp: notify_state_def Let_def core_states_def core_ok_def can_notify_def core_defs)
  then show thesis using that by blast
qed

lemma notify_DOWN:
  assumes "core_ok p" "\<not> p_fell p"
  obtains q where "notify_state fb PS_DOWN p = Inr q" "core_ok q" "proto_state q = PS_DOWN"
    "p_fell q \<Longrightarrow> core_state q = FS_HUNGRY" "proto.more q = proto.more p"
    "p_disabled q = p_disabled p" "p_reconfiguring q = p_reconfiguring p"
proof -
  have "\<exists>q. notify_state fb PS_DOWN p = Inr q \<and> core_ok q \<and> proto_state q = PS_DOWN \<and> (p_fell q \<longrightarrow> core_state q = FS_HUNGRY) \<and>
      proto.more q = proto.more p \<and> p_disabled q = p_disabled p \<and> p_reconfiguring q = p_reconfiguring p"
    using assms core_state_cases [of p]
    by (cases "proto_state p"; cases "export_state p = ES_DOWN"; cases "core_state p"; cases "flush_round p")
      (auto simp: notify_state_def Let_def core_states_def core_ok_def can_notify_def core_defs)
  then show thesis using that by blast
qed

section \<open>Protocols that keep to the contract\<close>

text \<open>
  The contract of the hooks. \<open>running\<close> is the invariant of the protocol: it speaks of the state and of the
  fields of the protocol. \<open>start\<close> runs on an instance that is down and gives a state it goes to,
  \<open>shutdown\<close> runs on a running instance and gives a state to which it can go; the others change fields of
  the protocol only.
\<close>

locale protocol =
  fixes H :: "'a proto_scheme proto_hooks" and running :: "'a proto_scheme \<Rightarrow> bool"
  assumes running_cong: "running p \<Longrightarrow> proto.more p = proto.more q \<Longrightarrow> proto_state p = proto_state q \<Longrightarrow> running q"
    and begin_frame: "feed_frame (h_feed_begin H)"
    and begin_running: "running p \<Longrightarrow> running (h_feed_begin H p b)"
    and end_law: "proto.truncate (h_feed_end H p) = proto.truncate p" "running p \<Longrightarrow> running (h_feed_end H p)"
    and cleanup_law: "proto.truncate (h_cleanup H p) = proto.truncate p" "running p \<Longrightarrow> running (h_cleanup H p)"
    and reload_law: "proto.truncate (fst (h_reload H p)) = proto.truncate p" "running p \<Longrightarrow> running (fst (h_reload H p))"
    and renew_law: "h_renew H p = Some q \<Longrightarrow>
      core_ok q \<and> proto_state q = PS_DOWN \<and> core_state q = FS_HUNGRY \<and> \<not> p_fell q \<and> running q"
    and start_law: "running p \<Longrightarrow> core_ok p \<Longrightarrow> proto_state p = PS_DOWN \<Longrightarrow> core_state p = FS_HUNGRY \<Longrightarrow> \<not> p_fell p \<Longrightarrow>
      returns (h_start H (proto_init_instance p)) (\<lambda>(q, ps). core_states q \<and> proto_state q = PS_DOWN \<and>
        core_state q = FS_HUNGRY \<and> \<not> p_fell q \<and> (ps = PS_START \<or> ps = PS_UP) \<and> running (q\<lparr>proto_state := ps\<rparr>))"
    and shutdown_law: "running p \<Longrightarrow> core_ok p \<Longrightarrow> \<not> p_fell p \<Longrightarrow> proto_state p = PS_START \<or> proto_state p = PS_UP \<Longrightarrow>
      returns (h_shutdown H p) (\<lambda>(q, ps). core_ok q \<and> can_notify q ps \<and> \<not> p_fell q \<and>
        (ps = PS_STOP \<or> ps = PS_DOWN) \<and> running (q\<lparr>proto_state := ps\<rparr>))"
begin

definition healthy :: "'a proto_scheme \<Rightarrow> bool" where
  "healthy p \<longleftrightarrow> core_ok p \<and> running p \<and> \<not> p_fell p"

text \<open>After a notification \<open>proto_fell_down\<close> may be the next call.\<close>

definition settling :: "'a proto_scheme \<Rightarrow> bool" where
  "settling p \<longleftrightarrow> core_ok p \<and> running p \<and> (p_fell p \<longrightarrow> proto_state p = PS_DOWN \<and> core_state p = FS_HUNGRY)"

lemma settling_healthy: "settling p \<Longrightarrow> \<not> p_fell p \<Longrightarrow> healthy p" "healthy p \<Longrightarrow> settling p"
  by (simp_all add: settling_def healthy_def)

lemma notify_ok:
  assumes "core_states p" "ps = PS_STOP \<or> ps = PS_DOWN \<Longrightarrow> core_ok p" "can_notify p ps" "\<not> p_fell p"
    and run: "running (p\<lparr>proto_state := ps\<rparr>)"
  shows "returns (notify_state (h_feed_begin H) ps p) (\<lambda>q. settling q \<and> proto_state q = ps)"
proof -
  have run': "running q" if "proto.more q = proto.more p" "proto_state q = ps" for q
    using running_cong [OF run, of q] that by simp
  show ?thesis
  proof (cases ps)
    case PS_DOWN
    show ?thesis
      by (rule notify_DOWN [OF _ assms(4), of "h_feed_begin H"]) (use assms(2) PS_DOWN run' in \<open>auto simp: settling_def\<close>)
  next
    case PS_START
    show ?thesis
      by (rule notify_START [OF assms(1) _ assms(4), of "h_feed_begin H"]) (use assms(3) PS_START run' in \<open>auto simp: settling_def\<close>)
  next
    case PS_UP
    show ?thesis
    proof (rule notify_UP [OF assms(1) _ assms(4) begin_frame])
      fix q assume q: "notify_state (h_feed_begin H) PS_UP p = Inr q" "core_ok q" "proto_state q = PS_UP" "\<not> p_fell q"
        "proto.more q = proto.more p \<or> (\<exists>r. q = h_feed_begin H r True \<and> proto.more r = proto.more p \<and> proto_state r = PS_UP)"
      have "running q" using q(5) run' [of q] run' begin_running q(3) PS_UP by blast
      then show ?thesis using q PS_UP by (simp add: settling_def)
    qed (use assms(3) PS_UP in simp)
  next
    case PS_STOP
    show ?thesis
      by (rule notify_STOP [OF _ _ assms(4), of "h_feed_begin H"]) (use assms(2,3) PS_STOP run' in \<open>auto simp: settling_def\<close>)
  qed
qed

lemma healthy_notify:
  assumes "healthy p" "can_notify p ps" "running (p\<lparr>proto_state := ps\<rparr>)"
  shows "returns (notify_state (h_feed_begin H) ps p) (\<lambda>q. settling q \<and> proto_state q = ps)"
  using assms by (intro notify_ok) (auto simp: healthy_def core_ok_def)

lemma move_to_goal_ok:
  assumes "healthy p"
  shows "returns (move_to_goal H p) (\<lambda>q. settling q \<and> (proto_state p = PS_DOWN \<longrightarrow> \<not> p_fell q))"
proof -
  have p: "core_ok p" "running p" "\<not> p_fell p" using assms by (simp_all add: healthy_def)
  consider (start) "goal_up p" "proto_state p = PS_DOWN" "core_state p = FS_HUNGRY"
    | (stop) "\<not> goal_up p" "proto_state p = PS_START \<or> proto_state p = PS_UP"
    | (none) "goal_up p \<Longrightarrow> \<not> (proto_state p = PS_DOWN \<and> core_state p = FS_HUNGRY)"
        "\<not> goal_up p \<Longrightarrow> \<not> (proto_state p = PS_START \<or> proto_state p = PS_UP)" by blast
  then show ?thesis
  proof cases
    case start
    have "returns (h_start H (proto_init_instance p)) (\<lambda>(q, ps). returns (notify_state (h_feed_begin H) ps q) (\<lambda>r. settling r \<and> \<not> p_fell r))"
    proof (rule returns_mono [OF start_law [OF p(2,1) start(2,3) p(3)]], clarify)
      fix q ps assume q: "core_states q" "proto_state q = PS_DOWN" "core_state q = FS_HUNGRY" "\<not> p_fell q"
        "ps = PS_START \<or> ps = PS_UP" "running (q\<lparr>proto_state := ps\<rparr>)"
      have "can_notify q ps" using q(2,3,5) by (auto simp: can_notify_def)
      then have "returns (notify_state (h_feed_begin H) ps q) (\<lambda>r. settling r \<and> proto_state r = ps)"
        using q by (intro notify_ok) auto
      then show "returns (notify_state (h_feed_begin H) ps q) (\<lambda>r. settling r \<and> \<not> p_fell r)"
        by (rule returns_mono) (use q(5) in \<open>auto simp: settling_def\<close>)
    qed
    then show ?thesis using start by (simp add: move_to_goal_def case_prod_unfold)
  next
    case stop
    have "returns (h_shutdown H p) (\<lambda>(q, ps). returns (notify_state (h_feed_begin H) ps q) settling)"
    proof (rule returns_mono [OF shutdown_law [OF p(2,1,3) stop(2)]], clarify)
      fix q ps assume q: "core_ok q" "can_notify q ps" "\<not> p_fell q" "running (q\<lparr>proto_state := ps\<rparr>)"
      then have "returns (notify_state (h_feed_begin H) ps q) (\<lambda>r. settling r \<and> proto_state r = ps)"
        by (intro notify_ok) (auto simp: core_ok_def)
      then show "returns (notify_state (h_feed_begin H) ps q) settling" by (rule returns_mono) simp
    qed
    then show ?thesis using stop by (auto simp add: move_to_goal_def case_prod_unfold)
  next
    case none
    then have "move_to_goal H p = Inr p" by (auto simp: move_to_goal_def)
    then show ?thesis using assms by (simp add: settling_healthy healthy_def settling_def)
  qed
qed

lemma rethink_step_ok:
  assumes "healthy p"
  shows "returns (rethink_step H p) (\<lambda>q. settling q \<and> (proto_state p = PS_DOWN \<longrightarrow> \<not> p_fell q))"
proof (cases "p_reconfiguring p \<and> core_state p = FS_HUNGRY \<and> proto_state p = PS_DOWN")
  case True
  show ?thesis
  proof (cases "h_renew H p")
    case None
    have "running (p\<lparr>p_gone := True\<rparr>)" using running_cong [of p "p\<lparr>p_gone := True\<rparr>"] assms by (simp add: healthy_def)
    then show ?thesis using None True assms
      by (simp add: rethink_step_def settling_def healthy_def core_ok_def core_states_def)
  next
    case (Some q)
    then have "healthy q" "proto_state q = PS_DOWN" using renew_law [OF Some] by (simp_all add: healthy_def)
    then show ?thesis using move_to_goal_ok [of q] True Some by (simp add: rethink_step_def)
  qed
next
  case False
  then have "rethink_step H p = move_to_goal H p" by (auto simp: rethink_step_def)
  then show ?thesis using move_to_goal_ok [OF assms] by simp
qed

text \<open>One call of \<open>proto_fell_down\<close> is enough.\<close>

lemma fell_down_ok:
  assumes "core_ok p" "running p" "proto_state p = PS_DOWN" "core_state p = FS_HUNGRY"
  shows "healthy (fell_down H p)" "proto_state (fell_down H p) = PS_DOWN"
proof -
  let ?p = "p\<lparr>p_fell := False, st_imp_routes := 0, st_filt_routes := 0, st_exp_routes := 0,
      p_hooked := False, p_locked := (p_locked p \<and> p_multitable p)\<rparr>"
  have "core_ok ?p" "proto_state ?p = PS_DOWN" "\<not> p_fell ?p" using assms by (simp_all add: core_ok_def core_states_def)
  moreover have "running ?p" using running_cong [OF assms(2), of ?p] by simp
  ultimately show "healthy (fell_down H p)" "proto_state (fell_down H p) = PS_DOWN"
    using truncate_eqD [OF cleanup_law(1) [of ?p]] cleanup_law(2) [of ?p] by (simp_all add: fell_down_def healthy_def)
qed

lemma settle_ok:
  assumes "settling p"
  shows "ends (settle H (Suc n) (Inr p)) healthy"
proof (cases "p_fell p")
  case True
  note d = fell_down_ok [of p]
  have p: "core_ok p" "running p" "proto_state p = PS_DOWN" "core_state p = FS_HUNGRY" using assms True by (simp_all add: settling_def)
  have "returns (rethink_step H (fell_down H p)) (\<lambda>q. settling q \<and> \<not> p_fell q)"
    by (rule returns_mono [OF rethink_step_ok [OF d(1) [OF p]]]) (use d(2) [OF p] in simp)
  then obtain q where q: "rethink_step H (fell_down H p) = Inr q" "settling q" "\<not> p_fell q" by (auto simp: returns_def)
  then have "settle H n (Inr q) = Some (Inr q)" by (cases n) simp_all
  then show ?thesis using q True settling_healthy by simp
next
  case False
  then show ?thesis using settling_healthy(1) [OF assms] by simp
qed

lemma settle_returns: "returns r settling \<Longrightarrow> ends (settle H (Suc n) r) healthy"
  using settle_ok by (cases r) (auto simp del: settle.simps)

text \<open>\<open>proto_rethink_goal\<close> and the calls that use it return, fail no assertion, and leave a proper state.\<close>

lemma proto_rethink_goal_ok: "healthy p \<Longrightarrow> ends (proto_rethink_goal H (Suc n) p) healthy"
  unfolding proto_rethink_goal_def by (intro settle_returns returns_mono [OF rethink_step_ok]) auto

lemma proto_notify_state_ok:
  "healthy p \<Longrightarrow> can_notify p ps \<Longrightarrow> running (p\<lparr>proto_state := ps\<rparr>) \<Longrightarrow> ends (proto_notify_state H (Suc n) ps p) healthy"
  unfolding proto_notify_state_def by (intro settle_returns returns_mono [OF healthy_notify]) auto

lemma healthy_change:
  assumes "healthy p" "proto.more q = proto.more p" "proto_state q = proto_state p" "core_ok q" "p_fell q = p_fell p"
  shows "healthy q"
  using assms running_cong [of p q] by (simp add: healthy_def)

lemmas healthy_defs = healthy_def core_ok_def core_states_def

lemma healthy_disabled: "healthy p \<Longrightarrow> healthy (p\<lparr>p_disabled := b\<rparr>)"
  by (rule healthy_change, assumption) (auto simp: healthy_defs split: proto_st.splits)

lemma healthy_sched: "healthy p \<Longrightarrow> healthy (p\<lparr>down_sched := d, down_code := c\<rparr>)"
  by (rule healthy_change, assumption) (auto simp: healthy_defs split: proto_st.splits)

lemma healthy_code: "healthy p \<Longrightarrow> healthy (p\<lparr>down_code := c\<rparr>)"
  by (rule healthy_change, assumption) (auto simp: healthy_defs split: proto_st.splits)

lemma healthy_message: "healthy p \<Longrightarrow> healthy (proto_set_message m p)"
  by (rule healthy_change, assumption) (auto simp: healthy_defs proto_set_message_def split: proto_st.splits)

lemmas healthy_command = healthy_disabled healthy_code healthy_message

lemma proto_cmd_disable_ok: "healthy p \<Longrightarrow> ends (proto_cmd_disable H (Suc n) m p) healthy"
  by (simp add: proto_cmd_disable_def proto_rethink_goal_ok healthy_command)

lemma proto_cmd_enable_ok: "healthy p \<Longrightarrow> ends (proto_cmd_enable H (Suc n) m p) healthy"
  by (simp add: proto_cmd_enable_def proto_rethink_goal_ok healthy_command)

lemma proto_cmd_restart_ok: "healthy p \<Longrightarrow> ends (proto_cmd_restart H (Suc n) m p) healthy"
  by (auto simp: proto_cmd_restart_def healthy_command
      intro!: ends_mono [OF proto_rethink_goal_ok] proto_rethink_goal_ok healthy_disabled)

lemma proto_shutdown_loop_ok: "healthy p \<Longrightarrow> ends (proto_shutdown_loop H (Suc n) p) healthy"
  by (auto simp: proto_shutdown_loop_def Let_def intro!: ends_mono [OF proto_rethink_goal_ok] proto_rethink_goal_ok healthy_disabled)

lemma proto_schedule_down_ok: "healthy p \<Longrightarrow> proto_state p = PS_UP \<Longrightarrow> returns (proto_schedule_down r c p) healthy"
  by (simp add: proto_schedule_down_def healthy_sched)

lemma healthy_flushed:
  assumes "healthy p" "core_state p = FS_FLUSHING"
  shows "healthy (p\<lparr>p_flushing := False, core_state := FS_HUNGRY\<rparr>)"
  by (rule healthy_change [OF assms(1)]) (use assms in \<open>auto simp: healthy_defs split: proto_st.splits\<close>)

lemma healthy_next_round:
  assumes "healthy p"
  shows "healthy (let r = p\<lparr>flush_round := False\<rparr> in if core_state r = FS_FLUSHING then proto_schedule_flush_loop r else r)"
proof (cases "core_state p = FS_FLUSHING")
  case True
  have "healthy (p\<lparr>flush_round := True, p_flushing := True, p_mark := True\<rparr>)"
    by (rule healthy_change [OF assms]) (use True assms in \<open>auto simp: healthy_defs split: proto_st.splits\<close>)
  then show ?thesis using True by (simp add: proto_schedule_flush_loop_def)
next
  case False
  have "healthy (p\<lparr>flush_round := False\<rparr>)"
    by (rule healthy_change [OF assms]) (use False assms in \<open>auto simp: healthy_defs split: proto_st.splits\<close>)
  then show ?thesis using False by simp
qed

lemma proto_fell_down_ok:
  assumes "healthy p" "proto_state p = PS_DOWN" "core_state p = FS_HUNGRY"
  shows "ends (proto_fell_down H (Suc n) p) healthy"
proof -
  have "healthy (fell_down H p)" using fell_down_ok(1) [of p] assms by (simp add: healthy_def)
  then have "returns (rethink_step H (fell_down H p)) settling" by (rule returns_mono [OF rethink_step_ok]) simp
  then show ?thesis unfolding proto_fell_down_def by (rule settle_returns)
qed

lemma proto_flush_loop_ok:
  assumes "healthy p"
  shows "ends (proto_flush_loop H (Suc n) pruned p) healthy"
proof -
  let ?r = "if core_state p = FS_FLUSHING \<and> p_flushing p then
      (let q = p\<lparr>p_flushing := False, core_state := FS_HUNGRY\<rparr>
       in if proto_state p = PS_DOWN then proto_fell_down H (Suc n) q else Some (Inr q))
      else Some (Inr p)"
  have "ends ?r healthy"
    using assms healthy_flushed [OF assms] proto_fell_down_ok [OF healthy_flushed [OF assms]] by (simp add: Let_def)
  then have "ends (obind ?r (\<lambda>q. Some (Inr (let r = q\<lparr>flush_round := False\<rparr>
      in if core_state r = FS_FLUSHING then proto_schedule_flush_loop r else r)))) healthy"
    unfolding ends_obind ends_Some returns_Inr by (rule ends_mono) (rule healthy_next_round)
  then show ?thesis using assms by (simp add: proto_flush_loop_def)
qed

text \<open>Feeding.\<close>

lemma healthy_feed_begin: "healthy p \<Longrightarrow> healthy (h_feed_begin H p b)"
  using begin_frame truncate_eqD [of "h_feed_begin H p b" p] begin_running by (simp add: healthy_def feed_frame_def)

lemma run_attn_ok:
  assumes "healthy p"
  shows "healthy (run_attn (h_feed_end H) fed p)"
proof -
  have base: "healthy (p\<lparr>p_attn_active := b\<rparr>)" "healthy (p\<lparr>p_attn := a, p_attn_active := b\<rparr>)"
      "healthy (p\<lparr>p_attn_active := b, p_attn := a, p_attn_active := c\<rparr>)" for a b c
    by (rule healthy_change [OF assms]; use assms in \<open>auto simp: healthy_defs split: proto_st.splits\<close>)+
  have ready: "healthy (p\<lparr>p_attn_active := b, export_state := ES_READY\<rparr>)" if "export_state p = ES_FEEDING" for b
    by (rule healthy_change [OF assms]) (use that assms in \<open>auto simp: healthy_defs split: proto_st.splits\<close>)
  have fe: "healthy (h_feed_end H q)" if "healthy q" for q
    using that truncate_eqD [OF end_law(1), of q] end_law(2) [of q] by (simp add: healthy_def)
  show ?thesis using base ready fe
    by (simp add: run_attn_def Let_def proto_feed_initial_def proto_feed_more_def split: option.split attn_fun.split)
qed

lemma proto_request_feeding_ok:
  assumes "healthy p" "proto_state p = PS_UP"
  shows "returns (proto_request_feeding (h_feed_begin H) p) healthy"
proof -
  let ?q = "p\<lparr>st_exp_routes := 0, export_state := ES_FEEDING, p_refeeding := True,
      p_attn := Some Proto_feed_more, p_attn_active := True\<rparr>"
  have "healthy ?q" if "export_state p \<noteq> ES_DOWN"
    by (rule healthy_change [OF assms(1)]) (use that assms in \<open>auto simp: healthy_defs split: proto_st.splits\<close>)
  then show ?thesis using assms healthy_feed_begin [of ?q False]
    by (auto simp: proto_request_feeding_def proto_schedule_feed_def)
qed

lemma proto_cmd_reload_ok:
  assumes "healthy p"
  shows "returns (proto_cmd_reload H dir p) healthy"
proof -
  have r: "healthy (fst (h_reload H p))" "proto_state (fst (h_reload H p)) = proto_state p"
    using assms truncate_eqD [OF reload_law(1), of p] reload_law(2) [of p] by (simp_all add: healthy_def)
  show ?thesis using assms r proto_request_feeding_ok
    by (cases "h_reload H p") (auto simp: proto_cmd_reload_def)
qed

lemma graceful_restart_done_ok:
  assumes "healthy p"
  shows "returns (graceful_restart_done (h_feed_begin H) p) healthy"
proof -
  let ?clear = "\<lambda>q. q\<lparr>gr_recovery := False, gr_wait := False, gr_lock := False\<rparr>\<lparr>gr_locks := 0\<rparr>"
  let ?p = "p\<lparr>gr_state := GRS_DONE\<rparr>"
  let ?q = "?p\<lparr>p_linked := True, export_state := ES_FEEDING, p_refeeding := False,
      p_attn := Some Proto_feed_initial, p_attn_active := True\<rparr>"
  have rest: "healthy (?clear ?p)" "healthy (?p\<lparr>gr_locks := 0\<rparr>)"
    by (rule healthy_change [OF assms]; use assms in \<open>auto simp: healthy_defs split: proto_st.splits\<close>)+
  have up: "healthy (?clear (h_feed_begin H ?q True))" and can: "core_state p = FS_HAPPY" "export_state p = ES_DOWN"
    if "proto_state p = PS_UP" "gr_wait p"
  proof -
    show can: "core_state p = FS_HAPPY" "export_state p = ES_DOWN" using that assms by (simp_all add: healthy_defs)
    have q: "healthy (?clear ?q)"
      by (rule healthy_change [OF assms]) (use that can assms in \<open>simp_all add: healthy_defs\<close>)
    have "running ?q" using running_cong [of p ?q] assms by (simp add: healthy_def)
    then have fb: "running (h_feed_begin H ?q True)" by (rule begin_running)
    have "proto.truncate (h_feed_begin H ?q True) = proto.truncate ?q" using begin_frame by (simp add: feed_frame_def)
    then have eq: "proto.truncate (?clear (h_feed_begin H ?q True)) = proto.truncate (?clear ?q)"
      by (cases "h_feed_begin H ?q True") (simp add: proto.truncate_def)
    have "running (?clear (h_feed_begin H ?q True))" by (rule running_cong [OF fb]) simp_all
    then show "healthy (?clear (h_feed_begin H ?q True))" using truncate_eqD [OF eq] q by (simp add: healthy_def)
  qed
  show ?thesis using rest up can
    by (auto simp: graceful_restart_done_def proto_want_export_up_def proto_schedule_feed_def when_res_def Let_def)
qed

end

end
