(* ===== verification/BgpSession.thy ===== *)
theory BgpSession
  imports BgpPackets ProtoSafe
begin

text \<open>
  The sessions (\<open>proto/bgp/bgp.c\<close> and the handlers of \<open>proto/bgp/packets.c\<close>): two connections of an
  instance to its neighbor, their state machine, timers, errors, and what messages do to them.
\<close>

section \<open>State\<close>

datatype bs = BS_IDLE | BS_CONNECT | BS_ACTIVE | BS_OPENSENT | BS_OPENCONFIRM | BS_ESTABLISHED | BS_CLOSE
datatype bss = BSS_PREPARE | BSS_DELAY | BSS_CONNECT | BSS_CONNECT_NOCAP
datatype bfs = BFS_NONE | BFS_LOADING | BFS_LOADED | BFS_REFRESHING | BFS_REFRESHED
datatype side = Outgoing | Incoming

definition PKT_OPEN :: nat where "PKT_OPEN = 1"
definition PKT_UPDATE :: nat where "PKT_UPDATE = 2"
definition PKT_NOTIFICATION :: nat where "PKT_NOTIFICATION = 3"
definition PKT_KEEPALIVE :: nat where "PKT_KEEPALIVE = 4"
definition PKT_ROUTE_REFRESH :: nat where "PKT_ROUTE_REFRESH = 5"
definition PKT_BEGIN_REFRESH :: nat where "PKT_BEGIN_REFRESH = 30"
definition PKT_SCHEDULE_CLOSE :: nat where "PKT_SCHEDULE_CLOSE = 31"

definition BE_MISC :: u8 where "BE_MISC = 1"
definition BE_SOCKET :: u8 where "BE_SOCKET = 2"
definition BE_BGP_RX :: u8 where "BE_BGP_RX = 3"
definition BE_BGP_TX :: u8 where "BE_BGP_TX = 4"
definition BE_AUTO_DOWN :: u8 where "BE_AUTO_DOWN = 5"
definition BE_MAN_DOWN :: u8 where "BE_MAN_DOWN = 6"

definition BEM_NEIGHBOR_LOST :: u32 where "BEM_NEIGHBOR_LOST = 1"
definition BEM_INVALID_NEXT_HOP :: u32 where "BEM_INVALID_NEXT_HOP = 2"
definition BEM_INVALID_MD5 :: u32 where "BEM_INVALID_MD5 = 3"
definition BEM_NO_SOCKET :: u32 where "BEM_NO_SOCKET = 4"
definition BEM_LINK_DOWN :: u32 where "BEM_LINK_DOWN = 5"
definition BEM_BFD_DOWN :: u32 where "BEM_BFD_DOWN = 6"
definition BEM_GRACEFUL_RESTART :: u32 where "BEM_GRACEFUL_RESTART = 7"
definition BEA_ROUTE_LIMIT_EXCEEDED :: u32 where "BEA_ROUTE_LIMIT_EXCEEDED = 1"

text \<open>
  A socket has a number; \<open>sk_rx\<close>: its \<open>rx_hook\<close> is \<open>bgp_rx\<close>; \<open>sk_idle\<close>: \<open>tpos\<close> is \<open>tbuf\<close>, nothing waits to be
  sent. \<open>c_live\<close>: the three timers and the event of the connection are allocated; a timer is the time it
  was started with, 0 if it does not run. \<open>c_notify\<close> is the code, subcode and data of the NOTIFICATION.
\<close>

record sock =
  sk_ref :: nat
  sk_saddr :: u32
  sk_rx :: bool
  sk_idle :: bool

record bgp_conn =
  c_state :: bs
  c_sk :: "sock option"
  c_live :: bool
  c_retry_timer :: u32
  c_hold_timer :: u32
  c_keepalive_timer :: u32
  c_tx_ev :: bool
  c_to_send :: u32
  c_notify :: "nat \<times> nat \<times> u8 list"
  c_start_state :: bss
  c_peer :: peer_caps
  c_hold_time :: u32
  c_keepalive_time :: u32

record bgp_neg =
  ng_add_path_rx :: bool
  ng_add_path_tx :: bool
  ng_ext_messages :: bool
  ng_gr_ready :: bool

record bgp_err =
  er_startup_delay :: u32
  er_last_proto_error :: u32
  er_class :: u8
  er_code :: u32

text \<open>The resources that all instances share, and the prefixes that wait to be sent.\<close>

record bgp_shared =
  sh_listen_sk :: bool
  sh_counter :: u32

record bgp_tx =
  tx_tables :: bool
  tx_withdraw :: "nlri list"
  tx_buckets :: "bucket list"

text \<open>What the session does outside of itself, in order: routes to the table, refresh cycles, messages sent.\<close>

datatype nexthop = Nh_direct u32 | Nh_recursive u32

datatype bgp_call =
    Rte_update nlri nexthop "ea_seg list"
  | Rte_withdraw nlri
  | Rt_refresh_begin
  | Rt_refresh_end
  | Sk_send side "u8 list"

datatype ra_types = RA_OPTIMAL | RA_ACCEPTED | RA_ANY

record bgp = proto +
  b_cf :: session_cfg
  b_p :: bgp_proto
  b_now :: u32
  b_start_state :: bss
  b_neg :: bgp_neg
  b_gr_active :: bool
  b_feed_state :: bfs
  b_load_state :: bfs
  b_conn :: "side option"
  b_out :: bgp_conn
  b_in :: bgp_conn
  b_neigh :: bool
  b_bfd_req :: bool
  b_event :: bool
  b_startup_timer :: u32
  b_gr_timer :: u32
  b_err :: bgp_err
  b_shared :: bgp_shared
  b_tx :: bgp_tx
  b_ra :: ra_types
  b_calls :: "bgp_call list"

fun conn_of :: "side \<Rightarrow> bgp \<Rightarrow> bgp_conn" where
  "conn_of Outgoing p = b_out p"
| "conn_of Incoming p = b_in p"

fun upd_conn :: "side \<Rightarrow> (bgp_conn \<Rightarrow> bgp_conn) \<Rightarrow> bgp \<Rightarrow> bgp" where
  "upd_conn Outgoing f p = p\<lparr>b_out := f (b_out p)\<rparr>"
| "upd_conn Incoming f p = p\<lparr>b_in := f (b_in p)\<rparr>"

fun other_side :: "side \<Rightarrow> side" where
  "other_side Outgoing = Incoming"
| "other_side Incoming = Outgoing"

abbreviation st_of :: "side \<Rightarrow> bgp \<Rightarrow> bs" where "st_of s p \<equiv> c_state (conn_of s p)"

definition bgp_call :: "bgp_call \<Rightarrow> bgp \<Rightarrow> bgp" where
  "bgp_call c p = p\<lparr>b_calls := b_calls p @ [c]\<rparr>"

text \<open>A change through the pointers to the timers of the connection.\<close>

definition on_timers :: "side \<Rightarrow> (bgp_conn \<Rightarrow> bgp_conn) \<Rightarrow> bgp \<Rightarrow> bgp res" where
  "on_timers s f p = (if c_live (conn_of s p) then Inr (upd_conn s f p) else Inl Out_of_bounds)"

text \<open>A change through the pointer to the socket of the connection.\<close>

definition on_sock :: "side \<Rightarrow> (sock \<Rightarrow> sock) \<Rightarrow> bgp \<Rightarrow> bgp res" where
  "on_sock s f p =
     (case c_sk (conn_of s p) of
        None \<Rightarrow> Inl Out_of_bounds
      | Some k \<Rightarrow> Inr (upd_conn s (\<lambda>c. c\<lparr>c_sk := Some (f k)\<rparr>) p))"

definition bgp_conn_set_state :: "side \<Rightarrow> bs \<Rightarrow> bgp \<Rightarrow> bgp" where
  "bgp_conn_set_state s new p = upd_conn s (\<lambda>c. c\<lparr>c_state := new\<rparr>) p"

definition bgp_schedule_packet :: "side \<Rightarrow> nat \<Rightarrow> bgp \<Rightarrow> bgp" where
  "bgp_schedule_packet s type p =
     upd_conn s (\<lambda>c. c\<lparr>c_to_send := c_to_send c OR push_bit type 1,
       c_tx_ev := (c_tx_ev c \<or> (case c_sk c of None \<Rightarrow> False | Some k \<Rightarrow> sk_idle k))\<rparr>) p"

section \<open>Errors and shutdown messages\<close>

definition bgp_store_error :: "side option \<Rightarrow> u8 \<Rightarrow> u32 \<Rightarrow> bgp \<Rightarrow> bgp" where
  "bgp_store_error c class code p =
     (if proto_state p = PS_UP \<and> c \<noteq> None \<and> c \<noteq> b_conn p then p
      else if proto_state p = PS_STOP then p
      else p\<lparr>b_err := (b_err p)\<lparr>er_class := class, er_code := code\<rparr>\<rparr>)"

text \<open>
  \<open>bgp_handle_message\<close>: the bytes of \<open>data\<close> are those of the message, and \<open>argbuf\<close> has room for 256. \<open>None\<close>
  is the result 0.
\<close>

definition bgp_handle_message :: "u8 list \<Rightarrow> bgp \<Rightarrow> bgp option res" where
  "bgp_handle_message data p =
     (let msg_len = unat (hd data); msg = take msg_len (tl data) in
      if msg_len = 0 then Inr (Some p)
      else if msg_len > 128 \<and> msg_len + 1 > length data then Inr None
      else if msg_len + 1 > length data then Inl Out_of_bounds
      else let m = map (\<lambda>c. if c < 32 then 32 else c) msg in
        if length m + 5 > 256 then Inl Out_of_bounds
        else Inr (Some (proto_set_message (Some m) p)))"

definition bgp_log_error :: "u8 \<Rightarrow> nat \<Rightarrow> nat \<Rightarrow> u8 list \<Rightarrow> bgp \<Rightarrow> bgp res" where
  "bgp_log_error class code subcode data p =
     (if code = 6 \<and> class = BE_BGP_TX then Inr p
      else if code = 6 \<and> (subcode = 2 \<or> subcode = 4) then
        (let p = proto_set_message None p in
         if data = [] then Inr p
         else rmap (\<lambda>r. case r of None \<Rightarrow> p | Some q \<Rightarrow> q) (bgp_handle_message data p))
      else Inr p)"

definition bgp_update_startup_delay :: "bgp \<Rightarrow> bgp" where
  "bgp_update_startup_delay p =
     (let cf = b_cf p; e = b_err p;
          delay = (if er_last_proto_error e \<noteq> 0 \<and> sint (b_now p - er_last_proto_error e) \<ge> sint (sc_error_amnesia_time cf)
                   then 0 else er_startup_delay e);
          e = e\<lparr>er_last_proto_error := b_now p\<rparr> in
      if sc_disable_after_error cf then p\<lparr>b_err := e\<lparr>er_startup_delay := 0\<rparr>, p_disabled := True\<rparr>
      else p\<lparr>b_err := e\<lparr>er_startup_delay :=
             (if delay = 0 then sc_error_delay_time_min cf else min (2 * delay) (sc_error_delay_time_max cf))\<rparr>\<rparr>)"

section \<open>Feeding\<close>

definition bgp_feed_begin :: "bgp \<Rightarrow> bool \<Rightarrow> bgp" where
  "bgp_feed_begin p initial =
     (case b_conn p of
        None \<Rightarrow> p
      | Some s \<Rightarrow>
          (let p = (if initial \<and> sc_gr_mode (b_cf p) \<noteq> 0 then p\<lparr>b_feed_state := BFS_LOADING\<rparr> else p) in
           if \<not> initial \<and> sc_enable_refresh (b_cf p) \<and> pc_enhanced_refresh (c_peer (conn_of s p)) then
             if b_feed_state p = BFS_LOADING \<or> b_feed_state p = BFS_LOADED then p
             else bgp_schedule_packet s PKT_BEGIN_REFRESH (p\<lparr>b_feed_state := BFS_REFRESHING\<rparr>)
           else p))"

definition bgp_feed_end :: "bgp \<Rightarrow> bgp" where
  "bgp_feed_end p =
     (case b_conn p of
        None \<Rightarrow> p
      | Some s \<Rightarrow>
          if b_feed_state p = BFS_NONE then p
          else bgp_schedule_packet s PKT_UPDATE
            (p\<lparr>b_feed_state := (if b_feed_state p = BFS_LOADING then BFS_LOADED
                               else if b_feed_state p = BFS_REFRESHING then BFS_REFRESHED else b_feed_state p)\<rparr>))"

definition bgp_notify :: "proto_st \<Rightarrow> bgp \<Rightarrow> bgp res" where
  "bgp_notify ps p = notify_state bgp_feed_begin ps p"

section \<open>Leaving a state of a connection\<close>

definition bgp_close_conn :: "side \<Rightarrow> bgp \<Rightarrow> bgp" where
  "bgp_close_conn s p =
     upd_conn s (\<lambda>c. c\<lparr>c_to_send := 0, c_live := False, c_retry_timer := 0, c_hold_timer := 0, c_keepalive_timer := 0,
       c_sk := None, c_tx_ev := False\<rparr>) p"

text \<open>
  \<open>bgp_stop\<close> and the functions that close a connection call each other. \<open>bgp_stop\<close> leaves the state \<open>PS_UP\<close>
  first, so that it is not called again from its own calls; the functions have the \<open>bgp_stop\<close> that they
  call as an argument, and the calls inside of \<open>bgp_stop\<close> have \<open>no_stop\<close>.
\<close>

type_synonym stop = "nat \<Rightarrow> u8 list \<Rightarrow> bgp \<Rightarrow> bgp res"

definition no_stop :: stop where "no_stop subcode data p = Inl Bug"

definition leave_established :: "stop \<Rightarrow> bgp \<Rightarrow> bgp res" where
  "leave_established stop p =
     (let p = p\<lparr>b_conn := None, b_tx := \<lparr>tx_tables = False, tx_withdraw = [], tx_buckets = []\<rparr>\<rparr> in
      if proto_state p = PS_UP then stop 0 [] p else Inr p)"

definition enter_close_state :: "stop \<Rightarrow> side \<Rightarrow> bgp \<Rightarrow> bgp res" where
  "enter_close_state stop s p =
     (let os = st_of s p in
      rbind (on_timers s (\<lambda>c. c\<lparr>c_keepalive_timer := 0\<rparr>) (bgp_conn_set_state s BS_CLOSE p)) (\<lambda>p.
      rbind (on_sock s (\<lambda>k. k\<lparr>sk_rx := False\<rparr>) p) (\<lambda>p.
      rbind (on_timers s (\<lambda>c. c\<lparr>c_hold_timer := 10\<rparr>) p) (\<lambda>p.
        if os = BS_ESTABLISHED then leave_established stop p else Inr p))))"

definition enter_idle_state :: "stop \<Rightarrow> side \<Rightarrow> bgp \<Rightarrow> bgp res" where
  "enter_idle_state stop s p =
     (let os = st_of s p; p = (bgp_conn_set_state s BS_IDLE (bgp_close_conn s p))\<lparr>b_event := True\<rparr> in
      if os = BS_ESTABLISHED then leave_established stop p else Inr p)"

text \<open>\<open>bgp_error\<close>; a negative length keeps the data for the log only (\<open>keep\<close> is false).\<close>

definition error_with :: "stop \<Rightarrow> side \<Rightarrow> nat \<Rightarrow> nat \<Rightarrow> u8 list \<Rightarrow> bool \<Rightarrow> bgp \<Rightarrow> bgp res" where
  "error_with stop s code subcode data keep p =
     (if st_of s p = BS_CLOSE then Inr p
      else rbind (bgp_log_error BE_BGP_TX code subcode data p) (\<lambda>p.
        rbind (enter_close_state stop s (bgp_store_error (Some s) BE_BGP_TX (push_bit 16 (of_nat code) OR of_nat subcode) p)) (\<lambda>p.
          let p = bgp_schedule_packet s PKT_NOTIFICATION
                (upd_conn s (\<lambda>c. c\<lparr>c_notify := (code, subcode, if keep then data else [])\<rparr>) p) in
          if code \<noteq> 6 then stop 0 [] (bgp_update_startup_delay p) else Inr p)))"

definition graceful_close :: "stop \<Rightarrow> nat \<Rightarrow> u8 list \<Rightarrow> side \<Rightarrow> bgp \<Rightarrow> bgp res" where
  "graceful_close stop subcode data s p =
     (case st_of s p of
        BS_IDLE \<Rightarrow> Inr p
      | BS_CLOSE \<Rightarrow> Inr p
      | BS_CONNECT \<Rightarrow> enter_idle_state stop s p
      | BS_ACTIVE \<Rightarrow> enter_idle_state stop s p
      | _ \<Rightarrow> error_with stop s 6 subcode data True p)"

definition stop_with :: "stop \<Rightarrow> stop" where
  "stop_with stop subcode data p =
     rbind (bgp_notify PS_STOP p) (\<lambda>p.
     rbind (graceful_close stop subcode data Outgoing p) (\<lambda>p.
     rbind (graceful_close stop subcode data Incoming p) (\<lambda>p.
       Inr (p\<lparr>b_event := True\<rparr>))))"

definition bgp_stop :: stop where "bgp_stop = stop_with no_stop"
definition bgp_conn_enter_close_state :: "side \<Rightarrow> bgp \<Rightarrow> bgp res" where "bgp_conn_enter_close_state = enter_close_state bgp_stop"
definition bgp_conn_enter_idle_state :: "side \<Rightarrow> bgp \<Rightarrow> bgp res" where "bgp_conn_enter_idle_state = enter_idle_state bgp_stop"
definition bgp_conn_leave_established_state :: "bgp \<Rightarrow> bgp res" where "bgp_conn_leave_established_state = leave_established bgp_stop"
definition bgp_error :: "side \<Rightarrow> nat \<Rightarrow> nat \<Rightarrow> u8 list \<Rightarrow> bgp \<Rightarrow> bgp res" where
  "bgp_error s code subcode data = error_with bgp_stop s code subcode data True"

end
