(* ===== verification/BgpExport.thy ===== *)
theory BgpExport
  imports BgpSession BgpDecision
begin

text \<open>
  Routes on their way to a neighbor (\<open>proto/bgp/attrs.c\<close>): the check whether a route may be sent and
  the attributes it gets, normal forms of attributes, and the queue of prefixes to be sent.
\<close>

section \<open>Routes and the check for export\<close>

text \<open>
  \<open>xr_src\<close> is the instance the route is from if it is a BGP one; \<open>xr_ospf_ext\<close>: the source is
  \<open>RTS_OSPF_EXT1\<close> or \<open>RTS_OSPF_EXT2\<close>; \<open>xr_router\<close>: the destination is \<open>RTD_ROUTER\<close>.
\<close>

record xroute =
  xr_eattrs :: "ea_seg list"
  xr_src :: "bgp_proto option"
  xr_ospf_ext :: bool
  xr_router :: bool
  xr_gw :: u32
  xr_iface :: "nat option"

definition BGP_COMM_NO_EXPORT :: u32 where "BGP_COMM_NO_EXPORT = 0xffffff01"
definition BGP_COMM_NO_ADVERTISE :: u32 where "BGP_COMM_NO_ADVERTISE = 0xffffff02"
definition BGP_COMM_NO_EXPORT_SUBCONFED :: u32 where "BGP_COMM_NO_EXPORT_SUBCONFED = 0xffffff03"

definition same_iface :: "bgp_proto \<Rightarrow> xroute \<Rightarrow> bool" where
  "same_iface p r \<longleftrightarrow> bp_neigh_iface p \<noteq> None \<and> xr_iface r = bp_neigh_iface p"

text \<open>\<open>link_local\<close> is \<open>ipa_is_link_local\<close> of \<open>lib/ip.h\<close>.\<close>

definition bgp_create_attrs ::
  "bgp_lib \<Rightarrow> (u32 \<Rightarrow> bool) \<Rightarrow> bgp_proto \<Rightarrow> xroute \<Rightarrow> ea_seg list \<Rightarrow> ea_seg list res"
where
  "bgp_create_attrs L link_local p r attrs =
     (let cf = bp_cf p; H = bl_host L;
          path = (if bp_is_internal p then [] else [AS_PATH_SEQUENCE, 1] @ put_u32 (bl_net L) (bp_local_as p));
          hop = (if cf_next_hop_self cf \<or> \<not> xr_router r \<or> xr_gw r = 0 \<or> link_local (xr_gw r) \<or>
                    \<not> bp_is_internal p \<and> \<not> cf_next_hop_keep cf \<and> \<not> same_iface p r
                 then bp_source_addr p else xr_gw r) in
      rbind (bgp_set_attr BA_ORIGIN (Data (if xr_ospf_ext r then ORIGIN_INCOMPLETE else ORIGIN_IGP))) (\<lambda>a0.
      rbind (bgp_set_attr BA_AS_PATH (Ptr path)) (\<lambda>a1.
      rbind (bgp_set_attr BA_NEXT_HOP (Ptr (put_u32 H hop))) (\<lambda>a2.
      rmap (\<lambda>a3. \<lparr>eal_flags = EALF_SORTED, eal_attrs = [a0, a1, a2, a3]\<rparr> # attrs)
        (bgp_set_attr BA_LOCAL_PREF (Data (cf_default_local_pref cf)))))))"

definition bgp_path_prepend :: "unaligned \<Rightarrow> xroute \<Rightarrow> ea_seg list \<Rightarrow> u32 \<Rightarrow> ea_seg list res" where
  "bgp_path_prepend U r attrs as =
     (case ea_find_bgp (xr_eattrs r) BA_AS_PATH of
        None \<Rightarrow> Inl Out_of_bounds
      | Some a \<Rightarrow> rbind (u_ptr a) (\<lambda>d. rbind (as_path_prepend U d as) (\<lambda>d'. bgp_attach_attr attrs BA_AS_PATH (Ptr d'))))"

definition bgp_cluster_list_prepend :: "unaligned \<Rightarrow> xroute \<Rightarrow> ea_seg list \<Rightarrow> u32 \<Rightarrow> ea_seg list res" where
  "bgp_cluster_list_prepend H r attrs cid =
     rbind (case ea_find_bgp (xr_eattrs r) BA_CLUSTER_LIST of None \<Rightarrow> Inr None | Some a \<Rightarrow> rmap (\<lambda>d. Some (host_words H d)) (u_ptr a))
       (\<lambda>l. bgp_attach_attr attrs BA_CLUSTER_LIST (Ptr (words_data H (data_of (int_set_prepend l cid)))))"

text \<open>The next hop of a route is kept.\<close>

definition keep_next_hop :: "unaligned \<Rightarrow> bgp_proto \<Rightarrow> xroute \<Rightarrow> bool res" where
  "keep_next_hop H p r =
     (case ea_find_bgp (xr_eattrs r) BA_NEXT_HOP of
        None \<Rightarrow> Inr False
      | Some a \<Rightarrow>
          if cf_next_hop_self (bp_cf p) then Inr False
          else if cf_next_hop_keep (bp_cf p) then Inr True
          else rbind (if bp_is_internal p then rbind (u_ptr a) (\<lambda>b. rmap (\<lambda>ip. ip \<noteq> 0) (rd_u32 H b)) else Inr False)
            (\<lambda>i. Inr (i \<or> same_iface p r)))"

text \<open>The part for route reflection; \<open>src\<close> is the instance that the route is from.\<close>

definition reflect_attrs :: "unaligned \<Rightarrow> bgp_proto \<Rightarrow> bgp_proto \<Rightarrow> xroute \<Rightarrow> ea_seg list \<Rightarrow> ea_seg list res" where
  "reflect_attrs H p src r attrs =
     rbind (if ea_find_bgp (xr_eattrs r) BA_ORIGINATOR_ID = None
            then bgp_attach_attr attrs BA_ORIGINATOR_ID (Data (bp_remote_id src)) else Inr attrs) (\<lambda>attrs.
     rbind (bgp_cluster_list_prepend H r attrs (if bp_rr_client src then bp_rr_cluster_id src else bp_rr_cluster_id p)) (\<lambda>attrs.
       if bp_rr_client src \<and> bp_rr_client p \<and> bp_rr_cluster_id src \<noteq> bp_rr_cluster_id p
       then bgp_cluster_list_prepend H r attrs (bp_rr_cluster_id p) else Inr attrs))"

definition bgp_update_attrs ::
  "bgp_lib \<Rightarrow> bgp_proto \<Rightarrow> bgp_proto \<Rightarrow> xroute \<Rightarrow> ea_seg list \<Rightarrow> bool \<Rightarrow> ea_seg list res"
where
  "bgp_update_attrs L p src r attrs rr =
     rbind (if \<not> bp_is_internal p \<and> \<not> bp_rs_client p then
              rbind (bgp_path_prepend (bl_net L) r attrs (bp_local_as p)) (\<lambda>attrs.
                if ea_find_bgp (xr_eattrs r) BA_MULTI_EXIT_DISC \<noteq> None
                then bgp_attach_attr attrs BA_MULTI_EXIT_DISC (Data 0) else Inr attrs)
            else Inr attrs) (\<lambda>attrs.
     rbind (keep_next_hop (bl_host L) p r) (\<lambda>keep.
     rbind (if keep then Inr attrs else bgp_attach_attr attrs BA_NEXT_HOP (Ptr (put_u32 (bl_host L) (bp_source_addr p)))) (\<lambda>attrs.
       if rr then reflect_attrs (bl_host L) p src r attrs else Inr attrs)))"

definition bgp_community_filter :: "unaligned \<Rightarrow> bgp_proto \<Rightarrow> xroute \<Rightarrow> bool res" where
  "bgp_community_filter H p r =
     (case ea_find_bgp (xr_eattrs r) BA_COMMUNITY of
        None \<Rightarrow> Inr False
      | Some a \<Rightarrow>
          rmap (\<lambda>d. let l = Some (host_words H d) in
                 int_set_contains l BGP_COMM_NO_ADVERTISE \<or>
                 \<not> bp_is_internal p \<and> (int_set_contains l BGP_COMM_NO_EXPORT \<or> int_set_contains l BGP_COMM_NO_EXPORT_SUBCONFED))
            (u_ptr a))"

text \<open>\<open>None\<close> is the result -1: the route is not sent.\<close>

definition bgp_import_control ::
  "bgp_lib \<Rightarrow> (u32 \<Rightarrow> bool) \<Rightarrow> bgp_proto \<Rightarrow> xroute \<Rightarrow> ea_seg list \<Rightarrow> ea_seg list option res"
where
  "bgp_import_control L link_local p r attrs =
     (case xr_src r of
        None \<Rightarrow> rmap Some (bgp_create_attrs L link_local p r attrs)
      | Some src \<Rightarrow>
          if bp_ref p = bp_ref src then Inr None
          else rbind (bgp_cluster_list_loopy (bl_host L) p (xr_eattrs r)) (\<lambda>loopy.
            if loopy then Inr None
            else rbind (if cf_interpret_communities (bp_cf p) then bgp_community_filter (bl_host L) p r else Inr False) (\<lambda>no.
              if no then Inr None
              else if bp_local_as p = bp_local_as src \<and> bp_is_internal p \<and> bp_is_internal src then
                (if bp_rr_client p \<or> bp_rr_client src then rmap Some (bgp_update_attrs L p src r attrs True) else Inr None)
              else rmap Some (bgp_update_attrs L p src r attrs False))))"

section \<open>Normal forms\<close>

text \<open>
  The comparisons of \<open>qsort\<close> are those of the elements themselves, so that the sorted array does not
  depend on the algorithm.
\<close>

definition EC_TBIT :: u32 where "EC_TBIT = 0x40000000"

definition bgp_normalize_int_set :: "u32 list \<Rightarrow> u32 list" where
  "bgp_normalize_int_set src = sort src"

fun ec_transitive :: "u32 list \<Rightarrow> u32 list res" where
  "ec_transitive [] = Inr []"
| "ec_transitive [x] = (if x AND EC_TBIT \<noteq> 0 then Inr [] else Inl Out_of_bounds)"
| "ec_transitive (x # y # l) = rmap (\<lambda>r. if x AND EC_TBIT \<noteq> 0 then r else x # y # r) (ec_transitive l)"

fun pairs_of :: "u32 list \<Rightarrow> (u32 \<times> u32) list \<times> u32 list" where
  "pairs_of (x # y # l) = (case pairs_of l of (ps, r) \<Rightarrow> ((x, y) # ps, r))"
| "pairs_of l = ([], l)"

definition bgp_normalize_ec_set :: "u32 list \<Rightarrow> bool \<Rightarrow> u32 list res" where
  "bgp_normalize_ec_set src internal =
     rmap (\<lambda>l. case pairs_of l of (ps, r) \<Rightarrow> concat (map (\<lambda>(x, y). [x, y]) (sort_key (\<lambda>(x, y). ec_get x y) ps)) @ r)
       (if internal then Inr src else ec_transitive src)"

fun triples_of :: "u32 list \<Rightarrow> (u32 \<times> u32 \<times> u32) list \<times> u32 list" where
  "triples_of (x # y # z # l) = (case triples_of l of (ts, r) \<Rightarrow> ((x, y, z) # ts, r))"
| "triples_of l = ([], l)"

definition bgp_compare_lc :: "u32 \<times> u32 \<times> u32 \<Rightarrow> u32 \<times> u32 \<times> u32 \<Rightarrow> int" where
  "bgp_compare_lc a b =
     (case (a, b) of ((x0, x1, x2), (y0, y1, y2)) \<Rightarrow>
        if x0 \<noteq> y0 then (if x0 > y0 then 1 else -1)
        else if x1 \<noteq> y1 then (if x1 > y1 then 1 else -1)
        else if x2 \<noteq> y2 then (if x2 > y2 then 1 else -1) else 0)"

definition lc_key :: "u32 \<times> u32 \<times> u32 \<Rightarrow> nat" where
  "lc_key t = (case t of (x, y, z) \<Rightarrow> unat x * 2 ^ 64 + unat y * 2 ^ 32 + unat z)"

lemma bgp_compare_lc_key:
  "bgp_compare_lc a b = (if lc_key a < lc_key b then -1 else if lc_key b < lc_key a then 1 else 0)"
proof -
  obtain x0 x1 x2 y0 y1 y2 where ab: "a = (x0, x1, x2)" "b = (y0, y1, y2)" by (cases a; cases b) auto
  have lt: "unat w < 4294967296" for w :: u32 using unsigned_less [of w] by simp
  have key: "lc_key (u, v, w) = unat u * 18446744073709551616 + unat v * 4294967296 + unat w" for u v w
    by (simp add: lc_key_def)
  have eq: "v = w \<longleftrightarrow> unat v = unat w" for v w :: u32 by (simp add: word_unat_eq_iff)
  show ?thesis
    using lt [of x0] lt [of x1] lt [of x2] lt [of y0] lt [of y1] lt [of y2]
    unfolding ab key bgp_compare_lc_def prod.case word_less_nat_alt eq by (simp; linarith)
qed

definition bgp_normalize_lc_set :: "u32 list \<Rightarrow> u32 list" where
  "bgp_normalize_lc_set src =
     (case triples_of src of (ts, r) \<Rightarrow> concat (map (\<lambda>(x, y, z). [x, y, z]) (sort_key lc_key ts)) @ r)"

text \<open>One attribute in the loop of \<open>bgp_get_bucket\<close>: its normal form, or \<open>None\<close> if it is left out.\<close>

definition normal_value :: "unaligned \<Rightarrow> bgp_proto \<Rightarrow> eattr \<Rightarrow> eattr res" where
  "normal_value H p a =
     (let type = ea_type a AND EAF_TYPE_MASK in
      if type = EAF_TYPE_INT_SET then
        rmap (\<lambda>d. a\<lparr>ea_u := Ptr (words_data H (bgp_normalize_int_set (host_words H d)))\<rparr>) (u_ptr a)
      else if type = EAF_TYPE_EC_SET then
        rbind (u_ptr a) (\<lambda>d. rmap (\<lambda>w. a\<lparr>ea_u := Ptr (words_data H w)\<rparr>) (bgp_normalize_ec_set (host_words H d) (bp_is_internal p)))
      else if type = EAF_TYPE_LC_SET then
        rmap (\<lambda>d. a\<lparr>ea_u := Ptr (words_data H (bgp_normalize_lc_set (host_words H d)))\<rparr>) (u_ptr a)
      else Inr a)"

definition normal_attr :: "unaligned \<Rightarrow> bgp_proto \<Rightarrow> bool \<Rightarrow> eattr \<Rightarrow> eattr option res" where
  "normal_attr H p originate a =
     (let code = EA_ID (ea_id a);
          go = (\<lambda>a. let partial = (ea_type a AND EAF_ORIGINATED \<noteq> 0 \<and> \<not> originate \<and>
                      ea_flags a AND BAF_TRANSITIVE \<noteq> 0 \<and> ea_flags a AND BAF_OPTIONAL \<noteq> 0)
                in rmap Some (normal_value H p (if partial then a\<lparr>ea_flags := ea_flags a OR BAF_PARTIAL\<rparr> else a))) in
      if EA_PROTO (ea_id a) \<noteq> EAP_BGP then Inr None
      else case bgp_attr_table code of
        Some d \<Rightarrow>
          if \<not> bp_is_internal p \<and> (\<not> ad_ebgp d \<or> code = BA_LOCAL_PREF \<and> \<not> cf_allow_local_pref (bp_cf p)) then Inr None
          else go (a\<lparr>ea_flags := ea_flags a AND BAF_PARTIAL OR ad_flags d\<rparr>)
      | None \<Rightarrow> if ea_flags a AND BAF_TRANSITIVE = 0 then Inr None else go a)"

fun normal_attrs :: "unaligned \<Rightarrow> bgp_proto \<Rightarrow> bool \<Rightarrow> eattr list \<Rightarrow> eattr list res" where
  "normal_attrs H p originate [] = Inr []"
| "normal_attrs H p originate (a # l) =
     rbind (normal_attr H p originate a) (\<lambda>r.
       rmap (\<lambda>l. case r of None \<Rightarrow> l | Some b \<Rightarrow> b # l) (normal_attrs H p originate l))"

section \<open>The queue\<close>

text \<open>
  A bucket is found by its hash and \<open>ea_same\<close>: the buckets in the hash table are those in the queue, and
  equal attributes have equal hashes. The result is \<open>None\<close> when the attributes are refused; the
  known attributes that are kept are those in \<open>seen\<close>.
\<close>

fun find_bucket :: "ea_seg \<Rightarrow> bucket list \<Rightarrow> bool res" where
  "find_bucket new [] = Inr False"
| "find_bucket new ((attrs, ns) # bs) =
     rbind (ea_same [\<lparr>eal_flags = 0, eal_attrs = attrs\<rparr>] [new]) (\<lambda>same. if same then Inr True else find_bucket new bs)"

definition bgp_get_bucket ::
  "bgp_lib \<Rightarrow> bgp_proto \<Rightarrow> ea_seg list \<Rightarrow> bool \<Rightarrow> bucket list \<Rightarrow> (eattr list \<times> bucket list) option res"
where
  "bgp_get_bucket L p attrs originate bs =
     (case ea_sort (ea_merge attrs) of
        [] \<Rightarrow> Inl Out_of_bounds
      | e # _ \<Rightarrow>
          rbind (normal_attrs (bl_host L) p originate (eal_attrs e)) (\<lambda>l.
            let new = e\<lparr>eal_attrs := l\<rparr>; seen = (\<lambda>c. \<exists>a \<in> set l. ea_id a = EA_CODE EAP_BGP c) in
            rbind (find_bucket new bs) (\<lambda>found.
              if found then Inr (Some (l, bs))
              else if \<not> list_all seen bgp_mandatory_attrs then Inr None
              else case ea_find_bgp [new] BA_NEXT_HOP of
                None \<Rightarrow> Inr None
              | Some a \<Rightarrow>
                  rbind (u_ptr a) (\<lambda>b. rbind (rd_u32 (bl_host L) b) (\<lambda>ip.
                    if ip = cf_remote_ip (bp_cf p) then Inr None else Inr (Some (l, bs @ [(l, [])])))))))"

text \<open>The node of a prefix is in one list at most: it is taken out before it is put into another one.\<close>

definition remove_prefix :: "nlri \<Rightarrow> bgp_tx \<Rightarrow> bgp_tx" where
  "remove_prefix n t =
     t\<lparr>tx_withdraw := remove1 n (tx_withdraw t), tx_buckets := map (\<lambda>(a, ns). (a, remove1 n ns)) (tx_buckets t)\<rparr>"

fun add_to_bucket :: "eattr list \<Rightarrow> nlri \<Rightarrow> bucket list \<Rightarrow> bucket list" where
  "add_to_bucket l n [] = []"
| "add_to_bucket l n ((a, ns) # bs) = (if a = l then (a, ns @ [n]) # bs else (a, ns) # add_to_bucket l n bs)"

text \<open>
  \<open>bgp_rt_notify\<close>; \<open>new\<close> is the route with its attributes and whether its source is not BGP, \<open>gid\<close> is the
  number of the source of the route that is announced or withdrawn.
\<close>

definition bgp_rt_notify ::
  "bgp_lib \<Rightarrow> u32 \<Rightarrow> u8 \<Rightarrow> u32 \<Rightarrow> (ea_seg list \<times> bool) option \<Rightarrow> bgp \<Rightarrow> bgp res"
where
  "bgp_rt_notify L px pxlen gid new p =
     (if \<not> tx_tables (b_tx p) then Inl Out_of_bounds
      else
        let n = (if ng_add_path_tx (b_neg p) then gid else 0, px, pxlen); t = b_tx p;
            put = (\<lambda>t. case b_conn p of None \<Rightarrow> Inl Out_of_bounds
              | Some s \<Rightarrow> Inr (bgp_schedule_packet s PKT_UPDATE (p\<lparr>b_tx := t\<rparr>))) in
        case new of
          Some (attrs, originate) \<Rightarrow>
            rbind (bgp_get_bucket L (b_p p) attrs originate (tx_buckets t)) (\<lambda>r.
              case r of
                None \<Rightarrow> Inr p
              | Some (l, bs) \<Rightarrow>
                  let t = remove_prefix n (t\<lparr>tx_buckets := bs\<rparr>) in put (t\<lparr>tx_buckets := add_to_bucket l n (tx_buckets t)\<rparr>))
        | None \<Rightarrow> let t = remove_prefix n t in put (t\<lparr>tx_withdraw := tx_withdraw t @ [n]\<rparr>))"

end
