(* ===== verification/BgpEvents.thy ===== *)
theory BgpEvents
  imports BgpSession
begin

text \<open>
  The handlers of the events of a BGP session: the start of the instance, connections, timers, received and
  sent messages, changes of the neighbor, and shutdown.
\<close>

section \<open>Environment\<close>

text \<open>
  What the handlers use of other parts. \<open>en_neigh\<close> is \<open>neigh_find\<close> for an address: the gateway, and whether
  its scope is \<open>SCOPE_HOST\<close>; \<open>en_peer\<close> is the same for the neighbor entry of the session.
\<close>

record bgp_env =
  en_lib :: bgp_lib
  en_ip :: "u32 ip_ops"
  en_neigh :: "u32 \<Rightarrow> (u32 \<times> bool) option"
  en_peer :: "u32 \<times> bool"

abbreviation en_net :: "bgp_env \<Rightarrow> unaligned" where "en_net E \<equiv> bl_net (en_lib E)"

section \<open>Graceful restart and route refresh\<close>

definition bgp_graceful_restart_done :: "bgp \<Rightarrow> bgp" where
  "bgp_graceful_restart_done p = bgp_call Rt_refresh_end (p\<lparr>b_gr_active := False, b_gr_timer := 0\<rparr>)"

definition bgp_handle_graceful_restart :: "bgp \<Rightarrow> bgp res" where
  "bgp_handle_graceful_restart p =
     (case b_conn p of
        None \<Rightarrow> Inl Assert_failed
      | Some s \<Rightarrow>
          ASSERT (st_of s p = BS_ESTABLISHED \<and> ng_gr_ready (b_neg p))
            (rbind (bgp_notify PS_START p) (\<lambda>p.
              let p = (if b_gr_active p then bgp_call Rt_refresh_end p else p) in
              Inr (bgp_call Rt_refresh_begin
                (p\<lparr>b_gr_active := True, b_gr_timer := ucast (pc_gr_time (c_peer (conn_of s p)))\<rparr>)))))"

definition bgp_refresh_begin :: "bgp \<Rightarrow> bgp" where
  "bgp_refresh_begin p =
     (if b_load_state p = BFS_LOADING then p
      else bgp_call Rt_refresh_begin (p\<lparr>b_load_state := BFS_REFRESHING\<rparr>))"

definition bgp_refresh_end :: "bgp \<Rightarrow> bgp" where
  "bgp_refresh_end p =
     (if b_load_state p \<noteq> BFS_REFRESHING then p
      else bgp_call Rt_refresh_end (p\<lparr>b_load_state := BFS_NONE\<rparr>))"

section \<open>States of a connection\<close>

definition bgp_conn_enter_openconfirm_state :: "side \<Rightarrow> bgp \<Rightarrow> bgp" where
  "bgp_conn_enter_openconfirm_state s p = bgp_conn_set_state s BS_OPENCONFIRM p"

definition bgp_conn_enter_established_state :: "side \<Rightarrow> bgp \<Rightarrow> bgp res" where
  "bgp_conn_enter_established_state s p =
     (case c_sk (conn_of s p) of
        None \<Rightarrow> Inl Out_of_bounds
      | Some k \<Rightarrow>
          (let p = (if bp_source_addr (b_p p) = 0 then p\<lparr>b_p := (b_p p)\<lparr>bp_source_addr := sk_saddr k\<rparr>\<rparr> else p);
               p = p\<lparr>b_conn := Some s, b_err := (b_err p)\<lparr>er_class := 0, er_code := 0\<rparr>,
                     b_feed_state := BFS_NONE, b_load_state := BFS_NONE,
                     b_tx := \<lparr>tx_tables = True, tx_withdraw = [], tx_buckets = []\<rparr>\<rparr>;
               pc = c_peer (conn_of s p);
               peer_gr_ready = (pc_gr_aware pc \<and> pc_gr_flags pc AND BGP_GRF_RESTART = 0);
               p = (if gr_recovery p \<and> \<not> peer_gr_ready then proto_graceful_restart_unlock p else p);
               p = (if gr_recovery p \<and> sc_gr_mode (b_cf p) = BGP_GR_ABLE \<and> peer_gr_ready then p\<lparr>gr_wait := True\<rparr> else p);
               p = (if b_gr_active p then p\<lparr>b_gr_timer := 0\<rparr> else p);
               p = (if b_gr_active p \<and> (\<not> pc_gr_able pc \<or> pc_gr_aflags pc AND BGP_GRF_FORWARDING = 0)
                    then bgp_graceful_restart_done p else p);
               p = (if pc_gr_aware pc then p\<lparr>b_load_state := BFS_LOADING\<rparr> else p)
           in bgp_notify PS_UP (bgp_conn_set_state s BS_ESTABLISHED p)))"

definition bgp_setup_conn :: "side \<Rightarrow> bgp \<Rightarrow> bgp" where
  "bgp_setup_conn s p =
     upd_conn s (\<lambda>c. c\<lparr>c_sk := None, c_to_send := 0, c_live := True, c_retry_timer := 0, c_hold_timer := 0,
       c_keepalive_timer := 0, c_tx_ev := False\<rparr>) p"

definition bgp_setup_sk :: "side \<Rightarrow> sock \<Rightarrow> bgp \<Rightarrow> bgp" where
  "bgp_setup_sk s k p = upd_conn s (\<lambda>c. c\<lparr>c_sk := Some k\<rparr>) p"

definition bgp_send_open :: "side \<Rightarrow> bgp \<Rightarrow> bgp res" where
  "bgp_send_open s p =
     (let p = upd_conn s (\<lambda>c. c\<lparr>c_start_state := b_start_state p, c_peer := no_caps\<rparr>) p in
      rbind (on_sock s (\<lambda>k. k\<lparr>sk_rx := True\<rparr>) p) (\<lambda>p.
      rbind (on_timers s (\<lambda>c. c\<lparr>c_retry_timer := 0\<rparr>) p) (\<lambda>p.
        on_timers s (\<lambda>c. c\<lparr>c_hold_timer := sc_initial_hold_time (b_cf p)\<rparr>)
          (bgp_conn_set_state s BS_OPENSENT (bgp_schedule_packet s PKT_OPEN p)))))"

definition bgp_connected :: "side \<Rightarrow> bgp \<Rightarrow> bgp res" where
  "bgp_connected s p = bgp_send_open s p"

section \<open>Connecting\<close>

definition bgp_active :: "bgp \<Rightarrow> bgp" where
  "bgp_active p =
     (let p = bgp_conn_set_state Outgoing BS_ACTIVE (bgp_setup_conn Outgoing p)
      in upd_conn Outgoing (\<lambda>c. c\<lparr>c_retry_timer := max 1 (sc_connect_delay_time (b_cf p))\<rparr>) p)"

definition bgp_startup :: "bgp \<Rightarrow> bgp" where
  "bgp_startup p =
     (let p = p\<lparr>b_start_state := (if sc_capabilities (b_cf p) \<noteq> 0 then BSS_CONNECT else BSS_CONNECT_NOCAP)\<rparr>
      in if sc_passive (b_cf p) then p else bgp_active p)"

definition bgp_sock_err :: "side \<Rightarrow> u32 \<Rightarrow> bgp \<Rightarrow> bgp res" where
  "bgp_sock_err s err p =
     (let p = bgp_store_error (Some s) BE_SOCKET err p in
      rbind (if st_of s p = BS_ESTABLISHED \<and> ng_gr_ready (b_neg p) then bgp_handle_graceful_restart p else Inr p)
        (bgp_conn_enter_idle_state s))"

text \<open>\<open>bgp_connect\<close> with a new socket; \<open>opened\<close>: \<open>sk_open\<close> and \<open>sk_set_min_ttl\<close> succeed.\<close>

definition bgp_connect :: "sock \<Rightarrow> bool \<Rightarrow> bgp \<Rightarrow> bgp res" where
  "bgp_connect k opened p =
     (let p = bgp_conn_set_state Outgoing BS_CONNECT (bgp_setup_sk Outgoing k (bgp_setup_conn Outgoing p)) in
      if \<not> opened then bgp_sock_err Outgoing 0 p
      else on_timers Outgoing (\<lambda>c. c\<lparr>c_retry_timer := sc_connect_retry_time (b_cf p)\<rparr>) p)"

definition bgp_connect_timeout :: "side \<Rightarrow> sock \<Rightarrow> bool \<Rightarrow> bgp \<Rightarrow> bgp res" where
  "bgp_connect_timeout s k opened p =
     (if proto_state p = PS_START then bgp_connect k opened (bgp_close_conn s p)
      else bgp_conn_enter_idle_state s p)"

text \<open>\<open>rx_ready\<close> is the result of \<open>sk_rx_ready\<close>.\<close>

definition bgp_hold_timeout :: "side \<Rightarrow> bool \<Rightarrow> bgp \<Rightarrow> bgp res" where
  "bgp_hold_timeout s rx_ready p =
     (if st_of s p = BS_CLOSE then bgp_conn_enter_idle_state s p
      else if rx_ready then on_timers s (\<lambda>c. c\<lparr>c_hold_timer := 10\<rparr>) p
      else bgp_error s 4 0 [] p)"

definition bgp_keepalive_timeout :: "side \<Rightarrow> bgp \<Rightarrow> bgp" where
  "bgp_keepalive_timeout s p = bgp_schedule_packet s PKT_KEEPALIVE p"

text \<open>
  \<open>bgp_incoming_connection\<close> for the instance that \<open>bgp_find_proto\<close> found; \<open>ttl_ok\<close>: \<open>sk_set_ttl\<close> and
  \<open>sk_set_min_ttl\<close> succeed.
\<close>

definition bgp_incoming_connection :: "sock \<Rightarrow> bool \<Rightarrow> bgp \<Rightarrow> bgp res" where
  "bgp_incoming_connection k ttl_ok p =
     (let acc = ((proto_state p = PS_START \<or> proto_state p = PS_UP) \<and>
            (b_start_state p = BSS_CONNECT \<or> b_start_state p = BSS_CONNECT_NOCAP) \<and> c_sk (b_in p) = None) in
      rbind
        (case b_conn p of
           Some s \<Rightarrow>
             if st_of s p = BS_ESTABLISHED \<and> ng_gr_ready (b_neg p) then
               rbind (bgp_handle_graceful_restart (bgp_store_error None BE_MISC BEM_GRACEFUL_RESTART p)) (\<lambda>p.
               rbind (bgp_conn_enter_idle_state s p) (\<lambda>p.
                 Inr (True, if c_state (b_in p) \<in> {BS_OPENSENT, BS_OPENCONFIRM, BS_ESTABLISHED, BS_CLOSE}
                            then bgp_close_conn Incoming p else p)))
             else Inr (acc, p)
         | None \<Rightarrow> Inr (acc, p))
        (\<lambda>(acc, p).
          if \<not> acc \<or> \<not> ttl_ok then Inr p
          else bgp_send_open Incoming (bgp_setup_sk Incoming k (bgp_setup_conn Incoming p))))"

section \<open>Start and stop of the instance\<close>

text \<open>\<open>listen_ok\<close>: a listening socket can be opened; \<open>md5_ok\<close>: \<open>sk_set_md5_auth\<close> succeeds.\<close>

definition bgp_close :: "bgp \<Rightarrow> bgp res" where
  "bgp_close p =
     ASSERT (sh_counter (b_shared p) \<noteq> 0)
       (Inr (let n = sh_counter (b_shared p) - 1
             in p\<lparr>b_shared := \<lparr>sh_listen_sk = (sh_listen_sk (b_shared p) \<and> n \<noteq> 0), sh_counter = n\<rparr>\<rparr>))"

text \<open>The error exit of \<open>bgp_open\<close>; the boolean of the result is false when the caller has to return.\<close>

definition open_failed :: "u32 \<Rightarrow> bgp \<Rightarrow> (bool \<times> bgp) res" where
  "open_failed errcode p =
     rmap (\<lambda>p. (False, p)) (bgp_notify PS_DOWN (bgp_store_error None BE_MISC errcode (p\<lparr>p_disabled := True\<rparr>)))"

definition bgp_open :: "bool \<Rightarrow> bool \<Rightarrow> bgp \<Rightarrow> (bool \<times> bgp) res" where
  "bgp_open listen_ok md5_ok p =
     (let p = (if sh_listen_sk (b_shared p) then p else p\<lparr>b_shared := (b_shared p)\<lparr>sh_listen_sk := listen_ok\<rparr>\<rparr>) in
      if \<not> sh_listen_sk (b_shared p) then open_failed BEM_NO_SOCKET p
      else
        (let p = p\<lparr>b_shared := (b_shared p)\<lparr>sh_counter := sh_counter (b_shared p) + 1\<rparr>\<rparr> in
         if sc_password (b_cf p) \<and> \<not> md5_ok then rbind (bgp_close p) (open_failed BEM_INVALID_MD5)
         else Inr (True, p)))"

definition bgp_update_bfd :: "bool \<Rightarrow> bgp \<Rightarrow> bgp" where
  "bgp_update_bfd use_bfd p = p\<lparr>b_bfd_req := use_bfd\<rparr>"

definition bgp_initiate :: "bool \<Rightarrow> bool \<Rightarrow> bgp \<Rightarrow> bgp res" where
  "bgp_initiate listen_ok md5_ok p =
     rbind (bgp_open listen_ok md5_ok p) (\<lambda>(ok, p).
       if \<not> ok then Inr p
       else
         (let p = (if sc_bfd (b_cf p) then bgp_update_bfd True p else p) in
          Inr (if er_startup_delay (b_err p) \<noteq> 0
               then p\<lparr>b_start_state := BSS_DELAY, b_startup_timer := er_startup_delay (b_err p)\<rparr>
               else bgp_startup p)))"

text \<open>\<open>ifa_ip\<close> is the address of the own interface.\<close>

definition bgp_start_neighbor :: "u32 \<Rightarrow> bool \<Rightarrow> bool \<Rightarrow> bgp \<Rightarrow> bgp res" where
  "bgp_start_neighbor ifa_ip listen_ok md5_ok p =
     bgp_initiate listen_ok md5_ok
       (if bp_source_addr (b_p p) = 0 then p\<lparr>b_p := (b_p p)\<lparr>bp_source_addr := ifa_ip\<rparr>\<rparr> else p)"

text \<open>
  A neighbor entry as the code looks at it: \<open>scope > 0\<close>, the link of its interface is up, and the own
  address. \<open>bgp_start_locked\<close> has the result of \<open>neigh_find2\<close>.
\<close>

record neigh_info =
  ni_scope :: bool
  ni_link :: bool
  ni_ifa :: u32

definition bgp_start_locked :: "neigh_info option \<Rightarrow> bool \<Rightarrow> bool \<Rightarrow> bgp \<Rightarrow> bgp res" where
  "bgp_start_locked n listen_ok md5_ok p =
     (if proto_state p \<noteq> PS_START then Inr p
      else if sc_multihop (b_cf p) then bgp_initiate listen_ok md5_ok p
      else case n of
        None \<Rightarrow> bgp_notify PS_DOWN (bgp_store_error None BE_MISC BEM_INVALID_NEXT_HOP (p\<lparr>p_disabled := True\<rparr>))
      | Some n \<Rightarrow>
          (let p = p\<lparr>b_neigh := True\<rparr> in
           if \<not> ni_scope n then Inr p
           else if sc_check_link (b_cf p) \<and> \<not> ni_link n then Inr p
           else bgp_start_neighbor (ni_ifa n) listen_ok md5_ok p))"

definition bgp_neigh_notify :: "neigh_info \<Rightarrow> bool \<Rightarrow> bool \<Rightarrow> bgp \<Rightarrow> bgp res" where
  "bgp_neigh_notify n listen_ok md5_ok p =
     (let ps = proto_state p; prepare = (ps = PS_START \<and> b_start_state p = BSS_PREPARE) in
      if \<not> b_neigh p \<or> ps = PS_DOWN \<or> ps = PS_STOP then Inr p
      else if \<not> ni_scope n then
        (if prepare then Inr p else bgp_stop 0 [] (bgp_store_error None BE_MISC BEM_NEIGHBOR_LOST p))
      else if sc_check_link (b_cf p) \<and> \<not> ni_link n then
        (if prepare then Inr p
         else let p = bgp_store_error None BE_MISC BEM_LINK_DOWN p
              in bgp_stop 0 [] (if ps = PS_UP then bgp_update_startup_delay p else p))
      else if prepare then bgp_start_neighbor (ni_ifa n) listen_ok md5_ok p
      else Inr p)"

definition bgp_bfd_notify :: "bool \<Rightarrow> bgp \<Rightarrow> bgp res" where
  "bgp_bfd_notify down p =
     (let ps = proto_state p in
      if down \<and> (ps = PS_START \<or> ps = PS_UP) then
        (let p = bgp_store_error None BE_MISC BEM_BFD_DOWN p
         in bgp_stop 0 [] (if ps = PS_UP then bgp_update_startup_delay p else p))
      else Inr p)"

definition bgp_reload_routes :: "bgp \<Rightarrow> bgp \<times> bool" where
  "bgp_reload_routes p =
     (case b_conn p of
        None \<Rightarrow> (p, False)
      | Some s \<Rightarrow> if pc_refresh (c_peer (conn_of s p)) then (bgp_schedule_packet s PKT_ROUTE_REFRESH p, True) else (p, False))"

definition bgp_start :: "u32 \<Rightarrow> u32 \<Rightarrow> bgp \<Rightarrow> (bgp \<times> proto_st) res" where
  "bgp_start router_id source_addr p =
     (let q = b_p p;
          q = q\<lparr>bp_local_id := router_id, bp_remote_id := 0, bp_source_addr := source_addr,
                bp_rr_cluster_id := (if \<not> bp_rr_client q then bp_rr_cluster_id q
                   else if sc_rr_cluster_id (b_cf p) \<noteq> 0 then sc_rr_cluster_id (b_cf p) else router_id)\<rparr>;
          p = p\<lparr>b_start_state := BSS_PREPARE, b_out := (b_out p)\<lparr>c_state := BS_IDLE\<rparr>, b_in := (b_in p)\<lparr>c_state := BS_IDLE\<rparr>,
                b_neigh := False, b_bfd_req := False, b_neg := (b_neg p)\<lparr>ng_gr_ready := False\<rparr>, b_gr_active := False,
                b_event := False, b_startup_timer := 0, b_gr_timer := 0, b_p := q\<rparr> in
      rmap (\<lambda>p. (p, PS_START))
        (if gr_recovery p \<and> sc_gr_mode (b_cf p) \<noteq> 0 then proto_graceful_restart_lock p else Inr p))"

text \<open>The causes of a shutdown; the result is the subcode, the message and the way the error is stored.\<close>

definition bgp_shutdown :: "bool \<Rightarrow> bgp \<Rightarrow> (bgp \<times> proto_st) res" where
  "bgp_shutdown proto_restart p =
     (let dc = down_code p;
          limit = (dc = PDC_RX_LIMIT_HIT \<or> dc = PDC_IN_LIMIT_HIT \<or> dc = PDC_OUT_LIMIT_HIT);
          subcode = (if dc = PDC_CF_REMOVE \<or> dc = PDC_CF_DISABLE then 3 else if dc = PDC_CF_RESTART then 6
                     else if dc = PDC_CMD_DISABLE \<or> dc = PDC_CMD_SHUTDOWN then 2 else if dc = PDC_CMD_RESTART then 4
                     else if dc = PDC_RX_LIMIT_HIT \<or> dc = PDC_IN_LIMIT_HIT then 1
                     else if dc = PDC_OUT_LIMIT_HIT then (if proto_restart then 4 else 2) else 0);
          message = (if dc = PDC_CMD_DISABLE \<or> dc = PDC_CMD_SHUTDOWN \<or> dc = PDC_CMD_RESTART then p_message p else []);
          msg = take 128 message;
          data = (if limit \<or> message = [] then [] else of_nat (length msg) # msg);
          no_delay = (\<lambda>p. p\<lparr>b_err := (b_err p)\<lparr>er_startup_delay := 0\<rparr>\<rparr>);
          p = (if limit then
                 (let p = bgp_store_error None BE_AUTO_DOWN BEA_ROUTE_LIMIT_EXCEEDED p
                  in if proto_restart then bgp_update_startup_delay p else no_delay p)
               else no_delay (bgp_store_error None BE_MAN_DOWN 0 p)) in
      rmap (\<lambda>p. (p, proto_state p)) (bgp_stop subcode data p))"

definition bgp_down :: "bgp \<Rightarrow> bgp res" where
  "bgp_down p = rbind (if b_start_state p \<noteq> BSS_PREPARE then bgp_close p else Inr p) (bgp_notify PS_DOWN)"

definition bgp_decision :: "bgp \<Rightarrow> bgp res" where
  "bgp_decision p =
     (let p = p\<lparr>b_event := False\<rparr>;
          p = (if proto_state p = PS_START \<and> c_state (b_out p) = BS_IDLE \<and> c_state (b_in p) \<noteq> BS_OPENCONFIRM \<and>
                  \<not> sc_passive (b_cf p) then bgp_active p else p) in
      if proto_state p = PS_STOP \<and> c_state (b_out p) = BS_IDLE \<and> c_state (b_in p) = BS_IDLE then bgp_down p
      else Inr p)"

definition bgp_startup_timeout :: "bgp \<Rightarrow> bgp" where "bgp_startup_timeout p = bgp_startup p"

definition bgp_graceful_restart_timeout :: "bgp \<Rightarrow> bgp res" where
  "bgp_graceful_restart_timeout p = bgp_stop 0 [] p"

section \<open>The hooks of the protocol\<close>

text \<open>A new instance: memory of zeros, the configuration and what is taken from it (\<open>q\<close>, \<open>disabled\<close>).\<close>

definition no_conn :: bgp_conn where
  "no_conn = \<lparr>c_state = BS_IDLE, c_sk = None, c_live = False, c_retry_timer = 0, c_hold_timer = 0, c_keepalive_timer = 0,
     c_tx_ev = False, c_to_send = 0, c_notify = (0, 0, []), c_start_state = BSS_PREPARE, c_peer = no_caps,
     c_hold_time = 0, c_keepalive_time = 0\<rparr>"

definition bgp_init :: "session_cfg \<Rightarrow> bgp_proto \<Rightarrow> bgp \<Rightarrow> bgp" where
  "bgp_init cf q p =
     p\<lparr>b_cf := cf,
       b_p := q\<lparr>bp_is_internal := (bp_local_as q = bp_remote_as q), bp_as4_session := False, bp_local_id := 0,
         bp_remote_id := 0, bp_rr_cluster_id := 0, bp_neigh_iface := None, bp_source_addr := 0\<rparr>,
       b_start_state := BSS_PREPARE,
       b_neg := \<lparr>ng_add_path_rx = False, ng_add_path_tx = False, ng_ext_messages = False, ng_gr_ready = False\<rparr>,
       b_gr_active := False, b_feed_state := BFS_NONE, b_load_state := BFS_NONE, b_conn := None,
       b_out := no_conn, b_in := no_conn, b_neigh := False, b_bfd_req := False, b_event := False,
       b_startup_timer := 0, b_gr_timer := 0,
       b_err := \<lparr>er_startup_delay = 0, er_last_proto_error = 0, er_class = 0, er_code = 0\<rparr>,
       b_tx := \<lparr>tx_tables = False, tx_withdraw = [], tx_buckets = []\<rparr>,
       b_ra := (if sc_secondary cf then RA_ACCEPTED else RA_OPTIMAL)\<rparr>"

definition proto_new :: "bool \<Rightarrow> bgp \<Rightarrow> bgp" where
  "proto_new disabled p =
     p\<lparr>p_disabled := disabled, p_reconfiguring := False, p_refeeding := False, p_flushing := False, gr_recovery := False,
       gr_lock := False, gr_wait := False, down_sched := 0, down_code := 0, p_attn := None, p_attn_active := False,
       p_pool := False, p_hooked := False, p_linked := False, p_source := False, p_locked := False, p_mark := False,
       st_imp_routes := 0, st_filt_routes := 0, st_exp_routes := 0, p_message := [], p_fell := False, p_gone := False\<rparr>"

definition proto_init :: "session_cfg \<Rightarrow> bgp_proto \<Rightarrow> bool \<Rightarrow> bgp \<Rightarrow> bgp" where
  "proto_init cf q disabled p =
     (bgp_init cf q (proto_new disabled p))\<lparr>proto_state := PS_DOWN, core_state := FS_HUNGRY, export_state := ES_DOWN\<rparr>"

text \<open>\<open>restart\<close> is the variable \<open>proto_restart\<close>, \<open>cf_new\<close> the configuration after a reconfiguration, if there is one.\<close>

definition bgp_hooks :: "u32 \<Rightarrow> u32 \<Rightarrow> bool \<Rightarrow> (session_cfg \<times> bgp_proto \<times> bool) option \<Rightarrow> bgp proto_hooks" where
  "bgp_hooks router_id source_addr restart cf_new =
     \<lparr>h_start = bgp_start router_id source_addr, h_shutdown = bgp_shutdown restart, h_feed_begin = bgp_feed_begin,
      h_feed_end = bgp_feed_end, h_cleanup = (\<lambda>p. p), h_reload = bgp_reload_routes,
      h_renew = (\<lambda>p. map_option (\<lambda>(cf, q, disabled). proto_init cf q disabled p) cf_new)\<rparr>"

end
