(* ===== verification/BgpRx.thy ===== *)
theory BgpRx
  imports BgpEvents
begin

text \<open>
  Received and sent messages of a BGP session (\<open>proto/bgp/packets.c\<close>, the version for IPv4). A packet is
  given with its header, a received message with all of its bytes.
\<close>

definition fsm_err_subcode :: "bs \<Rightarrow> nat" where
  "fsm_err_subcode st = (case st of BS_OPENSENT \<Rightarrow> 1 | BS_OPENCONFIRM \<Rightarrow> 2 | BS_ESTABLISHED \<Rightarrow> 3 | _ \<Rightarrow> 0)"

definition bgp_start_hold :: "side \<Rightarrow> bgp \<Rightarrow> bgp res" where
  "bgp_start_hold s p = on_timers s (\<lambda>c. c\<lparr>c_hold_timer := c_hold_time c\<rparr>) p"

section \<open>OPEN\<close>

text \<open>The errors that \<open>bgp_parse_options\<close> finds are reported while it goes on.\<close>

fun option_errors :: "side \<Rightarrow> (nat \<times> u8 list) list \<Rightarrow> bgp \<Rightarrow> bgp res" where
  "option_errors s [] p = Inr p"
| "option_errors s ((subcode, data) # errs) p = rbind (bgp_error s 2 subcode data p) (option_errors s errs)"

text \<open>The neighbor has the higher id, or the same id and the higher AS number.\<close>

definition neighbor_dominant :: "bgp_proto \<Rightarrow> u32 \<Rightarrow> bool" where
  "neighbor_dominant q rid \<longleftrightarrow> bp_local_id q < rid \<or> bp_local_id q = rid \<and> bp_local_as q < bp_remote_as q"

text \<open>The check of the other connection; false: this connection was given up.\<close>

definition check_collision :: "side \<Rightarrow> u32 \<Rightarrow> bgp \<Rightarrow> (bool \<times> bgp) res" where
  "check_collision s rid p =
     (let t = other_side s; keep = rmap (\<lambda>p. (True, p)); give_up = rmap (\<lambda>p. (False, p)) (bgp_error s 6 7 [] p) in
      case st_of t p of
        BS_CONNECT \<Rightarrow> keep (bgp_conn_enter_idle_state t p)
      | BS_ACTIVE \<Rightarrow> keep (bgp_conn_enter_idle_state t p)
      | BS_OPENCONFIRM \<Rightarrow>
          if neighbor_dominant (b_p p) rid \<longleftrightarrow> s = Incoming then keep (bgp_error t 6 7 [] p) else give_up
      | BS_ESTABLISHED \<Rightarrow> give_up
      | _ \<Rightarrow> Inr (True, p))"

definition open_accepted :: "side \<Rightarrow> u32 \<Rightarrow> u32 \<Rightarrow> bgp \<Rightarrow> bgp res" where
  "open_accepted s hold rid p =
     (let cf = b_cf p; pc = c_peer (conn_of s p); ht = min hold (sc_hold_time cf);
          p = upd_conn s (\<lambda>c. c\<lparr>c_hold_time := ht,
                c_keepalive_time := (if sc_keepalive_time cf \<noteq> 0 then sc_keepalive_time cf else ht div 3)\<rparr>) p;
          tx = (sc_add_path cf AND ADD_PATH_TX \<noteq> 0 \<and> pc_add_path pc AND ADD_PATH_RX \<noteq> 0);
          p = p\<lparr>b_p := (b_p p)\<lparr>bp_remote_id := rid, bp_as4_session := (sc_enable_as4 cf \<and> pc_as4 pc)\<rparr>,
                b_neg := \<lparr>ng_add_path_rx = (sc_add_path cf AND ADD_PATH_RX \<noteq> 0 \<and> pc_add_path pc AND ADD_PATH_TX \<noteq> 0),
                  ng_add_path_tx = tx, ng_ext_messages = (sc_enable_ext cf \<and> pc_ext_messages pc),
                  ng_gr_ready = (sc_gr_mode cf \<noteq> 0 \<and> pc_gr_able pc)\<rparr>,
                b_ra := (if tx then RA_ANY else if sc_secondary cf then RA_ACCEPTED else RA_OPTIMAL)\<rparr> in
      rmap (bgp_conn_enter_openconfirm_state s) (bgp_start_hold s (bgp_schedule_packet s PKT_KEEPALIVE p)))"

text \<open>The checks of the contents after the options are parsed.\<close>

definition check_open :: "unaligned \<Rightarrow> side \<Rightarrow> u8 list \<Rightarrow> bgp \<Rightarrow> bgp res" where
  "check_open U s pkt p =
     (let hold = (ucast (get_u16 U (take 2 (drop 22 pkt))) :: u32); rid = get_u32 U (take 4 (drop 24 pkt));
          pc = c_peer (conn_of s p) in
      if 0 < hold \<and> hold < 3 then bgp_error s 2 6 (take 2 (drop 22 pkt)) p
      else if rid = 0 \<or> bp_is_internal (b_p p) \<and> rid = bp_local_id (b_p p)
        then error_with bgp_stop s 2 3 (take 4 (drop 24 pkt)) False p
      else if pc_advertised_as pc \<noteq> bp_remote_as (b_p p)
        then bgp_error s 2 2 (if pc_as4 pc then put_u32 U (pc_advertised_as pc) else take 2 (drop 20 pkt)) p
      else rbind (check_collision s rid p) (\<lambda>(go, p). if go then open_accepted s hold rid p else Inr p))"

definition bgp_rx_open :: "bgp_env \<Rightarrow> side \<Rightarrow> u8 list \<Rightarrow> bgp \<Rightarrow> bgp res" where
  "bgp_rx_open E s pkt p =
     (if st_of s p \<noteq> BS_OPENSENT then bgp_error s 5 (fsm_err_subcode (st_of s p)) [] p
      else if length pkt < 29 \<or> length pkt \<noteq> 29 + unat (pkt ! 28) then bgp_error s 1 2 (take 2 (drop 16 pkt)) p
      else if pkt ! 19 \<noteq> BGP_VERSION then bgp_error s 2 1 [pkt ! 19] p
      else
        let nocap = (c_start_state (conn_of s p) = BSS_CONNECT_NOCAP);
            pc = (c_peer (conn_of s p))\<lparr>pc_advertised_as := ucast (get_u16 (en_net E) (take 2 (drop 20 pkt)))\<rparr>;
            (pc, errs) = bgp_parse_options (en_net E) (b_cf p) nocap (drop 29 pkt) pc in
        rbind (option_errors s errs (upd_conn s (\<lambda>c. c\<lparr>c_peer := pc\<rparr>) p)) (check_open (en_net E) s pkt))"

section \<open>UPDATE\<close>

definition bgp_rx_end_mark :: "bgp \<Rightarrow> bgp" where
  "bgp_rx_end_mark p =
     (let p = (if b_load_state p = BFS_LOADING then p\<lparr>b_load_state := BFS_NONE\<rparr> else p);
          p = (if gr_recovery p then proto_graceful_restart_unlock p else p)
      in if b_gr_active p then bgp_graceful_restart_done p else p)"

text \<open>
  What the table gets of a prefix: a new route, or its withdrawal. The import of a route, with its limits, is
  in the theories of the tables.
\<close>

definition bgp_rte_update :: "nlri \<Rightarrow> nexthop \<Rightarrow> ea_seg list \<Rightarrow> bgp \<Rightarrow> bgp" where
  "bgp_rte_update n nh e p = bgp_call (Rte_update n nh e) p"

definition bgp_rte_withdraw :: "nlri \<Rightarrow> bgp \<Rightarrow> bgp" where
  "bgp_rte_withdraw n p = bgp_call (Rte_withdraw n) p"

text \<open>The next hop of a route; \<open>None\<close> is the result 0.\<close>

definition bgp_set_next_hop :: "bgp_env \<Rightarrow> bool \<Rightarrow> ea_seg list \<Rightarrow> nexthop option res" where
  "bgp_set_next_hop E direct e =
     (case ea_find_bgp e BA_NEXT_HOP of
        None \<Rightarrow> Inl Out_of_bounds
      | Some nh \<Rightarrow>
          (case ea_u nh of
             Data d \<Rightarrow> Inl Uninitialised
           | Ptr b \<Rightarrow>
               rbind (rd_u32 (bl_host (en_lib E)) b) (\<lambda>ip. Inr
                 (if direct then
                    (case (case (if ip \<noteq> 0 then en_neigh E ip else None) of None \<Rightarrow> en_peer E | Some ng \<Rightarrow> ng) of
                       (gw, host) \<Rightarrow> if host then None else Some (Nh_direct gw))
                  else if ip = 0 then None else Some (Nh_recursive ip)))))"

definition decode_error :: "side \<Rightarrow> nat \<Rightarrow> bgp \<Rightarrow> bgp res" where
  "decode_error s err p = (if err = 0 then Inr p else bgp_error s 3 err [] p)"

text \<open>The part of \<open>bgp_do_rx_update\<close> after the withdrawn routes.\<close>

definition rx_routes :: "bgp_env \<Rightarrow> side \<Rightarrow> u8 list \<Rightarrow> u8 list \<Rightarrow> bgp \<Rightarrow> bgp res" where
  "rx_routes E s attrs nlri p =
     rbind (bgp_decode_attrs (en_lib E) (b_p p) attrs (nlri \<noteq> [])) (\<lambda>d.
       case d of
         Error subcode data \<Rightarrow> bgp_error s 3 (nat subcode) data p
       | _ \<Rightarrow>
           rbind (case d of
               Accepted e \<Rightarrow> if nlri = [] then Inr None
                 else rmap (map_option (\<lambda>nh. (nh, e))) (bgp_set_next_hop E (sc_gw_direct (b_cf p)) e)
             | _ \<Rightarrow> Inr None) (\<lambda>a0.
           case decode_prefixes (en_net E) (en_ip E) (ng_add_path_rx (b_neg p)) nlri of
             (ns, err) \<Rightarrow> decode_error s err
               (fold (\<lambda>n. case a0 of None \<Rightarrow> bgp_rte_withdraw n | Some (nh, e) \<Rightarrow> bgp_rte_update n nh e) ns p)))"

definition bgp_do_rx_update :: "bgp_env \<Rightarrow> side \<Rightarrow> u8 list \<Rightarrow> u8 list \<Rightarrow> u8 list \<Rightarrow> bgp \<Rightarrow> bgp res" where
  "bgp_do_rx_update E s withdrawn nlri attrs p =
     (if withdrawn = [] \<and> attrs = [] \<and> nlri = [] then Inr (bgp_rx_end_mark p)
      else case decode_prefixes (en_net E) (en_ip E) (ng_add_path_rx (b_neg p)) withdrawn of
        (ns, err) \<Rightarrow>
          (let p = fold bgp_rte_withdraw ns p in
           if err \<noteq> 0 then decode_error s err p
           else if attrs = [] \<and> nlri = [] then Inr p
           else rx_routes E s attrs nlri p))"

definition bgp_rx_update :: "bgp_env \<Rightarrow> side \<Rightarrow> u8 list \<Rightarrow> bgp \<Rightarrow> bgp res" where
  "bgp_rx_update E s pkt p =
     rbind (if st_of s p = BS_OPENCONFIRM then bgp_conn_enter_established_state s p else Inr p) (\<lambda>p.
       if st_of s p \<noteq> BS_ESTABLISHED then bgp_error s 5 (fsm_err_subcode (st_of s p)) [] p
       else rbind (bgp_start_hold s p) (\<lambda>p.
         if length pkt < 23 then bgp_error s 1 2 (take 2 (drop 16 pkt)) p
         else rbind (split_update (en_net E) pkt) (\<lambda>r. case r of
             None \<Rightarrow> bgp_error s 3 1 [] p
           | Some (withdrawn, attrs, nlri) \<Rightarrow> bgp_do_rx_update E s withdrawn nlri attrs p)))"

section \<open>Other messages\<close>

definition bgp_rx_notification :: "side \<Rightarrow> u8 list \<Rightarrow> bgp \<Rightarrow> bgp res" where
  "bgp_rx_notification s pkt p =
     (if length pkt < 21 then bgp_error s 1 2 (take 2 (drop 16 pkt)) p
      else
        (let code = unat (pkt ! 19); subcode = unat (pkt ! 20) in
         rbind (bgp_log_error BE_BGP_RX code subcode (drop 21 pkt) p) (\<lambda>p.
           let p = bgp_store_error (Some s) BE_BGP_RX (push_bit 16 (of_nat code) OR of_nat subcode) p;
               nocap = (code = 2 \<and> (subcode = 4 \<or> subcode = 7) \<and> sc_capabilities (b_cf p) = 2 \<and>
                 c_start_state (conn_of s p) = BSS_CONNECT \<and> sc_remote_as (b_cf p) \<le> 0xFFFF);
               p = (if nocap then p\<lparr>b_start_state := BSS_CONNECT_NOCAP\<rparr> else p) in
           rbind (bgp_conn_enter_close_state s p) (\<lambda>p.
             let p = bgp_schedule_packet s PKT_SCHEDULE_CLOSE p in
             if code \<noteq> 6 \<and> \<not> nocap then bgp_stop 0 [] (bgp_update_startup_delay p)
             else if sc_disable_after_cease (b_cf p) AND push_bit (if subcode \<le> 8 then subcode else 0) 1 \<noteq> 0
               then Inr (p\<lparr>b_err := (b_err p)\<lparr>er_startup_delay := 0\<rparr>, p_disabled := True\<rparr>)
             else Inr p))))"

definition bgp_rx_keepalive :: "side \<Rightarrow> bgp \<Rightarrow> bgp res" where
  "bgp_rx_keepalive s p =
     rbind (bgp_start_hold s p) (\<lambda>p.
       case st_of s p of
         BS_OPENCONFIRM \<Rightarrow> bgp_conn_enter_established_state s p
       | BS_ESTABLISHED \<Rightarrow> Inr p
       | st \<Rightarrow> bgp_error s 5 (fsm_err_subcode st) [] p)"

definition bgp_rx_route_refresh :: "side \<Rightarrow> u8 list \<Rightarrow> bgp \<Rightarrow> bgp res" where
  "bgp_rx_route_refresh s pkt p =
     (if st_of s p \<noteq> BS_ESTABLISHED then bgp_error s 5 (fsm_err_subcode (st_of s p)) [] p
      else if \<not> sc_enable_refresh (b_cf p) then bgp_error s 1 3 [pkt ! 18] p
      else if length pkt < BGP_HEADER_LENGTH + 4 then bgp_error s 1 2 (take 2 (drop 16 pkt)) p
      else if length pkt > BGP_HEADER_LENGTH + 4 then bgp_error s 7 1 (take 2048 pkt) p
      else
        (let subtype = (if pc_enhanced_refresh (c_peer (conn_of s p)) then pkt ! 21 else BGP_RR_REQUEST) in
         if subtype = BGP_RR_REQUEST then proto_request_feeding bgp_feed_begin p
         else if subtype = BGP_RR_BEGIN then Inr (bgp_refresh_begin p)
         else if subtype = BGP_RR_END then Inr (bgp_refresh_end p)
         else Inr p))"

definition bgp_rx_packet :: "bgp_env \<Rightarrow> side \<Rightarrow> u8 list \<Rightarrow> bgp \<Rightarrow> bgp res" where
  "bgp_rx_packet E s pkt p =
     (let type = unat (pkt ! 18) in
      if type = PKT_OPEN then bgp_rx_open E s pkt p
      else if type = PKT_UPDATE then bgp_rx_update E s pkt p
      else if type = PKT_NOTIFICATION then bgp_rx_notification s pkt p
      else if type = PKT_KEEPALIVE then bgp_rx_keepalive s p
      else if type = PKT_ROUTE_REFRESH then bgp_rx_route_refresh s pkt p
      else bgp_error s 1 3 [pkt ! 18] p)"

section \<open>Received data\<close>

text \<open>
  \<open>bgp_rx\<close> for the socket \<open>sk\<close>, with the bytes that wait in its buffer; the result has the bytes that
  were not handled. A wrong marker is an error, but the packet is handled all the same.
\<close>

definition good_marker :: "u8 list \<Rightarrow> bool" where "good_marker b \<longleftrightarrow> take 16 b = replicate 16 0xff"

function bgp_rx :: "bgp_env \<Rightarrow> side \<Rightarrow> nat \<Rightarrow> u8 list \<Rightarrow> bgp \<Rightarrow> (u8 list \<times> bgp) res" where
  "bgp_rx E s sk b p =
     (if length b < BGP_HEADER_LENGTH then Inr (b, p)
      else if st_of s p = BS_CLOSE \<or> (case c_sk (conn_of s p) of None \<Rightarrow> True | Some k \<Rightarrow> sk_ref k \<noteq> sk) then Inr (b, p)
      else rbind (if good_marker b then Inr p else bgp_error s 1 1 [] p) (\<lambda>p.
        let len = unat (get_u16 (en_net E) (take 2 (drop 16 b))) in
        if len < BGP_HEADER_LENGTH \<or> len > bgp_max_packet_length (ng_ext_messages (b_neg p))
          then rmap (\<lambda>p. (b, p)) (bgp_error s 1 2 (take 2 (drop 16 b)) p)
        else if length b < len then Inr (b, p)
        else rbind (bgp_rx_packet E s (take len b) p) (bgp_rx E s sk (drop len b))))"
  by pat_completeness auto
termination
  by (relation "measure (\<lambda>(_, _, _, b, _). length b)") (auto simp: BGP_HEADER_LENGTH_def)

declare bgp_rx.simps [simp del]

section \<open>Sending\<close>

text \<open>What \<open>write\<close> makes of a message: all of it is sent, a part has to wait, or an error.\<close>

datatype sent = Sent | Waits | Send_error u32

definition sk_send :: "side \<Rightarrow> sent \<Rightarrow> u8 list \<Rightarrow> bgp \<Rightarrow> (bool \<times> bgp) res" where
  "sk_send s r msg p =
     (let p = bgp_call (Sk_send s msg) p in
      case r of
        Sent \<Rightarrow> rmap (\<lambda>p. (True, p)) (on_sock s (\<lambda>k. k\<lparr>sk_idle := True\<rparr>) p)
      | Waits \<Rightarrow> rmap (\<lambda>p. (False, p)) (on_sock s (\<lambda>k. k\<lparr>sk_idle := False\<rparr>) p)
      | Send_error err \<Rightarrow>
          rmap (\<lambda>p. (False, p)) (rbind (on_sock s (\<lambda>k. k\<lparr>sk_idle := True\<rparr>) p) (bgp_sock_err s err)))"

text \<open>An UPDATE, or what is sent when there is no update left; \<open>None\<close>: nothing.\<close>

definition next_update :: "bgp_env \<Rightarrow> side \<Rightarrow> bgp \<Rightarrow> ((nat \<times> u8 list) option \<times> bgp) res" where
  "next_update E s p =
     (if \<not> tx_tables (b_tx p) then Inl Out_of_bounds
      else rbind (bgp_create_update (en_lib E) (b_p p) (ng_ext_messages (b_neg p)) (ng_add_path_tx (b_neg p))
             (tx_withdraw (b_tx p)) (tx_buckets (b_tx p))) (\<lambda>(r, wd, bs).
        let p = p\<lparr>b_tx := (b_tx p)\<lparr>tx_withdraw := wd, tx_buckets := bs\<rparr>\<rparr> in
        case r of
          Some body \<Rightarrow> Inr (Some (PKT_UPDATE, body), p)
        | None \<Rightarrow>
            if b_feed_state p = BFS_LOADED then
              Inr (Some (PKT_UPDATE, bgp_create_end_mark (en_net E)), p\<lparr>b_feed_state := BFS_NONE\<rparr>)
            else if b_feed_state p = BFS_REFRESHED then
              Inr (Some (PKT_ROUTE_REFRESH, bgp_create_end_refresh), p\<lparr>b_feed_state := BFS_NONE\<rparr>)
            else Inr (None, upd_conn s (\<lambda>c. c\<lparr>c_to_send := 0\<rparr>) p)))"

definition pending :: "side \<Rightarrow> nat \<Rightarrow> bgp \<Rightarrow> bool" where
  "pending s type p \<longleftrightarrow> bit (c_to_send (conn_of s p)) type"

definition sent_one :: "side \<Rightarrow> nat \<Rightarrow> bgp \<Rightarrow> bgp" where
  "sent_one s type p = upd_conn s (\<lambda>c. c\<lparr>c_to_send := c_to_send c AND NOT (push_bit type 1)\<rparr>) p"

text \<open>The message with the highest priority, if one is to be sent.\<close>

definition next_message :: "bgp_env \<Rightarrow> side \<Rightarrow> bgp \<Rightarrow> ((nat \<times> u8 list) option \<times> bgp) res" where
  "next_message E s p =
     (if pending s PKT_SCHEDULE_CLOSE p then rmap (\<lambda>p. (None, p)) (bgp_conn_enter_idle_state s p)
      else if pending s PKT_NOTIFICATION p then
        (case c_notify (conn_of s p) of (code, subcode, data) \<Rightarrow>
           Inr (Some (PKT_NOTIFICATION, bgp_create_notification code subcode data),
                upd_conn s (\<lambda>c. c\<lparr>c_to_send := push_bit PKT_SCHEDULE_CLOSE 1\<rparr>) p))
      else if pending s PKT_KEEPALIVE p then
        rmap (\<lambda>p. (Some (PKT_KEEPALIVE, []), p))
          (on_timers s (\<lambda>c. c\<lparr>c_keepalive_timer := c_keepalive_time c\<rparr>) (sent_one s PKT_KEEPALIVE p))
      else if pending s PKT_OPEN p then
        Inr (Some (PKT_OPEN, bgp_create_open (en_net E) (b_cf p) (bp_local_as (b_p p)) (bp_local_id (b_p p))
               (gr_recovery p) (c_start_state (conn_of s p) = BSS_CONNECT_NOCAP)), sent_one s PKT_OPEN p)
      else if pending s PKT_ROUTE_REFRESH p then
        Inr (Some (PKT_ROUTE_REFRESH, bgp_create_route_refresh), sent_one s PKT_ROUTE_REFRESH p)
      else if pending s PKT_BEGIN_REFRESH p then
        Inr (Some (PKT_ROUTE_REFRESH, bgp_create_begin_refresh), sent_one s PKT_BEGIN_REFRESH p)
      else if pending s PKT_UPDATE p then next_update E s p
      else Inr (None, p))"

text \<open>\<open>bgp_fire_tx\<close>; the boolean: the result is positive. \<open>r\<close> is the answer of the socket.\<close>

definition bgp_fire_tx :: "bgp_env \<Rightarrow> side \<Rightarrow> sent \<Rightarrow> bgp \<Rightarrow> (bool \<times> bgp) res" where
  "bgp_fire_tx E s r p =
     (case c_sk (conn_of s p) of
        None \<Rightarrow> Inr (False, upd_conn s (\<lambda>c. c\<lparr>c_to_send := 0\<rparr>) p)
      | Some k \<Rightarrow>
          rbind (next_message E s p) (\<lambda>(m, p).
            case m of
              None \<Rightarrow> Inr (False, p)
            | Some (type, body) \<Rightarrow>
                sk_send s r (bgp_create_header (en_net E) (BGP_HEADER_LENGTH + length body) (of_nat type) @ body) p))"

text \<open>The loop, with the answers of the socket; \<open>None\<close> if there are not enough of them.\<close>

fun fire_loop :: "bgp_env \<Rightarrow> side \<Rightarrow> sent list \<Rightarrow> bgp \<Rightarrow> bgp res option" where
  "fire_loop E s [] p = None"
| "fire_loop E s (r # rs) p =
     (case bgp_fire_tx E s r p of
        Inl e \<Rightarrow> Some (Inl e)
      | Inr (again, q) \<Rightarrow> if again then fire_loop E s rs q else Some (Inr q))"

definition bgp_kick_tx :: "bgp_env \<Rightarrow> side \<Rightarrow> sent list \<Rightarrow> bgp \<Rightarrow> bgp res option" where
  "bgp_kick_tx E s rs p = fire_loop E s rs (upd_conn s (\<lambda>c. c\<lparr>c_tx_ev := False\<rparr>) p)"

text \<open>\<open>bgp_tx\<close>, called when the rest of a message is written.\<close>

definition bgp_tx :: "bgp_env \<Rightarrow> side \<Rightarrow> sent list \<Rightarrow> bgp \<Rightarrow> bgp res option" where
  "bgp_tx E s rs p =
     (case on_sock s (\<lambda>k. k\<lparr>sk_idle := True\<rparr>) p of Inl e \<Rightarrow> Some (Inl e) | Inr q \<Rightarrow> fire_loop E s rs q)"

end
