(* ===== verification/BgpSafe.thy ===== *)
theory BgpSafe
  imports BgpRx
begin

text \<open>
  The states of a BGP session fit together: what the handlers of \<open>BgpSession\<close>, \<open>BgpEvents\<close> and \<open>BgpRx\<close>
  keep, and why they dereference no null pointer and fail no assertion.
\<close>

section \<open>The invariant\<close>

text \<open>
  A connection has a socket and its timers when its state needs them, and an UPDATE waits only on an
  established connection, or behind the message that closes it (\<open>x\<close>: except for this).
\<close>

definition conn_ok :: "bool \<Rightarrow> side \<Rightarrow> bgp_conn \<Rightarrow> bool" where
  "conn_ok x s c \<longleftrightarrow>
     (case c_state c of
        BS_IDLE \<Rightarrow> c_sk c = None
      | BS_ACTIVE \<Rightarrow> c_sk c = None \<and> c_live c \<and> s = Outgoing
      | BS_CONNECT \<Rightarrow> c_sk c \<noteq> None \<and> c_live c \<and> s = Outgoing
      | _ \<Rightarrow> c_sk c \<noteq> None \<and> c_live c) \<and>
     (c_hold_timer c \<noteq> 0 \<longrightarrow> c_state c \<in> {BS_OPENSENT, BS_OPENCONFIRM, BS_ESTABLISHED, BS_CLOSE}) \<and>
     (c_retry_timer c \<noteq> 0 \<longrightarrow> c_state c \<in> {BS_CONNECT, BS_ACTIVE}) \<and>
     (\<forall>k. c_sk c = Some k \<and> sk_rx k \<longrightarrow> c_state c \<in> {BS_OPENSENT, BS_OPENCONFIRM, BS_ESTABLISHED}) \<and>
     (bit (c_to_send c) PKT_UPDATE \<longrightarrow> c_sk c = None \<or> c_state c = BS_ESTABLISHED \<or>
        c_state c = BS_CLOSE \<and> (x \<or> bit (c_to_send c) PKT_NOTIFICATION \<or> bit (c_to_send c) PKT_SCHEDULE_CLOSE))"

definition late :: "bs \<Rightarrow> bool" where "late st \<longleftrightarrow> st = BS_OPENCONFIRM \<or> st = BS_ESTABLISHED"
definition quiet :: "bs \<Rightarrow> bool" where "quiet st \<longleftrightarrow> st = BS_IDLE \<or> st = BS_CLOSE"

definition opened :: "bs \<Rightarrow> bool" where
  "opened st \<longleftrightarrow> st = BS_OPENSENT \<or> st = BS_OPENCONFIRM \<or> st = BS_ESTABLISHED \<or> st = BS_CLOSE"

lemma opened_simps [simp]: "\<not> opened BS_IDLE" "opened BS_CLOSE" "opened BS_ESTABLISHED" "opened BS_OPENSENT"
  "opened BS_OPENCONFIRM" "\<not> opened BS_CONNECT" "\<not> opened BS_ACTIVE"
  by (simp_all add: opened_def)

definition base :: "side set \<Rightarrow> bgp \<Rightarrow> bool" where
  "base X p \<longleftrightarrow>
     conn_ok (Outgoing \<in> X) Outgoing (b_out p) \<and> conn_ok (Incoming \<in> X) Incoming (b_in p) \<and>
     (b_conn p = Some Outgoing \<longleftrightarrow> c_state (b_out p) = BS_ESTABLISHED) \<and>
     (b_conn p = Some Incoming \<longleftrightarrow> c_state (b_in p) = BS_ESTABLISHED) \<and>
     \<not> (late (c_state (b_out p)) \<and> late (c_state (b_in p))) \<and>
     (b_conn p \<noteq> None \<longrightarrow> tx_tables (b_tx p)) \<and>
     (b_start_state p = BSS_PREPARE \<or> b_start_state p = BSS_DELAY \<longrightarrow>
        c_state (b_out p) = BS_IDLE \<and> c_state (b_in p) = BS_IDLE \<and> (proto_state p = PS_START \<longrightarrow> \<not> b_event p)) \<and>
     (proto_state p \<noteq> PS_DOWN \<and> b_start_state p \<noteq> BSS_PREPARE \<longrightarrow> sh_counter (b_shared p) \<noteq> 0)"

text \<open>How the state of the instance and the states of the connections go together.\<close>

definition phase :: "bgp \<Rightarrow> bool" where
  "phase p \<longleftrightarrow>
     (proto_state p = PS_DOWN \<longrightarrow> c_state (b_out p) = BS_IDLE \<and> c_state (b_in p) = BS_IDLE) \<and>
     (proto_state p = PS_START \<longrightarrow> b_conn p = None) \<and>
     (proto_state p = PS_UP \<longrightarrow> b_conn p \<noteq> None) \<and>
     (proto_state p = PS_STOP \<longrightarrow> quiet (c_state (b_out p)) \<and> quiet (c_state (b_in p)))"

definition sess_ok :: "bgp \<Rightarrow> bool" where "sess_ok p \<longleftrightarrow> base {} p \<and> phase p"

definition fine :: "bgp \<Rightarrow> bool" where "fine p \<longleftrightarrow> core_ok p \<and> \<not> p_fell p"

lemma fine_truncate: "proto.truncate p = proto.truncate q \<Longrightarrow> fine p \<longleftrightarrow> fine q"
  using truncate_eqD [of p q] by (simp add: fine_def)

lemma quiet_simps [simp]: "quiet BS_IDLE" "quiet BS_CLOSE" "\<not> quiet BS_ESTABLISHED" "\<not> quiet BS_OPENSENT"
  "\<not> quiet BS_OPENCONFIRM" "\<not> quiet BS_CONNECT" "\<not> quiet BS_ACTIVE"
  by (simp_all add: quiet_def)

lemma late_simps [simp]: "\<not> late BS_IDLE" "\<not> late BS_CLOSE" "late BS_ESTABLISHED" "\<not> late BS_OPENSENT"
  "late BS_OPENCONFIRM" "\<not> late BS_CONNECT" "\<not> late BS_ACTIVE"
  by (simp_all add: late_def)

lemma conn_of_upd [simp]:
  "conn_of s (upd_conn s f p) = f (conn_of s p)" "conn_of (other_side s) (upd_conn s f p) = conn_of (other_side s) p"
  "conn_of s (upd_conn (other_side s) f p) = conn_of s p"
  by (cases s; simp)+

lemma upd_conn_simps [simp]:
  "proto.truncate (upd_conn s f p) = proto.truncate p" "b_conn (upd_conn s f p) = b_conn p" "b_tx (upd_conn s f p) = b_tx p"
  "b_start_state (upd_conn s f p) = b_start_state p" "b_shared (upd_conn s f p) = b_shared p"
  "proto_state (upd_conn s f p) = proto_state p" "b_event (upd_conn s f p) = b_event p" "b_neg (upd_conn s f p) = b_neg p" "b_cf (upd_conn s f p) = b_cf p"
  "b_p (upd_conn s f p) = b_p p" "b_err (upd_conn s f p) = b_err p" "p_fell (upd_conn s f p) = p_fell p"
  by (cases s; simp add: proto.truncate_def)+

lemma other_side_simps [simp]: "other_side s \<noteq> s" "s \<noteq> other_side s" "other_side (other_side s) = s"
  by (cases s; simp)+

lemma conn_ok_other [simp]:
  "conn_ok x s (c\<lparr>c_notify := n\<rparr>) = conn_ok x s c" "conn_ok x s (c\<lparr>c_peer := pc\<rparr>) = conn_ok x s c"
  "conn_ok x s (c\<lparr>c_keepalive_timer := t\<rparr>) = conn_ok x s c" "conn_ok x s (c\<lparr>c_tx_ev := b\<rparr>) = conn_ok x s c"
  "conn_ok x s (c\<lparr>c_hold_time := t\<rparr>) = conn_ok x s c" "conn_ok x s (c\<lparr>c_keepalive_time := t\<rparr>) = conn_ok x s c"
  "conn_ok x s (c\<lparr>c_start_state := ss\<rparr>) = conn_ok x s c"
  by (cases "c_state c"; simp add: conn_ok_def)+

lemma base_conn: "base X p \<Longrightarrow> conn_ok (s \<in> X) s (conn_of s p)"
  by (cases s) (simp_all add: base_def)

text \<open>The invariant from the point of view of one connection.\<close>

lemma base_iff:
  "base X p \<longleftrightarrow> conn_ok (s \<in> X) s (conn_of s p) \<and> conn_ok (other_side s \<in> X) (other_side s) (conn_of (other_side s) p) \<and>
     (b_conn p = Some s \<longleftrightarrow> st_of s p = BS_ESTABLISHED) \<and>
     (b_conn p = Some (other_side s) \<longleftrightarrow> st_of (other_side s) p = BS_ESTABLISHED) \<and>
     \<not> (late (st_of s p) \<and> late (st_of (other_side s) p)) \<and>
     (b_conn p \<noteq> None \<longrightarrow> tx_tables (b_tx p)) \<and>
     (b_start_state p = BSS_PREPARE \<or> b_start_state p = BSS_DELAY \<longrightarrow>
        st_of s p = BS_IDLE \<and> st_of (other_side s) p = BS_IDLE \<and> (proto_state p = PS_START \<longrightarrow> \<not> b_event p)) \<and>
     (proto_state p \<noteq> PS_DOWN \<and> b_start_state p \<noteq> BSS_PREPARE \<longrightarrow> sh_counter (b_shared p) \<noteq> 0)"
  by (cases s) (auto simp: base_def)

lemma phase_iff:
  "phase p \<longleftrightarrow>
     (proto_state p = PS_DOWN \<longrightarrow> st_of s p = BS_IDLE \<and> st_of (other_side s) p = BS_IDLE) \<and>
     (proto_state p = PS_START \<longrightarrow> b_conn p = None) \<and>
     (proto_state p = PS_UP \<longrightarrow> b_conn p \<noteq> None) \<and>
     (proto_state p = PS_STOP \<longrightarrow> quiet (st_of s p) \<and> quiet (st_of (other_side s) p))"
  by (cases s) (auto simp: phase_def)

lemma pkt_bits [simp]:
  "bit (push_bit PKT_NOTIFICATION 1 :: u32) PKT_UPDATE = False" "bit (push_bit PKT_NOTIFICATION 1 :: u32) PKT_NOTIFICATION = True"
  "bit (push_bit PKT_SCHEDULE_CLOSE 1 :: u32) PKT_SCHEDULE_CLOSE = True"
  "bit (push_bit PKT_SCHEDULE_CLOSE 1 :: u32) PKT_UPDATE = False"
  by (simp_all add: PKT_NOTIFICATION_def PKT_UPDATE_def PKT_SCHEDULE_CLOSE_def bit_simps)

section \<open>Closing while the instance stops\<close>

text \<open>\<open>live\<close>: the connection has a socket and timers.\<close>

definition live :: "bgp_conn \<Rightarrow> bool" where "live c \<longleftrightarrow> c_sk c \<noteq> None \<and> c_live c"

lemma conn_ok_opened: "conn_ok x s c \<Longrightarrow> opened (c_state c) \<Longrightarrow> live c"
  by (cases "c_state c") (simp_all add: conn_ok_def live_def)

text \<open>A connection after \<open>bgp_conn_enter_close_state\<close> and \<open>bgp_conn_enter_idle_state\<close>.\<close>

definition closing :: "bgp_conn \<Rightarrow> bgp_conn" where
  "closing c = c\<lparr>c_state := BS_CLOSE, c_keepalive_timer := 0, c_sk := map_option (sk_rx_update (\<lambda>_. False)) (c_sk c), c_hold_timer := 10\<rparr>"

definition idled :: "bgp_conn \<Rightarrow> bgp_conn" where
  "idled c = c\<lparr>c_to_send := 0, c_live := False, c_retry_timer := 0, c_hold_timer := 0, c_keepalive_timer := 0,
     c_sk := None, c_tx_ev := False, c_state := BS_IDLE\<rparr>"

lemma upd_conn_comp: "upd_conn s f (upd_conn s g p) = upd_conn s (\<lambda>c. f (g c)) p"
  by (cases s) simp_all

lemma upd_conn_eqI: "f (conn_of s p) = g (conn_of s p) \<Longrightarrow> upd_conn s f p = upd_conn s g p"
  by (cases s) simp_all

lemma on_timers_live: "c_live (conn_of s p) \<Longrightarrow> on_timers s f p = Inr (upd_conn s f p)"
  by (simp add: on_timers_def)

lemma on_sock_some: "c_sk (conn_of s p) = Some k \<Longrightarrow> on_sock s f p = Inr (upd_conn s (\<lambda>c. c\<lparr>c_sk := Some (f k)\<rparr>) p)"
  by (simp add: on_sock_def)

lemma enter_close_eq:
  assumes "live (conn_of s p)"
  shows "enter_close_state stop s p =
     (if st_of s p = BS_ESTABLISHED then leave_established stop (upd_conn s closing p) else Inr (upd_conn s closing p))"
proof -
  obtain k where c: "c_sk (conn_of s p) = Some k" "c_live (conn_of s p)" using assms by (auto simp: live_def)
  let ?p = "bgp_conn_set_state s BS_CLOSE p"
  let ?q = "upd_conn s (\<lambda>c. c\<lparr>c_keepalive_timer := 0\<rparr>) ?p"
  let ?r = "upd_conn s (\<lambda>c. c\<lparr>c_sk := Some (k\<lparr>sk_rx := False\<rparr>)\<rparr>) ?q"
  let ?z = "upd_conn s (\<lambda>c. c\<lparr>c_hold_timer := 10\<rparr>) ?r"
  have steps: "on_timers s (\<lambda>c. c\<lparr>c_keepalive_timer := 0\<rparr>) ?p = Inr ?q" "on_sock s (\<lambda>k. k\<lparr>sk_rx := False\<rparr>) ?q = Inr ?r"
      "on_timers s (\<lambda>c. c\<lparr>c_hold_timer := 10\<rparr>) ?r = Inr ?z"
    using c by (simp_all add: on_timers_live on_sock_some bgp_conn_set_state_def)
  have "?z = upd_conn s closing p"
    unfolding bgp_conn_set_state_def upd_conn_comp using c by (intro upd_conn_eqI) (simp add: closing_def)
  then show ?thesis unfolding enter_close_state_def Let_def steps rbind_simps by simp
qed

lemma enter_idle_eq:
  "enter_idle_state stop s p =
     (let q = (upd_conn s idled p)\<lparr>b_event := True\<rparr>
      in if st_of s p = BS_ESTABLISHED then leave_established stop q else Inr q)"
proof -
  have "bgp_conn_set_state s BS_IDLE (bgp_close_conn s p) = upd_conn s idled p"
    unfolding bgp_conn_set_state_def bgp_close_conn_def upd_conn_comp by (rule upd_conn_eqI) (simp add: idled_def)
  then show ?thesis by (simp add: enter_idle_state_def Let_def)
qed

lemma conn_ok_closing:
  assumes "conn_ok x s c" "opened (c_state c)"
  shows "conn_ok True s (closing c)"
proof -
  obtain k where "c_sk c = Some k" "c_live c" using conn_ok_opened [OF assms] by (auto simp: live_def)
  moreover have "c_retry_timer c = 0" using assms by (auto simp: conn_ok_def)
  ultimately show ?thesis by (simp add: conn_ok_def closing_def)
qed

lemma conn_ok_idled [simp]: "conn_ok x s (idled c)"
  by (simp add: conn_ok_def idled_def)

lemma closing_simps [simp]: "c_state (closing c) = BS_CLOSE" "c_state (idled c) = BS_IDLE" "c_to_send (closing c) = c_to_send c"
  by (simp_all add: closing_def idled_def)

lemma live_closing [simp]: "live (closing c) \<longleftrightarrow> live c"
  by (simp add: live_def closing_def)


text \<open>Fields that the invariant does not speak of.\<close>

lemma base_other [simp]:
  "base X (p\<lparr>b_err := er\<rparr>) = base X p" "base X (p\<lparr>b_calls := cs\<rparr>) = base X p"
  "base X (p\<lparr>b_feed_state := fs\<rparr>) = base X p" "base X (p\<lparr>b_load_state := fs\<rparr>) = base X p"
  "base X (p\<lparr>b_gr_active := b\<rparr>) = base X p" "base X (p\<lparr>b_gr_timer := t\<rparr>) = base X p" "base X (p\<lparr>b_p := bp\<rparr>) = base X p"
  "base X (p\<lparr>b_neg := ng\<rparr>) = base X p" "base X (p\<lparr>b_ra := ra\<rparr>) = base X p" "base X (p\<lparr>p_disabled := b\<rparr>) = base X p"
  "base X (p\<lparr>p_message := m\<rparr>) = base X p" "base X (p\<lparr>b_neigh := b\<rparr>) = base X p" "base X (p\<lparr>b_bfd_req := b\<rparr>) = base X p"
  "base X (p\<lparr>b_startup_timer := t\<rparr>) = base X p"
  by (simp_all add: base_def)

lemma base_event: "base X p \<Longrightarrow> proto_state p \<noteq> PS_START \<or> b_start_state p \<noteq> BSS_PREPARE \<and> b_start_state p \<noteq> BSS_DELAY \<Longrightarrow>
  base X (p\<lparr>b_event := True\<rparr>)"
  by (auto simp: base_def)

lemma base_no_event: "base X p \<Longrightarrow> base X (p\<lparr>b_event := False\<rparr>)"
  by (auto simp: base_def)

lemma phase_other [simp]:
  "phase (p\<lparr>b_event := e\<rparr>) = phase p" "phase (p\<lparr>b_err := er\<rparr>) = phase p" "phase (p\<lparr>b_calls := cs\<rparr>) = phase p"
  "phase (p\<lparr>b_feed_state := fs\<rparr>) = phase p" "phase (p\<lparr>b_load_state := fs\<rparr>) = phase p"
  "phase (p\<lparr>b_gr_active := b\<rparr>) = phase p" "phase (p\<lparr>b_gr_timer := t\<rparr>) = phase p" "phase (p\<lparr>b_p := bp\<rparr>) = phase p"
  "phase (p\<lparr>b_neg := ng\<rparr>) = phase p" "phase (p\<lparr>b_ra := ra\<rparr>) = phase p" "phase (p\<lparr>p_disabled := b\<rparr>) = phase p"
  "phase (p\<lparr>p_message := m\<rparr>) = phase p" "phase (p\<lparr>b_neigh := b\<rparr>) = phase p" "phase (p\<lparr>b_bfd_req := b\<rparr>) = phase p"
  "phase (p\<lparr>b_startup_timer := t\<rparr>) = phase p" "phase (p\<lparr>b_start_state := ss\<rparr>) = phase p" "phase (p\<lparr>b_shared := sh\<rparr>) = phase p"
  by (simp_all add: phase_def)

lemma conn_of_other [simp]:
  "conn_of s (p\<lparr>b_event := e\<rparr>) = conn_of s p" "conn_of s (p\<lparr>b_err := er\<rparr>) = conn_of s p" "conn_of s (p\<lparr>b_calls := cs\<rparr>) = conn_of s p"
  "conn_of s (p\<lparr>b_feed_state := fs\<rparr>) = conn_of s p" "conn_of s (p\<lparr>b_load_state := fs\<rparr>) = conn_of s p"
  "conn_of s (p\<lparr>b_gr_active := b\<rparr>) = conn_of s p" "conn_of s (p\<lparr>b_gr_timer := t\<rparr>) = conn_of s p" "conn_of s (p\<lparr>b_p := bp\<rparr>) = conn_of s p"
  "conn_of s (p\<lparr>b_neg := ng\<rparr>) = conn_of s p" "conn_of s (p\<lparr>b_ra := ra\<rparr>) = conn_of s p" "conn_of s (p\<lparr>p_disabled := b\<rparr>) = conn_of s p"
  "conn_of s (p\<lparr>p_message := m\<rparr>) = conn_of s p" "conn_of s (p\<lparr>b_neigh := b\<rparr>) = conn_of s p" "conn_of s (p\<lparr>b_bfd_req := b\<rparr>) = conn_of s p"
  "conn_of s (p\<lparr>b_startup_timer := t\<rparr>) = conn_of s p" "conn_of s (p\<lparr>b_start_state := ss\<rparr>) = conn_of s p"
  "conn_of s (p\<lparr>b_shared := sh\<rparr>) = conn_of s p" "conn_of s (p\<lparr>b_conn := bc\<rparr>) = conn_of s p" "conn_of s (p\<lparr>b_tx := tx\<rparr>) = conn_of s p"
  by (cases s; simp)+

lemma truncate_other [simp]:
  "proto.truncate (p\<lparr>b_event := e\<rparr>) = proto.truncate p" "proto.truncate (p\<lparr>b_err := er\<rparr>) = proto.truncate p"
  "proto.truncate (p\<lparr>b_calls := cs\<rparr>) = proto.truncate p" "proto.truncate (p\<lparr>b_feed_state := fs\<rparr>) = proto.truncate p"
  "proto.truncate (p\<lparr>b_load_state := fs\<rparr>) = proto.truncate p" "proto.truncate (p\<lparr>b_gr_active := b\<rparr>) = proto.truncate p"
  "proto.truncate (p\<lparr>b_gr_timer := t\<rparr>) = proto.truncate p" "proto.truncate (p\<lparr>b_p := bp\<rparr>) = proto.truncate p"
  "proto.truncate (p\<lparr>b_neg := ng\<rparr>) = proto.truncate p" "proto.truncate (p\<lparr>b_ra := ra\<rparr>) = proto.truncate p"
  "proto.truncate (p\<lparr>b_neigh := b\<rparr>) = proto.truncate p" "proto.truncate (p\<lparr>b_bfd_req := b\<rparr>) = proto.truncate p"
  "proto.truncate (p\<lparr>b_startup_timer := t\<rparr>) = proto.truncate p" "proto.truncate (p\<lparr>b_start_state := ss\<rparr>) = proto.truncate p"
  "proto.truncate (p\<lparr>b_shared := sh\<rparr>) = proto.truncate p" "proto.truncate (p\<lparr>b_conn := bc\<rparr>) = proto.truncate p"
  "proto.truncate (p\<lparr>b_tx := tx\<rparr>) = proto.truncate p"
  by (simp_all add: proto.truncate_def)

text \<open>A change of one connection.\<close>

lemma base_upd:
  assumes "base X p" "conn_ok (s \<in> Y) s (f (conn_of s p))" "other_side s \<in> Y \<longleftrightarrow> other_side s \<in> X"
    and "c_state (f (conn_of s p)) = BS_ESTABLISHED \<longleftrightarrow> st_of s p = BS_ESTABLISHED"
    and "late (c_state (f (conn_of s p))) \<Longrightarrow> \<not> late (st_of s p) \<Longrightarrow> \<not> late (st_of (other_side s) p)"
    and "c_state (f (conn_of s p)) \<noteq> BS_IDLE \<Longrightarrow> st_of s p = BS_IDLE \<Longrightarrow> b_start_state p \<noteq> BSS_PREPARE \<and> b_start_state p \<noteq> BSS_DELAY"
  shows "base Y (upd_conn s f p)"
  using assms(1,2,4-6) unfolding base_iff [of X p s] base_iff [of Y _ s] conn_of_upd upd_conn_simps assms(3) by blast

lemma base_keep:
  "base X p \<Longrightarrow> conn_ok (s \<in> X) s (f (conn_of s p)) \<Longrightarrow> c_state (f (conn_of s p)) = st_of s p \<Longrightarrow> base X (upd_conn s f p)"
  by (erule base_upd) simp_all

lemma phase_keep: "c_state (f (conn_of s p)) = st_of s p \<Longrightarrow> phase (upd_conn s f p) = phase p"
  by (simp add: phase_iff [of _ s])

definition left_est :: "bgp \<Rightarrow> bgp" where
  "left_est p = p\<lparr>b_conn := None, b_tx := \<lparr>tx_tables = False, tx_withdraw = [], tx_buckets = []\<rparr>\<rparr>"

lemma left_est_simps [simp]: "conn_of s (left_est p) = conn_of s p" "proto.truncate (left_est p) = proto.truncate p"
  "proto_state (left_est p) = proto_state p" "b_start_state (left_est p) = b_start_state p" "b_conn (left_est p) = None"
  "b_shared (left_est p) = b_shared p" "b_event (left_est p) = b_event p"
  by (simp_all add: left_est_def proto.truncate_def)

lemma leave_established_eq:
  "leave_established stop p = (if proto_state p = PS_UP then stop 0 [] (left_est p) else Inr (left_est p))"
  by (simp add: leave_established_def Let_def left_est_def)

text \<open>A connection goes to \<open>BS_CLOSE\<close> or \<open>BS_IDLE\<close>.\<close>

definition gone :: "side \<Rightarrow> (bgp_conn \<Rightarrow> bgp_conn) \<Rightarrow> bgp \<Rightarrow> bgp" where
  "gone s f p = (if st_of s p = BS_ESTABLISHED then left_est (upd_conn s f p) else upd_conn s f p)"

lemma gone_simps [simp]: "conn_of s (gone s f p) = f (conn_of s p)" "conn_of (other_side s) (gone s f p) = conn_of (other_side s) p"
  "proto.truncate (gone s f p) = proto.truncate p" "proto_state (gone s f p) = proto_state p"
  "b_start_state (gone s f p) = b_start_state p"
  by (simp_all add: gone_def)

lemma base_gone:
  assumes "base X p" "conn_ok (s \<in> Y) s (f (conn_of s p))" "other_side s \<in> Y \<longleftrightarrow> other_side s \<in> X"
    "c_state (f (conn_of s p)) = BS_CLOSE \<and> opened (st_of s p) \<or> c_state (f (conn_of s p)) = BS_IDLE"
  shows "base Y (gone s f p)"
proof (cases "st_of s p = BS_ESTABLISHED")
  case True
  note p = assms(1) [unfolded base_iff [of X p s]]
  have "st_of (other_side s) p \<noteq> BS_ESTABLISHED" using p True by auto
  moreover have "c_state (f (conn_of s p)) = BS_CLOSE \<or> c_state (f (conn_of s p)) = BS_IDLE" using assms(4) by blast
  moreover have "conn_ok (other_side s \<in> Y) (other_side s) (conn_of (other_side s) p)" using p assms(3) by simp
  ultimately show ?thesis
    using assms(2) p True unfolding base_iff [of Y _ s] gone_def if_P [OF True] left_est_simps conn_of_upd upd_conn_simps
    by (elim conjE disjE) simp_all
next
  case False
  have "base Y (upd_conn s f p)" by (rule base_upd [where f = f, OF assms(1-3)]) (use assms(4) False in auto)
  then show ?thesis using False by (simp add: gone_def)
qed


lemma left_est_event: "left_est (p\<lparr>b_event := e\<rparr>) = (left_est p)\<lparr>b_event := e\<rparr>"
  by (simp add: left_est_def)

lemma enter_close_gone:
  "live (conn_of s p) \<Longrightarrow> enter_close_state stop s p =
     (if st_of s p = BS_ESTABLISHED \<and> proto_state p = PS_UP then stop 0 [] (gone s closing p) else Inr (gone s closing p))"
  by (simp add: enter_close_eq leave_established_eq gone_def)

lemma enter_idle_gone:
  "enter_idle_state stop s p =
     (if st_of s p = BS_ESTABLISHED \<and> proto_state p = PS_UP then stop 0 [] ((gone s idled p)\<lparr>b_event := True\<rparr>)
      else Inr ((gone s idled p)\<lparr>b_event := True\<rparr>))"
  by (simp add: enter_idle_eq Let_def leave_established_eq gone_def left_est_event)

lemma base_closing: "base X p \<Longrightarrow> opened (st_of s p) \<Longrightarrow> base (insert s X) (gone s closing p)"
  by (rule base_gone) (use conn_ok_closing [OF base_conn] in simp_all)

lemma base_idled: "base X p \<Longrightarrow> base X (gone s idled p)"
  by (rule base_gone) simp_all

text \<open>A message waits to be sent.\<close>

lemma bit_push_one: "bit (push_bit n 1 :: u32) m \<longleftrightarrow> m = n \<and> n < 32"
  by (auto simp: bit_simps)

lemmas pkt_defs = PKT_OPEN_def PKT_UPDATE_def PKT_NOTIFICATION_def PKT_KEEPALIVE_def PKT_ROUTE_REFRESH_def
  PKT_BEGIN_REFRESH_def PKT_SCHEDULE_CLOSE_def

definition scheduled :: "nat \<Rightarrow> bgp_conn \<Rightarrow> bgp_conn" where
  "scheduled type c = c\<lparr>c_to_send := c_to_send c OR push_bit type 1,
     c_tx_ev := (c_tx_ev c \<or> (case c_sk c of None \<Rightarrow> False | Some k \<Rightarrow> sk_idle k))\<rparr>"

lemma bgp_schedule_packet_eq: "bgp_schedule_packet s type = upd_conn s (scheduled type)"
  unfolding fun_eq_iff bgp_schedule_packet_def scheduled_def by simp

lemma scheduled_simps [simp]: "c_state (scheduled type c) = c_state c" "c_sk (scheduled type c) = c_sk c"
  "c_live (scheduled type c) = c_live c" "c_hold_timer (scheduled type c) = c_hold_timer c"
  "c_retry_timer (scheduled type c) = c_retry_timer c" "c_peer (scheduled type c) = c_peer c"
  by (simp_all add: scheduled_def)

lemma to_send_scheduled [simp]: "bit (c_to_send (scheduled type c)) m \<longleftrightarrow> bit (c_to_send c) m \<or> m = type \<and> type < 32"
  by (auto simp: scheduled_def bit_simps)

lemma conn_ok_scheduled: "conn_ok x s c \<Longrightarrow> type \<noteq> PKT_UPDATE \<or> c_state c = BS_ESTABLISHED \<Longrightarrow> conn_ok x s (scheduled type c)"
  unfolding conn_ok_def scheduled_simps to_send_scheduled by blast

lemma conn_ok_close_scheduled:
  "conn_ok x s c \<Longrightarrow> c_state c = BS_CLOSE \<Longrightarrow> type = PKT_NOTIFICATION \<or> type = PKT_SCHEDULE_CLOSE \<Longrightarrow> conn_ok y s (scheduled type c)"
  unfolding conn_ok_def scheduled_simps to_send_scheduled by (auto simp: PKT_NOTIFICATION_def PKT_SCHEDULE_CLOSE_def)

lemma base_schedule: "base X p \<Longrightarrow> type \<noteq> PKT_UPDATE \<or> st_of s p = BS_ESTABLISHED \<Longrightarrow> base X (bgp_schedule_packet s type p)"
  unfolding bgp_schedule_packet_eq by (rule base_keep) (simp_all add: conn_ok_scheduled base_conn)

lemma phase_schedule [simp]: "phase (bgp_schedule_packet s type p) = phase p"
  unfolding bgp_schedule_packet_eq by (rule phase_keep) simp

lemma schedule_simps [simp]: "proto.truncate (bgp_schedule_packet s type p) = proto.truncate p"
  "conn_of s (bgp_schedule_packet s type p) = scheduled type (conn_of s p)"
  "conn_of (other_side s) (bgp_schedule_packet s type p) = conn_of (other_side s) p"
  "proto_state (bgp_schedule_packet s type p) = proto_state p" "b_start_state (bgp_schedule_packet s type p) = b_start_state p"
  by (simp_all add: bgp_schedule_packet_eq)

lemma base_close_scheduled:
  assumes "base (insert s X) p" "st_of s p = BS_CLOSE" "type = PKT_NOTIFICATION \<or> type = PKT_SCHEDULE_CLOSE"
  shows "base X (bgp_schedule_packet s type p)"
  unfolding bgp_schedule_packet_eq
  by (rule base_upd [OF assms(1)])
    (use assms in \<open>simp_all add: conn_ok_close_scheduled [OF base_conn [OF assms(1)] assms(2,3)]\<close>)

lemma base_notify: "base X p \<Longrightarrow> base X (upd_conn s (\<lambda>c. c\<lparr>c_notify := n\<rparr>) p)"
  by (rule base_keep) (simp_all add: base_conn)

section \<open>Stopping\<close>

lemma graceful_close_ok:
  assumes "base X p" "proto_state p = PS_STOP"
  shows "returns (graceful_close stop subcode data s p) (\<lambda>q. base X q \<and> proto.truncate q = proto.truncate p \<and>
    quiet (st_of s q) \<and> conn_of (other_side s) q = conn_of (other_side s) p \<and>
    (quiet (st_of s p) \<longrightarrow> conn_of s q = conn_of s p))"
proof -
  have idle: "returns (enter_idle_state stop s p) (\<lambda>q. base X q \<and> proto.truncate q = proto.truncate p \<and>
    quiet (st_of s q) \<and> conn_of (other_side s) q = conn_of (other_side s) p)"
    using assms base_idled [OF assms(1)] by (simp add: enter_idle_gone base_event)
  have err: "returns (error_with stop s 6 subcode data True p) (\<lambda>q. base X q \<and> proto.truncate q = proto.truncate p \<and>
    quiet (st_of s q) \<and> conn_of (other_side s) q = conn_of (other_side s) p)" if op: "opened (st_of s p)" "st_of s p \<noteq> BS_CLOSE"
  proof -
    have live: "live (conn_of s p)" using base_conn [OF assms(1)] op(1) by (rule conn_ok_opened)
    let ?q = "upd_conn s (\<lambda>c. c\<lparr>c_notify := (6, subcode, data)\<rparr>) (gone s closing p)"
    have "base (insert s X) ?q" using base_closing [OF assms(1) op(1)] by (rule base_notify)
    then have "base X (bgp_schedule_packet s PKT_NOTIFICATION ?q)" by (rule base_close_scheduled) simp_all
    then show ?thesis using assms op live
      by (simp add: error_with_def bgp_log_error_def bgp_store_error_def enter_close_gone Let_def)
  qed
  show ?thesis using idle err assms(1)
    by (cases "st_of s p") (auto simp: graceful_close_def elim: returns_mono)
qed


lemma more_eqD:
  fixes p q :: bgp
  assumes "proto.more p = proto.more q"
  shows "b_out p = b_out q" "b_in p = b_in q" "conn_of s p = conn_of s q" "b_conn p = b_conn q" "b_tx p = b_tx q"
    "b_start_state p = b_start_state q" "b_shared p = b_shared q" "b_cf p = b_cf q" "b_p p = b_p q" "b_neg p = b_neg q"
    "b_gr_active p = b_gr_active q" "b_event p = b_event q"
proof -
  show out: "b_out p = b_out q" using assms by (cases p; cases q) simp
  show inn: "b_in p = b_in q" using assms by (cases p; cases q) simp
  show "conn_of s p = conn_of s q" using out inn by (cases s) simp_all
qed (use assms in \<open>cases p; cases q; simp\<close>)+

lemma no_side: "x \<noteq> Some Outgoing \<Longrightarrow> x \<noteq> Some Incoming \<Longrightarrow> x = None"
  by (cases x) (auto intro: side.exhaust)

lemma base_more:
  assumes "base X p" "proto.more q = proto.more p" "proto_state q = PS_DOWN \<or> proto_state p \<noteq> PS_DOWN"
    "proto_state q = PS_START \<Longrightarrow> b_conn p \<noteq> None"
  shows "base X q"
proof -
  have "b_conn p = None" if "c_state (b_out p) = BS_IDLE" "c_state (b_in p) = BS_IDLE"
    using assms(1) that by (intro no_side) (simp_all add: base_def)
  then show ?thesis using assms(1,3,4) more_eqD [OF assms(2)] unfolding base_def by metis
qed

lemma fine_notify_stop:
  assumes "fine p" "proto_state p \<noteq> PS_DOWN"
  shows "returns (bgp_notify PS_STOP p) (\<lambda>q. fine q \<and> proto_state q = PS_STOP \<and> proto.more q = proto.more p)"
  by (rule notify_STOP [of p bgp_feed_begin]) (use assms in \<open>simp_all add: fine_def can_notify_def bgp_notify_def\<close>)

lemma stop_ok:
  assumes "base X p" "fine p" "proto_state p \<noteq> PS_DOWN"
  shows "returns (stop_with stop subcode data p) (\<lambda>q. base X q \<and> phase q \<and> fine q \<and> proto_state q = PS_STOP \<and>
    (\<forall>s. quiet (st_of s p) \<longrightarrow> conn_of s q = conn_of s p))"
proof -
  obtain a where a: "bgp_notify PS_STOP p = Inr a" "fine a" "proto_state a = PS_STOP" "proto.more a = proto.more p"
    using fine_notify_stop [OF assms(2,3)] by (auto simp: returns_def)
  have "base X a" using base_more [OF assms(1) a(4)] assms(3) a(3) by simp
  then obtain b where b: "graceful_close stop subcode data Outgoing a = Inr b" "base X b" "proto.truncate b = proto.truncate a"
      "quiet (st_of Outgoing b)" "conn_of Incoming b = conn_of Incoming a" "quiet (st_of Outgoing a) \<longrightarrow> conn_of Outgoing b = conn_of Outgoing a"
    using graceful_close_ok [of X a stop subcode data Outgoing] a(3) by (auto simp: returns_def)
  have "proto_state b = PS_STOP" using truncate_eqD(3) [OF b(3)] a(3) by simp
  then obtain c where c: "graceful_close stop subcode data Incoming b = Inr c" "base X c" "proto.truncate c = proto.truncate b"
      "quiet (st_of Incoming c)" "conn_of Outgoing c = conn_of Outgoing b" "quiet (st_of Incoming b) \<longrightarrow> conn_of Incoming c = conn_of Incoming b"
    using graceful_close_ok [of X b stop subcode data Incoming] b(2) by (auto simp: returns_def)
  have st: "proto.truncate c = proto.truncate a" using b(3) c(3) by simp
  have "\<forall>s. quiet (st_of s p) \<longrightarrow> conn_of s c = conn_of s p"
  proof
    fix s show "quiet (st_of s p) \<longrightarrow> conn_of s c = conn_of s p"
      using b(5,6) c(5,6) more_eqD(3) [OF a(4)] by (cases s) simp_all
  qed
  moreover have "phase c" using truncate_eqD(3) [OF st] a(3) b(4) c(4,5) by (simp add: phase_def)
  moreover have "fine c" "proto_state c = PS_STOP" using fine_truncate [OF st] truncate_eqD(3) [OF st] a(2,3) by simp_all
  ultimately show ?thesis using fine_truncate [of "c\<lparr>b_event := True\<rparr>" c] c(2)
    by (simp add: stop_with_def a(1) b(1) c(1) base_event)
qed

section \<open>Closing in general\<close>

text \<open>
  A connection leaves its state: if it was the established one of an instance that is up, the instance stops.
\<close>

lemma phase_gone:
  assumes "base X p" "phase p" "c_state (f (conn_of s p)) = BS_CLOSE \<and> st_of s p \<noteq> BS_IDLE \<or> c_state (f (conn_of s p)) = BS_IDLE"
    "\<not> (st_of s p = BS_ESTABLISHED \<and> proto_state p = PS_UP)"
  shows "phase (gone s f p)"
proof -
  note ph = assms(2) [unfolded phase_iff [of p s]]
  have st: "quiet (c_state (f (conn_of s p)))" "st_of s p = BS_IDLE \<Longrightarrow> c_state (f (conn_of s p)) = BS_IDLE" using assms(3) by auto
  have bc: "b_conn p = None \<Longrightarrow> b_conn (gone s f p) = None" "st_of s p \<noteq> BS_ESTABLISHED \<Longrightarrow> b_conn (gone s f p) = b_conn p"
    by (simp_all add: gone_def)
  show ?thesis unfolding phase_iff [of "gone s f p" s] gone_simps using ph st bc assms(4) by auto
qed

lemma left_stop:
  assumes "base X p" "fine p" "proto_state p = PS_UP"
  shows "returns (bgp_stop subcode data p) (\<lambda>q. base X q \<and> phase q \<and> fine q \<and> proto_state q = PS_STOP \<and>
    (\<forall>s. quiet (st_of s p) \<longrightarrow> conn_of s q = conn_of s p))"
  unfolding bgp_stop_def using stop_ok [OF assms(1,2)] assms(3) by simp


definition sound :: "side set \<Rightarrow> bgp \<Rightarrow> bool" where "sound X p \<longleftrightarrow> base X p \<and> phase p \<and> fine p"

lemma fine_core [simp]: "fine (p\<lparr>p_disabled := b\<rparr>) = fine p" "fine (p\<lparr>p_message := m\<rparr>) = fine p"
  by (simp_all add: fine_def core_ok_def core_states_def cong: proto_st.case_cong)

lemma fine_other [simp]:
  "fine (p\<lparr>b_err := er\<rparr>) = fine p"
  "fine (p\<lparr>b_event := e\<rparr>) = fine p" "fine (p\<lparr>b_calls := cs\<rparr>) = fine p" "fine (p\<lparr>b_feed_state := fs\<rparr>) = fine p"
  "fine (p\<lparr>b_load_state := fs\<rparr>) = fine p" "fine (p\<lparr>b_gr_active := b\<rparr>) = fine p" "fine (p\<lparr>b_gr_timer := t\<rparr>) = fine p"
  "fine (p\<lparr>b_p := bp\<rparr>) = fine p" "fine (p\<lparr>b_neg := ng\<rparr>) = fine p" "fine (p\<lparr>b_ra := ra\<rparr>) = fine p"
  "fine (p\<lparr>b_neigh := b\<rparr>) = fine p" "fine (p\<lparr>b_bfd_req := b\<rparr>) = fine p" "fine (p\<lparr>b_startup_timer := t\<rparr>) = fine p"
  "fine (p\<lparr>b_start_state := ss\<rparr>) = fine p" "fine (p\<lparr>b_shared := sh\<rparr>) = fine p" "fine (p\<lparr>b_conn := bc\<rparr>) = fine p"
  "fine (p\<lparr>b_tx := tx\<rparr>) = fine p" "fine (upd_conn s f p) = fine p" "fine (gone s f p) = fine p"
  "fine (bgp_schedule_packet s type p) = fine p"
  by (rule fine_truncate; simp)+

lemma sound_other [simp]:
  "sound X (p\<lparr>b_err := er\<rparr>) = sound X p" "sound X (p\<lparr>b_calls := cs\<rparr>) = sound X p"
  "sound X (p\<lparr>b_feed_state := fs\<rparr>) = sound X p" "sound X (p\<lparr>b_load_state := fs\<rparr>) = sound X p"
  "sound X (p\<lparr>b_gr_active := b\<rparr>) = sound X p" "sound X (p\<lparr>b_gr_timer := t\<rparr>) = sound X p" "sound X (p\<lparr>b_p := bp\<rparr>) = sound X p"
  "sound X (p\<lparr>b_neg := ng\<rparr>) = sound X p" "sound X (p\<lparr>b_ra := ra\<rparr>) = sound X p" "sound X (p\<lparr>p_disabled := b\<rparr>) = sound X p"
  "sound X (p\<lparr>p_message := m\<rparr>) = sound X p" "sound X (p\<lparr>b_neigh := b\<rparr>) = sound X p" "sound X (p\<lparr>b_bfd_req := b\<rparr>) = sound X p"
  "sound X (p\<lparr>b_startup_timer := t\<rparr>) = sound X p"
  by (simp_all add: sound_def)

lemma store_error_other [simp]:
  "sound X (bgp_store_error c class code p) = sound X p" "base X (bgp_store_error c class code p) = base X p"
  "fine (bgp_store_error c class code p) = fine p" "conn_of s (bgp_store_error c class code p) = conn_of s p"
  "proto_state (bgp_store_error c class code p) = proto_state p" "b_start_state (bgp_store_error c class code p) = b_start_state p"
  "b_conn (bgp_store_error c class code p) = b_conn p" "b_neg (bgp_store_error c class code p) = b_neg p"
  "b_shared (bgp_store_error c class code p) = b_shared p" "b_cf (bgp_store_error c class code p) = b_cf p"
  by (simp_all add: bgp_store_error_def)

lemma startup_delay_other [simp]:
  "sound X (bgp_update_startup_delay p) = sound X p" "conn_of s (bgp_update_startup_delay p) = conn_of s p"
  "base X (bgp_update_startup_delay p) = base X p" "fine (bgp_update_startup_delay p) = fine p"
  "proto_state (bgp_update_startup_delay p) = proto_state p"
  by (simp_all add: bgp_update_startup_delay_def Let_def)

lemma opened_not_down: "sound X p \<Longrightarrow> st_of s p \<noteq> BS_IDLE \<Longrightarrow> proto_state p \<noteq> PS_DOWN"
  unfolding sound_def phase_iff [of p s] by blast

lemma sound_started:
  "sound X p \<Longrightarrow> st_of s p \<noteq> BS_IDLE \<Longrightarrow> b_start_state p \<noteq> BSS_PREPARE \<and> b_start_state p \<noteq> BSS_DELAY"
  unfolding sound_def base_iff [of X p s] by blast

lemma idle_ok:
  assumes "sound X p" "st_of s p \<noteq> BS_IDLE"
  shows "returns (bgp_conn_enter_idle_state s p) (\<lambda>q. sound X q \<and> st_of s q = BS_IDLE)"
proof (cases "st_of s p = BS_ESTABLISHED \<and> proto_state p = PS_UP")
  case True
  let ?q = "(gone s idled p)\<lparr>b_event := True\<rparr>"
  have "returns (bgp_stop 0 [] ?q) (\<lambda>q. base X q \<and> phase q \<and> fine q \<and> proto_state q = PS_STOP \<and>
      (\<forall>s. quiet (st_of s ?q) \<longrightarrow> conn_of s q = conn_of s ?q))"
    using assms True by (intro left_stop base_event) (simp_all add: sound_def base_idled)
  then show ?thesis unfolding bgp_conn_enter_idle_state_def enter_idle_gone if_P [OF True]
    by (rule returns_mono) (auto simp: sound_def dest: spec [of _ s])
next
  case False
  have "base X ((gone s idled p)\<lparr>b_event := True\<rparr>)"
    using assms(1) sound_started [OF assms] by (intro base_event base_idled) (simp_all add: sound_def)
  then show ?thesis using False assms phase_gone [of X p idled s]
    unfolding bgp_conn_enter_idle_state_def enter_idle_gone if_not_P [OF False] by (simp add: sound_def)
qed

lemma close_ok:
  assumes "sound X p" "opened (st_of s p)"
  shows "returns (bgp_conn_enter_close_state s p) (\<lambda>q. sound (insert s X) q \<and> st_of s q = BS_CLOSE)"
proof -
  have p: "base X p" "phase p" "fine p" using assms(1) by (simp_all add: sound_def)
  have live: "live (conn_of s p)" by (rule conn_ok_opened [OF base_conn [OF p(1)] assms(2)])
  note b = base_closing [OF p(1) assms(2)]
  show ?thesis
  proof (cases "st_of s p = BS_ESTABLISHED \<and> proto_state p = PS_UP")
    case True
    have "returns (bgp_stop 0 [] (gone s closing p)) (\<lambda>q. base (insert s X) q \<and> phase q \<and> fine q \<and> proto_state q = PS_STOP \<and>
        (\<forall>t. quiet (st_of t (gone s closing p)) \<longrightarrow> conn_of t q = conn_of t (gone s closing p)))"
      using p True by (intro left_stop b) simp_all
    then show ?thesis unfolding bgp_conn_enter_close_state_def enter_close_gone [OF live] if_P [OF True]
      by (rule returns_mono) (auto simp: sound_def dest: spec [of _ s])
  next
    case False
    have "phase (gone s closing p)" using assms(2) by (intro phase_gone [OF p(1,2) _ False]) auto
    then show ?thesis using b p(3)
      unfolding bgp_conn_enter_close_state_def enter_close_gone [OF live] if_not_P [OF False] by (simp add: sound_def)
  qed
qed

lemma error_ok:
  assumes "sound X p" "opened (st_of s p)"
  shows "returns (error_with bgp_stop s code subcode data keep p) (\<lambda>q. sound X q \<and> st_of s q = BS_CLOSE)"
proof (cases "st_of s p = BS_CLOSE")
  case True
  then show ?thesis using assms(1) by (simp add: error_with_def)
next
  case False
  let ?p = "bgp_store_error (Some s) BE_BGP_TX (push_bit 16 (of_nat code) OR of_nat subcode) p"
  have log: "bgp_log_error BE_BGP_TX code subcode data p = Inr p" by (simp add: bgp_log_error_def)
  have "returns (bgp_conn_enter_close_state s ?p) (\<lambda>q. sound (insert s X) q \<and> st_of s q = BS_CLOSE)"
    using assms by (intro close_ok) simp_all
  then obtain q where q: "enter_close_state bgp_stop s ?p = Inr q" "sound (insert s X) q" "st_of s q = BS_CLOSE"
    by (auto simp: returns_def bgp_conn_enter_close_state_def)
  define r where "r = bgp_schedule_packet s PKT_NOTIFICATION (upd_conn s (\<lambda>c. c\<lparr>c_notify := (code, subcode, if keep then data else [])\<rparr>) q)"
  have "base X r" unfolding r_def using q(2,3) by (intro base_close_scheduled base_notify) (simp_all add: sound_def)
  moreover have "phase r" "fine r" "st_of s r = BS_CLOSE" using q(2,3) by (simp_all add: sound_def r_def phase_keep)
  ultimately have r: "sound X r" "st_of s r = BS_CLOSE" by (simp_all add: sound_def)
  have stop: "returns (bgp_stop 0 [] (bgp_update_startup_delay r)) (\<lambda>q. sound X q \<and> st_of s q = BS_CLOSE)"
    unfolding bgp_stop_def
    by (rule returns_mono [OF stop_ok [of X]])
      (use r opened_not_down [OF r(1), of s] in \<open>auto simp: sound_def dest: spec [of _ s]\<close>)
  show ?thesis using False r stop
    unfolding error_with_def if_not_P [OF False] log rbind_simps q(1) r_def [symmetric] Let_def by simp
qed


section \<open>BGP keeps to the contract of the protocols\<close>

lemma sess_more:
  assumes "sess_ok p" "proto.more p = proto.more q" "proto_state p = proto_state q"
  shows "sess_ok q"
  using assms(1,3) more_eqD [OF assms(2)] by (simp add: sess_ok_def base_def phase_def)

lemma truncate_state: "proto.truncate p = proto.truncate q \<Longrightarrow> proto_state p = proto_state q"
  by (simp add: proto.truncate_def)

lemma established_side: "base X p \<Longrightarrow> b_conn p = Some s \<Longrightarrow> st_of s p = BS_ESTABLISHED"
  by (cases s) (simp_all add: base_def)

lemma feed_begin_ok:
  "proto.truncate (bgp_feed_begin p b) = proto.truncate p" "base X p \<Longrightarrow> base X (bgp_feed_begin p b)"
  "phase (bgp_feed_begin p b) = phase p" "st_of s (bgp_feed_begin p b) = st_of s p"
proof -
  show "proto.truncate (bgp_feed_begin p b) = proto.truncate p" "phase (bgp_feed_begin p b) = phase p"
    by (simp_all add: bgp_feed_begin_def Let_def split: option.split)
  show "base X (bgp_feed_begin p b)" if "base X p"
    using that by (auto simp: bgp_feed_begin_def Let_def pkt_defs intro!: base_schedule split: option.split)
  have "st_of s (bgp_schedule_packet t n q) = st_of s q" for t n and q :: bgp
    by (cases "t = s") (use schedule_simps(3) [of "other_side s"] in \<open>cases s; cases t; simp add: bgp_schedule_packet_eq\<close>)+
  then show "st_of s (bgp_feed_begin p b) = st_of s p" by (simp add: bgp_feed_begin_def Let_def split: option.split)
qed

lemma feed_end_ok:
  "proto.truncate (bgp_feed_end p) = proto.truncate p" "base X p \<Longrightarrow> base X (bgp_feed_end p)" "phase (bgp_feed_end p) = phase p"
proof -
  show "proto.truncate (bgp_feed_end p) = proto.truncate p" "phase (bgp_feed_end p) = phase p"
    by (simp_all add: bgp_feed_end_def Let_def split: option.split)
  show "base X (bgp_feed_end p)" if "base X p"
    using that established_side [OF that]
    by (auto simp: bgp_feed_end_def Let_def intro!: base_schedule split: option.split)
qed

lemma reload_ok:
  "proto.truncate (fst (bgp_reload_routes p)) = proto.truncate p" "base X p \<Longrightarrow> base X (fst (bgp_reload_routes p))"
  "phase (fst (bgp_reload_routes p)) = phase p"
  by (auto simp: bgp_reload_routes_def pkt_defs intro!: base_schedule split: option.split)

lemma init_ok:
  "core_ok (proto_init cf q d p)" "proto_state (proto_init cf q d p) = PS_DOWN" "core_state (proto_init cf q d p) = FS_HUNGRY"
  "\<not> p_fell (proto_init cf q d p)" "sess_ok (proto_init cf q d p)"
  by (simp_all add: proto_init_def bgp_init_def proto_new_def core_ok_def core_states_def sess_ok_def base_def phase_def
      no_conn_def conn_ok_def)

lemma idle_same: "c_state c = BS_IDLE \<Longrightarrow> c\<lparr>c_state := BS_IDLE\<rparr> = c"
  by (cases c) simp

lemma start_ok:
  assumes "sess_ok p" "core_ok p" "proto_state p = PS_DOWN" "core_state p = FS_HUNGRY" "\<not> p_fell p"
  shows "returns (bgp_start r a (proto_init_instance p)) (\<lambda>(q, ps). core_states q \<and> proto_state q = PS_DOWN \<and>
    core_state q = FS_HUNGRY \<and> \<not> p_fell q \<and> (ps = PS_START \<or> ps = PS_UP) \<and> sess_ok (q\<lparr>proto_state := ps\<rparr>))"
proof -
  define i where "i = proto_init_instance p"
  have idle: "c_state (b_out i) = BS_IDLE" "c_state (b_in i) = BS_IDLE" "conn_ok False Outgoing (b_out i)" "conn_ok False Incoming (b_in i)"
      "b_conn i \<noteq> Some Outgoing" "b_conn i \<noteq> Some Incoming"
    using assms(1,3) by (simp_all add: sess_ok_def base_def phase_def i_def proto_init_instance_def)
  have none: "b_conn i = None" using idle(5,6) by (cases "b_conn i") (auto intro: side.exhaust)
  have core: "core_states i" "proto_state i = PS_DOWN" "core_state i = FS_HUNGRY" "\<not> p_fell i" "gr_recovery i \<longrightarrow> gr_state i = GRS_INIT"
    using assms by (simp_all add: i_def proto_init_instance_def core_ok_def core_states_def)
  have same: "(b_out i)\<lparr>c_state := BS_IDLE\<rparr> = b_out i" "(b_in i)\<lparr>c_state := BS_IDLE\<rparr> = b_in i"
    using idle_same idle(1,2) by blast+
  define j where "j = i\<lparr>b_start_state := BSS_PREPARE, b_neigh := False, b_bfd_req := False, b_neg := (b_neg i)\<lparr>ng_gr_ready := False\<rparr>,
      b_gr_active := False, b_event := False, b_startup_timer := 0, b_gr_timer := 0,
      b_p := (b_p i)\<lparr>bp_local_id := r, bp_remote_id := 0, bp_source_addr := a,
        bp_rr_cluster_id := (if \<not> bp_rr_client (b_p i) then bp_rr_cluster_id (b_p i)
                   else if sc_rr_cluster_id (b_cf i) \<noteq> 0 then sc_rr_cluster_id (b_cf i) else r)\<rparr>\<rparr>"
  have start: "bgp_start r a i = rmap (\<lambda>p. (p, PS_START))
      (if gr_recovery j \<and> sc_gr_mode (b_cf j) \<noteq> 0 then proto_graceful_restart_lock j else Inr j)"
    using same by (simp add: bgp_start_def Let_def j_def)
  have j: "proto.truncate j = proto.truncate i" "b_out j = b_out i" "b_in j = b_in i" "b_conn j = None" "b_start_state j = BSS_PREPARE"
      "\<not> b_event j"
    using none by (simp_all add: j_def)
  have ok: "core_states q \<and> proto_state q = PS_DOWN \<and> core_state q = FS_HUNGRY \<and> \<not> p_fell q \<and> sess_ok (q\<lparr>proto_state := PS_START\<rparr>)"
    if "q = j \<or> q = j\<lparr>gr_lock := True, gr_locks := gr_locks j + 1\<rparr>" for q
  proof -
    have "core_states j" "proto_state j = PS_DOWN" "core_state j = FS_HUNGRY" "\<not> p_fell j"
      using truncate_eqD [OF j(1)] core by simp_all
    then have "core_states q" "proto_state q = PS_DOWN" "core_state q = FS_HUNGRY" "\<not> p_fell q"
      using that by (auto simp: core_states_def)
    moreover have q: "b_out q = b_out i" "b_in q = b_in i" "b_conn q = None" "b_start_state q = BSS_PREPARE" "\<not> b_event q"
      using that j by auto
    then have "sess_ok (q\<lparr>proto_state := PS_START\<rparr>)"
      using idle(1-4) unfolding sess_ok_def base_def phase_def by simp
    ultimately show ?thesis by blast
  qed
  show ?thesis using ok core(5) truncate_eqD [OF j(1)] start
    by (auto simp: i_def [symmetric] proto_graceful_restart_lock_def)
qed


lemma shutdown_ok:
  assumes "sess_ok p" "fine p" "proto_state p \<noteq> PS_DOWN"
  shows "returns (bgp_shutdown restart p) (\<lambda>(q, ps). fine q \<and> proto_state q = PS_STOP \<and> ps = PS_STOP \<and> sess_ok q)"
proof -
  have "\<exists>subcode data q. bgp_shutdown restart p = rmap (\<lambda>p. (p, proto_state p)) (bgp_stop subcode data q) \<and>
      base {} q \<and> fine q \<and> proto_state q = proto_state p"
    unfolding bgp_shutdown_def Let_def using assms(1,2) by (intro exI conjI) (rule refl, auto simp: sess_ok_def)
  then obtain subcode data q where q: "bgp_shutdown restart p = rmap (\<lambda>p. (p, proto_state p)) (bgp_stop subcode data q)"
      "base {} q" "fine q" "proto_state q \<noteq> PS_DOWN" using assms(3) by auto
  show ?thesis unfolding q(1) returns_rmap bgp_stop_def
    by (rule returns_mono [OF stop_ok [OF q(2-4)]]) (simp add: sess_ok_def)
qed

lemma sess_same: "sess_ok p \<Longrightarrow> proto_state p = ps \<Longrightarrow> sess_ok (p\<lparr>proto_state := ps\<rparr>)"
  by (erule sess_more) simp_all

interpretation bgp_core: protocol "bgp_hooks router_id source_addr restart cf_new" sess_ok
proof
  let ?H = "bgp_hooks router_id source_addr restart cf_new"
  fix p q :: bgp and b
  show "sess_ok p \<Longrightarrow> proto.more p = proto.more q \<Longrightarrow> proto_state p = proto_state q \<Longrightarrow> sess_ok q" by (rule sess_more)
  show "feed_frame (h_feed_begin ?H)" by (simp add: feed_frame_def bgp_hooks_def feed_begin_ok)
  show "sess_ok p \<Longrightarrow> sess_ok (h_feed_begin ?H p b)" by (simp add: bgp_hooks_def feed_begin_ok sess_ok_def)
  show "proto.truncate (h_feed_end ?H p) = proto.truncate p" by (simp add: bgp_hooks_def feed_end_ok)
  show "sess_ok p \<Longrightarrow> sess_ok (h_feed_end ?H p)" by (simp add: bgp_hooks_def feed_end_ok sess_ok_def)
  show "proto.truncate (h_cleanup ?H p) = proto.truncate p" by (simp add: bgp_hooks_def)
  show "sess_ok p \<Longrightarrow> sess_ok (h_cleanup ?H p)" by (simp add: bgp_hooks_def)
  show "proto.truncate (fst (h_reload ?H p)) = proto.truncate p" by (simp add: bgp_hooks_def reload_ok)
  show "sess_ok p \<Longrightarrow> sess_ok (fst (h_reload ?H p))" by (simp add: bgp_hooks_def reload_ok sess_ok_def)
  show "h_renew ?H p = Some q \<Longrightarrow> core_ok q \<and> proto_state q = PS_DOWN \<and> core_state q = FS_HUNGRY \<and> \<not> p_fell q \<and> sess_ok q"
    by (auto simp: bgp_hooks_def init_ok)
  show "sess_ok p \<Longrightarrow> core_ok p \<Longrightarrow> proto_state p = PS_DOWN \<Longrightarrow> core_state p = FS_HUNGRY \<Longrightarrow> \<not> p_fell p \<Longrightarrow>
      returns (h_start ?H (proto_init_instance p)) (\<lambda>(q, ps). core_states q \<and> proto_state q = PS_DOWN \<and>
        core_state q = FS_HUNGRY \<and> \<not> p_fell q \<and> (ps = PS_START \<or> ps = PS_UP) \<and> sess_ok (q\<lparr>proto_state := ps\<rparr>))"
    by (simp add: bgp_hooks_def start_ok)
  show "returns (h_shutdown ?H p) (\<lambda>(q, ps). core_ok q \<and> can_notify q ps \<and> \<not> p_fell q \<and>
        (ps = PS_STOP \<or> ps = PS_DOWN) \<and> sess_ok (q\<lparr>proto_state := ps\<rparr>))"
    if "sess_ok p" "core_ok p" "\<not> p_fell p" "proto_state p = PS_START \<or> proto_state p = PS_UP"
  proof -
    have "returns (bgp_shutdown restart p) (\<lambda>(q, ps). fine q \<and> proto_state q = PS_STOP \<and> ps = PS_STOP \<and> sess_ok q)"
      using that by (intro shutdown_ok) (auto simp: fine_def)
    then show ?thesis unfolding bgp_hooks_def proto_hooks.simps
      by (rule returns_mono) (auto simp: fine_def can_notify_def sess_same)
  qed
qed

lemma bgp_healthy: "bgp_core.healthy p \<longleftrightarrow> sound {} p"
  by (auto simp: bgp_core.healthy_def sound_def sess_ok_def fine_def)

end
