(* ===== verification/BgpWire.thy ===== *)
theory BgpWire
  imports BgpPackets
begin

text \<open>
  What one side writes the other side reads: prefixes, UPDATE and OPEN messages in network byte order, with
  the addresses of IPv4. A message fits into the buffer of the socket.
\<close>

section \<open>Prefixes\<close>

text \<open>The prefix of a route: at most 32 bits, no bits behind them, and a path id only with ADD-PATH.\<close>

definition nlri_ok :: "bool \<Rightarrow> nlri \<Rightarrow> bool" where
  "nlri_ok ap n \<longleftrightarrow> (case n of (path_id, a, len) \<Rightarrow>
     unat len \<le> 32 \<and> a AND NOT (mask (32 - unat len)) = a \<and> (ap \<or> path_id = 0))"

lemma masked_dvd: "a AND NOT (mask k) = a \<Longrightarrow> 2 ^ k dvd unat a" for a :: u32
proof -
  assume a: "a AND NOT (mask k) = a"
  have "take_bit k a = take_bit k (a AND NOT (mask k))" using a by simp
  also have "\<dots> = 0" by (rule bit_eqI) (auto simp: bit_simps)
  finally have "take_bit k (unat a) = 0" by (metis unsigned_0 unsigned_take_bit_eq)
  then show ?thesis by (simp add: take_bit_eq_0_iff)
qed

lemma low_byte: "2 ^ k dvd v \<Longrightarrow> 8 * Suc i \<le> k \<Longrightarrow> v div 256 ^ i mod 256 = 0" for v :: nat
proof -
  assume v: "2 ^ k dvd v" "8 * Suc i \<le> k"
  have "(2 :: nat) ^ (8 * Suc i) = (2 ^ 8) ^ Suc i" by (rule power_mult)
  then have "(256 :: nat) ^ Suc i = 2 ^ (8 * Suc i)" by simp
  then have "256 ^ Suc i dvd v" using dvd_trans [OF le_imp_power_dvd [OF v(2)] v(1)] by simp
  then obtain c where "v = 256 ^ Suc i * c" by blast
  then have "v div 256 ^ i = 256 * c" by simp
  then show ?thesis by simp
qed

lemma masked_bytes:
  assumes "a AND NOT (mask (32 - len)) = a" "len \<le> 32"
  shows "take 4 (take ((len + 7) div 8) (put_u32 network_order a) @ replicate 4 0) = put_u32 network_order a"
proof (rule nth_equalityI)
  let ?q = "(len + 7) div 8"
  let ?b = "put_u32 network_order a"
  have q: "?q \<le> 4" using assms(2) by linarith
  show "length (take 4 (take ?q ?b @ replicate 4 0)) = length ?b" by simp
  fix j assume "j < length (take 4 (take ?q ?b @ replicate 4 0))"
  then have j: "j < 4" by simp
  have b: "?b ! j = of_nat (unat a div 256 ^ (3 - j) mod 256)"
    using j by (simp add: network_order_def be_bytes_def rev_nth)
  show "take 4 (take ?q ?b @ replicate 4 0) ! j = ?b ! j"
  proof (cases "j < ?q")
    case False
    have "len \<le> 8 * j" using False by presburger
    then have "8 * Suc (3 - j) \<le> 32 - len" using j by presburger
    from low_byte [OF masked_dvd [OF assms(1)] this] have "?b ! j = 0" unfolding b by simp
    then show ?thesis using False j q by (simp add: nth_append)
  qed (use j in \<open>simp add: nth_append\<close>)
qed

lemma decode_one:
  assumes "nlri_ok ap n"
  shows "decode_prefixes network_order ip4_ops ap (put_prefix network_order ap n @ r) =
    (case decode_prefixes network_order ip4_ops ap r of (ns, err) \<Rightarrow> (n # ns, err))"
proof -
  obtain path_id a len where n: "n = (path_id, a, len)" by (cases n)
  have ok: "unat len \<le> 32" "a AND NOT (mask (32 - unat len)) = a" "ap \<or> path_id = 0" using assms n by (simp_all add: nlri_ok_def)
  let ?q = "(unat len + 7) div 8"
  have q: "?q \<le> 4" using ok(1) by linarith
  let ?t = "take ?q (put_u32 network_order a)"
  have t: "length ?t = ?q" using q by simp
  note addr = masked_bytes [OF ok(2,1)]
  have addr': "get_u32 network_order (take 4 (take ?q (?t @ r) @ replicate 4 0)) = a" using addr t q net.get_put_u32 by simp
  obtain ns err where r: "decode_prefixes network_order ip4_ops ap r = (ns, err)" by (cases "decode_prefixes network_order ip4_ops ap r")
  have take4: "take 4 (put_u32 network_order path_id @ x) = put_u32 network_order path_id"
      "drop 4 (put_u32 network_order path_id @ x) = x" for x by simp_all
  have drop: "drop ?q (?t @ r) = r" using t by simp
  show ?thesis
  proof (cases ap)
    case True
    have p: "put_prefix network_order ap n @ r = put_u32 network_order path_id @ len # ?t @ r" using True by (simp add: n put_prefix_def)
    show ?thesis unfolding p
      by (subst decode_prefixes.simps) (use True ok(1,2) addr' drop r in \<open>simp add: take4 Let_def net.get_put_u32 n\<close>)
  next
    case False
    have p: "put_prefix network_order ap n @ r = len # ?t @ r" using False by (simp add: n put_prefix_def)
    show ?thesis unfolding p
      by (subst decode_prefixes.simps) (use False ok addr' drop r in \<open>simp add: Let_def n\<close>)
  qed
qed

lemma decode_all: "\<forall>n \<in> set ns. nlri_ok ap n \<Longrightarrow>
  decode_prefixes network_order ip4_ops ap (concat (map (put_prefix network_order ap) ns)) = (ns, 0)"
proof (induction ns)
  case Nil
  then show ?case by (simp add: decode_prefixes.simps)
next
  case (Cons n ns)
  then show ?case by (simp add: decode_one)
qed

section \<open>OPEN\<close>

lemma parse_one:
  assumes "length z < 256"
  shows "bgp_parse_capabilities U cf (code # of_nat (length z) # z @ r) pc =
    (case parse_capability U cf code z pc of (pc, ok) \<Rightarrow> if ok then bgp_parse_capabilities U cf r pc else (pc, False))"
proof -
  have n: "unat (of_nat (length z) :: u8) = length z" using assms by (simp add: unat_of_nat)
  show ?thesis by (subst bgp_parse_capabilities.simps) (simp add: n Let_def split: prod.split bool.split)
qed

lemma parse_nil: "bgp_parse_capabilities U cf [] pc = (pc, True)"
  by (simp add: bgp_parse_capabilities.simps)

text \<open>What the receiver makes of each capability that is sent.\<close>

lemma parse_caps:
  "bgp_parse_capabilities U cf (bgp_put_cap_ipv4 @ r) pc = bgp_parse_capabilities U cf r pc"
  "bgp_parse_capabilities U cf (bgp_put_cap_rr @ r) pc = bgp_parse_capabilities U cf r (pc\<lparr>pc_refresh := True\<rparr>)"
  "bgp_parse_capabilities U cf (bgp_put_cap_ext_msg @ r) pc = bgp_parse_capabilities U cf r (pc\<lparr>pc_ext_messages := True\<rparr>)"
  "bgp_parse_capabilities U cf (bgp_put_cap_err @ r) pc = bgp_parse_capabilities U cf r (pc\<lparr>pc_enhanced_refresh := True\<rparr>)"
  using parse_one [of "[0, BGP_AF, 0, 1]" U cf 1 r pc] parse_one [of "[]" U cf 2 r pc]
    parse_one [of "[]" U cf 6 r pc] parse_one [of "[]" U cf 70 r pc]
  by (simp_all add: bgp_put_cap_ipv4_def bgp_put_cap_rr_def bgp_put_cap_ext_msg_def bgp_put_cap_err_def parse_capability_def)

lemma parse_cap_as4:
  "bgp_parse_capabilities network_order cf (bgp_put_cap_as4 network_order as @ r) pc =
    bgp_parse_capabilities network_order cf r (pc\<lparr>pc_as4 := True, pc_advertised_as := (if sc_enable_as4 cf then as else pc_advertised_as pc)\<rparr>)"
  using parse_one [of "put_u32 network_order as" network_order cf 65 r pc]
  by (simp add: bgp_put_cap_as4_def parse_capability_def Let_def net.get_put_u32)

lemma parse_cap_add_path:
  "sc_add_path cf \<le> ADD_PATH_FULL \<Longrightarrow> bgp_parse_capabilities U cf' (bgp_put_cap_add_path cf @ r) pc =
    bgp_parse_capabilities U cf' r (pc\<lparr>pc_add_path := sc_add_path cf\<rparr>)"
  using parse_one [of "[0, BGP_AF, 1, sc_add_path cf]" U cf' 69 r pc]
  by (simp add: bgp_put_cap_add_path_def parse_capability_def Let_def)

lemma put_u16_bytes: "put_u16 network_order v = [of_nat (unat v div 256), of_nat (unat v)]"
proof -
  have "[0..<2] = [0, 1 :: nat]" by (simp add: upt_rec)
  then have "put_u16 network_order v = [of_nat (unat v div 256 mod 256), of_nat (unat v mod 256)]"
    by (simp add: network_order_def be_bytes_def)
  moreover have "of_nat (n mod 256) = (of_nat n :: u8)" for n by (simp add: word_unat_eq_iff unat_of_nat)
  ultimately show ?thesis by simp
qed

lemma get_u16_bytes: "get_u16 network_order [x, y] = of_nat (unat x * 256 + unat y)"
  by (simp add: network_order_def be_value_def)

lemma parse_cap_gr2:
  "bgp_parse_capabilities network_order cf (bgp_put_cap_gr2 network_order @ r) pc =
    bgp_parse_capabilities network_order cf r
      (pc\<lparr>pc_gr_aware := True, pc_gr_able := False, pc_gr_time := 0, pc_gr_flags := 0, pc_gr_aflags := 0\<rparr>)"
  using parse_one [of "[0, 0]" network_order cf 64 r pc]
  by (simp add: bgp_put_cap_gr2_def parse_capability_def put_u16_bytes get_u16_bytes)

text \<open>A restart time of twelve bits.\<close>

lemma low_nibble:
  fixes x :: u8
  assumes "unat x < 16"
  shows "x AND 0xf0 = 0 \<and> (x OR 0x80) AND 0xf0 = 0x80 \<and> unat (x OR 0x80) = unat x + 128"
proof -
  have x: "x = of_nat (unat x)" by simp
  have "unat x \<in> set [0..<16]" using assms by simp
  then consider "unat x = 0" | "unat x = 1" | "unat x = 2" | "unat x = 3" | "unat x = 4" | "unat x = 5" | "unat x = 6" | "unat x = 7"
    | "unat x = 8" | "unat x = 9" | "unat x = 10" | "unat x = 11" | "unat x = 12" | "unat x = 13" | "unat x = 14" | "unat x = 15"
    by (auto simp: upt_rec)
  then show ?thesis by cases (subst x, subst x, subst x, simp)+
qed

lemma mod12: "(w :: u16) AND 0x0fff = of_nat (unat w mod 4096)"
proof -
  have w: "w AND 0x0fff = take_bit 12 w" by (simp add: take_bit_eq_mask mask_eq_exp_minus_1)
  have "unat (take_bit 12 w) = take_bit 12 (unat w)" by (rule unsigned_take_bit_eq)
  also have "\<dots> = unat w mod 4096" by (simp add: take_bit_eq_mod)
  finally have "unat (w AND 0x0fff) = unat w mod 4096" unfolding w .
  then show ?thesis unfolding word_unat_eq_iff by (simp add: unat_of_nat)
qed

lemma gr_bytes:
  assumes "sc_gr_time cf < 4096" "[x, y] = put_u16 network_order (ucast (sc_gr_time cf))"
  shows "get_u16 network_order [x OR 0x80, y] AND 0x0fff = ucast (sc_gr_time cf)"
    "get_u16 network_order [x, y] AND 0x0fff = ucast (sc_gr_time cf)" "x AND 0xf0 = 0" "(x OR 0x80) AND 0xf0 = 0x80"
proof -
  define t where "t = unat (sc_gr_time cf)"
  have t: "t < 4096" using assms(1) by (simp add: word_less_nat_alt t_def)
  have g: "(ucast (sc_gr_time cf) :: u16) = of_nat t" by (simp add: t_def)
  have u: "unat (of_nat t :: u16) = t" using t by (simp add: unat_of_nat)
  have xy: "x = of_nat (t div 256)" "y = of_nat t" using assms(2) unfolding g put_u16_bytes u by simp_all
  have x: "unat x = t div 256" "unat x < 16" using xy(1) t by (simp_all add: unat_of_nat)
  have y: "unat y = t mod 256" using xy(2) by (simp add: unat_of_nat)
  note lo = low_nibble [OF x(2)]
  show "x AND 0xf0 = 0" "(x OR 0x80) AND 0xf0 = 0x80" using lo by simp_all
  have v: "t div 256 * 256 + t mod 256 = t" by simp
  show "get_u16 network_order [x, y] AND 0x0fff = ucast (sc_gr_time cf)"
    unfolding get_u16_bytes mod12 x(1) y v g u using t by simp
  have w: "(t div 256 + 128) * 256 + t mod 256 = t + 32768" by simp
  have "unat (of_nat (t + 32768) :: u16) = t + 32768" using t by (simp add: unat_of_nat del: of_nat_add)
  moreover have "(t + 32768) mod 4096 = t" using mod_mult_self1 [of t 8 4096] t by simp
  ultimately have m: "unat (of_nat (t + 32768) :: u16) mod 4096 = t" by (rule ssubst)
  show "get_u16 network_order [x OR 0x80, y] AND 0x0fff = ucast (sc_gr_time cf)"
    unfolding get_u16_bytes mod12 lo [THEN conjunct2, THEN conjunct2] x(1) y w m g ..
qed

lemma parse_cap_gr1:
  assumes "sc_gr_time cf < 4096"
  shows "bgp_parse_capabilities network_order cf' (bgp_put_cap_gr1 network_order cf rec @ r) pc =
    bgp_parse_capabilities network_order cf' r
      (pc\<lparr>pc_gr_aware := True, pc_gr_time := ucast (sc_gr_time cf), pc_gr_flags := (if rec then BGP_GRF_RESTART else 0),
          pc_gr_able := True, pc_gr_aflags := (if rec then BGP_GRF_FORWARDING else 0)\<rparr>)"
proof -
  obtain x y where xy: "put_u16 network_order (ucast (sc_gr_time cf)) = [x, y]" by (simp add: put_u16_bytes)
  note gb = gr_bytes [OF assms xy [symmetric]]
  have "bgp_put_cap_gr1 network_order cf rec = 64 # of_nat (length [if rec then x OR 0x80 else x, y, 0, BGP_AF, 1, if rec then BGP_GRF_FORWARDING else 0]) #
      [if rec then x OR 0x80 else x, y, 0, BGP_AF, 1, if rec then BGP_GRF_FORWARDING else 0]"
    by (simp add: bgp_put_cap_gr1_def xy BGP_GRF_RESTART_def)
  then show ?thesis
    using parse_one [of "[if rec then x OR 0x80 else x, y, 0, BGP_AF, 1, if rec then BGP_GRF_FORWARDING else 0]" network_order cf' 64 r pc] gb
    by (cases rec) (simp_all add: parse_capability_def BGP_GRF_RESTART_def)
qed

lemma caps_length: "length (open_caps network_order cf as rec) \<le> 32"
proof -
  have opt: "length (if b then c else []) \<le> length c" for b and c :: "u8 list" by simp
  have "length (if sc_gr_mode cf = BGP_GR_ABLE then bgp_put_cap_gr1 network_order cf rec
      else if sc_gr_mode cf = BGP_GR_AWARE then bgp_put_cap_gr2 network_order else []) \<le> 8"
    by (simp add: bgp_put_cap_gr1_def bgp_put_cap_gr2_def Let_def)
  then show ?thesis
    using opt [of "sc_advertise_ipv4 cf" bgp_put_cap_ipv4] opt [of "sc_enable_refresh cf" bgp_put_cap_rr]
      opt [of "sc_enable_as4 cf" "bgp_put_cap_as4 network_order as"] opt [of "sc_add_path cf \<noteq> 0" "bgp_put_cap_add_path cf"]
      opt [of "sc_enable_refresh cf" bgp_put_cap_err] opt [of "sc_enable_ext cf" bgp_put_cap_ext_msg]
    unfolding open_caps_def length_append
    by (simp add: bgp_put_cap_ipv4_def bgp_put_cap_rr_def bgp_put_cap_as4_def bgp_put_cap_add_path_def bgp_put_cap_err_def bgp_put_cap_ext_msg_def del: if_split)
qed

text \<open>What a receiver with the configuration \<open>cf'\<close> knows of a sender with \<open>cf\<close>.\<close>

definition open_says :: "session_cfg \<Rightarrow> session_cfg \<Rightarrow> u32 \<Rightarrow> bool \<Rightarrow> u32 \<Rightarrow> peer_caps" where
  "open_says cf' cf as rec as2 =
     \<lparr>pc_advertised_as = (if sc_enable_as4 cf \<and> sc_enable_as4 cf' then as else as2), pc_refresh = sc_enable_refresh cf,
      pc_as4 = sc_enable_as4 cf, pc_add_path = sc_add_path cf, pc_enhanced_refresh = sc_enable_refresh cf,
      pc_gr_aware = (sc_gr_mode cf \<noteq> 0), pc_gr_able = (sc_gr_mode cf = BGP_GR_ABLE),
      pc_gr_time = (if sc_gr_mode cf = BGP_GR_ABLE then ucast (sc_gr_time cf) else 0),
      pc_gr_flags = (if sc_gr_mode cf = BGP_GR_ABLE \<and> rec then BGP_GRF_RESTART else 0),
      pc_gr_aflags = (if sc_gr_mode cf = BGP_GR_ABLE \<and> rec then BGP_GRF_FORWARDING else 0), pc_ext_messages = sc_enable_ext cf\<rparr>"

lemma parse_open_caps:
  assumes "sc_add_path cf \<le> ADD_PATH_FULL" "sc_gr_time cf < 4096" "sc_gr_mode cf \<in> {0, BGP_GR_ABLE, BGP_GR_AWARE}"
  shows "bgp_parse_capabilities network_order cf' (open_caps network_order cf as rec) (no_caps\<lparr>pc_advertised_as := as2\<rparr>) =
    (open_says cf' cf as rec as2, True)"
proof -
  have opt: "bgp_parse_capabilities network_order cf' ((if b then c else []) @ r) pc = bgp_parse_capabilities network_order cf' r (if b then f pc else pc)"
    if "\<And>r pc. bgp_parse_capabilities network_order cf' (c @ r) pc = bgp_parse_capabilities network_order cf' r (f pc)" for b c r f pc
    using that by simp
  note steps = opt [OF parse_caps(1)] opt [where f = "\<lambda>pc. pc\<lparr>pc_refresh := True\<rparr>", OF parse_caps(2)]
    opt [where f = "\<lambda>pc. pc\<lparr>pc_ext_messages := True\<rparr>", OF parse_caps(3)]
    opt [where f = "\<lambda>pc. pc\<lparr>pc_enhanced_refresh := True\<rparr>", OF parse_caps(4)]
    opt [OF parse_cap_as4] opt [OF parse_cap_add_path [OF assms(1)]]
  define pc0 where "pc0 = no_caps\<lparr>pc_advertised_as := as2\<rparr>"
  define pc1 where "pc1 = (if sc_enable_refresh cf then pc0\<lparr>pc_refresh := True\<rparr> else pc0)"
  define pc2 where "pc2 = (if sc_gr_mode cf = BGP_GR_ABLE then
      pc1\<lparr>pc_gr_aware := True, pc_gr_time := ucast (sc_gr_time cf), pc_gr_flags := (if rec then BGP_GRF_RESTART else 0),
          pc_gr_able := True, pc_gr_aflags := (if rec then BGP_GRF_FORWARDING else 0)\<rparr>
    else if sc_gr_mode cf = BGP_GR_AWARE then
      pc1\<lparr>pc_gr_aware := True, pc_gr_able := False, pc_gr_time := 0, pc_gr_flags := 0, pc_gr_aflags := 0\<rparr> else pc1)"
  have gr: "bgp_parse_capabilities network_order cf' ((if sc_gr_mode cf = BGP_GR_ABLE then bgp_put_cap_gr1 network_order cf rec
      else if sc_gr_mode cf = BGP_GR_AWARE then bgp_put_cap_gr2 network_order else []) @ r) pc1 = bgp_parse_capabilities network_order cf' r pc2" for r
    by (simp add: pc2_def parse_cap_gr1 [OF assms(2)] parse_cap_gr2)
  have "bgp_parse_capabilities network_order cf' (open_caps network_order cf as rec) pc0 =
      bgp_parse_capabilities network_order cf'
     ((if sc_gr_mode cf = BGP_GR_ABLE then bgp_put_cap_gr1 network_order cf rec
      else if sc_gr_mode cf = BGP_GR_AWARE then bgp_put_cap_gr2 network_order else []) @
     (if sc_enable_as4 cf then bgp_put_cap_as4 network_order as else []) @
     (if sc_add_path cf \<noteq> 0 then bgp_put_cap_add_path cf else []) @
     (if sc_enable_refresh cf then bgp_put_cap_err else []) @ (if sc_enable_ext cf then bgp_put_cap_ext_msg else []) @ []) pc1"
    unfolding open_caps_def steps(1,2) pc1_def by simp
  also have "\<dots> = (open_says cf' cf as rec as2, True)"
    unfolding gr steps parse_nil using assms(3)
    by (auto simp: pc2_def pc1_def pc0_def no_caps_def open_says_def BGP_GR_ABLE_def BGP_GR_AWARE_def)
  finally show ?thesis unfolding pc0_def .
qed

lemma open_parsed:
  assumes "sc_add_path cf \<le> ADD_PATH_FULL" "sc_gr_time cf < 4096" "sc_gr_mode cf \<in> {0, BGP_GR_ABLE, BGP_GR_AWARE}"
    and "open_caps network_order cf as rec \<noteq> []"
  shows "bgp_parse_options network_order cf' False (drop 10 (bgp_create_open network_order cf as rid rec False))
      (no_caps\<lparr>pc_advertised_as := as2\<rparr>) = (open_says cf' cf as rec as2, [])"
proof -
  let ?caps = "open_caps network_order cf as rec"
  have u: "unat (of_nat m :: u8) = m" if "m < 256" for m using that by (simp add: unat_of_nat)
  have n: "unat (of_nat (length ?caps) :: u8) = length ?caps" using caps_length [of cf as rec] by (simp add: u)
  have d: "drop 10 (bgp_create_open network_order cf as rid rec False) = [2, of_nat (length ?caps)] @ ?caps"
    using assms(4) by (simp add: bgp_create_open_def Let_def)
  show ?thesis unfolding d
    by (subst bgp_parse_options.simps)
      (simp add: Let_def n parse_open_caps [OF assms(1-3)] bgp_parse_options.simps [of _ _ _ "[]"])
qed

section \<open>Properties\<close>


definition gr_session :: session_cfg where
  "gr_session = \<lparr>sc_remote_as = 65002, sc_capabilities = 1, sc_enable_refresh = True, sc_enable_as4 = True,
     sc_enable_ext = True, sc_advertise_ipv4 = True, sc_passive = False, sc_secondary = False, sc_add_path = 3,
     sc_gr_mode = BGP_GR_ABLE, sc_gr_time = 120, sc_multihop = False, sc_ttl_security = False, sc_gw_direct = True,
     sc_password = False, sc_check_link = False, sc_bfd = False, sc_connect_delay_time = 5, sc_connect_retry_time = 120,
     sc_hold_time = 240, sc_initial_hold_time = 240, sc_keepalive_time = 0, sc_error_amnesia_time = 300,
     sc_error_delay_time_min = 60, sc_error_delay_time_max = 300, sc_disable_after_error = False,
     sc_disable_after_cease = 0, sc_rr_cluster_id = 0\<rparr>"




text \<open>A configured restart time of more than twelve bits spills into the flags: without a restart, the
  OPEN message of a router with the restart time 32768 says that it restarts.\<close>

theorem restart_time_sets_flag:
  "\<exists>pc. bgp_parse_capabilities network_order cf' (bgp_put_cap_gr1 network_order (gr_session\<lparr>sc_gr_time := 0x8000\<rparr>) False) no_caps = (pc, True) \<and>
     pc_gr_flags pc = BGP_GRF_RESTART \<and> pc_gr_time pc = 0"
proof -
  have g: "bgp_put_cap_gr1 network_order (gr_session\<lparr>sc_gr_time := 0x8000\<rparr>) False = 64 # of_nat (length [0x80, 0, 0, BGP_AF, 1, 0]) # [0x80, 0, 0, BGP_AF, 1, 0] @ []"
    by (simp add: bgp_put_cap_gr1_def put_u16_bytes gr_session_def)
  show ?thesis unfolding g
    by (subst parse_one) (simp_all add: parse_capability_def get_u16_bytes BGP_GRF_RESTART_def parse_nil)
qed

end
