(* ===== verification/BgpSample.thy ===== *)
theory BgpSample
  imports BgpSafe BgpCodec
begin

text \<open>Sessions for the examples: a new instance, and one with an established connection.\<close>

definition sample_session_cf :: session_cfg where
  "sample_session_cf = \<lparr>sc_remote_as = 65002, sc_capabilities = 1, sc_enable_refresh = True, sc_enable_as4 = True,
     sc_enable_ext = False, sc_advertise_ipv4 = True, sc_passive = False, sc_secondary = False, sc_add_path = 0,
     sc_gr_mode = BGP_GR_AWARE, sc_gr_time = 120, sc_multihop = False, sc_ttl_security = False, sc_gw_direct = True,
     sc_password = False, sc_check_link = False, sc_bfd = False, sc_connect_delay_time = 5, sc_connect_retry_time = 120,
     sc_hold_time = 240, sc_initial_hold_time = 240, sc_keepalive_time = 0, sc_error_amnesia_time = 300,
     sc_error_delay_time_min = 60, sc_error_delay_time_max = 300, sc_disable_after_error = False,
     sc_disable_after_cease = 0, sc_rr_cluster_id = 0\<rparr>"

definition blank_bgp :: bgp where
  "blank_bgp = \<lparr>gr_state = GRS_NONE, gr_locks = 0, gr_now = False, flush_round = False, p_multitable = False,
     p_disabled = False, proto_state = PS_DOWN, core_state = FS_HUNGRY, export_state = ES_DOWN, p_reconfiguring = False,
     p_refeeding = False, p_flushing = False, gr_recovery = False, gr_lock = False, gr_wait = False, down_sched = 0,
     down_code = 0, p_attn = None, p_attn_active = False, p_pool = False, p_hooked = False, p_linked = False,
     p_source = False, p_locked = False, p_mark = False, st_imp_routes = 0, st_filt_routes = 0, st_exp_routes = 0,
     p_message = [], p_fell = False, p_gone = False,
     b_cf = sample_session_cf, b_p = sample_proto, b_now = 1, b_start_state = BSS_PREPARE,
     b_neg = \<lparr>ng_add_path_rx = False, ng_add_path_tx = False, ng_ext_messages = False, ng_gr_ready = False\<rparr>,
     b_gr_active = False, b_feed_state = BFS_NONE, b_load_state = BFS_NONE, b_conn = None, b_out = no_conn, b_in = no_conn,
     b_neigh = False, b_bfd_req = False, b_event = False, b_startup_timer = 0, b_gr_timer = 0,
     b_err = \<lparr>er_startup_delay = 0, er_last_proto_error = 0, er_class = 0, er_code = 0\<rparr>,
     b_shared = \<lparr>sh_listen_sk = False, sh_counter = 0\<rparr>,
     b_tx = \<lparr>tx_tables = False, tx_withdraw = [], tx_buckets = []\<rparr>, b_ra = RA_OPTIMAL, b_calls = []\<rparr>"

definition sample_instance :: bgp where
  "sample_instance = proto_init sample_session_cf sample_proto False blank_bgp"

definition sample_conn :: "bs \<Rightarrow> bgp_conn" where
  "sample_conn st = no_conn\<lparr>c_state := st, c_sk := Some \<lparr>sk_ref = 7, sk_saddr = 0x0a000002, sk_rx = True, sk_idle = True\<rparr>,
     c_live := True, c_hold_timer := 240, c_hold_time := 240, c_keepalive_time := 80, c_start_state := BSS_CONNECT\<rparr>"

text \<open>A started instance whose outgoing connection has sent its OPEN, and one whose session is up.\<close>

definition sample_waiting :: bgp where
  "sample_waiting = blank_bgp\<lparr>p_pool := True, p_locked := True, proto_state := PS_START, b_start_state := BSS_CONNECT,
     b_shared := \<lparr>sh_listen_sk = True, sh_counter = 1\<rparr>, b_out := sample_conn BS_OPENSENT\<rparr>"

definition sample_up :: bgp where
  "sample_up = sample_waiting\<lparr>proto_state := PS_UP, core_state := FS_HAPPY, export_state := ES_READY, p_hooked := True,
     p_linked := True, p_source := True, b_conn := Some Outgoing, b_out := sample_conn BS_ESTABLISHED,
     b_tx := \<lparr>tx_tables = True, tx_withdraw = [], tx_buckets = []\<rparr>\<rparr>"

lemma sample_sound: "sound {} sample_instance" "sound {} sample_waiting" "sound {} sample_up"
  by (simp_all add: sound_def fine_def core_ok_def core_states_def base_def phase_def conn_ok_def sample_instance_def
      sample_waiting_def sample_up_def sample_conn_def blank_bgp_def no_conn_def proto_init_def bgp_init_def proto_new_def)

end
