(* ===== verification/BgpQueue.thy ===== *)
theory BgpQueue
  imports BgpExport BgpSafe BgpCodec BgpWire BgpSample
begin

text \<open>
  The queue of prefixes to be sent always holds what the neighbor does not know yet: notifications about
  routes overwrite what waits, messages move what waits to the neighbor, and when the queue is empty the
  neighbor has the last route of every prefix.
\<close>

section \<open>What waits in the queue\<close>

fun bucket_of :: "nlri \<Rightarrow> bucket list \<Rightarrow> eattr list option" where
  "bucket_of n [] = None"
| "bucket_of n ((a, ns) # bs) = (if n \<in> set ns then Some a else bucket_of n bs)"

text \<open>\<open>Some None\<close>: a withdrawal of the prefix waits; \<open>Some (Some a)\<close>: a route with these attributes waits.\<close>

definition queued :: "bgp_tx \<Rightarrow> nlri \<Rightarrow> eattr list option option" where
  "queued t n = (if n \<in> set (tx_withdraw t) then Some None else map_option Some (bucket_of n (tx_buckets t)))"

text \<open>A prefix is in one list at most, and the buckets have different attributes.\<close>

definition queue_ok :: "bgp_tx \<Rightarrow> bool" where
  "queue_ok t \<longleftrightarrow> distinct (tx_withdraw t @ concat (map snd (tx_buckets t))) \<and> distinct (map fst (tx_buckets t))"

lemma bucket_of_None: "bucket_of n bs = None \<longleftrightarrow> n \<notin> set (concat (map snd bs))"
  by (induction n bs rule: bucket_of.induct) auto

lemma bucket_of_append: "bucket_of n (bs @ cs) = (case bucket_of n bs of None \<Rightarrow> bucket_of n cs | Some a \<Rightarrow> Some a)"
  by (induction n bs rule: bucket_of.induct) auto

lemma removed_set:
  "distinct (concat (map snd bs)) \<Longrightarrow> set (concat (map snd (map (\<lambda>(a, ns). (a, remove1 n ns)) bs))) = set (concat (map snd bs)) - {n}"
proof (induction bs)
  case (Cons b bs)
  then show ?case by (cases b) (simp add: Un_Diff)
qed simp

lemma removed_distinct:
  "distinct (concat (map snd bs)) \<Longrightarrow> distinct (concat (map snd (map (\<lambda>(a, ns). (a, remove1 n ns)) bs)))"
proof (induction bs)
  case (Cons b bs)
  then have "distinct (concat (map snd bs))" by simp
  from Cons.IH [OF this] removed_set [OF this, of n] Cons.prems show ?case by (cases b) (auto simp del: set_concat map_map)
qed simp

lemma removed_bucket_of:
  "distinct (concat (map snd bs)) \<Longrightarrow> bucket_of m (map (\<lambda>(a, ns). (a, remove1 n ns)) bs) = (if m = n then None else bucket_of m bs)"
proof (induction bs)
  case (Cons b bs)
  then show ?case by (cases b; cases "m = n") simp_all
qed simp

lemma remove_prefix_ok:
  assumes "queue_ok t"
  shows "queue_ok (remove_prefix n t)" "queued (remove_prefix n t) m = (if m = n then None else queued t m)"
    "n \<notin> set (tx_withdraw (remove_prefix n t)) \<union> set (concat (map snd (tx_buckets (remove_prefix n t))))"
    "map fst (tx_buckets (remove_prefix n t)) = map fst (tx_buckets t)"
proof -
  let ?bs = "map (\<lambda>(a, ns). (a, remove1 n ns)) (tx_buckets t)"
  have d: "distinct (tx_withdraw t)" "distinct (concat (map snd (tx_buckets t)))"
      "set (tx_withdraw t) \<inter> set (concat (map snd (tx_buckets t))) = {}" "distinct (map fst (tx_buckets t))"
    using assms by (simp_all add: queue_ok_def)
  show fst: "map fst (tx_buckets (remove_prefix n t)) = map fst (tx_buckets t)"
    by (simp add: remove_prefix_def case_prod_unfold)
  show "n \<notin> set (tx_withdraw (remove_prefix n t)) \<union> set (concat (map snd (tx_buckets (remove_prefix n t))))"
    using d(1) removed_set [OF d(2), of n] by (simp add: remove_prefix_def)
  show "queued (remove_prefix n t) m = (if m = n then None else queued t m)"
    using d(1) removed_bucket_of [OF d(2), of m n] by (cases "m = n") (simp_all add: queued_def remove_prefix_def)
  have "set (remove1 n (tx_withdraw t)) \<inter> set (concat (map snd ?bs)) = {}"
    using d(3) removed_set [OF d(2), of n] set_remove1_subset [of n "tx_withdraw t"] by blast
  moreover have "map fst ?bs = map fst (tx_buckets t)" by (simp add: case_prod_unfold)
  ultimately show "queue_ok (remove_prefix n t)"
    using d removed_distinct [OF d(2), of n] by (simp add: queue_ok_def remove_prefix_def del: map_map)
qed

lemma add_to_bucket_fst [simp]: "map fst (add_to_bucket l n bs) = map fst bs"
  by (induction l n bs rule: add_to_bucket.induct) auto

lemma add_to_bucket_mset:
  "l \<in> fst ` set bs \<Longrightarrow> mset (concat (map snd (add_to_bucket l n bs))) = add_mset n (mset (concat (map snd bs)))"
  by (induction l n bs rule: add_to_bucket.induct) auto

lemma add_to_bucket_of:
  assumes "n \<notin> set (concat (map snd bs))" "l \<in> fst ` set bs"
  shows "bucket_of m (add_to_bucket l n bs) = (if m = n then Some l else bucket_of m bs)"
  using assms
proof (induction l n bs rule: add_to_bucket.induct)
  case (2 l n a ns bs)
  then show ?case by (cases "a = l"; cases "m = n") simp_all
qed simp

text \<open>What the search for a bucket says.\<close>

lemma ea_same_attrs_Inr: "length x = length y \<Longrightarrow> ea_same_attrs x y = Inr s \<Longrightarrow> s \<longleftrightarrow> x = y"
proof (induction x y arbitrary: s rule: list_induct2)
  case (Cons a x b y)
  then show ?case
    by (auto simp: eattr_same_value_def rbind_Inr_iff split: if_splits eavalue.splits)
qed simp

lemma ea_same_Inr: "ea_same [e] [f] = Inr s \<Longrightarrow> s \<longleftrightarrow> eal_attrs e = eal_attrs f"
  by (auto simp: ea_same_def dest: ea_same_attrs_Inr split: if_splits)

lemma find_bucket_Inr: "find_bucket new bs = Inr s \<Longrightarrow> s \<longleftrightarrow> eal_attrs new \<in> fst ` set bs"
proof (induction new bs arbitrary: s rule: find_bucket.induct)
  case (2 new attrs ns bs)
  then obtain same where same: "ea_same [\<lparr>eal_flags = 0, eal_attrs = attrs\<rparr>] [new] = Inr same"
      "(if same then Inr True else find_bucket new bs) = Inr s" by (auto simp: rbind_Inr_iff)
  then show ?case using 2(1) [OF same(1)] ea_same_Inr [OF same(1)] by (cases same) auto
qed simp

lemma get_bucket_Inr:
  assumes "bgp_get_bucket L p attrs og bs = Inr (Some (l, bs'))"
  shows "bs' = bs \<and> l \<in> fst ` set bs \<or> bs' = bs @ [(l, [])] \<and> l \<notin> fst ` set bs"
proof -
  obtain e es where e: "ea_sort (ea_merge attrs) = e # es" using assms by (auto simp: bgp_get_bucket_def split: list.splits)
  obtain l' found where l': "normal_attrs (bl_host L) p og (eal_attrs e) = Inr l'" "find_bucket (e\<lparr>eal_attrs := l'\<rparr>) bs = Inr found"
    using assms by (auto simp: bgp_get_bucket_def e Let_def rbind_Inr_iff)
  have found: "found \<longleftrightarrow> l' \<in> fst ` set bs" using find_bucket_Inr [OF l'(2)] by simp
  have "l = l' \<and> (if found then bs' = bs else bs' = bs @ [(l', [])])"
    using assms unfolding bgp_get_bucket_def e list.case l' rbind_simps Let_def
    by (auto simp: rbind_Inr_iff split: if_splits option.splits)
  then show ?thesis using found by (cases found) simp_all
qed

section \<open>Notifications\<close>

definition nlri_of :: "bgp \<Rightarrow> u32 \<Rightarrow> u8 \<Rightarrow> u32 \<Rightarrow> nlri" where
  "nlri_of p px pxlen gid = (if ng_add_path_tx (b_neg p) then gid else 0, px, pxlen)"

lemma bucket_of_empty: "bucket_of m (bs @ [(l, [])]) = bucket_of m bs"
  by (simp add: bucket_of_append split: option.split)

lemma announce_ok:
  assumes "queue_ok t" "l \<in> fst ` set (tx_buckets t)" "n \<notin> set (tx_withdraw t) \<union> set (concat (map snd (tx_buckets t)))"
  shows "queue_ok (t\<lparr>tx_buckets := add_to_bucket l n (tx_buckets t)\<rparr>)"
    "queued (t\<lparr>tx_buckets := add_to_bucket l n (tx_buckets t)\<rparr>) = (queued t)(n \<mapsto> Some l)"
proof -
  let ?bs = "add_to_bucket l n (tx_buckets t)"
  have m: "mset (concat (map snd ?bs)) = add_mset n (mset (concat (map snd (tx_buckets t))))"
    by (rule add_to_bucket_mset [OF assms(2)])
  have set: "set (concat (map snd ?bs)) = insert n (set (concat (map snd (tx_buckets t))))"
    using m by (metis set_mset_add_mset_insert set_mset_mset)
  have "distinct (concat (map snd ?bs))"
    using m assms(1,3) by (metis Un_iff add_mset_remove_trivial distinct.simps(2) distinct_append mset.simps(2) queue_ok_def mset_eq_imp_distinct_iff)
  then show "queue_ok (t\<lparr>tx_buckets := ?bs\<rparr>)" using assms(1,3) set by (auto simp: queue_ok_def)
  show "queued (t\<lparr>tx_buckets := ?bs\<rparr>) = (queued t)(n \<mapsto> Some l)"
    using assms(2,3) by (auto simp: queued_def fun_eq_iff add_to_bucket_of)
qed

lemma withdraw_ok:
  assumes "queue_ok t" "n \<notin> set (tx_withdraw t) \<union> set (concat (map snd (tx_buckets t)))"
  shows "queue_ok (t\<lparr>tx_withdraw := tx_withdraw t @ [n]\<rparr>)"
    "queued (t\<lparr>tx_withdraw := tx_withdraw t @ [n]\<rparr>) = (queued t)(n \<mapsto> None)"
  using assms by (auto simp: queue_ok_def queued_def fun_eq_iff)

lemma removed_queued: "queue_ok t \<Longrightarrow> queued (remove_prefix n t) = (queued t)(n := None)"
  by (rule ext) (simp add: remove_prefix_ok(2))

lemma rt_notify_withdraw:
  assumes "queue_ok (b_tx p)" "bgp_rt_notify L px len gid None p = Inr q"
  shows "queue_ok (b_tx q) \<and> queued (b_tx q) = (queued (b_tx p))(nlri_of p px len gid \<mapsto> None)"
proof -
  let ?n = "nlri_of p px len gid"
  let ?t = "remove_prefix ?n (b_tx p)"
  have "b_tx q = ?t\<lparr>tx_withdraw := tx_withdraw ?t @ [?n]\<rparr>"
    using assms(2) by (auto simp: bgp_rt_notify_def Let_def nlri_of_def bgp_schedule_packet_eq split: if_splits option.splits)
  then show ?thesis
    using withdraw_ok [OF remove_prefix_ok(1,3) [OF assms(1)], of ?n] removed_queued [OF assms(1), of ?n] by simp
qed

lemma rt_notify_route:
  assumes "queue_ok (b_tx p)" "bgp_rt_notify L px len gid (Some (attrs, og)) p = Inr q"
    "bgp_get_bucket L (b_p p) attrs og (tx_buckets (b_tx p)) = Inr (Some (l, bs))"
  shows "queue_ok (b_tx q) \<and> queued (b_tx q) = (queued (b_tx p))(nlri_of p px len gid \<mapsto> Some l)"
proof -
  let ?n = "nlri_of p px len gid"
  let ?u = "(b_tx p)\<lparr>tx_buckets := bs\<rparr>"
  let ?t = "remove_prefix ?n ?u"
  have t0: "queue_ok ?u" "queued ?u = queued (b_tx p)" "l \<in> fst ` set bs"
    using get_bucket_Inr [OF assms(3)] assms(1)
    by (elim disjE conjE; simp add: queue_ok_def queued_def fun_eq_iff bucket_of_empty)+
  have "b_tx q = ?t\<lparr>tx_buckets := add_to_bucket l ?n (tx_buckets ?t)\<rparr>"
    using assms(2,3) by (auto simp: bgp_rt_notify_def Let_def nlri_of_def bgp_schedule_packet_eq split: if_splits option.splits)
  moreover have "l \<in> fst ` set (tx_buckets ?t)"
    using t0(3) arg_cong [OF remove_prefix_ok(4) [OF t0(1), of ?n], of set] by simp
  ultimately show ?thesis
    using announce_ok [OF remove_prefix_ok(1) [OF t0(1)] _ remove_prefix_ok(3) [OF t0(1)], of l ?n] removed_queued [OF t0(1), of ?n] t0(2)
    by simp
qed

section \<open>Messages\<close>

text \<open>What an UPDATE says; the routes of the neighbor are those it was told last. \<open>enc\<close>: how
  it knows a route with these attributes.\<close>

datatype update = Withdrawn_routes "nlri list" | Announced "eattr list" "nlri list"

fun apply_update :: "(eattr list \<Rightarrow> 'r option) \<Rightarrow> update \<Rightarrow> (nlri \<Rightarrow> 'r option) \<Rightarrow> nlri \<Rightarrow> 'r option" where
  "apply_update enc (Withdrawn_routes ns) peer = (\<lambda>n. if n \<in> set ns then None else peer n)"
| "apply_update enc (Announced a ns) peer = (\<lambda>n. if n \<in> set ns then enc a else peer n)"

text \<open>The bytes of the message, and the encoded attributes that it has.\<close>

fun update_bytes :: "unaligned \<Rightarrow> bool \<Rightarrow> u8 list \<Rightarrow> update \<Rightarrow> u8 list" where
  "update_bytes U ap enc (Withdrawn_routes ns) =
     (let w = concat (map (put_prefix U ap) ns) in put_u16 U (of_nat (length w)) @ w @ put_u16 U 0)"
| "update_bytes U ap enc (Announced a ns) =
     put_u16 U 0 @ put_u16 U (of_nat (length enc)) @ enc @ concat (map (put_prefix U ap) ns) @ (if enc = [] then put_u16 U 0 else [])"

text \<open>The routes that the neighbor will have when the queue is sent.\<close>

definition wanted :: "(eattr list \<Rightarrow> 'r option) \<Rightarrow> bgp_tx \<Rightarrow> (nlri \<Rightarrow> 'r option) \<Rightarrow> nlri \<Rightarrow> 'r option" where
  "wanted enc t peer n = (case queued t n of None \<Rightarrow> peer n | Some None \<Rightarrow> None | Some (Some a) \<Rightarrow> enc a)"

lemma wanted_upd:
  "queued t' = (queued t)(n \<mapsto> r) \<Longrightarrow> wanted enc t' peer = (wanted enc t peer)(n := (case r of None \<Rightarrow> None | Some a \<Rightarrow> enc a))"
  by (simp add: wanted_def fun_eq_iff)

lemma encode_split:
  "bgp_encode_prefixes U ap m ns = (w, rest) \<Longrightarrow> \<exists>sent. ns = sent @ rest \<and> w = concat (map (put_prefix U ap) sent)"
proof (induction U ap m ns arbitrary: w rest rule: bgp_encode_prefixes.induct)
  case (2 U ap m n ns)
  show ?case
  proof (cases "m < 5 + 4")
    case False
    obtain w' r' where r: "bgp_encode_prefixes U ap (m - length (put_prefix U ap n)) ns = (w', r')"
      by (cases "bgp_encode_prefixes U ap (m - length (put_prefix U ap n)) ns")
    obtain sent where "ns = sent @ r'" "w' = concat (map (put_prefix U ap) sent)" using 2(1) [OF False refl r] by blast
    then have "n # ns = (n # sent) @ rest \<and> w = concat (map (put_prefix U ap) (n # sent))" using 2(2) False r by (simp add: Let_def)
    then show ?thesis by blast
  qed (use 2(2) in simp)
qed simp

lemma encode_some: "9 \<le> m \<Longrightarrow> ns \<noteq> [] \<Longrightarrow> fst (bgp_encode_prefixes U ap m ns) \<noteq> []"
  by (cases ns) (auto simp: Let_def put_prefix_def split: prod.splits)

text \<open>The bytes for the attributes of a bucket, in the room that \<open>bgp_create_update\<close> gives them.\<close>

definition update_room :: "bool \<Rightarrow> nat" where
  "update_room ext = bgp_max_packet_length ext - BGP_HEADER_LENGTH - 4"

definition encoded :: "bgp_lib \<Rightarrow> bgp_proto \<Rightarrow> bool \<Rightarrow> eattr list \<Rightarrow> u8 list option" where
  "encoded L q ext a = (case bgp_encode_attrs L q a (int (update_room ext) - 1024) of Inr (Some e) \<Rightarrow> Some e | _ \<Rightarrow> None)"

text \<open>The attributes of every bucket with prefixes can be encoded, and fit.\<close>

definition fit :: "bgp_lib \<Rightarrow> bgp_proto \<Rightarrow> bool \<Rightarrow> bucket list \<Rightarrow> bool" where
  "fit L q ext bs \<longleftrightarrow> (\<forall>b \<in> set bs. snd b \<noteq> [] \<longrightarrow> (\<exists>x e. encoded L q ext (fst b) = Some (x # e)))"

lemma encodedD: "encoded L q ext a = Some e \<Longrightarrow> bgp_encode_attrs L q a (int (update_room ext) - 1024) = Inr (Some e)"
  by (simp add: encoded_def split: sum.splits option.splits)

lemma fitD: "fit L q ext bs \<Longrightarrow> \<forall>b \<in> set bs. snd b \<noteq> [] \<longrightarrow> (\<exists>a. bgp_encode_attrs L q (fst b) (int (update_room ext) - 1024) = Inr (Some a))"
  unfolding fit_def by (blast dest: encodedD)

lemma room: "1024 + 9 \<le> update_room ext" "update_room ext + 23 = bgp_max_packet_length ext" "bgp_max_packet_length ext < 65536"
  by (simp_all add: update_room_def bgp_max_packet_length_def BGP_MAX_EXT_MSG_LENGTH_def BGP_MAX_MESSAGE_LENGTH_def BGP_HEADER_LENGTH_def)

definition all_nlri :: "bgp_tx \<Rightarrow> nlri set" where
  "all_nlri t = set (tx_withdraw t) \<union> set (concat (map snd (tx_buckets t)))"

fun update_nlri :: "update \<Rightarrow> nlri set" where
  "update_nlri (Withdrawn_routes ns) = set ns"
| "update_nlri (Announced a ns) = set ns"

lemma encoded_length: "unaligned_access U \<Longrightarrow> bgp_encode_prefixes U ap m ns = (w, rest) \<Longrightarrow> length w \<le> m"
proof (induction U ap m ns arbitrary: w rest rule: bgp_encode_prefixes.induct)
  case (2 U ap m n ns)
  show ?case
  proof (cases "m < 5 + 4")
    case False
    obtain w' r' where r: "bgp_encode_prefixes U ap (m - length (put_prefix U ap n)) ns = (w', r')"
      by (cases "bgp_encode_prefixes U ap (m - length (put_prefix U ap n)) ns")
    have "length (put_prefix U ap n) \<le> 9"
      using unaligned_access.length_put_u32 [OF 2(2)] by (auto simp: put_prefix_def split: prod.split)
    then show ?thesis using 2(1) [OF False refl 2(2) r] 2(3) False r by (auto simp: Let_def)
  qed (use 2(3) in simp)
qed simp

text \<open>The first bucket with prefixes is the one that is sent.\<close>

definition taken ::
  "bgp_lib \<Rightarrow> bgp_proto \<Rightarrow> bool \<Rightarrow> nat \<Rightarrow> bucket list \<Rightarrow> u8 list \<Rightarrow> eattr list \<Rightarrow> nlri list \<Rightarrow> nlri list \<Rightarrow> bucket list \<Rightarrow> bucket list \<Rightarrow> bool"
where
  "taken L q ap m bs enc attrs sent rest old bs2 \<longleftrightarrow>
     update_buckets L q ap m bs = Inr (Some (enc, concat (map (put_prefix (bl_net L) ap) sent)), (attrs, rest) # bs2) \<and>
     sent \<noteq> [] \<and> bs = old @ (attrs, sent @ rest) # bs2 \<and> concat (map snd old) = [] \<and>
     bgp_encode_attrs L q attrs (int m - 1024) = Inr (Some enc) \<and>
     length (concat (map (put_prefix (bl_net L) ap) sent)) \<le> m - length enc"

lemma takenD:
  assumes "taken L q ap m bs enc attrs sent rest old bs2"
  shows "update_buckets L q ap m bs = Inr (Some (enc, concat (map (put_prefix (bl_net L) ap) sent)), (attrs, rest) # bs2)"
    "sent \<noteq> []" "bs = old @ (attrs, sent @ rest) # bs2" "concat (map snd old) = []"
    "bgp_encode_attrs L q attrs (int m - 1024) = Inr (Some enc)" "length (concat (map (put_prefix (bl_net L) ap) sent)) \<le> m - length enc"
  using assms unfolding taken_def by blast+

lemma no_bucket: "concat (map snd bs) = [] \<Longrightarrow> update_buckets L q ap m bs = Inr (None, [])"
  by (induction bs) auto

lemma one_bucket:
  assumes "bgp_lib_ok L" "1024 + 9 \<le> m"
  shows "\<forall>b \<in> set bs. snd b \<noteq> [] \<longrightarrow> (\<exists>a. bgp_encode_attrs L q (fst b) (int m - 1024) = Inr (Some a)) \<Longrightarrow>
    concat (map snd bs) \<noteq> [] \<Longrightarrow> \<exists>enc attrs sent rest old bs2. taken L q ap m bs enc attrs sent rest old bs2"
proof (induction bs)
  case (Cons b bs)
  obtain attrs ns where b: "b = (attrs, ns)" by (cases b)
  show ?case
  proof (cases "ns = []")
    case True
    then obtain enc at sent rest old bs2 where "taken L q ap m bs enc at sent rest old bs2"
      using Cons.IH Cons.prems b by auto
    then have "taken L q ap m (b # bs) enc at sent rest (b # old) bs2" using b True by (auto simp: taken_def)
    then show ?thesis by blast
  next
    case False
    obtain enc where enc: "bgp_encode_attrs L q attrs (int m - 1024) = Inr (Some enc)" using Cons.prems b False by auto
    have "int (length enc) \<le> int m - 1024" using bgp_lib_ok.encode_attrs_fit [OF assms(1) enc] assms(2) by simp
    then have room: "9 \<le> m - length enc" using assms(2) by linarith
    obtain w rest where w: "bgp_encode_prefixes (bl_net L) ap (m - length enc) ns = (w, rest)"
      by (cases "bgp_encode_prefixes (bl_net L) ap (m - length enc) ns")
    obtain sent where sent: "ns = sent @ rest" "w = concat (map (put_prefix (bl_net L) ap) sent)" using encode_split [OF w] by blast
    have "w \<noteq> []" using encode_some [OF room False, of "bl_net L" ap] w by simp
    then have "sent \<noteq> []" using sent(2) by auto
    moreover have "length w \<le> m - length enc"
      using encoded_length [OF _ w] assms(1) by (simp add: bgp_lib_ok_def)
    ultimately have "taken L q ap m (b # bs) enc attrs sent rest [] bs" using b False enc w sent by (simp add: taken_def)
    then show ?thesis by blast
  qed
qed simp

section \<open>The neighbor\<close>

lemma moved_withdrawals:
  assumes "queue_ok t" "tx_withdraw t = sent @ wd"
  shows "queue_ok (t\<lparr>tx_withdraw := wd\<rparr>)" "wanted enc (t\<lparr>tx_withdraw := wd\<rparr>) (apply_update enc (Withdrawn_routes sent) peer) = wanted enc t peer"
proof -
  have d: "set sent \<inter> set wd = {}" "set sent \<inter> set (concat (map snd (tx_buckets t))) = {}"
    using assms by (auto simp: queue_ok_def)
  show "queue_ok (t\<lparr>tx_withdraw := wd\<rparr>)" using assms by (auto simp: queue_ok_def)
  show "wanted enc (t\<lparr>tx_withdraw := wd\<rparr>) (apply_update enc (Withdrawn_routes sent) peer) = wanted enc t peer"
  proof (rule ext)
    fix n show "wanted enc (t\<lparr>tx_withdraw := wd\<rparr>) (apply_update enc (Withdrawn_routes sent) peer) n = wanted enc t peer n"
    proof (cases "n \<in> set sent")
      case True
      then have "n \<notin> set wd" "bucket_of n (tx_buckets t) = None" using d unfolding bucket_of_None by blast+
      then show ?thesis using True assms(2) by (simp add: wanted_def queued_def)
    qed (use assms(2) in \<open>simp add: wanted_def queued_def\<close>)
  qed
qed

lemma moved_routes:
  assumes "queue_ok t" "tx_buckets t = old @ (attrs, sent @ rest) # bs" "concat (map snd old) = []"
  shows "queue_ok (t\<lparr>tx_buckets := (attrs, rest) # bs\<rparr>)"
    "wanted enc (t\<lparr>tx_buckets := (attrs, rest) # bs\<rparr>) (apply_update enc (Announced attrs sent) peer) = wanted enc t peer"
proof -
  have d: "set sent \<inter> set rest = {}" "set sent \<inter> set (concat (map snd bs)) = {}" "set (tx_withdraw t) \<inter> set sent = {}"
    using assms by (auto simp: queue_ok_def)
  show "queue_ok (t\<lparr>tx_buckets := (attrs, rest) # bs\<rparr>)" using assms by (auto simp: queue_ok_def)
  have old: "bucket_of n old = None" for n using assms(3) unfolding bucket_of_None by simp
  show "wanted enc (t\<lparr>tx_buckets := (attrs, rest) # bs\<rparr>) (apply_update enc (Announced attrs sent) peer) = wanted enc t peer"
  proof (rule ext)
    fix n show "wanted enc (t\<lparr>tx_buckets := (attrs, rest) # bs\<rparr>) (apply_update enc (Announced attrs sent) peer) n = wanted enc t peer n"
    proof (cases "n \<in> set sent")
      case True
      then have "n \<notin> set rest" "n \<notin> set (tx_withdraw t)" "bucket_of n bs = None" using d unfolding bucket_of_None by blast+
      then show ?thesis using True assms(2) old by (simp add: wanted_def queued_def bucket_of_append)
    qed (use assms(2) old in \<open>simp add: wanted_def queued_def bucket_of_append\<close>)
  qed
qed

text \<open>An UPDATE moves what it says from the queue to the neighbor.\<close>

definition moved :: "bgp_lib \<Rightarrow> bgp_proto \<Rightarrow> bool \<Rightarrow> bool \<Rightarrow> bgp_tx \<Rightarrow> u8 list \<Rightarrow> bgp_tx \<Rightarrow> u8 list \<Rightarrow> update \<Rightarrow> bool" where
  "moved L q ext ap t body t' e m \<longleftrightarrow> body = update_bytes (bl_net L) ap e m \<and>
     (\<forall>a ns. m = Announced a ns \<longrightarrow> encoded L q ext a = Some e \<and> e \<noteq> []) \<and>
     update_nlri m \<subseteq> all_nlri t \<and> all_nlri t' \<subseteq> all_nlri t \<and> queue_ok t'"

lemma create_update_moves:
  assumes "bgp_lib_ok L" "queue_ok t" "fit L q ext (tx_buckets t)"
    and "bgp_create_update L q ext ap (tx_withdraw t) (tx_buckets t) = Inr (Some body, wd, bs)"
  obtains m e where "moved L q ext ap t body (t\<lparr>tx_withdraw := wd, tx_buckets := bs\<rparr>) e m"
    "\<And>enc peer. wanted enc (t\<lparr>tx_withdraw := wd, tx_buckets := bs\<rparr>) (apply_update enc m peer) = (wanted enc t peer :: nlri \<Rightarrow> 'r option)"
proof -
  let ?m = "update_room ext"
  note create = assms(4) [unfolded bgp_create_update_def Let_def update_room_def [symmetric]]
  show ?thesis
  proof (cases "tx_withdraw t = []")
    case False
    obtain w rest where w: "bgp_encode_prefixes (bl_net L) ap ?m (tx_withdraw t) = (w, rest)"
      by (cases "bgp_encode_prefixes (bl_net L) ap ?m (tx_withdraw t)")
    then have "w \<noteq> []" using encode_some [of ?m "tx_withdraw t" "bl_net L" ap] room(1) [of ext] False by simp
    then have r: "body = put_u16 (bl_net L) (of_nat (length w)) @ w @ put_u16 (bl_net L) 0" "wd = rest" "bs = tx_buckets t"
      using create w False by simp_all
    obtain sent where sent: "tx_withdraw t = sent @ rest" "w = concat (map (put_prefix (bl_net L) ap) sent)" using encode_split [OF w] by blast
    have t: "t\<lparr>tx_withdraw := wd, tx_buckets := bs\<rparr> = t\<lparr>tx_withdraw := rest\<rparr>" using r by simp
    show ?thesis
    proof (rule that [of "[]" "Withdrawn_routes sent"])
      show "moved L q ext ap t body (t\<lparr>tx_withdraw := wd, tx_buckets := bs\<rparr>) [] (Withdrawn_routes sent)"
        unfolding moved_def t using r(1) sent moved_withdrawals(1) [OF assms(2) sent(1)] by (auto simp: Let_def all_nlri_def)
    qed (unfold t, rule moved_withdrawals(2) [OF assms(2) sent(1)])
  next
    case True
    have enc: "\<forall>b \<in> set (tx_buckets t). snd b \<noteq> [] \<longrightarrow> (\<exists>a. bgp_encode_attrs L q (fst b) (int ?m - 1024) = Inr (Some a))"
      by (rule fitD [OF assms(3)])
    have "concat (map snd (tx_buckets t)) \<noteq> []"
    proof
      assume "concat (map snd (tx_buckets t)) = []"
      from no_bucket [OF this, of L q ap ?m] show False using create True by simp
    qed
    then obtain e attrs sent rest old bs2 where tk: "taken L q ap ?m (tx_buckets t) e attrs sent rest old bs2"
      using one_bucket [OF assms(1) room(1) enc] by blast
    note u = takenD [OF tk]
    have r: "body = update_bytes (bl_net L) ap e (Announced attrs sent)" "wd = tx_withdraw t" "bs = (attrs, rest) # bs2"
      using create True u(1,2) by (auto split: if_splits)
    have t: "t\<lparr>tx_withdraw := wd, tx_buckets := bs\<rparr> = t\<lparr>tx_buckets := (attrs, rest) # bs2\<rparr>" using r by simp
    have "(attrs, sent @ rest) \<in> set (tx_buckets t)" using u(3) by simp
    then have e: "encoded L q ext attrs = Some e \<and> e \<noteq> []"
      using assms(3) u(2,5) unfolding fit_def by (fastforce simp: encoded_def)
    show ?thesis
    proof (rule that [of e "Announced attrs sent"])
      show "moved L q ext ap t body (t\<lparr>tx_withdraw := wd, tx_buckets := bs\<rparr>) e (Announced attrs sent)"
        unfolding moved_def t using r(1) e u(3) moved_routes(1) [OF assms(2) u(3,4)] by (auto simp: all_nlri_def)
    qed (unfold t, rule moved_routes(2) [OF assms(2) u(3,4)])
  qed
qed

text \<open>When there is nothing to send, the queue is empty.\<close>

lemma create_update_none:
  assumes "bgp_lib_ok L" "fit L q ext (tx_buckets t)"
    and "bgp_create_update L q ext ap (tx_withdraw t) (tx_buckets t) = Inr (None, wd, bs)"
  shows "queued t n = None"
proof -
  let ?m = "update_room ext"
  note create = assms(3) [unfolded bgp_create_update_def Let_def update_room_def [symmetric]]
  have wd: "tx_withdraw t = []"
  proof (rule ccontr)
    assume "tx_withdraw t \<noteq> []"
    then show False using create encode_some [of ?m "tx_withdraw t" "bl_net L" ap] room(1) [of ext]
      by (auto split: prod.splits if_splits)
  qed
  have enc: "\<forall>b \<in> set (tx_buckets t). snd b \<noteq> [] \<longrightarrow> (\<exists>a. bgp_encode_attrs L q (fst b) (int ?m - 1024) = Inr (Some a))"
    by (rule fitD [OF assms(2)])
  have "concat (map snd (tx_buckets t)) = []"
  proof (rule ccontr)
    assume "concat (map snd (tx_buckets t)) \<noteq> []"
    then obtain e attrs sent rest old bs2 where tk: "taken L q ap ?m (tx_buckets t) e attrs sent rest old bs2"
      using one_bucket [OF assms(1) room(1) enc] by blast
    have "concat (map (put_prefix (bl_net L) ap) sent) \<noteq> []" using takenD(2) [OF tk] by (cases sent) (auto simp: put_prefix_def split: prod.splits)
    then show False using create wd takenD(1) [OF tk] by (auto split: if_splits)
  qed
  then show ?thesis using wd bucket_of_None [of n "tx_buckets t"] by (simp add: queued_def)
qed

section \<open>Bytes\<close>

lemma create_update_length:
  assumes "bgp_lib_ok L" "fit L q ext bs" "bgp_create_update L q ext ap wd bs = Inr (Some body, wd', bs')"
  shows "BGP_HEADER_LENGTH + length body \<le> bgp_max_packet_length ext"
proof -
  let ?m = "update_room ext"
  note create = assms(3) [unfolded bgp_create_update_def Let_def update_room_def [symmetric]]
  have net: "unaligned_access (bl_net L)" using assms(1) by (simp add: bgp_lib_ok_def)
  note len = encoded_length [OF net] bgp_lib_ok.net_lengths [OF assms(1)]
  have rm: "BGP_HEADER_LENGTH + 4 + ?m = bgp_max_packet_length ext" using room(2) [of ext] by (simp add: BGP_HEADER_LENGTH_def)
  obtain w rest where w: "(if wd \<noteq> [] then bgp_encode_prefixes (bl_net L) ap ?m wd else ([], wd)) = (w, rest)"
    by (cases "if wd \<noteq> [] then bgp_encode_prefixes (bl_net L) ap ?m wd else ([], wd)")
  show ?thesis
  proof (cases "w = []")
    case False
    then have "length w \<le> ?m" using w len(1) by (auto split: if_splits)
    then show ?thesis using False create w len(2) rm by auto
  next
    case True
    have "concat (map snd bs) \<noteq> []"
    proof
      assume "concat (map snd bs) = []"
      from no_bucket [OF this, of L q ap ?m] show False using create w True by simp
    qed
    then obtain e attrs sent rest' old bs2 where tk: "taken L q ap ?m bs e attrs sent rest' old bs2"
      using one_bucket [OF assms(1) room(1) fitD [OF assms(2)]] by blast
    note u = takenD [OF tk]
    have "(attrs, sent @ rest') \<in> set bs" using u(3) by simp
    then have e: "e \<noteq> []" using assms(2) u(2,5) unfolding fit_def by (fastforce simp: encoded_def)
    have "int (length e) \<le> int ?m - 1024" using bgp_lib_ok.encode_attrs_fit [OF assms(1) u(5)] room(1) [of ext] by simp
    then show ?thesis using True create w u(1,6) len(2) rm e by (auto split: if_splits)
  qed
qed

section \<open>The receiver\<close>

text \<open>
  The routes of a neighbor that runs the same code: it takes an UPDATE apart and replaces or removes the
  routes of its prefixes; a route is its encoded attributes.
\<close>

definition receive_update :: "unaligned \<Rightarrow> u32 ip_ops \<Rightarrow> bool \<Rightarrow> u8 list \<Rightarrow> (nlri \<Rightarrow> u8 list option) \<Rightarrow> nlri \<Rightarrow> u8 list option" where
  "receive_update U I ap pkt peer =
     (case split_update U pkt of
        Inr (Some (wd, attrs, routes)) \<Rightarrow>
          (\<lambda>n. if n \<in> set (fst (decode_prefixes U I ap routes)) then Some attrs
               else if n \<in> set (fst (decode_prefixes U I ap wd)) then None else peer n)
      | _ \<Rightarrow> peer)"

lemma get16: "n < 65536 \<Longrightarrow> unat (get_u16 network_order (put_u16 network_order (of_nat n))) = n"
  by (simp add: net.get_put_u16 unat_of_nat)

lemma split_body:
  assumes "length hdr = 19" "length w < 65536" "length a < 65536" "a \<noteq> [] \<or> r = []"
  shows "split_update network_order (hdr @ put_u16 network_order (of_nat (length w)) @ w @ put_u16 network_order (of_nat (length a)) @ a @ r) =
    Inr (Some (w, a, r))"
proof -
  let ?w = "put_u16 network_order (of_nat (length w))" and ?a = "put_u16 network_order (of_nat (length a))"
  let ?pkt = "hdr @ ?w @ w @ ?a @ a @ r"
  have l: "length ?w = 2" "length ?a = 2" by simp_all
  have d: "drop 19 ?pkt = ?w @ w @ ?a @ a @ r" "drop (21 + length w) ?pkt = ?a @ a @ r" "drop 21 ?pkt = w @ ?a @ a @ r"
      "drop (23 + length w) ?pkt = a @ r" "drop (23 + length w + length a) ?pkt = r"
    using assms(1) l by simp_all
  have g: "rd_u16 network_order (?w @ w @ ?a @ a @ r) = Inr (of_nat (length w))" "rd_u16 network_order (?a @ a @ r) = Inr (of_nat (length a))"
    by (simp_all only: net.rd_u16_put)
  have n: "unat (of_nat (length w) :: u16) = length w" "unat (of_nat (length a) :: u16) = length a"
    using assms(2,3) by (simp_all add: unat_of_nat)
  show ?thesis unfolding split_update_def Let_def d(1) g(1) rbind_simps n(1)
    using assms(1,4) l by (simp add: d g n del: append_assoc)
qed

lemma decode_nil: "decode_prefixes U I ap [] = ([], 0)"
  by (simp add: decode_prefixes.simps)

lemma receive_bytes:
  assumes "length hdr = 19" "length (update_bytes network_order ap e m) < 65536" "\<forall>n \<in> update_nlri m. nlri_ok ap n"
    and "\<forall>a ns. m = Announced a ns \<longrightarrow> enc a = Some e \<and> e \<noteq> []"
  shows "receive_update network_order ip4_ops ap (hdr @ update_bytes network_order ap e m) peer = apply_update enc m peer"
proof (cases m)
  case (Withdrawn_routes ns)
  let ?w = "concat (map (put_prefix network_order ap) ns)"
  have "update_bytes network_order ap e m = put_u16 network_order (of_nat (length ?w)) @ ?w @ put_u16 network_order (of_nat (length [])) @ [] @ []"
    using Withdrawn_routes by (simp add: Let_def)
  moreover from this have "length ?w < 65536" using assms(2) by simp
  ultimately have "split_update network_order (hdr @ update_bytes network_order ap e m) = Inr (Some (?w, [], []))"
    using split_body [OF assms(1), of ?w "[]" "[]"] by simp
  then show ?thesis using Withdrawn_routes assms(3) by (simp add: receive_update_def decode_all decode_nil)
next
  case (Announced a ns)
  let ?r = "concat (map (put_prefix network_order ap) ns)"
  have e: "enc a = Some e" "e \<noteq> []" using assms(4) Announced by simp_all
  then have "update_bytes network_order ap e m =
      put_u16 network_order (of_nat (length [])) @ [] @ put_u16 network_order (of_nat (length e)) @ e @ ?r"
    using Announced by simp
  moreover from this have "length e < 65536" using assms(2) by simp
  ultimately have "split_update network_order (hdr @ update_bytes network_order ap e m) = Inr (Some ([], e, ?r))"
    using split_body [OF assms(1), of "[]" e ?r] e(2) by simp
  then show ?thesis using Announced assms(3) e by (auto simp: receive_update_def decode_all decode_nil fun_eq_iff)
qed

section \<open>A sender and a receiver\<close>

definition send_ready :: "bgp_lib \<Rightarrow> bgp \<Rightarrow> bool" where
  "send_ready L p \<longleftrightarrow> fit L (b_p p) (ng_ext_messages (b_neg p)) (tx_buckets (b_tx p))"

text \<open>
  The queue of a session, the routes that the neighbor has, and those that the last notifications for each
  prefix said it should have.
\<close>

inductive transfer :: "bgp_lib \<Rightarrow> bgp \<Rightarrow> (nlri \<Rightarrow> u8 list option) \<Rightarrow> (nlri \<Rightarrow> u8 list option) \<Rightarrow> bool" for L where
  Up: "tx_withdraw (b_tx p) = [] \<Longrightarrow> tx_buckets (b_tx p) = [] \<Longrightarrow> transfer L p (\<lambda>_. None) (\<lambda>_. None)"
| Withdraw: "transfer L p peer routes \<Longrightarrow> nlri_ok (ng_add_path_tx (b_neg p)) (nlri_of p px len gid) \<Longrightarrow>
    bgp_rt_notify L px len gid None p = Inr q \<Longrightarrow> transfer L q peer (routes(nlri_of p px len gid := None))"
| Route: "transfer L p peer routes \<Longrightarrow> nlri_ok (ng_add_path_tx (b_neg p)) (nlri_of p px len gid) \<Longrightarrow>
    bgp_rt_notify L px len gid (Some (attrs, og)) p = Inr q \<Longrightarrow>
    bgp_get_bucket L (b_p p) attrs og (tx_buckets (b_tx p)) = Inr (Some (l, bs)) \<Longrightarrow>
    transfer L q peer (routes(nlri_of p px len gid := encoded L (b_p p) (ng_ext_messages (b_neg p)) l))"
| Send: "transfer L p peer routes \<Longrightarrow> send_ready L p \<Longrightarrow>
    bgp_create_update L (b_p p) (ng_ext_messages (b_neg p)) (ng_add_path_tx (b_neg p)) (tx_withdraw (b_tx p)) (tx_buckets (b_tx p)) =
      Inr (Some body, wd, bs) \<Longrightarrow>
    transfer L (p\<lparr>b_tx := (b_tx p)\<lparr>tx_withdraw := wd, tx_buckets := bs\<rparr>\<rparr>)
      (receive_update (bl_net L) ip4_ops (ng_add_path_tx (b_neg p))
        (bgp_create_header (bl_net L) (BGP_HEADER_LENGTH + length body) (of_nat PKT_UPDATE) @ body) peer) routes"

definition peer_enc :: "bgp_lib \<Rightarrow> bgp \<Rightarrow> eattr list \<Rightarrow> u8 list option" where
  "peer_enc L p = encoded L (b_p p) (ng_ext_messages (b_neg p))"

definition in_step :: "bgp_lib \<Rightarrow> bgp \<Rightarrow> (nlri \<Rightarrow> u8 list option) \<Rightarrow> (nlri \<Rightarrow> u8 list option) \<Rightarrow> bool" where
  "in_step L p peer routes \<longleftrightarrow> queue_ok (b_tx p) \<and> (\<forall>n \<in> all_nlri (b_tx p). nlri_ok (ng_add_path_tx (b_neg p)) n) \<and>
     wanted (peer_enc L p) (b_tx p) peer = routes"

lemma notify_same:
  assumes "bgp_rt_notify L px len gid new p = Inr q"
  shows "b_p q = b_p p \<and> b_neg q = b_neg p"
proof -
  have put: "b_p q = b_p p \<and> b_neg q = b_neg p"
    if "(case b_conn p of None \<Rightarrow> Inl Out_of_bounds | Some s \<Rightarrow> Inr (bgp_schedule_packet s PKT_UPDATE (p\<lparr>b_tx := t\<rparr>))) = Inr q" for t
    using that by (auto simp: bgp_schedule_packet_eq split: option.splits)
  show ?thesis
  proof (cases new)
    case None
    then show ?thesis using assms by (intro put) (simp add: bgp_rt_notify_def Let_def split: if_splits)
  next
    case (Some a)
    obtain r where r: "bgp_get_bucket L (b_p p) (fst a) (snd a) (tx_buckets (b_tx p)) = Inr r"
      using assms Some by (cases a) (auto simp: bgp_rt_notify_def Let_def rbind_Inr_iff split: if_splits)
    show ?thesis
    proof (cases r)
      case None
      then show ?thesis using assms Some r by (cases a) (simp add: bgp_rt_notify_def Let_def split: if_splits)
    next
      case r': (Some lb)
      show ?thesis using assms Some r r' by (cases a; cases lb; intro put) (simp add: bgp_rt_notify_def Let_def split: if_splits)
    qed
  qed
qed

lemma queued_all: "n \<in> all_nlri t \<longleftrightarrow> queued t n \<noteq> None"
  using bucket_of_None [of n "tx_buckets t"] by (auto simp: all_nlri_def queued_def)

lemma notify_step:
  assumes "in_step L p peer routes" "nlri_ok (ng_add_path_tx (b_neg p)) n" "bgp_rt_notify L px len gid new p = Inr q"
    "queue_ok (b_tx q) \<and> queued (b_tx q) = (queued (b_tx p))(n \<mapsto> r)"
  shows "in_step L q peer (routes(n := (case r of None \<Rightarrow> None | Some a \<Rightarrow> peer_enc L p a)))"
proof -
  have same: "b_p q = b_p p" "b_neg q = b_neg p" using notify_same [OF assms(3)] by simp_all
  have "all_nlri (b_tx q) \<subseteq> insert n (all_nlri (b_tx p))" using assms(4) by (auto simp: queued_all split: if_splits)
  then show ?thesis using assms(1,2,4) wanted_upd [of "b_tx q" "b_tx p" n r "peer_enc L p" peer]
    unfolding in_step_def peer_enc_def same by blast
qed

lemma send_step:
  assumes "bgp_lib_ok L" "bl_net L = network_order" "in_step L p peer routes" "send_ready L p"
    and "bgp_create_update L (b_p p) (ng_ext_messages (b_neg p)) (ng_add_path_tx (b_neg p)) (tx_withdraw (b_tx p)) (tx_buckets (b_tx p)) =
      Inr (Some body, wd, bs)"
  shows "in_step L (p\<lparr>b_tx := (b_tx p)\<lparr>tx_withdraw := wd, tx_buckets := bs\<rparr>\<rparr>)
      (receive_update (bl_net L) ip4_ops (ng_add_path_tx (b_neg p))
        (bgp_create_header (bl_net L) (BGP_HEADER_LENGTH + length body) (of_nat PKT_UPDATE) @ body) peer) routes"
proof -
  let ?ap = "ng_add_path_tx (b_neg p)" and ?t = "b_tx p"
  let ?t' = "?t\<lparr>tx_withdraw := wd, tx_buckets := bs\<rparr>"
  have q: "queue_ok ?t" "\<forall>n \<in> all_nlri ?t. nlri_ok ?ap n" "wanted (peer_enc L p) ?t peer = routes"
    using assms(3) by (simp_all add: in_step_def)
  have rdy: "fit L (b_p p) (ng_ext_messages (b_neg p)) (tx_buckets ?t)" using assms(4) by (simp add: send_ready_def)
  obtain m e where m: "moved L (b_p p) (ng_ext_messages (b_neg p)) ?ap ?t body ?t' e m"
      "\<And>enc peer. wanted enc ?t' (apply_update enc m peer) = (wanted enc ?t peer :: nlri \<Rightarrow> u8 list option)"
    by (rule create_update_moves [OF assms(1) q(1) rdy assms(5)]) (rule that; assumption)
  have b: "body = update_bytes network_order ?ap e m" "\<forall>a ns. m = Announced a ns \<longrightarrow> peer_enc L p a = Some e \<and> e \<noteq> []"
      "update_nlri m \<subseteq> all_nlri ?t" "all_nlri ?t' \<subseteq> all_nlri ?t" "queue_ok ?t'"
    using m(1) assms(2) by (simp_all add: moved_def peer_enc_def)
  have "length body < 65536"
    using create_update_length [OF assms(1) rdy assms(5)] room(3) [of "ng_ext_messages (b_neg p)"] room(2) [of "ng_ext_messages (b_neg p)"]
    by (simp add: BGP_HEADER_LENGTH_def)
  then have "receive_update network_order ip4_ops ?ap (hdr @ body) peer = apply_update (peer_enc L p) m peer" if "length hdr = 19" for hdr
    using receive_bytes [OF that, of ?ap e m "peer_enc L p" peer] b(1-3) q(2) by auto
  moreover have "length (bgp_create_header network_order (BGP_HEADER_LENGTH + length body) (of_nat PKT_UPDATE)) = 19"
    by (simp add: bgp_create_header_def)
  ultimately show ?thesis using b(4,5) q m(2) assms(2) by (auto simp: in_step_def peer_enc_def)
qed

lemma transfer_in_step:
  "transfer L p peer routes \<Longrightarrow> bgp_lib_ok L \<Longrightarrow> bl_net L = network_order \<Longrightarrow> in_step L p peer routes"
proof (induction rule: transfer.induct)
  case (Up p)
  then show ?case by (simp add: in_step_def queue_ok_def all_nlri_def wanted_def queued_def fun_eq_iff)
next
  case (Withdraw p peer routes px len gid q)
  have "queue_ok (b_tx p)" using Withdraw by (simp add: in_step_def)
  from notify_step [OF _ Withdraw(2,3) rt_notify_withdraw [OF this Withdraw(3)], of peer routes] Withdraw
  show ?case unfolding option.case by blast
next
  case (Route p peer routes px len gid attrs og q l bs)
  have "queue_ok (b_tx p)" using Route by (simp add: in_step_def)
  from notify_step [OF _ Route(2,3) rt_notify_route [OF this Route(3,4)], of peer routes] Route
  show ?case unfolding option.case peer_enc_def by blast
next
  case (Send p peer routes body wd bs)
  then show ?case by (intro send_step) simp_all
qed

section \<open>An example\<close>

definition sample_key :: nlri where "sample_key = (0, 0x0a010000, 16)"

definition sample_sender :: bgp where
  "sample_sender = sample_up\<lparr>b_p := sample_proto\<lparr>bp_cf := sample_cf\<lparr>cf_remote_ip := 0x0a000009\<rparr>\<rparr>\<rparr>"

lemma sample_ids: "EA_PROTO (EA_CODE EAP_BGP c) = EAP_BGP" "EA_ID (EA_CODE EAP_BGP c) = c" if "c \<in> {BA_ORIGIN, BA_AS_PATH, BA_NEXT_HOP}"
  using that by (auto simp: EA_PROTO_def EA_ID_def EA_CODE_def EAP_BGP_def ba_defs)

lemma sample_types: "EAF_TYPE_INT AND EAF_TYPE_MASK = EAF_TYPE_INT" "EAF_TYPE_AS_PATH AND EAF_TYPE_MASK = EAF_TYPE_AS_PATH"
  "EAF_TYPE_IP_ADDRESS AND EAF_TYPE_MASK = EAF_TYPE_IP_ADDRESS" "EAF_TYPE_INT AND EAF_ORIGINATED = 0"
  "EAF_TYPE_AS_PATH AND EAF_ORIGINATED = 0" "EAF_TYPE_IP_ADDRESS AND EAF_ORIGINATED = 0"
  "BAF_TRANSITIVE AND BAF_PARTIAL OR BAF_TRANSITIVE = BAF_TRANSITIVE"
  by (simp_all add: EAF_TYPE_INT_def EAF_TYPE_MASK_def EAF_TYPE_AS_PATH_def EAF_TYPE_IP_ADDRESS_def EAF_ORIGINATED_def BAF_TRANSITIVE_def BAF_PARTIAL_def)

lemma sample_kinds: "EAF_TYPE_INT \<noteq> EAF_TYPE_INT_SET" "EAF_TYPE_INT \<noteq> EAF_TYPE_EC_SET" "EAF_TYPE_INT \<noteq> EAF_TYPE_LC_SET"
 "EAF_TYPE_AS_PATH \<noteq> EAF_TYPE_INT_SET" "EAF_TYPE_AS_PATH \<noteq> EAF_TYPE_EC_SET" "EAF_TYPE_AS_PATH \<noteq> EAF_TYPE_LC_SET"
 "EAF_TYPE_IP_ADDRESS \<noteq> EAF_TYPE_INT_SET" "EAF_TYPE_IP_ADDRESS \<noteq> EAF_TYPE_EC_SET" "EAF_TYPE_IP_ADDRESS \<noteq> EAF_TYPE_LC_SET"
  by (simp_all add: EAF_TYPE_INT_def EAF_TYPE_AS_PATH_def EAF_TYPE_IP_ADDRESS_def EAF_TYPE_INT_SET_def EAF_TYPE_EC_SET_def EAF_TYPE_LC_SET_def)

lemma sample_one: "normal_attr H p True \<lparr>ea_id = EA_CODE EAP_BGP BA_ORIGIN, ea_flags = BAF_TRANSITIVE, ea_type = EAF_TYPE_INT, ea_u = v\<rparr> =
  Inr (Some \<lparr>ea_id = EA_CODE EAP_BGP BA_ORIGIN, ea_flags = BAF_TRANSITIVE, ea_type = EAF_TYPE_INT, ea_u = v\<rparr>)"
  "normal_attr H p True \<lparr>ea_id = EA_CODE EAP_BGP BA_AS_PATH, ea_flags = BAF_TRANSITIVE, ea_type = EAF_TYPE_AS_PATH, ea_u = v\<rparr> =
  Inr (Some \<lparr>ea_id = EA_CODE EAP_BGP BA_AS_PATH, ea_flags = BAF_TRANSITIVE, ea_type = EAF_TYPE_AS_PATH, ea_u = v\<rparr>)"
  "normal_attr H p True \<lparr>ea_id = EA_CODE EAP_BGP BA_NEXT_HOP, ea_flags = BAF_TRANSITIVE, ea_type = EAF_TYPE_IP_ADDRESS, ea_u = v\<rparr> =
  Inr (Some \<lparr>ea_id = EA_CODE EAP_BGP BA_NEXT_HOP, ea_flags = BAF_TRANSITIVE, ea_type = EAF_TYPE_IP_ADDRESS, ea_u = v\<rparr>)"
  by (simp_all add: normal_attr_def normal_value_def Let_def sample_ids sample_types sample_kinds ba_neq)
lemma sample_merge:
  "ea_sort (ea_merge [\<lparr>eal_flags = 0, eal_attrs = map snd sample_attrs\<rparr>]) =
     [\<lparr>eal_flags = EALF_SORTED, eal_attrs = map snd sample_attrs\<rparr>]"
  by (simp add: ea_merge_def ea_do_sort_stable ea_do_prune.simps Let_def sample_attrs_def EA_CODE_def EAP_BGP_def ba_defs
      EALF_SORTED_def EALF_BISECT_def is_undef_def EAF_TYPE_INT_def EAF_TYPE_AS_PATH_def EAF_TYPE_IP_ADDRESS_def
      EAF_TYPE_MASK_def EAF_TYPE_UNDEF_def EAF_ORIGINATED_def)

lemma sample_bucket:
  "bgp_get_bucket network_lib (b_p sample_sender) [\<lparr>eal_flags = 0, eal_attrs = map snd sample_attrs\<rparr>] True [] =
     Inr (Some (map snd sample_attrs, [(map snd sample_attrs, [])]))"
proof -
  have n: "normal_attrs network_order (b_p sample_sender) True (map snd sample_attrs) = Inr (map snd sample_attrs)"
    by (simp add: sample_attrs_def sample_one)
  have seen: "list_all (\<lambda>c. \<exists>a \<in> set (map snd sample_attrs). ea_id a = EA_CODE EAP_BGP c) bgp_mandatory_attrs"
    by (simp add: bgp_mandatory_attrs_def sample_attrs_def)
  have nh: "ea_find_bgp [\<lparr>eal_flags = EALF_SORTED, eal_attrs = map snd sample_attrs\<rparr>] BA_NEXT_HOP = Some (snd (sample_attrs ! 2))"
    by (simp add: ea_find_bgp_def ea_find_def sample_attrs_def bisect_def EA_CODE_MASK_def EA_ALLOW_UNDEF_def EA_CODE_def EAP_BGP_def
        ba_defs EALF_SORTED_def EALF_BISECT_def is_undef_def EAF_TYPE_IP_ADDRESS_def EAF_TYPE_MASK_def EAF_TYPE_UNDEF_def)
  show ?thesis using seen unfolding bgp_get_bucket_def sample_merge list.case Let_def
    by (simp add: network_lib_def n nh) (simp add: sample_attrs_def u_ptr_def rd_u32_def net.get_put_u32 sample_sender_def)
qed

lemma sample_encoded: "encoded network_lib (b_p sample_sender) False (map snd sample_attrs) = Some (attr_block network_lib sample_attrs)"
proof -
  have ok: "list_all (\<lambda>(code, a). attr_ok network_lib code a) sample_attrs" using sample_attrs_ok by (auto simp: list_all_iff)
  have "length (attr_block network_lib sample_attrs) \<le> 90" "length sample_attrs = 3"
    by (simp_all add: attr_block_def sample_attrs_def encoded_attr_def netlib.length_hdr wire_value_def ba_neq)
  then have "int (length (attr_block network_lib sample_attrs)) + int (length sample_attrs) \<le> int (update_room False) - 1024"
    by (simp add: update_room_def bgp_max_packet_length_def BGP_MAX_MESSAGE_LENGTH_def BGP_HEADER_LENGTH_def)
  moreover have "bp_as4_session (b_p sample_sender)" by (simp add: sample_sender_def sample_proto_def)
  ultimately show ?thesis unfolding encoded_def by (subst netlib.encode_attrs_ok [OF ok]) simp_all
qed

definition sample_queue :: "nlri list \<Rightarrow> bgp" where
  "sample_queue ns = bgp_schedule_packet Outgoing PKT_UPDATE
     (sample_sender\<lparr>b_tx := \<lparr>tx_tables = True, tx_withdraw = [], tx_buckets = [(map snd sample_attrs, ns)]\<rparr>\<rparr>)"

lemma sample_queue_simps [simp]:
  "b_tx (sample_queue ns) = \<lparr>tx_tables = True, tx_withdraw = [], tx_buckets = [(map snd sample_attrs, ns)]\<rparr>"
  "b_p (sample_queue ns) = b_p sample_sender" "b_neg (sample_queue ns) = b_neg sample_sender"
  "b_tx sample_sender = \<lparr>tx_tables = True, tx_withdraw = [], tx_buckets = []\<rparr>" "b_conn sample_sender = Some Outgoing"
  "\<not> ng_add_path_tx (b_neg sample_sender)" "\<not> ng_ext_messages (b_neg sample_sender)"
  by (simp_all add: sample_queue_def bgp_schedule_packet_eq sample_sender_def sample_up_def sample_waiting_def blank_bgp_def)

lemma sample_nlri: "nlri_of sample_sender 0x0a010000 16 0 = sample_key" "nlri_ok False sample_key"
  by (simp_all add: nlri_of_def sample_key_def nlri_ok_def mask_eq_exp_minus_1)

lemma sample_notify:
  "bgp_rt_notify network_lib 0x0a010000 16 0 (Some ([\<lparr>eal_flags = 0, eal_attrs = map snd sample_attrs\<rparr>], True)) sample_sender =
     Inr (sample_queue [sample_key])"
  by (simp add: bgp_rt_notify_def Let_def sample_bucket remove_prefix_def sample_queue_def) (simp add: sample_key_def)

lemma sample_create:
  "\<exists>body. bgp_create_update network_lib (b_p sample_sender) False False [] [(map snd sample_attrs, [sample_key])] =
     Inr (Some body, [], [(map snd sample_attrs, [])])"
proof -
  have "length (attr_block network_lib sample_attrs) \<le> 90"
    by (simp add: attr_block_def sample_attrs_def encoded_attr_def netlib.length_hdr wire_value_def ba_neq)
  then have "\<not> update_room False - length (attr_block network_lib sample_attrs) < 5 + 4"
    by (simp add: update_room_def bgp_max_packet_length_def BGP_MAX_MESSAGE_LENGTH_def BGP_HEADER_LENGTH_def)
  then show ?thesis using encodedD [OF sample_encoded]
    unfolding bgp_create_update_def Let_def update_room_def [symmetric] by (simp add: put_prefix_def sample_key_def)
qed

section \<open>Properties\<close>





end
