(* ===== verification/BgpHandlers.thy ===== *)
theory BgpHandlers
  imports BgpSafe
begin

text \<open>
  The handlers of timers, sockets, neighbors and the start and stop of an instance: each runs from a proper
  state of a session into a proper one.
\<close>

section \<open>The invariant under the handlers\<close>

abbreviation sess :: "bgp \<Rightarrow> bool" where "sess \<equiv> sound {}"
abbreviation settles :: "bgp \<Rightarrow> bool" where "settles \<equiv> bgp_core.settling"

lemma settles_iff: "settles p \<longleftrightarrow> core_ok p \<and> sess_ok p \<and> (p_fell p \<longrightarrow> proto_state p = PS_DOWN \<and> core_state p = FS_HUNGRY)"
  by (simp add: bgp_core.settling_def)

lemma sess_settles: "sess p \<Longrightarrow> settles p"
  by (simp add: bgp_healthy [symmetric] bgp_core.settling_healthy)

lemma sess_parts: "sess p \<Longrightarrow> base {} p" "sess p \<Longrightarrow> phase p" "sess p \<Longrightarrow> fine p"
  by (simp_all add: sound_def)

lemma sess_conn: "sess p \<Longrightarrow> conn_ok False s (conn_of s p)"
  using base_conn [of "{}" p s] by (simp add: sound_def)

lemma sess_upd:
  assumes "sess p" "conn_ok False s (f (conn_of s p))" "c_state (f (conn_of s p)) = st_of s p"
  shows "sess (upd_conn s f p)"
  using assms base_keep [of "{}" p s f] by (simp add: sound_def phase_keep)

lemma sess_schedule: "sess p \<Longrightarrow> type \<noteq> PKT_UPDATE \<or> st_of s p = BS_ESTABLISHED \<Longrightarrow> sess (bgp_schedule_packet s type p)"
  by (simp add: sound_def base_schedule)

text \<open>The state of the instance that goes with the state of a connection.\<close>

lemma sess_opened_states:
  assumes "sess p"
  shows "st_of s p = BS_ESTABLISHED \<Longrightarrow> b_conn p = Some s \<and> proto_state p = PS_UP"
    and "st_of s p = BS_OPENCONFIRM \<Longrightarrow> b_conn p = None \<and> proto_state p = PS_START"
    and "proto_state p = PS_UP \<Longrightarrow> \<exists>t. b_conn p = Some t \<and> st_of t p = BS_ESTABLISHED"
proof -
  note b = sess_parts(1) [OF assms, unfolded base_iff [of "{}" p s]] and ph = sess_parts(2) [OF assms, unfolded phase_iff [of p s]]
  have none: "b_conn p = None" if "b_conn p \<noteq> Some s" "b_conn p \<noteq> Some (other_side s)"
    using that by (cases "b_conn p"; cases s) (auto, (metis other_side.simps side.exhaust)+)
  show "b_conn p = Some s \<and> proto_state p = PS_UP" if "st_of s p = BS_ESTABLISHED"
    using that b ph by (cases "proto_state p") auto
  show "b_conn p = None \<and> proto_state p = PS_START" if st: "st_of s p = BS_OPENCONFIRM"
  proof -
    have "b_conn p \<noteq> Some s" "b_conn p \<noteq> Some (other_side s)" using b st by auto
    then have n: "b_conn p = None" by (rule none)
    then show ?thesis using ph st by (cases "proto_state p") auto
  qed
  show "\<exists>t. b_conn p = Some t \<and> st_of t p = BS_ESTABLISHED" if "proto_state p = PS_UP"
    using that ph established_side [OF sess_parts(1) [OF assms]] by auto
qed

lemmas sess_started = sound_started [of "{}"]

lemma notify_settles:
  assumes "core_states p" "ps = PS_STOP \<or> ps = PS_DOWN \<Longrightarrow> core_ok p" "can_notify p ps" "\<not> p_fell p" "sess_ok (p\<lparr>proto_state := ps\<rparr>)"
  shows "returns (bgp_notify ps p) (\<lambda>q. settles q \<and> proto_state q = ps)"
  using bgp_core.notify_ok [OF assms] by (simp add: bgp_notify_def bgp_hooks_def)

section \<open>The session is established\<close>

text \<open>What the steps of \<open>bgp_conn_enter_established_state\<close> keep.\<close>

definition ready :: "side \<Rightarrow> bgp \<Rightarrow> bgp \<Rightarrow> bool" where
  "ready s p0 p \<longleftrightarrow> core_states p \<and> proto_state p = PS_START \<and> \<not> p_fell p \<and> b_out p = b_out p0 \<and> b_in p = b_in p0 \<and>
     b_conn p = Some s \<and> tx_tables (b_tx p) \<and> b_start_state p = b_start_state p0 \<and> b_shared p = b_shared p0"

lemma ready_let: "ready s p0 e \<Longrightarrow> (\<And>x. ready s p0 x \<Longrightarrow> returns (f x) P) \<Longrightarrow> returns (Let e f) P"
  by (simp add: Let_def)

lemma returns_let: "(\<And>x. x = e \<Longrightarrow> returns (f x) P) \<Longrightarrow> returns (Let e f) P"
  by (simp add: Let_def)

lemma ready_if: "ready s p0 p \<Longrightarrow> (ready s p0 p \<Longrightarrow> ready s p0 q) \<Longrightarrow> ready s p0 (if b then q else p)"
  by simp

lemma ready_steps:
  assumes "ready s p0 p"
  shows "ready s p0 (proto_graceful_restart_unlock p)" "ready s p0 (p\<lparr>gr_wait := True\<rparr>)" "ready s p0 (p\<lparr>b_gr_timer := t\<rparr>)"
    "ready s p0 (bgp_graceful_restart_done p)" "ready s p0 (p\<lparr>b_load_state := fs\<rparr>)"
  using assms
  by (auto simp: ready_def proto_graceful_restart_unlock_def core_states_def bgp_graceful_restart_done_def bgp_call_def)

lemma returns_conj: "returns r P \<Longrightarrow> returns r Q \<Longrightarrow> returns r (\<lambda>x. P x \<and> Q x)"
  by (auto simp: returns_def)

lemma notify_UP_conn:
  assumes "core_states p" "can_notify p PS_UP" "\<not> p_fell p"
  shows "returns (bgp_notify PS_UP p) (\<lambda>q. st_of s q = st_of s p)"
proof (rule notify_UP [OF assms, of bgp_feed_begin])
  show "feed_frame bgp_feed_begin" by (simp add: feed_frame_def feed_begin_ok)
  fix q assume q: "notify_state bgp_feed_begin PS_UP p = Inr q"
    "proto.more q = proto.more p \<or> (\<exists>r. q = bgp_feed_begin r True \<and> proto.more r = proto.more p \<and> proto_state r = PS_UP)"
  from q(2) have "st_of s q = st_of s p"
  proof
    assume "proto.more q = proto.more p"
    then show ?thesis by (simp add: more_eqD(3) [of q p s])
  next
    assume "\<exists>r. q = bgp_feed_begin r True \<and> proto.more r = proto.more p \<and> proto_state r = PS_UP"
    then obtain r where "q = bgp_feed_begin r True" "proto.more r = proto.more p" by blast
    then show ?thesis by (simp add: feed_begin_ok(4) more_eqD(3) [of r p s])
  qed
  then show ?thesis using q(1) by (simp add: bgp_notify_def)
qed

lemma ready_established:
  assumes "sess p" "st_of s p = BS_OPENCONFIRM" "ready s p q"
  shows "returns (bgp_notify PS_UP (bgp_conn_set_state s BS_ESTABLISHED q)) (\<lambda>q. settles q \<and> proto_state q = PS_UP \<and> st_of s q = BS_ESTABLISHED)"
proof -
  let ?e = "bgp_conn_set_state s BS_ESTABLISHED q"
  note b = sess_parts(1) [OF assms(1), unfolded base_iff [of "{}" p s]]
  have q: "conn_of s q = conn_of s p" "conn_of (other_side s) q = conn_of (other_side s) p" "b_conn q = Some s" "tx_tables (b_tx q)"
      "b_start_state q = b_start_state p" "b_shared q = b_shared p" "core_states q" "proto_state q = PS_START" "\<not> p_fell q"
    using assms(3) by (cases s; simp add: ready_def)+
  have e: "proto.truncate ?e = proto.truncate q" "st_of s ?e = BS_ESTABLISHED" "b_conn ?e = Some s" "proto_state ?e = PS_START"
      "conn_of s ?e = (conn_of s p)\<lparr>c_state := BS_ESTABLISHED\<rparr>" "conn_of (other_side s) ?e = conn_of (other_side s) p"
      "tx_tables (b_tx ?e)" "b_start_state ?e = b_start_state p" "b_shared ?e = b_shared p"
    using q by (simp_all add: bgp_conn_set_state_def)
  have can: "core_states ?e" "can_notify ?e PS_UP" "\<not> p_fell ?e"
    using truncate_eqD [OF e(1)] q(7-9) by (simp_all add: can_notify_def core_states_def)
  have "conn_ok False s ((conn_of s p)\<lparr>c_state := BS_ESTABLISHED\<rparr>)" using b assms(2) by (simp add: conn_ok_def)
  then have "base {} (?e\<lparr>proto_state := PS_UP\<rparr>)"
    using b assms(2) e sess_opened_states(2) [OF assms(1,2)] unfolding base_iff [of "{}" _ s] by (cases s) auto
  then have "sess_ok (?e\<lparr>proto_state := PS_UP\<rparr>)" using e(3) by (simp add: sess_ok_def phase_def)
  then have "returns (bgp_notify PS_UP ?e) (\<lambda>q. settles q \<and> proto_state q = PS_UP)"
    using can by (intro notify_settles) auto
  from returns_conj [OF this notify_UP_conn [OF can, of s]] show ?thesis by (rule returns_mono) (simp add: e(2))
qed

lemma established_ok:
  assumes "sess p" "st_of s p = BS_OPENCONFIRM"
  shows "returns (bgp_conn_enter_established_state s p) (\<lambda>q. sess q \<and> st_of s q = BS_ESTABLISHED)"
proof -
  have p: "base {} p" "phase p" "fine p" using assms(1) by (simp_all add: sound_def)
  note st = sess_opened_states(2) [OF assms]
  have "live (conn_of s p)" by (rule conn_ok_opened [OF sess_conn [OF assms(1)]]) (simp add: assms(2))
  then obtain k where k: "c_sk (conn_of s p) = Some k" by (auto simp: live_def)
  have fin: "settles q \<and> proto_state q = PS_UP \<and> st_of s q = BS_ESTABLISHED \<Longrightarrow> sess q \<and> st_of s q = BS_ESTABLISHED" for q
    using bgp_core.settling_healthy(1) [of q] by (auto simp: settles_iff bgp_healthy)
  have init: "ready s p (x\<lparr>b_conn := Some s, b_err := er, b_feed_state := BFS_NONE, b_load_state := BFS_NONE,
      b_tx := \<lparr>tx_tables = True, tx_withdraw = [], tx_buckets = []\<rparr>\<rparr>)"
    if "x = (if b then p\<lparr>b_p := bp\<rparr> else p)" for x b bp er
    using that p(3) st by (auto simp: ready_def fine_def core_ok_def core_states_def)
  show ?thesis unfolding bgp_conn_enter_established_state_def k option.case
  proof (rule returns_mono [where P = "\<lambda>q. settles q \<and> proto_state q = PS_UP \<and> st_of s q = BS_ESTABLISHED"], goal_cases)
    case 1
    show ?case
      by (rule returns_let, rule ready_let, erule init,
        ((rule ready_let, (intro ready_if ready_steps; assumption)) | rule returns_let)+,
        erule ready_established [OF assms])
  qed (rule fin)
qed

section \<open>Errors of sockets and graceful restart\<close>

lemma handle_gr_ok:
  assumes "sess p" "st_of s p = BS_ESTABLISHED" "ng_gr_ready (b_neg p)"
  shows "returns (bgp_handle_graceful_restart p) (\<lambda>q. base {} q \<and> fine q \<and> proto_state q = PS_START \<and> b_conn q = Some s \<and>
    (\<forall>t. conn_of t q = conn_of t p) \<and> b_start_state q = b_start_state p)"
proof -
  note st = sess_opened_states(1) [OF assms(1,2)] and p = sess_parts [OF assms(1)]
  obtain q where q: "bgp_notify PS_START p = Inr q" "core_ok q" "proto_state q = PS_START" "\<not> p_fell q" "proto.more q = proto.more p"
  proof (rule notify_START [of p bgp_feed_begin])
    show "core_states p" "can_notify p PS_START" "\<not> p_fell p"
      using p(3) st by (auto simp: fine_def core_ok_def can_notify_def core_states_def)
  qed (simp add: bgp_notify_def)
  have "base {} q" by (rule base_more [OF p(1) q(5)]) (use st in simp_all)
  moreover have "fine q" using q by (simp add: fine_def)
  moreover have "b_conn q = Some s" "b_start_state q = b_start_state p" "\<forall>t. conn_of t q = conn_of t p"
    using more_eqD [OF q(5)] st by simp_all
  ultimately show ?thesis using q(1,3) st assms(2,3)
    by (simp add: bgp_handle_graceful_restart_def Let_def bgp_call_def)
qed

lemma idle_after_gr:
  assumes "base {} p" "fine p" "proto_state p = PS_START" "b_conn p = Some s"
  shows "returns (bgp_conn_enter_idle_state s p) (\<lambda>q. sess q \<and> st_of s q = BS_IDLE \<and> proto_state q = PS_START \<and>
    conn_of (other_side s) q = conn_of (other_side s) p \<and> b_start_state q = b_start_state p)"
proof -
  have st: "st_of s p = BS_ESTABLISHED" by (rule established_side [OF assms(1,4)])
  have started: "b_start_state p \<noteq> BSS_PREPARE" "b_start_state p \<noteq> BSS_DELAY"
    using assms(1) [unfolded base_iff [of "{}" p s]] st by auto
  have "b_conn (gone s idled p) = None" "b_start_state (gone s idled p) = b_start_state p" using st by (simp_all add: gone_def)
  then have "phase (gone s idled p)" using assms(3) by (simp add: phase_iff [of _ s])
  then show ?thesis using assms st base_idled [OF assms(1)] \<open>b_start_state (gone s idled p) = b_start_state p\<close>
    by (simp add: bgp_conn_enter_idle_state_def enter_idle_gone sound_def base_event [OF base_idled] started)
qed

lemma sock_err_ok:
  assumes "sess p" "st_of s p \<noteq> BS_IDLE"
  shows "returns (bgp_sock_err s err p) (\<lambda>q. sess q \<and> st_of s q = BS_IDLE)"
proof (cases "st_of s p = BS_ESTABLISHED \<and> ng_gr_ready (b_neg p)")
  case True
  have "returns (bgp_handle_graceful_restart (bgp_store_error (Some s) BE_SOCKET err p))
      (\<lambda>q. returns (bgp_conn_enter_idle_state s q) (\<lambda>q. sess q \<and> st_of s q = BS_IDLE))"
    by (rule returns_mono [OF handle_gr_ok [of _ s]])
      (use assms True in \<open>auto intro: returns_mono [OF idle_after_gr]\<close>)
  then show ?thesis using True by (simp add: bgp_sock_err_def Let_def)
next
  case False
  then show ?thesis using idle_ok [of "{}" "bgp_store_error (Some s) BE_SOCKET err p" s] assms by (auto simp: bgp_sock_err_def Let_def)
qed

section \<open>Connecting\<close>

text \<open>The connection after \<open>bgp_setup_conn\<close>, and in the states that follow.\<close>

definition fresh :: "bgp_conn \<Rightarrow> bgp_conn" where
  "fresh c = c\<lparr>c_sk := None, c_to_send := 0, c_live := True, c_retry_timer := 0, c_hold_timer := 0,
     c_keepalive_timer := 0, c_tx_ev := False\<rparr>"

definition activated :: "u32 \<Rightarrow> bgp_conn \<Rightarrow> bgp_conn" where
  "activated t c = (fresh c)\<lparr>c_state := BS_ACTIVE, c_retry_timer := t\<rparr>"

definition connecting :: "sock \<Rightarrow> u32 \<Rightarrow> bgp_conn \<Rightarrow> bgp_conn" where
  "connecting k t c = (fresh c)\<lparr>c_sk := Some k, c_state := BS_CONNECT, c_retry_timer := t\<rparr>"

definition open_sent :: "sock \<Rightarrow> bss \<Rightarrow> u32 \<Rightarrow> bgp_conn \<Rightarrow> bgp_conn" where
  "open_sent k ss t c = (scheduled PKT_OPEN (c\<lparr>c_start_state := ss, c_peer := no_caps, c_sk := Some (k\<lparr>sk_rx := True\<rparr>), c_retry_timer := 0\<rparr>))
     \<lparr>c_state := BS_OPENSENT, c_hold_timer := t\<rparr>"

lemma conn_ok_connecting [simp]:
  "conn_ok x Outgoing (activated t c)" "\<not> sk_rx k \<Longrightarrow> conn_ok x Outgoing (connecting k t c)"
  by (simp_all add: conn_ok_def activated_def connecting_def fresh_def)

lemma connecting_simps [simp]: "c_state (activated t c) = BS_ACTIVE" "c_state (connecting k t c) = BS_CONNECT"
  "c_state (open_sent k ss t c) = BS_OPENSENT" "c_state (fresh c) = c_state c"
  by (simp_all add: activated_def connecting_def open_sent_def fresh_def)

lemma bgp_active_eq: "bgp_active p = upd_conn Outgoing (activated (max 1 (sc_connect_delay_time (b_cf p)))) p"
  unfolding bgp_active_def Let_def bgp_conn_set_state_def bgp_setup_conn_def upd_conn_comp upd_conn_simps
  by (rule upd_conn_eqI) (simp add: activated_def fresh_def)

lemma bgp_connect_eq:
  "bgp_connect k ok p =
     (if \<not> ok then bgp_sock_err Outgoing 0 (upd_conn Outgoing (connecting k 0) p)
      else Inr (upd_conn Outgoing (connecting k (sc_connect_retry_time (b_cf p))) p))"
proof -
  have q: "bgp_conn_set_state Outgoing BS_CONNECT (bgp_setup_sk Outgoing k (bgp_setup_conn Outgoing p)) = upd_conn Outgoing (connecting k 0) p"
    unfolding bgp_conn_set_state_def bgp_setup_conn_def bgp_setup_sk_def upd_conn_comp
    by (rule upd_conn_eqI) (simp add: connecting_def fresh_def)
  have "upd_conn Outgoing (\<lambda>c. c\<lparr>c_retry_timer := t\<rparr>) (upd_conn Outgoing (connecting k 0) p) = upd_conn Outgoing (connecting k t) p" for t
    unfolding upd_conn_comp by (rule upd_conn_eqI) (simp add: connecting_def fresh_def)
  moreover have "c_live (conn_of Outgoing (upd_conn Outgoing (connecting k 0) p))" by (simp add: connecting_def fresh_def)
  ultimately show ?thesis unfolding bgp_connect_def Let_def q by (simp add: on_timers_live del: upd_conn.simps conn_of.simps)
qed

lemma send_open_eq:
  assumes "c_sk (conn_of s p) = Some k" "c_live (conn_of s p)"
  shows "bgp_send_open s p = Inr (upd_conn s (open_sent k (b_start_state p) (sc_initial_hold_time (b_cf p))) p)"
proof -
  let ?a = "upd_conn s (\<lambda>c. c\<lparr>c_start_state := b_start_state p, c_peer := no_caps\<rparr>) p"
  let ?b = "upd_conn s (\<lambda>c. c\<lparr>c_sk := Some (k\<lparr>sk_rx := True\<rparr>)\<rparr>) ?a"
  let ?c = "upd_conn s (\<lambda>c. c\<lparr>c_retry_timer := 0\<rparr>) ?b"
  let ?d = "bgp_conn_set_state s BS_OPENSENT (bgp_schedule_packet s PKT_OPEN ?c)"
  have steps: "on_sock s (\<lambda>k. k\<lparr>sk_rx := True\<rparr>) ?a = Inr ?b" "on_timers s (\<lambda>c. c\<lparr>c_retry_timer := 0\<rparr>) ?b = Inr ?c"
      "on_timers s f ?d = Inr (upd_conn s f ?d)" for f
    using assms by (simp_all add: on_sock_some on_timers_live bgp_conn_set_state_def bgp_schedule_packet_eq)
  have "upd_conn s (\<lambda>c. c\<lparr>c_hold_timer := sc_initial_hold_time (b_cf ?c)\<rparr>) ?d =
      upd_conn s (open_sent k (b_start_state p) (sc_initial_hold_time (b_cf p))) p"
    unfolding bgp_conn_set_state_def bgp_schedule_packet_eq upd_conn_comp upd_conn_simps by (rule upd_conn_eqI) (simp add: open_sent_def)
  then show ?thesis unfolding bgp_send_open_def Let_def steps rbind_simps by simp
qed


lemma phase_start: "proto_state p = PS_START \<Longrightarrow> phase (upd_conn s f p) = phase p"
  by (simp add: phase_iff [of _ s])

text \<open>A connection that is not established goes to a state before the OPEN is received.\<close>

lemma sess_early:
  assumes "sess p" "conn_ok False s (f (conn_of s p))" "c_state (f (conn_of s p)) \<noteq> BS_IDLE" "\<not> late (c_state (f (conn_of s p)))"
    "st_of s p \<noteq> BS_ESTABLISHED" "b_start_state p \<noteq> BSS_PREPARE \<and> b_start_state p \<noteq> BSS_DELAY"
    "proto_state p = PS_START \<or> proto_state p = PS_UP"
  shows "sess (upd_conn s f p)"
proof -
  have "base {} (upd_conn s f p)" using assms by (intro base_upd [OF sess_parts(1) [OF assms(1)]]) (auto simp: late_def)
  moreover have "phase (upd_conn s f p)"
    using sess_parts(2) [OF assms(1)] assms(7) unfolding phase_iff [of _ s] by auto
  ultimately show ?thesis using assms(1) by (simp add: sound_def)
qed

lemma active_ok:
  assumes "sess p" "proto_state p = PS_START" "c_state (b_out p) = BS_IDLE" "b_start_state p \<noteq> BSS_PREPARE" "b_start_state p \<noteq> BSS_DELAY"
  shows "sess (bgp_active p)"
  unfolding bgp_active_eq using assms by (intro sess_early) simp_all

lemma start_state_ok:
  assumes "sess p" "ss = BSS_PREPARE \<or> ss = BSS_DELAY \<Longrightarrow> c_state (b_out p) = BS_IDLE \<and> c_state (b_in p) = BS_IDLE \<and> \<not> b_event p"
    "ss \<noteq> BSS_PREPARE \<Longrightarrow> sh_counter (b_shared p) \<noteq> 0"
  shows "sess (p\<lparr>b_start_state := ss\<rparr>)"
  using assms by (auto simp: sound_def base_def)

lemma startup_ok:
  assumes "sess p" "proto_state p = PS_START" "c_state (b_out p) = BS_IDLE" "sh_counter (b_shared p) \<noteq> 0"
  shows "sess (bgp_startup p)"
proof -
  let ?ss = "if sc_capabilities (b_cf p) \<noteq> 0 then BSS_CONNECT else BSS_CONNECT_NOCAP"
  have "sess (p\<lparr>b_start_state := ?ss\<rparr>)" using assms by (intro start_state_ok) (auto split: if_splits)
  moreover from this have "sess (bgp_active (p\<lparr>b_start_state := ?ss\<rparr>))" using assms by (intro active_ok) simp_all
  ultimately show ?thesis by (simp add: bgp_startup_def Let_def)
qed

lemma startup_timeout_ok:
  assumes "sess p" "proto_state p = PS_START" "b_start_state p = BSS_DELAY"
  shows "sess (bgp_startup_timeout p)"
  unfolding bgp_startup_timeout_def using sess_parts(1) [OF assms(1)] assms by (intro startup_ok) (simp_all add: base_def)

lemma connect_timeout_ok:
  assumes "sess p" "c_retry_timer (b_out p) \<noteq> 0" "\<not> sk_rx k"
  shows "returns (bgp_connect_timeout Outgoing k ok p) sess"
proof (cases "proto_state p = PS_START")
  case True
  have st: "st_of Outgoing p = BS_CONNECT \<or> st_of Outgoing p = BS_ACTIVE"
    using sess_conn [OF assms(1), of Outgoing] assms(2) by (simp add: conn_ok_def)
  have c: "sess (upd_conn Outgoing (connecting k t) (bgp_close_conn Outgoing p))" for t
    unfolding bgp_close_conn_def upd_conn_comp
    using assms True st sess_started [OF assms(1), of Outgoing] by (intro sess_early) auto
  show ?thesis
    using True c returns_mono [OF sock_err_ok [OF c [of 0], of Outgoing 0]] by (simp add: bgp_connect_timeout_def bgp_connect_eq)
next
  case False
  have "st_of Outgoing p \<noteq> BS_IDLE" using sess_conn [OF assms(1), of Outgoing] assms(2) by (auto simp: conn_ok_def)
  then show ?thesis using False returns_mono [OF idle_ok [OF assms(1), of Outgoing]] by (simp add: bgp_connect_timeout_def)
qed

lemma conn_ok_open_sent:
  "\<not> bit (c_to_send c) PKT_UPDATE \<Longrightarrow> c_live c \<Longrightarrow> conn_ok x s (open_sent k ss t c)"
  by (simp add: conn_ok_def open_sent_def pkt_defs)

lemma connected_ok:
  assumes "sess p" "c_state (b_out p) = BS_CONNECT"
  shows "returns (bgp_connected Outgoing p) sess"
proof -
  have c: "conn_ok False Outgoing (b_out p)" using sess_conn [OF assms(1), of Outgoing] by simp
  then obtain k where k: "c_sk (conn_of Outgoing p) = Some k" "c_live (conn_of Outgoing p)" "\<not> bit (c_to_send (b_out p)) PKT_UPDATE"
    using assms(2) by (auto simp: conn_ok_def)
  have ps: "proto_state p = PS_START \<or> proto_state p = PS_UP"
    using sess_parts(2) [OF assms(1)] assms(2) by (cases "proto_state p") (simp_all add: phase_def)
  have "sess (upd_conn Outgoing (open_sent k (b_start_state p) (sc_initial_hold_time (b_cf p))) p)"
    using assms k ps sess_started [OF assms(1), of Outgoing] by (intro sess_early) (simp_all add: conn_ok_open_sent)
  then show ?thesis unfolding bgp_connected_def send_open_eq [OF k(1,2)] by simp
qed

lemma hold_timeout_ok:
  assumes "sess p" "c_hold_timer (conn_of s p) \<noteq> 0"
  shows "returns (bgp_hold_timeout s rx p) sess"
proof -
  have op: "opened (st_of s p)" using sess_conn [OF assms(1), of s] assms(2) by (auto simp: conn_ok_def opened_def)
  have live: "c_live (conn_of s p)" using conn_ok_opened [OF sess_conn [OF assms(1)] op] by (simp add: live_def)
  have hold: "sess (upd_conn s (\<lambda>c. c\<lparr>c_hold_timer := 10\<rparr>) p)"
    using sess_conn [OF assms(1), of s] op by (intro sess_upd [OF assms(1)]) (auto simp: conn_ok_def opened_def)
  show ?thesis
    using hold op returns_mono [OF error_ok [OF assms(1) op]] returns_mono [OF idle_ok [OF assms(1), of s]]
    by (simp add: bgp_hold_timeout_def bgp_error_def on_timers_live [OF live])
qed

lemma keepalive_timeout_ok: "sess p \<Longrightarrow> sess (bgp_keepalive_timeout s p)"
  unfolding bgp_keepalive_timeout_def by (rule sess_schedule) (simp_all add: pkt_defs)


section \<open>Start and stop\<close>

text \<open>An instance that has started and waits for its lock or its neighbor.\<close>

definition waiting :: "bgp \<Rightarrow> bool" where
  "waiting p \<longleftrightarrow> sess p \<and> proto_state p = PS_START \<and> b_start_state p = BSS_PREPARE"

lemma waiting_idle: "waiting p \<Longrightarrow> c_state (b_out p) = BS_IDLE \<and> c_state (b_in p) = BS_IDLE \<and> \<not> b_event p"
  using sess_parts(1) [of p] by (auto simp: waiting_def base_def)

lemma waiting_change:
  "waiting p \<Longrightarrow> waiting (p\<lparr>b_shared := sh\<rparr>)" "waiting p \<Longrightarrow> waiting (p\<lparr>b_p := bp\<rparr>)" "waiting p \<Longrightarrow> waiting (p\<lparr>b_neigh := n\<rparr>)"
  "waiting p \<Longrightarrow> waiting (p\<lparr>b_bfd_req := n\<rparr>)" "waiting p \<Longrightarrow> waiting (p\<lparr>p_disabled := n\<rparr>)"
  "waiting p \<Longrightarrow> waiting (bgp_store_error c class code p)"
  by (auto simp: waiting_def sound_def base_def bgp_store_error_def)

lemma notify_DOWN_ok:
  assumes "sess p" "c_state (b_out p) = BS_IDLE" "c_state (b_in p) = BS_IDLE"
  shows "returns (bgp_notify PS_DOWN p) settles"
proof -
  have "sess_ok (p\<lparr>proto_state := PS_DOWN\<rparr>)"
    using sess_parts(1) [OF assms(1)] assms(2,3) by (auto simp: sess_ok_def base_def phase_def)
  then have "returns (bgp_notify PS_DOWN p) (\<lambda>q. settles q \<and> proto_state q = PS_DOWN)"
    using assms(1) by (intro notify_settles) (simp_all add: sound_def fine_def core_ok_def can_notify_def)
  then show ?thesis by (rule returns_mono) simp
qed

lemma open_failed_ok: "waiting p \<Longrightarrow> returns (open_failed e p) (\<lambda>(ok, q). \<not> ok \<and> settles q)"
  unfolding open_failed_def returns_rmap case_prod_conv
  using waiting_idle waiting_change by (intro returns_mono [OF notify_DOWN_ok]) (auto simp: waiting_def)

lemma open_ok:
  assumes "waiting p" "sh_counter (b_shared p) + 1 \<noteq> 0"
  shows "returns (bgp_open l m p) (\<lambda>(ok, q). if ok then waiting q \<and> sh_counter (b_shared q) \<noteq> 0 else settles q)"
proof -
  define p1 where "p1 = (if sh_listen_sk (b_shared p) then p else p\<lparr>b_shared := (b_shared p)\<lparr>sh_listen_sk := l\<rparr>\<rparr>)"
  define p2 where "p2 = p1\<lparr>b_shared := (b_shared p1)\<lparr>sh_counter := sh_counter (b_shared p1) + 1\<rparr>\<rparr>"
  have w: "waiting p1" "waiting p2" using assms(1) waiting_change(1) by (simp_all add: p1_def p2_def)
  have n: "sh_counter (b_shared p2) \<noteq> 0" using assms(2) by (simp add: p1_def p2_def)
  have fail: "returns (open_failed e q) (\<lambda>(ok, q). if ok then waiting q \<and> sh_counter (b_shared q) \<noteq> 0 else settles q)" if "waiting q" for e q
    by (rule returns_mono [OF open_failed_ok [OF that]]) auto
  have close: "returns (bgp_close p2) (\<lambda>q. returns (open_failed BEM_INVALID_MD5 q) (\<lambda>(ok, q). if ok then waiting q \<and> sh_counter (b_shared q) \<noteq> 0 else settles q))"
    using n fail w(2) waiting_change(1) by (simp add: bgp_close_def Let_def)
  show ?thesis unfolding bgp_open_def p1_def [symmetric] Let_def [of p1] p2_def [symmetric] Let_def [of p2]
    using fail [OF w(1)] close w(2) n by simp
qed

lemma initiate_ok:
  assumes "waiting p" "sh_counter (b_shared p) + 1 \<noteq> 0"
  shows "returns (bgp_initiate l m p) settles"
proof -
  define nxt where "nxt q = (let p = (if sc_bfd (b_cf q) then bgp_update_bfd True q else q) in
      if er_startup_delay (b_err p) \<noteq> 0
      then p\<lparr>b_start_state := BSS_DELAY, b_startup_timer := er_startup_delay (b_err p)\<rparr> else bgp_startup p)" for q
  have nxt: "settles (nxt q)" if q: "waiting q" "sh_counter (b_shared q) \<noteq> 0" for q
  proof -
    define r where "r = (if sc_bfd (b_cf q) then bgp_update_bfd True q else q)"
    have r: "waiting r" "sh_counter (b_shared r) \<noteq> 0" using q waiting_change(4) by (simp_all add: r_def bgp_update_bfd_def)
    have "sess (r\<lparr>b_start_state := BSS_DELAY\<rparr>)" using r waiting_idle [OF r(1)] by (intro start_state_ok) (simp_all add: waiting_def)
    moreover have "sess (bgp_startup r)" using r waiting_idle [OF r(1)] by (intro startup_ok) (simp_all add: waiting_def)
    ultimately show ?thesis by (simp add: nxt_def r_def [symmetric] sess_settles)
  qed
  have "bgp_initiate l m p = rbind (bgp_open l m p) (\<lambda>(ok, q). Inr (if ok then nxt q else q))"
    unfolding bgp_initiate_def nxt_def Let_def by (rule arg_cong [where f = "rbind (bgp_open l m p)"]) (simp add: fun_eq_iff)
  moreover have "returns (bgp_open l m p) (\<lambda>(ok, q). settles (if ok then nxt q else q))"
    by (rule returns_mono [OF open_ok [OF assms]]) (use nxt in auto)
  ultimately show ?thesis by (simp add: case_prod_unfold)
qed

lemma start_neighbor_ok:
  assumes "waiting p" "sh_counter (b_shared p) + 1 \<noteq> 0"
  shows "returns (bgp_start_neighbor ip l m p) settles"
  unfolding bgp_start_neighbor_def using assms waiting_change(2) [OF assms(1)] by (intro initiate_ok) simp_all

lemma start_locked_ok:
  assumes "sess p" "proto_state p = PS_START \<Longrightarrow> b_start_state p = BSS_PREPARE \<and> sh_counter (b_shared p) + 1 \<noteq> 0"
  shows "returns (bgp_start_locked n l m p) settles"
proof (cases "proto_state p = PS_START")
  case True
  then have w: "waiting p" "sh_counter (b_shared p) + 1 \<noteq> 0" using assms by (simp_all add: waiting_def)
  have "waiting (bgp_store_error None BE_MISC BEM_INVALID_NEXT_HOP (p\<lparr>p_disabled := True\<rparr>))"
    by (rule waiting_change(6) [OF waiting_change(5) [OF w(1)]])
  then have down: "returns (bgp_notify PS_DOWN (bgp_store_error None BE_MISC BEM_INVALID_NEXT_HOP (p\<lparr>p_disabled := True\<rparr>))) settles"
    by (intro notify_DOWN_ok) (use waiting_idle in \<open>auto simp: waiting_def\<close>)
  have n: "settles (p\<lparr>b_neigh := True\<rparr>)" "waiting (p\<lparr>b_neigh := True\<rparr>)" using waiting_change(3) [OF w(1)] sess_settles by (simp_all add: waiting_def)
  show ?thesis using True down initiate_ok [OF w] n start_neighbor_ok [OF n(2)] w(2)
    by (simp add: bgp_start_locked_def Let_def split: option.split)
next
  case False
  then show ?thesis using assms(1) by (simp add: bgp_start_locked_def sess_settles)
qed

lemma stop_sess: "sess p \<Longrightarrow> proto_state p \<noteq> PS_DOWN \<Longrightarrow> returns (bgp_stop subcode data p) sess"
  unfolding bgp_stop_def by (rule returns_mono [OF stop_ok]) (auto simp: sound_def)

lemma neigh_notify_ok:
  assumes "sess p" "sh_counter (b_shared p) + 1 \<noteq> 0"
  shows "returns (bgp_neigh_notify n l m p) settles"
proof -
  have stop: "returns (bgp_stop 0 [] q) settles" if "sess q" "proto_state q \<noteq> PS_DOWN" for q
    by (rule returns_mono [OF stop_sess [OF that]]) (rule sess_settles)
  have "returns (bgp_start_neighbor (ni_ifa n) l m p) settles" if "proto_state p = PS_START" "b_start_state p = BSS_PREPARE"
    using that assms by (intro start_neighbor_ok) (simp_all add: waiting_def)
  then show ?thesis using assms(1) stop sess_settles [OF assms(1)] unfolding bgp_neigh_notify_def Let_def by simp
qed

lemma bfd_notify_ok: "sess p \<Longrightarrow> returns (bgp_bfd_notify down p) sess"
  by (auto simp: bgp_bfd_notify_def Let_def intro!: stop_sess)

lemma down_ok:
  assumes "sess p" "proto_state p = PS_STOP" "c_state (b_out p) = BS_IDLE" "c_state (b_in p) = BS_IDLE"
  shows "returns (bgp_down p) settles"
proof -
  have "returns (bgp_notify PS_DOWN (p\<lparr>b_shared := sh\<rparr>)) (\<lambda>q. settles q \<and> proto_state q = PS_DOWN)" for sh
    by (rule notify_settles)
      (use assms in \<open>auto simp: sound_def fine_def core_ok_def core_states_def can_notify_def sess_ok_def base_def phase_def\<close>)
  from returns_mono [OF this] have *: "returns (bgp_notify PS_DOWN (p\<lparr>b_shared := sh\<rparr>)) settles" for sh by blast
  from * [of "b_shared p"] have down: "returns (bgp_notify PS_DOWN p) settles" by simp
  have "sh_counter (b_shared p) \<noteq> 0" if "b_start_state p \<noteq> BSS_PREPARE" using sess_parts(1) [OF assms(1)] assms(2) that by (simp add: base_def)
  then show ?thesis using * down by (simp add: bgp_down_def bgp_close_def Let_def)
qed

lemma decision_ok:
  assumes "sess p" "b_event p"
  shows "returns (bgp_decision p) settles"
proof -
  let ?p = "p\<lparr>b_event := False\<rparr>"
  let ?q = "if proto_state ?p = PS_START \<and> c_state (b_out ?p) = BS_IDLE \<and> c_state (b_in ?p) \<noteq> BS_OPENCONFIRM \<and>
      \<not> sc_passive (b_cf ?p) then bgp_active ?p else ?p"
  have p: "sess ?p" using assms(1) by (simp add: sound_def base_no_event)
  have "sess (bgp_active ?p)" if "proto_state p = PS_START" "c_state (b_out p) = BS_IDLE"
    using that assms p sess_parts(1) [OF assms(1)] by (intro active_ok) (auto simp: base_def)
  then have q: "sess ?q" using p by simp
  then show ?thesis using down_ok [of ?q] sess_settles [OF q] unfolding bgp_decision_def Let_def [of ?p] Let_def [of ?q] by simp
qed

lemma gr_timeout_ok: "sess p \<Longrightarrow> proto_state p \<noteq> PS_DOWN \<Longrightarrow> returns (bgp_graceful_restart_timeout p) sess"
  unfolding bgp_graceful_restart_timeout_def by (rule stop_sess)


section \<open>Incoming connections\<close>

lemma incoming_open_eq:
  "bgp_send_open Incoming (bgp_setup_sk Incoming k (bgp_setup_conn Incoming p)) =
     Inr (upd_conn Incoming (\<lambda>c. open_sent k (b_start_state p) (sc_initial_hold_time (b_cf p)) ((fresh c)\<lparr>c_sk := Some k\<rparr>)) p)"
proof -
  let ?q = "bgp_setup_sk Incoming k (bgp_setup_conn Incoming p)"
  have q: "?q = upd_conn Incoming (\<lambda>c. (fresh c)\<lparr>c_sk := Some k\<rparr>) p"
    unfolding bgp_setup_sk_def bgp_setup_conn_def upd_conn_comp by (rule upd_conn_eqI) (simp add: fresh_def)
  have "c_sk (conn_of Incoming ?q) = Some k" "c_live (conn_of Incoming ?q)"
    unfolding q conn_of_upd by (simp_all add: fresh_def)
  from send_open_eq [OF this] show ?thesis unfolding q upd_conn_comp upd_conn_simps .
qed

lemma setup_closed: "bgp_setup_conn s (bgp_close_conn s p) = bgp_setup_conn s p"
  unfolding bgp_setup_conn_def bgp_close_conn_def upd_conn_comp by (rule upd_conn_eqI) simp

lemma incoming_open_ok:
  assumes "sess p" "c_state (b_in p) \<noteq> BS_ESTABLISHED" "b_start_state p \<noteq> BSS_PREPARE \<and> b_start_state p \<noteq> BSS_DELAY"
    "proto_state p = PS_START \<or> proto_state p = PS_UP"
  shows "returns (bgp_send_open Incoming (bgp_setup_sk Incoming k (bgp_setup_conn Incoming p))) sess"
  unfolding incoming_open_eq returns_Inr
  using assms by (intro sess_early) (simp_all add: conn_ok_open_sent fresh_def)

text \<open>
  A restarting neighbor: if the new socket cannot be set up then, the old incoming connection has lost its
  socket and timers, but not its state; \<open>ttl_ok\<close> excludes this.
\<close>

definition restarting :: "bgp \<Rightarrow> bool" where
  "restarting p \<longleftrightarrow> (\<exists>s. b_conn p = Some s \<and> st_of s p = BS_ESTABLISHED \<and> ng_gr_ready (b_neg p))"

lemma incoming_restart_ok:
  assumes "sess p" "b_conn p = Some s" "st_of s p = BS_ESTABLISHED" "ng_gr_ready (b_neg p)"
  shows "returns (bgp_incoming_connection k True p) sess"
proof -
  let ?close = "\<lambda>r. if c_state (b_in r) \<in> {BS_OPENSENT, BS_OPENCONFIRM, BS_ESTABLISHED, BS_CLOSE} then bgp_close_conn Incoming r else r"
  let ?open = "\<lambda>r. bgp_send_open Incoming (bgp_setup_sk Incoming k (bgp_setup_conn Incoming r))"
  have started: "b_start_state p \<noteq> BSS_PREPARE \<and> b_start_state p \<noteq> BSS_DELAY" using sess_started [OF assms(1), of s] assms(3) by simp
  have opn: "returns (?open (?close r)) sess" if "sess r" "proto_state r = PS_START" "b_start_state r = b_start_state p" for r
  proof -
    have "c_state (b_in r) \<noteq> BS_ESTABLISHED" using sess_opened_states(1) [OF that(1), of Incoming] that(2) by auto
    then show ?thesis using incoming_open_ok [OF that(1)] that(2,3) started by (simp add: setup_closed)
  qed
  define F where "F r \<longleftrightarrow> returns (?open (?close r)) sess" for r
  have step: "returns (bgp_conn_enter_idle_state s q) F"
    if q: "base {} q" "fine q" "proto_state q = PS_START" "b_conn q = Some s" "b_start_state q = b_start_state p" for q
    by (rule returns_mono [OF idle_after_gr [OF q(1-4)]]) (use opn q(5) in \<open>simp add: F_def\<close>)
  have "returns (bgp_handle_graceful_restart (bgp_store_error None BE_MISC BEM_GRACEFUL_RESTART p))
      (\<lambda>q. returns (bgp_conn_enter_idle_state s q) F)"
    by (rule returns_mono [OF handle_gr_ok [of _ s]]) (use assms step in simp_all)
  then show ?thesis using assms(2-4) unfolding bgp_incoming_connection_def Let_def F_def by simp
qed

lemma incoming_ok:
  assumes "sess p" "ttl_ok \<or> \<not> restarting p"
  shows "returns (bgp_incoming_connection k ttl_ok p) sess"
proof (cases "restarting p")
  case True
  then show ?thesis using incoming_restart_ok assms by (auto simp: restarting_def)
next
  case False
  let ?acc = "(proto_state p = PS_START \<or> proto_state p = PS_UP) \<and>
      (b_start_state p = BSS_CONNECT \<or> b_start_state p = BSS_CONNECT_NOCAP) \<and> c_sk (b_in p) = None"
  have "c_state (b_in p) \<noteq> BS_ESTABLISHED" if "c_sk (b_in p) = None"
    using that sess_conn [OF assms(1), of Incoming] by (auto simp: conn_ok_def)
  then have opn: "returns (bgp_send_open Incoming (bgp_setup_sk Incoming k (bgp_setup_conn Incoming p))) sess" if ?acc
    using that assms(1) by (intro incoming_open_ok) auto
  have "bgp_incoming_connection k ttl_ok p = (if \<not> ?acc \<or> \<not> ttl_ok then Inr p
      else bgp_send_open Incoming (bgp_setup_sk Incoming k (bgp_setup_conn Incoming p)))"
    using False unfolding bgp_incoming_connection_def Let_def restarting_def by (cases "b_conn p") auto
  then show ?thesis using opn assms(1) by simp
qed

end
