(* ===== verification/BgpRxSafe.thy ===== *)
theory BgpRxSafe
  imports BgpHandlers BgpDecode
begin

text \<open>
  Received data: on any bytes, but for errors in the optional parameters of an OPEN and shutdown messages
  that do not fit, the handlers of \<open>BgpRx\<close> run from a proper state of a session into a proper one.
\<close>

section \<open>Bytes that the handlers are ready for\<close>

text \<open>
  Shutdown messages on which \<open>bgp_handle_message\<close> reads nothing behind the packet and writes nothing behind
  its buffer.
\<close>

definition fitting :: "u8 list \<Rightarrow> bool" where
  "fitting data \<longleftrightarrow>
     (let n = unat (hd data) in (n \<le> 128 \<longrightarrow> n + 1 \<le> length data) \<and> (n + 1 \<le> length data \<longrightarrow> n \<le> 251))"

lemma handle_message_returns:
  "data \<noteq> [] \<Longrightarrow> returns (bgp_handle_message data p)
     (\<lambda>r. case r of None \<Rightarrow> True | Some q \<Rightarrow> q = p \<or> (\<exists>m. q = proto_set_message (Some m) p)) \<longleftrightarrow> unat (hd data) = 0 \<or> fitting data"
  by (cases data) (auto simp: bgp_handle_message_def fitting_def Let_def)

text \<open>
  An OPEN in whose options \<open>bgp_parse_options\<close> finds no error, whatever the configuration and the capabilities
  known so far; a shutdown message that fits.
\<close>

definition clean_packet :: "bgp_env \<Rightarrow> u8 list \<Rightarrow> bool" where
  "clean_packet E pkt \<longleftrightarrow>
     (unat (pkt ! 18) = PKT_OPEN \<longrightarrow> (\<forall>cf nocap pc. snd (bgp_parse_options (en_net E) cf nocap (drop 29 pkt) pc) = [])) \<and>
     (unat (pkt ! 18) = PKT_NOTIFICATION \<and> length pkt > 21 \<and> unat (pkt ! 19) = 6 \<and> (unat (pkt ! 20) = 2 \<or> unat (pkt ! 20) = 4) \<longrightarrow>
        fitting (drop 21 pkt))"

text \<open>All packets that \<open>bgp_rx\<close> finds in the data.\<close>

function clean_stream :: "bgp_env \<Rightarrow> u8 list \<Rightarrow> bool" where
  "clean_stream E b \<longleftrightarrow>
     (let len = unat (get_u16 (en_net E) (take 2 (drop 16 b))) in
      if length b < BGP_HEADER_LENGTH \<or> len < BGP_HEADER_LENGTH \<or> length b < len then True
      else clean_packet E (take len b) \<and> clean_stream E (drop len b))"
  by pat_completeness auto
termination
  by (relation "measure (\<lambda>(_, b). length b)") (auto simp: BGP_HEADER_LENGTH_def)

declare clean_stream.simps [simp del]

section \<open>What a handler leaves\<close>

text \<open>The connection stays open, is closing, or is idle.\<close>

definition handled :: "side \<Rightarrow> bgp \<Rightarrow> bool" where
  "handled s p \<longleftrightarrow> sess p \<and> (opened (st_of s p) \<or> st_of s p = BS_IDLE)"

lemma error_handled: "sess p \<Longrightarrow> opened (st_of s p) \<Longrightarrow> returns (bgp_error s code subcode data p) (handled s)"
  unfolding bgp_error_def by (rule returns_mono [OF error_ok]) (auto simp: handled_def)

lemma phase_quiet: "phase p \<Longrightarrow> proto_state p = PS_STOP \<Longrightarrow> opened (st_of s p) \<or> st_of s p = BS_IDLE"
  by (cases s) (auto simp: phase_def quiet_def)

lemma stop_handled:
  assumes "sess p" "proto_state p \<noteq> PS_DOWN"
  shows "returns (bgp_stop subcode data p) (handled s)"
  unfolding bgp_stop_def
proof (rule returns_mono [OF stop_ok])
  show "base {} p" "fine p" using assms(1) by (simp_all add: sound_def)
  fix q assume "base {} q \<and> phase q \<and> fine q \<and> proto_state q = PS_STOP \<and> (\<forall>s. quiet (st_of s p) \<longrightarrow> conn_of s q = conn_of s p)"
  then show "handled s q" using phase_quiet [of q s] by (simp add: handled_def sound_def)
qed (use assms in simp)

text \<open>Giving up a connection that is not established does not touch the other one.\<close>

lemma error_other:
  assumes "sess p" "st_of t p = BS_OPENCONFIRM"
  shows "returns (bgp_error t 6 7 [] p) (\<lambda>q. sess q \<and> st_of t q = BS_CLOSE \<and> conn_of (other_side t) q = conn_of (other_side t) p)"
proof -
  let ?p = "bgp_store_error (Some t) BE_BGP_TX (push_bit 16 (of_nat 6) OR of_nat 7) p"
  have live: "live (conn_of t p)" using conn_ok_opened [OF sess_conn [OF assms(1), of t]] assms(2) by simp
  have "bgp_error t 6 7 [] p = Inr (bgp_schedule_packet t PKT_NOTIFICATION (upd_conn t (\<lambda>c. c\<lparr>c_notify := (6, 7, [])\<rparr>) (gone t closing ?p)))"
    using assms(2) by (simp add: bgp_error_def error_with_def bgp_log_error_def enter_close_gone live Let_def)
  then have a: "returns (bgp_error t 6 7 [] p) (\<lambda>q. conn_of (other_side t) q = conn_of (other_side t) p)" by simp
  have b: "returns (bgp_error t 6 7 [] p) (\<lambda>q. sess q \<and> st_of t q = BS_CLOSE)"
    unfolding bgp_error_def using assms by (intro error_ok) simp_all
  show ?thesis by (rule returns_mono [OF returns_conj [OF b a]]) blast
qed

lemma idle_other:
  assumes "sess p" "st_of t p = BS_CONNECT \<or> st_of t p = BS_ACTIVE"
  shows "returns (bgp_conn_enter_idle_state t p) (\<lambda>q. sess q \<and> st_of t q = BS_IDLE \<and> conn_of (other_side t) q = conn_of (other_side t) p)"
proof -
  have a: "returns (bgp_conn_enter_idle_state t p) (\<lambda>q. conn_of (other_side t) q = conn_of (other_side t) p)"
    using assms(2) by (auto simp: bgp_conn_enter_idle_state_def enter_idle_gone)
  have b: "returns (bgp_conn_enter_idle_state t p) (\<lambda>q. sess q \<and> st_of t q = BS_IDLE)" by (rule idle_ok) (use assms in auto)
  show ?thesis by (rule returns_mono [OF returns_conj [OF b a]]) blast
qed

section \<open>OPEN\<close>

lemma collision_ok:
  assumes "sess p" "st_of s p = BS_OPENSENT"
  shows "returns (check_collision s rid p) (\<lambda>(go, q). if go then sess q \<and> st_of s q = BS_OPENSENT \<and> \<not> late (st_of (other_side s) q)
    else handled s q)"
proof -
  have give_up: "returns (bgp_error s 6 7 [] p) (handled s)" using assms by (intro error_handled) simp_all
  show ?thesis
  proof (cases "st_of (other_side s) p")
    case BS_OPENCONFIRM
    then have "returns (bgp_error (other_side s) 6 7 [] p) (\<lambda>q. sess q \<and> st_of s q = BS_OPENSENT \<and> \<not> late (st_of (other_side s) q))"
      using assms by (intro returns_mono [OF error_other [OF assms(1)]]) simp_all
    then show ?thesis using BS_OPENCONFIRM give_up by (simp add: check_collision_def Let_def)
  next
    case BS_ESTABLISHED
    then show ?thesis using give_up by (simp add: check_collision_def Let_def)
  next
    case BS_CONNECT
    then have "returns (bgp_conn_enter_idle_state (other_side s) p) (\<lambda>q. sess q \<and> st_of s q = BS_OPENSENT \<and> \<not> late (st_of (other_side s) q))"
      using assms by (intro returns_mono [OF idle_other [OF assms(1)]]) simp_all
    then show ?thesis using BS_CONNECT by (simp add: check_collision_def Let_def)
  next
    case BS_ACTIVE
    then have "returns (bgp_conn_enter_idle_state (other_side s) p) (\<lambda>q. sess q \<and> st_of s q = BS_OPENSENT \<and> \<not> late (st_of (other_side s) q))"
      using assms by (intro returns_mono [OF idle_other [OF assms(1)]]) simp_all
    then show ?thesis using BS_ACTIVE by (simp add: check_collision_def Let_def)
  qed (use assms in \<open>simp_all add: check_collision_def Let_def\<close>)
qed

text \<open>The hold timer of an open connection is started.\<close>

lemma start_hold_ok:
  assumes "sess p" "opened (st_of s p)"
  shows "returns (bgp_start_hold s p) (\<lambda>q. sess q \<and> (\<forall>t. st_of t q = st_of t p) \<and> proto_state q = proto_state p \<and>
    c_peer (conn_of s q) = c_peer (conn_of s p) \<and> b_cf q = b_cf p)"
proof -
  have live: "c_live (conn_of s p)" using conn_ok_opened [OF sess_conn [OF assms(1)] assms(2)] by (simp add: live_def)
  have "sess (upd_conn s (\<lambda>c. c\<lparr>c_hold_timer := c_hold_time c\<rparr>) p)"
    using sess_conn [OF assms(1), of s] assms(2) by (intro sess_upd [OF assms(1)]) (auto simp: conn_ok_def opened_def)
  moreover have "st_of t (upd_conn s (\<lambda>c. c\<lparr>c_hold_timer := c_hold_time c\<rparr>) p) = st_of t p" for t
    by (cases s; cases t) simp_all
  ultimately show ?thesis by (simp add: bgp_start_hold_def on_timers_live [OF live])
qed

lemma openconfirm_ok:
  assumes "sess p" "st_of s p = BS_OPENSENT" "\<not> late (st_of (other_side s) p)"
  shows "handled s (bgp_conn_enter_openconfirm_state s p)"
proof -
  let ?q = "upd_conn s (\<lambda>c. c\<lparr>c_state := BS_OPENCONFIRM\<rparr>) p"
  have "conn_ok False s ((conn_of s p)\<lparr>c_state := BS_OPENCONFIRM\<rparr>)"
    using sess_conn [OF assms(1), of s] assms(2) by (simp add: conn_ok_def)
  then have "base {} ?q" using assms by (intro base_upd [OF sess_parts(1) [OF assms(1)]]) simp_all
  moreover have "phase ?q"
    using sess_parts(2) [OF assms(1)] assms(2) unfolding phase_iff [of _ s] by auto
  ultimately show ?thesis using assms(1)
    by (simp add: handled_def sound_def bgp_conn_enter_openconfirm_state_def bgp_conn_set_state_def)
qed

lemma accepted_ok:
  assumes "sess p" "st_of s p = BS_OPENSENT" "\<not> late (st_of (other_side s) p)"
  shows "returns (open_accepted s hold rid p) (handled s)"
proof -
  have step: "returns (bgp_start_hold s (bgp_schedule_packet s PKT_KEEPALIVE q)) (\<lambda>q. handled s (bgp_conn_enter_openconfirm_state s q))"
    if q: "sess q" "st_of s q = BS_OPENSENT" "\<not> late (st_of (other_side s) q)" for q
  proof -
    have "sess (bgp_schedule_packet s PKT_KEEPALIVE q)" using q(1) by (rule sess_schedule) (simp add: pkt_defs)
    then show ?thesis using q by (intro returns_mono [OF start_hold_ok]) (auto intro!: openconfirm_ok)
  qed
  have "sess (upd_conn s (\<lambda>c. c\<lparr>c_hold_time := ht, c_keepalive_time := kt\<rparr>) p)" for ht kt
    by (rule sess_upd [OF assms(1)]) (simp_all add: sess_conn [OF assms(1)])
  then show ?thesis using assms(2,3) unfolding open_accepted_def Let_def returns_rmap by (intro step) simp_all
qed

lemma check_open_ok:
  assumes "sess p" "st_of s p = BS_OPENSENT"
  shows "returns (check_open U s pkt p) (handled s)"
proof -
  have err: "returns (bgp_error s c sc d p) (handled s)" "returns (error_with bgp_stop s c sc d k p) (handled s)" for c sc d k
    using error_handled [OF assms(1), of s] error_ok [OF assms(1), of s c sc d k] assms(2)
    by (auto simp: handled_def elim: returns_mono)
  have "returns (check_collision s rid p) (\<lambda>(go, q). returns (if go then open_accepted s h rid q else Inr q) (handled s))" for rid h
    by (rule returns_mono [OF collision_ok [OF assms]]) (auto intro: accepted_ok split: if_splits)
  then show ?thesis using err by (simp add: check_open_def Let_def case_prod_unfold)
qed

lemma rx_open_ok:
  assumes "sess p" "opened (st_of s p)" "\<And>nocap pc. snd (bgp_parse_options (en_net E) (b_cf p) nocap (drop 29 pkt) pc) = []"
  shows "returns (bgp_rx_open E s pkt p) (handled s)"
proof -
  have err: "returns (bgp_error s c sc d p) (handled s)" for c sc d using assms(1,2) by (rule error_handled)
  show ?thesis
  proof (cases "st_of s p \<noteq> BS_OPENSENT \<or> length pkt < 29 \<or> length pkt \<noteq> 29 + unat (pkt ! 28) \<or> pkt ! 19 \<noteq> BGP_VERSION")
    case True
    then show ?thesis using err by (auto simp: bgp_rx_open_def)
  next
    case False
    let ?pc = "(c_peer (conn_of s p))\<lparr>pc_advertised_as := ucast (get_u16 (en_net E) (take 2 (drop 20 pkt)))\<rparr>"
    obtain pc where pc: "bgp_parse_options (en_net E) (b_cf p) (c_start_state (conn_of s p) = BSS_CONNECT_NOCAP) (drop 29 pkt) ?pc = (pc, [])"
      using assms(3) by (metis prod.collapse)
    have "sess (upd_conn s (\<lambda>c. c\<lparr>c_peer := pc\<rparr>) p)" by (rule sess_upd [OF assms(1)]) (simp_all add: sess_conn [OF assms(1)])
    then have "returns (check_open (en_net E) s pkt (upd_conn s (\<lambda>c. c\<lparr>c_peer := pc\<rparr>) p)) (handled s)"
      using False by (intro check_open_ok) simp_all
    then show ?thesis using False pc by (simp add: bgp_rx_open_def Let_def)
  qed
qed

section \<open>UPDATE\<close>

lemma fold_keeps: "(\<And>x p. g (f x p) = g p) \<Longrightarrow> g (fold f xs p) = g p"
  by (induction xs arbitrary: p) simp_all

lemma rte_calls [simp]:
  "sound X (bgp_rte_withdraw n p) = sound X p" "conn_of s (bgp_rte_withdraw n p) = conn_of s p"
  "sound X (bgp_rte_update n nh e p) = sound X p" "conn_of s (bgp_rte_update n nh e p) = conn_of s p"
  by (simp_all add: bgp_rte_withdraw_def bgp_rte_update_def bgp_call_def)

lemma withdraw_all [simp]:
  "sound X (fold bgp_rte_withdraw ns p) = sound X p" "conn_of s (fold bgp_rte_withdraw ns p) = conn_of s p"
  by (rule fold_keeps, simp)+

lemma update_all [simp]:
  "sound X (fold (\<lambda>n. case a of None \<Rightarrow> bgp_rte_withdraw n | Some (nh, e) \<Rightarrow> bgp_rte_update n nh e) ns p) = sound X p"
  "conn_of s (fold (\<lambda>n. case a of None \<Rightarrow> bgp_rte_withdraw n | Some (nh, e) \<Rightarrow> bgp_rte_update n nh e) ns p) = conn_of s p"
  by (rule fold_keeps, simp split: option.split)+

lemma end_mark_ok:
  assumes "sess p"
  shows "sess (bgp_rx_end_mark p)" "st_of s (bgp_rx_end_mark p) = st_of s p"
proof -
  have load: "sess (if b then p\<lparr>b_load_state := fs\<rparr> else p)" for b fs using assms by simp
  have unlock: "sess (if b then proto_graceful_restart_unlock q else q)" if "sess q" for b q
    using that by (auto simp: proto_graceful_restart_unlock_def sound_def fine_def core_ok_def core_states_def base_def phase_def
        split: proto_st.splits)
  have gr: "sess (if b then bgp_graceful_restart_done q else q)" if "sess q" for b q
    using that by (simp add: bgp_graceful_restart_done_def bgp_call_def)
  show "sess (bgp_rx_end_mark p)" unfolding bgp_rx_end_mark_def Let_def by (intro gr unlock load)
  show "st_of s (bgp_rx_end_mark p) = st_of s p"
    by (cases s) (simp_all add: bgp_rx_end_mark_def Let_def bgp_graceful_restart_done_def bgp_call_def proto_graceful_restart_unlock_def)
qed

lemma next_hop_returns: "bgp_lib_ok.has_next_hop e \<Longrightarrow> returns (bgp_set_next_hop E direct e) (\<lambda>_. True)"
  by (auto simp: netlib.has_next_hop_def bgp_set_next_hop_def rd_u32_def)

lemma decode_error_ok: "sess p \<Longrightarrow> opened (st_of s p) \<Longrightarrow> returns (decode_error s err p) (handled s)"
  by (simp add: decode_error_def error_handled) (simp add: handled_def)

lemma rx_routes_ok:
  assumes "bgp_lib_ok (en_lib E)" "sess p" "opened (st_of s p)"
  shows "returns (rx_routes E s attrs nlri p) (handled s)"
proof -
  obtain r where decoded: "bgp_decode_attrs (en_lib E) (b_p p) attrs (nlri \<noteq> []) = Inr r \<and>
      (\<forall>e. nlri \<noteq> [] \<and> r = Accepted e \<longrightarrow> bgp_lib_ok.route_ok (en_lib E) (b_p p) e \<and> bgp_lib_ok.has_next_hop e)"
    using bgp_lib_ok.decode_total [OF assms(1)] by (rule exE)
  note r = conjunct1 [OF decoded]
  have hop: "bgp_lib_ok.has_next_hop e" if "nlri \<noteq> []" "r = Accepted e" for e using decoded that by simp
  obtain ns err where d: "decode_prefixes (en_net E) (en_ip E) (ng_add_path_rx (b_neg p)) nlri = (ns, err)" by (cases "decode_prefixes (en_net E) (en_ip E) (ng_add_path_rx (b_neg p)) nlri")
  have routes: "returns (decode_error s err (fold (\<lambda>n. case a of None \<Rightarrow> bgp_rte_withdraw n | Some (nh, e) \<Rightarrow> bgp_rte_update n nh e) ns p)) (handled s)" for a
    using assms(2,3) by (intro decode_error_ok) simp_all
  have withdraw: "returns (decode_error s err (fold bgp_rte_withdraw ns p)) (handled s)" using routes [of None] by simp
  show ?thesis
  proof (cases r)
    case (Accepted e)
    have "returns (if nlri = [] then Inr None else rmap (map_option (\<lambda>nh. (nh, e))) (bgp_set_next_hop E (sc_gw_direct (b_cf p)) e)) (\<lambda>_. True)"
      using hop [OF _ Accepted] next_hop_returns [of e E "sc_gw_direct (b_cf p)"] by simp
    then show ?thesis unfolding rx_routes_def r d Accepted rbind_simps decoded.case prod.case returns_rbind
      by (rule returns_mono) (rule routes)
  next
    case (Error subcode data)
    then show ?thesis unfolding rx_routes_def r by (simp add: fault_simps error_handled assms(2,3))
  qed (unfold rx_routes_def r d, simp_all add: fault_simps withdraw)
qed

lemma do_rx_update_ok:
  assumes "bgp_lib_ok (en_lib E)" "sess p" "opened (st_of s p)"
  shows "returns (bgp_do_rx_update E s withdrawn nlri attrs p) (handled s)"
proof -
  obtain ns err where d: "decode_prefixes (en_net E) (en_ip E) (ng_add_path_rx (b_neg p)) withdrawn = (ns, err)"
    by (cases "decode_prefixes (en_net E) (en_ip E) (ng_add_path_rx (b_neg p)) withdrawn")
  show ?thesis using assms decode_error_ok [of "fold bgp_rte_withdraw ns p" s err] end_mark_ok [OF assms(2)]
      rx_routes_ok [OF assms(1), of "fold bgp_rte_withdraw ns p" s attrs nlri]
    by (simp add: bgp_do_rx_update_def d Let_def) (simp add: handled_def)
qed

lemma split_returns: "23 \<le> length pkt \<Longrightarrow> returns (split_update U pkt) (\<lambda>_. True)"
  by (auto simp: split_update_def rd_u16_def Let_def)

lemma rx_update_ok:
  assumes "bgp_lib_ok (en_lib E)" "sess p" "opened (st_of s p)"
  shows "returns (bgp_rx_update E s pkt p) (handled s)"
proof -
  have body: "returns (if length pkt < 23 then bgp_error s 1 2 (take 2 (drop 16 pkt)) q
      else rbind (split_update (en_net E) pkt) (\<lambda>r. case r of None \<Rightarrow> bgp_error s 3 1 [] q
        | Some (withdrawn, attrs, nlri) \<Rightarrow> bgp_do_rx_update E s withdrawn nlri attrs q)) (handled s)"
    if "sess q" "opened (st_of s q)" for q
    using that split_returns [of pkt "en_net E"]
    by (auto simp: error_handled do_rx_update_ok assms(1) elim!: returns_mono split: option.split)
  have est: "returns (if st_of s q \<noteq> BS_ESTABLISHED then bgp_error s 5 (fsm_err_subcode (st_of s q)) [] q
       else rbind (bgp_start_hold s q) (\<lambda>p.
         if length pkt < 23 then bgp_error s 1 2 (take 2 (drop 16 pkt)) p
         else rbind (split_update (en_net E) pkt) (\<lambda>r. case r of
             None \<Rightarrow> bgp_error s 3 1 [] p
           | Some (withdrawn, attrs, nlri) \<Rightarrow> bgp_do_rx_update E s withdrawn nlri attrs p))) (handled s)"
    if q: "sess q" "opened (st_of s q)" for q
  proof (cases "st_of s q = BS_ESTABLISHED")
    case True
    have "returns (bgp_start_hold s q) (\<lambda>p. sess p \<and> opened (st_of s p))"
      by (rule returns_mono [OF start_hold_ok [OF q]]) (use q in simp)
    then show ?thesis unfolding if_not_P [OF not_not [THEN iffD2, OF True]] returns_rbind [of "bgp_start_hold s q"]
      by (rule returns_mono) (rule body, simp_all)
  qed (simp add: error_handled q)
  have "returns (if st_of s p = BS_OPENCONFIRM then bgp_conn_enter_established_state s p else Inr p) (\<lambda>q. sess q \<and> opened (st_of s q))"
    using assms(2,3) returns_mono [OF established_ok [OF assms(2), of s], of "\<lambda>q. sess q \<and> opened (st_of s q)"] by simp
  then show ?thesis unfolding bgp_rx_update_def returns_rbind [of "if _ then _ else _"]
    by (rule returns_mono) (rule est, simp_all)
qed

section \<open>Other messages\<close>

lemma log_error_ok:
  assumes "sess p" "code = 6 \<and> (subcode = 2 \<or> subcode = 4) \<and> data \<noteq> [] \<Longrightarrow> fitting data"
  shows "returns (bgp_log_error BE_BGP_RX code subcode data p)
    (\<lambda>q. sess q \<and> (\<forall>t. conn_of t q = conn_of t p) \<and> b_cf q = b_cf p \<and> proto_state q = proto_state p)"
proof -
  have msg: "sess (proto_set_message m q) \<longleftrightarrow> sess q" "conn_of t (proto_set_message m q) = conn_of t q"
      "b_cf (proto_set_message m q) = b_cf q" "proto_state (proto_set_message m q) = proto_state q" for m t q
    by (simp_all add: proto_set_message_def)
  let ?q = "proto_set_message None p"
  have m: "returns (bgp_handle_message data ?q) (\<lambda>r. case r of None \<Rightarrow> True | Some q \<Rightarrow> q = ?q \<or> (\<exists>m. q = proto_set_message (Some m) ?q))"
    if "code = 6" "subcode = 2 \<or> subcode = 4" "data \<noteq> []"
    using that assms(2) by (simp add: handle_message_returns)
  have "returns (bgp_handle_message data ?q) (\<lambda>r. sess (case r of None \<Rightarrow> ?q | Some q \<Rightarrow> q) \<and>
      (\<forall>t. conn_of t (case r of None \<Rightarrow> ?q | Some q \<Rightarrow> q) = conn_of t p) \<and>
      b_cf (case r of None \<Rightarrow> ?q | Some q \<Rightarrow> q) = b_cf p \<and> proto_state (case r of None \<Rightarrow> ?q | Some q \<Rightarrow> q) = proto_state p)"
    if "code = 6" "subcode = 2 \<or> subcode = 4" "data \<noteq> []"
    by (rule returns_mono [OF m [OF that]]) (use assms(1) in \<open>auto simp: msg split: option.splits\<close>)
  then show ?thesis using assms(1) by (simp add: bgp_log_error_def Let_def msg BE_BGP_RX_def BE_BGP_TX_def)
qed

lemma closed_handled:
  assumes "sess p" "opened (st_of s p)" "\<And>q. sess q \<Longrightarrow> st_of s q = BS_CLOSE \<Longrightarrow> returns (f q) (handled s)"
  shows "returns (bgp_conn_enter_close_state s p) (\<lambda>p. returns (f (bgp_schedule_packet s PKT_SCHEDULE_CLOSE p)) (handled s))"
proof (rule returns_mono [OF close_ok [OF assms(1,2)]])
  fix q assume q: "sound {s} q \<and> st_of s q = BS_CLOSE"
  then have "base {} (bgp_schedule_packet s PKT_SCHEDULE_CLOSE q)" by (intro base_close_scheduled) (simp_all add: sound_def)
  then have "sess (bgp_schedule_packet s PKT_SCHEDULE_CLOSE q)" using q by (simp add: sound_def)
  then show "returns (f (bgp_schedule_packet s PKT_SCHEDULE_CLOSE q)) (handled s)" using q by (intro assms(3)) simp_all
qed

lemma nocap_ok:
  assumes "sess p" "opened (st_of s p)"
  shows "sess (if b then p\<lparr>b_start_state := BSS_CONNECT_NOCAP\<rparr> else p)"
proof -
  have "st_of s p \<noteq> BS_IDLE" using assms(2) by auto
  then have "proto_state p \<noteq> PS_DOWN" "b_start_state p \<noteq> BSS_PREPARE"
    using opened_not_down [OF assms(1)] sess_started [OF assms(1)] by simp_all
  then have "sh_counter (b_shared p) \<noteq> 0"
    using sess_parts(1) [OF assms(1)] unfolding base_iff [of "{}" p s] by simp
  then have "sess (p\<lparr>b_start_state := BSS_CONNECT_NOCAP\<rparr>)" by (intro start_state_ok [OF assms(1)]) simp_all
  then show ?thesis using assms(1) by simp
qed

lemma rx_notification_ok:
  assumes "sess p" "opened (st_of s p)"
    "length pkt > 21 \<and> unat (pkt ! 19) = 6 \<and> (unat (pkt ! 20) = 2 \<or> unat (pkt ! 20) = 4) \<Longrightarrow> fitting (drop 21 pkt)"
  shows "returns (bgp_rx_notification s pkt p) (handled s)"
proof (cases "length pkt < 21")
  case True
  then show ?thesis using assms(1,2) by (simp add: bgp_rx_notification_def error_handled)
next
  case False
  let ?code = "unat (pkt ! 19)" and ?sub = "unat (pkt ! 20)"
  have fin: "returns (if ?code \<noteq> 6 \<and> \<not> nocap then bgp_stop 0 [] (bgp_update_startup_delay q)
      else if sc_disable_after_cease (b_cf q) AND push_bit (if ?sub \<le> 8 then ?sub else 0) 1 \<noteq> 0
        then Inr (q\<lparr>b_err := (b_err q)\<lparr>er_startup_delay := 0\<rparr>, p_disabled := True\<rparr>) else Inr q) (handled s)"
    if q: "sess q" "st_of s q = BS_CLOSE" for q nocap
  proof -
    have "proto_state q \<noteq> PS_DOWN" by (rule opened_not_down [OF q(1), of s]) (simp add: q(2))
    then have "returns (bgp_stop 0 [] (bgp_update_startup_delay q)) (handled s)" using q by (intro stop_handled) simp_all
    moreover have "handled s (q\<lparr>b_err := e, p_disabled := b\<rparr>)" "handled s q" for e b using q by (simp_all add: handled_def)
    ultimately show ?thesis by simp
  qed
  have "returns (bgp_log_error BE_BGP_RX ?code ?sub (drop 21 pkt) p)
      (\<lambda>q. sess q \<and> (\<forall>t. conn_of t q = conn_of t p) \<and> b_cf q = b_cf p \<and> proto_state q = proto_state p)"
    using assms(3) by (intro log_error_ok [OF assms(1)]) simp
  then show ?thesis unfolding bgp_rx_notification_def if_not_P [OF False] Let_def returns_rbind
  proof (rule returns_mono, goal_cases)
    case (1 q)
    then have q: "sess (bgp_store_error c cl co q)" "opened (st_of s (bgp_store_error c cl co q))" for c cl co using assms(2) by simp_all
    show ?case
      by (rule closed_handled [OF nocap_ok [OF q]]) (use q in simp, rule fin)
  qed
qed

lemma rx_keepalive_ok:
  assumes "sess p" "opened (st_of s p)"
  shows "returns (bgp_rx_keepalive s p) (handled s)"
proof -
  have "returns (case st_of s q of BS_OPENCONFIRM \<Rightarrow> bgp_conn_enter_established_state s q | BS_ESTABLISHED \<Rightarrow> Inr q
      | st \<Rightarrow> bgp_error s 5 (fsm_err_subcode st) [] q) (handled s)" if q: "sess q" "opened (st_of s q)" for q
    using error_handled [OF q] returns_mono [OF established_ok [OF q(1), of s], of "handled s"] q
    by (cases "st_of s q") (auto simp: handled_def)
  then show ?thesis unfolding bgp_rx_keepalive_def returns_rbind
    by (rule returns_mono [OF start_hold_ok [OF assms]]) (use assms(2) in auto)
qed

lemma refresh_ok:
  "sess (bgp_refresh_begin p) = sess p" "st_of s (bgp_refresh_begin p) = st_of s p"
  "sess (bgp_refresh_end p) = sess p" "st_of s (bgp_refresh_end p) = st_of s p"
  by (simp_all add: bgp_refresh_begin_def bgp_refresh_end_def bgp_call_def)

lemma refeed_ok:
  assumes "sess p" "st_of s p = BS_ESTABLISHED"
  shows "returns (proto_request_feeding bgp_feed_begin p) (handled s)"
proof -
  have up: "proto_state p = PS_UP" using sess_opened_states(1) [OF assms] by simp
  have "returns (proto_request_feeding bgp_feed_begin p) sess"
    using bgp_core.proto_request_feeding_ok [of p] assms(1) up unfolding bgp_healthy by (simp add: bgp_hooks_def)
  moreover have "returns (proto_request_feeding bgp_feed_begin p) (\<lambda>q. st_of s q = st_of s p)"
    using up more_eqD(3) [of "p\<lparr>st_exp_routes := 0, export_state := ES_FEEDING, p_refeeding := True,
        p_attn := Some Proto_feed_more, p_attn_active := True\<rparr>" p s]
    by (simp add: proto_request_feeding_def proto_schedule_feed_def feed_begin_ok)
  ultimately have "returns (proto_request_feeding bgp_feed_begin p) (\<lambda>q. sess q \<and> st_of s q = st_of s p)" by (rule returns_conj)
  then show ?thesis by (rule returns_mono) (simp add: handled_def assms(2))
qed

lemma rx_route_refresh_ok:
  assumes "sess p" "opened (st_of s p)"
  shows "returns (bgp_rx_route_refresh s pkt p) (handled s)"
proof (cases "st_of s p = BS_ESTABLISHED")
  case True
  then have "handled s (bgp_refresh_begin p)" "handled s (bgp_refresh_end p)" "handled s p"
    using assms by (simp_all add: handled_def refresh_ok)
  then show ?thesis using refeed_ok [OF assms(1) True] error_handled [OF assms] True
    by (simp add: bgp_rx_route_refresh_def Let_def)
qed (simp add: bgp_rx_route_refresh_def error_handled assms)

section \<open>Packets\<close>

lemma rx_packet_ok:
  assumes "bgp_lib_ok (en_lib E)" "clean_packet E pkt" "sess p" "opened (st_of s p)"
  shows "returns (bgp_rx_packet E s pkt p) (handled s)"
proof -
  have "returns (bgp_rx_open E s pkt p) (handled s)" if "unat (pkt ! 18) = PKT_OPEN"
    using that assms(2) by (intro rx_open_ok [OF assms(3,4)]) (simp add: clean_packet_def)
  moreover have "returns (bgp_rx_notification s pkt p) (handled s)" if "unat (pkt ! 18) = PKT_NOTIFICATION"
    using that assms(2) by (intro rx_notification_ok [OF assms(3,4)]) (simp add: clean_packet_def)
  ultimately show ?thesis
    using rx_update_ok [OF assms(1,3,4)] rx_keepalive_ok [OF assms(3,4)] rx_route_refresh_ok [OF assms(3,4)] error_handled [OF assms(3,4)]
    by (simp add: bgp_rx_packet_def Let_def)
qed

text \<open>A connection with a socket that is not closing is open; this is where the loop of \<open>bgp_rx\<close> goes on.\<close>

lemma rx_ok:
  "bgp_lib_ok (en_lib E) \<Longrightarrow> clean_stream E b \<Longrightarrow> handled s p \<Longrightarrow> returns (bgp_rx E s sk b p) (\<lambda>(_, q). handled s q)"
proof (induction E s sk b p rule: bgp_rx.induct)
  case (1 E s sk b p)
  show ?case
  proof (cases "length b < BGP_HEADER_LENGTH \<or> st_of s p = BS_CLOSE \<or>
      (case c_sk (conn_of s p) of None \<Rightarrow> True | Some k \<Rightarrow> sk_ref k \<noteq> sk)")
    case True
    then show ?thesis using 1(4) by (subst bgp_rx.simps) (auto simp: returns_def)
  next
    case False
    have p: "sess p" "st_of s p \<noteq> BS_IDLE"
      using 1(4) False sess_conn [of p s] by (auto simp: handled_def conn_ok_def split: option.splits)
    then have op: "opened (st_of s p)" using 1(4) by (simp add: handled_def)
    let ?len = "unat (get_u16 (en_net E) (take 2 (drop 16 b)))"
    have marker: "returns (if good_marker b then Inr p else bgp_error s 1 1 [] p) (\<lambda>q. sess q \<and> opened (st_of s q))"
      using p op returns_mono [OF error_ok [of "{}" p s 1 1 "[]" True], of "\<lambda>q. sess q \<and> opened (st_of s q)"] by (simp add: bgp_error_def)
    have body: "returns (let len = ?len in
        if len < BGP_HEADER_LENGTH \<or> len > bgp_max_packet_length (ng_ext_messages (b_neg x))
          then rmap (\<lambda>p. (b, p)) (bgp_error s 1 2 (take 2 (drop 16 b)) x)
        else if length b < len then Inr (b, x)
        else rbind (bgp_rx_packet E s (take len b) x) (bgp_rx E s sk (drop len b))) (\<lambda>(_, q). handled s q)"
      if x: "(if good_marker b then Inr p else bgp_error s 1 1 [] p) = Inr x" "sess x \<and> opened (st_of s x)" for x
    proof (cases "?len < BGP_HEADER_LENGTH \<or> ?len > bgp_max_packet_length (ng_ext_messages (b_neg x)) \<or> length b < ?len")
      case True
      have "handled s x" using x(2) by (simp add: handled_def)
      then show ?thesis using x(2) error_handled [of x s] True by (auto simp: Let_def)
    next
      case len: False
      have clean: "clean_packet E (take ?len b)" "clean_stream E (drop ?len b)"
        using 1(3) False len by (simp_all add: clean_stream.simps [of E b] Let_def)
      have "returns (bgp_rx_packet E s (take ?len b) x) (handled s)"
        using 1(2) clean(1) x(2) by (intro rx_packet_ok) simp_all
      then have "returns (bgp_rx_packet E s (take ?len b) x) (\<lambda>y. returns (bgp_rx E s sk (drop ?len b) y) (\<lambda>(_, q). handled s q))"
        by (rule returns_mono) (rule 1(1) [OF _ _ x(1) refl], use False len clean(2) 1(2) in simp_all)
      then show ?thesis using len by (simp add: Let_def)
    qed
    have "bgp_rx E s sk b p = rbind (if good_marker b then Inr p else bgp_error s 1 1 [] p) (\<lambda>p. let len = ?len in
        if len < BGP_HEADER_LENGTH \<or> len > bgp_max_packet_length (ng_ext_messages (b_neg p))
          then rmap (\<lambda>p. (b, p)) (bgp_error s 1 2 (take 2 (drop 16 b)) p)
        else if length b < len then Inr (b, p)
        else rbind (bgp_rx_packet E s (take len b) p) (bgp_rx E s sk (drop len b)))"
      using False by (subst bgp_rx.simps) simp
    then show ?thesis using returns_mono [OF marker body] by simp
  qed
qed

end
