(* ===== verification/BgpTxSafe.thy ===== *)
theory BgpTxSafe
  imports BgpHandlers
begin

text \<open>
  Sending: \<open>bgp_fire_tx\<close> keeps a session proper, and the loop that calls it ends.
\<close>

section \<open>The state\<close>

text \<open>The attributes of every bucket can be encoded.\<close>

definition encodable :: "bgp_env \<Rightarrow> bgp \<Rightarrow> bool" where
  "encodable E p \<longleftrightarrow> (\<forall>b \<in> set (tx_buckets (b_tx p)). \<forall>n. returns (bgp_encode_attrs (en_lib E) (b_p p) (fst b) n) (\<lambda>_. True))"

lemma encoded_le: "bgp_encode_prefixes U ap m ns = (w, rest) \<Longrightarrow> length rest \<le> length ns"
  by (induction ns arbitrary: m w rest) (fastforce simp: Let_def split: prod.splits if_splits)+

lemma encoded_shrink: "bgp_encode_prefixes U ap m ns = (w, rest) \<Longrightarrow> w \<noteq> [] \<Longrightarrow> length rest < length ns"
  by (cases ns) (auto simp: Let_def less_Suc_eq_le dest: encoded_le split: prod.splits if_splits)

lemma update_buckets_returns:
  "(\<And>b n. b \<in> set bs \<Longrightarrow> returns (bgp_encode_attrs L q (fst b) n) (\<lambda>_. True)) \<Longrightarrow>
   returns (update_buckets L q ap remains bs) (\<lambda>(r, bs'). (\<forall>b \<in> set bs'. fst b \<in> fst ` set bs) \<and> length (concat (map snd bs')) \<le> length (concat (map snd bs)) \<and>
     (\<forall>a n. r = Some (a, n) \<and> n \<noteq> [] \<longrightarrow> length (concat (map snd bs')) < length (concat (map snd bs))))"
proof (induction L q ap remains bs rule: update_buckets.induct)
  case (2 L q ap remains attrs ns bs)
  have skip: "returns (update_buckets L q ap remains bs) (\<lambda>(r, bs'). (\<forall>b \<in> set bs'. fst b \<in> fst ` set ((attrs, ns) # bs)) \<and>
     length (concat (map snd bs')) \<le> length (concat (map snd ((attrs, ns) # bs))) \<and>
     (\<forall>a n. r = Some (a, n) \<and> n \<noteq> [] \<longrightarrow> length (concat (map snd bs')) < length (concat (map snd ((attrs, ns) # bs)))))"
    if "returns (update_buckets L q ap remains bs) (\<lambda>(r, bs'). (\<forall>b \<in> set bs'. fst b \<in> fst ` set bs) \<and> length (concat (map snd bs')) \<le> length (concat (map snd bs)) \<and>
     (\<forall>a n. r = Some (a, n) \<and> n \<noteq> [] \<longrightarrow> length (concat (map snd bs')) < length (concat (map snd bs))))"
    using that by (rule returns_mono) auto
  show ?case
  proof (cases "ns = []")
    case True
    then show ?thesis using 2(1) 2(3) skip by simp
  next
    case False
    obtain r where r: "bgp_encode_attrs L q attrs (int remains - 1024) = Inr r" using 2(3) [of "(attrs, ns)"] by (auto simp: returns_def)
    show ?thesis
    proof (cases r)
      case None
      have "returns (update_buckets L q ap remains bs) (\<lambda>(r, bs'). (\<forall>b \<in> set bs'. fst b \<in> fst ` set bs) \<and> length (concat (map snd bs')) \<le> length (concat (map snd bs)) \<and>
         (\<forall>a n. r = Some (a, n) \<and> n \<noteq> [] \<longrightarrow> length (concat (map snd bs')) < length (concat (map snd bs))))"
        using r None False by (intro 2(2) 2(3)) simp_all
      then show ?thesis using skip r None False by simp
    next
      case (Some a)
      then show ?thesis using False r
        by (cases "bgp_encode_prefixes (bl_net L) ap (remains - length a) ns") (auto dest: encoded_shrink encoded_le)
    qed
  qed
qed simp


section \<open>One message\<close>

lemma sent_update: "bit (c_to_send c AND NOT (push_bit type 1)) m \<longleftrightarrow> bit (c_to_send c) m \<and> m \<noteq> type"
  by (auto simp: bit_simps dest: bit_imp_le_length)

lemma conn_ok_to_send:
  assumes "conn_ok x s c" "bit n PKT_UPDATE \<Longrightarrow> bit (c_to_send c) PKT_UPDATE \<and>
      (bit (c_to_send c) PKT_NOTIFICATION \<longrightarrow> bit n PKT_NOTIFICATION) \<and> (bit (c_to_send c) PKT_SCHEDULE_CLOSE \<longrightarrow> bit n PKT_SCHEDULE_CLOSE)"
  shows "conn_ok x s (c\<lparr>c_to_send := n\<rparr>)"
  using assms by (cases "c_state c"; cases "bit n PKT_UPDATE") (auto simp: conn_ok_def)

lemma conn_ok_none: "conn_ok x s c \<Longrightarrow> conn_ok x s (c\<lparr>c_to_send := 0\<rparr>)"
  by (rule conn_ok_to_send) simp_all

lemma conn_ok_sent:
  "conn_ok x s c \<Longrightarrow> type \<noteq> PKT_NOTIFICATION \<Longrightarrow> type \<noteq> PKT_SCHEDULE_CLOSE \<Longrightarrow>
   conn_ok x s (c\<lparr>c_to_send := c_to_send c AND NOT (push_bit type 1)\<rparr>)"
  by (rule conn_ok_to_send, assumption) (auto simp only: sent_update)

lemma conn_ok_to_close: "conn_ok x s c \<Longrightarrow> conn_ok x s (c\<lparr>c_to_send := push_bit PKT_SCHEDULE_CLOSE 1\<rparr>)"
  by (rule conn_ok_to_send, assumption) (simp only: pkt_bits)

lemma conn_ok_idle_flag: "conn_ok x s c \<Longrightarrow> c_sk c = Some k \<Longrightarrow> conn_ok x s (c\<lparr>c_sk := Some (k\<lparr>sk_idle := b\<rparr>)\<rparr>)"
  by (cases "c_state c") (auto simp: conn_ok_def)

text \<open>A bound on the messages that are still to be sent.\<close>

definition updates_to_come :: "bgp \<Rightarrow> nat" where
  "updates_to_come p = length (tx_withdraw (b_tx p)) + length (concat (map snd (tx_buckets (b_tx p)))) +
     of_bool (b_feed_state p = BFS_LOADED \<or> b_feed_state p = BFS_REFRESHED)"

definition to_come :: "side \<Rightarrow> bgp \<Rightarrow> nat" where
  "to_come s p =
     (if pending s PKT_SCHEDULE_CLOSE p then 0
      else if pending s PKT_NOTIFICATION p then 1
      else of_bool (pending s PKT_KEEPALIVE p) + of_bool (pending s PKT_OPEN p) + of_bool (pending s PKT_ROUTE_REFRESH p) +
        of_bool (pending s PKT_BEGIN_REFRESH p) + (if pending s PKT_UPDATE p then updates_to_come p else 0))"

text \<open>A proper state with fewer messages, on the same socket.\<close>

definition later :: "bgp_env \<Rightarrow> side \<Rightarrow> bgp \<Rightarrow> bgp \<Rightarrow> bool" where
  "later E s p q \<longleftrightarrow> sess q \<and> encodable E q \<and> c_sk (conn_of s q) = c_sk (conn_of s p) \<and> to_come s q < to_come s p"

lemma pending_sent [simp]: "pending s m (sent_one s type p) \<longleftrightarrow> pending s m p \<and> m \<noteq> type"
  unfolding pending_def sent_one_def conn_of_upd by (simp add: sent_update del: push_bit_of_1)

lemma updates_sent [simp]: "updates_to_come (upd_conn s f p) = updates_to_come p" "encodable E (upd_conn s f p) = encodable E p"
  by (cases s; simp add: updates_to_come_def encodable_def)+

lemma to_come_upd: "c_to_send (f (conn_of s p)) = c_to_send (conn_of s p) \<Longrightarrow> to_come s (upd_conn s f p) = to_come s p"
  by (simp add: to_come_def pending_def)

lemma sent_one_ok:
  assumes "sess p" "encodable E p" "pending s type p" "\<not> pending s PKT_SCHEDULE_CLOSE p" "\<not> pending s PKT_NOTIFICATION p"
    "type \<in> {PKT_KEEPALIVE, PKT_OPEN, PKT_ROUTE_REFRESH, PKT_BEGIN_REFRESH}"
  shows "later E s p (sent_one s type p)"
proof -
  have types: "type \<noteq> PKT_NOTIFICATION" "type \<noteq> PKT_SCHEDULE_CLOSE" using assms(6) by (auto simp: pkt_defs)
  have "sess (sent_one s type p)" unfolding sent_one_def
    by (rule sess_upd [OF assms(1)]) (rule conn_ok_sent [OF sess_conn [OF assms(1)] types], simp)
  moreover have "to_come s (sent_one s type p) < to_come s p"
  proof -
    have "updates_to_come (sent_one s type p) = updates_to_come p" by (simp add: sent_one_def)
    then show ?thesis using assms(3-6) unfolding to_come_def pending_sent insert_iff empty_iff
      by (elim disjE) (simp_all add: pkt_defs)
  qed
  ultimately show ?thesis using assms(2) by (simp add: later_def) (simp add: sent_one_def)
qed


text \<open>What \<open>bgp_create_update\<close> leaves of the queues.\<close>

lemma create_update_returns:
  assumes "\<And>b n. b \<in> set bs \<Longrightarrow> returns (bgp_encode_attrs L q (fst b) n) (\<lambda>_. True)"
  shows "returns (bgp_create_update L q ext ap wd bs) (\<lambda>(r, wd', bs'). (\<forall>b \<in> set bs'. fst b \<in> fst ` set bs) \<and>
    length wd' + length (concat (map snd bs')) \<le> length wd + length (concat (map snd bs)) \<and>
    (r \<noteq> None \<longrightarrow> length wd' + length (concat (map snd bs')) < length wd + length (concat (map snd bs))))"
proof -
  let ?n = "bgp_max_packet_length ext - BGP_HEADER_LENGTH - 4"
  obtain w wd' where w: "(if wd \<noteq> [] then bgp_encode_prefixes (bl_net L) ap ?n wd else ([], wd)) = (w, wd')"
    by (cases "if wd \<noteq> [] then bgp_encode_prefixes (bl_net L) ap ?n wd else ([], wd)")
  have wd: "length wd' \<le> length wd" "w \<noteq> [] \<Longrightarrow> length wd' < length wd"
    using w by (auto dest: encoded_le encoded_shrink split: if_splits)
  have "returns (update_buckets L q ap ?n bs) (\<lambda>(r, bs'). (\<forall>b \<in> set bs'. fst b \<in> fst ` set bs) \<and> length (concat (map snd bs')) \<le> length (concat (map snd bs)) \<and>
     (\<forall>a n. r = Some (a, n) \<and> n \<noteq> [] \<longrightarrow> length (concat (map snd bs')) < length (concat (map snd bs))))"
    using assms by (rule update_buckets_returns)
  then show ?thesis using wd unfolding bgp_create_update_def Let_def w prod.case
    by (auto elim!: returns_mono split: option.splits)
qed

lemma next_update_ok:
  assumes "sess p" "encodable E p" "pending s PKT_UPDATE p" "\<not> pending s PKT_SCHEDULE_CLOSE p" "\<not> pending s PKT_NOTIFICATION p"
    "c_sk (conn_of s p) = Some k"
  shows "returns (next_update E s p) (\<lambda>(m, q). sess q \<and> (m \<noteq> None \<longrightarrow> later E s p q))"
proof -
  have "st_of s p = BS_ESTABLISHED" using sess_conn [OF assms(1), of s] assms(3-6) by (auto simp: conn_ok_def pending_def)
  then have t: "tx_tables (b_tx p)"
    using sess_parts(1) [OF assms(1)] sess_opened_states(1) [OF assms(1)] unfolding base_iff [of "{}" p s] by simp
  have up: "to_come s p = of_bool (pending s PKT_KEEPALIVE p) + of_bool (pending s PKT_OPEN p) + of_bool (pending s PKT_ROUTE_REFRESH p) +
      of_bool (pending s PKT_BEGIN_REFRESH p) + updates_to_come p"
    using assms(3-5) by (simp add: to_come_def)
  have fewer: "later E s p q" if "sess q" "conn_of s q = conn_of s p" "encodable E q" "updates_to_come q < updates_to_come p" for q
    using that up assms(3-5) by (simp add: later_def to_come_def pending_def)
  let ?ap = "ng_add_path_tx (b_neg p)" and ?ext = "ng_ext_messages (b_neg p)" and ?wd = "tx_withdraw (b_tx p)" and ?bs = "tx_buckets (b_tx p)"
  define after where "after wd bs = p\<lparr>b_tx := (b_tx p)\<lparr>tx_withdraw := wd, tx_buckets := bs\<rparr>\<rparr>" for wd bs
  have after: "sess (after wd bs)" "conn_of s (after wd bs) = conn_of s p" "b_feed_state (after wd bs) = b_feed_state p" for wd bs
    using assms(1) t by (simp_all add: after_def sound_def base_def phase_def)
  have enc: "encodable E (after wd bs)" if sub: "\<forall>b \<in> set bs. fst b \<in> fst ` set ?bs" for wd bs
    unfolding encodable_def
  proof (intro ballI allI)
    fix b n assume "b \<in> set (tx_buckets (b_tx (after wd bs)))"
    then obtain c where "c \<in> set ?bs" "fst b = fst c" using sub by (auto simp: after_def)
    then show "returns (bgp_encode_attrs (en_lib E) (b_p (after wd bs)) (fst b) n) (\<lambda>_. True)"
      using assms(2) by (simp add: encodable_def after_def)
  qed
  have "returns (case r of
          Some body \<Rightarrow> Inr (Some (PKT_UPDATE, body), after wd bs)
        | None \<Rightarrow>
            if b_feed_state (after wd bs) = BFS_LOADED then
              Inr (Some (PKT_UPDATE, bgp_create_end_mark (en_net E)), (after wd bs)\<lparr>b_feed_state := BFS_NONE\<rparr>)
            else if b_feed_state (after wd bs) = BFS_REFRESHED then
              Inr (Some (PKT_ROUTE_REFRESH, bgp_create_end_refresh), (after wd bs)\<lparr>b_feed_state := BFS_NONE\<rparr>)
            else Inr (None, upd_conn s (\<lambda>c. c\<lparr>c_to_send := 0\<rparr>) (after wd bs)))
      (\<lambda>(m, q). sess q \<and> (m \<noteq> None \<longrightarrow> later E s p q))"
    if r: "\<forall>b \<in> set bs. fst b \<in> fst ` set ?bs" "length wd + length (concat (map snd bs)) \<le> length ?wd + length (concat (map snd ?bs))"
      "r \<noteq> None \<longrightarrow> length wd + length (concat (map snd bs)) < length ?wd + length (concat (map snd ?bs))" for r wd bs
  proof -
    have cleared: "sess (upd_conn s (\<lambda>c. c\<lparr>c_to_send := 0\<rparr>) (after wd bs))"
      by (rule sess_upd [OF after(1)]) (simp_all add: conn_ok_none sess_conn [OF after(1)])
    have some: "later E s p (after wd bs)" if "r \<noteq> None"
      using r that by (intro fewer after enc) (simp_all add: updates_to_come_def after_def)
    have none: "later E s p ((after wd bs)\<lparr>b_feed_state := BFS_NONE\<rparr>)" if "b_feed_state p = BFS_LOADED \<or> b_feed_state p = BFS_REFRESHED"
      using r(1,2) that enc [OF r(1), of wd] after(1) [of wd bs] after(2) [of wd bs]
      by (intro fewer) (simp_all add: updates_to_come_def after_def encodable_def)
    show ?thesis using some none cleared after(1,3) by (cases r) (simp_all add: later_def)
  qed
  moreover have "returns (bgp_create_update (en_lib E) (b_p p) ?ext ?ap ?wd ?bs) (\<lambda>(r, wd, bs). (\<forall>b \<in> set bs. fst b \<in> fst ` set ?bs) \<and>
      length wd + length (concat (map snd bs)) \<le> length ?wd + length (concat (map snd ?bs)) \<and>
      (r \<noteq> None \<longrightarrow> length wd + length (concat (map snd bs)) < length ?wd + length (concat (map snd ?bs))))"
    using assms(2) by (intro create_update_returns) (simp add: encodable_def)
  ultimately show ?thesis using t unfolding next_update_def Let_def after_def
    by (auto elim!: returns_mono)
qed

lemma next_message_ok:
  assumes "sess p" "encodable E p" "c_sk (conn_of s p) = Some k"
  shows "returns (next_message E s p) (\<lambda>(m, q). sess q \<and> (m \<noteq> None \<longrightarrow> later E s p q))"
proof -
  have live: "st_of s p \<noteq> BS_IDLE" "c_live (conn_of s p)"
    using sess_conn [OF assms(1), of s] assms(3) by (auto simp: conn_ok_def split: bs.splits)
  consider (close) "pending s PKT_SCHEDULE_CLOSE p" | (notify) "\<not> pending s PKT_SCHEDULE_CLOSE p" "pending s PKT_NOTIFICATION p"
    | (other) "\<not> pending s PKT_SCHEDULE_CLOSE p" "\<not> pending s PKT_NOTIFICATION p" by blast
  then show ?thesis
  proof cases
    case close
    have "returns (bgp_conn_enter_idle_state s p) sess"
      by (rule returns_mono [OF idle_ok [OF assms(1) live(1)]]) simp
    then show ?thesis using close by (simp add: next_message_def)
  next
    case notify
    let ?q = "upd_conn s (\<lambda>c. c\<lparr>c_to_send := push_bit PKT_SCHEDULE_CLOSE 1\<rparr>) p"
    have "sess ?q" by (rule sess_upd [OF assms(1)]) (rule conn_ok_to_close [OF sess_conn [OF assms(1)]], simp)
    moreover have "pending s PKT_SCHEDULE_CLOSE ?q" unfolding pending_def conn_of_upd by (simp del: push_bit_of_1)
    ultimately have "later E s p ?q" using notify assms(2) by (simp add: later_def to_come_def del: push_bit_of_1)
    then show ?thesis using notify \<open>sess ?q\<close> by (simp add: next_message_def case_prod_unfold del: push_bit_of_1)
  next
    case other
    have one: "later E s p (sent_one s type p)"
      if "pending s type p" "type \<in> {PKT_KEEPALIVE, PKT_OPEN, PKT_ROUTE_REFRESH, PKT_BEGIN_REFRESH}" for type
      by (rule sent_one_ok [OF assms(1,2) that(1) other that(2)])
    then have s1: "sess (sent_one s type p)"
      if "pending s type p" "type \<in> {PKT_KEEPALIVE, PKT_OPEN, PKT_ROUTE_REFRESH, PKT_BEGIN_REFRESH}" for type
      using that by (simp add: later_def)
    have kl: "c_live (conn_of s (sent_one s PKT_KEEPALIVE p))" using live(2) by (simp add: sent_one_def)
    have ka: "later E s p (upd_conn s (\<lambda>c. c\<lparr>c_keepalive_timer := c_keepalive_time c\<rparr>) (sent_one s PKT_KEEPALIVE p))"
      if "pending s PKT_KEEPALIVE p"
      using one [OF that] sess_upd [OF s1 [OF that], where f = "\<lambda>c. c\<lparr>c_keepalive_timer := c_keepalive_time c\<rparr>" and s = s]
      by (simp add: later_def sess_conn to_come_upd)
    show ?thesis using other one ka next_update_ok [OF assms(1,2) _ other assms(3)] assms(1)
      by (simp add: next_message_def on_timers_live [OF kl]) (simp add: later_def)
  qed
qed


section \<open>The loop\<close>

lemma call_same [simp]: "sound X (bgp_call c p) = sound X p" "conn_of s (bgp_call c p) = conn_of s p"
  "updates_to_come (bgp_call c p) = updates_to_come p" "encodable E (bgp_call c p) = encodable E p"
  by (simp_all add: bgp_call_def updates_to_come_def encodable_def)

lemma call_to_come [simp]: "to_come s (bgp_call c p) = to_come s p"
  unfolding to_come_def pending_def call_same ..

lemma sk_send_later:
  assumes "later E s p0 p" "c_sk (conn_of s p) = Some k"
  shows "returns (sk_send s r msg p) (\<lambda>(again, q). sess q \<and> (again \<longrightarrow> encodable E q \<and> c_sk (conn_of s q) \<noteq> None \<and> to_come s q < to_come s p0))"
proof -
  let ?p = "bgp_call (Sk_send s msg) p"
  have p: "sess ?p" "c_sk (conn_of s ?p) = Some k" "encodable E ?p" "to_come s ?p < to_come s p0"
    using assms by (simp_all add: later_def)
  have st: "st_of s ?p \<noteq> BS_IDLE" using sess_conn [OF p(1), of s] p(2) by (auto simp: conn_ok_def)
  have flag: "sess (upd_conn s (\<lambda>c. c\<lparr>c_sk := Some (k\<lparr>sk_idle := b\<rparr>)\<rparr>) ?p)" for b
    using p(1,2) by (intro sess_upd) (simp_all add: conn_ok_idle_flag sess_conn)
  have "returns (bgp_sock_err s e (upd_conn s (\<lambda>c. c\<lparr>c_sk := Some (k\<lparr>sk_idle := b\<rparr>)\<rparr>) ?p)) sess" for e b
    using st by (intro returns_mono [OF sock_err_ok [OF flag]]) simp_all
  then show ?thesis using flag p(3,4) by (cases r) (simp_all add: sk_send_def Let_def on_sock_some [OF p(2)] to_come_upd)
qed

lemma fire_tx_ok:
  assumes "sess p" "encodable E p"
  shows "returns (bgp_fire_tx E s r p) (\<lambda>(again, q). sess q \<and> (again \<longrightarrow> encodable E q \<and> to_come s q < to_come s p))"
proof (cases "c_sk (conn_of s p)")
  case None
  have "sess (upd_conn s (\<lambda>c. c\<lparr>c_to_send := 0\<rparr>) p)"
    by (rule sess_upd [OF assms(1)]) (simp_all add: conn_ok_none sess_conn [OF assms(1)])
  then show ?thesis using None by (simp add: bgp_fire_tx_def)
next
  case (Some k)
  have "returns (case m of None \<Rightarrow> Inr (False, q)
      | Some (type, body) \<Rightarrow> sk_send s r (bgp_create_header (en_net E) (BGP_HEADER_LENGTH + length body) (of_nat type) @ body) q)
      (\<lambda>(again, q). sess q \<and> (again \<longrightarrow> encodable E q \<and> to_come s q < to_come s p))"
    if q: "sess q" "m \<noteq> None \<longrightarrow> later E s p q" for m q
  proof (cases m)
    case (Some mb)
    then have "later E s p q" "c_sk (conn_of s q) = Some k" using q(2) \<open>c_sk (conn_of s p) = Some k\<close> by (simp_all add: later_def)
    from returns_mono [OF sk_send_later [OF this], of r _ "\<lambda>(again, q). sess q \<and> (again \<longrightarrow> encodable E q \<and> to_come s q < to_come s p)"]
    show ?thesis using Some by (simp add: case_prod_unfold)
  qed (simp add: q)
  moreover have "bgp_fire_tx E s r p = rbind (next_message E s p) (\<lambda>(m, q). case m of None \<Rightarrow> Inr (False, q)
      | Some (type, body) \<Rightarrow> sk_send s r (bgp_create_header (en_net E) (BGP_HEADER_LENGTH + length body) (of_nat type) @ body) q)"
    using Some by (simp add: bgp_fire_tx_def)
  ultimately show ?thesis using next_message_ok [OF assms Some] by (auto elim!: returns_mono)
qed

text \<open>One answer of the socket for each message, and one for the call that finds nothing to send, are enough.\<close>

lemma fire_loop_ok:
  "sess p \<Longrightarrow> encodable E p \<Longrightarrow> to_come s p < length rs \<Longrightarrow> ends (fire_loop E s rs p) sess"
proof (induction rs arbitrary: p)
  case (Cons r rs)
  obtain again q where q: "bgp_fire_tx E s r p = Inr (again, q)" "sess q" "again \<longrightarrow> encodable E q \<and> to_come s q < to_come s p"
    using fire_tx_ok [OF Cons.prems(1,2), of s r] by (auto simp: returns_def)
  then show ?case using Cons.IH [of q] Cons.prems(3) by auto
qed simp

lemma kick_tx_ok: "sess p \<Longrightarrow> encodable E p \<Longrightarrow> to_come s p < length rs \<Longrightarrow> ends (bgp_kick_tx E s rs p) sess"
  unfolding bgp_kick_tx_def
  by (rule fire_loop_ok) (simp_all add: sess_upd sess_conn to_come_upd)

lemma tx_ok:
  assumes "sess p" "encodable E p" "to_come s p < length rs" "c_sk (conn_of s p) = Some k"
  shows "ends (bgp_tx E s rs p) sess"
proof -
  have "sess (upd_conn s (\<lambda>c. c\<lparr>c_sk := Some (k\<lparr>sk_idle := True\<rparr>)\<rparr>) p)"
    using assms(1,4) by (intro sess_upd) (simp_all add: conn_ok_idle_flag sess_conn)
  then have "ends (fire_loop E s rs (upd_conn s (\<lambda>c. c\<lparr>c_sk := Some (k\<lparr>sk_idle := True\<rparr>)\<rparr>) p)) sess"
    using assms(2,3) by (intro fire_loop_ok) (simp_all add: to_come_upd)
  then show ?thesis by (simp add: bgp_tx_def on_sock_some [OF assms(4)])
qed

end
