(* ===== verification/BgpSystem.thy ===== *)
theory BgpSystem
  imports BgpQueue BgpRxSafe BgpTxSafe
begin

text \<open>
  An instance of the protocol and everything that happens to it, in any order: commands and loops of the
  module \<open>nest/proto.c\<close>, timers, sockets, neighbors, routes of the table, received bytes and messages that
  are sent.
\<close>

section \<open>Events\<close>

text \<open>What the module for protocols does with an instance.\<close>

datatype core_event =
    Rethink
  | Cmd_disable "u8 list option"
  | Cmd_enable "u8 list option"
  | Cmd_restart "u8 list option"
  | Cmd_reload reload_dir
  | Schedule_down bool u8
  | Shutdown_loop
  | Flush_loop bool
  | Feed bool
  | Recovery_done

text \<open>What calls the functions of \<open>proto/bgp\<close>.\<close>

datatype event =
    Core core_event
  | Got_lock "neigh_info option" bool bool
  | Neighbor neigh_info bool bool
  | Bfd bool
  | Startup_timer
  | Connect_timer sock bool
  | Connected
  | Hold_timer side bool
  | Keepalive_timer side
  | Restart_timer
  | Decision
  | Incoming_connection sock bool
  | Socket_error side u32
  | Received side "u8 list"
  | Writable side "sent list"
  | Kick side "sent list"
  | Table_route u32 u8 u32 "(ea_seg list \<times> bool) option"

text \<open>
  The function that is called. A state change to \<open>PS_DOWN\<close> calls \<open>proto_fell_down\<close>; with one call of it
  there is nothing left to be done.
\<close>

definition run_core :: "bgp proto_hooks \<Rightarrow> core_event \<Rightarrow> bgp \<Rightarrow> bgp res option" where
  "run_core H ev p =
     (case ev of
        Rethink \<Rightarrow> proto_rethink_goal H 1 p
      | Cmd_disable m \<Rightarrow> proto_cmd_disable H 1 m p
      | Cmd_enable m \<Rightarrow> proto_cmd_enable H 1 m p
      | Cmd_restart m \<Rightarrow> proto_cmd_restart H 1 m p
      | Cmd_reload dir \<Rightarrow> Some (proto_cmd_reload H dir p)
      | Schedule_down restart code \<Rightarrow> Some (proto_schedule_down restart code p)
      | Shutdown_loop \<Rightarrow> proto_shutdown_loop H 1 p
      | Flush_loop over \<Rightarrow> proto_flush_loop H 1 over p
      | Feed fed \<Rightarrow> Some (Inr (run_attn (h_feed_end H) fed p))
      | Recovery_done \<Rightarrow> Some (graceful_restart_done (h_feed_begin H) p))"

definition run_event :: "bgp_env \<Rightarrow> bgp proto_hooks \<Rightarrow> event \<Rightarrow> bgp \<Rightarrow> bgp res option" where
  "run_event E H ev p =
     (case ev of
        Core ev \<Rightarrow> run_core H ev p
      | Got_lock n l m \<Rightarrow> settle H 1 (bgp_start_locked n l m p)
      | Neighbor n l m \<Rightarrow> settle H 1 (bgp_neigh_notify n l m p)
      | Bfd down \<Rightarrow> Some (bgp_bfd_notify down p)
      | Startup_timer \<Rightarrow> Some (Inr (bgp_startup_timeout p))
      | Connect_timer k ok \<Rightarrow> Some (bgp_connect_timeout Outgoing k ok p)
      | Connected \<Rightarrow> Some (bgp_connected Outgoing p)
      | Hold_timer s rx \<Rightarrow> Some (bgp_hold_timeout s rx p)
      | Keepalive_timer s \<Rightarrow> Some (Inr (bgp_keepalive_timeout s p))
      | Restart_timer \<Rightarrow> Some (bgp_graceful_restart_timeout p)
      | Decision \<Rightarrow> settle H 1 (bgp_decision p)
      | Incoming_connection k ttl_ok \<Rightarrow> Some (bgp_incoming_connection k ttl_ok p)
      | Socket_error s err \<Rightarrow> Some (bgp_sock_err s err p)
      | Received s b \<Rightarrow> (case c_sk (conn_of s p) of None \<Rightarrow> Some (Inr p) | Some k \<Rightarrow> Some (rmap snd (bgp_rx E s (sk_ref k) b p)))
      | Writable s rs \<Rightarrow> bgp_tx E s rs p
      | Kick s rs \<Rightarrow> bgp_kick_tx E s rs p
      | Table_route px len gid r \<Rightarrow> Some (bgp_rt_notify (en_lib E) px len gid r p))"

text \<open>
  When an event can happen: a timer that runs out is set, a socket that is ready is there, an event that
  runs is scheduled. Beyond that: the delay of the start is not over when the instance is being stopped, the
  counter of instances that listen does not wrap, the options of a received OPEN have no error and a shutdown
  message fits, the attributes of routes can be encoded, and setting the TTL of an incoming connection does
  not fail while the session restarts.
\<close>

definition core_enabled :: "core_event \<Rightarrow> bgp \<Rightarrow> bool" where
  "core_enabled ev p = (case ev of Schedule_down _ _ \<Rightarrow> proto_state p = PS_UP | _ \<Rightarrow> True)"

definition enabled :: "bgp_env \<Rightarrow> event \<Rightarrow> bgp \<Rightarrow> bool" where
  "enabled E ev p = (\<not> p_gone p \<and>
     (case ev of
        Core ev \<Rightarrow> core_enabled ev p
      | Got_lock _ _ _ \<Rightarrow> proto_state p = PS_START \<longrightarrow> b_start_state p = BSS_PREPARE \<and> sh_counter (b_shared p) + 1 \<noteq> 0
      | Neighbor _ _ _ \<Rightarrow> sh_counter (b_shared p) + 1 \<noteq> 0
      | Startup_timer \<Rightarrow> proto_state p = PS_START \<and> b_start_state p = BSS_DELAY
      | Connect_timer k _ \<Rightarrow> c_retry_timer (b_out p) \<noteq> 0 \<and> \<not> sk_rx k
      | Connected \<Rightarrow> c_state (b_out p) = BS_CONNECT
      | Hold_timer s _ \<Rightarrow> c_hold_timer (conn_of s p) \<noteq> 0
      | Restart_timer \<Rightarrow> proto_state p \<noteq> PS_DOWN
      | Decision \<Rightarrow> b_event p
      | Incoming_connection _ ttl_ok \<Rightarrow> ttl_ok \<or> \<not> restarting p
      | Socket_error s _ \<Rightarrow> st_of s p \<noteq> BS_IDLE
      | Received s b \<Rightarrow> (\<exists>k. c_sk (conn_of s p) = Some k \<and> sk_rx k) \<and> clean_stream E b
      | Writable s rs \<Rightarrow> c_sk (conn_of s p) \<noteq> None \<and> encodable E p \<and> to_come s p < length rs
      | Kick s rs \<Rightarrow> encodable E p \<and> to_come s p < length rs
      | Table_route _ _ _ r \<Rightarrow> proto_state p = PS_UP \<and>
          (\<forall>attrs og. r = Some (attrs, og) \<longrightarrow>
             returns (bgp_get_bucket (en_lib E) (b_p p) attrs og (tx_buckets (b_tx p))) (\<lambda>_. True))
      | _ \<Rightarrow> True))"

text \<open>The states of an instance that was made with any configuration.\<close>

inductive reachable :: "bgp_env \<Rightarrow> bgp \<Rightarrow> bool" for E where
  Made: "reachable E (proto_init cf q disabled p)"
| Event: "reachable E p \<Longrightarrow> enabled E ev p \<Longrightarrow>
    run_event E (bgp_hooks router_id source_addr restart cf_new) ev p = Some (Inr q) \<Longrightarrow> reachable E q"

section \<open>Every event leaves a proper state\<close>

lemma bgp_healthy_eq: "bgp_core.healthy = sess"
  by (simp add: fun_eq_iff bgp_healthy)

lemma core_event_ok:
  assumes "sess p" "core_enabled ev p"
  shows "ends (run_core (bgp_hooks router_id source_addr restart cf_new) ev p) sess"
proof -
  note ok = bgp_core.proto_rethink_goal_ok bgp_core.proto_cmd_disable_ok bgp_core.proto_cmd_enable_ok bgp_core.proto_cmd_restart_ok
    bgp_core.proto_cmd_reload_ok bgp_core.proto_schedule_down_ok bgp_core.proto_shutdown_loop_ok bgp_core.proto_flush_loop_ok
    bgp_core.run_attn_ok bgp_core.graceful_restart_done_ok
  show ?thesis
    using assms by (cases ev) (simp_all add: run_core_def core_enabled_def ok [unfolded bgp_healthy_eq])
qed

lemma settled_ok:
  "returns r settles \<Longrightarrow> ends (settle (bgp_hooks router_id source_addr restart cf_new) 1 r) sess"
  using bgp_core.settle_returns [unfolded bgp_healthy_eq] by simp

lemma rt_notify_ok:
  assumes "sess p" "proto_state p = PS_UP"
    "\<And>attrs og. r = Some (attrs, og) \<Longrightarrow> returns (bgp_get_bucket L (b_p p) attrs og (tx_buckets (b_tx p))) (\<lambda>_. True)"
  shows "returns (bgp_rt_notify L px len gid r p) sess"
proof -
  obtain s where s: "b_conn p = Some s" "st_of s p = BS_ESTABLISHED" using sess_opened_states(3) [OF assms(1,2)] by blast
  have tables: "tx_tables (b_tx p)" using sess_parts(1) [OF assms(1)] s(1) by (simp add: base_def)
  have put: "sess (bgp_schedule_packet s PKT_UPDATE (p\<lparr>b_tx := t\<rparr>))" if "tx_tables t" for t
    using that sess_schedule [of "p\<lparr>b_tx := t\<rparr>" PKT_UPDATE s] assms(1) s by (simp add: sound_def base_def phase_def fine_def core_ok_def core_states_def cong: proto_st.case_cong)
  have removed: "tx_tables (remove_prefix n t) = tx_tables t" for n t by (simp add: remove_prefix_def)
  show ?thesis
    unfolding bgp_rt_notify_def Let_def using tables put removed s(1) assms(1,3)
    by (auto simp: returns_def split: option.split)
qed

lemma received_ok:
  assumes "bgp_lib_ok (en_lib E)" "sess p" "c_sk (conn_of s p) = Some k" "sk_rx k" "clean_stream E b"
  shows "returns (rmap snd (bgp_rx E s (sk_ref k) b p)) sess"
proof -
  have "handled s p" using sess_conn [OF assms(2), of s] assms(2-4) by (auto simp: handled_def conn_ok_def opened_def)
  from rx_ok [OF assms(1,5) this, of "sk_ref k"] show ?thesis by (auto simp: returns_def handled_def)
qed

lemma event_ok:
  assumes "bgp_lib_ok (en_lib E)" "sess p" "enabled E ev p"
  shows "ends (run_event E (bgp_hooks router_id source_addr restart cf_new) ev p) sess"
proof (cases ev)
  case (Core ev)
  then show ?thesis using core_event_ok [OF assms(2)] assms(3) by (simp add: run_event_def enabled_def)
next
  case (Received s b)
  then show ?thesis using received_ok [OF assms(1,2)] assms(3) by (auto simp: run_event_def enabled_def)
next
  case (Writable s rs)
  then show ?thesis using tx_ok [OF assms(2)] assms(3) by (auto simp: run_event_def enabled_def)
next
  case (Table_route px len gid r)
  then show ?thesis using assms(2,3) by (auto simp: run_event_def enabled_def intro!: rt_notify_ok)
next
  case (Got_lock n l m)
  then show ?thesis using assms(3) unfolding run_event_def enabled_def
    by (auto intro!: settled_ok start_locked_ok [OF assms(2)] simp del: One_nat_def)
next
  case (Neighbor n l m)
  then show ?thesis using assms(3) unfolding run_event_def enabled_def
    by (auto intro!: settled_ok neigh_notify_ok [OF assms(2)] simp del: One_nat_def)
next
  case Decision
  then show ?thesis using assms(3) unfolding run_event_def enabled_def
    by (auto intro!: settled_ok decision_ok [OF assms(2)] simp del: One_nat_def)
next
  case (Socket_error s err)
  then have r: "returns (bgp_sock_err s err p) (\<lambda>q. sess q \<and> st_of s q = BS_IDLE)"
    using sock_err_ok [OF assms(2)] assms(3) by (simp add: enabled_def)
  have "returns (bgp_sock_err s err p) sess" by (rule returns_mono [OF r]) simp
  then show ?thesis using Socket_error by (simp add: run_event_def)
qed (use assms in \<open>auto simp: run_event_def enabled_def bfd_notify_ok startup_timeout_ok connect_timeout_ok connected_ok
  hold_timeout_ok keepalive_timeout_ok gr_timeout_ok incoming_ok kick_tx_ok\<close>)

lemma reachable_sess: "reachable E p \<Longrightarrow> bgp_lib_ok (en_lib E) \<Longrightarrow> sess p"
proof (induction rule: reachable.induct)
  case (Made cf q disabled p)
  then show ?case by (simp add: sound_def fine_def init_ok sess_ok_def [symmetric])
next
  case (Event p ev router_id source_addr restart cf_new q)
  then show ?case using event_ok [of E p ev router_id source_addr restart cf_new] by (simp add: ends_def)
qed

end
