(* ===== verification/BgpHandshake.thy ===== *)
theory BgpHandshake
  imports BgpSystem
begin

text \<open>How a session comes up: the exchange of OPEN and KEEPALIVE, with the messages that the neighbor writes.\<close>

section \<open>One message\<close>

definition message :: "unaligned \<Rightarrow> nat \<Rightarrow> u8 list \<Rightarrow> u8 list" where
  "message U type body = bgp_create_header U (BGP_HEADER_LENGTH + length body) (of_nat type) @ body"

lemma message_length [simp]: "length (message network_order type body) = 19 + length body"
  by (simp add: message_def bgp_create_header_def)

lemma message_parts:
  assumes "length body \<le> 1000"
  shows "take 16 (message network_order type body) = replicate 16 0xff"
    "unat (get_u16 network_order (take 2 (drop 16 (message network_order type body)))) = 19 + length body"
    "message network_order type body ! 18 = of_nat type" "drop (19 + n) (message network_order type body) = drop n body"
    "message network_order type body ! (19 + n) = body ! n"
proof -
  let ?l = "put_u16 network_order (of_nat (19 + length body))"
  have m: "message network_order type body = (replicate 16 0xff @ ?l @ [of_nat type]) @ body"
    by (simp add: message_def bgp_create_header_def BGP_HEADER_LENGTH_def)
  have len: "length (replicate 16 (0xff :: u8) @ ?l @ [of_nat type]) = 19" by simp
  show "take 16 (message network_order type body) = replicate 16 0xff" unfolding m by simp
  have "take 2 (drop 16 (message network_order type body)) = ?l" unfolding m by simp
  then show "unat (get_u16 network_order (take 2 (drop 16 (message network_order type body)))) = 19 + length body"
    using assms by (simp add: get16 del: of_nat_add)
  show "message network_order type body ! 18 = of_nat type" unfolding m by (simp add: nth_append)
  show "drop (19 + n) (message network_order type body) = drop n body" unfolding m drop_append len by simp
  show "message network_order type body ! (19 + n) = body ! n" unfolding m nth_append len by simp
qed

lemma rx_step:
  assumes "en_net E = network_order" "length body \<le> 1000" "c_sk (conn_of s p) = Some k" "st_of s p \<noteq> BS_CLOSE"
  shows "bgp_rx E s (sk_ref k) (message network_order type body @ r) p =
    rbind (bgp_rx_packet E s (message network_order type body) p) (bgp_rx E s (sk_ref k) r)"
proof -
  note m = message_parts [OF assms(2), of type]
  have fits: "\<not> bgp_max_packet_length (ng_ext_messages (b_neg p)) < 19 + length body"
    using assms(2) by (cases "ng_ext_messages (b_neg p)") (simp_all add: bgp_max_packet_length_def BGP_MAX_MESSAGE_LENGTH_def BGP_MAX_EXT_MSG_LENGTH_def)
  define b where "b = message network_order type body @ r"
  have b: "\<not> length b < 19 + length body" "\<not> length b < 19" "take 16 b = replicate 16 0xff"
      "unat (get_u16 (en_net E) (take 2 (drop 16 b))) = 19 + length body" "take (19 + length body) b = message network_order type body"
      "drop (19 + length body) b = r"
    using m(1,2) assms(1) by (simp_all add: b_def)
  have "bgp_rx E s (sk_ref k) b p = rbind (bgp_rx_packet E s (message network_order type body) p) (bgp_rx E s (sk_ref k) r)"
    by (subst bgp_rx.simps) (simp add: BGP_HEADER_LENGTH_def Let_def good_marker_def b assms(3,4) fits)
  then show ?thesis by (simp add: b_def)
qed

lemma rx_message:
  assumes "en_net E = network_order" "length body \<le> 1000" "c_sk (conn_of s p) = Some k" "st_of s p \<noteq> BS_CLOSE"
    and "bgp_rx_packet E s (message network_order type body) p = Inr q"
  shows "bgp_rx E s (sk_ref k) (message network_order type body) p = Inr ([], q)"
  using rx_step [OF assms(1-4), of type "[]"] by (simp add: assms(5) bgp_rx.simps [of _ _ _ "[]"] BGP_HEADER_LENGTH_def)

section \<open>OPEN\<close>

text \<open>The OPEN of a neighbor with the configuration \<open>cf'\<close>, the AS \<open>as'\<close> and the id \<open>rid\<close>, and what is agreed on.\<close>

definition agreed :: "session_cfg \<Rightarrow> u32 \<Rightarrow> side \<Rightarrow> bgp \<Rightarrow> bgp \<Rightarrow> bool" where
  "agreed cf' rid s p q \<longleftrightarrow>
     (let cf = b_cf p in
      b_neg q = \<lparr>ng_add_path_rx = (sc_add_path cf AND ADD_PATH_RX \<noteq> 0 \<and> sc_add_path cf' AND ADD_PATH_TX \<noteq> 0),
        ng_add_path_tx = (sc_add_path cf AND ADD_PATH_TX \<noteq> 0 \<and> sc_add_path cf' AND ADD_PATH_RX \<noteq> 0),
        ng_ext_messages = (sc_enable_ext cf \<and> sc_enable_ext cf'), ng_gr_ready = (sc_gr_mode cf \<noteq> 0 \<and> sc_gr_mode cf' = BGP_GR_ABLE)\<rparr> \<and>
      bp_as4_session (b_p q) \<and> bp_remote_id (b_p q) = rid \<and> c_hold_time (conn_of s q) = min (sc_hold_time cf') (sc_hold_time cf))"

lemma open_bytes:
  fixes as' rid :: u32 and rec :: bool and cf' :: session_cfg
  assumes "sc_enable_as4 cf'"
  defines "b \<equiv> bgp_create_open network_order cf' as' rid rec False" and "n \<equiv> length (open_caps network_order cf' as' rec)"
  shows "length b = 12 + n" "n \<le> 32" "n > 0" "b ! 0 = BGP_VERSION" "b ! 9 = of_nat (n + 2)"
    "take 2 (drop 3 b) = put_u16 network_order (ucast (sc_hold_time cf'))" "take 4 (drop 5 b) = put_u32 network_order rid"
proof -
  let ?caps = "open_caps network_order cf' as' rec"
  let ?as = "put_u16 network_order (if as' < 0xFFFF then ucast as' else AS_TRANS)" and ?hold = "put_u16 network_order (ucast (sc_hold_time cf'))"
  let ?id = "put_u32 network_order rid"
  have caps: "?caps \<noteq> []" using assms(1) by (simp add: open_caps_def bgp_put_cap_as4_def)
  have b: "b = BGP_VERSION # ?as @ ?hold @ ?id @ of_nat (n + 2) # 2 # of_nat n # ?caps"
    unfolding b_def bgp_create_open_def Let_def n_def using caps by (simp del: of_nat_add)
  have l: "length ?as = 2" "length ?hold = 2" "length ?id = 4" by simp_all
  show "n \<le> 32" unfolding n_def by (rule caps_length)
  show "n > 0" using caps by (simp add: n_def)
  show "length b = 12 + n" unfolding b by (simp add: n_def)
  show "b ! 0 = BGP_VERSION" unfolding b by simp
  show "b ! 9 = of_nat (n + 2)" unfolding b by (simp add: nth_append del: of_nat_add)
  show "take 2 (drop 3 b) = ?hold" "take 4 (drop 5 b) = ?id" unfolding b by simp_all
qed

lemma gone_upd [simp]: "p_gone (upd_conn s f p) = p_gone p"
  by (cases s) simp_all

lemma scheduled_hold [simp]: "c_hold_time (scheduled type c) = c_hold_time c"
  by (simp add: scheduled_def)

lemma open_accepted_agrees:
  assumes "sess p" "st_of s p = BS_OPENSENT" "\<not> late (st_of (other_side s) p)"
    and "c_peer (conn_of s p) = open_says (b_cf p) cf' as' rec as2" "sc_enable_as4 cf'" "sc_enable_as4 (b_cf p)"
  obtains q where "open_accepted s (sc_hold_time cf') rid p = Inr q" "sess q" "st_of s q = BS_OPENCONFIRM" "agreed cf' rid s p q"
    "c_sk (conn_of s q) = c_sk (conn_of s p)" "p_gone q = p_gone p"
proof -
  obtain q where q: "open_accepted s (sc_hold_time cf') rid p = Inr q" "handled s q"
    using accepted_ok [OF assms(1-3), of "sc_hold_time cf'" rid] by (auto simp: returns_def)
  have live: "c_live (conn_of s p)" using conn_ok_opened [OF sess_conn [OF assms(1)], of s] assms(2) by (simp add: live_def)
  have "agreed cf' rid s p q \<and> st_of s q = BS_OPENCONFIRM \<and> c_sk (conn_of s q) = c_sk (conn_of s p) \<and> p_gone q = p_gone p"
    using q(1) live assms(4-6)
    by (auto simp: open_accepted_def Let_def bgp_start_hold_def on_timers_live bgp_schedule_packet_eq
        bgp_conn_enter_openconfirm_state_def bgp_conn_set_state_def agreed_def open_says_def)
  then show ?thesis using that [OF q(1)] q(2) by (simp add: handled_def)
qed

text \<open>The configurations agree on the AS numbers, the ids differ where they have to, and the hold time is proper.\<close>

definition acceptable :: "session_cfg \<Rightarrow> u32 \<Rightarrow> u32 \<Rightarrow> bgp \<Rightarrow> bool" where
  "acceptable cf' as' rid p \<longleftrightarrow>
     sc_add_path cf' \<le> ADD_PATH_FULL \<and> sc_gr_time cf' < 4096 \<and> sc_gr_mode cf' \<in> {0, BGP_GR_ABLE, BGP_GR_AWARE} \<and>
     sc_enable_as4 cf' \<and> sc_enable_as4 (b_cf p) \<and> as' = bp_remote_as (b_p p) \<and>
     rid \<noteq> 0 \<and> (bp_is_internal (b_p p) \<longrightarrow> rid \<noteq> bp_local_id (b_p p)) \<and>
     sc_hold_time cf' < 65536 \<and> (sc_hold_time cf' = 0 \<or> 3 \<le> sc_hold_time cf')"

text \<open>The connection has sent its OPEN, and the other one is not in the way.\<close>

definition expecting :: "side \<Rightarrow> bgp \<Rightarrow> bool" where
  "expecting s p \<longleftrightarrow> st_of s p = BS_OPENSENT \<and> st_of (other_side s) p \<in> {BS_IDLE, BS_OPENSENT, BS_CLOSE} \<and>
     c_peer (conn_of s p) = no_caps \<and> c_start_state (conn_of s p) \<noteq> BSS_CONNECT_NOCAP"

lemma rx_open_agrees:
  assumes "en_net E = network_order" "sess p" "expecting s p" "acceptable cf' as' rid p"
  obtains q where "bgp_rx_packet E s (message network_order PKT_OPEN (bgp_create_open network_order cf' as' rid rec False)) p = Inr q"
    "sess q" "st_of s q = BS_OPENCONFIRM" "agreed cf' rid s p q" "c_sk (conn_of s q) = c_sk (conn_of s p)" "p_gone q = p_gone p"
proof -
  define b where "b = bgp_create_open network_order cf' as' rid rec False"
  define pkt where "pkt = message network_order PKT_OPEN b"
  define n where "n = length (open_caps network_order cf' as' rec)"
  define as2 where "as2 = (ucast (get_u16 network_order (take 2 (drop 20 pkt))) :: u32)"
  define p1 where "p1 = upd_conn s (\<lambda>c. c\<lparr>c_peer := open_says (b_cf p) cf' as' rec as2\<rparr>) p"
  have w: "sc_enable_as4 cf'" "sc_enable_as4 (b_cf p)" using assms(4) by (simp_all add: acceptable_def)
  have o: "length b = 12 + n" "n \<le> 32" "n > 0" "b ! 0 = BGP_VERSION" "b ! 9 = of_nat (n + 2)"
      "take 2 (drop 3 b) = put_u16 network_order (ucast (sc_hold_time cf'))" "take 4 (drop 5 b) = put_u32 network_order rid"
    unfolding b_def n_def by (rule open_bytes [OF w(1)])+
  have small: "length b \<le> 1000" using o(1,2) by simp
  have m: "pkt ! 18 = of_nat PKT_OPEN" "drop (19 + i) pkt = drop i b" "pkt ! (19 + i) = b ! i" for i
    unfolding pkt_def by (rule message_parts [OF small])+
  have pkt: "length pkt = 29 + (n + 2)" "pkt ! 18 = of_nat PKT_OPEN" "pkt ! 19 = BGP_VERSION" "pkt ! 28 = of_nat (n + 2)"
      "drop 29 pkt = drop 10 b" "drop 22 pkt = drop 3 b" "drop 24 pkt = drop 5 b"
    using m(1) m(2) [of 10] m(2) [of 3] m(2) [of 5] m(3) [of 0] m(3) [of 9] o(1,4,5) by (simp_all add: pkt_def del: of_nat_add)
  have u: "unat (of_nat i :: u8) = i" if "i < 256" for i using that by (simp add: unat_of_nat)
  have len: "unat (pkt ! 28) = n + 2" unfolding pkt(4) by (rule u) (use o(2) in simp)
  have caps: "open_caps network_order cf' as' rec \<noteq> []" using o(3) by (auto simp: n_def)
  have parse: "bgp_parse_options network_order (b_cf p) False (drop 29 pkt) (no_caps\<lparr>pc_advertised_as := as2\<rparr>) = (open_says (b_cf p) cf' as' rec as2, [])"
    unfolding pkt(5) b_def using assms(4) caps by (intro open_parsed) (simp_all add: acceptable_def)
  have p1: "sess p1" "conn_of s p1 = (conn_of s p)\<lparr>c_peer := open_says (b_cf p) cf' as' rec as2\<rparr>" "b_cf p1 = b_cf p" "b_p p1 = b_p p"
      "st_of (other_side s) p1 = st_of (other_side s) p" "st_of s p1 = BS_OPENSENT"
    using assms(3) sess_upd [OF assms(2), of s "\<lambda>c. c\<lparr>c_peer := open_says (b_cf p) cf' as' rec as2\<rparr>"] sess_conn [OF assms(2), of s]
    by (simp_all add: p1_def expecting_def)
  have free: "st_of (other_side s) p1 \<in> {BS_IDLE, BS_OPENSENT, BS_CLOSE}" using p1(5) assms(3) by (simp add: expecting_def)
  have open1: "bgp_rx_open E s pkt p = check_open network_order s pkt p1"
    using assms(1,3) pkt(1,3) len parse by (simp add: bgp_rx_open_def expecting_def Let_def p1_def as2_def)
  have hold: "(ucast (get_u16 network_order (take 2 (drop 22 pkt))) :: u32) = sc_hold_time cf'"
  proof -
    have "take 2 (drop 22 pkt) = put_u16 network_order (ucast (sc_hold_time cf'))" using o(6) pkt(6) by simp
    moreover have "sc_hold_time cf' mod 65536 = sc_hold_time cf'" using assms(4) by (intro mod_word_less) (simp add: acceptable_def)
    ultimately show ?thesis by (simp add: net.get_put_u16 word_unat_eq_iff unsigned_ucast_eq take_bit_eq_mod)
  qed
  have id: "get_u32 network_order (take 4 (drop 24 pkt)) = rid" using o(7) pkt(7) by (simp add: net.get_put_u32)
  have coll: "check_collision s rid p1 = Inr (True, p1)" using free by (auto simp: check_collision_def Let_def)
  have pc: "pc_advertised_as (c_peer (conn_of s p1)) = as'" using w by (simp add: p1(2) open_says_def)
  have "\<not> (0 < sc_hold_time cf' \<and> sc_hold_time cf' < 3)" using assms(4) by (auto simp: acceptable_def)
  then have checked: "check_open network_order s pkt p1 = open_accepted s (sc_hold_time cf') rid p1"
    using assms(4) unfolding check_open_def Let_def hold id pc coll by (auto simp: acceptable_def p1(4))
  obtain q where q: "open_accepted s (sc_hold_time cf') rid p1 = Inr q" "sess q" "st_of s q = BS_OPENCONFIRM" "agreed cf' rid s p1 q"
      "c_sk (conn_of s q) = c_sk (conn_of s p1)" "p_gone q = p_gone p1"
    by (rule open_accepted_agrees [OF p1(1,6), of cf' as' rec as2 rid]) (use free w p1 in \<open>auto simp: late_def\<close>)
  have "bgp_rx_packet E s pkt p = Inr q"
    using open1 checked q(1) by (simp add: bgp_rx_packet_def pkt(2) pkt_defs)
  moreover have "agreed cf' rid s p q" using q(4) by (simp add: agreed_def p1(3))
  ultimately show ?thesis using that q(2,3,5,6) p1(2) by (simp add: pkt_def b_def p1_def)
qed

lemma rx_keepalive_establishes:
  assumes "sess p" "st_of s p = BS_OPENCONFIRM"
  obtains q where "bgp_rx_packet E s (message network_order PKT_KEEPALIVE []) p = Inr q" "sess q" "st_of s q = BS_ESTABLISHED"
proof -
  have "returns (bgp_start_hold s p) (\<lambda>q. sess q \<and> st_of s q = BS_OPENCONFIRM)"
    using assms(2) by (intro returns_mono [OF start_hold_ok [OF assms(1)]]) simp_all
  then obtain p1 where p1: "bgp_start_hold s p = Inr p1" "sess p1" "st_of s p1 = BS_OPENCONFIRM" by (auto simp: returns_def)
  obtain q where q: "bgp_conn_enter_established_state s p1 = Inr q" "sess q" "st_of s q = BS_ESTABLISHED"
    using established_ok [OF p1(2,3)] by (auto simp: returns_def)
  have "message network_order PKT_KEEPALIVE [] ! 18 = of_nat PKT_KEEPALIVE" using message_parts(3) [of "[]"] by simp
  then have "bgp_rx_packet E s (message network_order PKT_KEEPALIVE []) p = Inr q"
    using p1 q(1) by (simp add: bgp_rx_packet_def bgp_rx_keepalive_def pkt_defs)
  then show ?thesis using that q(2,3) by blast
qed

section \<open>A session that comes up\<close>

definition sample_env :: bgp_env where
  "sample_env = \<lparr>en_lib = network_lib, en_ip = ip4_ops, en_neigh = (\<lambda>_. None), en_peer = (0x0a000002, False)\<rparr>"

abbreviation sample_hooks :: "bgp proto_hooks" where "sample_hooks \<equiv> bgp_hooks 1 0x0a000001 False None"

definition sample_sock :: sock where
  "sample_sock = \<lparr>sk_ref = 7, sk_saddr = 0x0a000001, sk_rx = False, sk_idle = True\<rparr>"

definition sample_started :: bgp where
  "sample_started = sample_instance\<lparr>p_pool := True, p_locked := True, proto_state := PS_START,
     b_p := (b_p sample_instance)\<lparr>bp_local_id := 1, bp_source_addr := 0x0a000001\<rparr>\<rparr>"

definition sample_active :: bgp where
  "sample_active = sample_started\<lparr>b_neigh := True, b_shared := \<lparr>sh_listen_sk = True, sh_counter = 1\<rparr>, b_start_state := BSS_CONNECT,
     b_out := no_conn\<lparr>c_live := True, c_state := BS_ACTIVE, c_retry_timer := 5\<rparr>\<rparr>"

definition sample_connecting :: bgp where
  "sample_connecting = sample_active\<lparr>b_out := no_conn\<lparr>c_live := True, c_state := BS_CONNECT, c_sk := Some sample_sock, c_retry_timer := 120\<rparr>\<rparr>"

definition sample_open :: bgp where
  "sample_open = sample_active\<lparr>b_out := no_conn\<lparr>c_live := True, c_state := BS_OPENSENT, c_sk := Some (sample_sock\<lparr>sk_rx := True\<rparr>),
     c_to_send := push_bit PKT_OPEN 1, c_tx_ev := True, c_hold_timer := 240, c_start_state := BSS_CONNECT\<rparr>\<rparr>"

lemmas sample_defs = sample_instance_def proto_init_def bgp_init_def proto_new_def blank_bgp_def sample_session_cf_def sample_proto_def
  no_conn_def sample_started_def sample_active_def sample_connecting_def sample_open_def sample_sock_def

lemma sample_start: "run_event sample_env sample_hooks (Core Rethink) sample_instance = Some (Inr sample_started)"
  by (simp add: run_event_def run_core_def proto_rethink_goal_def rethink_step_def move_to_goal_def goal_up_def bgp_hooks_def bgp_start_def
    proto_init_instance_def notify_state_def Let_def BGP_GR_ABLE_def BGP_GR_AWARE_def sample_defs)

lemma sample_lock: "run_event sample_env sample_hooks (Got_lock (Some \<lparr>ni_scope = True, ni_link = True, ni_ifa = 1\<rparr>) True True) sample_started = Some (Inr sample_active)"
  by (simp add: run_event_def bgp_start_locked_def bgp_start_neighbor_def bgp_initiate_def bgp_open_def bgp_startup_def bgp_active_def bgp_setup_conn_def
    bgp_conn_set_state_def Let_def sample_defs)

lemma sample_connect: "run_event sample_env sample_hooks (Connect_timer sample_sock True) sample_active = Some (Inr sample_connecting)"
  by (simp add: run_event_def bgp_connect_timeout_def bgp_connect_def bgp_setup_conn_def bgp_setup_sk_def bgp_close_conn_def on_timers_def
    bgp_conn_set_state_def Let_def sample_defs)

lemma sample_send: "run_event sample_env sample_hooks Connected sample_connecting = Some (Inr sample_open)"
  by (simp add: run_event_def bgp_connected_def bgp_send_open_def bgp_schedule_packet_def on_timers_def on_sock_def
    bgp_conn_set_state_def Let_def sample_defs)

lemma sample_open_reachable: "reachable sample_env sample_open"
proof -
  have "reachable sample_env sample_instance" unfolding sample_instance_def by (rule reachable.Made)
  from reachable.Event [OF this _ sample_start] have "reachable sample_env sample_started" by (simp add: enabled_def core_enabled_def sample_defs)
  from reachable.Event [OF this _ sample_lock] have "reachable sample_env sample_active" by (simp add: enabled_def sample_defs)
  from reachable.Event [OF this _ sample_connect] have "reachable sample_env sample_connecting" by (simp add: enabled_def sample_defs)
  from reachable.Event [OF this _ sample_send] show ?thesis by (simp add: enabled_def sample_defs)
qed

lemma clean_message:
  assumes "en_net E = network_order" "length body \<le> 1000" "clean_packet E (message network_order type body)"
  shows "clean_stream E (message network_order type body)"
proof -
  have b: "unat (get_u16 (en_net E) (take 2 (drop 16 (message network_order type body)))) = 19 + length body"
    using message_parts(2) [OF assms(2)] assms(1) by simp
  show ?thesis
    by (subst clean_stream.simps) (simp add: b Let_def assms(3) BGP_HEADER_LENGTH_def clean_stream.simps [of E "[]"])
qed

definition sample_neighbor :: session_cfg where
  "sample_neighbor = sample_session_cf\<lparr>sc_enable_refresh := False, sc_advertise_ipv4 := False, sc_gr_mode := 0\<rparr>"

definition sample_reply :: "u8 list" where
  "sample_reply = bgp_create_open network_order sample_neighbor 65002 2 False False"

lemma sample_reply_bytes: "drop 10 sample_reply = [2, 6] @ bgp_put_cap_as4 network_order 65002 @ []" "length sample_reply = 18"
  by (simp_all add: sample_reply_def sample_neighbor_def sample_session_cf_def bgp_create_open_def open_caps_def bgp_put_cap_as4_def BGP_GR_ABLE_def BGP_GR_AWARE_def)

lemma sample_reply_clean: "clean_packet sample_env (message network_order PKT_OPEN sample_reply)"
proof -
  have net: "en_net sample_env = network_order" by (simp add: sample_env_def network_lib_def)
  have m: "message network_order PKT_OPEN sample_reply ! 18 = of_nat PKT_OPEN" "drop 29 (message network_order PKT_OPEN sample_reply) = drop 10 sample_reply"
    using message_parts(3) [of sample_reply] message_parts(4) [of sample_reply 10] sample_reply_bytes(2) by simp_all
  have "snd (bgp_parse_options network_order cf nocap ([2, 6] @ bgp_put_cap_as4 network_order 65002 @ []) pc) = []" for cf nocap pc
  proof -
    have c: "length (bgp_put_cap_as4 network_order 65002) = 6" by (simp add: bgp_put_cap_as4_def)
    have p: "bgp_parse_capabilities network_order cf (bgp_put_cap_as4 network_order 65002) pc =
        (pc\<lparr>pc_as4 := True, pc_advertised_as := (if sc_enable_as4 cf then 65002 else pc_advertised_as pc)\<rparr>, True)"
      using parse_cap_as4 [of cf 65002 "[]" pc] by (simp add: parse_nil)
    show ?thesis
      by (subst bgp_parse_options.simps) (simp add: Let_def c p bgp_parse_options.simps [of _ _ _ "[]"])
  qed
  then show ?thesis using m net by (simp add: clean_packet_def sample_reply_bytes(1) pkt_defs)
qed

lemma sample_env_ok: "bgp_lib_ok (en_lib sample_env)" "en_net sample_env = network_order"
  using netlib.bgp_lib_ok_axioms by (simp_all add: sample_env_def network_lib_def)

lemma sample_open_expects: "sess sample_open" "expecting Outgoing sample_open"
  "c_sk (conn_of Outgoing sample_open) = Some (sample_sock\<lparr>sk_rx := True\<rparr>)" "\<not> p_gone sample_open"
  using reachable_sess [OF sample_open_reachable sample_env_ok(1)] by (simp_all add: expecting_def sample_defs)

lemma sample_up_reachable: "\<exists>p. reachable sample_env p \<and> proto_state p = PS_UP"
proof -
  have lib: "bgp_lib_ok (en_lib sample_env)" "en_net sample_env = network_order"
    using netlib.bgp_lib_ok_axioms by (simp_all add: sample_env_def network_lib_def)
  have fits: "length sample_reply \<le> 1000" using sample_reply_bytes(2) by simp
  define k where "k = sample_sock\<lparr>sk_rx := True\<rparr>"
  have p: "sess sample_open" by (rule reachable_sess [OF sample_open_reachable lib(1)])
  have ex: "expecting Outgoing sample_open" "c_sk (conn_of Outgoing sample_open) = Some k" "\<not> p_gone sample_open" by (simp_all add: expecting_def k_def sample_defs)
  have "acceptable sample_neighbor 65002 2 sample_open"
    by (simp add: acceptable_def sample_neighbor_def sample_defs ADD_PATH_FULL_def)
  then obtain q where q: "bgp_rx_packet sample_env Outgoing (message network_order PKT_OPEN sample_reply) sample_open = Inr q" "sess q"
      "st_of Outgoing q = BS_OPENCONFIRM" "c_sk (conn_of Outgoing q) = Some k" "\<not> p_gone q"
    using rx_open_agrees [OF lib(2) p ex(1), of sample_neighbor 65002 2 False] ex(2,3) unfolding sample_reply_def by metis
  have rx: "bgp_rx sample_env Outgoing (sk_ref k) (message network_order PKT_OPEN sample_reply) sample_open = Inr ([], q)"
    by (rule rx_message [OF lib(2) fits ex(2) _ q(1)]) (use ex(1) in \<open>simp add: expecting_def\<close>)
  have run: "run_event sample_env sample_hooks (Received Outgoing (message network_order PKT_OPEN sample_reply)) sample_open = Some (Inr q)"
    using ex(2) rx by (simp add: run_event_def)
  have "enabled sample_env (Received Outgoing (message network_order PKT_OPEN sample_reply)) sample_open"
    using ex(2,3) clean_message [OF lib(2) fits sample_reply_clean] by (simp add: enabled_def k_def)
  from reachable.Event [OF sample_open_reachable this run] have reach: "reachable sample_env q" .
  obtain r where r: "bgp_rx_packet sample_env Outgoing (message network_order PKT_KEEPALIVE []) q = Inr r" "sess r" "st_of Outgoing r = BS_ESTABLISHED"
    by (rule rx_keepalive_establishes [OF q(2,3)])
  let ?keep = "message network_order PKT_KEEPALIVE []"
  have run2: "run_event sample_env sample_hooks (Received Outgoing ?keep) q = Some (Inr r)"
    using rx_message [OF lib(2) _ q(4) _ r(1)] q(3,4) by (simp add: run_event_def)
  have "clean_packet sample_env ?keep" using message_parts(3) [of "[]" PKT_KEEPALIVE] by (simp add: clean_packet_def pkt_defs)
  then have "enabled sample_env (Received Outgoing ?keep) q" using clean_message [OF lib(2), of "[]"] q(4,5) by (simp add: enabled_def k_def)
  from reachable.Event [OF reach this run2] show ?thesis using sess_opened_states(1) [OF r(2,3)] by blast
qed

section \<open>An OPEN with an unknown option\<close>

text \<open>An OPEN of the neighbor whose only option is not a capability.\<close>

definition bad_body :: "u8 list" where
  "bad_body = [BGP_VERSION] @ put_u16 network_order 65002 @ put_u16 network_order 240 @ put_u32 network_order 2 @ [2, 1, 0]"

definition bad_open :: "u8 list" where "bad_open = message network_order PKT_OPEN bad_body"

lemma stopped_established:
  assumes "proto_state p = PS_STOP" "c_sk (conn_of s p) = Some k"
  shows "bgp_conn_enter_established_state s p = Inl Assert_failed"
proof -
  have let_keep: "proto_state x = PS_STOP \<Longrightarrow> (\<And>x. proto_state x = PS_STOP \<Longrightarrow> f x = r) \<Longrightarrow> Let x f = r" for x :: bgp and f and r :: "bgp res"
    by (simp add: Let_def)
  have let_any: "(\<And>x. f x = r) \<Longrightarrow> Let y f = r" for y :: 'z and f and r :: "bgp res" by (simp add: Let_def)
  have keep: "proto_state (if b then x else y) = PS_STOP" if "proto_state x = PS_STOP" "proto_state y = PS_STOP" for b and x y :: bgp
    using that by simp
  have steps: "proto_state (bgp_graceful_restart_done x) = proto_state x" "proto_state (proto_graceful_restart_unlock x) = proto_state x" for x
    by (simp_all add: bgp_graceful_restart_done_def bgp_call_def proto_graceful_restart_unlock_def)
  show ?thesis unfolding bgp_conn_enter_established_state_def assms(2) option.case
    by (rule let_keep, (simp add: assms(1) steps; fail),
        rule let_keep, (simp add: steps; fail), rule let_any, rule let_any,
        (rule let_keep, (intro keep; simp add: steps))+, simp add: bgp_notify_def notify_state_def bgp_conn_set_state_def)
qed

lemma bad_option: "\<exists>q k. bgp_rx_packet sample_env Outgoing bad_open sample_open = Inr q \<and> st_of Outgoing q = BS_OPENCONFIRM \<and> proto_state q = PS_STOP \<and>
  c_sk (conn_of Outgoing q) = Some k \<and> sk_ref k = 7 \<and> c_live (conn_of Outgoing q)"
proof -
  have m: "bad_open ! (19 + i) = bad_body ! i" "drop (19 + i) bad_open = drop i bad_body" "bad_open ! 18 = of_nat PKT_OPEN" for i
    unfolding bad_open_def by (rule message_parts; simp add: bad_body_def)+
  have len: "length bad_open = 31" by (simp add: bad_open_def bad_body_def)
  have f: "bad_open ! 19 = BGP_VERSION" "bad_open ! 28 = 2" "take 2 (drop 20 bad_open) = put_u16 network_order 65002"
     "take 2 (drop 22 bad_open) = put_u16 network_order 240" "take 4 (drop 24 bad_open) = put_u32 network_order 2" "drop 29 bad_open = [1, 0]"
    using m(1) [of 0] m(1) [of 9] m(2) [of 1] m(2) [of 3] m(2) [of 5] m(2) [of 10] by (simp_all add: nth_append bad_body_def)
  have opt: "bgp_parse_options network_order cf nocap [1, 0] pc = (pc, [(4, [])])" for cf nocap pc
    by (subst bgp_parse_options.simps) simp
  have rx: "bgp_rx_packet sample_env Outgoing bad_open sample_open = bgp_rx_open sample_env Outgoing bad_open sample_open"
    using m(3) by (simp add: bgp_rx_packet_def pkt_defs)
  show ?thesis unfolding rx
    by (simp add: bgp_rx_open_def len f opt sample_env_ok net.get_put_u16,
      simp add: sample_defs bgp_error_def error_with_def bgp_log_error_def bgp_store_error_def enter_close_state_def on_timers_def
        on_sock_def bgp_conn_set_state_def bgp_schedule_packet_def bgp_stop_def stop_with_def bgp_notify_def notify_state_def
        bgp_update_startup_delay_def graceful_close_def proto_falling_down_def proto_graceful_restart_unlock_def Let_def,
      simp add: check_open_def Let_def f net.get_put_u16 net.get_put_u32 check_collision_def open_accepted_def
        bgp_schedule_packet_def bgp_start_hold_def on_timers_def bgp_conn_enter_openconfirm_state_def bgp_conn_set_state_def)
qed

section \<open>Properties\<close>

text \<open>C6. A session comes up: a connection that has sent its OPEN and receives the OPEN that a neighbor with an
  acceptable configuration writes has afterwards exactly the features that both sides offer and the lower of
  the two hold times, and the KEEPALIVE of the neighbor establishes the session.\<close>

theorem session_comes_up:
  assumes "en_net E = network_order" "sess p" "expecting s p" "acceptable cf' as' rid p" "c_sk (conn_of s p) = Some k"
  shows "\<exists>q r. bgp_rx E s (sk_ref k) (message network_order PKT_OPEN (bgp_create_open network_order cf' as' rid rec False)) p = Inr ([], q) \<and>
    st_of s q = BS_OPENCONFIRM \<and> agreed cf' rid s p q \<and>
    bgp_rx E s (sk_ref k) (message network_order PKT_KEEPALIVE []) q = Inr ([], r) \<and>
    sess r \<and> proto_state r = PS_UP \<and> b_conn r = Some s"
proof -
  obtain q where q: "bgp_rx_packet E s (message network_order PKT_OPEN (bgp_create_open network_order cf' as' rid rec False)) p = Inr q"
      "sess q" "st_of s q = BS_OPENCONFIRM" "agreed cf' rid s p q" "c_sk (conn_of s q) = c_sk (conn_of s p)"
    by (rule rx_open_agrees [OF assms(1-4)])
  obtain r where r: "bgp_rx_packet E s (message network_order PKT_KEEPALIVE []) q = Inr r" "sess r" "st_of s r = BS_ESTABLISHED"
    by (rule rx_keepalive_establishes [OF q(2,3)])
  have "length (bgp_create_open network_order cf' as' rid rec False) \<le> 1000"
    using open_bytes(1) [of cf' as' rid rec] open_bytes(2) [of cf' as' rec] assms(4) by (simp add: acceptable_def)
  then have "bgp_rx E s (sk_ref k) (message network_order PKT_OPEN (bgp_create_open network_order cf' as' rid rec False)) p = Inr ([], q)"
    using assms(3) by (intro rx_message [OF assms(1) _ assms(5) _ q(1)]) (simp_all add: expecting_def)
  moreover have "bgp_rx E s (sk_ref k) (message network_order PKT_KEEPALIVE []) q = Inr ([], r)"
    using q(3,5) assms(5) by (intro rx_message [OF assms(1) _ _ _ r(1)]) simp_all
  ultimately show ?thesis using q(3,4) r(2) sess_opened_states(1) [OF r(2,3)] by blast
qed

theorem session_comes_up_witness:
  "\<exists>q r. bgp_rx sample_env Outgoing 7 (message network_order PKT_OPEN sample_reply) sample_open = Inr ([], q) \<and>
     bgp_rx sample_env Outgoing 7 (message network_order PKT_KEEPALIVE []) q = Inr ([], r) \<and> proto_state r = PS_UP"
proof -
  have "acceptable sample_neighbor 65002 2 sample_open"
    by (simp add: acceptable_def sample_neighbor_def sample_defs ADD_PATH_FULL_def)
  from session_comes_up [OF sample_env_ok(2) sample_open_expects(1,2) this sample_open_expects(3), of False]
  show ?thesis by (auto simp: sample_reply_def sample_sock_def)
qed



lemma update_established:
  assumes "sess p" "c_sk (conn_of s p) \<noteq> None" "next_message E s p = Inr (Some (PKT_UPDATE, body), q)"
  shows "st_of s p = BS_ESTABLISHED"
proof -
  have "pending s PKT_UPDATE p \<and> \<not> pending s PKT_SCHEDULE_CLOSE p \<and> \<not> pending s PKT_NOTIFICATION p"
    using assms(3) by (auto simp: next_message_def pkt_defs rmap_Inr_iff split: if_splits prod.splits)
  then show ?thesis using sess_conn [OF assms(1), of s] assms(2) by (simp add: conn_ok_def pending_def)
qed






text \<open>C13. The loop that sends what is waiting ends: with any answers of the socket it is called at most one time
  more than there are messages to come.\<close>

theorem bgp_kick_tx_ends:
  assumes "sess p" "encodable E p" "to_come s p < length rs"
  shows "\<exists>q. bgp_kick_tx E s rs p = Some (Inr q) \<and> sess q"
  using kick_tx_ok [OF assms] by (auto simp: ends_def)

theorem bgp_kick_tx_ends_witness:
  "\<exists>q. bgp_kick_tx sample_env Outgoing [Sent, Waits] sample_open = Some (Inr q) \<and> sess q"
proof (rule bgp_kick_tx_ends [OF sample_open_expects(1)])
  have p: "pending Outgoing m sample_open \<longleftrightarrow> m = PKT_OPEN" for m
    by (auto simp: pending_def sample_defs bit_simps pkt_defs)
  show "to_come Outgoing sample_open < length [Sent, Waits]" by (simp add: to_come_def p pkt_defs)
qed (simp add: encodable_def sample_defs)

end
