(* ===== verification/BgpExportRules.thy ===== *)
theory BgpExportRules
  imports BgpExport BgpCodec BgpSample
begin

text \<open>What \<open>bgp_import_control\<close> lets through, and what the neighbor gets.\<close>

section \<open>Attached attributes\<close>

lemma table_defined: "bgp_attr_table c = Some d \<Longrightarrow> \<not> is_undef \<lparr>ea_id = i, ea_flags = f, ea_type = ad_type d, ea_u = v\<rparr>"
  by (simp add: bgp_attr_table_def Let_def is_undef_def split: if_split_asm)
    (auto simp: EAF_TYPE_INT_def EAF_TYPE_AS_PATH_def EAF_TYPE_IP_ADDRESS_def EAF_TYPE_MASK_def EAF_TYPE_UNDEF_def EAF_TYPE_OPAQUE_def
      EAF_TYPE_ROUTER_ID_def EAF_TYPE_INT_SET_def EAF_TYPE_EC_SET_def EAF_TYPE_LC_SET_def)

lemma attach_find:
  assumes "bgp_attach_attr to c v = Inr e"
  shows "\<exists>a. ea_find_bgp e c = Some a \<and> ea_u a = v" "c' \<noteq> c \<Longrightarrow> ea_find_bgp e c' = ea_find_bgp to c'"
proof -
  obtain d where d: "bgp_attr_table c = Some d"
      "e = \<lparr>eal_flags = EALF_SORTED, eal_attrs = [\<lparr>ea_id = EA_CODE EAP_BGP c, ea_flags = ad_flags d, ea_type = ad_type d, ea_u = v\<rparr>]\<rparr> # to"
    using assms by (auto simp: bgp_attach_attr_def bgp_set_attr_def split: option.splits)
  have seg: "\<not> bisect \<lparr>eal_flags = EALF_SORTED, eal_attrs = as\<rparr>" for as by (simp add: bisect_def EALF_SORTED_def EALF_BISECT_def)
  show "\<exists>a. ea_find_bgp e c = Some a \<and> ea_u a = v" using table_defined [OF d(1)] seg unfolding d(2) ea_find_bgp_def ea_find_def ucast_EA_CODE
    by simp
  show "c' \<noteq> c \<Longrightarrow> ea_find_bgp e c' = ea_find_bgp to c'"
    using seg EA_CODE_inject [of c c'] unfolding d(2) ea_find_bgp_def ea_find_def ucast_EA_CODE by simp
qed

text \<open>The first attributes of a chain that was extended.\<close>

lemma attach_other: "bgp_attach_attr to c v = Inr e \<Longrightarrow> ea_find_bgp to c' = Some a \<Longrightarrow> c' \<noteq> c \<Longrightarrow> ea_find_bgp e c' = Some a"
  using attach_find(2) by simp

definition prepended :: "bgp_lib \<Rightarrow> bgp_proto \<Rightarrow> xroute \<Rightarrow> ea_seg list \<Rightarrow> bool" where
  "prepended L p r e \<longleftrightarrow> (\<exists>a b a' b'. ea_find_bgp (xr_eattrs r) BA_AS_PATH = Some a \<and> ea_u a = Ptr b \<and>
     ea_find_bgp e BA_AS_PATH = Some a' \<and> ea_u a' = Ptr b' \<and> as_path_prepend (bl_net L) b (bp_local_as p) = Inr b')"

lemma path_prepended:
  "bgp_path_prepend (bl_net L) r attrs (bp_local_as p) = Inr e \<Longrightarrow> prepended L p r e"
  by (auto simp: bgp_path_prepend_def prepended_def u_ptr_def rbind_Inr_iff split: option.splits eavalue.splits dest: attach_find(1))

lemma prepended_attach: "prepended L p r e \<Longrightarrow> bgp_attach_attr e c v = Inr e' \<Longrightarrow> c \<noteq> BA_AS_PATH \<Longrightarrow> prepended L p r e'"
  unfolding prepended_def by (metis attach_find(2))

lemma update_attrs_prepended:
  assumes "bgp_update_attrs L p src r attrs False = Inr e" "\<not> bp_is_internal p" "\<not> bp_rs_client p"
  shows "prepended L p r e"
proof -
  obtain e1 e2 where e: "bgp_path_prepend (bl_net L) r attrs (bp_local_as p) = Inr e1"
      "(if ea_find_bgp (xr_eattrs r) BA_MULTI_EXIT_DISC \<noteq> None then bgp_attach_attr e1 BA_MULTI_EXIT_DISC (Data 0) else Inr e1) = Inr e2"
      "e = e2 \<or> (\<exists>v. bgp_attach_attr e2 BA_NEXT_HOP v = Inr e)"
    using assms by (auto simp: bgp_update_attrs_def rbind_Inr_iff split: if_splits)
  have "prepended L p r e2" using path_prepended [OF e(1)] e(2) by (auto split: if_splits intro: prepended_attach simp: ba_defs)
  then show ?thesis using e(3) by (auto intro: prepended_attach simp: ba_defs)
qed

section \<open>An example\<close>

definition sample_route2 :: xroute where
  "sample_route2 = \<lparr>xr_eattrs = [\<lparr>eal_flags = 0, eal_attrs = map snd sample_attrs\<rparr>],
     xr_src = Some (sample_proto\<lparr>bp_ref := 2, bp_remote_as := 65003\<rparr>), xr_ospf_ext = False, xr_router = True, xr_gw = 0x0a000009, xr_iface = Some 2\<rparr>"

lemma sample_find2:
  "ea_find_bgp (xr_eattrs sample_route2) BA_CLUSTER_LIST = None" "ea_find_bgp (xr_eattrs sample_route2) BA_ORIGINATOR_ID = None"
  "ea_find_bgp (xr_eattrs sample_route2) BA_COMMUNITY = None"
  "ea_find_bgp (xr_eattrs sample_route2) BA_MULTI_EXIT_DISC = None"
  "ea_find_bgp (xr_eattrs sample_route2) BA_AS_PATH = Some (snd (sample_attrs ! 1))"
  "ea_find_bgp (xr_eattrs sample_route2) BA_NEXT_HOP = Some (snd (sample_attrs ! 2))"
  by (simp_all add: sample_route2_def ea_find_bgp_def ea_find_def bisect_def ucast_EA_CODE sample_attrs_def is_undef_def ba_defs
      EAF_TYPE_AS_PATH_def EAF_TYPE_IP_ADDRESS_def EAF_TYPE_MASK_def EAF_TYPE_UNDEF_def)

lemma attach_defined: "c \<in> {BA_AS_PATH, BA_NEXT_HOP, BA_ORIGINATOR_ID, BA_CLUSTER_LIST} \<Longrightarrow> \<exists>e. bgp_attach_attr to c v = Inr e"
  by (auto simp: bgp_attach_attr_def bgp_set_attr_def bgp_attr_table_def ba_defs)

section \<open>Properties\<close>

definition has_community :: "unaligned \<Rightarrow> xroute \<Rightarrow> u32 \<Rightarrow> bool" where
  "has_community H r c \<longleftrightarrow>
     (\<exists>a b. ea_find_bgp (xr_eattrs r) BA_COMMUNITY = Some a \<and> ea_u a = Ptr b \<and> c \<in> set (host_words H b))"



text \<open>Between two clients of different clusters both cluster ids should be put in front of the list, but
  the second call starts from the list of the route again: the first id is lost.\<close>

theorem first_cluster_lost:
  assumes "reflect_attrs H p src r attrs = Inr e" "bp_rr_client src" "bp_rr_client p" "bp_rr_cluster_id src \<noteq> bp_rr_cluster_id p"
    and "ea_find_bgp (xr_eattrs r) BA_CLUSTER_LIST = None"
  shows "\<exists>a. ea_find_bgp e BA_CLUSTER_LIST = Some a \<and> ea_u a = Ptr (words_data H [bp_rr_cluster_id p])"
proof -
  obtain e1 e2 where e: "bgp_cluster_list_prepend H r e2 (bp_rr_cluster_id p) = Inr e" 
    using assms(1-4) by (auto simp: reflect_attrs_def rbind_Inr_iff split: if_splits)
  then show ?thesis using assms(5) by (auto simp: bgp_cluster_list_prepend_def int_set_prepend_def dest: attach_find(1))
qed

theorem first_cluster_lost_witness:
  "\<exists>e a. reflect_attrs network_order (sample_proto\<lparr>bp_rr_client := True\<rparr>) (sample_proto\<lparr>bp_rr_client := True, bp_rr_cluster_id := 5\<rparr>)
       sample_route2 [] = Inr e \<and>
     ea_find_bgp e BA_CLUSTER_LIST = Some a \<and> ea_u a = Ptr (words_data network_order [1])"
proof -
  have "\<exists>e. reflect_attrs network_order (sample_proto\<lparr>bp_rr_client := True\<rparr>) (sample_proto\<lparr>bp_rr_client := True, bp_rr_cluster_id := 5\<rparr>)
       sample_route2 [] = Inr e"
    using attach_defined [of BA_ORIGINATOR_ID] attach_defined [of BA_CLUSTER_LIST]
    by (simp add: reflect_attrs_def bgp_cluster_list_prepend_def sample_find2 rbind_Inr_iff sample_proto_def) metis
  then obtain e where e: "reflect_attrs network_order (sample_proto\<lparr>bp_rr_client := True\<rparr>) (sample_proto\<lparr>bp_rr_client := True, bp_rr_cluster_id := 5\<rparr>)
       sample_route2 [] = Inr e" by blast
  from first_cluster_lost [OF this] show ?thesis using e by (auto simp: sample_find2 sample_proto_def)
qed

end
