(* ===== verification/Spec2Isabelle.thy ===== *)
theory Spec2Isabelle
  imports BgpDecision Nexthops CommSet AsPathMatch PrefixTrie RtRefresh FilterAttr RoaCheck
    BgpHandshake BgpExportRules
begin

text \<open>
  The BIRD internet routing daemon, version 1.6.4, that the repository carries under
  \<open>src/peering/bird-1.6.4\<close>: the part of it that handles routes. A BGP session
  (\<open>proto/bgp\<close>) decodes the attributes of a route into a chain of attribute lists
  (\<open>nest/rt-attr.c\<close>), whose values are encoded AS paths (\<open>nest/a-path.c\<close>) and lists of
  communities (\<open>nest/a-set.c\<close>); filters (\<open>filter/\<close>) test and change them; the routing table
  (\<open>nest/rt-table.c\<close>) chooses the best route with the comparison of the protocol; and the
  session encodes the attributes again for its neighbors.

  Conventions. A byte, a \<open>u16\<close>, \<open>u32\<close> and \<open>u64\<close> is a word of its width. A function that can
  abort the daemon (\<open>bug\<close>, a failed \<open>ASSERT\<close>) or has undefined behaviour on some input (a
  read or a write outside of an object, a variable that is read before it is set) returns
  \<open>fault + 'a\<close>, so that a theorem \<open>f x = Inr y\<close> says that neither happens. A block
  of bytes is a list; a pointer into it is the rest of the list from there on. What
  belongs to the directory \<open>lib\<close>, which is not in the repository, is a parameter: access to
  unaligned integers (record \<open>unaligned\<close>, locale \<open>unaligned_access\<close>) and the operations on IP
  addresses (record \<open>ip_ops\<close>, locale \<open>ip_address\<close>), both in \<open>Lib_Interfaces\<close> and both
  instantiated there, with network byte order and IPv4 addresses.
\<close>

text \<open>
  The theories:
  \<^item> \<open>Bird_Prelude\<close>: words, faults and results; lemmas on lists and bytes.
  \<^item> \<open>AsPath\<close>: the operations of \<open>nest/a-path.c\<close> on encoded paths, each equal to an operation
    on lists of segments.
  \<^item> \<open>AsPathMatch\<close>: \<open>as_path_match\<close>, a nondeterministic automaton over an array of marks, and
    the language that it decides.
  \<^item> \<open>CommSet\<close>: \<open>nest/a-set.c\<close>; the three kinds of community lists interpret one locale
    \<open>community_list\<close>, whose laws are those of a list used as a set.
  \<^item> \<open>EaList\<close>: the attribute chains of \<open>nest/rt-attr.c\<close>: search, \<open>ea_walk\<close>, the natural merge
    sort, prune, merge and comparison; normalization does not change what a search finds.
  \<^item> \<open>Nexthops\<close>: sorted lists of next hops and the allocation of source ids.
  \<^item> \<open>BgpAttrs\<close>: the table of BGP attributes, their validation, encoding and decoding, and
    the treatment of neighbors without 4-byte AS numbers, of \<open>proto/bgp/attrs.c\<close>.
  \<^item> \<open>BgpCodec\<close>: what is encoded fits into the buffer and is decoded to the same value.
  \<^item> \<open>BgpDecode\<close>: the decoder is defined on all bytes, and what it accepts is well-formed.
  \<^item> \<open>BgpDecision\<close>: comparison of routes and the choice of the best route of each group
    (deterministic MED).

  Bounds. Loops over a block of bytes recurse on the rest of the block; the passes of
  \<open>ea_do_sort\<close> on the number of runs. There is no fuel in these theories.

  Not modelled: text output; the caches and hash tables that use the macros of \<open>lib/hash.h\<close>;
  input and output; the other routing protocols.
\<close>

end
